(* ===== verification/C_Prelude.thy ===== *)
theory C_Prelude
  imports Main "HOL-Library.Word" "HOL-Library.AList"
begin

section \<open>Shared vocabulary: faults, arrays, tables and machine integers\<close>

text \<open>
  What every other theory of the development uses: the value a C operation has when it is
  defined and the fault it has when it is not, checked array accesses, \<open>memmove\<close> on the
  elements of one array, association lists for the tables (\<open>dict\<close>) of the server, and
  the facts on machine words and lists that the component proofs share.
\<close>

subsection \<open>Faults\<close>

text \<open>
  A fault is an execution the C program does not continue from in a defined way: an access
  outside an array, a failed \<open>serverAssert\<close>, a \<open>serverPanic\<close>, the use of a null pointer,
  the overflow of a signed addition where the operands come from a client, the end of the process by
  \<open>exit\<close>, and (for the loops modelled with a bound) the bound being exhausted.
\<close>

datatype fault = OutOfBounds | AssertFailed | Panicked | NullDeref | IntOverflow | Exited | OutOfFuel

type_synonym 'a cres = "fault + 'a"

text \<open>The integer types of the platform (64-bit Linux).\<close>

type_synonym u8 = "8 word"
type_synonym u16 = "16 word"
type_synonym u24 = "24 word"
type_synonym u32 = "32 word"
type_synonym u64 = "64 word"

text \<open>An \<open>sds\<close> string is its bytes.\<close>

type_synonym sds = "u8 list"

named_theorems cres_simps \<open>equations and case splits of the fault type\<close>
named_theorems arr_simps \<open>checked array accesses\<close>
named_theorems table_simps \<open>lookup after an update of a table\<close>

definition cbind :: "'a cres \<Rightarrow> ('a \<Rightarrow> 'b cres) \<Rightarrow> 'b cres" where
  "cbind r f = (case r of Inl e \<Rightarrow> Inl e | Inr x \<Rightarrow> f x)"

definition no_fault :: "'a cres \<Rightarrow> bool" where
  "no_fault r = (case r of Inl _ \<Rightarrow> False | Inr _ \<Rightarrow> True)"

definition cassert :: "bool \<Rightarrow> unit cres" where
  "cassert b = (if b then Inr () else Inl AssertFailed)"

lemma cbind_Inl [simp, cres_simps]: "cbind (Inl e) f = Inl e"
  by (simp add: cbind_def)

lemma cbind_Inr [simp, cres_simps]: "cbind (Inr x) f = f x"
  by (simp add: cbind_def)

lemma cbind_eq_Inr [cres_simps]: "cbind r f = Inr y \<longleftrightarrow> (\<exists>x. r = Inr x \<and> f x = Inr y)"
  by (cases r) auto

lemma cbind_assoc: "cbind (cbind r f) g = cbind r (\<lambda>x. cbind (f x) g)"
  by (cases r) auto

lemma cbind_cong [fundef_cong]:
  "r = r' \<Longrightarrow> (\<And>x. r' = Inr x \<Longrightarrow> f x = f' x) \<Longrightarrow> cbind r f = cbind r' f'"
  by (cases r') auto

lemma no_fault_Inr [simp, cres_simps]: "no_fault (Inr x)"
  by (simp add: no_fault_def)

lemma no_fault_Inl [simp, cres_simps]: "\<not> no_fault (Inl e)"
  by (simp add: no_fault_def)

lemma no_faultE [elim]:
  assumes "no_fault r" obtains x where "r = Inr x"
  using assms by (cases r) auto

lemma no_faultI [intro]: "r = Inr x \<Longrightarrow> no_fault r"
  by simp

lemma cassert_True [simp, cres_simps]: "cassert True = Inr ()"
  by (simp add: cassert_def)

lemma cassert_False [simp, cres_simps]: "cassert False = Inl AssertFailed"
  by (simp add: cassert_def)

lemma cassert_eq_Inr [cres_simps]: "cassert b = Inr u \<longleftrightarrow> b"
  by (simp add: cassert_def)

subsection \<open>Arrays\<close>

definition arr_get :: "'a list \<Rightarrow> nat \<Rightarrow> 'a cres" where
  "arr_get xs i = (if i < length xs then Inr (xs ! i) else Inl OutOfBounds)"

definition arr_set :: "'a list \<Rightarrow> nat \<Rightarrow> 'a \<Rightarrow> 'a list cres" where
  "arr_set xs i v = (if i < length xs then Inr (xs[i := v]) else Inl OutOfBounds)"

text \<open>\<open>memmove(a + dst, a + src, n * sizeof a[0])\<close> on the elements of one array.\<close>

definition arr_move :: "'a list \<Rightarrow> nat \<Rightarrow> nat \<Rightarrow> nat \<Rightarrow> 'a list cres" where
  "arr_move xs dst src n =
     (if dst + n \<le> length xs \<and> src + n \<le> length xs
      then Inr (take dst xs @ take n (drop src xs) @ drop (dst + n) xs)
      else Inl OutOfBounds)"

lemma arr_get_Inr [arr_simps]: "i < length xs \<Longrightarrow> arr_get xs i = Inr (xs ! i)"
  by (simp add: arr_get_def)

lemma arr_get_fault [arr_simps]: "length xs \<le> i \<Longrightarrow> arr_get xs i = Inl OutOfBounds"
  by (simp add: arr_get_def)

lemma arr_set_Inr [arr_simps]: "i < length xs \<Longrightarrow> arr_set xs i v = Inr (xs[i := v])"
  by (simp add: arr_set_def)

lemma arr_set_fault [arr_simps]: "length xs \<le> i \<Longrightarrow> arr_set xs i v = Inl OutOfBounds"
  by (simp add: arr_set_def)

lemma arr_move_length [arr_simps]: "arr_move xs d s n = Inr ys \<Longrightarrow> length ys = length xs"
  by (auto simp: arr_move_def split: if_splits)

subsection \<open>The last elements of a list\<close>

definition take_last :: "nat \<Rightarrow> 'a list \<Rightarrow> 'a list" where
  "take_last n xs = drop (length xs - n) xs"

lemma length_take_last [simp]: "length (take_last n xs) = min n (length xs)"
  by (auto simp: take_last_def)

lemma take_last_id: "length xs \<le> n \<Longrightarrow> take_last n xs = xs"
  by (simp add: take_last_def)

lemma take_last_snoc:
  "take_last n (xs @ [x]) =
     (if n = 0 then [] else if length xs < n then xs @ [x] else tl (take_last n xs) @ [x])"
proof (cases "n = 0 \<or> length xs < n")
  case False
  then have "Suc (length xs) - n = Suc (length xs - n)" by (simp add: Suc_diff_le)
  with False show ?thesis
    by (simp add: take_last_def drop_Suc tl_drop)
qed (auto simp: take_last_def)

subsection \<open>Tables\<close>

text \<open>
  A \<open>dict\<close> of the server is a finite table: an association list with distinct keys. The
  hash table behind it (\<open>dict.c\<close>, not part of the repository) is visible to the code only
  through its entries; what it chooses (a sample, a random entry) is a parameter wherever
  the code asks for it.
\<close>

type_synonym ('k, 'v) dict = "('k \<times> 'v) list"

definition dict_wf :: "('k, 'v) dict \<Rightarrow> bool" where
  "dict_wf d = distinct (map fst d)"

definition dictFind :: "('k, 'v) dict \<Rightarrow> 'k \<Rightarrow> 'v option" where
  "dictFind d k = map_of d k"

definition dictSet :: "('k, 'v) dict \<Rightarrow> 'k \<Rightarrow> 'v \<Rightarrow> ('k, 'v) dict" where
  "dictSet d k v = AList.update k v d"

definition dictDelete :: "('k, 'v) dict \<Rightarrow> 'k \<Rightarrow> ('k, 'v) dict" where
  "dictDelete d k = AList.delete k d"

definition dictSize :: "('k, 'v) dict \<Rightarrow> nat" where
  "dictSize d = length d"

lemma dictFind_Nil [simp, table_simps]: "dictFind [] k = None"
  by (simp add: dictFind_def)

lemma dictFind_set [simp, table_simps]:
  "dictFind (dictSet d k v) k' = (if k' = k then Some v else dictFind d k')"
  by (simp add: dictFind_def dictSet_def update_conv)

lemma dictFind_delete [simp, table_simps]:
  "dictFind (dictDelete d k) k' = (if k' = k then None else dictFind d k')"
  by (simp add: dictFind_def dictDelete_def delete_conv)

lemma dict_wf_Nil [simp, intro]: "dict_wf []"
  by (simp add: dict_wf_def)

lemma dict_wf_set [simp, intro]: "dict_wf d \<Longrightarrow> dict_wf (dictSet d k v)"
  by (simp add: dict_wf_def dictSet_def distinct_update)

lemma dict_wf_delete [simp, intro]: "dict_wf d \<Longrightarrow> dict_wf (dictDelete d k)"
  by (simp add: dict_wf_def dictDelete_def distinct_delete)

lemma dictFind_None_iff: "dictFind d k = None \<longleftrightarrow> k \<notin> fst ` set d"
  by (simp add: dictFind_def map_of_eq_None_iff)

lemma dictSize_eq_0 [simp]: "dictSize d = 0 \<longleftrightarrow> d = []"
  by (simp add: dictSize_def)

lemma dictDelete_absent: "dictFind d k = None \<Longrightarrow> dictDelete d k = d"
  by (simp add: dictFind_None_iff dictDelete_def delete_id)

lemma dictSize_set:
  "dictSize (dictSet d k v) = (if dictFind d k = None then Suc (dictSize d) else dictSize d)"
  by (induction d) (auto simp: dictSize_def dictSet_def dictFind_def)

lemma dictSize_delete:
  assumes "dict_wf d"
  shows "dictSize (dictDelete d k) =
           (if dictFind d k = None then dictSize d else dictSize d - 1)"
  using assms
proof (induction d)
  case (Cons a d)
  obtain x y where a: "a = (x, y)" by (cases a)
  show ?case
  proof (cases "x = k")
    case True
    with Cons a have "k \<notin> fst ` set d" by (simp add: dict_wf_def)
    with True a show ?thesis
      by (simp add: dictSize_def dictDelete_def dictFind_def delete_id)
  next
    case False
    with Cons a have "dictSize (dictDelete d k) = (if dictFind d k = None then dictSize d else dictSize d - 1)"
      by (simp add: dict_wf_def)
    moreover have "dictFind d k \<noteq> None \<Longrightarrow> 0 < length d"
      by (cases d) auto
    ultimately show ?thesis using False a
      by (auto simp: dictSize_def dictDelete_def dictFind_def split: if_splits)
  qed
qed (simp add: dictSize_def dictDelete_def)

subsection \<open>Machine words\<close>

lemma unat_less_pow24: "unat (w :: u24) < 2 ^ 24"
  using unsigned_less [of w, where 'a = nat] by simp

lemma unat_u24_u64 [simp]: "unat (ucast (w :: u24) :: u64) = unat w"
proof -
  have "unat w < 2 ^ 64" using unat_less_pow24 [of w] by simp
  then show ?thesis
    by (simp add: unsigned_ucast_eq take_bit_nat_eq_self)
qed

lemma unat_u32_u64 [simp]: "unat (ucast (w :: u32) :: u64) = unat w"
proof -
  have "unat w < 2 ^ 64" using unsigned_less [of w, where 'a = nat] by simp
  then show ?thesis by (simp add: unsigned_ucast_eq take_bit_nat_eq_self)
qed

lemma unat_add_small: "unat (a::u64) + unat b < 2 ^ 64 \<Longrightarrow> unat (a + b) = unat a + unat b"
  using unat_add_lem [of a b] by simp

lemma unat_mult_small: "unat (a::u64) * unat b < 2 ^ 64 \<Longrightarrow> unat (a * b) = unat a * unat b"
  using unat_mult_lem [of a b] by simp

lemma sint_u64_small:
  assumes "unat (w :: u64) < 2 ^ 63"
  shows "sint w = int (unat w)"
proof -
  have u: "uint w = int (unat w)" by simp
  have "int (unat w) < 2 ^ 63" using assms by (simp add: nat_less_iff flip: of_nat_less_iff [where 'a = int])
  moreover have "- (2 ^ 63) \<le> int (unat w)" by (rule order_trans [of _ 0]) simp_all
  ultimately show ?thesis unfolding sint_uint u by (simp add: signed_take_bit_int_eq_self_iff)
qed

lemma unat_sub_small: "b \<le> (a::u64) \<Longrightarrow> unat (a - b) = unat a - unat b"
  by (rule unat_sub)

end
