(* ===== verification/C_Double.thy ===== *)
theory C_Double
  imports C_Prelude "HOL-Library.Log_Nat"
begin

section \<open>IEEE-754 double arithmetic\<close>

text \<open>
  The statistics and the scores of the histogram policy are C \<open>double\<close>s. A double is a
  rational number or the NaN of an invalid operation; every operation computes the exact
  rational result and rounds it to 53 significant bits, to nearest, ties to even, with the
  exponent of the smallest subnormal as the lower limit. There is no infinity: the values
  the code computes stay below \<open>2 ^ 130\<close>. The two zeros of the standard are one value
  (no operation used here tells them apart). The last section shows the rounding monotone,
  exact on the integers of at most 53 bits, and accurate to \<open>2 ^ -53\<close>.
\<close>

subsection \<open>Rounding of rationals\<close>

definition ilog2 :: "rat \<Rightarrow> int" where
  "ilog2 x = (let (n, d) = quotient_of x; e = bitlen n - bitlen d
              in if 2 powi e \<le> x then e else e - 1)"

definition round_even :: "rat \<Rightarrow> int" where
  "round_even x = (let f = \<lfloor>x\<rfloor>; r = x - of_int f
                   in if r < 1 / 2 then f else if 1 / 2 < r then f + 1
                      else if even f then f else f + 1)"

definition ulp_exp :: "rat \<Rightarrow> int" where
  "ulp_exp x = max (ilog2 \<bar>x\<bar> - 52) (- 1074)"

definition rnd :: "rat \<Rightarrow> rat" where
  "rnd x = (if x = 0 then 0
            else of_int (round_even (x / 2 powi ulp_exp x)) * 2 powi ulp_exp x)"

subsection \<open>Values and operations\<close>

datatype double = NaN | Fin rat

fun dadd :: "double \<Rightarrow> double \<Rightarrow> double" where
  "dadd (Fin x) (Fin y) = Fin (rnd (x + y))"
| "dadd _ _ = NaN"

fun dsub :: "double \<Rightarrow> double \<Rightarrow> double" where
  "dsub (Fin x) (Fin y) = Fin (rnd (x - y))"
| "dsub _ _ = NaN"

fun dmul :: "double \<Rightarrow> double \<Rightarrow> double" where
  "dmul (Fin x) (Fin y) = Fin (rnd (x * y))"
| "dmul _ _ = NaN"

text \<open>Division is used with a positive divisor only; a zero divisor is NaN here.\<close>

fun ddiv :: "double \<Rightarrow> double \<Rightarrow> double" where
  "ddiv (Fin x) (Fin y) = (if y = 0 then NaN else Fin (rnd (x / y)))"
| "ddiv _ _ = NaN"

fun dneg :: "double \<Rightarrow> double" where
  "dneg (Fin x) = Fin (- x)"
| "dneg NaN = NaN"

fun dlt :: "double \<Rightarrow> double \<Rightarrow> bool" where
  "dlt (Fin x) (Fin y) = (x < y)"
| "dlt _ _ = False"

fun dle :: "double \<Rightarrow> double \<Rightarrow> bool" where
  "dle (Fin x) (Fin y) = (x \<le> y)"
| "dle _ _ = False"

text \<open>\<open>fmax\<close> and \<open>fmin\<close> return the other argument when one is NaN.\<close>

fun dfmax :: "double \<Rightarrow> double \<Rightarrow> double" where
  "dfmax NaN y = y"
| "dfmax x NaN = x"
| "dfmax (Fin x) (Fin y) = Fin (max x y)"

fun dfmin :: "double \<Rightarrow> double \<Rightarrow> double" where
  "dfmin NaN y = y"
| "dfmin x NaN = x"
| "dfmin (Fin x) (Fin y) = Fin (min x y)"

text \<open>The conversion from an integer type, and a decimal literal of the source.\<close>

definition dof_int :: "int \<Rightarrow> double" where
  "dof_int i = Fin (rnd (of_int i))"

definition dof_nat :: "nat \<Rightarrow> double" where
  "dof_nat n = Fin (rnd (of_nat n))"

definition dof_u64 :: "u64 \<Rightarrow> double" where
  "dof_u64 w = dof_nat (unat w)"

definition dlit :: "rat \<Rightarrow> double" where
  "dlit x = Fin (rnd x)"

fun is_nan :: "double \<Rightarrow> bool" where
  "is_nan NaN = True"
| "is_nan (Fin _) = False"

text \<open>
  \<open>sqrt\<close> is correctly rounded. With \<open>u = 2 powi (e div 2 - 54)\<close> the integer part
  \<open>s\<close> of \<open>sqrt x / u\<close> has at least 55 bits; when the root is not exactly \<open>s * u\<close> it
  lies strictly between \<open>s * u\<close> and \<open>(s + 1) * u\<close>, an interval without a midpoint of two
  doubles, so rounding any of its points, here \<open>s * u + u / 2\<close>, rounds the root.
\<close>

function isqrt :: "int \<Rightarrow> int" where
  "isqrt n = (if n \<le> 0 then 0
              else let r = 2 * isqrt (n div 4) in if (r + 1) * (r + 1) \<le> n then r + 1 else r)"
  by pat_completeness auto
termination
  by (relation "measure nat") auto

declare isqrt.simps [simp del]

definition sqrt_rat :: "rat \<Rightarrow> rat" where
  "sqrt_rat x =
     (let u = 2 powi (ilog2 x div 2 - 54);
          s = isqrt \<lfloor>x / (u * u)\<rfloor>
      in if of_int (s * s) * (u * u) = x then of_int s * u else of_int s * u + u / 2)"

fun dsqrt :: "double \<Rightarrow> double" where
  "dsqrt NaN = NaN"
| "dsqrt (Fin x) = (if x < 0 then NaN else if x = 0 then Fin 0 else Fin (rnd (sqrt_rat x)))"

subsection \<open>The exponent of a positive rational\<close>

lemma quotient_of_pos:
  assumes "0 < x" "quotient_of x = (n, d)"
  shows "0 < n" "0 < d" "x = of_int n / of_int d"
  using assms quotient_of_denom_pos [OF assms(2)] quotient_of_div [OF assms(2)]
  by (auto simp: zero_less_divide_iff)

lemma bitlen_powi:
  assumes "0 < n"
  shows "(2 :: rat) powi (bitlen n - 1) \<le> of_int n" "of_int n < (2 :: rat) powi (bitlen n)"
proof -
  have b: "1 \<le> bitlen n" using assms bitlen_bounds [OF assms] bitlen_nonneg [of n]
    by (cases "bitlen n = 0") auto
  have "(2::int) ^ nat (bitlen n - 1) \<le> n" and "n < 2 ^ nat (bitlen n)"
    using bitlen_bounds [OF assms] by auto
  then have "(2::rat) ^ nat (bitlen n - 1) \<le> of_int n" and "of_int n < (2::rat) ^ nat (bitlen n)"
    by (metis of_int_le_iff of_int_numeral of_int_power, metis of_int_less_iff of_int_numeral of_int_power)
  with b show "(2 :: rat) powi (bitlen n - 1) \<le> of_int n" "of_int n < (2 :: rat) powi (bitlen n)"
    by (simp_all add: power_int_nonneg_exp)
qed

lemma ilog2_bounds:
  assumes "0 < x"
  shows "2 powi ilog2 x \<le> x" "x < 2 powi (ilog2 x + 1)"
proof -
  obtain n d where q: "quotient_of x = (n, d)" by (cases "quotient_of x")
  note p = quotient_of_pos [OF assms q]
  define e where "e = bitlen n - bitlen d"
  have N: "(2 :: rat) powi (bitlen n - 1) \<le> of_int n" "of_int n < (2 :: rat) powi (bitlen n)"
    using bitlen_powi p(1) by auto
  have D: "(2 :: rat) powi (bitlen d - 1) \<le> of_int d" "of_int d < (2 :: rat) powi (bitlen d)"
    using bitlen_powi p(2) by auto
  have "2 powi (e - 1) * of_int d \<le> (2 :: rat) powi (e - 1) * 2 powi (bitlen d)"
    using D by (intro mult_left_mono) auto
  also have "\<dots> = 2 powi (bitlen n - 1)" by (simp add: e_def flip: power_int_add)
  finally have lo: "2 powi (e - 1) \<le> x" using N p by (simp add: le_divide_eq)
  have "of_int n < (2 :: rat) powi (e + 1) * 2 powi (bitlen d - 1)"
    using N by (simp add: e_def flip: power_int_add)
  also have "\<dots> \<le> 2 powi (e + 1) * of_int d"
    using D by (intro mult_left_mono) auto
  finally have hi: "x < 2 powi (e + 1)" using p by (simp add: divide_less_eq)
  have i: "ilog2 x = (if 2 powi e \<le> x then e else e - 1)"
    by (simp add: ilog2_def q e_def)
  from lo hi show "2 powi ilog2 x \<le> x" "x < 2 powi (ilog2 x + 1)"
    by (auto simp: i)
qed

lemma ilog2_unique:
  assumes "0 < x" "2 powi e \<le> x" "x < 2 powi (e + 1)"
  shows "ilog2 x = e"
proof (rule antisym)
  note b = ilog2_bounds [OF assms(1)]
  show "ilog2 x \<le> e"
  proof (rule ccontr)
    assume "\<not> ilog2 x \<le> e"
    then have "(2::rat) powi (e + 1) \<le> 2 powi ilog2 x" by (intro power_int_increasing) auto
    with b assms show False by simp
  qed
  show "e \<le> ilog2 x"
  proof (rule ccontr)
    assume "\<not> e \<le> ilog2 x"
    then have "(2::rat) powi (ilog2 x + 1) \<le> 2 powi e" by (intro power_int_increasing) auto
    with b assms show False by simp
  qed
qed

lemma ilog2_mono:
  assumes "0 < x" "x \<le> y"
  shows "ilog2 x \<le> ilog2 y"
proof (rule ccontr)
  assume "\<not> ilog2 x \<le> ilog2 y"
  then have "(2::rat) powi (ilog2 y + 1) \<le> 2 powi ilog2 x" by (intro power_int_increasing) auto
  with ilog2_bounds [of x] ilog2_bounds [of y] assms show False by simp
qed

subsection \<open>Rounding to an integer\<close>

lemma round_even_of_int [simp]: "round_even (of_int i) = i"
  by (simp add: round_even_def)

lemma round_even_err: "\<bar>of_int (round_even x) - x\<bar> \<le> 1 / 2"
proof -
  define f where "f = \<lfloor>x\<rfloor>"
  have "of_int f \<le> x" "x < of_int f + 1" using floor_correct [of x] by (auto simp: f_def)
  then show ?thesis by (auto simp: round_even_def Let_def f_def [symmetric] abs_le_iff)
qed

lemma round_even_mono:
  assumes "x \<le> y"
  shows "round_even x \<le> round_even y"
proof (cases "\<lfloor>x\<rfloor> = \<lfloor>y\<rfloor>")
  case True
  with assms show ?thesis by (auto simp: round_even_def Let_def)
next
  case False
  with assms have "\<lfloor>x\<rfloor> + 1 \<le> \<lfloor>y\<rfloor>" using floor_mono [OF assms] by linarith
  moreover have "round_even x \<le> \<lfloor>x\<rfloor> + 1" "\<lfloor>y\<rfloor> \<le> round_even y"
    by (auto simp: round_even_def Let_def)
  ultimately show ?thesis by linarith
qed

lemma round_even_minus: "round_even (- x) = - round_even x"
proof (cases "x = of_int \<lfloor>x\<rfloor>")
  case True
  then have "round_even x = \<lfloor>x\<rfloor>" "round_even (- x) = - \<lfloor>x\<rfloor>"
    by (metis round_even_of_int, metis of_int_minus round_even_of_int)
  then show ?thesis by simp
next
  case False
  define f where "f = \<lfloor>x\<rfloor>"
  have f: "of_int f < x" "x < of_int f + 1"
    using False floor_correct [of x] by (auto simp: f_def order_less_le)
  have m: "\<lfloor>- x\<rfloor> = - f - 1"
    using f by (intro floor_unique) auto
  show ?thesis
    using f unfolding round_even_def Let_def m f_def [symmetric]
    by auto
qed

subsection \<open>Properties of the rounding\<close>

lemma ulp_exp_minus [simp]: "ulp_exp (- x) = ulp_exp x"
  by (simp add: ulp_exp_def)

lemma rnd_0 [simp]: "rnd 0 = 0"
  by (simp add: rnd_def)

lemma rnd_minus [simp]: "rnd (- x) = - rnd x"
  by (simp add: rnd_def round_even_minus)

lemma rnd_le_pow:
  assumes "0 < x" "x \<le> 2 powi k" "ulp_exp x \<le> k"
  shows "rnd x \<le> 2 powi k"
proof -
  have k: "(2::rat) powi k = of_int (2 ^ nat (k - ulp_exp x)) * 2 powi ulp_exp x"
    using assms(3) by (simp flip: power_int_nonneg_exp power_int_add)
  have "x / 2 powi ulp_exp x \<le> of_int (2 ^ nat (k - ulp_exp x))"
    using assms(2) unfolding k by (simp add: divide_le_eq)
  then have "round_even (x / 2 powi ulp_exp x) \<le> 2 ^ nat (k - ulp_exp x)"
    using round_even_mono round_even_of_int by metis
  then have "rat_of_int (round_even (x / 2 powi ulp_exp x)) \<le> of_int (2 ^ nat (k - ulp_exp x))"
    by (simp only: of_int_le_iff)
  then show ?thesis using assms(1) unfolding k
    by (simp add: rnd_def mult_right_mono)
qed

lemma rnd_ge_pow:
  assumes "0 < x" "2 powi k \<le> x" "ulp_exp x \<le> k"
  shows "2 powi k \<le> rnd x"
proof -
  have k: "(2::rat) powi k = of_int (2 ^ nat (k - ulp_exp x)) * 2 powi ulp_exp x"
    using assms(3) by (simp flip: power_int_nonneg_exp power_int_add)
  have "of_int (2 ^ nat (k - ulp_exp x)) \<le> x / 2 powi ulp_exp x"
    using assms(2) unfolding k by (simp add: le_divide_eq)
  then have "2 ^ nat (k - ulp_exp x) \<le> round_even (x / 2 powi ulp_exp x)"
    using round_even_mono round_even_of_int by metis
  then have "of_int (2 ^ nat (k - ulp_exp x)) \<le> rat_of_int (round_even (x / 2 powi ulp_exp x))"
    by (simp only: of_int_le_iff)
  then show ?thesis using assms(1) unfolding k
    by (simp add: rnd_def mult_right_mono)
qed

lemma rnd_mono_pos:
  assumes "0 < x" "x \<le> y"
  shows "rnd x \<le> rnd y"
proof -
  have le: "ulp_exp x \<le> ulp_exp y"
    using ilog2_mono [OF assms] assms by (simp add: ulp_exp_def)
  show ?thesis
  proof (cases "ulp_exp x = ulp_exp y")
    case True
    have "round_even (x / 2 powi ulp_exp y) \<le> round_even (y / 2 powi ulp_exp y)"
      using assms by (intro round_even_mono divide_right_mono) auto
    then have "of_int (round_even (x / 2 powi ulp_exp y)) * (2::rat) powi ulp_exp y
                 \<le> of_int (round_even (y / 2 powi ulp_exp y)) * 2 powi ulp_exp y"
      by (intro mult_right_mono) auto
    then show ?thesis using True assms by (simp add: rnd_def)
  next
    case False
    with le have lt: "ulp_exp x < ulp_exp y" by simp
    define k where "k = ilog2 y"
    have yk: "ulp_exp y = k - 52" and xk: "ilog2 x < k"
      using lt assms by (auto simp: ulp_exp_def k_def max_def split: if_splits)
    have "x < 2 powi (ilog2 x + 1)" using ilog2_bounds assms by blast
    also have "\<dots> \<le> (2::rat) powi k" using xk by (intro power_int_increasing) auto
    finally have "rnd x \<le> 2 powi k" using lt yk assms by (intro rnd_le_pow) auto
    also have "\<dots> \<le> rnd y"
      using ilog2_bounds [of y] assms yk by (intro rnd_ge_pow) (auto simp: k_def)
    finally show ?thesis .
  qed
qed

lemma rnd_pos: "0 \<le> x \<Longrightarrow> 0 \<le> rnd x"
proof (cases "x = 0")
  case False
  assume "0 \<le> x"
  then have "0 \<le> round_even (x / 2 powi ulp_exp x)"
    using round_even_mono [of 0 "x / 2 powi ulp_exp x"] round_even_of_int [of 0] by simp
  then show ?thesis by (simp add: rnd_def)
qed simp

lemma rnd_mono: "x \<le> y \<Longrightarrow> rnd x \<le> rnd y"
proof -
  assume le: "x \<le> y"
  consider "0 < x" | "x \<le> 0" "0 \<le> y" | "y < 0" by linarith
  then show ?thesis
  proof cases
    case 2
    then have "rnd x \<le> 0" using rnd_pos [of "- x"] by simp
    also have "0 \<le> rnd y" using 2 by (intro rnd_pos)
    finally show ?thesis .
  next
    case 3
    then show ?thesis using rnd_mono_pos [of "- y" "- x"] le by simp
  qed (use le in \<open>auto intro: rnd_mono_pos\<close>)
qed

lemma rnd_exact: "x = of_int m * 2 powi ulp_exp x \<Longrightarrow> rnd x = x"
  by (metis (no_types, lifting) nonzero_mult_div_cancel_right power_int_eq_0_iff
        rnd_def round_even_of_int zero_neq_numeral)

lemma rnd_int:
  assumes "\<bar>i\<bar> < 2 ^ 53"
  shows "rnd (of_int i) = of_int i"
proof (cases "i = 0")
  case False
  have "ilog2 (of_int \<bar>i\<bar>) \<le> 52"
  proof (rule ccontr)
    assume "\<not> ilog2 (of_int \<bar>i\<bar>) \<le> 52"
    then have "(2::rat) powi 53 \<le> 2 powi ilog2 (of_int \<bar>i\<bar>)" by (intro power_int_increasing) auto
    also have "\<dots> \<le> of_int \<bar>i\<bar>" using False by (intro ilog2_bounds) auto
    finally have "(of_int (2 ^ 53) :: rat) \<le> of_int \<bar>i\<bar>" by simp
    then have "2 ^ 53 \<le> \<bar>i\<bar>" by (simp only: of_int_le_iff)
    with assms show False by simp
  qed
  then have u: "ulp_exp (of_int i) \<le> 0" by (simp add: ulp_exp_def)
  have "(of_int i :: rat) = of_int (i * 2 ^ nat (- ulp_exp (of_int i))) * 2 powi ulp_exp (of_int i)"
    using u by (simp add: mult.assoc flip: power_int_nonneg_exp power_int_add)
  then show ?thesis by (rule rnd_exact)
qed simp

lemma rnd_nat: "n < 2 ^ 53 \<Longrightarrow> rnd (of_nat n) = of_nat n"
  using rnd_int [of "int n"] by simp

lemma rnd_err:
  assumes "2 powi (- 1022) \<le> \<bar>x\<bar>"
  shows "\<bar>rnd x - x\<bar> \<le> \<bar>x\<bar> / 2 ^ 53"
proof -
  have p: "(0::rat) < 2 powi (- 1022)" by (rule zero_less_power_int) simp
  from less_le_trans [OF p assms] have x: "0 < \<bar>x\<bar>" .
  have "- 1022 \<le> ilog2 \<bar>x\<bar>"
  proof (rule ccontr)
    assume "\<not> - 1022 \<le> ilog2 \<bar>x\<bar>"
    then have "(2::rat) powi (ilog2 \<bar>x\<bar> + 1) \<le> 2 powi (- 1022)" by (intro power_int_increasing) auto
    with ilog2_bounds [OF x] assms show False by linarith
  qed
  then have u: "ulp_exp x = ilog2 \<bar>x\<bar> - 52" by (simp add: ulp_exp_def)
  let ?u = "(2::rat) powi ulp_exp x"
  have "?u * 2 ^ 52 = 2 powi ilog2 \<bar>x\<bar>" by (simp add: u power_int_diff)
  with ilog2_bounds [OF x] have ux: "?u \<le> \<bar>x\<bar> / 2 ^ 52" by (simp add: le_divide_eq)
  have "rnd x - x = (of_int (round_even (x / ?u)) - x / ?u) * ?u"
    using x by (simp add: rnd_def left_diff_distrib)
  then have "\<bar>rnd x - x\<bar> = \<bar>of_int (round_even (x / ?u)) - x / ?u\<bar> * ?u"
    by (simp add: abs_mult)
  also have "\<dots> \<le> 1 / 2 * ?u" by (intro mult_right_mono round_even_err) auto
  finally show ?thesis using ux by simp
qed

subsection \<open>Facts the statistics and the scores use\<close>

lemma dof_u64_le: "a \<le> b \<Longrightarrow> dle (dof_u64 a) (dof_u64 b)"
  using rnd_mono [of "of_nat (unat a)" "of_nat (unat b)"]
  by (simp only: dof_u64_def dof_nat_def dle.simps of_nat_le_iff word_le_nat_alt)

lemma dof_u64_small: "unat a < 2 ^ 53 \<Longrightarrow> dof_u64 a = Fin (of_nat (unat a))"
  by (simp only: dof_u64_def dof_nat_def rnd_nat)

lemma dof_int_small: "\<bar>i\<bar> < 2 ^ 53 \<Longrightarrow> dof_int i = Fin (of_int i)"
  by (simp add: dof_int_def rnd_int)

lemma dle_trans: "dle a b \<Longrightarrow> dle b c \<Longrightarrow> dle a c"
  by (cases a; cases b; cases c) auto

lemma dle_total: "\<not> is_nan a \<Longrightarrow> \<not> is_nan b \<Longrightarrow> dle a b \<or> dle b a"
  by (cases a; cases b) auto

lemma not_nan_Fin: "\<not> is_nan a \<longleftrightarrow> (\<exists>x. a = Fin x)"
  by (cases a) auto

lemma isqrt_bounds: "0 \<le> n \<Longrightarrow> isqrt n * isqrt n \<le> n \<and> n < (isqrt n + 1) * (isqrt n + 1)"
proof (induction n rule: isqrt.induct)
  case (1 n)
  show ?case
  proof (cases "n \<le> 0")
    case True
    with 1 show ?thesis by (simp add: isqrt.simps)
  next
    case False
    define s where "s = isqrt (n div 4)"
    from 1 False have s: "s * s \<le> n div 4" "n div 4 < (s + 1) * (s + 1)"
      by (auto simp: s_def)
    from s(1) have "4 * (s * s) \<le> n" by linarith
    moreover from s(2) have "n < 4 * ((s + 1) * (s + 1))" by linarith
    moreover have "isqrt n = (let r = 2 * s in if (r + 1) * (r + 1) \<le> n then r + 1 else r)"
      using False by (subst isqrt.simps) (simp add: s_def)
    ultimately show ?thesis by (auto simp: Let_def algebra_simps)
  qed
qed

lemma isqrt_nonneg: "0 \<le> isqrt n"
proof (induction n rule: isqrt.induct)
  case (1 n)
  then show ?case by (subst isqrt.simps) (auto simp: Let_def)
qed

lemma dsqrt_nonneg: "0 \<le> x \<Longrightarrow> \<exists>r. dsqrt (Fin x) = Fin r \<and> 0 \<le> r"
  by (auto simp: sqrt_rat_def Let_def isqrt_nonneg
        intro!: rnd_pos add_nonneg_nonneg mult_nonneg_nonneg)

lemma dsqrt_16: "dsqrt (Fin 16) = Fin 4"
  by code_simp

lemma ulp_exp_le:
  assumes "0 < \<bar>x\<bar>" "\<bar>x\<bar> < 2 powi (k + 1)" "- 1022 \<le> k"
  shows "ulp_exp x \<le> k - 52"
proof -
  have "ilog2 \<bar>x\<bar> \<le> k"
  proof (rule ccontr)
    assume "\<not> ilog2 \<bar>x\<bar> \<le> k"
    then have "(2::rat) powi (k + 1) \<le> 2 powi ilog2 \<bar>x\<bar>" by (intro power_int_increasing) auto
    with ilog2_bounds [OF assms(1)] assms(2) show False by linarith
  qed
  with assms(3) show ?thesis by (simp add: ulp_exp_def)
qed

lemma rnd_err_ulp: "\<bar>rnd x - x\<bar> \<le> 2 powi ulp_exp x / 2"
proof (cases "x = 0")
  case False
  let ?u = "(2::rat) powi ulp_exp x"
  have "rnd x - x = (of_int (round_even (x / ?u)) - x / ?u) * ?u"
    using False by (simp add: rnd_def left_diff_distrib)
  then have "\<bar>rnd x - x\<bar> = \<bar>of_int (round_even (x / ?u)) - x / ?u\<bar> * ?u"
    by (simp add: abs_mult)
  also have "\<dots> \<le> 1 / 2 * ?u" by (intro mult_right_mono round_even_err) auto
  finally show ?thesis by simp
qed simp

text \<open>The absolute error on the range the scores live in.\<close>

lemma rnd_err_small:
  assumes "\<bar>x\<bar> < 4"
  shows "\<bar>rnd x - x\<bar> \<le> 1 / 2 ^ 52"
proof (cases "x = 0")
  case False
  have "ulp_exp x \<le> 1 - 52" using assms False by (intro ulp_exp_le) auto
  then have "(2::rat) powi ulp_exp x \<le> 2 powi (- 51)" by (intro power_int_increasing) auto
  also have "\<dots> = 1 / 2 ^ 51" by (simp only: power_int_minus_divide power_int_numeral)
  finally show ?thesis using rnd_err_ulp [of x] by simp
qed simp

lemma abs_power_int_two: "\<bar>(2::rat) powi k\<bar> = 2 powi k"
  by simp

lemma rnd_idem [simp]: "rnd (rnd x) = rnd x"
proof (cases "x = 0 \<or> rnd x = 0")
  case False
  then have x: "x \<noteq> 0" "0 < \<bar>x\<bar>" and y: "0 < \<bar>rnd x\<bar>" by auto
  define u n where "u = ulp_exp x" and "n = round_even (x / 2 powi u)"
  have r: "rnd x = of_int n * 2 powi u" using x by (simp add: rnd_def u_def n_def)
  have k: "ilog2 \<bar>x\<bar> + 1 \<le> u + 53" by (simp add: u_def ulp_exp_def)
  have "\<bar>x\<bar> < 2 powi (ilog2 \<bar>x\<bar> + 1)" using ilog2_bounds [OF x(2)] by simp
  also have "\<dots> \<le> (2::rat) powi (u + 53)" using k by (intro power_int_increasing) auto
  also have "\<dots> = 2 ^ 53 * 2 powi u" by (simp add: power_int_add)
  finally have "\<bar>x\<bar> / 2 powi u \<le> of_int (2 ^ 53)" by (simp add: divide_le_eq)
  then have "\<bar>x / 2 powi u\<bar> \<le> of_int (2 ^ 53)" by (simp only: abs_divide abs_power_int_two)
  then have "x / 2 powi u \<le> of_int (2 ^ 53)" "of_int (- (2 ^ 53)) \<le> x / 2 powi u"
    unfolding of_int_minus by linarith+
  then have "n \<le> round_even (of_int (2 ^ 53))" "round_even (of_int (- (2 ^ 53))) \<le> n"
    unfolding n_def by (blast intro: round_even_mono)+
  then have nb: "n \<le> 2 ^ 53" "- (2 ^ 53) \<le> n"
    by (simp_all only: round_even_of_int)
  have uge: "- 1074 \<le> u" by (simp add: u_def ulp_exp_def)
  show ?thesis
  proof (cases "\<bar>n\<bar> = 2 ^ 53")
    case False
    with nb have "\<bar>n\<bar> < 2 ^ 53" by linarith
    then have "rat_of_int \<bar>n\<bar> < of_int (2 ^ 53)" by (simp only: of_int_less_iff)
    then have "\<bar>rnd x\<bar> < 2 ^ 53 * 2 powi u" by (simp add: r abs_mult)
    also have "\<dots> = 2 powi (u + 52 + 1)" by (simp add: power_int_add)
    finally have "ulp_exp (rnd x) \<le> u + 52 - 52" using y uge by (intro ulp_exp_le) auto
    then have le: "ulp_exp (rnd x) \<le> u" by simp
    have "rnd x = of_int (n * 2 ^ nat (u - ulp_exp (rnd x))) * 2 powi ulp_exp (rnd x)"
      using le by (simp add: r mult.assoc flip: power_int_nonneg_exp power_int_add)
    then show ?thesis by (rule rnd_exact)
  next
    case True
    then have a: "\<bar>rnd x\<bar> = 2 powi (u + 53)"
      by (simp add: r abs_mult power_int_add flip: of_int_abs)
    have "ilog2 \<bar>rnd x\<bar> = u + 53" unfolding a by (intro ilog2_unique power_int_strict_increasing) auto
    then have e: "ulp_exp (rnd x) = u + 1" using uge by (simp add: ulp_exp_def)
    obtain m where "n = m * 2" using True by (cases "0 \<le> n") (auto intro: that [of "2 ^ 52"] that [of "- (2 ^ 52)"])
    then have "rnd x = of_int m * 2 powi (u + 1)" by (simp add: r power_int_add)
    then have "rnd x = of_int m * 2 powi ulp_exp (rnd x)" unfolding e .
    then show ?thesis by (rule rnd_exact)
  qed
qed auto
end
