(* ===== verification/Redis_Types.thy ===== *)
theory Redis_Types
  imports C_Double
begin

unbundle bit_operations_syntax

section \<open>The data of server.h\<close>

text \<open>
  The constants, the object and the database record and the part of \<open>struct redisServer\<close>
  the modelled code reads or writes. Two remarks on \<open>struct redisObject\<close>. The header has
  the \<open>lru\<close> bit field commented out while \<open>evict.c\<close>, \<open>db.c\<close> and \<open>object.c\<close> read and write
  \<open>o->lru\<close>; and it declares the elements of \<open>access_times\<close> as a structure of one 24-bit
  field while the C files assign integers to them and move them in units of
  \<open>sizeof(unsigned long long)\<close>. The model follows the C files: a 24-bit \<open>lru\<close> field, and
  four \<open>unsigned long long\<close> access times beside the 8-bit counter \<open>num_accesses\<close>.
\<close>

subsection \<open>Eviction policies\<close>

definition MAXMEMORY_FLAG_LRU :: int where "MAXMEMORY_FLAG_LRU = 1"
definition MAXMEMORY_FLAG_LFU :: int where "MAXMEMORY_FLAG_LFU = 2"
definition MAXMEMORY_FLAG_ALLKEYS :: int where "MAXMEMORY_FLAG_ALLKEYS = 4"
definition MAXMEMORY_FLAG_LRU_HISTOGRAM :: int where "MAXMEMORY_FLAG_LRU_HISTOGRAM = 8"

definition MAXMEMORY_FLAG_NO_SHARED_INTEGERS :: int where
  "MAXMEMORY_FLAG_NO_SHARED_INTEGERS =
     MAXMEMORY_FLAG_LRU OR MAXMEMORY_FLAG_LFU OR MAXMEMORY_FLAG_LRU_HISTOGRAM"

definition MAXMEMORY_VOLATILE_LRU :: int where
  "MAXMEMORY_VOLATILE_LRU = 0 * 256 OR MAXMEMORY_FLAG_LRU"
definition MAXMEMORY_VOLATILE_LFU :: int where
  "MAXMEMORY_VOLATILE_LFU = 1 * 256 OR MAXMEMORY_FLAG_LFU"
definition MAXMEMORY_VOLATILE_TTL :: int where
  "MAXMEMORY_VOLATILE_TTL = 2 * 256"
definition MAXMEMORY_VOLATILE_RANDOM :: int where
  "MAXMEMORY_VOLATILE_RANDOM = 3 * 256"
definition MAXMEMORY_ALLKEYS_LRU :: int where
  "MAXMEMORY_ALLKEYS_LRU = 4 * 256 OR MAXMEMORY_FLAG_LRU OR MAXMEMORY_FLAG_ALLKEYS"
definition MAXMEMORY_ALLKEYS_LFU :: int where
  "MAXMEMORY_ALLKEYS_LFU = 5 * 256 OR MAXMEMORY_FLAG_LFU OR MAXMEMORY_FLAG_ALLKEYS"
definition MAXMEMORY_ALLKEYS_RANDOM :: int where
  "MAXMEMORY_ALLKEYS_RANDOM = 6 * 256 OR MAXMEMORY_FLAG_ALLKEYS"
definition MAXMEMORY_NO_EVICTION :: int where
  "MAXMEMORY_NO_EVICTION = 7 * 256"
definition MAXMEMORY_ALLKEYS_LRU_HISTOGRAM :: int where
  "MAXMEMORY_ALLKEYS_LRU_HISTOGRAM =
     8 * 256 OR MAXMEMORY_FLAG_LRU_HISTOGRAM OR MAXMEMORY_FLAG_LRU OR MAXMEMORY_FLAG_ALLKEYS"

definition flag_set :: "int \<Rightarrow> int \<Rightarrow> bool" where
  "flag_set flags f = (flags AND f \<noteq> 0)"

lemmas policy_defs =
  MAXMEMORY_FLAG_LRU_def MAXMEMORY_FLAG_LFU_def MAXMEMORY_FLAG_ALLKEYS_def
  MAXMEMORY_FLAG_LRU_HISTOGRAM_def MAXMEMORY_FLAG_NO_SHARED_INTEGERS_def
  MAXMEMORY_VOLATILE_LRU_def MAXMEMORY_VOLATILE_LFU_def MAXMEMORY_VOLATILE_TTL_def
  MAXMEMORY_VOLATILE_RANDOM_def MAXMEMORY_ALLKEYS_LRU_def MAXMEMORY_ALLKEYS_LFU_def
  MAXMEMORY_ALLKEYS_RANDOM_def MAXMEMORY_NO_EVICTION_def MAXMEMORY_ALLKEYS_LRU_HISTOGRAM_def
  flag_set_def

text \<open>The policies the configuration can name (\<open>maxmemory_policy_enum\<close> of config.c).\<close>

definition all_policies :: "int list" where
  "all_policies =
     [MAXMEMORY_VOLATILE_LRU, MAXMEMORY_VOLATILE_LFU, MAXMEMORY_VOLATILE_RANDOM,
      MAXMEMORY_VOLATILE_TTL, MAXMEMORY_ALLKEYS_LRU, MAXMEMORY_ALLKEYS_LFU,
      MAXMEMORY_ALLKEYS_RANDOM, MAXMEMORY_ALLKEYS_LRU_HISTOGRAM, MAXMEMORY_NO_EVICTION]"

subsection \<open>Objects\<close>

definition OBJ_STRING :: int where "OBJ_STRING = 0"
definition OBJ_LIST :: int where "OBJ_LIST = 1"
definition OBJ_SET :: int where "OBJ_SET = 2"
definition OBJ_ZSET :: int where "OBJ_ZSET = 3"
definition OBJ_HASH :: int where "OBJ_HASH = 4"
definition OBJ_MODULE :: int where "OBJ_MODULE = 5"
definition OBJ_STREAM :: int where "OBJ_STREAM = 6"

definition OBJ_ENCODING_RAW :: int where "OBJ_ENCODING_RAW = 0"
definition OBJ_ENCODING_INT :: int where "OBJ_ENCODING_INT = 1"
definition OBJ_ENCODING_HT :: int where "OBJ_ENCODING_HT = 2"
definition OBJ_ENCODING_INTSET :: int where "OBJ_ENCODING_INTSET = 6"
definition OBJ_ENCODING_SKIPLIST :: int where "OBJ_ENCODING_SKIPLIST = 7"
definition OBJ_ENCODING_EMBSTR :: int where "OBJ_ENCODING_EMBSTR = 8"
definition OBJ_ENCODING_QUICKLIST :: int where "OBJ_ENCODING_QUICKLIST = 9"
definition OBJ_ENCODING_STREAM :: int where "OBJ_ENCODING_STREAM = 10"
definition OBJ_ENCODING_LISTPACK :: int where "OBJ_ENCODING_LISTPACK = 11"

lemmas obj_type_defs =
  OBJ_STRING_def OBJ_LIST_def OBJ_SET_def OBJ_ZSET_def OBJ_HASH_def OBJ_MODULE_def OBJ_STREAM_def

lemmas obj_encoding_defs =
  OBJ_ENCODING_RAW_def OBJ_ENCODING_INT_def OBJ_ENCODING_HT_def OBJ_ENCODING_INTSET_def
  OBJ_ENCODING_SKIPLIST_def OBJ_ENCODING_EMBSTR_def OBJ_ENCODING_QUICKLIST_def
  OBJ_ENCODING_STREAM_def OBJ_ENCODING_LISTPACK_def

definition LRU_BITS :: nat where "LRU_BITS = 24"
definition LRU_CLOCK_MAX :: int where "LRU_CLOCK_MAX = 2 ^ LRU_BITS - 1"
definition LRU_CLOCK_RESOLUTION :: int where "LRU_CLOCK_RESOLUTION = 1000"

definition OBJ_SHARED_REFCOUNT :: int where "OBJ_SHARED_REFCOUNT = 2147483647"
definition OBJ_STATIC_REFCOUNT :: int where "OBJ_STATIC_REFCOUNT = 2147483647 - 1"
definition OBJ_FIRST_SPECIAL_REFCOUNT :: int where
  "OBJ_FIRST_SPECIAL_REFCOUNT = OBJ_STATIC_REFCOUNT"
definition OBJ_SHARED_INTEGERS :: int where "OBJ_SHARED_INTEGERS = 10000"

lemmas refcount_defs =
  OBJ_SHARED_REFCOUNT_def OBJ_STATIC_REFCOUNT_def OBJ_FIRST_SPECIAL_REFCOUNT_def

definition NUM_WINDOWS :: nat where "NUM_WINDOWS = 5"
definition HISTORY_SIZE :: nat where "HISTORY_SIZE = 4"

definition WINDOW_WEIGHT_1 :: double where "WINDOW_WEIGHT_1 = dlit (4 / 10)"
definition WINDOW_WEIGHT_2 :: double where "WINDOW_WEIGHT_2 = dlit (3 / 10)"
definition WINDOW_WEIGHT_3 :: double where "WINDOW_WEIGHT_3 = dlit (2 / 10)"
definition WINDOW_WEIGHT_4 :: double where "WINDOW_WEIGHT_4 = dlit (15 / 100)"
definition WINDOW_WEIGHT_5 :: double where "WINDOW_WEIGHT_5 = dlit (5 / 100)"

text \<open>
  What \<open>o->ptr\<close> points to: nothing, an \<open>sds\<close> with its bytes and the free bytes after
  them, the \<open>long\<close> stored in the pointer itself, or a value of one of the other types,
  whose contents the code here only passes on.
\<close>

datatype payload =
    NullPtr
  | SdsPtr sds nat
  | LongPtr int
  | ValuePtr nat

record robj =
  otype :: int
  encoding :: int
  lru :: u24
  refcount :: int
  ptr :: payload
  access_times :: "u64 list"
  num_accesses :: u8

text \<open>The array has its declared length.\<close>

definition robj_wf :: "robj \<Rightarrow> bool" where
  "robj_wf o1 = (length (access_times o1) = HISTORY_SIZE)"

subsection \<open>Databases and the server\<close>

text \<open>
  A database maps keys to object addresses and, separately, the volatile keys to their
  expire time in milliseconds. Objects live in a store (\<open>heap\<close>), because the code shares
  one object between keys, databases and callers.
\<close>

record redisDb =
  db_dict :: "(sds, nat) dict"
  db_expires :: "(sds, int) dict"
  blocking_keys :: "sds list"
  db_id :: int
  avg_ttl :: int
  expires_cursor :: nat

text \<open>
  The calls that leave the modelled files (replies, notifications, propagation, module
  callbacks, lazy freeing, memory of values) are recorded in the order the code makes them.
\<close>

datatype reply =
    ReplyOk | ReplyNull | ReplyZero | ReplyOne | ReplyInt int | ReplyBulk sds
  | ReplyStatus string | ReplyError string | ReplyArray "sds list"

datatype release =
    SdsFree | QuicklistRelease | LpFree | DictRelease | ZslFree | ZFree | ModuleFree | FreeStream

datatype event =
    NotifyKeyspace int string sds int
  | TouchWatchedKey int sds
  | TrackingInvalidateKey sds
  | SignalKeyAsReady int sds int
  | SignalDeletedKeyAsReady int sds int
  | ModuleNotifyKeyUnlink sds nat int int
  | FreeValue nat "release list"
  | FreeObjAsync nat
  | SlotToKeyAdd int sds
  | SlotToKeyDel int sds
  | AlsoPropagate int string sds
  | RememberSlaveKeyWithExpire int sds
  | ModuleNotifyKeyspace int string sds int
  | FeedSlaves nat string sds
  | TouchAllWatched int "int option"
  | TrackingInvalidateOnFlush bool
  | EmptyDbAsync int
  | FlushSlaveKeysWithExpireList
  | FlushSlotToKey
  | FunctionsClear bool
  | FlushDbEvent bool bool int
  | SwapDbEvent int int
  | PersistenceEvent string
  | ForcePropagation
  | StartEvictionTimeEvent
  | FlushSlavesOutputBuffers
  | Usleep nat
  | Reply reply

record server =
  dbs :: "redisDb list"
  heap :: "nat \<Rightarrow> robj option"
  next_addr :: nat
  \<comment> \<open>what the memory at an address holds before it is initialised\<close>
  fresh_mem :: "nat \<Rightarrow> u64 list \<times> u8"
  \<comment> \<open>shared.integers\<close>
  shared_integers :: "int \<Rightarrow> nat"
  events :: "event list"
  \<comment> \<open>clocks\<close>
  mstime :: int
  unixtime :: int
  lruclock :: u32
  hz :: int
  \<comment> \<open>maxmemory\<close>
  maxmemory :: u64
  maxmemory_policy :: int
  maxmemory_samples :: nat
  maxmemory_eviction_tenacity :: int
  lfu_log_factor :: int
  lfu_decay_time :: int
  repl_buffer_mem :: u64
  repl_backlog_size :: int
  aof_on :: bool
  aof_buf_alloc :: u64
  slaves :: nat
  isEvictionProcRunning :: bool
  next_db :: u32
  stat_last_eviction_exceeded_time :: u64
  stat_total_eviction_exceeded_time :: int
  stat_evictedkeys :: int
  \<comment> \<open>roles and modes\<close>
  masterhost :: bool
  repl_slave_ro :: bool
  repl_slave_ignore_maxmemory :: bool
  loading :: bool
  inside_yielding_command :: bool
  paused_evict :: bool
  paused_expire :: bool
  cluster_enabled :: bool
  lazy_expire_disabled :: bool
  active_child :: bool
  \<comment> \<open>lazy freeing\<close>
  lazyfree_lazy_eviction :: bool
  lazyfree_lazy_expire :: bool
  lazyfree_lazy_server_del :: bool
  lazyfree_lazy_user_del :: bool
  lazyfree_lazy_user_flush :: bool
  \<comment> \<open>the client being served: its flags, and whether its command is TOUCH\<close>
  current_client :: bool
  client_no_touch :: bool
  client_is_master :: bool
  cmd_is_touch :: bool
  client_is_script :: bool
  \<comment> \<open>statistics\<close>
  stat_keyspace_hits :: int
  stat_keyspace_misses :: int
  stat_expiredkeys :: int
  dirty :: int

definition dbnum :: "server \<Rightarrow> nat" where
  "dbnum s = length (dbs s)"

definition emit :: "event \<Rightarrow> server \<Rightarrow> server" where
  "emit e s = s\<lparr>events := events s @ [e]\<rparr>"

text \<open>Reading and writing an object through a pointer.\<close>

definition obj_at :: "server \<Rightarrow> nat \<Rightarrow> robj cres" where
  "obj_at s a = (case heap s a of None \<Rightarrow> Inl NullDeref | Some ob \<Rightarrow> Inr ob)"

definition set_obj :: "nat \<Rightarrow> robj \<Rightarrow> server \<Rightarrow> server" where
  "set_obj a ob s = s\<lparr>heap := (heap s)(a := Some ob)\<rparr>"

definition free_obj :: "nat \<Rightarrow> server \<Rightarrow> server" where
  "free_obj a s = s\<lparr>heap := (heap s)(a := None)\<rparr>"

definition alloc_obj :: "robj \<Rightarrow> server \<Rightarrow> nat \<times> server" where
  "alloc_obj ob s =
     (next_addr s, s\<lparr>heap := (heap s)(next_addr s := Some ob), next_addr := Suc (next_addr s)\<rparr>)"

text \<open>A server just started: no keys, default configuration; used by the concrete runs.\<close>

definition empty_db :: "int \<Rightarrow> redisDb" where
  "empty_db i = \<lparr>db_dict = [], db_expires = [], blocking_keys = [], db_id = i,
                 avg_ttl = 0, expires_cursor = 0\<rparr>"

definition init_server :: server where
  "init_server =
     \<lparr>dbs = [empty_db 0, empty_db 1], heap = (\<lambda>_. None), next_addr = 0,
      fresh_mem = (\<lambda>_. ([0, 0, 0, 0], 0)), shared_integers = nat, events = [],
      mstime = 0, unixtime = 0, lruclock = 0, hz = 10,
      maxmemory = 0, maxmemory_policy = MAXMEMORY_NO_EVICTION, maxmemory_samples = 5,
      maxmemory_eviction_tenacity = 10, lfu_log_factor = 10, lfu_decay_time = 1,
      repl_buffer_mem = 0, repl_backlog_size = 1048576, aof_on = False, aof_buf_alloc = 0,
      slaves = 0, isEvictionProcRunning = False, next_db = 0,
      stat_last_eviction_exceeded_time = 0, stat_total_eviction_exceeded_time = 0,
      stat_evictedkeys = 0,
      masterhost = False, repl_slave_ro = True, repl_slave_ignore_maxmemory = True,
      loading = False, inside_yielding_command = False, paused_evict = False,
      paused_expire = False, cluster_enabled = False, lazy_expire_disabled = False,
      active_child = False,
      lazyfree_lazy_eviction = False, lazyfree_lazy_expire = False,
      lazyfree_lazy_server_del = False, lazyfree_lazy_user_del = False,
      lazyfree_lazy_user_flush = False,
      current_client = True, client_no_touch = False, client_is_master = False,
      cmd_is_touch = False, client_is_script = False,
      stat_keyspace_hits = 0, stat_keyspace_misses = 0, stat_expiredkeys = 0, dirty = 0\<rparr>"

end
