(* ===== verification/Lru_Clock.thy ===== *)
theory Lru_Clock
  imports Redis_Types
begin

section \<open>The LRU clock and the LFU counter (evict.c, db.c)\<close>

text \<open>
  The 24-bit LRU clock and the idle time estimated from it, and the 16-bit minute clock and
  8-bit logarithmic counter that the LFU policies keep in the same 24 bits of an object. The
  lemmas relate the estimates to the time that really passed, and show that packing,
  incrementing and decaying keep the two fields apart.
\<close>

subsection \<open>Clocks\<close>

definition getLRUClock :: "server \<Rightarrow> u32" where
  "getLRUClock s = word_of_int ((mstime s div LRU_CLOCK_RESOLUTION) AND LRU_CLOCK_MAX)"

text \<open>\<open>hz\<close> is at least 1 (\<open>updateHZ\<close> clamps it), so the division is defined.\<close>

definition LRU_CLOCK :: "server \<Rightarrow> u32" where
  "LRU_CLOCK s = (if 1000 div hz s \<le> LRU_CLOCK_RESOLUTION then lruclock s else getLRUClock s)"

definition estimateObjectIdleTime :: "server \<Rightarrow> robj \<Rightarrow> u64" where
  "estimateObjectIdleTime s ob =
     (let lruclock = (ucast (LRU_CLOCK s) :: u64) in
      if (ucast (lru ob) :: u64) \<le> lruclock
      then (lruclock - ucast (lru ob)) * word_of_int LRU_CLOCK_RESOLUTION
      else (lruclock + (word_of_int LRU_CLOCK_MAX - ucast (lru ob))) * word_of_int LRU_CLOCK_RESOLUTION)"

subsection \<open>The LFU fields\<close>

definition LFU_INIT_VAL :: int where "LFU_INIT_VAL = 5"

definition LFUGetTimeInMinutes :: "server \<Rightarrow> u64" where
  "LFUGetTimeInMinutes s = word_of_int ((unixtime s div 60) AND 65535)"

definition LFUTimeElapsed :: "server \<Rightarrow> u64 \<Rightarrow> u64" where
  "LFUTimeElapsed s ldt =
     (let now = LFUGetTimeInMinutes s in
      if ldt \<le> now then now - ldt else 65535 - ldt + now)"

text \<open>\<open>r\<close> is the value of \<open>rand()\<close>, between 0 and \<open>RAND_MAX\<close>.\<close>

definition RAND_MAX :: int where "RAND_MAX = 2147483647"

definition LFULogIncr :: "server \<Rightarrow> int \<Rightarrow> u8 \<Rightarrow> u8" where
  "LFULogIncr s rand counter =
     (if counter = 255 then 255
      else let r = ddiv (dof_int rand) (dof_int RAND_MAX);
               baseval0 = dof_int (uint counter - LFU_INIT_VAL);
               baseval = (if dlt baseval0 (Fin 0) then Fin 0 else baseval0);
               p = ddiv (Fin 1) (dadd (dmul baseval (dof_int (lfu_log_factor s))) (Fin 1))
           in if dlt r p then counter + 1 else counter)"

definition LFUDecrAndReturn :: "server \<Rightarrow> robj \<Rightarrow> u64" where
  "LFUDecrAndReturn s ob =
     (let ldt = ucast (drop_bit 8 (lru ob)) :: u64;
          counter = ucast (lru ob AND 255) :: u64;
          num_periods = (if lfu_decay_time s \<noteq> 0
                         then LFUTimeElapsed s ldt div word_of_int (lfu_decay_time s) else 0)
      in if num_periods \<noteq> 0
         then (if counter < num_periods then 0 else counter - num_periods)
         else counter)"

text \<open>\<open>LFULogIncr\<close> takes and returns a \<open>uint8_t\<close>; the \<open>lru\<close> field keeps 24 bits.\<close>

definition updateLFU :: "server \<Rightarrow> int \<Rightarrow> robj \<Rightarrow> robj" where
  "updateLFU s rand ob =
     (let counter = LFULogIncr s rand (ucast (LFUDecrAndReturn s ob)) in
      ob\<lparr>lru := ucast (push_bit 8 (LFUGetTimeInMinutes s) OR (ucast counter :: u64))\<rparr>)"

subsection \<open>Reading the words as numbers\<close>

lemma lru_constants [simp]:
  "LRU_CLOCK_MAX = 16777215" "LRU_CLOCK_RESOLUTION = 1000"
  by (simp_all add: LRU_CLOCK_MAX_def LRU_BITS_def LRU_CLOCK_RESOLUTION_def)

lemma and_mask_mod: "(x::int) AND (2 ^ n - 1) = x mod 2 ^ n"
  by (simp add: take_bit_eq_mask mask_eq_exp_minus_1 flip: take_bit_eq_mod)

lemma unat_getLRUClock: "int (unat (getLRUClock s)) = (mstime s div 1000) mod 2 ^ 24"
proof -
  have "(mstime s div 1000) AND 16777215 = (mstime s div 1000) mod 2 ^ 24"
    using and_mask_mod [of "mstime s div 1000" 24] by simp
  then show ?thesis
    by (simp add: getLRUClock_def unsigned_of_int take_bit_int_eq_self)
qed

text \<open>The cached clock of the server holds a 24-bit value too (\<open>serverCron\<close> stores \<open>getLRUClock()\<close>).\<close>

definition clock_wf :: "server \<Rightarrow> bool" where
  "clock_wf s = (unat (lruclock s) < 2 ^ 24)"

lemma LRU_CLOCK_less: "clock_wf s \<Longrightarrow> unat (LRU_CLOCK s) < 2 ^ 24"
proof -
  have "int (unat (getLRUClock s)) < 2 ^ 24" unfolding unat_getLRUClock by (rule pos_mod_bound) simp
  then have "unat (getLRUClock s) < 2 ^ 24"
    by (metis of_nat_less_iff of_nat_numeral of_nat_power)
  then show "clock_wf s \<Longrightarrow> unat (LRU_CLOCK s) < 2 ^ 24"
    by (simp add: LRU_CLOCK_def clock_wf_def)
qed

lemma unat_estimateObjectIdleTime:
  assumes "clock_wf s"
  shows "unat (estimateObjectIdleTime s ob) =
           (if unat (lru ob) \<le> unat (LRU_CLOCK s) then unat (LRU_CLOCK s) - unat (lru ob)
            else unat (LRU_CLOCK s) + (16777215 - unat (lru ob))) * 1000"
proof -
  have b: "unat (LRU_CLOCK s) < 16777216" "unat (lru ob) < 16777216"
    using LRU_CLOCK_less [OF assms] unat_less_pow24 [of "lru ob"] by simp_all
  have m: "unat (16777215 - ucast (lru ob) :: u64) = 16777215 - unat (lru ob)"
    using b by (subst unat_sub_small) (auto simp: word_le_nat_alt)
  show ?thesis
    using b m by (auto simp: estimateObjectIdleTime_def Let_def word_le_nat_alt
        unat_mult_small unat_sub_small unat_add_small)
qed

subsection \<open>The idle time against the time that passed\<close>

text \<open>
  Let \<open>t\<close> be the real time in ticks when the object was touched and \<open>t + d\<close> the time now.
  The 24-bit fields hold these modulo \<open>2 ^ 24\<close>. The lemma covers both clocks: it is about
  any pair of an \<open>n\<close>-bit stamp and an \<open>n\<close>-bit present.
\<close>

lemma wrapped_difference:
  fixes t d M :: nat
  assumes "d < M"
  shows "(if t mod M \<le> (t + d) mod M then (t + d) mod M - t mod M
          else (M - 1 - t mod M) + (t + d) mod M)
         = (if t mod M + d < M then d else d - 1)"
proof -
  define a b where "a = t mod M" and "b = (t + d) mod M"
  have m: "a < M" using assms by (simp add: a_def)
  have "b = (a + d) mod M" by (simp add: a_def b_def mod_simps)
  then have b: "b = (if a + d < M then a + d else a + d - M)"
    using m assms by (simp add: mod_if)
  have "(if a \<le> b then b - a else (M - 1 - a) + b) = (if a + d < M then d else d - 1)"
  proof (cases "a + d < M")
    case False
    then have "b + M = a + d" "\<not> a \<le> b" using m assms b by simp_all
    with m False show ?thesis by simp
  qed (simp add: b)
  then show ?thesis unfolding a_def b_def .
qed

lemma idle_time_real:
  assumes "clock_wf s"
    and "unat (lru ob) = t mod 2 ^ 24" "unat (LRU_CLOCK s) = (t + d) mod 2 ^ 24" "d < 2 ^ 24"
  shows "unat (estimateObjectIdleTime s ob) = (if t mod 2 ^ 24 + d < 2 ^ 24 then d else d - 1) * 1000"
proof -
  have "unat (estimateObjectIdleTime s ob) =
          (if t mod 2 ^ 24 \<le> (t + d) mod 2 ^ 24 then (t + d) mod 2 ^ 24 - t mod 2 ^ 24
           else (2 ^ 24 - 1 - t mod 2 ^ 24) + (t + d) mod 2 ^ 24) * 1000"
    unfolding unat_estimateObjectIdleTime [OF assms(1)] assms(2,3) by (simp add: add.commute)
  then show ?thesis unfolding wrapped_difference [OF assms(4)] .
qed

text \<open>
  C38: The idle time the LRU policies order keys by is the time that really passed since the
  object was touched, in milliseconds, as long as the 24-bit clock has not lapped the object;
  when the clock wrapped in between it is exactly one tick (a second) short, because the code
  adds \<open>LRU_CLOCK_MAX\<close>, not the number of clock values.
\<close>

theorem idle_time_accurate:
  assumes "clock_wf s"
    and "unat (lru ob) = t mod 2 ^ 24" and "unat (LRU_CLOCK s) = (t + d) mod 2 ^ 24"
    and "d < 2 ^ 24"
  shows "unat (estimateObjectIdleTime s ob) = (if t mod 2 ^ 24 + d < 2 ^ 24 then d * 1000 else d * 1000 - 1000)
         \<and> unat (estimateObjectIdleTime s ob) \<le> d * 1000
         \<and> d * 1000 \<le> unat (estimateObjectIdleTime s ob) + 1000"
  using idle_time_real [OF assms] by (auto simp: diff_mult_distrib)

definition sample_obj :: "u24 \<Rightarrow> robj" where
  "sample_obj l = \<lparr>otype = OBJ_STRING, encoding = OBJ_ENCODING_RAW, lru = l, refcount = 1,
                   ptr = NullPtr, access_times = [0, 0, 0, 0], num_accesses = 0\<rparr>"

theorem idle_time_accurate_witness:
  "unat (estimateObjectIdleTime (init_server\<lparr>lruclock := 107\<rparr>) (sample_obj 100)) = 7 * 1000
   \<and> unat (estimateObjectIdleTime (init_server\<lparr>lruclock := 3\<rparr>) (sample_obj 16777214)) = 4 * 1000"
proof -
  have "unat (estimateObjectIdleTime (init_server\<lparr>lruclock := 3\<rparr>) (sample_obj 16777214)) = 4 * 1000"
    using idle_time_accurate [of "init_server\<lparr>lruclock := 3\<rparr>" "sample_obj 16777214" 16777214 5]
    by (simp add: clock_wf_def LRU_CLOCK_def init_server_def sample_obj_def)
  then show ?thesis
    using idle_time_accurate [of "init_server\<lparr>lruclock := 107\<rparr>" "sample_obj 100" 100 7]
    by (simp add: clock_wf_def LRU_CLOCK_def init_server_def sample_obj_def)
qed

subsection \<open>The LFU clock and counter\<close>

lemma unat_LFUGetTimeInMinutes:
  "int (unat (LFUGetTimeInMinutes s)) = (unixtime s div 60) mod 2 ^ 16"
proof -
  have "(unixtime s div 60) AND 65535 = (unixtime s div 60) mod 2 ^ 16"
    using and_mask_mod [of "unixtime s div 60" 16] by simp
  then show ?thesis
    by (simp add: LFUGetTimeInMinutes_def unsigned_of_int take_bit_int_eq_self)
qed

lemma LFU_minutes_less: "unat (LFUGetTimeInMinutes s) < 2 ^ 16"
proof -
  have "int (unat (LFUGetTimeInMinutes s)) < 2 ^ 16"
    unfolding unat_LFUGetTimeInMinutes by (rule pos_mod_bound) simp
  then show ?thesis by (metis of_nat_less_iff of_nat_numeral of_nat_power)
qed

lemma unat_LFUTimeElapsed:
  assumes "unat ldt < 2 ^ 16"
  shows "unat (LFUTimeElapsed s ldt) =
           (if unat ldt \<le> unat (LFUGetTimeInMinutes s) then unat (LFUGetTimeInMinutes s) - unat ldt
            else (65535 - unat ldt) + unat (LFUGetTimeInMinutes s))"
proof -
  have "unat (65535 - ldt) = 65535 - unat ldt"
    using assms by (subst unat_sub_small) (auto simp: word_le_nat_alt)
  then show ?thesis
    using assms LFU_minutes_less [of s]
    by (auto simp: LFUTimeElapsed_def Let_def word_le_nat_alt unat_sub_small unat_add_small)
qed

text \<open>
  The minutes elapsed since the last decrement of an LFU counter are the minutes that
  really passed, one less when the 16-bit minute clock wrapped in between.
\<close>

theorem lfu_elapsed_accurate:
  assumes "unat ldt = t mod 2 ^ 16" and "unat (LFUGetTimeInMinutes s) = (t + d) mod 2 ^ 16"
    and "d < 2 ^ 16"
  shows "unat (LFUTimeElapsed s ldt) = (if t mod 2 ^ 16 + d < 2 ^ 16 then d else d - 1)"
proof -
  have "unat (LFUTimeElapsed s ldt) =
          (if t mod 2 ^ 16 \<le> (t + d) mod 2 ^ 16 then (t + d) mod 2 ^ 16 - t mod 2 ^ 16
           else (2 ^ 16 - 1 - t mod 2 ^ 16) + (t + d) mod 2 ^ 16)"
    using unat_LFUTimeElapsed [of ldt s] assms(1) by (simp add: assms(2))
  then show ?thesis unfolding wrapped_difference [OF assms(3)] .
qed

theorem lfu_elapsed_accurate_witness:
  "unat (LFUTimeElapsed (init_server\<lparr>unixtime := 60 * 65537\<rparr>) 65530) = 6"
  using lfu_elapsed_accurate [of 65530 65530 "init_server\<lparr>unixtime := 60 * 65537\<rparr>" 7]
  by (simp add: LFUGetTimeInMinutes_def)

lemma unat_u8_step: "c \<noteq> 255 \<Longrightarrow> unat (c + 1 :: u8) = unat c + 1"
proof -
  assume "c \<noteq> 255"
  then have "unat c \<noteq> unat (255 :: u8)" by (metis unsigned_word_eqI)
  moreover have "unat c < 256" using unsigned_less [of c, where 'a = nat] by simp
  ultimately have "unat c + unat (1 :: u8) < 2 ^ LENGTH(8)" by simp
  then show ?thesis using unat_add_lem [of c 1] by simp
qed

lemma LFULogIncr_cases: "LFULogIncr s r c = c \<or> LFULogIncr s r c = c + 1 \<and> c \<noteq> 255"
  by (simp add: LFULogIncr_def Let_def)

definition lfu_prob :: "server \<Rightarrow> u8 \<Rightarrow> rat" where
  "lfu_prob s c = rnd (1 / rnd (rnd (of_int (max 0 (uint c - 5)) * of_int (lfu_log_factor s)) + 1))"

lemma uint_u8_bound: "uint (c :: u8) < 256"
  using uint_bounded [of c] by simp

lemma LFULogIncr_eq:
  assumes "0 \<le> lfu_log_factor s" "lfu_log_factor s < 2 ^ 31" "c \<noteq> 255"
  shows "LFULogIncr s r c =
           (if rnd (rnd (of_int r) / 2147483647) < lfu_prob s c then c + 1 else c)"
proof -
  obtain k where k: "uint c = k" "0 \<le> k" "k < 256"
    using uint_u8_bound [of c] by simp
  have i: "dof_int (k - 5) = Fin (of_int (k - 5))"
    using k by (intro dof_int_small) auto
  have f: "dof_int (lfu_log_factor s) = Fin (of_int (lfu_log_factor s))"
    using assms by (intro dof_int_small) auto
  have m: "dof_int 2147483647 = Fin 2147483647"
    using dof_int_small [of 2147483647] by simp
  define x where "x = rnd (rat_of_int (max 0 (k - 5)) * rat_of_int (lfu_log_factor s))"
  have x: "0 \<le> x" unfolding x_def using assms by (intro rnd_pos) auto
  have one: "rnd (1::rat) = 1" using rnd_int [of 1] by simp
  have "rnd 1 \<le> rnd (x + 1)" by (rule rnd_mono) (use x in simp)
  then have nz: "rnd (x + 1) \<noteq> 0" using one by simp
  have b: "(if dlt (dof_int (k - 5)) (Fin 0) then Fin 0 else dof_int (k - 5))
             = Fin (of_int (max 0 (k - 5)))"
    unfolding i by (cases "k < 5") (auto simp: max_def)
  have "LFULogIncr s r c =
          (if dlt (ddiv (dof_int r) (dof_int 2147483647))
                  (ddiv (Fin 1) (dadd (dmul (Fin (of_int (max 0 (k - 5)))) (dof_int (lfu_log_factor s))) (Fin 1)))
           then c + 1 else c)"
    using assms(3) unfolding LFULogIncr_def Let_def k(1) LFU_INIT_VAL_def RAND_MAX_def b by simp
  then show ?thesis
    using nz unfolding lfu_prob_def k(1) by (simp add: f m dof_int_def [of r] x_def)
qed

lemma lfu_prob_small: "uint c \<le> 5 \<Longrightarrow> lfu_prob s c = 1"
proof -
  have "rnd (1::rat) = 1" using rnd_int [of 1] by simp
  then show "uint c \<le> 5 \<Longrightarrow> lfu_prob s c = 1" by (simp add: lfu_prob_def max_def)
qed

lemma lfu_prob_antimono:
  assumes "0 \<le> lfu_log_factor s" "c \<le> d"
  shows "lfu_prob s d \<le> lfu_prob s c"
proof -
  have one: "rnd (1::rat) = 1" using rnd_int [of 1] by simp
  let ?x = "\<lambda>c. rnd (of_int (max 0 (uint (c::u8) - 5)) * of_int (lfu_log_factor s))"
  have "uint c \<le> uint d" using assms(2) by (simp add: word_le_def)
  then have le: "?x c \<le> ?x d"
    using assms(1) by (intro rnd_mono mult_right_mono) auto
  have "0 \<le> ?x c" using assms(1) by (intro rnd_pos) auto
  then have "rnd 1 \<le> rnd (?x c + 1)" by (intro rnd_mono) simp
  with one have p: "0 < rnd (?x c + 1)" by simp
  have "rnd (?x c + 1) \<le> rnd (?x d + 1)" using le by (intro rnd_mono) simp
  with p have "1 / rnd (?x d + 1) \<le> 1 / rnd (?x c + 1)" by (intro divide_left_mono) auto
  then show ?thesis unfolding lfu_prob_def by (rule rnd_mono)
qed

lemma LFULogIncr_facts:
  assumes "0 \<le> lfu_log_factor s" "lfu_log_factor s < 2 ^ 31"
  shows "unat (LFULogIncr s r c) \<in> {unat c, unat c + 1}"
    and "LFULogIncr s r 255 = 255"
    and "uint c \<le> 5 \<Longrightarrow> r < RAND_MAX \<Longrightarrow> LFULogIncr s r c = c + 1"
    and "c \<le> d \<Longrightarrow> d \<noteq> 255 \<Longrightarrow> LFULogIncr s r d \<noteq> d \<Longrightarrow> LFULogIncr s r c = c + 1"
proof -
  have inc: "unat (c + 1) = unat c + 1" if "c \<noteq> 255" for c :: u8
    using that unat_u8_step by blast
  show "unat (LFULogIncr s r c) \<in> {unat c, unat c + 1}"
    using LFULogIncr_cases [of s r c] inc [of c] by auto
  show "LFULogIncr s r 255 = 255" by (simp add: LFULogIncr_def)
  show "LFULogIncr s r c = c + 1" if "uint c \<le> 5" "r < RAND_MAX"
  proof -
    have c: "c \<noteq> 255" using that(1) by auto
    have "rnd (of_int r) \<le> rnd (of_int 2147483646)"
      using that by (intro rnd_mono) (simp add: RAND_MAX_def)
    also have "rnd (of_int 2147483646) = (2147483646::rat)" using rnd_int [of 2147483646] by simp
    finally have "rnd (of_int r) / 2147483647 \<le> 2147483646 / 2147483647" by simp
    then have "rnd (rnd (of_int r) / 2147483647) \<le> rnd (2147483646 / 2147483647)" by (rule rnd_mono)
    also have "rnd (2147483646 / 2147483647) < 1" by code_simp
    finally show ?thesis using LFULogIncr_eq [OF assms c] lfu_prob_small [OF that(1)] by simp
  qed
  show "LFULogIncr s r c = c + 1" if "c \<le> d" "d \<noteq> 255" "LFULogIncr s r d \<noteq> d"
  proof -
    have "c \<noteq> 255"
    proof
      assume "c = 255"
      with that(1) have "unat d = 255"
        using unsigned_less [of d, where 'a = nat] by (simp add: word_le_nat_alt)
      then have "unat d = unat (255 :: u8)" by simp
      with that(2) show False by (metis unsigned_word_eqI)
    qed
    then show ?thesis
      using LFULogIncr_eq [OF assms, of c r] LFULogIncr_eq [OF assms that(2), of r]
        lfu_prob_antimono [OF assms(1) that(1)] that(3) by (auto split: if_splits)
  qed
qed

text \<open>
  C33: The logarithmic counter. One access leaves the counter or adds one to it, never wraps,
  and saturates at 255; a counter not above the initial value is incremented by every draw
  below \<open>RAND_MAX\<close>; and a draw that increments a counter increments every lower counter,
  so the higher the counter the fewer accesses count.
\<close>

theorem LFULogIncr_contract:
  assumes "0 \<le> lfu_log_factor s" and "lfu_log_factor s < 2 ^ 31"
  shows "unat (LFULogIncr s r c) \<in> {unat c, unat c + 1}
         \<and> LFULogIncr s r 255 = 255
         \<and> (uint c \<le> 5 \<and> r < RAND_MAX \<longrightarrow> LFULogIncr s r c = c + 1)
         \<and> (c \<le> d \<and> d \<noteq> 255 \<and> LFULogIncr s r d \<noteq> d \<longrightarrow> LFULogIncr s r c = c + 1)"
  using LFULogIncr_facts [OF assms] by blast

theorem LFULogIncr_contract_witness:
  "LFULogIncr init_server 0 3 = 4 \<and> LFULogIncr init_server 1000 255 = 255"
  using LFULogIncr_contract [of init_server 0 3] LFULogIncr_contract [of init_server 1000 3]
  by (simp add: init_server_def RAND_MAX_def)

lemma unat_lru_minutes: "unat (ucast (drop_bit 8 (lru ob)) :: u64) = unat (lru ob) div 256"
  by (simp add: unat_drop_bit_eq drop_bit_eq_div unat_div)

lemma unat_lru_counter: "unat (ucast (lru ob AND 255) :: u64) = unat (lru ob) mod 256"
proof -
  have "lru ob AND 255 = take_bit 8 (lru ob)"
    by (simp add: take_bit_eq_mask mask_eq_exp_minus_1)
  then show ?thesis by (simp add: unsigned_take_bit_eq take_bit_eq_mod unat_mod)
qed

lemma unat_LFUDecrAndReturn:
  assumes "0 \<le> lfu_decay_time s" "lfu_decay_time s < 2 ^ 31"
  shows "unat (LFUDecrAndReturn s ob) =
           unat (lru ob) mod 256
             - unat (LFUTimeElapsed s (ucast (drop_bit 8 (lru ob)))) div nat (lfu_decay_time s)"
proof -
  have d: "unat (word_of_int (lfu_decay_time s) :: u64) = nat (lfu_decay_time s)"
    using assms by (simp add: unsigned_of_int take_bit_int_eq_self)
  show ?thesis
  proof (cases "lfu_decay_time s = 0")
    case False
    define p :: u64 where "p = LFUTimeElapsed s (ucast (drop_bit 8 (lru ob))) div word_of_int (lfu_decay_time s)"
    have p: "unat p = unat (LFUTimeElapsed s (ucast (drop_bit 8 (lru ob)))) div nat (lfu_decay_time s)"
      by (simp add: p_def unat_div d)
    define c :: u64 where "c = ucast (lru ob AND 255)"
    have "LFUDecrAndReturn s ob = (if p \<noteq> 0 then if c < p then 0 else c - p else c)"
      using False by (simp add: LFUDecrAndReturn_def Let_def p_def c_def)
    then have "unat (LFUDecrAndReturn s ob) = unat c - unat p"
      by (auto simp: word_less_nat_alt unat_sub_small word_le_nat_alt)
    then show ?thesis using p unat_lru_counter [of ob] by (simp add: c_def)
  qed (use unat_lru_counter [of ob] in \<open>simp add: LFUDecrAndReturn_def Let_def\<close>)
qed

lemma unat_shift_or:
  assumes "unat (m :: u64) < 2 ^ 16"
  shows "unat (ucast (push_bit 8 m OR (ucast (c :: u8) :: u64)) :: u24) = unat m * 256 + unat c"
proof -
  have c: "unat c < 256" using unsigned_less [of c, where 'a = nat] by simp
  have "unat (push_bit 8 m) = unat m * 256"
    using assms unat_mult_small [of m 256] by (simp add: push_bit_eq_mult)
  then have 1: "unat (push_bit 8 m OR (ucast c :: u64)) = (push_bit 8 (unat m)) OR unat c"
    using c by (simp add: unsigned_or_eq unsigned_ucast_eq take_bit_nat_eq_self push_bit_eq_mult)
  have "unat c = take_bit 8 (unat c)"
    using c by (simp add: take_bit_nat_eq_self)
  then have "push_bit 8 (unat m) AND unat c = 0"
    by (metis (no_types, lifting) bit_eqI bit_and_iff bit_push_bit_iff bit_take_bit_iff bit_0_eq
        bot_apply bot_bool_def not_le)
  then have "push_bit 8 (unat m) OR unat c = push_bit 8 (unat m) + unat c"
    by (simp add: disjunctive_add_eq_or)
  with 1 have 2: "unat (push_bit 8 m OR (ucast c :: u64)) = unat m * 256 + unat c"
    by (simp add: push_bit_eq_mult)
  have "unat m * 256 + unat c < 2 ^ 24" using assms c by simp
  then show ?thesis by (simp add: unsigned_ucast_eq 2 take_bit_nat_eq_self)
qed

lemma unat_lru_updateLFU:
  "unat (lru (updateLFU s r ob)) =
     unat (LFUGetTimeInMinutes s) * 256 + unat (LFULogIncr s r (ucast (LFUDecrAndReturn s ob)))"
proof -
  have "lru (updateLFU s r ob) =
          ucast (push_bit 8 (LFUGetTimeInMinutes s)
                 OR (ucast (LFULogIncr s r (ucast (LFUDecrAndReturn s ob))) :: u64))"
    by (simp add: updateLFU_def Let_def)
  then show ?thesis using unat_shift_or [OF LFU_minutes_less] by metis
qed

text \<open>
  C36: Packing and unpacking the LFU fields. After an access the upper 16 bits of the object's
  \<open>lru\<close> field hold the present minute and the lower 8 bits the incremented, decayed counter;
  read back at the same minute, the counter has lost nothing to decay.
\<close>

theorem updateLFU_roundtrip:
  assumes "0 \<le> lfu_decay_time s" and "lfu_decay_time s < 2 ^ 31"
  shows "unat (lru (updateLFU s r ob)) div 256 = unat (LFUGetTimeInMinutes s)
         \<and> unat (lru (updateLFU s r ob)) mod 256
             = unat (LFULogIncr s r (ucast (LFUDecrAndReturn s ob)))
         \<and> unat (LFUDecrAndReturn s (updateLFU s r ob))
             = unat (LFULogIncr s r (ucast (LFUDecrAndReturn s ob)))"
proof -
  define c where "c = LFULogIncr s r (ucast (LFUDecrAndReturn s ob))"
  have c: "unat c < 256" using unsigned_less [of c, where 'a = nat] by simp
  have l: "unat (lru (updateLFU s r ob)) = unat (LFUGetTimeInMinutes s) * 256 + unat c"
    by (simp add: unat_lru_updateLFU c_def)
  let ?ldt = "ucast (drop_bit 8 (lru (updateLFU s r ob))) :: u64"
  have ldt: "unat ?ldt = unat (LFUGetTimeInMinutes s)"
    unfolding unat_lru_minutes l using c by simp
  then have "unat (LFUTimeElapsed s ?ldt) = 0"
    using LFU_minutes_less [of s] by (subst unat_LFUTimeElapsed) auto
  then show ?thesis
    using c unat_LFUDecrAndReturn [OF assms, of "updateLFU s r ob"] by (simp add: l flip: c_def)
qed

theorem updateLFU_roundtrip_witness:
  "unat (lru (updateLFU (init_server\<lparr>unixtime := 600\<rparr>) 0 (sample_obj 5))) div 256 = 10"
  using updateLFU_roundtrip [of "init_server\<lparr>unixtime := 600\<rparr>" 0 "sample_obj 5"]
  by (simp add: init_server_def LFUGetTimeInMinutes_def)

text \<open>
  Decay. Reading the counter subtracts the whole decay periods that elapsed since the
  last access, never below zero, and changes nothing when decay is disabled.
\<close>

theorem LFUDecr_decays:
  assumes "0 \<le> lfu_decay_time s" and "lfu_decay_time s < 2 ^ 31"
    and "unat (lru ob) div 256 = t mod 2 ^ 16"
    and "unat (LFUGetTimeInMinutes s) = (t + d) mod 2 ^ 16" and "t mod 2 ^ 16 + d < 2 ^ 16"
  shows "unat (LFUDecrAndReturn s ob) =
           unat (lru ob) mod 256 - (if lfu_decay_time s = 0 then 0 else d div nat (lfu_decay_time s))"
proof -
  have "unat (LFUTimeElapsed s (ucast (drop_bit 8 (lru ob)))) = d"
  proof -
    have a: "unat (ucast (drop_bit 8 (lru ob)) :: u64) = t mod 2 ^ 16"
      unfolding unat_lru_minutes by (rule assms(3))
    have "(t + d) mod 2 ^ 16 = t mod 2 ^ 16 + d"
      using assms(5) by (metis mod_add_left_eq mod_less)
    with a assms(4) show ?thesis
      by (subst unat_LFUTimeElapsed) auto
  qed
  then show ?thesis
    using unat_LFUDecrAndReturn [OF assms(1,2), of ob] by simp
qed

theorem LFUDecr_decays_witness:
  "unat (LFUDecrAndReturn (init_server\<lparr>unixtime := 600\<rparr>) (sample_obj (256 * 4 + 20))) = 14"
  using LFUDecr_decays [of "init_server\<lparr>unixtime := 600\<rparr>" "sample_obj (256 * 4 + 20)" 4 6]
  by (simp add: init_server_def LFUGetTimeInMinutes_def sample_obj_def)
end
