(* ===== verification/Hlru.thy ===== *)
theory Hlru
  imports Lru_Clock
begin

section \<open>The access history of an object (db.c, object.c)\<close>

text \<open>
  The histogram policy gives every object the times of its last accesses: the array
  \<open>access_times\<close> with \<open>HISTORY_SIZE\<close> slots and the counter \<open>num_accesses\<close>. Two routines
  write it: \<open>updateLRUHistogram\<close> on every lookup, and \<open>initOrUpdateObjectt\<close> when an object
  enters the keyspace. The lemmas relate both to the list of access times they stand for.
\<close>

definition updateLRUHistogram :: "server \<Rightarrow> robj \<Rightarrow> robj cres" where
  "updateLRUHistogram s ob =
     (let now = (ucast (LRU_CLOCK s) :: u64) in
      if unat (num_accesses ob) < HISTORY_SIZE
      then cbind (arr_set (access_times ob) (unat (num_accesses ob)) now) (\<lambda>ts.
           Inr (ob\<lparr>access_times := ts, num_accesses := num_accesses ob + 1\<rparr>))
      else cbind (arr_move (access_times ob) 0 1 (HISTORY_SIZE - 1)) (\<lambda>ts.
           cbind (arr_set ts (HISTORY_SIZE - 1) now) (\<lambda>ts'.
           Inr (ob\<lparr>access_times := ts'\<rparr>))))"

definition initOrUpdateObjectt :: "robj \<Rightarrow> u64 \<Rightarrow> robj cres" where
  "initOrUpdateObjectt ob now =
     (if num_accesses ob = 0
      then cbind (arr_set (access_times ob) 0 now) (\<lambda>ts.
           Inr (ob\<lparr>num_accesses := 1, access_times := ts\<rparr>))
      else if unat (num_accesses ob) \<le> HISTORY_SIZE
      then cbind (arr_set (access_times ob) (unat (num_accesses ob)) now) (\<lambda>ts.
           Inr (ob\<lparr>access_times := ts, num_accesses := num_accesses ob + 1\<rparr>))
      else cbind (arr_move (access_times ob) 0 1 (HISTORY_SIZE - 1)) (\<lambda>ts.
           cbind (arr_set ts (HISTORY_SIZE - 1) now) (\<lambda>ts'.
           Inr (ob\<lparr>access_times := ts', num_accesses := num_accesses ob + 1\<rparr>))))"

definition initObjectLRUOrLFU :: "server \<Rightarrow> robj \<Rightarrow> robj cres" where
  "initObjectLRUOrLFU s ob =
     (if refcount ob = OBJ_SHARED_REFCOUNT then Inr ob
      else if flag_set (maxmemory_policy s) MAXMEMORY_FLAG_LFU
      then Inr (ob\<lparr>lru := ucast (push_bit 8 (LFUGetTimeInMinutes s) OR word_of_int LFU_INIT_VAL)\<rparr>)
      else if flag_set (maxmemory_policy s) MAXMEMORY_FLAG_LRU_HISTOGRAM
      then (let lruclock = (ucast (LRU_CLOCK s) :: u64) in
            initOrUpdateObjectt (ob\<lparr>lru := ucast lruclock\<rparr>) lruclock)
      else Inr (ob\<lparr>lru := ucast (LRU_CLOCK s)\<rparr>))"

definition objectSetLRUOrLFU ::
  "server \<Rightarrow> robj \<Rightarrow> int \<Rightarrow> int \<Rightarrow> int \<Rightarrow> int \<Rightarrow> (bool \<times> robj) cres" where
  "objectSetLRUOrLFU s val lfu_freq lru_idle lru_clock lru_multiplier =
     (if flag_set (maxmemory_policy s) MAXMEMORY_FLAG_LFU
      then if 0 \<le> lfu_freq
           then cbind (cassert (lfu_freq \<le> 255)) (\<lambda>_.
                Inr (True, val\<lparr>lru := ucast (push_bit 8 (LFUGetTimeInMinutes s) OR word_of_int lfu_freq)\<rparr>))
           else Inr (False, val)
      else if 0 \<le> lru_idle
      then (let lru_idle' = lru_idle * lru_multiplier div LRU_CLOCK_RESOLUTION;
                lru_abs = lru_clock - lru_idle';
                lru_abs' = (if lru_abs < 0 then lru_abs + LRU_CLOCK_MAX else lru_abs)
            in cbind (initOrUpdateObjectt (val\<lparr>lru := word_of_int lru_abs'\<rparr>) (word_of_int lru_idle'))
                 (\<lambda>ob. Inr (True, ob)))
      else Inr (False, val))"

subsection \<open>The list of recorded accesses\<close>

definition history :: "robj \<Rightarrow> u64 list" where
  "history ob = take (unat (num_accesses ob)) (access_times ob)"

text \<open>An object as the lookups leave it: the declared array, at most \<open>HISTORY_SIZE\<close> entries used.\<close>

definition hist_ok :: "robj \<Rightarrow> bool" where
  "hist_ok ob = (robj_wf ob \<and> unat (num_accesses ob) \<le> HISTORY_SIZE)"

lemma hist_okD [dest]:
  "hist_ok ob \<Longrightarrow> length (access_times ob) = 4" "hist_ok ob \<Longrightarrow> unat (num_accesses ob) \<le> 4"
  by (simp_all add: hist_ok_def robj_wf_def HISTORY_SIZE_def)

lemma hist_ok_simps:
  "hist_ok ob \<Longrightarrow> length (access_times ob) = 4" "hist_ok ob \<Longrightarrow> unat (num_accesses ob) \<le> 4"
  by (rule hist_okD(1), assumption, rule hist_okD(2))

lemma length_history: "hist_ok ob \<Longrightarrow> length (history ob) = unat (num_accesses ob)"
  by (frule hist_okD(1), frule hist_okD(2)) (simp add: history_def)

lemma take_Suc_update: "i < length xs \<Longrightarrow> take (Suc i) (xs[i := v]) = take i xs @ [v]"
  by (simp add: take_Suc_conv_app_nth)

lemma unat_small_Suc: "unat (w :: u8) < 255 \<Longrightarrow> unat (w + 1) = Suc (unat w)"
  using unat_add_lem [of w 1] by simp

text \<open>Appending while there is room, for both routines.\<close>

lemma append_access:
  assumes "robj_wf ob" "unat (num_accesses ob) < 4"
  shows "\<exists>ob'. cbind (arr_set (access_times ob) (unat (num_accesses ob)) now) (\<lambda>ts.
                 Inr (ob\<lparr>access_times := ts, num_accesses := num_accesses ob + 1\<rparr>)) = Inr ob'
               \<and> hist_ok ob' \<and> history ob' = history ob @ [now]
               \<and> ob' = ob\<lparr>access_times := access_times ob', num_accesses := num_accesses ob'\<rparr>"
proof -
  have "unat (num_accesses ob + 1) = Suc (unat (num_accesses ob))"
    using assms(2) by (intro unat_small_Suc) simp
  with assms show ?thesis
    by (simp add: arr_simps robj_wf_def HISTORY_SIZE_def hist_ok_def history_def take_Suc_update)
qed

lemma shift_list4:
  assumes "length xs = 4"
  shows "\<exists>ys. arr_move xs 0 1 3 = Inr ys \<and> length ys = 4 \<and> arr_set ys 3 now = Inr (tl xs @ [now])"
proof -
  from assms obtain a b c d where "xs = [a, b, c, d]"
    by (auto simp: numeral_eq_Suc length_Suc_conv)
  then show ?thesis by (simp add: arr_move_def arr_set_def numeral_eq_Suc)
qed

text \<open>One lookup: the history gains the present clock and keeps its last four entries.\<close>

lemma updateLRUHistogram_history:
  assumes "hist_ok ob"
  shows "\<exists>ob'. updateLRUHistogram s ob = Inr ob' \<and> hist_ok ob'
               \<and> history ob' = take_last 4 (history ob @ [ucast (LRU_CLOCK s)])
               \<and> ob' = ob\<lparr>access_times := access_times ob', num_accesses := num_accesses ob'\<rparr>"
proof (cases "unat (num_accesses ob) < 4")
  case True
  have "length (history ob) < 4" using True length_history [OF assms] by simp
  then show ?thesis
    using append_access [of ob "ucast (LRU_CLOCK s)"] True assms
    by (simp add: updateLRUHistogram_def Let_def HISTORY_SIZE_def hist_ok_def take_last_snoc)
next
  case False
  with assms have n: "unat (num_accesses ob) = 4" and l: "length (access_times ob) = 4"
    by (auto dest: hist_okD)
  then have h: "history ob = access_times ob" by (simp add: history_def)
  obtain ys where "arr_move (access_times ob) 0 1 3 = Inr ys"
      "arr_set ys 3 (ucast (LRU_CLOCK s)) = Inr (tl (access_times ob) @ [ucast (LRU_CLOCK s)])"
    using shift_list4 [OF l] by blast
  then show ?thesis
    using n l assms h
    by (simp add: updateLRUHistogram_def Let_def HISTORY_SIZE_def hist_ok_def robj_wf_def
        history_def take_last_snoc take_last_id)
qed


subsection \<open>Runs of lookups\<close>

text \<open>\<open>ss\<close> are the server states at which the object is looked up, in order.\<close>

fun lookups :: "server list \<Rightarrow> robj \<Rightarrow> robj cres" where
  "lookups [] ob = Inr ob"
| "lookups (s # ss) ob = cbind (updateLRUHistogram s ob) (lookups ss)"

lemma take_last_take_last: "take_last n (take_last n xs @ ys) = take_last n (xs @ ys)"
proof (cases "length xs \<le> n")
  case False
  then have "length xs + length ys - (length xs - n + n) + (length xs - n) = length xs + length ys - n"
    by simp
  with False show ?thesis by (simp add: take_last_def)
qed (simp add: take_last_id)

lemma lookups_history:
  "hist_ok ob \<Longrightarrow> \<exists>ob'. lookups ss ob = Inr ob' \<and> hist_ok ob'
     \<and> history ob' = take_last 4 (history ob @ map (\<lambda>s. ucast (LRU_CLOCK s)) ss)
     \<and> refcount ob' = refcount ob \<and> lru ob' = lru ob"
proof (induction ss arbitrary: ob)
  case Nil
  then have "length (history ob) \<le> 4" using length_history [OF Nil] by (auto dest: hist_okD)
  with Nil show ?case by (simp add: take_last_id)
next
  case (Cons s ss)
  obtain ob1 where 1: "updateLRUHistogram s ob = Inr ob1" "hist_ok ob1"
      "history ob1 = take_last 4 (history ob @ [ucast (LRU_CLOCK s)])"
      "ob1 = ob\<lparr>access_times := access_times ob1, num_accesses := num_accesses ob1\<rparr>"
    using updateLRUHistogram_history [OF Cons.prems] by blast
  have f: "refcount ob1 = refcount ob" "lru ob1 = lru ob"
    by (subst 1(4), simp)+
  obtain ob2 where "lookups ss ob1 = Inr ob2" "hist_ok ob2"
      "history ob2 = take_last 4 (history ob1 @ map (\<lambda>s. ucast (LRU_CLOCK s)) ss)"
      "refcount ob2 = refcount ob1" "lru ob2 = lru ob1"
    using Cons.IH [OF 1(2)] by blast
  with 1 f show ?case by (simp add: take_last_take_last)
qed

text \<open>
  C26: The access history refines the list of all accesses. Any sequence of lookups of a
  well-formed object succeeds without leaving the array, and afterwards the recorded history
  is the last four of the accesses it had and the clocks of the lookups, in order.
\<close>

theorem history_is_last_accesses:
  assumes "hist_ok ob"
  shows "\<exists>ob'. lookups ss ob = Inr ob' \<and> hist_ok ob'
           \<and> history ob' = take_last HISTORY_SIZE (history ob @ map (\<lambda>s. ucast (LRU_CLOCK s)) ss)"
  using lookups_history [OF assms, of ss] by (auto simp: HISTORY_SIZE_def)

definition server_at :: "u32 \<Rightarrow> server" where
  "server_at c = init_server\<lparr>lruclock := c,
                   maxmemory_policy := MAXMEMORY_ALLKEYS_LRU_HISTOGRAM\<rparr>"

lemma LRU_CLOCK_server_at [simp]: "LRU_CLOCK (server_at c) = c"
  by (simp add: LRU_CLOCK_def server_at_def init_server_def)

theorem history_is_last_accesses_witness:
  "\<exists>ob'. lookups (map server_at [3, 5, 8, 9, 20]) (sample_obj 0) = Inr ob' \<and> hist_ok ob'
         \<and> history ob' = [5, 8, 9, 20]"
  using history_is_last_accesses [of "sample_obj 0" "map server_at [3, 5, 8, 9, 20]"]
  by (simp add: hist_ok_def robj_wf_def sample_obj_def HISTORY_SIZE_def history_def take_last_def)

subsection \<open>Entering the keyspace\<close>

lemma initOrUpdate_append:
  assumes "robj_wf ob" "unat (num_accesses ob) < 4"
  shows "\<exists>ob'. initOrUpdateObjectt ob now = Inr ob' \<and> hist_ok ob' \<and> history ob' = history ob @ [now]
               \<and> ob' = ob\<lparr>access_times := access_times ob', num_accesses := num_accesses ob'\<rparr>"
proof (cases "num_accesses ob = 0")
  case True
  have "take (Suc 0) ((access_times ob)[0 := now]) = [now]"
    using assms(1) by (cases "access_times ob") (auto simp: robj_wf_def HISTORY_SIZE_def)
  then show ?thesis using assms True
    by (simp add: initOrUpdateObjectt_def arr_simps robj_wf_def HISTORY_SIZE_def hist_ok_def
        history_def)
next
  case False
  then show ?thesis using append_access [OF assms, of now] assms(2)
    by (auto simp: initOrUpdateObjectt_def HISTORY_SIZE_def)
qed

lemma initOrUpdate_full:
  assumes "robj_wf ob" "unat (num_accesses ob) = 4"
  shows "initOrUpdateObjectt ob now = Inl OutOfBounds"
  using assms by (auto simp: initOrUpdateObjectt_def HISTORY_SIZE_def robj_wf_def arr_simps)

lemma initOrUpdate_over:
  assumes "robj_wf ob" "4 < unat (num_accesses ob)"
  shows "no_fault (initOrUpdateObjectt ob now)"
proof -
  have l: "length (access_times ob) = 4" using assms(1) by (simp add: robj_wf_def HISTORY_SIZE_def)
  obtain ys where "arr_move (access_times ob) 0 1 3 = Inr ys"
      "arr_set ys 3 now = Inr (tl (access_times ob) @ [now])"
    using shift_list4 [OF l] by blast
  then show ?thesis using assms(2) by (auto simp: initOrUpdateObjectt_def HISTORY_SIZE_def)
qed

lemma initOrUpdate_over_count:
  assumes "robj_wf ob" "4 < unat (num_accesses ob)"
  shows "\<exists>ob'. initOrUpdateObjectt ob now = Inr ob' \<and> num_accesses ob' = num_accesses ob + 1
               \<and> length (access_times ob') = 4"
proof -
  have l: "length (access_times ob) = 4" using assms(1) by (simp add: robj_wf_def HISTORY_SIZE_def)
  obtain ys where "arr_move (access_times ob) 0 1 3 = Inr ys"
      "arr_set ys 3 now = Inr (tl (access_times ob) @ [now])"
    using shift_list4 [OF l] by blast
  then show ?thesis using assms(2) l by (auto simp: initOrUpdateObjectt_def HISTORY_SIZE_def)
qed

text \<open>
  C27: \<open>initOrUpdateObjectt\<close> appends the access while fewer than four are recorded and writes
  outside \<open>access_times\<close> exactly when four are: its bound is \<open>num_accesses <= HISTORY_SIZE\<close>
  where the last slot is \<open>HISTORY_SIZE - 1\<close>.
\<close>

theorem initOrUpdate_bounds:
  assumes "robj_wf ob"
  shows "(initOrUpdateObjectt ob now = Inl OutOfBounds \<longleftrightarrow> num_accesses ob = 4)
         \<and> (unat (num_accesses ob) < HISTORY_SIZE \<longrightarrow>
             (\<exists>ob'. initOrUpdateObjectt ob now = Inr ob' \<and> hist_ok ob' \<and> history ob' = history ob @ [now]))"
proof -
  have "num_accesses ob = 4 \<longleftrightarrow> unat (num_accesses ob) = unat (4 :: u8)"
    by (metis unsigned_word_eqI)
  then have four: "num_accesses ob = 4 \<longleftrightarrow> unat (num_accesses ob) = 4" by simp
  consider "unat (num_accesses ob) < 4" | "unat (num_accesses ob) = 4" | "4 < unat (num_accesses ob)"
    by linarith
  then show ?thesis
  proof cases
    case 1
    obtain ob' where "initOrUpdateObjectt ob now = Inr ob'" "hist_ok ob'" "history ob' = history ob @ [now]"
      using initOrUpdate_append [OF assms 1] by blast
    with 1 four show ?thesis by simp
  next
    case 2
    then show ?thesis using initOrUpdate_full [OF assms 2] four by (auto simp: HISTORY_SIZE_def)
  next
    case 3
    then show ?thesis using initOrUpdate_over [OF assms 3, of now] four by (auto simp: HISTORY_SIZE_def)
  qed
qed

theorem initOrUpdate_bounds_witness:
  "initOrUpdateObjectt ((sample_obj 0)\<lparr>num_accesses := 4\<rparr>) 9 = Inl OutOfBounds"
  using initOrUpdate_bounds [of "(sample_obj 0)\<lparr>num_accesses := 4\<rparr>" 9]
  by (simp add: robj_wf_def sample_obj_def HISTORY_SIZE_def)

text \<open>
  Under the histogram policy an object that is not shared and has been looked up until its
  history is full cannot be put into the keyspace again (as RENAME and MOVE do with the object
  they found): the insertion writes outside the history.
\<close>

theorem reinsertion_faults:
  assumes "hist_ok ob" and "refcount ob \<noteq> OBJ_SHARED_REFCOUNT"
    and "flag_set (maxmemory_policy s) MAXMEMORY_FLAG_LRU_HISTOGRAM"
    and "\<not> flag_set (maxmemory_policy s) MAXMEMORY_FLAG_LFU"
    and "HISTORY_SIZE \<le> length (history ob) + length ss"
  shows "cbind (lookups ss ob) (initObjectLRUOrLFU s) = Inl OutOfBounds"
proof -
  obtain ob' where o: "lookups ss ob = Inr ob'" "hist_ok ob'" "refcount ob' = refcount ob"
      and h: "history ob' = take_last 4 (history ob @ map (\<lambda>s. ucast (LRU_CLOCK s)) ss)"
    using lookups_history [OF assms(1), of ss] by blast
  have "length (history ob') = 4" unfolding h using assms(5) by (simp add: HISTORY_SIZE_def)
  then have n: "unat (num_accesses ob') = 4" using length_history [OF o(2)] by simp
  have "initObjectLRUOrLFU s ob' = Inl OutOfBounds"
    using o assms n unfolding initObjectLRUOrLFU_def Let_def
    by (simp add: initOrUpdate_full robj_wf_def hist_ok_def)
  with o show ?thesis by simp
qed

theorem reinsertion_faults_witness:
  "cbind (lookups (map server_at [1, 2, 3, 4]) (sample_obj 0)) (initObjectLRUOrLFU (server_at 5))
     = Inl OutOfBounds"
  by (rule reinsertion_faults)
     (auto simp: hist_ok_def robj_wf_def sample_obj_def HISTORY_SIZE_def OBJ_SHARED_REFCOUNT_def
        server_at_def policy_defs)

text \<open>
  Restoring an idle time (RDB load, RESTORE) under a policy without the LFU flag sets the
  LRU field to the present clock less the idle time, but what it appends to the access history
  is the idle time itself, a duration where every other entry is a point in time.
\<close>

theorem restored_history_is_idle_time:
  assumes "hist_ok ob" and "unat (num_accesses ob) < HISTORY_SIZE"
    and "\<not> flag_set (maxmemory_policy s) MAXMEMORY_FLAG_LFU"
    and "0 \<le> idle" and "idle \<le> clock" and "clock \<le> LRU_CLOCK_MAX"
  shows "\<exists>ob'. objectSetLRUOrLFU s ob freq idle clock 1000 = Inr (True, ob')
           \<and> history ob' = history ob @ [word_of_int idle]
           \<and> int (unat (lru ob')) = clock - idle"
proof -
  let ?ob = "ob\<lparr>lru := word_of_int (clock - idle)\<rparr>"
  have "robj_wf ?ob" "unat (num_accesses ?ob) < 4"
    using assms(1,2) by (auto simp: robj_wf_def hist_ok_def HISTORY_SIZE_def)
  from initOrUpdate_append [OF this, of "word_of_int idle"] obtain ob' where
      i: "initOrUpdateObjectt ?ob (word_of_int idle) = Inr ob'" and "history ob' = history ?ob @ [word_of_int idle]"
    and f: "ob' = ?ob\<lparr>access_times := access_times ob', num_accesses := num_accesses ob'\<rparr>"
    by blast
  moreover have "lru ob' = word_of_int (clock - idle)" by (subst f) (simp del: of_int_diff)
  moreover have "int (unat (word_of_int (clock - idle) :: u24)) = clock - idle"
    using assms(4-6) by (simp add: unsigned_of_int take_bit_int_eq_self del: of_int_diff)
  ultimately show ?thesis
    using assms(3-6) by (simp add: objectSetLRUOrLFU_def Let_def history_def del: of_int_diff)
qed

theorem restored_history_is_idle_time_witness:
  "\<exists>ob'. objectSetLRUOrLFU (server_at 5000) (sample_obj 0) (- 1) 30 5000 1000 = Inr (True, ob')
         \<and> history ob' = [30]"
  using restored_history_is_idle_time [of "sample_obj 0" "server_at 5000" 30 5000 "- 1"]
  by (auto simp: hist_ok_def robj_wf_def sample_obj_def HISTORY_SIZE_def server_at_def policy_defs
      history_def)
end
