(* ===== verification/Hlru_Score.thy ===== *)
theory Hlru_Score
  imports Hlru
begin

section \<open>Statistics, windows and eviction scores of the histogram policy (evict.c)\<close>

text \<open>
  \<open>calculateStatistics\<close> (called as \<open>calculateGlobalStatistics\<close>, the name server.h declares)
  computes minimum, maximum, mean and standard deviation of the ages of all accesses of the
  sampled objects; \<open>defineWindowBoundaries\<close> turns them into the boundaries of the windows;
  \<open>estimateObjectEvictionScore\<close> counts the accesses of one object per window and weighs the
  counts. All arithmetic is that of the code: ages, sums and squares are \<open>unsigned long long\<close>
  and wrap, the rest is \<open>double\<close>.
\<close>

subsection \<open>Definitions\<close>

record stat_acc =
  global_min :: u64
  global_max :: u64
  acc_sum :: u64
  sum_of_squares :: u64
  acc_count :: u64

definition stat_init :: stat_acc where
  "stat_init = \<lparr>global_min = - 1, global_max = 0, acc_sum = 0, sum_of_squares = 0, acc_count = 0\<rparr>"

definition stat_step :: "u64 \<Rightarrow> stat_acc \<Rightarrow> stat_acc" where
  "stat_step age a =
     a\<lparr>global_min := (if age < global_min a then age else global_min a),
       global_max := (if global_max a < age then age else global_max a),
       acc_sum := acc_sum a + age,
       sum_of_squares := sum_of_squares a + age * age,
       acc_count := acc_count a + 1\<rparr>"

text \<open>The inner loop \<open>for (i = 0; i < o->num_accesses; i++)\<close> over the indices left to visit.\<close>

fun stat_object :: "u64 \<Rightarrow> robj \<Rightarrow> nat list \<Rightarrow> stat_acc \<Rightarrow> stat_acc cres" where
  "stat_object now ob [] a = Inr a"
| "stat_object now ob (i # is) a =
     cbind (arr_get (access_times ob) i) (\<lambda>t. stat_object now ob is (stat_step (now - t) a))"

fun stat_samples :: "u64 \<Rightarrow> robj list \<Rightarrow> stat_acc \<Rightarrow> stat_acc cres" where
  "stat_samples now [] a = Inr a"
| "stat_samples now (ob # obs) a =
     cbind (stat_object now ob [0..<unat (num_accesses ob)] a) (stat_samples now obs)"

definition calculateStatistics :: "server \<Rightarrow> robj list \<Rightarrow> (u64 \<times> u64 \<times> double \<times> double) cres" where
  "calculateStatistics s samples =
     cbind (stat_samples (ucast (LRU_CLOCK s)) samples stat_init) (\<lambda>a.
       if 0 < acc_count a
       then (let mean = ddiv (dof_u64 (acc_sum a)) (dof_u64 (acc_count a));
                 stddev = dsqrt (dsub (ddiv (dof_u64 (sum_of_squares a)) (dof_u64 (acc_count a)))
                                      (dmul mean mean))
             in Inr (global_min a, global_max a, mean, stddev))
       else Inr (global_min a, global_max a, Fin 0, Fin 0))"

definition defineWindowBoundaries :: "u64 \<Rightarrow> u64 \<Rightarrow> double \<Rightarrow> double \<Rightarrow> double list" where
  "defineWindowBoundaries gmin gmax mean stddev =
     [dof_u64 gmin,
      dfmax (dof_u64 gmin) (dsub mean stddev),
      dfmax (dof_u64 gmin) (dfmin (dof_u64 gmax) mean),
      dfmin (dof_u64 gmax) (dadd mean stddev),
      dof_u64 gmax]"

text \<open>
  The loop over the windows \<open>j = 1, \<dots>, NUM_WINDOWS\<close>. \<open>window_boundaries\<close> has
  \<open>NUM_WINDOWS\<close> elements, so the last round reads past it.
\<close>

fun count_window :: "double list \<Rightarrow> u64 \<Rightarrow> nat list \<Rightarrow> int list \<Rightarrow> int list cres" where
  "count_window wb age [] counts = Inr counts"
| "count_window wb age (j # js) counts =
     cbind (arr_get wb j) (\<lambda>b.
       if dle (dof_u64 age) b then cbind (arr_get counts j) (\<lambda>c. arr_set counts j (c + 1))
       else count_window wb age js counts)"

fun count_accesses :: "u64 \<Rightarrow> double list \<Rightarrow> robj \<Rightarrow> nat list \<Rightarrow> int list \<Rightarrow> int list cres" where
  "count_accesses now wb ob [] counts = Inr counts"
| "count_accesses now wb ob (i # is) counts =
     cbind (arr_get (access_times ob) i) (\<lambda>t.
     cbind (count_window wb (now - t) [1..<NUM_WINDOWS + 1] counts)
       (count_accesses now wb ob is))"

definition WINDOW_WEIGHTS :: "double list" where
  "WINDOW_WEIGHTS =
     [WINDOW_WEIGHT_1, WINDOW_WEIGHT_2, WINDOW_WEIGHT_3, WINDOW_WEIGHT_4, WINDOW_WEIGHT_5]"

fun weigh :: "int list \<Rightarrow> nat list \<Rightarrow> double \<Rightarrow> double cres" where
  "weigh counts [] score = Inr score"
| "weigh counts (i # is) score =
     cbind (arr_get counts i) (\<lambda>c.
     cbind (arr_get WINDOW_WEIGHTS i) (\<lambda>w.
     weigh counts is (dadd score (dmul (dof_int c) w))))"

definition estimateObjectEvictionScore :: "server \<Rightarrow> robj \<Rightarrow> double list \<Rightarrow> double cres" where
  "estimateObjectEvictionScore s ob wb =
     cbind (count_accesses (ucast (LRU_CLOCK s)) wb ob [0..<unat (num_accesses ob)]
              (replicate (NUM_WINDOWS + 1) 0)) (\<lambda>counts.
     cbind (weigh counts [1..<NUM_WINDOWS] (Fin 0)) (\<lambda>score.
       let tie_breaker = dmul (dlit (1 / 100)) (dof_int (int (unat (num_accesses ob))))
       in Inr (dneg (dadd score tie_breaker))))"


subsection \<open>The loops as folds over the ages\<close>

definition ages :: "u64 \<Rightarrow> robj \<Rightarrow> u64 list" where
  "ages now ob = map (\<lambda>t. now - t) (history ob)"

lemma length_ages: "hist_ok ob \<Longrightarrow> length (ages now ob) = unat (num_accesses ob)"
  by (simp add: ages_def length_history)

lemma ages_upt:
  "hist_ok ob \<Longrightarrow> map (\<lambda>i. now - access_times ob ! i) [0..<unat (num_accesses ob)] = ages now ob"
  by (rule nth_equalityI) (auto simp: ages_def history_def min_absorb2 hist_ok_simps)

lemma stat_object_fold:
  "\<forall>i \<in> set is. i < length (access_times ob) \<Longrightarrow>
   stat_object now ob is a = Inr (fold stat_step (map (\<lambda>i. now - access_times ob ! i) is) a)"
  by (induction "is" arbitrary: a) (auto simp: arr_simps)

lemma stat_samples_fold:
  "\<forall>ob \<in> set obs. hist_ok ob \<Longrightarrow>
   stat_samples now obs a = Inr (fold stat_step (concat (map (ages now) obs)) a)"
proof (induction obs arbitrary: a)
  case (Cons ob obs)
  then have "hist_ok ob" by simp
  then have "stat_object now ob [0..<unat (num_accesses ob)] a = Inr (fold stat_step (ages now ob) a)"
    using hist_ok_simps(2) [of ob] by (subst stat_object_fold) (auto simp: ages_upt hist_ok_simps)
  with Cons show ?case by simp
qed simp

lemma fold_stat_step:
  "global_min (fold stat_step xs a) = fold min xs (global_min a)"
  "global_max (fold stat_step xs a) = fold max xs (global_max a)"
  "acc_sum (fold stat_step xs a) = acc_sum a + sum_list xs"
  "sum_of_squares (fold stat_step xs a) = sum_of_squares a + sum_list (map (\<lambda>x. x * x) xs)"
  "acc_count (fold stat_step xs a) = acc_count a + of_nat (length xs)"
  by (induction xs arbitrary: a) (auto simp: stat_step_def min_def max_def add.assoc)

lemma fold_min_le: "x \<in> set xs \<Longrightarrow> fold min xs (m :: 'a :: linorder) \<le> x"
  by (metis List.finite_set Min.set_eq_fold Min_le list.set_intros(2))

lemma fold_max_ge: "x \<in> set xs \<Longrightarrow> x \<le> fold max xs (m :: 'a :: linorder)"
  by (metis List.finite_set Max.set_eq_fold Max_ge list.set_intros(2))

subsection \<open>Counting accesses per window\<close>

definition window_of :: "double list \<Rightarrow> u64 \<Rightarrow> nat" where
  "window_of wb age =
     (if dle (dof_u64 age) (wb ! 1) then 1 else if dle (dof_u64 age) (wb ! 2) then 2
      else if dle (dof_u64 age) (wb ! 3) then 3 else 4)"

definition bump_window :: "double list \<Rightarrow> u64 \<Rightarrow> int list \<Rightarrow> int list" where
  "bump_window wb age counts = counts[window_of wb age := counts ! window_of wb age + 1]"

definition in_windows :: "double list \<Rightarrow> u64 \<Rightarrow> bool" where
  "in_windows wb age = dle (dof_u64 age) (wb ! 4)"

lemma window_of_range: "window_of wb age \<in> {1, 2, 3, 4}"
  by (simp add: window_of_def)

lemma upt_windows:
  "[Suc 0..<Suc NUM_WINDOWS] = [Suc 0, 2, 3, 4, 5]" "[Suc 0..<NUM_WINDOWS] = [Suc 0, 2, 3, 4]"
  by (simp_all add: NUM_WINDOWS_def upt_rec)

lemma count_window_ok:
  assumes "length wb = 5" "in_windows wb age" "length counts = 6"
  shows "count_window wb age [Suc 0, 2, 3, 4, 5] counts = Inr (bump_window wb age counts)"
  using assms by (auto simp: arr_simps bump_window_def window_of_def in_windows_def)

declare count_window.simps [simp del]

lemma length_bump [simp]: "length (bump_window wb age counts) = length counts"
  by (simp add: bump_window_def)

lemma count_accesses_fold:
  assumes "length wb = 5"
  shows "\<forall>i \<in> set is. i < length (access_times ob) \<and> in_windows wb (now - access_times ob ! i) \<Longrightarrow>
         length counts = 6 \<Longrightarrow>
         count_accesses now wb ob is counts =
           Inr (fold (bump_window wb) (map (\<lambda>i. now - access_times ob ! i) is) counts)"
  by (induction "is" arbitrary: counts) (auto simp: arr_simps count_window_ok assms upt_windows simp del: upt_Suc)

definition window_count :: "double list \<Rightarrow> u64 list \<Rightarrow> nat \<Rightarrow> int" where
  "window_count wb as j = int (length (filter (\<lambda>a. window_of wb a = j) as))"

lemma fold_bump_nth:
  "length counts = 6 \<Longrightarrow> j < 6 \<Longrightarrow>
   fold (bump_window wb) as counts ! j = counts ! j + window_count wb as j"
proof (induction as arbitrary: counts)
  case (Cons a as)
  have "window_of wb a < 6" using window_of_range [of wb a] by auto
  with Cons show ?case by (auto simp: bump_window_def window_count_def nth_list_update)
qed (simp add: window_count_def)

lemma length_fold_bump [simp]: "length (fold (bump_window wb) as counts) = length counts"
  by (induction as arbitrary: counts) auto

subsection \<open>The weighted sum\<close>

definition wadd :: "rat \<Rightarrow> int \<Rightarrow> rat \<Rightarrow> rat" where
  "wadd acc c w = rnd (acc + rnd (of_int c * rnd w))"

definition wsum :: "int \<Rightarrow> int \<Rightarrow> int \<Rightarrow> int \<Rightarrow> rat" where
  "wsum c1 c2 c3 c4 =
     wadd (wadd (wadd (wadd 0 c1 (3 / 10)) c2 (2 / 10)) c3 (15 / 100)) c4 (5 / 100)"

definition score_of :: "double list \<Rightarrow> u64 list \<Rightarrow> rat" where
  "score_of wb as =
     - rnd (wsum (window_count wb as 1) (window_count wb as 2) (window_count wb as 3) (window_count wb as 4)
            + rnd (rnd (1 / 100) * of_nat (length as)))"

lemma weigh_windows:
  assumes "length counts = 6" "\<forall>j < 6. \<bar>counts ! j\<bar> < 2 ^ 53"
  shows "weigh counts [Suc 0, 2, 3, 4] (Fin 0) =
           Inr (Fin (wsum (counts ! 1) (counts ! 2) (counts ! 3) (counts ! 4)))"
proof -
  have d: "dof_int (counts ! j) = Fin (of_int (counts ! j))" if "j < 6" for j
    using assms(2) that by (intro dof_int_small) simp
  show ?thesis
    using assms(1) by (simp add: arr_get_def d WINDOW_WEIGHTS_def wsum_def wadd_def dlit_def
        WINDOW_WEIGHT_1_def WINDOW_WEIGHT_2_def WINDOW_WEIGHT_3_def WINDOW_WEIGHT_4_def
        WINDOW_WEIGHT_5_def numeral_eq_Suc)
qed

lemma window_count_le: "0 \<le> window_count wb as j \<and> window_count wb as j \<le> int (length as)"
  by (simp add: window_count_def length_filter_le)

lemma replicate6: "replicate (NUM_WINDOWS + 1) (0::int) = replicate 6 0"
  by (simp add: NUM_WINDOWS_def)

lemma estimate_score_of:
  assumes "hist_ok ob" "length wb = 5" "\<forall>a \<in> set (ages (ucast (LRU_CLOCK s)) ob). in_windows wb a"
  shows "estimateObjectEvictionScore s ob wb = Inr (Fin (score_of wb (ages (ucast (LRU_CLOCK s)) ob)))"
proof -
  let ?now = "ucast (LRU_CLOCK s) :: u64"
  let ?as = "ages ?now ob"
  let ?cs = "fold (bump_window wb) ?as (replicate 6 0)"
  have n: "unat (num_accesses ob) \<le> 4" and l: "length (access_times ob) = 4"
    using assms(1) by (simp_all add: hist_ok_simps)
  have u: "ages ?now ob = map (\<lambda>i. ?now - access_times ob ! i) [0..<unat (num_accesses ob)]"
    using ages_upt [OF assms(1)] by simp
  have "count_accesses ?now wb ob [0..<unat (num_accesses ob)] (replicate 6 0) = Inr ?cs"
    unfolding u using assms(2,3) n l by (subst count_accesses_fold) (auto simp: u)
  moreover have nth: "?cs ! j = window_count wb ?as j" if "j < 6" for j
    using that by (subst fold_bump_nth) auto
  have la: "length ?as \<le> 4" using length_ages [OF assms(1)] n by simp
  have "\<bar>?cs ! j\<bar> < 2 ^ 53" if "j < 6" for j
    using nth [OF that] window_count_le [of wb ?as j] la by simp
  then have "weigh ?cs [Suc 0, 2, 3, 4] (Fin 0) = Inr (Fin (wsum (?cs ! 1) (?cs ! 2) (?cs ! 3) (?cs ! 4)))"
    by (intro weigh_windows) auto
  moreover have "dof_int (int (length ?as)) = Fin (of_nat (length ?as))"
    using la dof_int_small [of "int (length ?as)"] by simp
  ultimately show ?thesis
    using length_ages [OF assms(1), of ?now] replicate6
    by (simp add: estimateObjectEvictionScore_def nth score_of_def dlit_def Let_def upt_windows)
qed

subsection \<open>More and younger accesses never raise the score\<close>

lemma wadd_err:
  assumes "0 \<le> c" "c \<le> 4" "0 \<le> w" "w \<le> 3 / 10" "\<bar>acc\<bar> \<le> 3 / 2"
  shows "\<bar>wadd acc c w - (acc + of_int c * w)\<bar> \<le> 6 / 2 ^ 52"
proof -
  define e :: rat where "e = 1 / 2 ^ 52"
  have e: "0 < e" "e < 1 / 100" by (simp_all add: e_def)
  have c: "(0::rat) \<le> of_int c" "of_int c \<le> (4::rat)" using assms by auto
  have 1: "\<bar>rnd w - w\<bar> \<le> e" unfolding e_def using assms by (intro rnd_err_small) auto
  have "\<bar>of_int c * (rnd w - w)\<bar> \<le> 4 * e"
    unfolding abs_mult using 1 c by (intro mult_mono) auto
  then have 2: "\<bar>of_int c * rnd w - of_int c * w\<bar> \<le> 4 * e" by (simp add: right_diff_distrib)
  have "of_int c * w \<le> 4 * (3 / 10)" using c assms by (intro mult_mono) auto
  moreover have "0 \<le> of_int c * w" using c assms by simp
  ultimately have cw: "\<bar>of_int c * w\<bar> \<le> 12 / 10" by simp
  with 2 e have "\<bar>of_int c * rnd w\<bar> < 4" by linarith
  then have 3: "\<bar>rnd (of_int c * rnd w) - of_int c * rnd w\<bar> \<le> e"
    unfolding e_def by (rule rnd_err_small)
  with 2 cw e assms(5) have "\<bar>acc + rnd (of_int c * rnd w)\<bar> < 4" by linarith
  then have 4: "\<bar>wadd acc c w - (acc + rnd (of_int c * rnd w))\<bar> \<le> e"
    unfolding e_def wadd_def by (rule rnd_err_small)
  from 2 3 4 have "\<bar>wadd acc c w - (acc + of_int c * w)\<bar> \<le> 6 * e" by linarith
  then show ?thesis by (simp add: e_def)
qed

lemma wsum_err:
  assumes "0 \<le> c1" "0 \<le> c2" "0 \<le> c3" "0 \<le> c4" "c1 + c2 + c3 + c4 \<le> 4"
  shows "\<bar>wsum c1 c2 c3 c4 - (of_int (6 * c1 + 4 * c2 + 3 * c3 + c4) / 20)\<bar> \<le> 1 / 1000"
proof -
  have c: "of_int c1 \<ge> (0::rat)" "of_int c2 \<ge> (0::rat)" "of_int c3 \<ge> (0::rat)" "of_int c4 \<ge> (0::rat)"
      "rat_of_int c1 + of_int c2 + of_int c3 + of_int c4 \<le> 4"
    using assms by (simp_all flip: of_int_add)
  define a1 a2 a3 a4 where
    "a1 = wadd 0 c1 (3 / 10)" and "a2 = wadd a1 c2 (2 / 10)" and
    "a3 = wadd a2 c3 (15 / 100)" and "a4 = wadd a3 c4 (5 / 100)"
  have e: "(6::rat) / 2 ^ 52 \<le> 1 / 10000" by simp
  have 1: "\<bar>a1 - of_int c1 * (3 / 10)\<bar> \<le> 1 / 10000"
    using wadd_err [of c1 "3 / 10" 0] assms e by (simp add: a1_def)
  have b1: "\<bar>a1\<bar> \<le> 3 / 2" using 1 c by linarith
  have 2: "\<bar>a2 - (a1 + of_int c2 * (2 / 10))\<bar> \<le> 1 / 10000"
    unfolding a2_def by (rule order_trans [OF wadd_err e]) (use assms b1 in auto)
  have b2: "\<bar>a2\<bar> \<le> 3 / 2" using 1 2 c by linarith
  have 3: "\<bar>a3 - (a2 + of_int c3 * (15 / 100))\<bar> \<le> 1 / 10000"
    unfolding a3_def by (rule order_trans [OF wadd_err e]) (use assms b2 in auto)
  have b3: "\<bar>a3\<bar> \<le> 3 / 2" using 1 2 3 c by linarith
  have 4: "\<bar>a4 - (a3 + of_int c4 * (5 / 100))\<bar> \<le> 1 / 10000"
    unfolding a4_def by (rule order_trans [OF wadd_err e]) (use assms b3 in auto)
  have t: "(of_int (6 * c1 + 4 * c2 + 3 * c3 + c4) / 20 :: rat)
        = of_int c1 * (3 / 10) + of_int c2 * (2 / 10) + of_int c3 * (15 / 100) + of_int c4 * (5 / 100)"
    by simp
  have "\<bar>a4 - of_int (6 * c1 + 4 * c2 + 3 * c3 + c4) / 20\<bar> \<le> 1 / 1000"
    unfolding t using 1 2 3 4 by linarith
  then show ?thesis by (simp add: wsum_def a1_def a2_def a3_def a4_def)
qed

lemma wsum_mono:
  assumes "0 \<le> b1" "0 \<le> b2" "0 \<le> b3" "0 \<le> b4" "0 \<le> a1" "0 \<le> a2" "0 \<le> a3" "0 \<le> a4"
    and "a1 + a2 + a3 + a4 \<le> 4"
    and "b1 \<le> a1" "b1 + b2 \<le> a1 + a2" "b1 + b2 + b3 \<le> a1 + a2 + a3"
    and "b1 + b2 + b3 + b4 \<le> a1 + a2 + a3 + a4"
  shows "wsum b1 b2 b3 b4 \<le> wsum a1 a2 a3 a4"
proof (cases "a1 = b1 \<and> a2 = b2 \<and> a3 = b3 \<and> a4 = b4")
  case False
  then have "6 * b1 + 4 * b2 + 3 * b3 + b4 + 1 \<le> 6 * a1 + 4 * a2 + 3 * a3 + a4"
    using assms by arith
  then have "(of_int (6 * b1 + 4 * b2 + 3 * b3 + b4 + 1) :: rat) \<le> of_int (6 * a1 + 4 * a2 + 3 * a3 + a4)"
    by (simp only: of_int_le_iff)
  then have "of_int (6 * b1 + 4 * b2 + 3 * b3 + b4) / 20 + 1 / 20
               \<le> (of_int (6 * a1 + 4 * a2 + 3 * a3 + a4) / 20 :: rat)"
    unfolding of_int_add [of _ 1] of_int_1 add_divide_distrib [symmetric] by (rule divide_right_mono) simp
  moreover have "\<bar>wsum a1 a2 a3 a4 - of_int (6 * a1 + 4 * a2 + 3 * a3 + a4) / 20\<bar> \<le> 1 / 1000"
      "\<bar>wsum b1 b2 b3 b4 - of_int (6 * b1 + 4 * b2 + 3 * b3 + b4) / 20\<bar> \<le> 1 / 1000"
    using assms by (intro wsum_err; linarith)+
  ultimately show ?thesis by linarith
qed simp

text \<open>
  \<open>as\<close> is at least as recently and as often accessed as \<open>bs\<close>: below every age it has at least
  as many accesses.
\<close>

definition at_least_as_used :: "u64 list \<Rightarrow> u64 list \<Rightarrow> bool" where
  "at_least_as_used as bs \<longleftrightarrow>
     (\<forall>x. length (filter (\<lambda>b. b \<le> x) bs) \<le> length (filter (\<lambda>a. a \<le> x) as))"

lemma at_least_as_used_downward:
  assumes "at_least_as_used as bs" "\<And>x y. P y \<Longrightarrow> x \<le> y \<Longrightarrow> P x"
  shows "length (filter P bs) \<le> length (filter P as)"
proof (cases "filter P bs = []")
  case False
  define m where "m = Max (set (filter P bs))"
  have m: "P m" "\<And>b. b \<in> set bs \<Longrightarrow> P b \<Longrightarrow> b \<le> m"
  proof -
    have "set (filter P bs) \<noteq> {}" using False by (metis set_empty)
    then have "m \<in> set (filter P bs)" unfolding m_def by (intro Max_in) simp_all
    then show "P m" by simp
    show "b \<le> m" if "b \<in> set bs" "P b" for b
      unfolding m_def using that by (intro Max_ge) simp_all
  qed
  have "P b \<longleftrightarrow> b \<le> m" if "b \<in> set bs" for b
    using m(2) [OF that] assms(2) [OF m(1)] by blast
  then have "filter P bs = filter (\<lambda>b. b \<le> m) bs"
    by (intro filter_cong) simp_all
  then have "length (filter P bs) \<le> length (filter (\<lambda>a. a \<le> m) as)"
    using assms(1) by (simp add: at_least_as_used_def)
  also have "\<dots> \<le> length (filter P as)"
    using assms(2) [OF m(1)] by (induction as) simp_all
  finally show ?thesis .
qed simp

lemma window_of_mono: "x \<le> y \<Longrightarrow> window_of wb x \<le> window_of wb y"
  using dof_u64_le [of x y] dle_trans [of "dof_u64 x" "dof_u64 y"]
  by (auto simp: window_of_def)

lemma window_count_prefix:
  "window_count wb as 1 = int (length (filter (\<lambda>a. window_of wb a \<le> 1) as))"
  "window_count wb as 1 + window_count wb as 2 = int (length (filter (\<lambda>a. window_of wb a \<le> 2) as))"
  "window_count wb as 1 + window_count wb as 2 + window_count wb as 3
     = int (length (filter (\<lambda>a. window_of wb a \<le> 3) as))"
  "window_count wb as 1 + window_count wb as 2 + window_count wb as 3 + window_count wb as 4
     = int (length as)"
  by (induction as) (auto simp: window_count_def window_of_def)

lemma score_of_antimono:
  assumes "at_least_as_used as bs" "length as \<le> 4"
  shows "score_of wb as \<le> score_of wb bs"
proof -
  have d: "length (filter (\<lambda>b. window_of wb b \<le> k) bs) \<le> length (filter (\<lambda>a. window_of wb a \<le> k) as)" for k
    using window_of_mono [of _ _ wb] by (intro at_least_as_used_downward [OF assms(1)]) (meson order_trans)
  have l: "length bs \<le> length as"
    using at_least_as_used_downward [OF assms(1), of "\<lambda>_. True"] by simp
  note p = window_count_prefix [of wb as] window_count_prefix [of wb bs]
  have "wsum (window_count wb bs 1) (window_count wb bs 2) (window_count wb bs 3) (window_count wb bs 4)
      \<le> wsum (window_count wb as 1) (window_count wb as 2) (window_count wb as 3) (window_count wb as 4)"
  proof (rule wsum_mono)
    show "window_count wb bs 1 \<le> window_count wb as 1"
      using d [of 1] p by linarith
    show "window_count wb bs 1 + window_count wb bs 2 \<le> window_count wb as 1 + window_count wb as 2"
      using d [of 2] p by linarith
    show "window_count wb bs 1 + window_count wb bs 2 + window_count wb bs 3
            \<le> window_count wb as 1 + window_count wb as 2 + window_count wb as 3"
      using d [of 3] p by linarith
  qed (use assms(2) l window_count_le p in auto)
  moreover have "rnd (rnd (1 / 100) * of_nat (length bs)) \<le> rnd (rnd (1 / 100) * of_nat (length as))"
    using l by (intro rnd_mono mult_left_mono rnd_pos) auto
  ultimately show ?thesis unfolding score_of_def by (simp add: rnd_mono add_mono)
qed

subsection \<open>Properties\<close>

lemma unat_sum_list:
  "sum_list (map unat xs) < 2 ^ 64 \<Longrightarrow> unat (sum_list (xs :: u64 list)) = sum_list (map unat xs)"
proof (induction xs)
  case (Cons x xs)
  then have "unat (sum_list xs) = sum_list (map unat xs)" by simp
  with Cons.prems show ?case using unat_add_small [of x "sum_list xs"] by simp
qed simp

lemma fold_min_init: "xs \<noteq> [] \<Longrightarrow> \<forall>x \<in> set xs. x \<le> m \<Longrightarrow> fold min xs (m :: 'a :: linorder) \<in> set xs"
proof (cases xs)
  case (Cons a as)
  moreover assume "\<forall>x \<in> set xs. x \<le> m"
  ultimately have "fold min xs m = Min (set xs)" by (simp add: min_absorb2 flip: Min.set_eq_fold)
  also have "\<dots> \<in> set xs" using Cons by (intro Min_in) auto
  finally show ?thesis .
qed simp

lemma fold_max_init: "xs \<noteq> [] \<Longrightarrow> \<forall>x \<in> set xs. m \<le> x \<Longrightarrow> fold max xs (m :: 'a :: linorder) \<in> set xs"
proof (cases xs)
  case (Cons a as)
  moreover assume "\<forall>x \<in> set xs. m \<le> x"
  ultimately have "fold max xs m = Max (set xs)" by (simp add: max_absorb2 flip: Max.set_eq_fold)
  also have "\<dots> \<in> set xs" using Cons by (intro Max_in) auto
  finally show ?thesis .
qed simp

lemma unat_of_nat_small: "n < 2 ^ LENGTH('a :: len) \<Longrightarrow> unat (of_nat n :: 'a word) = n"
  by (simp add: unat_of_nat)

definition sample_ages :: "server \<Rightarrow> robj list \<Rightarrow> u64 list" where
  "sample_ages s samples = concat (map (ages (ucast (LRU_CLOCK s))) samples)"

lemma calculateStatistics_fold:
  assumes "\<forall>ob \<in> set samples. hist_ok ob"
  shows "stat_samples (ucast (LRU_CLOCK s)) samples stat_init
           = Inr (fold stat_step (sample_ages s samples) stat_init)"
  using stat_samples_fold [OF assms] by (simp add: sample_ages_def)

lemma acc_count_pos:
  "length xs < 2 ^ 64 \<Longrightarrow> (0 < acc_count (fold stat_step xs stat_init)) = (xs \<noteq> [])"
  using unat_of_nat_small [of "length xs", where 'a = 64]
  by (auto simp: fold_stat_step stat_init_def word_gt_0)

lemma sum_list_wraps:
  "sum_list (map f xs) = (of_nat (sum_list (map (unat \<circ> f) xs)) :: u64)"
  by (induction xs) simp_all

lemma sum_list_word: "sum_list xs = (of_nat (sum_list (map unat xs)) :: u64)"
  using sum_list_wraps [of "\<lambda>x. x" xs] by (simp add: comp_def)

lemma sum_list_squares:
  "sum_list (map (\<lambda>x. x * x) xs) = (of_nat (sum_list (map (\<lambda>x. unat x * unat x) xs)) :: u64)"
  by (induction xs) simp_all

text \<open>The four statistics as functions of the list of all ages, every sum modulo $2^{64}$.\<close>

definition mean_of :: "u64 list \<Rightarrow> double" where
  "mean_of as = (if as = [] then Fin 0
     else ddiv (dof_u64 (of_nat (sum_list (map unat as)))) (dof_u64 (of_nat (length as))))"

definition deviation_of :: "u64 list \<Rightarrow> double" where
  "deviation_of as = (if as = [] then Fin 0
     else dsqrt (dsub (ddiv (dof_u64 (of_nat (sum_list (map (\<lambda>a. unat a * unat a) as))))
                            (dof_u64 (of_nat (length as))))
                      (dmul (mean_of as) (mean_of as))))"

lemma calculateStatistics_ages:
  assumes "\<forall>ob \<in> set samples. hist_ok ob" "length (sample_ages s samples) < 2 ^ 64"
  shows "calculateStatistics s samples =
           Inr (fold min (sample_ages s samples) (- 1), fold max (sample_ages s samples) 0,
                mean_of (sample_ages s samples), deviation_of (sample_ages s samples))"
proof -
  let ?as = "sample_ages s samples" and ?a = "fold stat_step (sample_ages s samples) stat_init"
  have a: "global_min ?a = fold min ?as (- 1)" "global_max ?a = fold max ?as 0"
      "acc_count ?a = of_nat (length ?as)" "acc_sum ?a = of_nat (sum_list (map unat ?as))"
      "sum_of_squares ?a = of_nat (sum_list (map (\<lambda>x. unat x * unat x) ?as))"
    unfolding fold_stat_step sum_list_word [of ?as] sum_list_squares by (simp_all add: stat_init_def)
  show ?thesis
  proof (cases "?as = []")
    case True
    then show ?thesis
      using a acc_count_pos [OF assms(2)]
      by (simp add: calculateStatistics_def calculateStatistics_fold [OF assms(1)] mean_of_def deviation_of_def)
  next
    case False
    then have "0 < acc_count ?a" using acc_count_pos [OF assms(2)] by simp
    with False show ?thesis
      unfolding calculateStatistics_def calculateStatistics_fold [OF assms(1)] mean_of_def deviation_of_def
      by (simp add: Let_def a)
  qed
qed

lemma mean_of_exact:
  assumes "as \<noteq> []" "sum_list (map unat as) < 2 ^ 53" "length as < 2 ^ 53"
  shows "mean_of as = Fin (rnd (of_nat (sum_list (map unat as)) / of_nat (length as)))"
proof -
  have "dof_u64 (of_nat (sum_list (map unat as))) = Fin (of_nat (sum_list (map unat as)))"
      "dof_u64 (of_nat (length as)) = Fin (of_nat (length as))"
    using assms(2,3) dof_u64_small [of "of_nat (sum_list (map unat as))"] dof_u64_small [of "of_nat (length as)"]
    by (simp_all add: unat_of_nat_small)
  then show ?thesis using assms(1) by (simp add: mean_of_def)
qed

text \<open>
  C29: the statistics of a batch of samples with well-formed histories are those of the list of all
  their ages: the minimum and the maximum are ages of the samples that bound all of them; the mean is
  the sum of the ages and the standard deviation the root of the mean of their squares minus the
  square of the mean, both sums wrapped to 64 bits before they are divided by the number of accesses,
  every double operation rounded once. Without an access the four are the greatest 64-bit number, 0,
  0.0 and 0.0. Nothing is wrapped in the sum of the ages while it is below $2^{53}$: the mean is then
  the true mean, correctly rounded.
\<close>

theorem calculateStatistics_exact:
  assumes "\<forall>ob \<in> set samples. hist_ok ob" "as = sample_ages s samples" "length as < 2 ^ 64"
  shows "\<exists>mn mx mean sd. calculateStatistics s samples = Inr (mn, mx, mean, sd)
         \<and> (if as = [] then mn = - 1 \<and> mx = 0 \<and> mean = Fin 0 \<and> sd = Fin 0
            else mn \<in> set as \<and> mx \<in> set as \<and> (\<forall>a \<in> set as. mn \<le> a \<and> a \<le> mx)
               \<and> mean = ddiv (dof_u64 (of_nat (sum_list (map unat as)))) (dof_u64 (of_nat (length as)))
               \<and> sd = dsqrt (dsub (ddiv (dof_u64 (of_nat (sum_list (map (\<lambda>a. unat a * unat a) as))))
                                        (dof_u64 (of_nat (length as))))
                                  (dmul mean mean))
               \<and> (sum_list (map unat as) < 2 ^ 53 \<and> length as < 2 ^ 53 \<longrightarrow>
                    mean = Fin (rnd (of_nat (sum_list (map unat as)) / of_nat (length as)))))"
proof -
  note st = calculateStatistics_ages [OF assms(1), of s, folded assms(2), OF assms(3)]
  show ?thesis
  proof (cases "as = []")
    case True
    then show ?thesis using st by (simp add: mean_of_def deviation_of_def)
  next
    case False
    then show ?thesis
      using st fold_min_init [OF False, of "- 1"] fold_max_init [OF False, of 0] mean_of_exact [OF False]
      by (simp add: fold_min_le fold_max_ge deviation_of_def mean_of_def)
  qed
qed

definition used_obj :: "u64 list \<Rightarrow> robj" where
  "used_obj ts = (sample_obj 0)\<lparr>num_accesses := of_nat (length ts),
                                access_times := take 4 (ts @ replicate 4 0)\<rparr>"

lemma hist_ok_used_obj: "length ts \<le> 4 \<Longrightarrow> hist_ok (used_obj ts)"
  by (simp add: hist_ok_def robj_wf_def used_obj_def sample_obj_def HISTORY_SIZE_def unat_of_nat_small)

lemma history_used_obj: "length ts \<le> 4 \<Longrightarrow> history (used_obj ts) = ts"
  by (simp add: history_def used_obj_def unat_of_nat_small)

theorem calculateStatistics_exact_witness:
  "\<exists>mn mx sd. calculateStatistics (server_at 100) [used_obj [90, 95], used_obj [55]] =
     Inr (mn, mx, Fin 20, sd) \<and> mn \<in> {10, 5, 45} \<and> mx \<in> {10, 5, 45}
   \<and> (\<forall>a \<in> {10, 5, 45}. mn \<le> a \<and> a \<le> mx) \<and> sd = dsqrt (dsub (ddiv (dof_u64 2150) (dof_u64 3)) (dmul (Fin 20) (Fin 20)))"
proof -
  have a: "sample_ages (server_at 100) [used_obj [90, 95], used_obj [55]] = [10, 5, 45]"
    by (simp add: sample_ages_def ages_def history_used_obj)
  have "rnd (60 / 3) = 20" using rnd_nat [of 20] by simp
  then show ?thesis
    using calculateStatistics_exact [of "[used_obj [90, 95], used_obj [55]]" "[10, 5, 45]" "server_at 100"]
    by (auto simp: a hist_ok_used_obj)
qed

lemma boundaries_ok:
  assumes "mn \<le> mx" "rnd m = m" "dle (dof_u64 mn) (Fin m)" "dle (Fin m) (dof_u64 mx)"
    and "sd = NaN \<or> (\<exists>d. sd = Fin d \<and> 0 \<le> d)"
  shows "\<exists>b1 b2 b3. defineWindowBoundaries mn mx (Fin m) sd = [dof_u64 mn, b1, b2, b3, dof_u64 mx]
           \<and> dle (dof_u64 mn) b1 \<and> dle b1 b2 \<and> dle b2 b3 \<and> dle b3 (dof_u64 mx)"
  using assms(5)
proof
  assume "sd = NaN"
  then show ?thesis
    using assms(1,3,4) dof_u64_le [of mn mx]
    by (simp add: defineWindowBoundaries_def dof_u64_def dof_nat_def min_def max_def)
next
  assume "\<exists>d. sd = Fin d \<and> 0 \<le> d"
  then obtain d where d: "sd = Fin d" "0 \<le> d" by blast
  then have "rnd (m - d) \<le> m" "m \<le> rnd (m + d)"
    using rnd_mono [of "m - d" m] rnd_mono [of m "m + d"] assms(2) by simp_all
  with d assms(1,3,4) dof_u64_le [of mn mx] show ?thesis
    by (auto simp: defineWindowBoundaries_def dof_u64_def dof_nat_def min_def max_def)
qed

lemma dsqrt_cases: "dsqrt d = NaN \<or> (\<exists>x. dsqrt d = Fin x \<and> 0 \<le> x)"
proof (cases d)
  case (Fin x)
  then show ?thesis using dsqrt_nonneg [of x] by (cases "x < 0") auto
qed simp

lemma sum_list_bounds:
  assumes "\<forall>a \<in> set as. l \<le> f a \<and> f a \<le> (u :: nat)"
  shows "length as * l \<le> sum_list (map f as)" "sum_list (map f as) \<le> length as * u"
  using assms by (induction as) auto

lemma mean_between:
  assumes "as \<noteq> []" "\<forall>a \<in> set as. mn \<le> a \<and> a \<le> mx"
    and "sum_list (map unat as) < 2 ^ 53" "length as < 2 ^ 53"
  shows "\<exists>m. mean_of as = Fin m \<and> rnd m = m \<and> dle (dof_u64 mn) (Fin m) \<and> dle (Fin m) (dof_u64 mx)"
proof -
  let ?n = "length as" and ?t = "sum_list (map unat as)"
  have "?n * unat mn \<le> ?t" "?t \<le> ?n * unat mx"
    using assms(2) sum_list_bounds [of as "unat mn" unat "unat mx"] by (simp_all add: word_le_nat_alt)
  then have "of_nat (?n * unat mn) \<le> (of_nat ?t :: rat)" "of_nat ?t \<le> (of_nat (?n * unat mx) :: rat)"
    by (simp_all only: of_nat_le_iff)
  moreover have "(0 :: rat) < of_nat ?n" using assms(1) by simp
  ultimately have "of_nat (unat mn) \<le> (of_nat ?t / of_nat ?n :: rat)"
      "(of_nat ?t / of_nat ?n :: rat) \<le> of_nat (unat mx)"
    by (simp_all add: pos_le_divide_eq pos_divide_le_eq mult.commute)
  then show ?thesis
    using mean_of_exact [OF assms(1,3,4)]
    by (auto simp: dof_u64_def dof_nat_def rnd_idem intro!: rnd_mono)
qed

text \<open>
  C30: the window boundaries computed from the statistics of a batch of samples are five doubles in
  ascending order, from the least to the greatest age of the batch, also when rounding made the
  variance negative and the standard deviation is NaN. The batch has at least one access (otherwise
  the minimum exceeds the maximum) and the sum of its ages is below $2^{53}$ ticks (a sum that wraps
  can put the mean outside the ages).
\<close>

theorem boundaries_sorted:
  assumes "\<forall>ob \<in> set samples. hist_ok ob" "sample_ages s samples \<noteq> []"
    and "sum_list (map unat (sample_ages s samples)) < 2 ^ 53" "length (sample_ages s samples) < 2 ^ 53"
    and "calculateStatistics s samples = Inr (mn, mx, mean, sd)"
  shows "\<exists>b1 b2 b3. defineWindowBoundaries mn mx mean sd = [dof_u64 mn, b1, b2, b3, dof_u64 mx]
           \<and> dle (dof_u64 mn) b1 \<and> dle b1 b2 \<and> dle b2 b3 \<and> dle b3 (dof_u64 mx)
           \<and> mn \<in> set (sample_ages s samples) \<and> mx \<in> set (sample_ages s samples)
           \<and> (\<forall>a \<in> set (sample_ages s samples). mn \<le> a \<and> a \<le> mx)"
proof -
  let ?as = "sample_ages s samples"
  have "length ?as < 2 ^ 64" using assms(4) by simp
  then have st: "mn = fold min ?as (- 1)" "mx = fold max ?as 0" "mean = mean_of ?as" "sd = deviation_of ?as"
    using calculateStatistics_ages [OF assms(1)] assms(5) by simp_all
  have b: "mn \<in> set ?as" "mx \<in> set ?as" "\<forall>a \<in> set ?as. mn \<le> a \<and> a \<le> mx"
    using fold_min_init [OF assms(2), of "- 1"] fold_max_init [OF assms(2), of 0]
    by (simp_all add: st fold_min_le fold_max_ge)
  obtain m where m: "mean = Fin m" "rnd m = m" "dle (dof_u64 mn) (Fin m)" "dle (Fin m) (dof_u64 mx)"
    using mean_between [OF assms(2) b(3) assms(3,4)] st(3) by auto
  have "sd = NaN \<or> (\<exists>x. sd = Fin x \<and> 0 \<le> x)"
    using assms(2) by (simp add: st(4) deviation_of_def dsqrt_cases)
  with boundaries_ok [OF _ m(2-4)] b m(1) show ?thesis by blast
qed

theorem boundaries_sorted_witness:
  "\<exists>mn mx mean sd b1 b2 b3. calculateStatistics (server_at 100) [used_obj [90, 95], used_obj [55]]
       = Inr (mn, mx, mean, sd)
     \<and> defineWindowBoundaries mn mx mean sd = [dof_u64 mn, b1, b2, b3, dof_u64 mx]
     \<and> dle (dof_u64 mn) b1 \<and> dle b1 b2 \<and> dle b2 b3 \<and> dle b3 (dof_u64 mx)"
proof -
  have a: "sample_ages (server_at 100) [used_obj [90, 95], used_obj [55]] = [10, 5, 45]"
    by (simp add: sample_ages_def ages_def history_used_obj)
  obtain mn mx mean sd where st: "calculateStatistics (server_at 100) [used_obj [90, 95], used_obj [55]]
       = Inr (mn, mx, mean, sd)"
    using calculateStatistics_ages [of "[used_obj [90, 95], used_obj [55]]" "server_at 100"]
    by (simp add: a hist_ok_used_obj)
  then show ?thesis
    using boundaries_sorted [OF _ _ _ _ st] by (simp add: a hist_ok_used_obj) blast
qed

lemma count_window_bad:
  assumes "length wb = 5" "\<not> in_windows wb age" "sorted_wrt dle wb"
  shows "count_window wb age [Suc 0, 2, 3, 4, 5] counts = Inl OutOfBounds"
proof -
  have s: "dle (wb ! i) (wb ! 4)" if "i < 4" for i
    using assms(1,3) that by (simp add: sorted_wrt_iff_nth_less)
  have "\<not> dle (dof_u64 age) (wb ! i)" if "i < 5" for i
    using s [of i] that assms(2) dle_trans [of "dof_u64 age" "wb ! i" "wb ! 4"]
    by (cases "i = 4") (auto simp: in_windows_def)
  then show ?thesis using assms(1) by (simp add: arr_get_def numeral_eq_Suc count_window.simps)
qed

lemma count_accesses_bad:
  assumes "length wb = 5" "sorted_wrt dle wb"
  shows "\<forall>i \<in> set is. i < length (access_times ob) \<Longrightarrow> length counts = 6 \<Longrightarrow>
         \<exists>i \<in> set is. \<not> in_windows wb (now - access_times ob ! i) \<Longrightarrow>
         count_accesses now wb ob is counts = Inl OutOfBounds"
proof (induction "is" arbitrary: counts)
  case (Cons i "is")
  show ?case
  proof (cases "in_windows wb (now - access_times ob ! i)")
    case True
    with Cons show ?thesis by (simp add: arr_simps count_window_ok assms upt_windows del: upt_Suc)
  next
    case False
    with Cons.prems show ?thesis
      by (simp add: arr_simps count_window_bad assms upt_windows del: upt_Suc)
  qed
qed simp

text \<open>
  C31: scoring an object reads past \<open>window_boundaries\<close> exactly when one of its ages is greater than
  the last boundary, the greatest age of the samples the boundaries were computed from; otherwise it
  returns the negated weighted sum of its window counts.
\<close>

theorem score_faults_iff:
  assumes "hist_ok ob" "length wb = 5" "sorted_wrt dle wb"
  shows "estimateObjectEvictionScore s ob wb =
           (if \<forall>a \<in> set (ages (ucast (LRU_CLOCK s)) ob). in_windows wb a
            then Inr (Fin (score_of wb (ages (ucast (LRU_CLOCK s)) ob)))
            else Inl OutOfBounds)"
proof (cases "\<forall>a \<in> set (ages (ucast (LRU_CLOCK s)) ob). in_windows wb a")
  case True
  then show ?thesis using estimate_score_of [OF assms(1,2)] by simp
next
  case False
  let ?now = "ucast (LRU_CLOCK s) :: u64"
  have u: "ages ?now ob = map (\<lambda>i. ?now - access_times ob ! i) [0..<unat (num_accesses ob)]"
    using ages_upt [OF assms(1)] by simp
  have "\<exists>i \<in> set [0..<unat (num_accesses ob)]. \<not> in_windows wb (?now - access_times ob ! i)"
    using False unfolding u by auto
  then have "count_accesses ?now wb ob [0..<unat (num_accesses ob)] (replicate 6 0) = Inl OutOfBounds"
    using hist_ok_simps [OF assms(1)] by (intro count_accesses_bad assms(2,3)) auto
  with False show ?thesis using replicate6 by (simp add: estimateObjectEvictionScore_def)
qed

theorem score_faults_iff_witness:
  "estimateObjectEvictionScore (server_at 100) (used_obj [40])
     [Fin 5, Fin 5, Fin 20, Fin 37, Fin 45] = Inl OutOfBounds
   \<and> (\<exists>x. estimateObjectEvictionScore (server_at 100) (used_obj [60, 90])
     [Fin 5, Fin 5, Fin 20, Fin 37, Fin 45] = Inr (Fin x))"
proof -
  have w: "hist_ok (used_obj [40])" "hist_ok (used_obj [60, 90])" by (simp_all add: hist_ok_used_obj)
  have d: "dof_u64 60 = Fin 60" "dof_u64 40 = Fin 40" "dof_u64 10 = Fin 10"
    using dof_u64_small [of 60] dof_u64_small [of 40] dof_u64_small [of 10] by simp_all
  show ?thesis
    by (subst (1 2) score_faults_iff) (simp_all add: w ages_def history_used_obj in_windows_def d)
qed

lemma in_windows_last:
  "a \<le> mx \<Longrightarrow> in_windows (defineWindowBoundaries mn mx m sd) a"
  using dof_u64_le [of a mx] by (simp add: in_windows_def defineWindowBoundaries_def numeral_eq_Suc)

lemma batch_scores:
  assumes "\<forall>ob \<in> set samples. hist_ok ob" "calculateStatistics s samples = Inr (mn, mx, mean, sd)"
    and "ob \<in> set samples"
  shows "estimateObjectEvictionScore s ob (defineWindowBoundaries mn mx mean sd)
           = Inr (Fin (score_of (defineWindowBoundaries mn mx mean sd) (ages (ucast (LRU_CLOCK s)) ob)))"
proof (rule estimate_score_of)
  show "hist_ok ob" using assms by blast
  show "length (defineWindowBoundaries mn mx mean sd) = 5" by (simp add: defineWindowBoundaries_def)
  have mx: "mx = global_max (fold stat_step (sample_ages s samples) stat_init)"
    using assms(2) by (auto simp: calculateStatistics_def calculateStatistics_fold [OF assms(1)] Let_def split: if_splits)
  show "\<forall>a \<in> set (ages (ucast (LRU_CLOCK s)) ob). in_windows (defineWindowBoundaries mn mx mean sd) a"
  proof
    fix a assume "a \<in> set (ages (ucast (LRU_CLOCK s)) ob)"
    then have "a \<in> set (sample_ages s samples)" using assms(3) by (auto simp: sample_ages_def)
    then show "in_windows (defineWindowBoundaries mn mx mean sd) a"
      unfolding mx by (intro in_windows_last) (simp add: fold_stat_step fold_max_ge)
  qed
qed

text \<open>
  C32: the two passes of the pool filler fit together: with boundaries from the statistics of a batch
  of samples, taken under the same clock, every object of the batch gets a score.
\<close>

theorem batch_is_scored:
  assumes "\<forall>ob \<in> set samples. hist_ok ob" "calculateStatistics s samples = Inr (mn, mx, mean, sd)"
    and "ob \<in> set samples"
  shows "estimateObjectEvictionScore s ob (defineWindowBoundaries mn mx mean sd)
           = Inr (Fin (score_of (defineWindowBoundaries mn mx mean sd) (ages (ucast (LRU_CLOCK s)) ob)))"
  by (rule batch_scores [OF assms])

theorem batch_is_scored_witness:
  "\<exists>mn mx mean sd x. calculateStatistics (server_at 100) [used_obj [90, 95], used_obj [55]] = Inr (mn, mx, mean, sd)
     \<and> estimateObjectEvictionScore (server_at 100) (used_obj [55]) (defineWindowBoundaries mn mx mean sd)
         = Inr (Fin x)"
proof -
  let ?obs = "[used_obj [90, 95], used_obj [55]]"
  have h: "\<forall>ob \<in> set ?obs. hist_ok ob" by (simp add: hist_ok_used_obj)
  obtain mn mx mean sd where "calculateStatistics (server_at 100) ?obs = Inr (mn, mx, mean, sd)"
    by (simp add: calculateStatistics_def calculateStatistics_fold [OF h, of "server_at 100", simplified]
        Let_def split: if_splits) (metis prod_cases4)
  then show ?thesis using batch_is_scored [OF h, of "server_at 100"] by fastforce
qed

text \<open>
  C33: an object that below every age has at least as many accesses as another one never gets the
  higher score, whatever the boundaries are: rounding does not invert the order.
\<close>

theorem score_respects_use:
  assumes "hist_ok a" "hist_ok b" "length wb = 5"
    and "\<forall>x \<in> set (ages (ucast (LRU_CLOCK s)) a) \<union> set (ages (ucast (LRU_CLOCK s)) b). in_windows wb x"
    and "at_least_as_used (ages (ucast (LRU_CLOCK s)) a) (ages (ucast (LRU_CLOCK s)) b)"
  shows "\<exists>x y. estimateObjectEvictionScore s a wb = Inr (Fin x)
               \<and> estimateObjectEvictionScore s b wb = Inr (Fin y) \<and> x \<le> y"
  using estimate_score_of [OF assms(1,3), of s] estimate_score_of [OF assms(2,3), of s] assms(4)
    score_of_antimono [OF assms(5), of wb] length_ages [OF assms(1)] hist_ok_simps(2) [OF assms(1)]
  by auto

lemma at_least_as_used_filter:
  "at_least_as_used as bs \<longleftrightarrow>
     (\<forall>x \<in> set bs. length (filter (\<lambda>b. b \<le> x) bs) \<le> length (filter (\<lambda>a. a \<le> x) as))"
proof
  assume r: "\<forall>x \<in> set bs. length (filter (\<lambda>b. b \<le> x) bs) \<le> length (filter (\<lambda>a. a \<le> x) as)"
  show "at_least_as_used as bs"
    unfolding at_least_as_used_def
  proof
    fix x
    show "length (filter (\<lambda>b. b \<le> x) bs) \<le> length (filter (\<lambda>a. a \<le> x) as)"
    proof (cases "filter (\<lambda>b. b \<le> x) bs = []")
      case False
      define m where "m = Max (set (filter (\<lambda>b. b \<le> x) bs))"
      have "set (filter (\<lambda>b. b \<le> x) bs) \<noteq> {}" using False by (metis set_empty)
      then have "m \<in> set (filter (\<lambda>b. b \<le> x) bs)" unfolding m_def by (intro Max_in) simp_all
      then have m: "m \<in> set bs" "m \<le> x" by simp_all
      have "b \<le> m" if "b \<in> set bs" "b \<le> x" for b
        unfolding m_def using that by (intro Max_ge) simp_all
      with m(2) have "filter (\<lambda>b. b \<le> x) bs = filter (\<lambda>b. b \<le> m) bs"
        by (intro filter_cong) (auto intro: order_trans)
      also have "length \<dots> \<le> length (filter (\<lambda>a. a \<le> m) as)" using r m(1) by simp
      also have "\<dots> \<le> length (filter (\<lambda>a. a \<le> x) as)"
        using m(2) by (induction as) (auto intro: order_trans)
      finally show ?thesis .
    qed simp
  qed
qed (simp add: at_least_as_used_def)

theorem score_respects_use_witness:
  "\<exists>x y. estimateObjectEvictionScore (server_at 100) (used_obj [75, 95]) [Fin 5, Fin 5, Fin 20, Fin 37, Fin 45]
           = Inr (Fin x)
     \<and> estimateObjectEvictionScore (server_at 100) (used_obj [70, 80]) [Fin 5, Fin 5, Fin 20, Fin 37, Fin 45]
           = Inr (Fin y) \<and> x \<le> y"
proof (rule score_respects_use)
  have d: "dof_u64 25 = Fin 25" "dof_u64 5 = Fin 5" "dof_u64 30 = Fin 30" "dof_u64 20 = Fin 20"
    using dof_u64_small [of 25] dof_u64_small [of 5] dof_u64_small [of 30] dof_u64_small [of 20] by simp_all
  show "hist_ok (used_obj [75, 95])" "hist_ok (used_obj [70, 80])" by (simp_all add: hist_ok_used_obj)
  show "\<forall>x \<in> set (ages (ucast (LRU_CLOCK (server_at 100))) (used_obj [75, 95]))
             \<union> set (ages (ucast (LRU_CLOCK (server_at 100))) (used_obj [70, 80])).
          in_windows [Fin 5, Fin 5, Fin 20, Fin 37, Fin 45] x"
    by (simp add: ages_def history_used_obj in_windows_def d)
  show "at_least_as_used (ages (ucast (LRU_CLOCK (server_at 100))) (used_obj [75, 95]))
          (ages (ucast (LRU_CLOCK (server_at 100))) (used_obj [70, 80]))"
    by (simp add: ages_def history_used_obj at_least_as_used_filter)
qed simp

lemma zero_age_le [simp]: "(0 :: u64) \<le> x"
  by simp

lemma at_least_as_used_lookup: "at_least_as_used (take_last 4 (as @ [0])) as" if "length as \<le> 4"
proof (cases "length as < 4")
  case True
  then show ?thesis by (simp add: take_last_snoc at_least_as_used_def)
next
  case False
  with that obtain a as' where "as = a # as'" "length as' = 3" by (cases as) auto
  then show ?thesis by (simp add: take_last_def at_least_as_used_def)
qed

text \<open>
  C34: a lookup never raises the score of the object it reads: with the clock and the boundaries
  unchanged, the object is at most as good a candidate for eviction as before.
\<close>

theorem lookup_lowers_score:
  assumes "hist_ok ob" "length wb = 5"
    and "\<forall>x \<in> set (ages (ucast (LRU_CLOCK s)) ob). in_windows wb x" "in_windows wb 0"
  shows "\<exists>ob' x y. updateLRUHistogram s ob = Inr ob'
               \<and> estimateObjectEvictionScore s ob' wb = Inr (Fin x)
               \<and> estimateObjectEvictionScore s ob wb = Inr (Fin y) \<and> x \<le> y"
proof -
  let ?now = "ucast (LRU_CLOCK s) :: u64"
  obtain ob' where u: "updateLRUHistogram s ob = Inr ob'" "hist_ok ob'"
      "history ob' = take_last 4 (history ob @ [?now])"
    using updateLRUHistogram_history [OF assms(1)] by blast
  have l: "length (ages ?now ob) \<le> 4" using length_ages [OF assms(1)] hist_ok_simps(2) [OF assms(1)] by simp
  have a: "ages ?now ob' = take_last 4 (ages ?now ob @ [0])"
    by (simp add: ages_def u(3) take_last_def drop_map)
  then have "\<forall>x \<in> set (ages ?now ob'). in_windows wb x"
    using assms(3,4) by (auto simp: take_last_def dest: in_set_dropD)
  moreover have "length (ages ?now ob') \<le> 4" using length_ages [OF u(2)] hist_ok_simps(2) [OF u(2)] by simp
  then have "score_of wb (ages ?now ob') \<le> score_of wb (ages ?now ob)"
    using at_least_as_used_lookup [OF l] a by (intro score_of_antimono) simp_all
  ultimately show ?thesis
    using u(1) estimate_score_of [OF assms(1,2,3)] estimate_score_of [OF u(2) assms(2)] by blast
qed

theorem lookup_lowers_score_witness:
  "\<exists>ob' x y. updateLRUHistogram (server_at 100) (used_obj [60, 70, 80, 95]) = Inr ob'
     \<and> estimateObjectEvictionScore (server_at 100) ob' [Fin 5, Fin 5, Fin 20, Fin 37, Fin 45] = Inr (Fin x)
     \<and> estimateObjectEvictionScore (server_at 100) (used_obj [60, 70, 80, 95])
         [Fin 5, Fin 5, Fin 20, Fin 37, Fin 45] = Inr (Fin y) \<and> x \<le> y"
proof (rule lookup_lowers_score)
  have d: "dof_u64 40 = Fin 40" "dof_u64 30 = Fin 30" "dof_u64 20 = Fin 20" "dof_u64 5 = Fin 5" "dof_u64 0 = Fin 0"
    using dof_u64_small [of 40] dof_u64_small [of 30] dof_u64_small [of 20] dof_u64_small [of 5]
      dof_u64_small [of 0] by simp_all
  show "hist_ok (used_obj [60, 70, 80, 95])" by (simp add: hist_ok_used_obj)
  show "\<forall>x \<in> set (ages (ucast (LRU_CLOCK (server_at 100))) (used_obj [60, 70, 80, 95])).
          in_windows [Fin 5, Fin 5, Fin 20, Fin 37, Fin 45] x"
    by (simp add: ages_def history_used_obj in_windows_def d)
  show "in_windows [Fin 5, Fin 5, Fin 20, Fin 37, Fin 45] 0" by (simp add: in_windows_def d)
qed simp

lemma wsum_range:
  assumes "0 \<le> c1" "0 \<le> c2" "0 \<le> c3" "0 \<le> c4" "c1 + c2 + c3 + c4 = n" "n \<le> 4"
  shows "of_int n / 20 - 1 / 1000 \<le> wsum c1 c2 c3 c4 \<and> wsum c1 c2 c3 c4 \<le> of_int n * 6 / 20 + 1 / 1000"
proof -
  have "rat_of_int n \<le> of_int (6 * c1 + 4 * c2 + 3 * c3 + c4)"
      "rat_of_int (6 * c1 + 4 * c2 + 3 * c3 + c4) \<le> of_int (6 * n)"
    unfolding of_int_le_iff using assms by auto
  moreover have "\<bar>wsum c1 c2 c3 c4 - of_int (6 * c1 + 4 * c2 + 3 * c3 + c4) / 20\<bar> \<le> 1 / 1000"
    using assms by (intro wsum_err) simp_all
  moreover have "of_int n / 20 - 1 / 1000 \<le> w \<and> w \<le> of_int n * 6 / 20 + 1 / 1000"
    if "rat_of_int n \<le> v" "v \<le> 6 * of_int n" "\<bar>w - v / 20\<bar> \<le> 1 / 1000" for v w
  proof -
    have "w - v / 20 \<le> 1 / 1000" "v / 20 - w \<le> 1 / 1000" using that(3) by linarith+
    then show ?thesis using that(1,2) by auto
  qed
  ultimately show ?thesis unfolding of_int_mult [of 6 n] of_int_numeral by blast
qed

lemma score_of_range:
  assumes "length as \<le> 4" "as \<noteq> []"
  shows "score_of wb as < 0 \<and> - (31 / 100 * of_nat (length as) + 1 / 100) \<le> score_of wb as"
proof -
  define n where "n = length as"
  have r: "rat_of_nat n \<ge> 1" "rat_of_nat n \<le> 4"
    using assms by (cases as; simp add: n_def)+
  define w where "w = wsum (window_count wb as 1) (window_count wb as 2) (window_count wb as 3) (window_count wb as 4)"
  define t where "t = rnd (rnd (1 / 100) * of_nat (length as))"
  have "of_int (int n) / 20 - 1 / 1000 \<le> w \<and> w \<le> of_int (int n) * 6 / 20 + 1 / 1000"
    unfolding w_def using window_count_le [of wb as] window_count_prefix(4) [of wb as] assms
    by (intro wsum_range) (simp_all add: n_def)
  then have w: "of_nat n / 20 - 1 / 1000 \<le> w" "w \<le> of_nat n * 6 / 20 + 1 / 1000" by simp_all
  have e: "(1 :: rat) / 2 ^ 52 \<le> 1 / 10000" by simp
  have p: "\<bar>rnd (1 / 100) - 1 / 100\<bar> \<le> 1 / (10000 :: rat)"
    by (rule order_trans [OF rnd_err_small e]) simp
  have q: "0 \<le> rnd (1 / 100) * of_nat n" by (simp add: rnd_pos)
  have q': "rnd (1 / 100) * of_nat n \<le> (101 / 10000) * of_nat n"
  proof (rule mult_right_mono)
    show "rnd (1 / 100) \<le> 101 / (10000 :: rat)" using p by linarith
  qed simp
  have "\<bar>t - rnd (1 / 100) * of_nat n\<bar> \<le> 1 / 10000"
    unfolding t_def n_def [symmetric] by (rule order_trans [OF rnd_err_small e]) (use q q' r in linarith)
  with q q' have t: "- (1 / 10000) \<le> t" "t \<le> (101 / 10000) * of_nat n + 1 / 10000" by linarith+
  have "\<bar>w + t\<bar> < 4" using w t r by linarith
  then have "\<bar>rnd (w + t) - (w + t)\<bar> \<le> 1 / 10000" by (intro order_trans [OF rnd_err_small e])
  then have "0 < rnd (w + t)" "rnd (w + t) \<le> 31 / 100 * of_nat n + 1 / 100"
    using w t r by linarith+
  then show ?thesis by (simp add: score_of_def w_def t_def n_def)
qed

text \<open>
  scores lie between -1.26 and 0 and an object with a recorded access always has a negative
  score, so one with more than three accesses in the youngest window, the best case, gains at most
  0.3 per access: the weight 0.4 of the first window is never used.
\<close>

theorem score_range:
  assumes "hist_ok ob" "length wb = 5" "0 < num_accesses ob"
    and "\<forall>x \<in> set (ages (ucast (LRU_CLOCK s)) ob). in_windows wb x"
  shows "\<exists>x. estimateObjectEvictionScore s ob wb = Inr (Fin x) \<and> x < 0
             \<and> - (31 / 100 * of_nat (unat (num_accesses ob)) + 1 / 100) \<le> x"
proof -
  let ?as = "ages (ucast (LRU_CLOCK s)) ob"
  have "length ?as = unat (num_accesses ob)" "unat (num_accesses ob) \<le> 4" "0 < unat (num_accesses ob)"
    using length_ages [OF assms(1)] hist_ok_simps(2) [OF assms(1)] assms(3)
    by (simp_all add: word_gt_0 unat_gt_0)
  then show ?thesis
    using estimate_score_of [OF assms(1,2,4)] score_of_range [of ?as wb] by (cases ?as) auto
qed

theorem score_range_witness:
  "\<exists>x. estimateObjectEvictionScore (server_at 100) (used_obj [75, 95]) [Fin 5, Fin 5, Fin 20, Fin 37, Fin 45]
          = Inr (Fin x) \<and> x < 0 \<and> - (63 / 100) \<le> x"
proof -
  have d: "dof_u64 25 = Fin 25" "dof_u64 5 = Fin 5"
    using dof_u64_small [of 25] dof_u64_small [of 5] by simp_all
  have "num_accesses (used_obj [75, 95]) = 2" by (simp add: used_obj_def)
  then show ?thesis
    using score_range [of "used_obj [75, 95]" "[Fin 5, Fin 5, Fin 20, Fin 37, Fin 45]" "server_at 100"]
    by (simp add: hist_ok_used_obj ages_def history_used_obj in_windows_def d)
qed
end
