(* ===== verification/Evict_Pool.thy ===== *)
theory Evict_Pool
  imports Hlru_Score "HOL-Library.Multiset"
begin

section \<open>The eviction pool (evict.c)\<close>

text \<open>
  The pool holds up to \<open>EVPOOL_SIZE\<close> candidates in ascending order of how good they are for
  eviction: by idle time (or its LFU and TTL counterparts), or by score under the histogram policy.
  Every slot owns a preallocated buffer for short keys, so \<open>key\<close> points to that buffer, to a
  copy of a long key, or is NULL; the buffers travel with the shifts of the array. The model keeps
  the buffers in a store, so that two slots sharing a buffer would show. Which keys
  \<open>dictGetSomeKeys\<close> samples is an argument.
\<close>

definition EVPOOL_SIZE :: nat where "EVPOOL_SIZE = 16"
definition EVPOOL_CACHED_SDS_SIZE :: nat where "EVPOOL_CACHED_SDS_SIZE = 255"

datatype keyptr = PNull | PCached nat | PDup sds

record pool_entry =
  eidle :: u64
  ekey :: keyptr
  ecached :: nat
  edbid :: int
  escore :: double

record evpool =
  slots :: "pool_entry list"
  bufs :: "nat \<Rightarrow> sds"

definition evictionPoolAlloc :: evpool where
  "evictionPoolAlloc =
     \<lparr>slots = map (\<lambda>j. \<lparr>eidle = 0, ekey = PNull, ecached = j, edbid = 0, escore = Fin 0\<rparr>) [0..<EVPOOL_SIZE],
      bufs = (\<lambda>_. replicate EVPOOL_CACHED_SDS_SIZE 0)\<rparr>"

text \<open>The bytes \<open>pool[k].key\<close> points to.\<close>

definition key_bytes :: "(nat \<Rightarrow> sds) \<Rightarrow> pool_entry \<Rightarrow> sds option" where
  "key_bytes bs e = (case ekey e of PNull \<Rightarrow> None | PCached b \<Rightarrow> Some (bs b) | PDup k \<Rightarrow> Some k)"

text \<open>\<open>while (k < EVPOOL_SIZE \<and> pool[k].key \<and> pool[k].idle < idle) k++\<close>\<close>

function find_slot :: "(pool_entry \<Rightarrow> bool) \<Rightarrow> pool_entry list \<Rightarrow> nat \<Rightarrow> nat cres" where
  "find_slot lt es k =
     (if k < EVPOOL_SIZE
      then cbind (arr_get es k) (\<lambda>e.
             if ekey e \<noteq> PNull \<and> lt e then find_slot lt es (Suc k) else Inr k)
      else Inr k)"
  by pat_completeness auto
termination
  by (relation "measure (\<lambda>(_, _, k). EVPOOL_SIZE - k)") auto

declare find_slot.simps [simp del]

text \<open>Shifting for an insertion in the middle; the buffer of the slot that drops out is kept.\<close>

definition shift_slots :: "pool_entry list \<Rightarrow> nat \<Rightarrow> (pool_entry list \<times> nat) cres" where
  "shift_slots es k =
     cbind (arr_get es (EVPOOL_SIZE - 1)) (\<lambda>last.
       if ekey last = PNull
       then cbind (arr_move es (k + 1) k (EVPOOL_SIZE - k - 1)) (\<lambda>es'.
            cbind (arr_get es' k) (\<lambda>e.
            cbind (arr_set es' k (e\<lparr>ecached := ecached last\<rparr>)) (\<lambda>es''. Inr (es'', k))))
       else cbind (arr_get es 0) (\<lambda>e0.
            cbind (arr_move es 0 1 (k - 1)) (\<lambda>es'.
            cbind (arr_get es' (k - 1)) (\<lambda>e.
            cbind (arr_set es' (k - 1) (e\<lparr>ecached := ecached e0\<rparr>)) (\<lambda>es''. Inr (es'', k - 1))))))"

text \<open>\<open>None\<close>: the candidate is not better than any entry of a full pool (\<open>continue\<close>).\<close>

definition make_room :: "pool_entry list \<Rightarrow> nat \<Rightarrow> (pool_entry list \<times> nat) option cres" where
  "make_room es k =
     cbind (arr_get es (EVPOOL_SIZE - 1)) (\<lambda>last.
       if k = 0 \<and> ekey last \<noteq> PNull then Inr None
       else if k < EVPOOL_SIZE
       then cbind (arr_get es k) (\<lambda>e.
              if ekey e = PNull then Inr (Some (es, k))
              else cbind (shift_slots es k) (\<lambda>r. Inr (Some r)))
       else cbind (shift_slots es k) (\<lambda>r. Inr (Some r)))"

definition store_key :: "sds \<Rightarrow> pool_entry \<Rightarrow> (nat \<Rightarrow> sds) \<Rightarrow> pool_entry \<times> (nat \<Rightarrow> sds)" where
  "store_key k e bs =
     (if EVPOOL_CACHED_SDS_SIZE < length k then (e\<lparr>ekey := PDup k\<rparr>, bs)
      else (e\<lparr>ekey := PCached (ecached e)\<rparr>, bs(ecached e := k)))"

definition pool_offer ::
  "(pool_entry \<Rightarrow> bool) \<Rightarrow> (pool_entry \<Rightarrow> pool_entry) \<Rightarrow> int \<Rightarrow> sds \<Rightarrow> evpool \<Rightarrow> evpool cres" where
  "pool_offer lt upd db k p =
     cbind (find_slot lt (slots p) 0) (\<lambda>i.
     cbind (make_room (slots p) i) (\<lambda>r.
       case r of None \<Rightarrow> Inr p
       | Some (es, j) \<Rightarrow>
           cbind (arr_get es j) (\<lambda>e.
           let (e', bs) = store_key k e (bufs p) in
           cbind (arr_set es j ((upd e')\<lparr>edbid := db\<rparr>)) (\<lambda>es'.
           Inr \<lparr>slots = es', bufs = bs\<rparr>))))"

text \<open>The object of a sampled key, read from the key dictionary.\<close>

definition sample_object :: "server \<Rightarrow> redisDb \<Rightarrow> sds \<Rightarrow> robj cres" where
  "sample_object s db k =
     (case dictFind (db_dict db) k of None \<Rightarrow> Inl NullDeref | Some a \<Rightarrow> obj_at s a)"

definition sample_idle :: "server \<Rightarrow> redisDb \<Rightarrow> sds \<Rightarrow> u64 cres" where
  "sample_idle s db k =
     (if flag_set (maxmemory_policy s) MAXMEMORY_FLAG_LRU
      then cbind (sample_object s db k) (\<lambda>ob. Inr (estimateObjectIdleTime s ob))
      else if flag_set (maxmemory_policy s) MAXMEMORY_FLAG_LFU
      then cbind (sample_object s db k) (\<lambda>ob. Inr (255 - LFUDecrAndReturn s ob))
      else if maxmemory_policy s = MAXMEMORY_VOLATILE_TTL
      then (case dictFind (db_expires db) k of None \<Rightarrow> Inl NullDeref
            | Some when \<Rightarrow> Inr (- 1 - word_of_int when))
      else Inl Panicked)"

fun evictionPoolPopulate :: "server \<Rightarrow> int \<Rightarrow> redisDb \<Rightarrow> sds list \<Rightarrow> evpool \<Rightarrow> evpool cres" where
  "evictionPoolPopulate s db_i db [] p = Inr p"
| "evictionPoolPopulate s db_i db (k # ks) p =
     cbind (sample_idle s db k) (\<lambda>i.
     cbind (pool_offer (\<lambda>e. eidle e < i) (\<lambda>e. e\<lparr>eidle := i\<rparr>) db_i k p)
       (evictionPoolPopulate s db_i db ks))"

fun sample_objects :: "server \<Rightarrow> redisDb \<Rightarrow> sds list \<Rightarrow> robj list cres" where
  "sample_objects s db [] = Inr []"
| "sample_objects s db (k # ks) =
     cbind (sample_object s db k) (\<lambda>ob. cbind (sample_objects s db ks) (\<lambda>obs. Inr (ob # obs)))"

fun populate_histogram ::
  "server \<Rightarrow> int \<Rightarrow> redisDb \<Rightarrow> double list \<Rightarrow> sds list \<Rightarrow> evpool \<Rightarrow> evpool cres" where
  "populate_histogram s db_i db wb [] p = Inr p"
| "populate_histogram s db_i db wb (k # ks) p =
     cbind (sample_object s db k) (\<lambda>ob.
     cbind (estimateObjectEvictionScore s ob wb) (\<lambda>sc.
     cbind (pool_offer (\<lambda>e. dlt (escore e) sc) (\<lambda>e. e\<lparr>escore := sc\<rparr>) db_i k p)
       (populate_histogram s db_i db wb ks)))"

text \<open>
  The sampled dictionary is the key dictionary: the histogram policy exists for all keys only,
  and \<open>calculateStatistics\<close> reads the values of the sampled entries as objects.
\<close>

definition evictionPoolPopulateLRUHistogram ::
  "server \<Rightarrow> int \<Rightarrow> redisDb \<Rightarrow> sds list \<Rightarrow> evpool \<Rightarrow> evpool cres" where
  "evictionPoolPopulateLRUHistogram s db_i db samples p =
     cbind (sample_objects s db samples) (\<lambda>obs.
     cbind (calculateStatistics s obs) (\<lambda>(gmin, gmax, mean, stddev).
       populate_histogram s db_i db (defineWindowBoundaries gmin gmax mean stddev) samples p))"


subsection \<open>The invariant of the pool and its contents\<close>

definition live :: "pool_entry \<Rightarrow> bool" where
  "live e = (ekey e \<noteq> PNull)"

definition owns :: "pool_entry \<Rightarrow> bool" where
  "owns e = (\<forall>b. ekey e = PCached b \<longrightarrow> b = ecached e)"

text \<open>
  \<open>EVPOOL_SIZE\<close> slots, the used ones first, each with a buffer of its own, and a short key in
  the buffer of its slot.
\<close>

definition pool_ok :: "evpool \<Rightarrow> bool" where
  "pool_ok p =
     (length (slots p) = EVPOOL_SIZE
      \<and> (\<forall>e \<in> set (dropWhile live (slots p)). \<not> live e)
      \<and> distinct (map ecached (slots p)) \<and> (\<forall>e \<in> set (slots p). owns e))"

definition live_slots :: "evpool \<Rightarrow> pool_entry list" where
  "live_slots p = takeWhile live (slots p)"

definition cand :: "(pool_entry \<Rightarrow> 'm) \<Rightarrow> (nat \<Rightarrow> sds) \<Rightarrow> pool_entry \<Rightarrow> 'm \<times> sds \<times> int" where
  "cand m bs e = (m e, the (key_bytes bs e), edbid e)"

definition contents :: "(pool_entry \<Rightarrow> 'm) \<Rightarrow> evpool \<Rightarrow> ('m \<times> sds \<times> int) list" where
  "contents m p = map (cand m (bufs p)) (live_slots p)"

lemma pool_okE:
  assumes "pool_ok p"
  obtains es fs where "slots p = es @ fs" "live_slots p = es" "\<forall>e \<in> set es. live e"
    "\<forall>f \<in> set fs. \<not> live f" "length (es @ fs) = 16" "distinct (map ecached (es @ fs))"
    "\<forall>e \<in> set (es @ fs). owns e"
proof
  show s: "slots p = takeWhile live (slots p) @ dropWhile live (slots p)" by simp
  show "live_slots p = takeWhile live (slots p)" by (simp add: live_slots_def)
  show "\<forall>e \<in> set (takeWhile live (slots p)). live e" by (blast dest: set_takeWhileD)
  show "\<forall>f \<in> set (dropWhile live (slots p)). \<not> live f" using assms unfolding pool_ok_def by blast
  show "length (takeWhile live (slots p) @ dropWhile live (slots p)) = 16"
    "distinct (map ecached (takeWhile live (slots p) @ dropWhile live (slots p)))"
    "\<forall>e \<in> set (takeWhile live (slots p) @ dropWhile live (slots p)). owns e"
    unfolding s [symmetric] using assms by (simp_all add: pool_ok_def EVPOOL_SIZE_def)
qed

lemma pool_okI:
  assumes "\<forall>e \<in> set es. live e" "\<forall>f \<in> set fs. \<not> live f" "length (es @ fs) = 16"
    "distinct (map ecached (es @ fs))" "\<forall>e \<in> set (es @ fs). owns e"
  shows "pool_ok \<lparr>slots = es @ fs, bufs = bs\<rparr>" "live_slots \<lparr>slots = es @ fs, bufs = bs\<rparr> = es"
proof -
  have "takeWhile live fs = []" using assms(2) by (cases fs) auto
  then have t: "takeWhile live (es @ fs) = es" using assms(1) by (simp add: takeWhile_append2)
  moreover have "dropWhile live fs = fs" using assms(2) by (cases fs) auto
  ultimately show "pool_ok \<lparr>slots = es @ fs, bufs = bs\<rparr>" "live_slots \<lparr>slots = es @ fs, bufs = bs\<rparr> = es"
    using assms by (auto simp: pool_ok_def live_slots_def EVPOOL_SIZE_def dropWhile_append2)
qed

lemma pool_ok_alloc: "pool_ok evictionPoolAlloc"
  by (simp add: pool_ok_def evictionPoolAlloc_def live_def owns_def EVPOOL_SIZE_def upt_rec numeral_eq_Suc)

lemma contents_alloc: "contents m evictionPoolAlloc = []"
  by (simp add: contents_def live_slots_def evictionPoolAlloc_def live_def EVPOOL_SIZE_def upt_rec)

text \<open>The abstract pool: a bounded insertion before the first entry that is not smaller.\<close>

definition pool_insert :: "('m \<Rightarrow> 'm \<Rightarrow> bool) \<Rightarrow> 'm \<times> 'b \<Rightarrow> ('m \<times> 'b) list \<Rightarrow> ('m \<times> 'b) list" where
  "pool_insert lt c xs =
     (let l = takeWhile (\<lambda>x. lt (fst x) (fst c)) xs; r = dropWhile (\<lambda>x. lt (fst x) (fst c)) xs
      in if length xs < EVPOOL_SIZE then l @ c # r else if l = [] then xs else tl l @ c # r)"

subsection \<open>Finding the slot and making room\<close>

lemma find_slot_at:
  assumes "length es + length fs = 16" "\<forall>e \<in> set es. live e" "\<forall>f \<in> set fs. \<not> live f"
  shows "k \<le> length (takeWhile lt es) \<Longrightarrow> find_slot lt (es @ fs) k = Inr (length (takeWhile lt es))"
proof (induction "length (takeWhile lt es) - k" arbitrary: k)
  case 0
  let ?n = "length (takeWhile lt es)"
  have k: "k = ?n" using 0 by simp
  show ?case
  proof (cases "k < length es")
    case True
    then have "\<not> lt (es ! k)" using nth_length_takeWhile [of lt es] k by simp
    with True show ?thesis
      using k assms(1) by (subst find_slot.simps) (simp add: arr_simps EVPOOL_SIZE_def nth_append)
  next
    case False
    then have k': "k = length es" using k length_takeWhile_le [of lt es] by simp
    show ?thesis
    proof (cases "fs = []")
      case False
      then have "\<not> live ((es @ fs) ! k)" using assms(3) k' by (cases fs) auto
      with k' k assms(1) False show ?thesis
        by (subst find_slot.simps) (auto simp: arr_simps EVPOOL_SIZE_def live_def)
    qed (use k' k assms(1) in \<open>subst find_slot.simps, simp add: EVPOOL_SIZE_def\<close>)
  qed
next
  case (Suc n)
  then have k: "k < length (takeWhile lt es)" by simp
  then have l: "k < length es" using length_takeWhile_le [of lt es] by simp
  have "lt (es ! k)" using k takeWhile_nth [OF k] set_takeWhileD nth_mem [OF k] by fastforce
  moreover have "live (es ! k)" using assms(2) l by simp
  ultimately have "find_slot lt (es @ fs) k = find_slot lt (es @ fs) (Suc k)"
    using l assms(1) by (subst find_slot.simps) (simp add: arr_simps EVPOOL_SIZE_def nth_append live_def)
  then show ?case using Suc by simp
qed

lemma make_room_append:
  assumes "length es + Suc (length fs) = 16" "\<forall>e \<in> set (f # fs). \<not> live e"
  shows "make_room (es @ f # fs) (length es) = Inr (Some (es @ f # fs, length es))"
proof -
  have "(es @ f # fs) ! 15 = (f # fs) ! (15 - length es)"
    using assms(1) by (simp add: nth_append del: nth_Cons_Suc)
  moreover have "(f # fs) ! (15 - length es) \<in> set (f # fs)"
    using assms(1) by (intro nth_mem) simp
  ultimately have "arr_get (es @ f # fs) 15 = Inr ((es @ f # fs) ! 15)" "ekey ((es @ f # fs) ! 15) = PNull"
    using assms by (auto simp: arr_simps live_def)
  moreover have "arr_get (es @ f # fs) (length es) = Inr f" "ekey f = PNull"
    using assms by (simp_all add: arr_simps live_def)
  ultimately show ?thesis
    using assms(1) by (simp add: make_room_def EVPOOL_SIZE_def)
qed

lemma make_room_right:
  assumes "length l + length r + Suc (length fs) = 16" "\<forall>e \<in> set (l @ r). live e" "r \<noteq> []"
    and "\<not> live f"
  shows "\<exists>e. make_room (l @ r @ fs @ [f]) (length l)
               = Inr (Some (l @ (e\<lparr>ecached := ecached f\<rparr>) # r @ fs, length l))"
proof -
  obtain r0 r' where r: "r = r0 # r'" using assms(3) by (cases r) auto
  have "15 = length (l @ r @ fs)" using assms(1) by simp
  then have g: "arr_get (l @ r @ fs @ [f]) 15 = Inr f" "ekey f = PNull"
    using assms(4) by (simp_all add: arr_get_def live_def nth_append del: append_assoc flip: append_assoc)
  have "15 - length l = length (r @ fs)" using assms(1) by simp
  then have "take (15 - length l) (r @ fs @ [f]) = r @ fs" by (metis append.assoc append_eq_conv_conj)
  then have m: "arr_move (l @ r @ fs @ [f]) (length l + 1) (length l) (15 - length l) = Inr (l @ r0 # r @ fs)"
    using assms(1) r by (simp add: arr_move_def)
  have "arr_get (l @ r @ fs @ [f]) (length l) = Inr r0" "ekey r0 \<noteq> PNull"
    using assms(2) r by (simp_all add: arr_simps live_def)
  moreover have "arr_get (l @ r0 # r @ fs) (length l) = Inr r0"
    "arr_set (l @ r0 # r @ fs) (length l) (r0\<lparr>ecached := ecached f\<rparr>) = Inr (l @ (r0\<lparr>ecached := ecached f\<rparr>) # r @ fs)"
    by (simp_all add: arr_simps)
  moreover have "length l < 16" using assms(1) by simp
  ultimately show ?thesis
    using g m by (intro exI [of _ r0]) (simp add: make_room_def shift_slots_def EVPOOL_SIZE_def)
qed

lemma make_room_left:
  assumes "Suc (length l) + length r = 16" "\<forall>e \<in> set (e0 # l @ r). live e"
  shows "\<exists>e. make_room (e0 # l @ r) (Suc (length l))
               = Inr (Some (l @ (e\<lparr>ecached := ecached e0\<rparr>) # r, length l))"
proof -
  let ?es = "e0 # l @ r"
  have "live (?es ! 15)" using assms by (intro bspec [OF assms(2)] nth_mem) simp
  then have n: "ekey (?es ! 15) \<noteq> PNull" by (simp add: live_def)
  have "live (?es ! Suc (length l))" if "r \<noteq> []"
    using assms that by (intro bspec [OF assms(2)] nth_mem) (cases r; simp)
  then have k: "r \<noteq> [] \<Longrightarrow> ekey (?es ! Suc (length l)) \<noteq> PNull" by (simp add: live_def)
  have m: "arr_move ?es 0 1 (length l) = Inr (l @ drop (length l) ?es)"
    by (simp add: arr_move_def)
  obtain e where d: "drop (length l) ?es = e # r"
    by (cases l rule: rev_cases) auto
  have "shift_slots ?es (Suc (length l)) = Inr (l @ (e\<lparr>ecached := ecached e0\<rparr>) # r, length l)"
    using n m assms(1) unfolding d by (simp add: shift_slots_def arr_simps EVPOOL_SIZE_def)
  moreover have "Suc (length l) < 16 \<longleftrightarrow> r \<noteq> []" using assms(1) by (cases r) auto
  ultimately show ?thesis
    using n k assms(1)
    by (cases "r = []") (simp_all add: make_room_def arr_simps EVPOOL_SIZE_def del: nth_Cons_Suc, blast+)
qed

subsection \<open>An offer refines the bounded insertion\<close>

lemma cand_buf:
  assumes "\<forall>e \<in> set es. owns e \<and> ecached e \<noteq> b"
  shows "map (cand m (bs(b := k))) es = map (cand m bs) es"
  using assms by (auto simp: cand_def key_bytes_def owns_def split: keyptr.split)

text \<open>The entry the code writes at the slot it found, whatever was there before.\<close>

lemma store_entry:
  assumes "\<And>e. ekey (upd e) = ekey e" "\<And>e. ecached (upd e) = ecached e" "\<And>e. m (upd e) = v"
    and "\<And>e b k db. m (e\<lparr>edbid := db\<rparr>) = m e"
  shows "\<exists>n bs'. store_key k e bs = (n, bs') \<and> live ((upd n)\<lparr>edbid := db\<rparr>)
           \<and> owns ((upd n)\<lparr>edbid := db\<rparr>) \<and> ecached ((upd n)\<lparr>edbid := db\<rparr>) = ecached e
           \<and> cand m bs' ((upd n)\<lparr>edbid := db\<rparr>) = (v, k, db)
           \<and> (bs' = bs \<or> bs' = bs(ecached e := k))"
  using assms by (auto simp: store_key_def live_def owns_def cand_def key_bytes_def)

lemma place_entry:
  assumes upd: "\<And>e. ekey (upd e) = ekey e" "\<And>e. ecached (upd e) = ecached e" "\<And>e. m (upd e) = v"
      "\<And>e b k db. m (e\<lparr>edbid := db\<rparr>) = m e"
    and "\<forall>e \<in> set (l @ r). live e \<and> owns e" "\<forall>f \<in> set fs. \<not> live f \<and> owns f"
      "length (l @ r @ fs) = 15" "distinct (c # map ecached (l @ r @ fs))"
      "arr_get (l @ e # r @ fs) (length l) = Inr e" "ecached e = c"
  shows "\<exists>p'. (let (e', bs') = store_key k e bs in
                cbind (arr_set (l @ e # r @ fs) (length l) ((upd e')\<lparr>edbid := db\<rparr>)) (\<lambda>es'.
                Inr \<lparr>slots = es', bufs = bs'\<rparr>)) = Inr p' \<and> pool_ok p'
              \<and> contents m p' = map (cand m bs) l @ (v, k, db) # map (cand m bs) r"
proof -
  obtain n bs' where n: "store_key k e bs = (n, bs')" "live ((upd n)\<lparr>edbid := db\<rparr>)"
      "owns ((upd n)\<lparr>edbid := db\<rparr>)" "ecached ((upd n)\<lparr>edbid := db\<rparr>) = c"
      "cand m bs' ((upd n)\<lparr>edbid := db\<rparr>) = (v, k, db)" "bs' = bs \<or> bs' = bs(c := k)"
    using store_entry [of upd m v k e bs db] upd assms(10) by blast
  let ?n = "(upd n)\<lparr>edbid := db\<rparr>"
  have c: "\<forall>e \<in> set (l @ r). owns e \<and> ecached e \<noteq> c" using assms(5,8) by auto
  then have "map (cand m bs') l = map (cand m bs) l" "map (cand m bs') r = map (cand m bs) r"
    using n(6) cand_buf [of l c m bs k] cand_buf [of r c m bs k] by auto
  moreover have "pool_ok \<lparr>slots = (l @ ?n # r) @ fs, bufs = bs'\<rparr>"
      "live_slots \<lparr>slots = (l @ ?n # r) @ fs, bufs = bs'\<rparr> = l @ ?n # r"
    using assms(5-8) n(2-4) by (intro pool_okI; auto)+
  ultimately show ?thesis
    using n(1,5) by (simp add: arr_simps contents_def)
qed

lemma pool_offer_refines:
  assumes ok: "pool_ok p"
    and upd: "\<And>e. ekey (upd e) = ekey e" "\<And>e. ecached (upd e) = ecached e" "\<And>e. m (upd e) = v"
      "\<And>e b k db. m (e\<lparr>edbid := db\<rparr>) = m e"
    and lt: "\<And>e. lt e = ltm (m e) v"
  shows "\<exists>p'. pool_offer lt upd db k p = Inr p' \<and> pool_ok p'
              \<and> contents m p' = pool_insert ltm (v, k, db) (contents m p)"
proof -
  from ok obtain es fs where s: "slots p = es @ fs" and ls: "live_slots p = es"
    and live: "\<forall>e \<in> set es. live e" and dead: "\<forall>f \<in> set fs. \<not> live f"
    and len: "length (es @ fs) = 16" and dist: "distinct (map ecached (es @ fs))"
    and own: "\<forall>e \<in> set (es @ fs). owns e"
    by (rule pool_okE)
  define l where "l = takeWhile lt es"
  define r where "r = dropWhile lt es"
  have es: "es = l @ r" by (simp add: l_def r_def)
  let ?c = "cand m (bufs p)"
  have "lt = (\<lambda>e. ltm (fst (?c e)) v)" by (simp add: lt cand_def fun_eq_iff)
  then have tw: "takeWhile (\<lambda>x. ltm (fst x) v) (map ?c es) = map ?c l"
      "dropWhile (\<lambda>x. ltm (fst x) v) (map ?c es) = map ?c r"
    by (simp_all add: l_def r_def takeWhile_map dropWhile_map comp_def)
  have ins: "pool_insert ltm (v, k, db) (contents m p)
      = (if length es < 16 then map ?c l @ (v, k, db) # map ?c r
         else if l = [] then contents m p else tl (map ?c l) @ (v, k, db) # map ?c r)"
    using tw by (simp add: pool_insert_def contents_def ls EVPOOL_SIZE_def Let_def)
  have f: "find_slot lt (slots p) 0 = Inr (length l)"
    unfolding s l_def using find_slot_at [of es fs 0 lt] len live dead by simp
  have place: "\<exists>p'. (let (e', bs') = store_key k e (bufs p) in
                cbind (arr_set (l' @ e # r @ fs') (length l') ((upd e')\<lparr>edbid := db\<rparr>)) (\<lambda>es'.
                Inr \<lparr>slots = es', bufs = bs'\<rparr>)) = Inr p' \<and> pool_ok p'
              \<and> contents m p' = map ?c l' @ (v, k, db) # map ?c r"
    if "set l' \<subseteq> set l" "set fs' \<subseteq> set fs" "length (l' @ r @ fs') = 15"
      "distinct (ecached e # map ecached (l' @ r @ fs'))" for l' fs' e
    using that live dead own es
    by (intro place_entry [OF upd]) (auto simp: arr_simps)
  show ?thesis
  proof (cases fs)
    case Nil
    show ?thesis
    proof (cases l)
      case Nil
      with \<open>fs = []\<close> have "live (es ! 15)" using len live by (intro bspec [OF live] nth_mem) simp
      then have "make_room (slots p) 0 = Inr None"
        using len \<open>fs = []\<close> by (simp add: make_room_def arr_simps EVPOOL_SIZE_def s live_def)
      then show ?thesis
        using f Nil ok len \<open>fs = []\<close> by (simp add: pool_offer_def ins)
    next
      case (Cons e0 l')
      obtain e where mr: "make_room (slots p) (length l)
          = Inr (Some (l' @ (e\<lparr>ecached := ecached e0\<rparr>) # r, length l'))"
        using make_room_left [of l' r e0] len live es \<open>fs = []\<close> s Cons by auto
      show ?thesis
        using f mr place [of l' "[]" "e\<lparr>ecached := ecached e0\<rparr>"] Cons es len dist \<open>fs = []\<close>
        by (auto simp: pool_offer_def ins arr_simps Let_def)
    qed
  next
    case (Cons f0 fs')
    show ?thesis
    proof (cases "r = []")
      case True
      then have mr: "make_room (slots p) (length l) = Inr (Some (l @ f0 # fs', length l))"
        using make_room_append [of l fs' f0] len dead es s Cons by simp
      show ?thesis
        using f mr place [of l fs' f0] Cons es len dist True
        by (auto simp: pool_offer_def ins arr_simps Let_def)
    next
      case False
      obtain gs g where g: "fs = gs @ [g]" using Cons by (metis append_butlast_last_id list.distinct(1))
      obtain e where mr: "make_room (slots p) (length l)
          = Inr (Some (l @ (e\<lparr>ecached := ecached g\<rparr>) # r @ gs, length l))"
        using make_room_right [of l r gs g] len live dead es s g False by auto
      show ?thesis
        using f mr place [of l gs "e\<lparr>ecached := ecached g\<rparr>"] g es len dist
        by (auto simp: pool_offer_def ins arr_simps Let_def)
    qed
  qed
qed

subsection \<open>Measures: the pool keeps the best candidates\<close>

text \<open>
  What the filler relies on in the measure of a candidate: a comparison that, on the measures that
  occur (\<open>good\<close>), is the order of a linearly ordered rank.
\<close>

definition insort_take :: "nat \<Rightarrow> 'r :: linorder \<Rightarrow> 'r list \<Rightarrow> 'r list" where
  "insort_take n x xs = take_last n (insort x xs)"

lemma insort_append:
  assumes "sorted (us @ vs)"
  shows "insort x (us @ vs) = (if \<exists>u \<in> set us. x \<le> u then insort x us @ vs else us @ insort x vs)"
  using assms by (induction us) auto

lemma insort_le_all: "\<forall>v \<in> set vs. x \<le> v \<Longrightarrow> insort x vs = x # vs"
  by (cases vs) auto

lemma take_last_append: "length vs = n \<Longrightarrow> take_last n (us @ vs) = vs"
  by (simp add: take_last_def)

lemma take_last_append_le: "n \<le> length vs \<Longrightarrow> take_last n (us @ vs) = take_last n vs"
  by (simp add: take_last_def)

lemma insort_take_last:
  fixes ys :: "'r :: linorder list"
  assumes "sorted ys"
  shows "take_last n (insort x (take_last n ys)) = take_last n (insort x ys)"
proof (cases "length ys \<le> n")
  case False
  define us where "us = take (length ys - n) ys"
  define vs where "vs = take_last n ys"
  have y: "ys = us @ vs" "length vs = n" using False by (simp_all add: us_def vs_def take_last_def)
  show ?thesis
  proof (cases "\<exists>u \<in> set us. x \<le> u")
    case True
    with assms y have "\<forall>v \<in> set vs. x \<le> v" by (fastforce simp: sorted_append)
    then have "insort x vs = [x] @ vs" by (simp add: insort_le_all)
    with True assms y show ?thesis
      by (simp add: insort_append take_last_append flip: vs_def del: append_Cons)
  next
    case nf: False
    then have "insort x ys = us @ insort x vs" using assms y by (simp add: insort_append)
    then show ?thesis using y(2) by (simp add: take_last_append_le flip: vs_def)
  qed
qed (simp add: take_last_id)

lemma sort_append_Cons: "sort (ys @ z # zs) = insort (z :: 'r :: linorder) (sort (ys @ zs))"
  by (rule properties_for_sort) (simp_all add: sorted_insort)

lemma sort_insort_append: "sort (insort z ys @ zs) = sort (ys @ (z :: 'r :: linorder) # zs)"
  by (rule properties_for_sort) simp_all

lemma take_last_sort:
  "sorted ys \<Longrightarrow> take_last n (sort (take_last n ys @ zs)) = take_last n (sort (ys @ (zs :: 'r :: linorder list)))"
proof (induction zs)
  case Nil
  then show ?case by (simp add: take_last_def sorted_sort_id sorted_wrt_drop)
next
  case (Cons z zs)
  have "take_last n (sort (take_last n ys @ z # zs)) = take_last n (insort z (sort (take_last n ys @ zs)))"
    by (simp add: sort_append_Cons)
  also have "\<dots> = take_last n (insort z (sort (ys @ zs)))"
    using Cons insort_take_last [of "sort (take_last n ys @ zs)" n z]
      insort_take_last [of "sort (ys @ zs)" n z] by simp
  finally show ?case by (simp add: sort_append_Cons)
qed

lemma insort_take_map:
  assumes "sorted (map rk l @ map rk r)" "\<forall>y \<in> set l. rk y < x" "\<forall>y \<in> set r. x \<le> (rk y :: 'r :: linorder)"
  shows "insort x (map rk l @ map rk r) = map rk l @ x # map rk r"
proof -
  have "\<not> (\<exists>u \<in> set (map rk l). x \<le> u)" using assms(2) by force
  then have "insort x (map rk l @ map rk r) = map rk l @ insort x (map rk r)"
    using assms(1) by (simp add: insort_append)
  also have "insort x (map rk r) = x # map rk r" using assms(3) by (intro insort_le_all) simp
  finally show ?thesis .
qed

locale pool_measure =
  fixes lt :: "'m \<Rightarrow> 'm \<Rightarrow> bool" and good :: "'m \<Rightarrow> bool" and rank :: "'m \<Rightarrow> 'r :: linorder"
  assumes lt_rank: "good a \<Longrightarrow> good b \<Longrightarrow> lt a b \<longleftrightarrow> rank a < rank b"
begin

definition pool_sorted :: "('m \<times> 'b) list \<Rightarrow> bool" where
  "pool_sorted xs = (sorted (map (rank \<circ> fst) xs) \<and> (\<forall>x \<in> set xs. good (fst x)) \<and> length xs \<le> EVPOOL_SIZE)"

lemma pool_sorted_Nil: "pool_sorted []"
  by (simp add: pool_sorted_def)

lemma insert_ranks:
  assumes "pool_sorted xs" "good (fst c)"
  shows "map (rank \<circ> fst) (pool_insert lt c xs) = insort_take EVPOOL_SIZE (rank (fst c)) (map (rank \<circ> fst) xs)"
    and "pool_sorted (pool_insert lt c xs)"
proof -
  let ?P = "\<lambda>x. lt (fst x) (fst c)" and ?r = "rank \<circ> fst"
  let ?l = "takeWhile ?P xs" and ?u = "dropWhile ?P xs"
  have s: "sorted (map ?r xs)" and g: "\<forall>x \<in> set xs. good (fst x)" and n: "length xs \<le> 16"
    using assms(1) by (simp_all add: pool_sorted_def EVPOOL_SIZE_def)
  have l: "\<forall>y \<in> set ?l. ?r y < rank (fst c)"
    using g assms(2) by (auto dest!: set_takeWhileD simp: lt_rank)
  have m: "map ?r ?l @ map ?r ?u = map ?r xs" by (simp only: takeWhile_dropWhile_id flip: map_append)
  then have s2: "sorted (map ?r ?l @ map ?r ?u)" using s by simp
  have "rank (fst c) \<le> ?r y" if "y \<in> set ?u" for y
  proof -
    have ne: "?u \<noteq> []" using that by (cases ?u) auto
    then have "\<not> ?P (hd ?u)" by (rule hd_dropWhile)
    moreover have "hd ?u \<in> set xs" using hd_in_set [OF ne] by (rule set_dropWhileD)
    ultimately have "rank (fst c) \<le> ?r (hd ?u)" using g assms(2) by (simp add: lt_rank)
    also have "\<dots> \<le> ?r y" using s2 that ne by (cases ?u) (auto simp: sorted_append)
    finally show ?thesis .
  qed
  then have ins: "insort (rank (fst c)) (map ?r xs) = map ?r (?l @ c # ?u)"
    using insort_take_map [OF s2, of "rank (fst c)"] l unfolding m by simp
  have len: "length xs = length ?l + length ?u" by (simp flip: length_append)
  have e: "map ?r (pool_insert lt c xs) = take_last 16 (map ?r (?l @ c # ?u))"
  proof (cases "length xs < 16")
    case True
    then show ?thesis using len by (simp add: pool_insert_def Let_def EVPOOL_SIZE_def take_last_id)
  next
    case False
    then have n16: "length xs = 16" using n by simp
    show ?thesis
    proof (cases ?l)
      case Nil
      then have "?u = xs" using takeWhile_dropWhile_id [of ?P xs] by simp
      with Nil n16 show ?thesis
        using take_last_append [of "map ?r xs" 16 "[?r c]"]
        by (simp add: pool_insert_def Let_def EVPOOL_SIZE_def)
    next
      case (Cons a l')
      then show ?thesis
        using n16 len take_last_append [of "map ?r (l' @ c # ?u)" 16 "[?r a]"]
        by (simp add: pool_insert_def Let_def EVPOOL_SIZE_def)
    qed
  qed
  show ranks: "map ?r (pool_insert lt c xs) = insort_take EVPOOL_SIZE (rank (fst c)) (map ?r xs)"
    unfolding e ins [symmetric] by (simp add: insort_take_def EVPOOL_SIZE_def)
  have "sorted (insort_take EVPOOL_SIZE (rank (fst c)) (map ?r xs))"
    using s by (simp add: insort_take_def take_last_def sorted_insort sorted_wrt_drop)
  moreover have "set (pool_insert lt c xs) \<subseteq> insert c (set xs)"
    using set_takeWhileD [of _ ?P xs] set_dropWhileD [of _ ?P xs]
    by (auto simp: pool_insert_def Let_def dest!: list.set_sel(2) [rotated] split: if_splits)
  moreover have "length (pool_insert lt c xs) \<le> 16"
    using arg_cong [OF e, of length] by simp
  ultimately show "pool_sorted (pool_insert lt c xs)"
    using g assms(2) by (auto simp: pool_sorted_def EVPOOL_SIZE_def ranks simp del: map_map)
qed

text \<open>Any number of offers: the ranks kept are the greatest ones of all that were ever offered.\<close>

lemma offers_keep_best:
  assumes "pool_sorted xs" "\<forall>c \<in> set cs. good (fst c)"
  shows "pool_sorted (fold (pool_insert lt) cs xs)
       \<and> map (rank \<circ> fst) (fold (pool_insert lt) cs xs)
           = take_last EVPOOL_SIZE (sort (map (rank \<circ> fst) (xs @ cs)))"
  using assms
proof (induction cs arbitrary: xs)
  case Nil
  then have "sorted (map (rank \<circ> fst) xs)" "length xs \<le> EVPOOL_SIZE" by (simp_all add: pool_sorted_def)
  then have "take_last EVPOOL_SIZE (sort (map (rank \<circ> fst) xs)) = map (rank \<circ> fst) xs"
    by (simp only: sorted_sort_id) (simp add: take_last_id)
  with Nil show ?case by (simp add: comp_def)
next
  case (Cons c cs)
  let ?r = "rank \<circ> fst"
  have i: "pool_sorted (pool_insert lt c xs)"
      "map ?r (pool_insert lt c xs) = take_last EVPOOL_SIZE (insort (?r c) (map ?r xs))"
    using insert_ranks [of xs c] Cons.prems by (simp_all add: insort_take_def)
  have "sorted (insort (?r c) (map ?r xs))" using Cons.prems by (simp add: pool_sorted_def sorted_insort)
  then show ?case
    using Cons.IH [OF i(1)] Cons.prems(2) i(2) take_last_sort [of "insort (?r c) (map ?r xs)" EVPOOL_SIZE "map ?r cs"]
    by (simp add: sort_insort_append comp_def)
qed

end

text \<open>Idle times are compared as machine words, scores as doubles none of which is NaN.\<close>

fun the_fin :: "double \<Rightarrow> rat" where
  "the_fin (Fin x) = x"
| "the_fin NaN = 0"

interpretation idle_pool: pool_measure "(<) :: u64 \<Rightarrow> u64 \<Rightarrow> bool" "\<lambda>_. True" "\<lambda>i. i"
  by unfold_locales simp

interpretation score_pool: pool_measure dlt "\<lambda>d. \<not> is_nan d" the_fin
proof unfold_locales
  fix a b :: double assume "\<not> is_nan a" "\<not> is_nan b"
  then show "dlt a b \<longleftrightarrow> the_fin a < the_fin b" by (cases a; cases b) auto
qed

subsection \<open>The two fillers\<close>

lemma evictionPoolPopulate_fold:
  assumes "pool_ok p" "\<forall>k \<in> set ks. sample_idle s db k = Inr (f k)"
  shows "\<exists>p'. evictionPoolPopulate s i db ks p = Inr p' \<and> pool_ok p'
           \<and> contents eidle p' = fold (pool_insert (<)) (map (\<lambda>k. (f k, k, i)) ks) (contents eidle p)"
  using assms
proof (induction ks arbitrary: p)
  case (Cons k ks)
  obtain p1 where p1: "pool_offer (\<lambda>e. eidle e < f k) (\<lambda>e. e\<lparr>eidle := f k\<rparr>) i k p = Inr p1" "pool_ok p1"
      "contents eidle p1 = pool_insert (<) (f k, k, i) (contents eidle p)"
    using pool_offer_refines [OF Cons.prems(1), of "\<lambda>e. e\<lparr>eidle := f k\<rparr>" eidle "f k"
        "\<lambda>e. eidle e < f k" "(<)" i k] by auto
  with Cons.IH [OF p1(2)] Cons.prems show ?case by simp
qed simp

lemma populate_histogram_fold:
  assumes "pool_ok p" "\<forall>k \<in> set ks. \<exists>ob. sample_object s db k = Inr ob
             \<and> estimateObjectEvictionScore s ob wb = Inr (Fin (f k))"
  shows "\<exists>p'. populate_histogram s i db wb ks p = Inr p' \<and> pool_ok p'
           \<and> contents escore p' = fold (pool_insert dlt) (map (\<lambda>k. (Fin (f k), k, i)) ks) (contents escore p)"
  using assms
proof (induction ks arbitrary: p)
  case (Cons k ks)
  obtain ob where ob: "sample_object s db k = Inr ob" "estimateObjectEvictionScore s ob wb = Inr (Fin (f k))"
    using Cons.prems(2) by auto
  obtain p1 where p1: "pool_offer (\<lambda>e. dlt (escore e) (Fin (f k))) (\<lambda>e. e\<lparr>escore := Fin (f k)\<rparr>) i k p = Inr p1"
      "pool_ok p1" "contents escore p1 = pool_insert dlt (Fin (f k), k, i) (contents escore p)"
    using pool_offer_refines [OF Cons.prems(1), of "\<lambda>e. e\<lparr>escore := Fin (f k)\<rparr>" escore "Fin (f k)"
        "\<lambda>e. dlt (escore e) (Fin (f k))" dlt i k] by auto
  with Cons.IH [OF p1(2)] Cons.prems ob show ?case by simp
qed simp

definition idle_sorted :: "evpool \<Rightarrow> bool" where
  "idle_sorted p = sorted (map eidle (live_slots p))"

definition score_sorted :: "evpool \<Rightarrow> bool" where
  "score_sorted p = (sorted (map (the_fin \<circ> escore) (live_slots p))
                     \<and> (\<forall>e \<in> set (live_slots p). \<not> is_nan (escore e)))"

lemma map_fst_contents: "map fst (contents m p) = map m (live_slots p)"
  by (simp add: contents_def cand_def)

lemma length_live_slots: "pool_ok p \<Longrightarrow> length (live_slots p) \<le> EVPOOL_SIZE"
  by (erule pool_okE) (simp add: EVPOOL_SIZE_def)

lemma idle_pool_sorted: "pool_ok p \<Longrightarrow> idle_sorted p \<longleftrightarrow> idle_pool.pool_sorted (contents eidle p)"
  using length_live_slots [of p]
  by (simp add: idle_pool.pool_sorted_def idle_sorted_def contents_def cand_def comp_def)

lemma score_pool_sorted: "pool_ok p \<Longrightarrow> score_sorted p \<longleftrightarrow> score_pool.pool_sorted (contents escore p)"
  using length_live_slots [of p]
  by (simp add: score_pool.pool_sorted_def score_sorted_def contents_def cand_def comp_def)

text \<open>
  C11: filling the pool never accesses memory outside it and keeps its invariant (used slots first,
  no buffer shared, every short key in its own buffer); what it then holds is the bounded sorted
  insertion of the sampled keys, one after the other, and its idle times are the 16 greatest of those
  it held and those it was offered.
\<close>

theorem evictionPoolPopulate_keeps_best:
  assumes "pool_ok p" "idle_sorted p" "\<forall>k \<in> set ks. sample_idle s db k = Inr (f k)"
  shows "\<exists>p'. evictionPoolPopulate s i db ks p = Inr p' \<and> pool_ok p' \<and> idle_sorted p'
           \<and> contents eidle p' = fold (pool_insert (<)) (map (\<lambda>k. (f k, k, i)) ks) (contents eidle p)
           \<and> map eidle (live_slots p')
               = take_last EVPOOL_SIZE (sort (map eidle (live_slots p) @ map f ks))"
proof -
  obtain p' where p': "evictionPoolPopulate s i db ks p = Inr p'" "pool_ok p'"
      "contents eidle p' = fold (pool_insert (<)) (map (\<lambda>k. (f k, k, i)) ks) (contents eidle p)"
    using evictionPoolPopulate_fold [OF assms(1,3)] by blast
  have "idle_pool.pool_sorted (contents eidle p')
      \<and> map ((\<lambda>i. i) \<circ> fst) (contents eidle p')
          = take_last EVPOOL_SIZE (sort (map ((\<lambda>i. i) \<circ> fst) (contents eidle p @ map (\<lambda>k. (f k, k, i)) ks)))"
    unfolding p'(3) using assms(1,2) by (intro idle_pool.offers_keep_best) (simp_all add: idle_pool_sorted)
  then have "idle_pool.pool_sorted (contents eidle p')"
      "map fst (contents eidle p') = take_last EVPOOL_SIZE (sort (map fst (contents eidle p) @ map f ks))"
    by (simp_all add: comp_def)
  with p'(1,2) show ?thesis
    unfolding map_fst_contents using idle_pool_sorted [OF p'(2)] p'(3) by blast
qed

lemma sample_objects_map:
  "\<forall>k \<in> set ks. sample_object s db k = Inr (g k) \<Longrightarrow> sample_objects s db ks = Inr (map g ks)"
  by (induction ks) auto

text \<open>
  C12: under the histogram policy a batch of sampled keys with well-formed histories is scored and
  inserted without a fault: the windows are those of the statistics of this very batch, every key gets
  the score of its own object under them, what the pool then holds (score, key and database id) is the
  bounded sorted insertion of the sampled keys, one after the other, it keeps its invariant, and its
  scores are the 16 greatest of those it held and those of the batch.
\<close>

theorem evictionPoolPopulateLRUHistogram_keeps_best:
  assumes "pool_ok p" "score_sorted p" "\<forall>k \<in> set ks. sample_object s db k = Inr (g k) \<and> hist_ok (g k)"
  shows "\<exists>p' mn mx mean sd f. calculateStatistics s (map g ks) = Inr (mn, mx, mean, sd)
           \<and> (\<forall>k \<in> set ks. estimateObjectEvictionScore s (g k) (defineWindowBoundaries mn mx mean sd)
                 = Inr (Fin (f k)))
           \<and> evictionPoolPopulateLRUHistogram s i db ks p = Inr p' \<and> pool_ok p' \<and> score_sorted p'
           \<and> contents escore p' = fold (pool_insert dlt) (map (\<lambda>k. (Fin (f k), k, i)) ks) (contents escore p)
           \<and> map (the_fin \<circ> escore) (live_slots p')
               = take_last EVPOOL_SIZE (sort (map (the_fin \<circ> escore) (live_slots p) @ map f ks))"
proof -
  have h: "\<forall>ob \<in> set (map g ks). hist_ok ob" using assms(3) by auto
  obtain mn mx mean sd where st: "calculateStatistics s (map g ks) = Inr (mn, mx, mean, sd)"
    using calculateStatistics_fold [OF h] by (cases "calculateStatistics s (map g ks)")
      (auto simp: calculateStatistics_def Let_def split: if_splits)
  define wb where "wb = defineWindowBoundaries mn mx mean sd"
  define f where "f = (\<lambda>k. score_of wb (ages (ucast (LRU_CLOCK s)) (g k)))"
  have sc: "\<forall>k \<in> set ks. estimateObjectEvictionScore s (g k) wb = Inr (Fin (f k))"
    unfolding wb_def f_def by (intro ballI batch_scores [OF h st]) simp
  obtain p' where p': "populate_histogram s i db wb ks p = Inr p'" "pool_ok p'"
      "contents escore p' = fold (pool_insert dlt) (map (\<lambda>k. (Fin (f k), k, i)) ks) (contents escore p)"
    using populate_histogram_fold [OF assms(1), of ks s db wb f i] sc assms(3) by auto
  have "score_pool.pool_sorted (contents escore p')
      \<and> map (the_fin \<circ> fst) (contents escore p')
          = take_last EVPOOL_SIZE (sort (map (the_fin \<circ> fst) (contents escore p @ map (\<lambda>k. (Fin (f k), k, i)) ks)))"
    unfolding p'(3) using assms(1,2) by (intro score_pool.offers_keep_best) (simp_all add: score_pool_sorted)
  then have ps: "score_pool.pool_sorted (contents escore p')" and
      r: "map (the_fin \<circ> fst) (contents escore p')
          = take_last EVPOOL_SIZE (sort (map (the_fin \<circ> fst) (contents escore p) @ map f ks))"
    by (simp_all add: comp_def)
  have m: "map (the_fin \<circ> fst) (contents escore q) = map (the_fin \<circ> escore) (live_slots q)" for q
    by (simp add: contents_def cand_def)
  have "evictionPoolPopulateLRUHistogram s i db ks p = Inr p'"
    using sample_objects_map [of ks s db g] assms(3) st p'(1)
    by (simp add: evictionPoolPopulateLRUHistogram_def wb_def)
  moreover have "score_sorted p'" using ps score_pool_sorted [OF p'(2)] by simp
  ultimately show ?thesis
    using st sc p'(2,3) r unfolding wb_def m by blast
qed

text \<open>Two keys, last used 40 and 10 clock ticks ago.\<close>

definition demo_db :: redisDb where
  "demo_db = (empty_db 0)\<lparr>db_dict := [([107], 0), ([108], 1)]\<rparr>"

definition demo_server :: "int \<Rightarrow> server" where
  "demo_server pol = init_server\<lparr>dbs := [demo_db, empty_db 1], maxmemory_policy := pol, lruclock := 100,
     heap := [0 \<mapsto> (used_obj [60])\<lparr>lru := 60\<rparr>, 1 \<mapsto> (used_obj [90])\<lparr>lru := 90\<rparr>]\<rparr>"

lemma demo_server_clock: "LRU_CLOCK (demo_server pol) = 100"
  by (simp add: LRU_CLOCK_def demo_server_def init_server_def)

theorem evictionPoolPopulate_keeps_best_witness:
  "\<exists>p'. evictionPoolPopulate (demo_server MAXMEMORY_ALLKEYS_LRU) 0 demo_db [[107], [108]] evictionPoolAlloc
          = Inr p' \<and> pool_ok p' \<and> map eidle (live_slots p') = [10000, 40000]"
proof -
  have l: "live_slots evictionPoolAlloc = []" using contents_alloc [of eidle] by (simp add: contents_def)
  have s: "idle_sorted evictionPoolAlloc" by (simp add: idle_sorted_def l)
  have a: "\<forall>k \<in> set [[107], [108]]. sample_idle (demo_server MAXMEMORY_ALLKEYS_LRU) demo_db k
          = Inr (if k = [107] then 40000 else 10000)"
    by (simp add: sample_idle_def sample_object_def obj_at_def demo_db_def dictFind_def policy_defs
        estimateObjectIdleTime_def demo_server_clock Let_def) (simp add: demo_server_def policy_defs)
  obtain p' where "evictionPoolPopulate (demo_server MAXMEMORY_ALLKEYS_LRU) 0 demo_db [[107], [108]]
        evictionPoolAlloc = Inr p'" "pool_ok p'"
      and m: "map eidle (live_slots p') = take_last EVPOOL_SIZE (sort (map eidle (live_slots evictionPoolAlloc)
            @ map (\<lambda>k :: sds. if k = [107] then 40000 else 10000) [[107], [108]]))"
    using evictionPoolPopulate_keeps_best [OF pool_ok_alloc s a, of 0] by (elim exE conjE) (rule that)
  moreover have "map eidle (live_slots p') = [10000, 40000]"
  proof -
    have "sort [40000, 10000 :: u64] = [10000, 40000]" by simp
    then show ?thesis unfolding m l by (simp add: take_last_id EVPOOL_SIZE_def)
  qed
  ultimately show ?thesis by (intro exI [of _ p'] conjI)
qed

theorem evictionPoolPopulateLRUHistogram_keeps_best_witness:
  "\<exists>p' x y. evictionPoolPopulateLRUHistogram (demo_server MAXMEMORY_ALLKEYS_LRU_HISTOGRAM) 0 demo_db
            [[107], [108]] evictionPoolAlloc = Inr p' \<and> pool_ok p' \<and> score_sorted p'
        \<and> contents escore p' = fold (pool_insert dlt) [(Fin x, [107], 0), (Fin y, [108], 0)] []"
proof -
  have l: "live_slots evictionPoolAlloc = []" using contents_alloc [of eidle] by (simp add: contents_def)
  let ?g = "\<lambda>k :: sds. if k = [107] then (used_obj [60])\<lparr>lru := 60\<rparr> else (used_obj [90])\<lparr>lru := 90\<rparr>"
  have "hist_ok (ob\<lparr>lru := l\<rparr>) = hist_ok ob" for ob :: robj and l
    by (simp add: hist_ok_def robj_wf_def)
  then have g: "\<forall>k \<in> set [[107], [108]].
      sample_object (demo_server MAXMEMORY_ALLKEYS_LRU_HISTOGRAM) demo_db k = Inr (?g k) \<and> hist_ok (?g k)"
    by (simp add: hist_ok_used_obj sample_object_def demo_server_def demo_db_def obj_at_def dictFind_def)
  have s: "score_sorted evictionPoolAlloc" by (simp add: score_sorted_def l)
  obtain p' f where "evictionPoolPopulateLRUHistogram (demo_server MAXMEMORY_ALLKEYS_LRU_HISTOGRAM) 0 demo_db
            [[107], [108]] evictionPoolAlloc = Inr p'" "pool_ok p'" "score_sorted p'"
    and "contents escore p' = fold (pool_insert dlt) (map (\<lambda>k. (Fin (f k), k, 0)) [[107], [108]])
            (contents escore evictionPoolAlloc)"
    using evictionPoolPopulateLRUHistogram_keeps_best [OF pool_ok_alloc s g, of 0]
    by (elim exE conjE) (rule that)
  then show ?thesis by (auto simp: contents_alloc)
qed

end
