(* ===== verification/Max_Memory.thy ===== *)
theory Max_Memory
  imports Redis_Types
begin

section \<open>Memory limits (evict.c)\<close>

text \<open>
  How much memory counts against \<open>maxmemory\<close>, how much has to be freed, how long one eviction
  cycle may take and whether evicting is safe at all. The value of \<open>zmalloc_used_memory()\<close> is the
  argument \<open>used\<close>, \<open>sizeof(replBufBlock) + sizeof(listNode)\<close> the argument \<open>node\<close>; all
  sums are in \<open>size_t\<close> and wrap. The ratio \<open>level\<close>, a \<open>float\<close> quotient for INFO, is given as
  its two operands.
\<close>

definition PROTO_REPLY_CHUNK_BYTES :: int where "PROTO_REPLY_CHUNK_BYTES = 16 * 1024"

datatype cstatus = C_OK | C_ERR

definition freeMemoryGetNotCountedMemory :: "u64 \<Rightarrow> server \<Rightarrow> u64" where
  "freeMemoryGetNotCountedMemory node s =
     (let repl =
        (if repl_backlog_size s < sint (repl_buffer_mem s)
         then (let extra_approx_size = word_of_int (repl_backlog_size s div PROTO_REPLY_CHUNK_BYTES + 1) * node;
                   counted_mem = word_of_int (repl_backlog_size s) + extra_approx_size
               in if counted_mem < repl_buffer_mem s then repl_buffer_mem s - counted_mem else 0)
         else 0)
      in if aof_on s then repl + aof_buf_alloc s else repl)"

record mem_state =
  status :: cstatus
  total :: u64
  logical :: "u64 option"
  tofree :: "u64 option"
  level :: "(u64 \<times> u64) option"

definition getMaxmemoryState :: "u64 \<Rightarrow> u64 \<Rightarrow> bool \<Rightarrow> server \<Rightarrow> mem_state" where
  "getMaxmemoryState used node want_level s =
     (if maxmemory s = 0
      then \<lparr>status = C_OK, total = used, logical = None, tofree = None,
            level = (if want_level then Some (0, 1) else None)\<rparr>
      else if used \<le> maxmemory s \<and> \<not> want_level
      then \<lparr>status = C_OK, total = used, logical = None, tofree = None, level = None\<rparr>
      else (let overhead = freeMemoryGetNotCountedMemory node s;
                mem_used = (if overhead < used then used - overhead else 0);
                lev = (if want_level then Some (mem_used, maxmemory s) else None)
            in if used \<le> maxmemory s \<or> mem_used \<le> maxmemory s
               then \<lparr>status = C_OK, total = used, logical = None, tofree = None, level = lev\<rparr>
               else \<lparr>status = C_ERR, total = used, logical = Some mem_used,
                     tofree = Some (mem_used - maxmemory s), level = lev\<rparr>))"

definition overMaxmemoryAfterAlloc :: "u64 \<Rightarrow> u64 \<Rightarrow> u64 \<Rightarrow> server \<Rightarrow> bool" where
  "overMaxmemoryAfterAlloc used node moremem s =
     (if maxmemory s = 0 then False
      else if used + moremem \<le> maxmemory s then False
      else (let overhead = freeMemoryGetNotCountedMemory node s;
                mem_used = (if overhead < used then used - overhead else 0)
            in maxmemory s < mem_used + moremem))"

definition startEvictionTimeProc :: "server \<Rightarrow> server" where
  "startEvictionTimeProc s =
     (if isEvictionProcRunning s then s
      else emit StartEvictionTimeEvent (s\<lparr>isEvictionProcRunning := True\<rparr>))"

definition isSafeToPerformEvictions :: "server \<Rightarrow> bool" where
  "isSafeToPerformEvictions s =
     (if inside_yielding_command s \<or> loading s then False
      else if masterhost s \<and> repl_slave_ignore_maxmemory s then False
      else if paused_evict s then False
      else True)"

text \<open>\<open>pow\<close> of the C library is the argument \<open>pw\<close>, a function of base and exponent.\<close>

definition evictionTimeLimitUs :: "(double \<Rightarrow> double \<Rightarrow> double) \<Rightarrow> server \<Rightarrow> u64 cres" where
  "evictionTimeLimitUs pw s =
     cbind (cassert (0 \<le> maxmemory_eviction_tenacity s)) (\<lambda>_.
     cbind (cassert (maxmemory_eviction_tenacity s \<le> 100)) (\<lambda>_.
       if maxmemory_eviction_tenacity s \<le> 10
       then Inr (50 * word_of_int (maxmemory_eviction_tenacity s))
       else if maxmemory_eviction_tenacity s < 100
       then (case dmul (Fin 500) (pw (dlit (115 / 100)) (dsub (dof_int (maxmemory_eviction_tenacity s)) (Fin 10))) of
               Fin x \<Rightarrow> Inr (word_of_int \<lfloor>x\<rfloor>)
             | NaN \<Rightarrow> Inl OutOfBounds)
       else Inr (- 1)))"

subsection \<open>What the limits mean\<close>

text \<open>The memory that counts, as a number.\<close>

definition counted_memory :: "u64 \<Rightarrow> u64 \<Rightarrow> server \<Rightarrow> nat" where
  "counted_memory used node s = unat used - unat (freeMemoryGetNotCountedMemory node s)"

lemma counted_memory_word:
  "unat (if freeMemoryGetNotCountedMemory node s < used then used - freeMemoryGetNotCountedMemory node s else 0)
     = counted_memory used node s"
  by (auto simp: counted_memory_def unat_sub_small word_le_nat_alt word_less_nat_alt)

lemma counted_memory_le: "counted_memory used node s \<le> unat used"
  by (simp add: counted_memory_def)

lemma getMaxmemoryState_lemma:
  shows "(status (getMaxmemoryState used node wl s) = C_ERR
            \<longleftrightarrow> maxmemory s \<noteq> 0 \<and> unat (maxmemory s) < counted_memory used node s)
       \<and> (\<forall>t. tofree (getMaxmemoryState used node wl s) = Some t \<longrightarrow>
              unat t = counted_memory used node s - unat (maxmemory s)
            \<and> (\<forall>used'. unat used' + unat t \<le> unat used \<longrightarrow>
                 status (getMaxmemoryState used' node wl s) = C_OK))"
proof -
  let ?m = "\<lambda>u. if freeMemoryGetNotCountedMemory node s < u then u - freeMemoryGetNotCountedMemory node s else 0"
  have le: "\<And>a b :: u64. a \<le> b \<longleftrightarrow> unat a \<le> unat b" by (simp add: word_le_nat_alt)
  have m: "unat (?m u) = counted_memory u node s" for u by (rule counted_memory_word)
  have st: "status (getMaxmemoryState u node wl s) = C_ERR
              \<longleftrightarrow> maxmemory s \<noteq> 0 \<and> unat (maxmemory s) < counted_memory u node s" for u
  proof -
    have "u \<le> maxmemory s \<longrightarrow> counted_memory u node s \<le> unat (maxmemory s)"
      using counted_memory_le [of u node s] by (auto simp: le)
    moreover have "?m u \<le> maxmemory s \<longleftrightarrow> counted_memory u node s \<le> unat (maxmemory s)"
      by (simp only: le m)
    ultimately show ?thesis by (auto simp: getMaxmemoryState_def Let_def not_le)
  qed
  have tf: "unat t = counted_memory used node s - unat (maxmemory s)"
    if "tofree (getMaxmemoryState used node wl s) = Some t" for t
  proof -
    have "t = ?m used - maxmemory s" "maxmemory s \<le> ?m used"
      using that by (auto simp: getMaxmemoryState_def Let_def split: if_splits)
    then have "unat t = unat (?m used) - unat (maxmemory s)" by (simp add: unat_sub_small)
    then show ?thesis by (simp only: m)
  qed
  have "status (getMaxmemoryState u node wl s) = C_OK"
    if t: "tofree (getMaxmemoryState used node wl s) = Some t" and u: "unat u + unat t \<le> unat used" for t u
  proof -
    have "unat (maxmemory s) < counted_memory used node s"
      using t st [of used] by (auto simp: getMaxmemoryState_def Let_def split: if_splits)
    then have "counted_memory u node s \<le> unat (maxmemory s)"
      using u unfolding tf [OF t] by (simp add: counted_memory_def)
    then show ?thesis using st [of u] by (cases "status (getMaxmemoryState u node wl s)") simp_all
  qed
  with tf st show ?thesis by blast
qed

text \<open>
  C39: the state is C\_ERR exactly when a limit is set and the counted memory exceeds it; then the
  amount to free is the excess, and freeing it (with the buffers unchanged) makes the state C\_OK.
\<close>

theorem getMaxmemoryState_correct:
  shows "(status (getMaxmemoryState used node wl s) = C_ERR
            \<longleftrightarrow> maxmemory s \<noteq> 0 \<and> unat (maxmemory s) < counted_memory used node s)
       \<and> (\<forall>t. tofree (getMaxmemoryState used node wl s) = Some t \<longrightarrow>
              unat t = counted_memory used node s - unat (maxmemory s)
            \<and> (\<forall>used'. unat used' + unat t \<le> unat used \<longrightarrow>
                 status (getMaxmemoryState used' node wl s) = C_OK))"
  by (rule getMaxmemoryState_lemma)

theorem getMaxmemoryState_correct_witness:
  "tofree (getMaxmemoryState 150 64 False (init_server\<lparr>maxmemory := 100\<rparr>)) = Some 50
   \<and> status (getMaxmemoryState 100 64 False (init_server\<lparr>maxmemory := 100\<rparr>)) = C_OK"
proof -
  let ?s = "init_server\<lparr>maxmemory := 100\<rparr>"
  have f: "freeMemoryGetNotCountedMemory 64 ?s = 0"
    by (simp add: freeMemoryGetNotCountedMemory_def init_server_def)
  have t: "tofree (getMaxmemoryState 150 64 False ?s) = Some 50"
    using f by (simp add: getMaxmemoryState_def Let_def)
  have "unat (100 :: u64) + unat (50 :: u64) \<le> unat (150 :: u64)" by simp
  then have "status (getMaxmemoryState 100 64 False ?s) = C_OK"
    using getMaxmemoryState_correct [of 150 64 False ?s] t by blast
  with t show ?thesis by simp
qed

text \<open>
  C35: while \<open>used + moremem\<close> does not wrap, the check before a large allocation is true exactly
  when the counted memory plus the allocation exceeds the limit.
\<close>

theorem overMaxmemoryAfterAlloc_correct:
  assumes "unat used + unat moremem < 2 ^ 64"
  shows "overMaxmemoryAfterAlloc used node moremem s
           \<longleftrightarrow> maxmemory s \<noteq> 0 \<and> unat (maxmemory s) < counted_memory used node s + unat moremem"
proof -
  define mu where "mu = (if freeMemoryGetNotCountedMemory node s < used
                          then used - freeMemoryGetNotCountedMemory node s else 0)"
  have m: "unat mu = counted_memory used node s" unfolding mu_def by (rule counted_memory_word)
  have a: "unat (used + moremem) = unat used + unat moremem" using assms by (rule unat_add_small)
  have b: "unat (mu + moremem) = counted_memory used node s + unat moremem"
    using assms counted_memory_le [of used node s] m by (subst unat_add_small) auto
  have "used + moremem \<le> maxmemory s \<longrightarrow> counted_memory used node s + unat moremem \<le> unat (maxmemory s)"
    using counted_memory_le [of used node s] by (simp add: word_le_nat_alt a)
  moreover have "maxmemory s < mu + moremem \<longleftrightarrow> unat (maxmemory s) < counted_memory used node s + unat moremem"
    unfolding word_less_nat_alt b ..
  ultimately show ?thesis by (auto simp: overMaxmemoryAfterAlloc_def Let_def simp flip: mu_def)
qed

theorem overMaxmemoryAfterAlloc_correct_witness:
  "overMaxmemoryAfterAlloc 90 64 20 (init_server\<lparr>maxmemory := 100\<rparr>)"
proof -
  have "counted_memory 90 64 (init_server\<lparr>maxmemory := 100\<rparr>) = 90"
    by (simp add: counted_memory_def freeMemoryGetNotCountedMemory_def init_server_def)
  then show ?thesis
    using overMaxmemoryAfterAlloc_correct [of 90 20 64 "init_server\<lparr>maxmemory := 100\<rparr>"]
    by (simp add: init_server_def)
qed

text \<open>An allocation near the end of the address space wraps the sum and passes the check.\<close>

lemma overMaxmemoryAfterAlloc_wraps:
  "\<not> overMaxmemoryAfterAlloc 90 64 (- 80) (init_server\<lparr>maxmemory := 100\<rparr>)"
  by (simp add: overMaxmemoryAfterAlloc_def init_server_def)

lemma evictionTimeLimitUs_linear:
  "0 \<le> maxmemory_eviction_tenacity s \<Longrightarrow> maxmemory_eviction_tenacity s \<le> 10 \<Longrightarrow>
   \<exists>t. evictionTimeLimitUs pw s = Inr t \<and> uint t = 50 * maxmemory_eviction_tenacity s"
  by (simp add: evictionTimeLimitUs_def uint_mult_lem [THEN iffD1] unsigned_of_int take_bit_int_eq_self)

end
