(* ===== verification/Strings.thy ===== *)
theory Strings
  imports Redis_Types
begin

section \<open>Strings and numbers\<close>

text \<open>
  The conversions between strings and numbers (\<open>string2ll\<close>, \<open>ll2string\<close>, \<open>sdigits10\<close>,
  \<open>string2d\<close>: \<open>util.c\<close>, not part of the repository) are a record of functions the models take
  as an argument. The locale \<open>strlib_spec\<close> states what the code relies on: the printed form of
  a \<open>long long\<close> parses back, only printed forms parse, and they have at most 20 characters. It is
  interpreted on decimal notation.
\<close>

record strlib =
  string2ll :: "sds \<Rightarrow> int option"
  ll2string :: "int \<Rightarrow> sds"
  sdigits10 :: "int \<Rightarrow> nat"
  string2d :: "sds \<Rightarrow> double option"

definition LLONG_MIN :: int where "LLONG_MIN = - (2 ^ 63)"
definition LLONG_MAX :: int where "LLONG_MAX = 2 ^ 63 - 1"
definition LONG_MIN :: int where "LONG_MIN = LLONG_MIN"
definition LONG_MAX :: int where "LONG_MAX = LLONG_MAX"
definition INT_MIN :: int where "INT_MIN = - (2 ^ 31)"
definition INT_MAX :: int where "INT_MAX = 2 ^ 31 - 1"

lemmas int_limits = LLONG_MIN_def LLONG_MAX_def LONG_MIN_def LONG_MAX_def INT_MIN_def INT_MAX_def

definition in_ll :: "int \<Rightarrow> bool" where
  "in_ll v = (LLONG_MIN \<le> v \<and> v \<le> LLONG_MAX)"

locale strlib_spec =
  fixes L :: strlib
  assumes parse_print: "in_ll v \<Longrightarrow> string2ll L (ll2string L v) = Some v"
    and parse_only: "string2ll L bs = Some v \<Longrightarrow> in_ll v \<and> bs = ll2string L v"
    and print_length: "in_ll v \<Longrightarrow> length (ll2string L v) \<le> 20"
    and digits_length: "in_ll v \<Longrightarrow> sdigits10 L v = length (ll2string L v)"
begin

lemma parse_iff: "string2ll L bs = Some v \<longleftrightarrow> in_ll v \<and> bs = ll2string L v"
  using parse_print parse_only by blast

lemma print_inj: "in_ll v \<Longrightarrow> in_ll w \<Longrightarrow> ll2string L v = ll2string L w \<longleftrightarrow> v = w"
  using parse_print by (metis option.inject)

end

subsection \<open>Decimal notation\<close>

fun digits10 :: "nat \<Rightarrow> sds" where
  "digits10 n = (if n < 10 then [of_nat (48 + n)] else digits10 (n div 10) @ [of_nat (48 + n mod 10)])"

declare digits10.simps [simp del]

definition dec_print :: "int \<Rightarrow> sds" where
  "dec_print v = (if v < 0 then 45 # digits10 (nat (- v)) else digits10 (nat v))"

definition digits_val :: "sds \<Rightarrow> nat" where
  "digits_val bs = foldl (\<lambda>a b. 10 * a + (unat b - 48)) 0 bs"

definition dec_val :: "sds \<Rightarrow> int" where
  "dec_val bs = (case bs of [] \<Rightarrow> 0 | b # bs' \<Rightarrow> if b = 45 then - int (digits_val bs') else int (digits_val bs))"

text \<open>The strict parser: no sign but \<open>-\<close>, no leading zero, nothing before or after.\<close>

definition dec_parse :: "sds \<Rightarrow> int option" where
  "dec_parse bs = (let v = dec_val bs in if in_ll v \<and> dec_print v = bs then Some v else None)"

lemma unat_digit [simp]: "d < 10 \<Longrightarrow> unat (of_nat (48 + d) :: u8) = 48 + d"
  by (simp only: unat_of_nat) simp

lemma digits_val_snoc: "digits_val (bs @ [b]) = 10 * digits_val bs + (unat b - 48)"
  by (simp add: digits_val_def)

lemma digits_val_digits10 [simp]: "digits_val (digits10 n) = n"
proof (induction n rule: digits10.induct)
  case (1 n)
  show ?case
  proof (cases "n < 10")
    case True
    then show ?thesis using unat_digit [of n] by (subst digits10.simps) (simp add: digits_val_def del: unat_digit of_nat_add)
  next
    case False
    with 1 have "digits_val (digits10 (n div 10)) = n div 10" by simp
    with False show ?thesis
      using unat_digit [of "n mod 10"]
      by (subst digits10.simps) (simp add: digits_val_snoc del: unat_digit of_nat_add)
  qed
qed

lemma digits10_hd: "digits10 n \<noteq> [] \<and> hd (digits10 n) \<noteq> 45"
proof (induction n rule: digits10.induct)
  case (1 n)
  show ?case
  proof (cases "n < 10")
    case True
    have "(of_nat (48 + n) :: u8) \<noteq> 45"
    proof
      assume "(of_nat (48 + n) :: u8) = 45"
      then have "unat (of_nat (48 + n) :: u8) = unat (45 :: u8)" by (rule arg_cong)
      with True show False unfolding unat_digit [OF True] by simp
    qed
    with True show ?thesis by (subst (1 2) digits10.simps) simp
  next
    case False
    with 1 show ?thesis by (subst (1 2) digits10.simps) (simp add: hd_append)
  qed
qed

lemma dec_val_print [simp]: "dec_val (dec_print v) = v"
proof (cases "v < 0")
  case False
  obtain d ds where "digits10 (nat v) = d # ds" "d \<noteq> 45"
    using digits10_hd [of "nat v"] by (cases "digits10 (nat v)") auto
  then show ?thesis using False digits_val_digits10 [of "nat v"]
    by (simp add: dec_print_def dec_val_def del: digits_val_digits10)
qed (simp add: dec_print_def dec_val_def)

lemma length_digits10: "n < 10 ^ Suc k \<Longrightarrow> length (digits10 n) \<le> Suc k"
proof (induction k arbitrary: n)
  case (Suc k)
  then have "n div 10 < 10 ^ Suc k" by (simp add: div_less_iff_less_mult)
  with Suc.IH [of "n div 10"] show ?case by (subst digits10.simps) simp
qed (subst digits10.simps, simp)

lemma length_dec_print: "in_ll v \<Longrightarrow> length (dec_print v) \<le> 20"
proof -
  assume v: "in_ll v"
  then have "nat (- v) < 10 ^ Suc 18" "nat v < 10 ^ Suc 18" by (auto simp: in_ll_def int_limits)
  then have "length (digits10 (nat (- v))) \<le> Suc 18" "length (digits10 (nat v)) \<le> Suc 18"
    using length_digits10 by blast+
  then show ?thesis by (simp add: dec_print_def)
qed

definition decimal_lib :: strlib where
  "decimal_lib = \<lparr>string2ll = dec_parse, ll2string = dec_print,
                  sdigits10 = (\<lambda>v. length (dec_print v)), string2d = (\<lambda>_. None)\<rparr>"

interpretation decimal: strlib_spec decimal_lib
  by unfold_locales
    (auto simp: decimal_lib_def dec_parse_def Let_def length_dec_print split: if_splits)

subsection \<open>Comparing bytes\<close>

text \<open>The sign of \<open>memcmp\<close> on the first \<open>n\<close> bytes; the standard fixes no more.\<close>

fun memcmp :: "sds \<Rightarrow> sds \<Rightarrow> int" where
  "memcmp (a # as) (b # bs) = (if a < b then - 1 else if b < a then 1 else memcmp as bs)"
| "memcmp _ _ = 0"

text \<open>A \<open>size_t\<close> difference returned as \<open>int\<close>.\<close>

definition int_of_size_diff :: "nat \<Rightarrow> nat \<Rightarrow> int" where
  "int_of_size_diff a b = sint (word_of_int (int a - int b) :: 32 word)"

lemma sint_small: "- (2 ^ 31) \<le> k \<Longrightarrow> k < 2 ^ 31 \<Longrightarrow> sint (word_of_int k :: 32 word) = k"
  by (simp add: signed_of_int signed_take_bit_int_eq_self)

lemma int_of_size_diff_small:
  "a < 2 ^ 31 \<Longrightarrow> b < 2 ^ 31 \<Longrightarrow> int_of_size_diff a b = int a - int b"
  unfolding int_of_size_diff_def by (rule sint_small) simp_all

text \<open>Byte strings in dictionary order, as \<open>memcmp\<close> and the lengths decide it.\<close>

fun bytes_less :: "sds \<Rightarrow> sds \<Rightarrow> bool" where
  "bytes_less as [] = False"
| "bytes_less [] (b # bs) = True"
| "bytes_less (a # as) (b # bs) = (a < b \<or> a = b \<and> bytes_less as bs)"

definition cmp_bytes :: "sds \<Rightarrow> sds \<Rightarrow> int" where
  "cmp_bytes a b = (let c = memcmp a b in if c = 0 then int (length a) - int (length b) else c)"

lemma cmp_bytes_eq: "cmp_bytes a b = 0 \<longleftrightarrow> a = b"
  by (induction a b rule: memcmp.induct) (auto simp: cmp_bytes_def Let_def)

lemma cmp_bytes_less: "cmp_bytes a b < 0 \<longleftrightarrow> bytes_less a b"
  by (induction a b rule: bytes_less.induct) (auto simp: cmp_bytes_def Let_def split: if_splits)

end
