(* ===== verification/Objects.thy ===== *)
theory Objects
  imports Strings Hlru_Score
begin

section \<open>Objects: creation, reference counts, encodings (object.c)\<close>

text \<open>
  Every operation takes and returns the server state with its object store; an object is named by
  its address. A string object has its bytes in an \<open>sds\<close> (RAW, EMBSTR) or its value in the pointer
  (INT). What the freshly allocated memory of an object holds before a field is written is
  \<open>fresh_mem\<close>.
\<close>

subsection \<open>Creation\<close>

definition createObject :: "int \<Rightarrow> payload \<Rightarrow> server \<Rightarrow> nat \<times> server" where
  "createObject t p s =
     alloc_obj \<lparr>otype = t, encoding = OBJ_ENCODING_RAW, lru = 0, refcount = 1, ptr = p,
                access_times = (fst (fresh_mem s (next_addr s)))[0 := 0], num_accesses = 0\<rparr> s"

definition makeObjectShared :: "nat \<Rightarrow> server \<Rightarrow> (nat \<times> server) cres" where
  "makeObjectShared a s =
     cbind (obj_at s a) (\<lambda>ob.
     cbind (cassert (refcount ob = 1)) (\<lambda>_.
     Inr (a, set_obj a (ob\<lparr>refcount := OBJ_SHARED_REFCOUNT\<rparr>) s)))"

definition createRawStringObject :: "sds \<Rightarrow> server \<Rightarrow> nat \<times> server" where
  "createRawStringObject bs s = createObject OBJ_STRING (SdsPtr bs 0) s"

text \<open>Here \<open>num_accesses\<close> and \<open>access_times\<close> keep what the allocated memory held.\<close>

definition createEmbeddedStringObject :: "sds \<Rightarrow> server \<Rightarrow> nat \<times> server" where
  "createEmbeddedStringObject bs s =
     alloc_obj \<lparr>otype = OBJ_STRING, encoding = OBJ_ENCODING_EMBSTR, lru = 0, refcount = 1,
                ptr = SdsPtr bs 0, access_times = fst (fresh_mem s (next_addr s)),
                num_accesses = snd (fresh_mem s (next_addr s))\<rparr> s"

definition OBJ_ENCODING_EMBSTR_SIZE_LIMIT :: nat where "OBJ_ENCODING_EMBSTR_SIZE_LIMIT = 44"

definition createStringObject :: "sds \<Rightarrow> server \<Rightarrow> nat \<times> server" where
  "createStringObject bs s =
     (if length bs \<le> OBJ_ENCODING_EMBSTR_SIZE_LIMIT then createEmbeddedStringObject bs s
      else createRawStringObject bs s)"

text \<open>\<open>ok\<close>: the allocation of the string succeeds.\<close>

definition tryCreateRawStringObject :: "bool \<Rightarrow> sds \<Rightarrow> server \<Rightarrow> nat option \<times> server" where
  "tryCreateRawStringObject ok bs s =
     (if \<not> ok then (None, s)
      else let (a, s') = createObject OBJ_STRING (SdsPtr bs 0) s in (Some a, s'))"

definition tryCreateStringObject :: "bool \<Rightarrow> sds \<Rightarrow> server \<Rightarrow> nat option \<times> server" where
  "tryCreateStringObject ok bs s =
     (if length bs \<le> OBJ_ENCODING_EMBSTR_SIZE_LIMIT
      then let (a, s') = createEmbeddedStringObject bs s in (Some a, s')
      else tryCreateRawStringObject ok bs s)"

datatype ll2strobj = LL2STROBJ_AUTO | LL2STROBJ_NO_SHARED | LL2STROBJ_NO_INT_ENC

definition with_encoding :: "int \<Rightarrow> nat \<times> server \<Rightarrow> nat \<times> server" where
  "with_encoding e r =
     (case heap (snd r) (fst r) of None \<Rightarrow> r
      | Some ob \<Rightarrow> (fst r, set_obj (fst r) (ob\<lparr>encoding := e\<rparr>) (snd r)))"

definition createStringObjectFromLongLongWithOptions ::
  "strlib \<Rightarrow> int \<Rightarrow> ll2strobj \<Rightarrow> server \<Rightarrow> nat \<times> server" where
  "createStringObjectFromLongLongWithOptions L v flag s =
     (if 0 \<le> v \<and> v < OBJ_SHARED_INTEGERS \<and> flag = LL2STROBJ_AUTO then (shared_integers s v, s)
      else if LONG_MIN \<le> v \<and> v \<le> LONG_MAX \<and> flag \<noteq> LL2STROBJ_NO_INT_ENC
      then with_encoding OBJ_ENCODING_INT (createObject OBJ_STRING (LongPtr v) s)
      else createStringObject (ll2string L v) s)"

definition createStringObjectFromLongLong :: "strlib \<Rightarrow> int \<Rightarrow> server \<Rightarrow> nat \<times> server" where
  "createStringObjectFromLongLong L v s = createStringObjectFromLongLongWithOptions L v LL2STROBJ_AUTO s"

definition createStringObjectFromLongLongForValue :: "strlib \<Rightarrow> int \<Rightarrow> server \<Rightarrow> nat \<times> server" where
  "createStringObjectFromLongLongForValue L v s =
     (if maxmemory s = 0 \<or> \<not> flag_set (maxmemory_policy s) MAXMEMORY_FLAG_NO_SHARED_INTEGERS
      then createStringObjectFromLongLongWithOptions L v LL2STROBJ_AUTO s
      else createStringObjectFromLongLongWithOptions L v LL2STROBJ_NO_SHARED s)"

definition createStringObjectFromLongLongWithSds :: "strlib \<Rightarrow> int \<Rightarrow> server \<Rightarrow> nat \<times> server" where
  "createStringObjectFromLongLongWithSds L v s =
     createStringObjectFromLongLongWithOptions L v LL2STROBJ_NO_INT_ENC s"

definition dupStringObject :: "nat \<Rightarrow> server \<Rightarrow> (nat \<times> server) cres" where
  "dupStringObject a s =
     cbind (obj_at s a) (\<lambda>ob.
     cbind (cassert (otype ob = OBJ_STRING)) (\<lambda>_.
       if encoding ob = OBJ_ENCODING_RAW
       then (case ptr ob of SdsPtr bs _ \<Rightarrow> Inr (createRawStringObject bs s) | _ \<Rightarrow> Inl NullDeref)
       else if encoding ob = OBJ_ENCODING_EMBSTR
       then (case ptr ob of SdsPtr bs _ \<Rightarrow> Inr (createEmbeddedStringObject bs s) | _ \<Rightarrow> Inl NullDeref)
       else if encoding ob = OBJ_ENCODING_INT
       then Inr (with_encoding OBJ_ENCODING_INT (createObject OBJ_STRING (ptr ob) s))
       else Inl Panicked))"

text \<open>The containers: \<open>v\<close> is the value the container's own module just allocated.\<close>

definition createQuicklistObject :: "nat \<Rightarrow> server \<Rightarrow> nat \<times> server" where
  "createQuicklistObject v s = with_encoding OBJ_ENCODING_QUICKLIST (createObject OBJ_LIST (ValuePtr v) s)"

definition createListListpackObject :: "nat \<Rightarrow> server \<Rightarrow> nat \<times> server" where
  "createListListpackObject v s = with_encoding OBJ_ENCODING_LISTPACK (createObject OBJ_LIST (ValuePtr v) s)"

definition createSetObject :: "nat \<Rightarrow> server \<Rightarrow> nat \<times> server" where
  "createSetObject v s = with_encoding OBJ_ENCODING_HT (createObject OBJ_SET (ValuePtr v) s)"

definition createIntsetObject :: "nat \<Rightarrow> server \<Rightarrow> nat \<times> server" where
  "createIntsetObject v s = with_encoding OBJ_ENCODING_INTSET (createObject OBJ_SET (ValuePtr v) s)"

definition createSetListpackObject :: "nat \<Rightarrow> server \<Rightarrow> nat \<times> server" where
  "createSetListpackObject v s = with_encoding OBJ_ENCODING_LISTPACK (createObject OBJ_SET (ValuePtr v) s)"

definition createHashObject :: "nat \<Rightarrow> server \<Rightarrow> nat \<times> server" where
  "createHashObject v s = with_encoding OBJ_ENCODING_LISTPACK (createObject OBJ_HASH (ValuePtr v) s)"

definition createZsetObject :: "nat \<Rightarrow> server \<Rightarrow> nat \<times> server" where
  "createZsetObject v s = with_encoding OBJ_ENCODING_SKIPLIST (createObject OBJ_ZSET (ValuePtr v) s)"

definition createZsetListpackObject :: "nat \<Rightarrow> server \<Rightarrow> nat \<times> server" where
  "createZsetListpackObject v s = with_encoding OBJ_ENCODING_LISTPACK (createObject OBJ_ZSET (ValuePtr v) s)"

definition createStreamObject :: "nat \<Rightarrow> server \<Rightarrow> nat \<times> server" where
  "createStreamObject v s = with_encoding OBJ_ENCODING_STREAM (createObject OBJ_STREAM (ValuePtr v) s)"

definition createModuleObject :: "nat \<Rightarrow> server \<Rightarrow> nat \<times> server" where
  "createModuleObject v s = createObject OBJ_MODULE (ValuePtr v) s"

subsection \<open>Freeing and reference counts\<close>

definition freeStringObject :: "robj \<Rightarrow> release list cres" where
  "freeStringObject ob = (if encoding ob = OBJ_ENCODING_RAW then Inr [SdsFree] else Inr [])"

definition freeListObject :: "robj \<Rightarrow> release list cres" where
  "freeListObject ob =
     (if encoding ob = OBJ_ENCODING_QUICKLIST then Inr [QuicklistRelease]
      else if encoding ob = OBJ_ENCODING_LISTPACK then Inr [LpFree] else Inl Panicked)"

definition freeSetObject :: "robj \<Rightarrow> release list cres" where
  "freeSetObject ob =
     (if encoding ob = OBJ_ENCODING_HT then Inr [DictRelease]
      else if encoding ob = OBJ_ENCODING_INTSET \<or> encoding ob = OBJ_ENCODING_LISTPACK
      then Inr [ZFree] else Inl Panicked)"

definition freeZsetObject :: "robj \<Rightarrow> release list cres" where
  "freeZsetObject ob =
     (if encoding ob = OBJ_ENCODING_SKIPLIST then Inr [DictRelease, ZslFree, ZFree]
      else if encoding ob = OBJ_ENCODING_LISTPACK then Inr [ZFree] else Inl Panicked)"

definition freeHashObject :: "robj \<Rightarrow> release list cres" where
  "freeHashObject ob =
     (if encoding ob = OBJ_ENCODING_HT then Inr [DictRelease]
      else if encoding ob = OBJ_ENCODING_LISTPACK then Inr [LpFree] else Inl Panicked)"

definition freeModuleObject :: "robj \<Rightarrow> release list cres" where
  "freeModuleObject ob = Inr [ModuleFree, ZFree]"

definition freeStreamObject :: "robj \<Rightarrow> release list cres" where
  "freeStreamObject ob = Inr [FreeStream]"

definition incrRefCount :: "nat \<Rightarrow> server \<Rightarrow> server cres" where
  "incrRefCount a s =
     cbind (obj_at s a) (\<lambda>ob.
       if refcount ob < OBJ_FIRST_SPECIAL_REFCOUNT
       then Inr (set_obj a (ob\<lparr>refcount := refcount ob + 1\<rparr>) s)
       else if refcount ob = OBJ_SHARED_REFCOUNT then Inr s
       else if refcount ob = OBJ_STATIC_REFCOUNT then Inl Panicked
       else Inr s)"

definition free_by_type :: "robj \<Rightarrow> release list cres" where
  "free_by_type ob =
     (if otype ob = OBJ_STRING then freeStringObject ob
      else if otype ob = OBJ_LIST then freeListObject ob
      else if otype ob = OBJ_SET then freeSetObject ob
      else if otype ob = OBJ_ZSET then freeZsetObject ob
      else if otype ob = OBJ_HASH then freeHashObject ob
      else if otype ob = OBJ_MODULE then freeModuleObject ob
      else if otype ob = OBJ_STREAM then freeStreamObject ob
      else Inl Panicked)"

definition decrRefCount :: "nat \<Rightarrow> server \<Rightarrow> server cres" where
  "decrRefCount a s =
     cbind (obj_at s a) (\<lambda>ob.
       if refcount ob = 1
       then cbind (free_by_type ob) (\<lambda>rs. Inr (free_obj a (emit (FreeValue a rs) s)))
       else if refcount ob \<le> 0 then Inl Panicked
       else if refcount ob \<noteq> OBJ_SHARED_REFCOUNT
       then Inr (set_obj a (ob\<lparr>refcount := refcount ob - 1\<rparr>) s)
       else Inr s)"

definition checkType :: "nat option \<Rightarrow> int \<Rightarrow> server \<Rightarrow> (bool \<times> server) cres" where
  "checkType a t s =
     (case a of None \<Rightarrow> Inr (False, s)
      | Some p \<Rightarrow> cbind (obj_at s p) (\<lambda>ob.
          if otype ob \<noteq> t then Inr (True, emit (Reply (ReplyError ''wrongtypeerr'')) s)
          else Inr (False, s)))"


subsection \<open>Encoded strings\<close>

definition sdsEncodedObject :: "robj \<Rightarrow> bool" where
  "sdsEncodedObject ob = (encoding ob = OBJ_ENCODING_RAW \<or> encoding ob = OBJ_ENCODING_EMBSTR)"

definition sds_of :: "robj \<Rightarrow> sds cres" where
  "sds_of ob = (case ptr ob of SdsPtr bs _ \<Rightarrow> Inr bs | _ \<Rightarrow> Inl NullDeref)"

definition long_of :: "robj \<Rightarrow> int cres" where
  "long_of ob = (case ptr ob of LongPtr v \<Rightarrow> Inr v | NullPtr \<Rightarrow> Inr 0 | _ \<Rightarrow> Inl NullDeref)"

definition isSdsRepresentableAsLongLong :: "strlib \<Rightarrow> sds \<Rightarrow> int option" where
  "isSdsRepresentableAsLongLong L bs = string2ll L bs"

definition isObjectRepresentableAsLongLong :: "strlib \<Rightarrow> nat \<Rightarrow> server \<Rightarrow> int option cres" where
  "isObjectRepresentableAsLongLong L a s =
     cbind (obj_at s a) (\<lambda>ob.
     cbind (cassert (otype ob = OBJ_STRING)) (\<lambda>_.
       if encoding ob = OBJ_ENCODING_INT then cbind (long_of ob) (\<lambda>v. Inr (Some v))
       else cbind (sds_of ob) (\<lambda>bs. Inr (isSdsRepresentableAsLongLong L bs))))"

definition PROTO_MBULK_BIG_ARG :: nat where "PROTO_MBULK_BIG_ARG = 1024 * 32"
definition LUA_CMD_OBJCACHE_MAX_LEN :: nat where "LUA_CMD_OBJCACHE_MAX_LEN = 64"

definition trimStringObjectIfNeeded :: "nat \<Rightarrow> bool \<Rightarrow> server \<Rightarrow> server cres" where
  "trimStringObjectIfNeeded a trim_small_values s =
     cbind (obj_at s a) (\<lambda>ob.
       if encoding ob \<noteq> OBJ_ENCODING_RAW then Inr s
       else (case ptr ob of
           SdsPtr bs avail \<Rightarrow>
             let len = length bs in
             if PROTO_MBULK_BIG_ARG \<le> len \<or> trim_small_values
                \<or> current_client s \<and> client_is_script s \<and> len < LUA_CMD_OBJCACHE_MAX_LEN
             then if len div 10 < avail then Inr (set_obj a (ob\<lparr>ptr := SdsPtr bs 0\<rparr>) s) else Inr s
             else Inr s
         | _ \<Rightarrow> Inl NullDeref))"

text \<open>\<open>string2l\<close> is \<open>string2ll\<close> where \<open>long\<close> has 64 bits.\<close>

definition encode_small :: "nat \<Rightarrow> bool \<Rightarrow> robj \<Rightarrow> sds \<Rightarrow> server \<Rightarrow> (nat \<times> server) cres" where
  "encode_small a try_trim ob bs s =
     (if length bs \<le> OBJ_ENCODING_EMBSTR_SIZE_LIMIT
      then if encoding ob = OBJ_ENCODING_EMBSTR then Inr (a, s)
           else (let (emb, s') = createEmbeddedStringObject bs s in
                 cbind (decrRefCount a s') (\<lambda>s''. Inr (emb, s'')))
      else if try_trim then cbind (trimStringObjectIfNeeded a False s) (\<lambda>s'. Inr (a, s'))
      else Inr (a, s))"

definition tryObjectEncodingEx :: "strlib \<Rightarrow> nat \<Rightarrow> bool \<Rightarrow> server \<Rightarrow> (nat \<times> server) cres" where
  "tryObjectEncodingEx L a try_trim s =
     cbind (obj_at s a) (\<lambda>ob.
     cbind (cassert (otype ob = OBJ_STRING)) (\<lambda>_.
       if \<not> sdsEncodedObject ob then Inr (a, s)
       else if 1 < refcount ob then Inr (a, s)
       else cbind (sds_of ob) (\<lambda>bs.
         case (if length bs \<le> 20 then string2ll L bs else None) of
           Some value \<Rightarrow>
             if (maxmemory s = 0 \<or> \<not> flag_set (maxmemory_policy s) MAXMEMORY_FLAG_NO_SHARED_INTEGERS)
                \<and> 0 \<le> value \<and> value < OBJ_SHARED_INTEGERS
             then cbind (decrRefCount a s) (\<lambda>s'. Inr (shared_integers s value, s'))
             else if encoding ob = OBJ_ENCODING_RAW
             then Inr (a, set_obj a (ob\<lparr>encoding := OBJ_ENCODING_INT, ptr := LongPtr value\<rparr>) s)
             else if encoding ob = OBJ_ENCODING_EMBSTR
             then cbind (decrRefCount a s) (\<lambda>s'. Inr (createStringObjectFromLongLongForValue L value s'))
             else encode_small a try_trim ob bs s
         | None \<Rightarrow> encode_small a try_trim ob bs s)))"

definition tryObjectEncoding :: "strlib \<Rightarrow> nat \<Rightarrow> server \<Rightarrow> (nat \<times> server) cres" where
  "tryObjectEncoding L a s = tryObjectEncodingEx L a True s"

definition getDecodedObject :: "strlib \<Rightarrow> nat \<Rightarrow> server \<Rightarrow> (nat \<times> server) cres" where
  "getDecodedObject L a s =
     cbind (obj_at s a) (\<lambda>ob.
       if sdsEncodedObject ob then cbind (incrRefCount a s) (\<lambda>s'. Inr (a, s'))
       else if otype ob = OBJ_STRING \<and> encoding ob = OBJ_ENCODING_INT
       then cbind (long_of ob) (\<lambda>v. Inr (createStringObject (ll2string L v) s))
       else Inl Panicked)"

text \<open>The characters of a string object, printed when it is INT encoded.\<close>

definition string_chars :: "strlib \<Rightarrow> robj \<Rightarrow> sds cres" where
  "string_chars L ob =
     (if sdsEncodedObject ob then sds_of ob else cbind (long_of ob) (\<lambda>v. Inr (ll2string L v)))"

text \<open>\<open>coll\<close> is \<open>strcoll\<close> under the server's locale.\<close>

definition compareStringObjectsWithFlags ::
  "strlib \<Rightarrow> (sds \<Rightarrow> sds \<Rightarrow> int) \<Rightarrow> nat \<Rightarrow> nat \<Rightarrow> bool \<Rightarrow> server \<Rightarrow> int cres" where
  "compareStringObjectsWithFlags L coll a b collate s =
     cbind (obj_at s a) (\<lambda>oa. cbind (obj_at s b) (\<lambda>ob.
     cbind (cassert (otype oa = OBJ_STRING \<and> otype ob = OBJ_STRING)) (\<lambda>_.
       if a = b then Inr 0
       else cbind (string_chars L oa) (\<lambda>astr. cbind (string_chars L ob) (\<lambda>bstr.
         if collate then Inr (coll astr bstr)
         else (let minlen = min (length astr) (length bstr);
                   cmp = memcmp (take minlen astr) (take minlen bstr)
               in if cmp = 0 then Inr (int_of_size_diff (length astr) (length bstr)) else Inr cmp))))))"

definition compareStringObjects :: "strlib \<Rightarrow> (sds \<Rightarrow> sds \<Rightarrow> int) \<Rightarrow> nat \<Rightarrow> nat \<Rightarrow> server \<Rightarrow> int cres" where
  "compareStringObjects L coll a b s = compareStringObjectsWithFlags L coll a b False s"

definition collateStringObjects :: "strlib \<Rightarrow> (sds \<Rightarrow> sds \<Rightarrow> int) \<Rightarrow> nat \<Rightarrow> nat \<Rightarrow> server \<Rightarrow> int cres" where
  "collateStringObjects L coll a b s = compareStringObjectsWithFlags L coll a b True s"

definition equalStringObjects :: "strlib \<Rightarrow> (sds \<Rightarrow> sds \<Rightarrow> int) \<Rightarrow> nat \<Rightarrow> nat \<Rightarrow> server \<Rightarrow> bool cres" where
  "equalStringObjects L coll a b s =
     cbind (obj_at s a) (\<lambda>oa. cbind (obj_at s b) (\<lambda>ob.
       if encoding oa = OBJ_ENCODING_INT \<and> encoding ob = OBJ_ENCODING_INT then Inr (ptr oa = ptr ob)
       else cbind (compareStringObjects L coll a b s) (\<lambda>c. Inr (c = 0))))"

definition stringObjectLen :: "strlib \<Rightarrow> nat \<Rightarrow> server \<Rightarrow> nat cres" where
  "stringObjectLen L a s =
     cbind (obj_at s a) (\<lambda>ob.
     cbind (cassert (otype ob = OBJ_STRING)) (\<lambda>_.
       if sdsEncodedObject ob then cbind (sds_of ob) (\<lambda>bs. Inr (length bs))
       else cbind (long_of ob) (\<lambda>v. Inr (sdigits10 L v))))"

subsection \<open>Numbers from objects\<close>

text \<open>\<open>None\<close> is C\_ERR.\<close>

definition getLongLongFromObject :: "strlib \<Rightarrow> nat option \<Rightarrow> server \<Rightarrow> int option cres" where
  "getLongLongFromObject L a s =
     (case a of None \<Rightarrow> Inr (Some 0)
      | Some p \<Rightarrow>
          cbind (obj_at s p) (\<lambda>ob.
          cbind (cassert (otype ob = OBJ_STRING)) (\<lambda>_.
            if sdsEncodedObject ob then cbind (sds_of ob) (\<lambda>bs. Inr (string2ll L bs))
            else if encoding ob = OBJ_ENCODING_INT then cbind (long_of ob) (\<lambda>v. Inr (Some v))
            else Inl Panicked)))"

definition getDoubleFromObject :: "strlib \<Rightarrow> nat option \<Rightarrow> server \<Rightarrow> double option cres" where
  "getDoubleFromObject L a s =
     (case a of None \<Rightarrow> Inr (Some (Fin 0))
      | Some p \<Rightarrow>
          cbind (obj_at s p) (\<lambda>ob.
          cbind (cassert (otype ob = OBJ_STRING)) (\<lambda>_.
            if sdsEncodedObject ob then cbind (sds_of ob) (\<lambda>bs. Inr (string2d L bs))
            else if encoding ob = OBJ_ENCODING_INT then cbind (long_of ob) (\<lambda>v. Inr (Some (dof_int v)))
            else Inl Panicked)))"

definition reply_error :: "string option \<Rightarrow> string \<Rightarrow> server \<Rightarrow> server" where
  "reply_error msg deflt s = emit (Reply (ReplyError (case msg of Some m \<Rightarrow> m | None \<Rightarrow> deflt))) s"

definition getDoubleFromObjectOrReply ::
  "strlib \<Rightarrow> nat option \<Rightarrow> string option \<Rightarrow> server \<Rightarrow> (double option \<times> server) cres" where
  "getDoubleFromObjectOrReply L a msg s =
     cbind (getDoubleFromObject L a s) (\<lambda>r.
       case r of None \<Rightarrow> Inr (None, reply_error msg ''value is not a valid float'' s)
       | Some v \<Rightarrow> Inr (Some v, s))"

definition getLongLongFromObjectOrReply ::
  "strlib \<Rightarrow> nat option \<Rightarrow> string option \<Rightarrow> server \<Rightarrow> (int option \<times> server) cres" where
  "getLongLongFromObjectOrReply L a msg s =
     cbind (getLongLongFromObject L a s) (\<lambda>r.
       case r of None \<Rightarrow> Inr (None, reply_error msg ''value is not an integer or out of range'' s)
       | Some v \<Rightarrow> Inr (Some v, s))"

definition getLongFromObjectOrReply ::
  "strlib \<Rightarrow> nat option \<Rightarrow> string option \<Rightarrow> server \<Rightarrow> (int option \<times> server) cres" where
  "getLongFromObjectOrReply L a msg s =
     cbind (getLongLongFromObjectOrReply L a msg s) (\<lambda>(r, s').
       case r of None \<Rightarrow> Inr (None, s')
       | Some v \<Rightarrow> if v < LONG_MIN \<or> LONG_MAX < v then Inr (None, reply_error msg ''value is out of range'' s')
                   else Inr (Some v, s'))"

definition getRangeLongFromObjectOrReply ::
  "strlib \<Rightarrow> nat option \<Rightarrow> int \<Rightarrow> int \<Rightarrow> string option \<Rightarrow> server \<Rightarrow> (int option \<times> server) cres" where
  "getRangeLongFromObjectOrReply L a mn mx msg s =
     cbind (getLongFromObjectOrReply L a msg s) (\<lambda>(r, s').
       case r of None \<Rightarrow> Inr (None, s')
       | Some v \<Rightarrow> if v < mn \<or> mx < v
                   then Inr (None, reply_error msg ''value is out of range, value must between'' s')
                   else Inr (Some v, s'))"

definition getPositiveLongFromObjectOrReply ::
  "strlib \<Rightarrow> nat option \<Rightarrow> string option \<Rightarrow> server \<Rightarrow> (int option \<times> server) cres" where
  "getPositiveLongFromObjectOrReply L a msg s =
     (case msg of Some m \<Rightarrow> getRangeLongFromObjectOrReply L a 0 LONG_MAX (Some m) s
      | None \<Rightarrow> getRangeLongFromObjectOrReply L a 0 LONG_MAX
                  (Some ''value is out of range, must be positive'') s)"

definition getIntFromObjectOrReply ::
  "strlib \<Rightarrow> nat option \<Rightarrow> string option \<Rightarrow> server \<Rightarrow> (int option \<times> server) cres" where
  "getIntFromObjectOrReply L a msg s = getRangeLongFromObjectOrReply L a INT_MIN INT_MAX msg s"

definition strEncoding :: "int \<Rightarrow> string" where
  "strEncoding e =
     (if e = OBJ_ENCODING_RAW then ''raw'' else if e = OBJ_ENCODING_INT then ''int''
      else if e = OBJ_ENCODING_HT then ''hashtable'' else if e = OBJ_ENCODING_QUICKLIST then ''quicklist''
      else if e = OBJ_ENCODING_LISTPACK then ''listpack'' else if e = OBJ_ENCODING_INTSET then ''intset''
      else if e = OBJ_ENCODING_SKIPLIST then ''skiplist'' else if e = OBJ_ENCODING_EMBSTR then ''embstr''
      else if e = OBJ_ENCODING_STREAM then ''stream'' else ''unknown'')"

subsection \<open>Well-formed string objects\<close>

definition str_bytes :: "strlib \<Rightarrow> robj \<Rightarrow> sds" where
  "str_bytes L ob = (case ptr ob of SdsPtr bs _ \<Rightarrow> bs | LongPtr v \<Rightarrow> ll2string L v | _ \<Rightarrow> [])"

definition str_ok :: "robj \<Rightarrow> bool" where
  "str_ok ob =
     (otype ob = OBJ_STRING \<and> 0 < refcount ob
      \<and> (sdsEncodedObject ob \<and> (\<exists>bs n. ptr ob = SdsPtr bs n)
         \<or> encoding ob = OBJ_ENCODING_INT \<and> (\<exists>v. ptr ob = LongPtr v \<and> in_ll v)))"

text \<open>What \<open>createSharedObjects\<close> (server.c) sets up: one shared INT object per small integer.\<close>

definition shared_ok :: "server \<Rightarrow> bool" where
  "shared_ok s =
     (\<forall>v. 0 \<le> v \<and> v < OBJ_SHARED_INTEGERS \<longrightarrow>
        (\<exists>ob. heap s (shared_integers s v) = Some ob \<and> str_ok ob \<and> encoding ob = OBJ_ENCODING_INT
            \<and> ptr ob = LongPtr v \<and> refcount ob = OBJ_SHARED_REFCOUNT))"

definition fresh_ok :: "server \<Rightarrow> bool" where
  "fresh_ok s = (\<forall>a. next_addr s \<le> a \<longrightarrow> heap s a = None)"

lemma str_okE:
  assumes "str_ok ob"
  obtains (Sds) bs n where "sdsEncodedObject ob" "ptr ob = SdsPtr bs n" "str_bytes L ob = bs"
    "encoding ob \<noteq> OBJ_ENCODING_INT"
  | (Int) v where "\<not> sdsEncodedObject ob" "encoding ob = OBJ_ENCODING_INT" "ptr ob = LongPtr v" "in_ll v"
    "str_bytes L ob = ll2string L v"
  using assms by (auto simp: str_ok_def str_bytes_def sdsEncodedObject_def obj_encoding_defs)

lemma str_ok_type: "str_ok ob \<Longrightarrow> otype ob = OBJ_STRING"
  by (simp add: str_ok_def)

lemma string_chars_ok: "str_ok ob \<Longrightarrow> string_chars L ob = Inr (str_bytes L ob)"
  by (erule str_okE [where L = L]) (auto simp: string_chars_def sds_of_def long_of_def)

lemma obj_at_Some [simp]: "heap s a = Some ob \<Longrightarrow> obj_at s a = Inr ob"
  by (simp add: obj_at_def)

lemma obj_at_eq_Inr: "obj_at s a = Inr ob \<longleftrightarrow> heap s a = Some ob"
  by (simp add: obj_at_def split: option.splits)

lemma heap_simps [simp]:
  "heap (set_obj a ob s) = (heap s)(a \<mapsto> ob)" "heap (free_obj a s) = (heap s)(a := None)"
  "heap (emit e s) = heap s"
  by (simp_all add: set_obj_def free_obj_def emit_def)

text \<open>The fields the object operations leave alone.\<close>

lemma frame_simps [simp]:
  "maxmemory (set_obj a ob s) = maxmemory s" "maxmemory_policy (set_obj a ob s) = maxmemory_policy s"
  "shared_integers (set_obj a ob s) = shared_integers s" "next_addr (set_obj a ob s) = next_addr s"
  "fresh_mem (set_obj a ob s) = fresh_mem s" "dbs (set_obj a ob s) = dbs s"
  "maxmemory (free_obj a s) = maxmemory s" "maxmemory_policy (free_obj a s) = maxmemory_policy s"
  "shared_integers (free_obj a s) = shared_integers s" "next_addr (free_obj a s) = next_addr s"
  "fresh_mem (free_obj a s) = fresh_mem s" "dbs (free_obj a s) = dbs s"
  "maxmemory (emit e s) = maxmemory s" "maxmemory_policy (emit e s) = maxmemory_policy s"
  "shared_integers (emit e s) = shared_integers s" "next_addr (emit e s) = next_addr s"
  "fresh_mem (emit e s) = fresh_mem s" "dbs (emit e s) = dbs s"
  by (simp_all add: set_obj_def free_obj_def emit_def)

lemma createEmbedded_heap:
  "createEmbeddedStringObject bs s = (a, s') \<Longrightarrow>
     a = next_addr s \<and> heap s' = (heap s)(a \<mapsto> \<lparr>otype = OBJ_STRING, encoding = OBJ_ENCODING_EMBSTR,
        lru = 0, refcount = 1, ptr = SdsPtr bs 0, access_times = fst (fresh_mem s a),
        num_accesses = snd (fresh_mem s a)\<rparr>)
     \<and> dbs s' = dbs s"
  by (auto simp: createEmbeddedStringObject_def alloc_obj_def)

lemma createObject_heap:
  "createObject t p s = (a, s') \<Longrightarrow>
     a = next_addr s \<and> heap s' = (heap s)(a \<mapsto> \<lparr>otype = t, encoding = OBJ_ENCODING_RAW,
        lru = 0, refcount = 1, ptr = p, access_times = (fst (fresh_mem s a))[0 := 0], num_accesses = 0\<rparr>)
     \<and> dbs s' = dbs s"
  by (auto simp: createObject_def alloc_obj_def)

lemma createStringObject_heap:
  assumes "createStringObject bs s = (a, s')"
  shows "a = next_addr s \<and> (\<exists>ob. heap s' = (heap s)(a \<mapsto> ob) \<and> str_ok ob \<and> sdsEncodedObject ob
           \<and> ptr ob = SdsPtr bs 0 \<and> refcount ob = 1)"
  using assms createEmbedded_heap [of bs s a s'] createObject_heap [of OBJ_STRING "SdsPtr bs 0" s a s']
  by (auto simp: createStringObject_def createRawStringObject_def str_ok_def sdsEncodedObject_def split: if_splits)

lemma createFromLL_heap:
  assumes "createStringObjectFromLongLongWithOptions L v flag s = (a, s')" "in_ll v" "shared_ok s"
  shows "\<exists>ob. heap s' a = Some ob \<and> str_ok ob \<and> str_bytes L ob = ll2string L v
           \<and> (a = next_addr s \<or> s' = s) \<and> (\<forall>c. c \<noteq> next_addr s \<longrightarrow> heap s' c = heap s c)
           \<and> (flag \<noteq> LL2STROBJ_AUTO \<longrightarrow> refcount ob = 1)"
proof (cases "0 \<le> v \<and> v < OBJ_SHARED_INTEGERS \<and> flag = LL2STROBJ_AUTO")
  case True
  with assms show ?thesis
    by (auto simp: createStringObjectFromLongLongWithOptions_def shared_ok_def str_bytes_def)
next
  case nshared: False
  show ?thesis
  proof (cases "LONG_MIN \<le> v \<and> v \<le> LONG_MAX \<and> flag \<noteq> LL2STROBJ_NO_INT_ENC")
    case True
    obtain b t where c: "createObject OBJ_STRING (LongPtr v) s = (b, t)" by (cases "createObject OBJ_STRING (LongPtr v) s")
    with assms(1) nshared True have "a = b" "s' = set_obj b ((the (heap t b))\<lparr>encoding := OBJ_ENCODING_INT\<rparr>) t"
      using createObject_heap [OF c]
      by (auto simp: createStringObjectFromLongLongWithOptions_def with_encoding_def)
    with createObject_heap [OF c] assms(2) show ?thesis
      by (auto simp: str_ok_def str_bytes_def)
  next
    case False
    with assms(1) nshared have c: "createStringObject (ll2string L v) s = (a, s')"
      by (auto simp: createStringObjectFromLongLongWithOptions_def)
    then show ?thesis using createStringObject_heap [OF c] by (auto simp: str_bytes_def)
  qed
qed

subsection \<open>Reference counts balance\<close>

text \<open>
  taking and dropping a reference leaves every object as it was, for counted and for shared
  objects.
\<close>

theorem refcount_balanced:
  assumes "heap s a = Some ob"
    and "0 < refcount ob \<and> refcount ob < OBJ_FIRST_SPECIAL_REFCOUNT \<or> refcount ob = OBJ_SHARED_REFCOUNT"
  shows "\<exists>s1 s2. incrRefCount a s = Inr s1 \<and> decrRefCount a s1 = Inr s2 \<and> heap s2 = heap s
               \<and> events s2 = events s \<and> dbs s2 = dbs s"
  using assms
  by (auto simp: incrRefCount_def decrRefCount_def refcount_defs fun_eq_iff set_obj_def)

theorem refcount_balanced_witness:
  "\<exists>s1 s2. incrRefCount 0 (init_server\<lparr>heap := [0 \<mapsto> sample_obj 7]\<rparr>) = Inr s1
     \<and> decrRefCount 0 s1 = Inr s2 \<and> heap s2 = [0 \<mapsto> sample_obj 7]"
proof -
  have "\<exists>s1 s2. incrRefCount 0 (init_server\<lparr>heap := [0 \<mapsto> sample_obj 7]\<rparr>) = Inr s1
     \<and> decrRefCount 0 s1 = Inr s2 \<and> heap s2 = heap (init_server\<lparr>heap := [0 \<mapsto> sample_obj 7]\<rparr>)
     \<and> events s2 = events (init_server\<lparr>heap := [0 \<mapsto> sample_obj 7]\<rparr>)
     \<and> dbs s2 = dbs (init_server\<lparr>heap := [0 \<mapsto> sample_obj 7]\<rparr>)"
    by (rule refcount_balanced [where ob = "sample_obj 7"]) (simp_all add: sample_obj_def refcount_defs)
  then show ?thesis by auto
qed

lemma decr_last_string:
  assumes "heap s a = Some ob" "str_ok ob" "refcount ob = 1"
  shows "\<exists>s'. decrRefCount a s = Inr s' \<and> heap s' = (heap s)(a := None)
          \<and> maxmemory s' = maxmemory s \<and> maxmemory_policy s' = maxmemory_policy s
          \<and> shared_integers s' = shared_integers s \<and> next_addr s' = next_addr s"
  using assms by (simp add: decrRefCount_def free_by_type_def freeStringObject_def str_ok_def)

subsection \<open>Encoding keeps the string\<close>

lemma trim_cases:
  assumes "heap s a = Some ob" "str_ok ob"
  shows "trimStringObjectIfNeeded a t s = Inr s
         \<or> (\<exists>bs n. ptr ob = SdsPtr bs n \<and> trimStringObjectIfNeeded a t s = Inr (set_obj a (ob\<lparr>ptr := SdsPtr bs 0\<rparr>) s))"
proof (cases "encoding ob = OBJ_ENCODING_RAW")
  case True
  then obtain bs n where "ptr ob = SdsPtr bs n"
    using assms(2) by (auto elim: str_okE simp: obj_encoding_defs)
  with assms show ?thesis by (simp add: trimStringObjectIfNeeded_def Let_def)
qed (use assms in \<open>simp add: trimStringObjectIfNeeded_def\<close>)

lemma trim_keeps:
  assumes "heap s a = Some ob" "str_ok ob"
  shows "\<exists>s' ob'. trimStringObjectIfNeeded a t s = Inr s' \<and> heap s' = (heap s)(a \<mapsto> ob') \<and> str_ok ob'
           \<and> str_bytes L ob' = str_bytes L ob \<and> refcount ob' = refcount ob"
  using trim_cases [OF assms, of t]
proof (elim disjE exE conjE)
  assume "trimStringObjectIfNeeded a t s = Inr s"
  then show ?thesis using assms by (intro exI [of _ s] exI [of _ ob]) (simp add: fun_upd_idem)
next
  fix bs n
  assume "ptr ob = SdsPtr bs n" "trimStringObjectIfNeeded a t s = Inr (set_obj a (ob\<lparr>ptr := SdsPtr bs 0\<rparr>) s)"
  then show ?thesis using assms(2)
    by (intro exI [of _ "set_obj a (ob\<lparr>ptr := SdsPtr bs 0\<rparr>) s"] exI [of _ "ob\<lparr>ptr := SdsPtr bs 0\<rparr>"])
      (auto simp: str_ok_def str_bytes_def sdsEncodedObject_def)
qed

definition same_string ::
  "strlib \<Rightarrow> server \<Rightarrow> nat \<Rightarrow> robj \<Rightarrow> server \<Rightarrow> nat \<Rightarrow> robj \<Rightarrow> bool" where
  "same_string L s a ob s' b ob' =
     (heap s' b = Some ob' \<and> str_ok ob' \<and> str_bytes L ob' = str_bytes L ob
      \<and> (\<forall>c. c \<noteq> a \<and> c \<noteq> b \<longrightarrow> heap s' c = heap s c)
      \<and> (b = a \<longrightarrow> refcount ob' = refcount ob)
      \<and> (b \<noteq> a \<longrightarrow> heap s' a = None \<and> (heap s b = None \<or> heap s' b = heap s b)))"

lemma encode_small_keeps:
  assumes "heap s a = Some ob" "str_ok ob" "refcount ob = 1" "ptr ob = SdsPtr bs n" "fresh_ok s"
    "sdsEncodedObject ob"
  shows "\<exists>b s' ob'. encode_small a t ob bs s = Inr (b, s') \<and> same_string L s a ob s' b ob' \<and> refcount ob' = 1"
proof -
  have fr: "heap s (next_addr s) = None" using assms(5) by (simp add: fresh_ok_def)
  then have na: "a \<noteq> next_addr s" using assms(1) by auto
  show ?thesis
  proof (cases "length bs \<le> OBJ_ENCODING_EMBSTR_SIZE_LIMIT \<and> encoding ob \<noteq> OBJ_ENCODING_EMBSTR")
    case True
    obtain e t where c: "createEmbeddedStringObject bs s = (e, t)" by (cases "createEmbeddedStringObject bs s")
    note h = createEmbedded_heap [OF c]
    then have "heap t a = Some ob" using assms(1) na by simp
    from decr_last_string [OF this assms(2,3)] obtain s' where
      "decrRefCount a t = Inr s'" "heap s' = (heap t)(a := None)" by blast
    with True c h na fr assms(4) show ?thesis
      by (auto simp: encode_small_def same_string_def str_ok_def sdsEncodedObject_def str_bytes_def)
  next
    case False
    then show ?thesis
      using assms trim_keeps [OF assms(1,2), of False L]
      by (cases "length bs \<le> OBJ_ENCODING_EMBSTR_SIZE_LIMIT"; cases t)
        (auto simp: encode_small_def same_string_def)
  qed
qed

context strlib_spec begin

lemma encode_keeps:
  assumes ob: "heap s a = Some ob" "str_ok ob" and st: "shared_ok s" "fresh_ok s"
  shows "\<exists>b s' ob'. tryObjectEncodingEx L a t s = Inr (b, s') \<and> same_string L s a ob s' b ob'
           \<and> (1 < refcount ob \<longrightarrow> b = a \<and> s' = s)
           \<and> (refcount ob = 1 \<and> maxmemory s \<noteq> 0
              \<and> flag_set (maxmemory_policy s) MAXMEMORY_FLAG_NO_SHARED_INTEGERS \<longrightarrow> refcount ob' = 1)"
proof -
  have id: "same_string L s a ob s a ob" using ob by (simp add: same_string_def)
  from ob(2) show ?thesis
  proof (cases rule: str_okE [where L = L])
    case (Int v)
    with ob id show ?thesis by (auto simp: tryObjectEncodingEx_def str_ok_def)
  next
    case (Sds bs n)
    show ?thesis
    proof (cases "1 < refcount ob")
      case True
      with ob id Sds show ?thesis by (auto simp: tryObjectEncodingEx_def str_ok_def)
    next
      case False
      then have rc: "refcount ob = 1" using ob(2) by (simp add: str_ok_def)
      have start: "tryObjectEncodingEx L a t s =
          (case (if length bs \<le> 20 then string2ll L bs else None) of
             Some value \<Rightarrow>
               if (maxmemory s = 0 \<or> \<not> flag_set (maxmemory_policy s) MAXMEMORY_FLAG_NO_SHARED_INTEGERS)
                  \<and> 0 \<le> value \<and> value < OBJ_SHARED_INTEGERS
               then cbind (decrRefCount a s) (\<lambda>s'. Inr (shared_integers s value, s'))
               else if encoding ob = OBJ_ENCODING_RAW
               then Inr (a, set_obj a (ob\<lparr>encoding := OBJ_ENCODING_INT, ptr := LongPtr value\<rparr>) s)
               else if encoding ob = OBJ_ENCODING_EMBSTR
               then cbind (decrRefCount a s) (\<lambda>s'. Inr (createStringObjectFromLongLongForValue L value s'))
               else encode_small a t ob bs s
           | None \<Rightarrow> encode_small a t ob bs s)"
        using ob Sds(1,2) rc by (simp add: tryObjectEncodingEx_def str_ok_type sds_of_def)
      show ?thesis
      proof (cases "if length bs \<le> 20 then string2ll L bs else None")
        case None
        with encode_small_keeps [OF ob rc Sds(2) st(2) Sds(1), of t L] start rc show ?thesis by auto
      next
        case (Some v)
        then have v: "in_ll v" "bs = ll2string L v" using parse_only by (auto split: if_splits)
        obtain s1 where d: "decrRefCount a s = Inr s1" "heap s1 = (heap s)(a := None)"
            "maxmemory s1 = maxmemory s" "maxmemory_policy s1 = maxmemory_policy s"
            "shared_integers s1 = shared_integers s" "next_addr s1 = next_addr s"
          using decr_last_string [OF ob rc] by blast
        have na: "shared_integers s w \<noteq> a" if "0 \<le> w" "w < OBJ_SHARED_INTEGERS" for w
          using st(1) that ob(1) rc by (force simp: shared_ok_def refcount_defs)
        then have sh1: "shared_ok s1" using st(1) d by (simp add: shared_ok_def)
        show ?thesis
        proof (cases "(maxmemory s = 0 \<or> \<not> flag_set (maxmemory_policy s) MAXMEMORY_FLAG_NO_SHARED_INTEGERS)
                       \<and> 0 \<le> v \<and> v < OBJ_SHARED_INTEGERS")
          case True
          then have "\<exists>ob'. same_string L s a ob s1 (shared_integers s v) ob'"
            using st(1) na [of v] d(2) Sds(3) v(2) by (auto simp: shared_ok_def same_string_def str_bytes_def)
          with True Some d(1) start rc show ?thesis by auto
        next
          case ns: False
          show ?thesis
          proof (cases "encoding ob = OBJ_ENCODING_RAW")
            case True
            let ?ob = "ob\<lparr>encoding := OBJ_ENCODING_INT, ptr := LongPtr v\<rparr>"
            have "same_string L s a ob (set_obj a ?ob s) a ?ob"
              using ob(2) v Sds(3) by (auto simp: same_string_def str_ok_def str_bytes_def)
            moreover have "tryObjectEncodingEx L a t s = Inr (a, set_obj a ?ob s)"
              unfolding start Some using ns True by (simp only: option.case if_False if_True refl)
            ultimately show ?thesis using rc by (intro exI [of _ a] exI [of _ "set_obj a ?ob s"] exI [of _ ?ob]) simp
          next
            case False
            then have emb: "encoding ob = OBJ_ENCODING_EMBSTR" using Sds(1) by (simp add: sdsEncodedObject_def)
            obtain b s2 where c: "createStringObjectFromLongLongForValue L v s1 = (b, s2)"
              by (cases "createStringObjectFromLongLongForValue L v s1")
            then obtain flag where c': "createStringObjectFromLongLongWithOptions L v flag s1 = (b, s2)"
                and fl: "maxmemory s \<noteq> 0 \<and> flag_set (maxmemory_policy s) MAXMEMORY_FLAG_NO_SHARED_INTEGERS
                          \<Longrightarrow> flag \<noteq> LL2STROBJ_AUTO"
              using d(3,4) by (auto simp: createStringObjectFromLongLongForValue_def split: if_splits)
            obtain ob' where o: "heap s2 b = Some ob'" "str_ok ob'" "str_bytes L ob' = ll2string L v"
                "b = next_addr s1 \<or> s2 = s1" "\<forall>c. c \<noteq> next_addr s1 \<longrightarrow> heap s2 c = heap s1 c"
                "flag \<noteq> LL2STROBJ_AUTO \<longrightarrow> refcount ob' = 1"
              using createFromLL_heap [OF c' v(1) sh1] by blast
            moreover have "heap s (next_addr s) = None" "next_addr s \<noteq> a"
              using st(2) ob(1) by (auto simp: fresh_ok_def)
            ultimately have "same_string L s a ob s2 b ob'"
              using d(2,6) Sds(3) v(2) by (auto simp: same_string_def)
            moreover have "tryObjectEncodingEx L a t s = Inr (b, s2)"
              unfolding start Some using emb d(1) c by (simp only: option.case if_not_P [OF ns]) (simp add: obj_encoding_defs)
            ultimately show ?thesis using o(6) fl rc by auto
          qed
        qed
      qed
    qed
  qed
qed

lemma decoded_keeps:
  assumes ob: "heap s a = Some ob" "str_ok ob" and "refcount ob \<noteq> OBJ_STATIC_REFCOUNT" "fresh_ok s"
  shows "\<exists>b s' ob'. getDecodedObject L a s = Inr (b, s') \<and> heap s' b = Some ob' \<and> sdsEncodedObject ob'
           \<and> str_bytes L ob' = str_bytes L ob \<and> (\<forall>c. c \<noteq> b \<longrightarrow> heap s' c = heap s c)"
  using ob(2)
proof (cases rule: str_okE [where L = L])
  case (Sds bs n)
  then show ?thesis using ob assms(3)
    by (auto simp: getDecodedObject_def incrRefCount_def str_bytes_def sdsEncodedObject_def)
next
  case (Int v)
  obtain b s' where c: "createStringObject (ll2string L v) s = (b, s')"
    by (cases "createStringObject (ll2string L v) s")
  with createStringObject_heap [OF c] Int ob show ?thesis
    by (auto simp: getDecodedObject_def long_of_def str_ok_def str_bytes_def)
qed

lemma memcmp_take: "memcmp (take (min (length a) (length b)) a) (take (min (length a) (length b)) b) = memcmp a b"
  by (induction a b rule: memcmp.induct) auto

lemma compare_bytes:
  assumes "heap s a = Some oa" "heap s b = Some ob" "str_ok oa" "str_ok ob"
    and "length (str_bytes L oa) < 2 ^ 31" "length (str_bytes L ob) < 2 ^ 31"
  shows "compareStringObjects L coll a b s = Inr (cmp_bytes (str_bytes L oa) (str_bytes L ob))"
proof (cases "a = b")
  case True
  with assms show ?thesis
    using cmp_bytes_eq [of "str_bytes L oa" "str_bytes L oa"]
    by (simp add: compareStringObjects_def compareStringObjectsWithFlags_def str_ok_type)
next
  case False
  with assms show ?thesis
    by (simp add: compareStringObjects_def compareStringObjectsWithFlags_def str_ok_type string_chars_ok
        Let_def memcmp_take int_of_size_diff_small cmp_bytes_def)
qed

lemma equal_bytes:
  assumes "heap s a = Some oa" "heap s b = Some ob" "str_ok oa" "str_ok ob"
    and "length (str_bytes L oa) < 2 ^ 31" "length (str_bytes L ob) < 2 ^ 31"
  shows "equalStringObjects L coll a b s = Inr (str_bytes L oa = str_bytes L ob)"
proof (cases "encoding oa = OBJ_ENCODING_INT \<and> encoding ob = OBJ_ENCODING_INT")
  case True
  then obtain v w where "ptr oa = LongPtr v" "in_ll v" "ptr ob = LongPtr w" "in_ll w"
      "str_bytes L oa = ll2string L v" "str_bytes L ob = ll2string L w"
    using assms(3,4) by (auto elim!: str_okE [where L = L])
  with True assms(1,2) show ?thesis by (simp add: equalStringObjects_def print_inj)
next
  case False
  then show ?thesis
    using assms compare_bytes [OF assms, of coll] cmp_bytes_eq
    by (auto simp: equalStringObjects_def)
qed

lemma longlong_roundtrip:
  assumes "createStringObjectFromLongLongWithOptions L v flag s = (a, s')" "in_ll v" "shared_ok s"
  shows "getLongLongFromObject L (Some a) s' = Inr (Some v)"
proof -
  obtain ob where o: "heap s' a = Some ob" "str_ok ob" "str_bytes L ob = ll2string L v"
    using createFromLL_heap [OF assms] by blast
  from o(2) show ?thesis
  proof (cases rule: str_okE [where L = L])
    case (Sds bs n)
    with o assms(2) show ?thesis
      by (simp add: getLongLongFromObject_def str_ok_type sds_of_def parse_print)
  next
    case (Int w)
    with o assms(2) have "w = v" using print_inj [of w v] by simp
    with Int o show ?thesis by (simp add: getLongLongFromObject_def str_ok_type long_of_def)
  qed
qed

end

text \<open>
  C40: encoding a string value for space never changes the string it stands for, whatever encoding it
  had, nor any other object; an object with other holders is returned as it is and nothing changes; an
  object with one holder is either kept, with its reference count, or freed and replaced by an object
  allocated for the purpose or by a shared integer, which is left as it was; and when a policy keeps
  per-key access data, a value that was not shared gets an object of its own, never a shared integer.
\<close>

theorem tryObjectEncoding_preserves:
  assumes "strlib_spec L" "heap s a = Some ob" "str_ok ob" "shared_ok s" "fresh_ok s"
  shows "\<exists>b s' ob'. tryObjectEncodingEx L a t s = Inr (b, s') \<and> heap s' b = Some ob' \<and> str_ok ob'
           \<and> str_bytes L ob' = str_bytes L ob \<and> (\<forall>c. c \<noteq> a \<and> c \<noteq> b \<longrightarrow> heap s' c = heap s c)
           \<and> (1 < refcount ob \<longrightarrow> b = a \<and> s' = s)
           \<and> (b = a \<longrightarrow> refcount ob' = refcount ob)
           \<and> (b \<noteq> a \<longrightarrow> refcount ob = 1 \<and> heap s' a = None \<and> (heap s b = None \<or> heap s' b = heap s b))
           \<and> (refcount ob = 1 \<and> maxmemory s \<noteq> 0
              \<and> flag_set (maxmemory_policy s) MAXMEMORY_FLAG_NO_SHARED_INTEGERS \<longrightarrow> refcount ob' = 1)"
proof -
  obtain b s' ob' where e: "tryObjectEncodingEx L a t s = Inr (b, s')" "same_string L s a ob s' b ob'"
      "1 < refcount ob \<longrightarrow> b = a \<and> s' = s"
      "refcount ob = 1 \<and> maxmemory s \<noteq> 0
         \<and> flag_set (maxmemory_policy s) MAXMEMORY_FLAG_NO_SHARED_INTEGERS \<longrightarrow> refcount ob' = 1"
    using strlib_spec.encode_keeps [OF assms] by blast
  moreover have "1 \<le> refcount ob" using assms(3) by (simp add: str_ok_def)
  ultimately show ?thesis
    unfolding same_string_def by (intro exI [of _ b] exI [of _ s'] exI [of _ ob']) auto
qed

text \<open>A heap with the shared integers at 0 to 9999 and two strings after them.\<close>

definition shared_obj :: "int \<Rightarrow> robj" where
  "shared_obj v = (sample_obj 0)\<lparr>encoding := OBJ_ENCODING_INT, ptr := LongPtr v, refcount := OBJ_SHARED_REFCOUNT\<rparr>"

definition string_server :: "payload \<Rightarrow> server" where
  "string_server p = init_server\<lparr>next_addr := 10002,
     heap := (\<lambda>a. if a < 10000 then Some (shared_obj (int a))
                  else if a = 10000 then Some ((sample_obj 0)\<lparr>encoding := OBJ_ENCODING_RAW, ptr := p\<rparr>)
                  else if a = 10001 then Some ((sample_obj 0)\<lparr>encoding := OBJ_ENCODING_INT, ptr := LongPtr 42\<rparr>)
                  else None)\<rparr>"

lemma string_server_ok: "shared_ok (string_server p)" "fresh_ok (string_server p)"
  by (auto simp: shared_ok_def string_server_def init_server_def shared_obj_def sample_obj_def str_ok_def
      fresh_ok_def in_ll_def int_limits OBJ_SHARED_INTEGERS_def refcount_defs nat_less_iff)

lemma string_server_objs:
  "heap (string_server p) 10000 = Some ((sample_obj 0)\<lparr>encoding := OBJ_ENCODING_RAW, ptr := p\<rparr>)"
  "heap (string_server p) 10001 = Some ((sample_obj 0)\<lparr>encoding := OBJ_ENCODING_INT, ptr := LongPtr 42\<rparr>)"
  "str_ok ((sample_obj 0)\<lparr>encoding := OBJ_ENCODING_RAW, ptr := SdsPtr bs n\<rparr>)"
  "str_ok ((sample_obj 0)\<lparr>encoding := OBJ_ENCODING_INT, ptr := LongPtr 42\<rparr>)"
  by (auto simp: string_server_def str_ok_def sample_obj_def sdsEncodedObject_def in_ll_def int_limits)

theorem tryObjectEncoding_preserves_witness:
  "\<exists>b s' ob'. tryObjectEncodingEx decimal_lib 10000 True (string_server (SdsPtr [52, 50] 0)) = Inr (b, s')
     \<and> heap s' b = Some ob' \<and> str_bytes decimal_lib ob' = [52, 50]
     \<and> (b \<noteq> 10000 \<longrightarrow> heap s' 10000 = None)"
proof -
  let ?ob = "(sample_obj 0)\<lparr>encoding := OBJ_ENCODING_RAW, ptr := SdsPtr [52, 50] 0\<rparr>"
  have "str_bytes decimal_lib ?ob = [52, 50]" by (simp add: str_bytes_def)
  moreover obtain b s' ob' where
      "tryObjectEncodingEx decimal_lib 10000 True (string_server (SdsPtr [52, 50] 0)) = Inr (b, s')"
      "heap s' b = Some ob'" "str_bytes decimal_lib ob' = str_bytes decimal_lib ?ob"
      "b \<noteq> 10000 \<longrightarrow> refcount ?ob = 1 \<and> heap s' 10000 = None
         \<and> (heap (string_server (SdsPtr [52, 50] 0)) b = None
            \<or> heap s' b = heap (string_server (SdsPtr [52, 50] 0)) b)"
    using tryObjectEncoding_preserves [OF decimal.strlib_spec_axioms string_server_objs(1,3) string_server_ok,
        of True "[52, 50]" 0]
    by (elim exE conjE) (rule that)
  ultimately show ?thesis by auto
qed

text \<open>
  C39: two string objects compare as their strings do, byte by byte, whatever their encodings, and
  \<open>equalStringObjects\<close> is equality of the strings, as long as both are shorter than $2^{31}$ bytes
  (the difference of the lengths is returned as an \<open>int\<close>).
\<close>

theorem compareStringObjects_correct:
  assumes "strlib_spec L" "heap s a = Some oa" "heap s b = Some ob" "str_ok oa" "str_ok ob"
    and "length (str_bytes L oa) < 2 ^ 31" "length (str_bytes L ob) < 2 ^ 31"
  shows "\<exists>c. compareStringObjects L coll a b s = Inr c
           \<and> (c = 0 \<longleftrightarrow> str_bytes L oa = str_bytes L ob)
           \<and> (c < 0 \<longleftrightarrow> bytes_less (str_bytes L oa) (str_bytes L ob))
           \<and> equalStringObjects L coll a b s = Inr (str_bytes L oa = str_bytes L ob)"
  using strlib_spec.compare_bytes [OF assms] strlib_spec.equal_bytes [OF assms] cmp_bytes_eq cmp_bytes_less
  by blast

lemma dec_print_42: "dec_print 42 = [52, 50]"
  by (simp add: dec_print_def digits10.simps)

theorem compareStringObjects_correct_witness:
  "equalStringObjects decimal_lib (\<lambda>_ _. 0) 10000 10001 (string_server (SdsPtr [52, 50] 3)) = Inr True"
proof -
  have "str_bytes decimal_lib ((sample_obj 0)\<lparr>encoding := OBJ_ENCODING_INT, ptr := LongPtr 42\<rparr>) = [52, 50]"
    "str_bytes decimal_lib ((sample_obj 0)\<lparr>encoding := OBJ_ENCODING_RAW, ptr := SdsPtr [52, 50] 3\<rparr>) = [52, 50]"
    by (simp_all add: str_bytes_def decimal_lib_def dec_print_42)
  then show ?thesis
    using compareStringObjects_correct [OF decimal.strlib_spec_axioms string_server_objs(1,2)
        string_server_objs(3) [of "[52, 50]" 3] string_server_objs(4), where coll = "\<lambda>_ _. 0"]
    by simp
qed

text \<open>
  C39: a string object created from a \<open>long long\<close>, shared, INT encoded or printed, reads back as that
  number.
\<close>

theorem longlong_object_roundtrip:
  assumes "strlib_spec L" "in_ll v" "shared_ok s"
  shows "\<exists>a s'. createStringObjectFromLongLongWithOptions L v flag s = (a, s')
           \<and> getLongLongFromObject L (Some a) s' = Inr (Some v)"
  using strlib_spec.longlong_roundtrip [OF assms(1) _ assms(2,3)]
  by (cases "createStringObjectFromLongLongWithOptions L v flag s") blast

theorem longlong_object_roundtrip_witness:
  "\<exists>a s'. createStringObjectFromLongLongWithOptions decimal_lib (- 7) LL2STROBJ_NO_INT_ENC
             (string_server NullPtr) = (a, s')
     \<and> getLongLongFromObject decimal_lib (Some a) s' = Inr (Some (- 7))"
  by (rule longlong_object_roundtrip [OF decimal.strlib_spec_axioms _ string_server_ok(1)])
    (simp add: in_ll_def int_limits)

subsection \<open>Short strings and the access history\<close>

lemma count_window_fault: "count_window wb age js counts = Inl e \<Longrightarrow> e = OutOfBounds"
proof (induction js)
  case (Cons j js)
  then show ?case
    by (auto simp: count_window.simps arr_get_def arr_set_def split: if_splits)
qed (simp add: count_window.simps)

lemma count_accesses_past:
  assumes "\<exists>i \<in> set is. length (access_times ob) \<le> i"
  shows "count_accesses now wb ob is counts = Inl OutOfBounds"
  using assms
proof (induction "is" arbitrary: counts)
  case (Cons i "is")
  show ?case
  proof (cases "length (access_times ob) \<le> i")
    case False
    with Cons.prems have "\<exists>i \<in> set is. length (access_times ob) \<le> i" by auto
    with Cons.IH False show ?thesis
      by (cases "count_window wb (now - access_times ob ! i) [1..<NUM_WINDOWS + 1] counts")
        (auto simp: arr_simps simp del: upt_Suc One_nat_def dest: count_window_fault)
  qed (simp add: arr_simps)
qed simp

lemma num_accesses_Suc: "unat (n :: u8) < 255 \<Longrightarrow> unat (n + 1) = Suc (unat n)"
  by (rule unat_small_Suc)

text \<open>
  a string of at most 44 bytes is created without its access counter being set: under the
  histogram policy, if the allocated memory happened to hold a counter between 5 and 254, putting the
  object into the keyspace keeps it and scoring the object reads past its access history.
\<close>

theorem short_string_scoring_faults:
  assumes "length bs \<le> 44" "length (fst (fresh_mem s (next_addr s))) = 4"
    and "4 < unat (snd (fresh_mem s (next_addr s)))" "unat (snd (fresh_mem s (next_addr s))) < 255"
    and "flag_set (maxmemory_policy s) MAXMEMORY_FLAG_LRU_HISTOGRAM"
    and "\<not> flag_set (maxmemory_policy s) MAXMEMORY_FLAG_LFU"
  shows "\<exists>a s' ob ob'. createStringObject bs s = (a, s') \<and> heap s' a = Some ob
           \<and> initObjectLRUOrLFU s' ob = Inr ob' \<and> estimateObjectEvictionScore s' ob' wb = Inl OutOfBounds"
proof -
  obtain a s' where c: "createStringObject bs s = (a, s')" by (cases "createStringObject bs s")
  then have e: "createEmbeddedStringObject bs s = (a, s')" and p: "maxmemory_policy s' = maxmemory_policy s"
    using assms(1) by (auto simp: createStringObject_def OBJ_ENCODING_EMBSTR_SIZE_LIMIT_def
        createEmbeddedStringObject_def alloc_obj_def)
  define ob where "ob = the (heap s' a)"
  have h: "heap s' a = Some ob" "refcount ob = 1" "num_accesses ob = snd (fresh_mem s (next_addr s))"
      "access_times ob = fst (fresh_mem s (next_addr s))"
    using createEmbedded_heap [OF e] by (auto simp: ob_def)
  let ?ob = "ob\<lparr>lru := ucast (ucast (LRU_CLOCK s') :: u64)\<rparr>"
  have "robj_wf ?ob" "4 < unat (num_accesses ?ob)"
    using assms(2,3) h by (simp_all add: robj_wf_def HISTORY_SIZE_def)
  then obtain ob' where i: "initOrUpdateObjectt ?ob (ucast (LRU_CLOCK s')) = Inr ob'"
      "num_accesses ob' = num_accesses ?ob + 1" "length (access_times ob') = 4"
    using initOrUpdate_over_count by blast
  then have "unat (num_accesses ob') = Suc (unat (num_accesses ob))"
    using num_accesses_Suc [of "num_accesses ob"] assms(4) h(3) by simp
  then have "\<exists>j \<in> set [0..<unat (num_accesses ob')]. length (access_times ob') \<le> j"
    using assms(3) h(3) i(3) by (intro bexI [of _ 4]) auto
  then have "estimateObjectEvictionScore s' ob' wb = Inl OutOfBounds"
    by (simp add: estimateObjectEvictionScore_def count_accesses_past)
  moreover have "initObjectLRUOrLFU s' ob = Inr ob'"
    using i(1) assms(5,6) p h(2) by (simp add: initObjectLRUOrLFU_def OBJ_SHARED_REFCOUNT_def Let_def)
  ultimately show ?thesis using c h(1) by blast
qed

theorem short_string_scoring_faults_witness:
  "\<exists>a s' ob ob'. createStringObject [1, 2] ((server_at 9)\<lparr>fresh_mem := (\<lambda>_. ([0, 0, 0, 0], 77))\<rparr>) = (a, s')
     \<and> heap s' a = Some ob \<and> initObjectLRUOrLFU s' ob = Inr ob'
     \<and> estimateObjectEvictionScore s' ob' (replicate 5 (Fin 0)) = Inl OutOfBounds"
  by (rule short_string_scoring_faults) (simp_all add: server_at_def policy_defs)
end
