(* ===== verification/Keyspace.thy ===== *)
theory Keyspace
  imports Objects
begin

section \<open>The keyspace: lookup, add, overwrite, delete, expire (db.c)\<close>

text \<open>
  A database is an element of \<open>dbs\<close>, named by its index; a key is its bytes (the key objects the
  code passes around carry nothing else). Values are addresses of objects in the store. The clock of
  the command, \<open>commandTimeSnapshot()\<close>, is \<open>mstime\<close>. Replies, notifications, module callbacks and
  the work handed to the lazy-free thread are recorded as events in the order of the calls;
  \<open>freeObjAsync\<close> takes over the database's reference, so the store keeps the object.
\<close>

subsection \<open>Constants\<close>

definition DB_FLAG_KEY_NONE :: int where "DB_FLAG_KEY_NONE = 0"
definition DB_FLAG_KEY_DELETED :: int where "DB_FLAG_KEY_DELETED = 1"
definition DB_FLAG_KEY_EXPIRED :: int where "DB_FLAG_KEY_EXPIRED = 2"
definition DB_FLAG_KEY_EVICTED :: int where "DB_FLAG_KEY_EVICTED = 4"
definition DB_FLAG_KEY_OVERWRITE :: int where "DB_FLAG_KEY_OVERWRITE = 8"

definition NOTIFY_GENERIC :: int where "NOTIFY_GENERIC = 4"
definition NOTIFY_EXPIRED :: int where "NOTIFY_EXPIRED = 256"
definition NOTIFY_EVICTED :: int where "NOTIFY_EVICTED = 512"
definition NOTIFY_KEY_MISS :: int where "NOTIFY_KEY_MISS = 2048"
definition NOTIFY_NEW :: int where "NOTIFY_NEW = 16384"

definition LOOKUP_NONE :: int where "LOOKUP_NONE = 0"
definition LOOKUP_NOTOUCH :: int where "LOOKUP_NOTOUCH = 1"
definition LOOKUP_NONOTIFY :: int where "LOOKUP_NONOTIFY = 2"
definition LOOKUP_NOSTATS :: int where "LOOKUP_NOSTATS = 4"
definition LOOKUP_WRITE :: int where "LOOKUP_WRITE = 8"
definition LOOKUP_NOEXPIRE :: int where "LOOKUP_NOEXPIRE = 16"

definition EXPIRE_FORCE_DELETE_EXPIRED :: int where "EXPIRE_FORCE_DELETE_EXPIRED = 1"
definition EXPIRE_AVOID_DELETE_EXPIRED :: int where "EXPIRE_AVOID_DELETE_EXPIRED = 2"

definition SETKEY_KEEPTTL :: int where "SETKEY_KEEPTTL = 1"
definition SETKEY_NO_SIGNAL :: int where "SETKEY_NO_SIGNAL = 2"
definition SETKEY_ALREADY_EXIST :: int where "SETKEY_ALREADY_EXIST = 4"
definition SETKEY_DOESNT_EXIST :: int where "SETKEY_DOESNT_EXIST = 8"
definition SETKEY_ADD_OR_UPDATE :: int where "SETKEY_ADD_OR_UPDATE = 16"

lemmas db_flag_defs =
  DB_FLAG_KEY_NONE_def DB_FLAG_KEY_DELETED_def DB_FLAG_KEY_EXPIRED_def DB_FLAG_KEY_EVICTED_def
  DB_FLAG_KEY_OVERWRITE_def
lemmas lookup_flag_defs =
  LOOKUP_NONE_def LOOKUP_NOTOUCH_def LOOKUP_NONOTIFY_def LOOKUP_NOSTATS_def LOOKUP_WRITE_def
  LOOKUP_NOEXPIRE_def
lemmas expire_flag_defs = EXPIRE_FORCE_DELETE_EXPIRED_def EXPIRE_AVOID_DELETE_EXPIRED_def
lemmas setkey_flag_defs =
  SETKEY_KEEPTTL_def SETKEY_NO_SIGNAL_def SETKEY_ALREADY_EXIST_def SETKEY_DOESNT_EXIST_def
  SETKEY_ADD_OR_UPDATE_def

subsection \<open>Signals\<close>

definition get_db :: "server \<Rightarrow> nat \<Rightarrow> redisDb cres" where
  "get_db s i = arr_get (dbs s) i"

definition put_db :: "nat \<Rightarrow> redisDb \<Rightarrow> server \<Rightarrow> server" where
  "put_db i db s = s\<lparr>dbs := (dbs s)[i := db]\<rparr>"

definition signalModifiedKey :: "redisDb \<Rightarrow> sds \<Rightarrow> server \<Rightarrow> server" where
  "signalModifiedKey db k s = emit (TrackingInvalidateKey k) (emit (TouchWatchedKey (db_id db) k) s)"

text \<open>\<open>replication_allowed\<close> is set around the call and restored: the deletion is always propagated.\<close>

definition propagateDeletion :: "redisDb \<Rightarrow> sds \<Rightarrow> bool \<Rightarrow> server \<Rightarrow> server" where
  "propagateDeletion db k lazy s =
     emit (AlsoPropagate (db_id db) (if lazy then ''UNLINK'' else ''DEL'') k) s"

subsection \<open>Expires\<close>

definition removeExpire :: "nat \<Rightarrow> sds \<Rightarrow> server \<Rightarrow> (bool \<times> server) cres" where
  "removeExpire i k s =
     cbind (get_db s i) (\<lambda>db.
       Inr (dictFind (db_expires db) k \<noteq> None,
            put_db i (db\<lparr>db_expires := dictDelete (db_expires db) k\<rparr>) s))"

text \<open>\<open>c\<close>: the client setting the expire, \<open>Some m\<close> when there is one, \<open>m\<close> if it is the master.\<close>

definition setExpire :: "bool option \<Rightarrow> nat \<Rightarrow> sds \<Rightarrow> int \<Rightarrow> server \<Rightarrow> server cres" where
  "setExpire c i k when s =
     cbind (get_db s i) (\<lambda>db.
     cbind (cassert (dictFind (db_dict db) k \<noteq> None)) (\<lambda>_.
     let s' = put_db i (db\<lparr>db_expires := dictSet (db_expires db) k when\<rparr>) s;
         writable_slave = masterhost s \<and> \<not> repl_slave_ro s
     in Inr (if c = Some False \<and> writable_slave then emit (RememberSlaveKeyWithExpire (db_id db) k) s'
             else s')))"

definition getExpire :: "nat \<Rightarrow> sds \<Rightarrow> server \<Rightarrow> int cres" where
  "getExpire i k s =
     cbind (get_db s i) (\<lambda>db.
       if dictSize (db_expires db) = 0 then Inr (- 1)
       else (case dictFind (db_expires db) k of None \<Rightarrow> Inr (- 1) | Some when \<Rightarrow> Inr when))"

definition keyIsExpired :: "nat \<Rightarrow> sds \<Rightarrow> server \<Rightarrow> bool cres" where
  "keyIsExpired i k s =
     (if loading s then Inr False
      else cbind (getExpire i k s) (\<lambda>when.
        if when < 0 then Inr False else Inr (when < mstime s)))"

subsection \<open>Deleting\<close>

definition dbGenericDelete :: "nat \<Rightarrow> sds \<Rightarrow> bool \<Rightarrow> int \<Rightarrow> server \<Rightarrow> (bool \<times> server) cres" where
  "dbGenericDelete i k async flags s =
     cbind (get_db s i) (\<lambda>db.
       case dictFind (db_dict db) k of
         None \<Rightarrow> Inr (False, s)
       | Some val \<Rightarrow>
           cbind (incrRefCount val s) (\<lambda>s1.
           cbind (obj_at s1 val) (\<lambda>ob.
           let s2 = emit (SignalDeletedKeyAsReady (db_id db) k (otype ob))
                      (emit (ModuleNotifyKeyUnlink k val (db_id db) flags) s1) in
           cbind (decrRefCount val s2) (\<lambda>s3.
           let s4 = (if async then emit (FreeObjAsync val) s3 else s3);
               s5 = (if cluster_enabled s4 then emit (SlotToKeyDel (db_id db) k) s4 else s4);
               db' = db\<lparr>db_expires := (if 0 < dictSize (db_expires db) then dictDelete (db_expires db) k
                                          else db_expires db),
                        db_dict := dictDelete (db_dict db) k\<rparr>;
               s6 = put_db i db' s5
           in if async then Inr (True, s6)
              else cbind (decrRefCount val s6) (\<lambda>s7. Inr (True, s7))))))"

definition dbSyncDelete :: "nat \<Rightarrow> sds \<Rightarrow> server \<Rightarrow> (bool \<times> server) cres" where
  "dbSyncDelete i k s = dbGenericDelete i k False DB_FLAG_KEY_DELETED s"

definition dbAsyncDelete :: "nat \<Rightarrow> sds \<Rightarrow> server \<Rightarrow> (bool \<times> server) cres" where
  "dbAsyncDelete i k s = dbGenericDelete i k True DB_FLAG_KEY_DELETED s"

definition dbDelete :: "nat \<Rightarrow> sds \<Rightarrow> server \<Rightarrow> (bool \<times> server) cres" where
  "dbDelete i k s = dbGenericDelete i k (lazyfree_lazy_server_del s) DB_FLAG_KEY_DELETED s"

definition deleteExpiredKeyAndPropagate :: "nat \<Rightarrow> sds \<Rightarrow> server \<Rightarrow> server cres" where
  "deleteExpiredKeyAndPropagate i k s =
     cbind (get_db s i) (\<lambda>db.
     cbind (dbGenericDelete i k (lazyfree_lazy_expire s) DB_FLAG_KEY_EXPIRED s) (\<lambda>(_, s1).
     let s2 = emit (NotifyKeyspace NOTIFY_EXPIRED ''expired'' k (db_id db)) s1;
         s3 = signalModifiedKey db k s2;
         s4 = propagateDeletion db k (lazyfree_lazy_expire s) s3
     in Inr (s4\<lparr>stat_expiredkeys := stat_expiredkeys s4 + 1\<rparr>)))"

definition expireIfNeeded :: "nat \<Rightarrow> sds \<Rightarrow> int \<Rightarrow> server \<Rightarrow> (bool \<times> server) cres" where
  "expireIfNeeded i k flags s =
     (if lazy_expire_disabled s then Inr (False, s)
      else cbind (keyIsExpired i k s) (\<lambda>expired.
        if \<not> expired then Inr (False, s)
        else if masterhost s \<and> current_client s \<and> client_is_master s then Inr (False, s)
        else if masterhost s \<and> \<not> flag_set flags EXPIRE_FORCE_DELETE_EXPIRED then Inr (True, s)
        else if flag_set flags EXPIRE_AVOID_DELETE_EXPIRED then Inr (True, s)
        else if paused_expire s then Inr (True, s)
        else cbind (deleteExpiredKeyAndPropagate i k s) (\<lambda>s'. Inr (True, s'))))"

subsection \<open>Looking up\<close>

text \<open>\<open>rand\<close> is the value of \<open>rand()\<close> should the LFU counter be updated.\<close>

definition touch_value :: "int \<Rightarrow> nat \<Rightarrow> server \<Rightarrow> server cres" where
  "touch_value rand a s =
     cbind (obj_at s a) (\<lambda>ob.
       if flag_set (maxmemory_policy s) MAXMEMORY_FLAG_LFU then Inr (set_obj a (updateLFU s rand ob) s)
       else if flag_set (maxmemory_policy s) MAXMEMORY_FLAG_LRU_HISTOGRAM
       then cbind (updateLRUHistogram s ob) (\<lambda>ob'. Inr (set_obj a ob' s))
       else Inr (set_obj a (ob\<lparr>lru := ucast (LRU_CLOCK s)\<rparr>) s))"

definition lookupKey :: "int \<Rightarrow> nat \<Rightarrow> sds \<Rightarrow> int \<Rightarrow> server \<Rightarrow> (nat option \<times> server) cres" where
  "lookupKey rand i k flags s =
     cbind (get_db s i) (\<lambda>db.
     cbind (case dictFind (db_dict db) k of
              None \<Rightarrow> Inr (None, s)
            | Some val \<Rightarrow>
                let is_ro_replica = (masterhost s \<and> repl_slave_ro s);
                    f1 = (if flag_set flags LOOKUP_WRITE \<and> \<not> is_ro_replica
                          then EXPIRE_FORCE_DELETE_EXPIRED else 0);
                    f2 = (if flag_set flags LOOKUP_NOEXPIRE then f1 OR EXPIRE_AVOID_DELETE_EXPIRED else f1)
                in cbind (expireIfNeeded i k f2 s) (\<lambda>(expired, s').
                   Inr (if expired then None else Some val, s')))
       (\<lambda>(val, s1).
       case val of
         Some a \<Rightarrow>
           let notouch = (flag_set flags LOOKUP_NOTOUCH
                          \<or> current_client s1 \<and> client_no_touch s1 \<and> \<not> cmd_is_touch s1) in
           cbind (if \<not> active_child s1 \<and> \<not> notouch then touch_value rand a s1 else Inr s1) (\<lambda>s2.
           Inr (Some a, if flag_set flags LOOKUP_NOSTATS \<or> flag_set flags LOOKUP_WRITE then s2
                        else s2\<lparr>stat_keyspace_hits := stat_keyspace_hits s2 + 1\<rparr>))
       | None \<Rightarrow>
           let s2 = (if flag_set flags LOOKUP_NONOTIFY \<or> flag_set flags LOOKUP_WRITE then s1
                     else emit (NotifyKeyspace NOTIFY_KEY_MISS ''keymiss'' k (db_id db)) s1)
           in Inr (None, if flag_set flags LOOKUP_NOSTATS \<or> flag_set flags LOOKUP_WRITE then s2
                         else s2\<lparr>stat_keyspace_misses := stat_keyspace_misses s2 + 1\<rparr>)))"

definition lookupKeyReadWithFlags :: "int \<Rightarrow> nat \<Rightarrow> sds \<Rightarrow> int \<Rightarrow> server \<Rightarrow> (nat option \<times> server) cres" where
  "lookupKeyReadWithFlags rand i k flags s =
     cbind (cassert (\<not> flag_set flags LOOKUP_WRITE)) (\<lambda>_. lookupKey rand i k flags s)"

definition lookupKeyRead :: "int \<Rightarrow> nat \<Rightarrow> sds \<Rightarrow> server \<Rightarrow> (nat option \<times> server) cres" where
  "lookupKeyRead rand i k s = lookupKeyReadWithFlags rand i k LOOKUP_NONE s"

definition lookupKeyWriteWithFlags :: "int \<Rightarrow> nat \<Rightarrow> sds \<Rightarrow> int \<Rightarrow> server \<Rightarrow> (nat option \<times> server) cres" where
  "lookupKeyWriteWithFlags rand i k flags s = lookupKey rand i k (flags OR LOOKUP_WRITE) s"

definition lookupKeyWrite :: "int \<Rightarrow> nat \<Rightarrow> sds \<Rightarrow> server \<Rightarrow> (nat option \<times> server) cres" where
  "lookupKeyWrite rand i k s = lookupKeyWriteWithFlags rand i k LOOKUP_NONE s"

definition lookupKeyReadOrReply :: "int \<Rightarrow> nat \<Rightarrow> sds \<Rightarrow> reply \<Rightarrow> server \<Rightarrow> (nat option \<times> server) cres" where
  "lookupKeyReadOrReply rand i k r s =
     cbind (lookupKeyRead rand i k s) (\<lambda>(v, s'). Inr (v, if v = None then emit (Reply r) s' else s'))"

definition lookupKeyWriteOrReply :: "int \<Rightarrow> nat \<Rightarrow> sds \<Rightarrow> reply \<Rightarrow> server \<Rightarrow> (nat option \<times> server) cres" where
  "lookupKeyWriteOrReply rand i k r s =
     cbind (lookupKeyWrite rand i k s) (\<lambda>(v, s'). Inr (v, if v = None then emit (Reply r) s' else s'))"

subsection \<open>Adding and overwriting\<close>

definition dbSetValue :: "nat \<Rightarrow> sds \<Rightarrow> nat \<Rightarrow> bool \<Rightarrow> server \<Rightarrow> server cres" where
  "dbSetValue i k val overwrite s =
     cbind (get_db s i) (\<lambda>db.
       case dictFind (db_dict db) k of
         None \<Rightarrow> Inl AssertFailed
       | Some old \<Rightarrow>
           cbind (obj_at s old) (\<lambda>oo. cbind (obj_at s val) (\<lambda>vo.
           let s1 = set_obj val (vo\<lparr>lru := lru oo\<rparr>) s in
           cbind (if overwrite
                  then cbind (incrRefCount old s1) (\<lambda>s2.
                       decrRefCount old
                         (emit (SignalDeletedKeyAsReady (db_id db) k (otype oo))
                           (emit (ModuleNotifyKeyUnlink k old (db_id db) DB_FLAG_KEY_OVERWRITE) s2)))
                  else Inr s1) (\<lambda>s3.
           let s4 = put_db i (db\<lparr>db_dict := dictSet (db_dict db) k val\<rparr>) s3
           in if lazyfree_lazy_server_del s4 then Inr (emit (FreeObjAsync old) s4)
              else decrRefCount old s4))))"

definition dbReplaceValue :: "nat \<Rightarrow> sds \<Rightarrow> nat \<Rightarrow> server \<Rightarrow> server cres" where
  "dbReplaceValue i k val s = dbSetValue i k val False s"

definition dbAddInternal :: "nat \<Rightarrow> sds \<Rightarrow> nat \<Rightarrow> bool \<Rightarrow> server \<Rightarrow> server cres" where
  "dbAddInternal i k val update_if_existing s =
     cbind (get_db s i) (\<lambda>db.
       if dictFind (db_dict db) k \<noteq> None
       then if update_if_existing then dbSetValue i k val True s else Inl AssertFailed
       else cbind (obj_at s val) (\<lambda>ob.
            cbind (initObjectLRUOrLFU s ob) (\<lambda>ob'.
            let s1 = put_db i (db\<lparr>db_dict := dictSet (db_dict db) k val\<rparr>) (set_obj val ob' s);
                s2 = emit (SignalKeyAsReady (db_id db) k (otype ob)) s1;
                s3 = (if cluster_enabled s2 then emit (SlotToKeyAdd (db_id db) k) s2 else s2)
            in Inr (emit (NotifyKeyspace NOTIFY_NEW ''new'' k (db_id db)) s3))))"

definition dbAdd :: "nat \<Rightarrow> sds \<Rightarrow> nat \<Rightarrow> server \<Rightarrow> server cres" where
  "dbAdd i k val s = dbAddInternal i k val False s"

definition dbAddRDBLoad :: "nat \<Rightarrow> sds \<Rightarrow> nat \<Rightarrow> server \<Rightarrow> (bool \<times> server) cres" where
  "dbAddRDBLoad i k val s =
     cbind (get_db s i) (\<lambda>db.
       if dictFind (db_dict db) k \<noteq> None then Inr (False, s)
       else cbind (obj_at s val) (\<lambda>ob.
            cbind (initObjectLRUOrLFU s ob) (\<lambda>ob'.
            let s1 = put_db i (db\<lparr>db_dict := dictSet (db_dict db) k val\<rparr>) (set_obj val ob' s)
            in Inr (True, if cluster_enabled s1 then emit (SlotToKeyAdd (db_id db) k) s1 else s1))))"

definition setKey :: "int \<Rightarrow> nat \<Rightarrow> sds \<Rightarrow> nat \<Rightarrow> int \<Rightarrow> server \<Rightarrow> server cres" where
  "setKey rand i k val flags s =
     cbind (if flag_set flags SETKEY_ALREADY_EXIST then Inr (1 :: int, s)
            else if flag_set flags SETKEY_ADD_OR_UPDATE then Inr (- 1, s)
            else if \<not> flag_set flags SETKEY_DOESNT_EXIST
            then cbind (lookupKeyWrite rand i k s) (\<lambda>(v, s'). Inr (if v \<noteq> None then 1 else 0, s'))
            else Inr (0, s)) (\<lambda>(keyfound, s1).
     cbind (if keyfound = 0 then dbAdd i k val s1
            else if keyfound < 0 then dbAddInternal i k val True s1
            else dbSetValue i k val True s1) (\<lambda>s2.
     cbind (incrRefCount val s2) (\<lambda>s3.
     cbind (if flag_set flags SETKEY_KEEPTTL then Inr s3
            else cbind (removeExpire i k s3) (\<lambda>(_, s4). Inr s4)) (\<lambda>s5.
     cbind (get_db s5 i) (\<lambda>db.
     Inr (if flag_set flags SETKEY_NO_SIGNAL then s5 else signalModifiedKey db k s5))))))"

definition dbUnshareStringValue :: "strlib \<Rightarrow> nat \<Rightarrow> sds \<Rightarrow> nat \<Rightarrow> server \<Rightarrow> (nat \<times> server) cres" where
  "dbUnshareStringValue L i k a s =
     cbind (obj_at s a) (\<lambda>ob.
     cbind (cassert (otype ob = OBJ_STRING)) (\<lambda>_.
       if refcount ob \<noteq> 1 \<or> encoding ob \<noteq> OBJ_ENCODING_RAW
       then cbind (getDecodedObject L a s) (\<lambda>(d, s1).
            cbind (obj_at s1 d) (\<lambda>dob.
            cbind (sds_of dob) (\<lambda>bs.
            let (a', s2) = createRawStringObject bs s1 in
            cbind (decrRefCount d s2) (\<lambda>s3.
            cbind (dbReplaceValue i k a' s3) (\<lambda>s4. Inr (a', s4))))))
       else Inr (a, s)))"

subsection \<open>A random key\<close>

text \<open>
  \<open>pick n d\<close> is the key \<open>dictGetFairRandomKey\<close> returns in round \<open>n\<close>. The loop is given a bound on
  its rounds.
\<close>

fun random_key_loop ::
  "(nat \<Rightarrow> (sds, nat) dict \<Rightarrow> sds) \<Rightarrow> nat \<Rightarrow> bool \<Rightarrow> nat \<Rightarrow> nat \<Rightarrow> server \<Rightarrow> (nat option \<times> server) cres" where
  "random_key_loop pick i allvolatile maxtries 0 s = Inl OutOfFuel"
| "random_key_loop pick i allvolatile maxtries (Suc fuel) s =
     cbind (get_db s i) (\<lambda>db.
       if db_dict db = [] then Inr (None, s)
       else (let k = pick fuel (db_dict db); (keyobj, s1) = createStringObject k s in
         if dictFind (db_expires db) k \<noteq> None
         then if allvolatile \<and> masterhost s1 \<and> maxtries - 1 = 0 then Inr (Some keyobj, s1)
              else cbind (expireIfNeeded i k 0 s1) (\<lambda>(expired, s2).
                     if expired
                     then cbind (decrRefCount keyobj s2) (\<lambda>s3.
                            random_key_loop pick i allvolatile
                              (if allvolatile \<and> masterhost s1 then maxtries - 1 else maxtries) fuel s3)
                     else Inr (Some keyobj, s2))
         else Inr (Some keyobj, s1)))"

definition dbRandomKey ::
  "(nat \<Rightarrow> (sds, nat) dict \<Rightarrow> sds) \<Rightarrow> nat \<Rightarrow> nat \<Rightarrow> server \<Rightarrow> (nat option \<times> server) cres" where
  "dbRandomKey pick fuel i s =
     cbind (get_db s i) (\<lambda>db.
       random_key_loop pick i (dictSize (db_dict db) = dictSize (db_expires db)) 100 fuel s)"


subsection \<open>The invariant of the keyspace\<close>

text \<open>
  Every database has distinct keys, every key with an expire exists, and every value is an object
  whose type and encoding fit, with at least as many references as there are keys holding it (or the
  reference count of shared objects). \<open>x a\<close> counts the references to \<open>a\<close> held elsewhere: by the caller
  of an operation, by the lazy-free thread.
\<close>

definition count_vals :: "nat \<Rightarrow> (sds, nat) dict \<Rightarrow> nat" where
  "count_vals a d = length (filter (\<lambda>(_, v). v = a) d)"

definition refs :: "redisDb list \<Rightarrow> nat \<Rightarrow> nat" where
  "refs ds a = sum_list (map (\<lambda>db. count_vals a (db_dict db)) ds)"

definition db_ok :: "redisDb \<Rightarrow> bool" where
  "db_ok db = (dict_wf (db_dict db) \<and> dict_wf (db_expires db)
               \<and> (\<forall>k. dictFind (db_expires db) k \<noteq> None \<longrightarrow> dictFind (db_dict db) k \<noteq> None))"

definition counted :: "robj \<Rightarrow> nat \<Rightarrow> bool" where
  "counted ob n = (refcount ob = OBJ_SHARED_REFCOUNT
                   \<or> int n \<le> refcount ob \<and> 0 < refcount ob \<and> refcount ob < OBJ_FIRST_SPECIAL_REFCOUNT)"

definition obj_valid :: "robj \<Rightarrow> bool" where
  "obj_valid ob = (no_fault (free_by_type ob) \<and> robj_wf ob)"

definition values_ok :: "(nat \<Rightarrow> nat) \<Rightarrow> redisDb list \<Rightarrow> (nat \<Rightarrow> robj option) \<Rightarrow> bool" where
  "values_ok x ds h = (\<forall>a. 0 < x a + refs ds a \<longrightarrow>
     (\<exists>ob. h a = Some ob \<and> obj_valid ob \<and> counted ob (x a + refs ds a)))"

definition ks_ok :: "(nat \<Rightarrow> nat) \<Rightarrow> server \<Rightarrow> bool" where
  "ks_ok x s = ((\<forall>db \<in> set (dbs s). db_ok db) \<and> values_ok x (dbs s) (heap s))"

lemma count_vals_Nil [simp]: "count_vals a [] = 0"
  by (simp add: count_vals_def)

lemma count_vals_Cons: "count_vals a ((k, v) # d) = (if v = a then 1 else 0) + count_vals a d"
  by (simp add: count_vals_def)

lemma dictFind_Cons: "dictFind ((k', v) # d) k = (if k' = k then Some v else dictFind d k)"
  by (simp add: dictFind_def)

lemma count_vals_pos: "dictFind d k = Some a \<Longrightarrow> 0 < count_vals a d"
  by (induction d) (auto simp: count_vals_Cons dictFind_Cons split: if_splits)

lemma count_vals_delete:
  "dict_wf d \<Longrightarrow> count_vals a (dictDelete d k) = count_vals a d - (if dictFind d k = Some a then 1 else 0)"
proof (induction d)
  case (Cons e d)
  obtain k' v where e: "e = (k', v)" by (cases e)
  show ?case
  proof (cases "k' = k")
    case True
    with Cons.prems e have "dictFind d k = None" by (simp add: dict_wf_def dictFind_None_iff)
    with True e show ?thesis
      using dictDelete_absent [of d k] by (simp add: count_vals_Cons dictFind_Cons dictDelete_def)
  next
    case False
    have "dict_wf d" using Cons.prems e by (simp add: dict_wf_def)
    moreover have "dictDelete (e # d) k = e # dictDelete d k" using False e by (simp add: dictDelete_def)
    ultimately show ?thesis using Cons.IH False e count_vals_pos [of d k a]
      by (auto simp: count_vals_Cons dictFind_Cons)
  qed
qed (simp add: dictDelete_def)

lemma count_vals_set:
  "count_vals a (dictSet d k v) =
     count_vals a d - (if dictFind d k = Some a then 1 else 0) + (if v = a then 1 else 0)"
proof (induction d)
  case (Cons e d)
  obtain k' w where e: "e = (k', w)" by (cases e)
  show ?case
  proof (cases "k' = k")
    case False
    then have "dictSet (e # d) k v = e # dictSet d k v" using e by (simp add: dictSet_def)
    with Cons.IH False e count_vals_pos [of d k a] show ?thesis
      by (auto simp: count_vals_Cons dictFind_Cons)
  qed (use e in \<open>simp add: dictSet_def count_vals_Cons dictFind_Cons\<close>)
qed (simp add: dictSet_def count_vals_Cons)

lemma refs_update:
  "i < length ds \<Longrightarrow> refs (ds[i := db]) a + count_vals a (db_dict (ds ! i)) = refs ds a + count_vals a (db_dict db)"
  using elem_le_sum_list [of i "map (\<lambda>db. count_vals a (db_dict db)) ds"]
  by (simp add: refs_def map_update sum_list_update)

lemma refs_ge: "i < length ds \<Longrightarrow> count_vals a (db_dict (ds ! i)) \<le> refs ds a"
  unfolding refs_def using elem_le_sum_list [of i "map (\<lambda>db. count_vals a (db_dict db)) ds"] by simp

lemma refs_delete:
  assumes "i < length ds" "dict_wf (db_dict (ds ! i))" "db_dict db' = dictDelete (db_dict (ds ! i)) k"
  shows "refs (ds[i := db']) a = refs ds a - (if dictFind (db_dict (ds ! i)) k = Some a then 1 else 0)"
  using refs_update [OF assms(1), of db' a] refs_ge [OF assms(1), of a]
    count_vals_delete [OF assms(2), of a k] count_vals_pos [of "db_dict (ds ! i)" k a] assms(3)
  by auto

lemma refs_set:
  assumes "i < length ds" "db_dict db' = dictSet (db_dict (ds ! i)) k v"
  shows "refs (ds[i := db']) a =
           refs ds a - (if dictFind (db_dict (ds ! i)) k = Some a then 1 else 0) + (if v = a then 1 else 0)"
  using refs_update [OF assms(1), of db' a] refs_ge [OF assms(1), of a]
    count_vals_set [of a "db_dict (ds ! i)" k v] count_vals_pos [of "db_dict (ds ! i)" k a] assms(2)
  by auto

lemma refs_pos: "i < length ds \<Longrightarrow> dictFind (db_dict (ds ! i)) k = Some a \<Longrightarrow> 0 < refs ds a"
  using refs_ge [of i ds a] count_vals_pos [of "db_dict (ds ! i)" k a] by linarith

lemma ks_okD:
  assumes "ks_ok x s" "0 < x c + refs (dbs s) c"
  shows "\<exists>ob. heap s c = Some ob \<and> obj_valid ob \<and> counted ob (x c + refs (dbs s) c)"
  using assms(1) unfolding ks_ok_def values_ok_def by (elim conjE allE [of _ c]) (rule mp [OF _ assms(2)])

lemma ks_okE:
  assumes "ks_ok x s" "i < length (dbs s)" "dictFind (db_dict (dbs s ! i)) k = Some a"
  obtains ob where "heap s a = Some ob" "obj_valid ob" "counted ob (x a + refs (dbs s) a)" "0 < refs (dbs s) a"
  using assms refs_pos [OF assms(2,3)] by (auto simp: ks_ok_def values_ok_def)

lemma get_db_Inr [simp]: "i < length (dbs s) \<Longrightarrow> get_db s i = Inr (dbs s ! i)"
  by (simp add: get_db_def arr_simps)

subsection \<open>Reference counts as updates of the store\<close>

definition drop_ref :: "(nat \<Rightarrow> robj option) \<Rightarrow> nat \<Rightarrow> robj \<Rightarrow> nat \<Rightarrow> robj option" where
  "drop_ref h a ob =
     (if refcount ob = OBJ_SHARED_REFCOUNT then h
      else if refcount ob = 1 then h(a := None) else h(a \<mapsto> ob\<lparr>refcount := refcount ob - 1\<rparr>))"

text \<open>The references some events hand to the lazy-free thread.\<close>

definition handed :: "event list \<Rightarrow> nat \<Rightarrow> nat" where
  "handed evs a = count_list evs (FreeObjAsync a)"

lemma handed_simps [simp]:
  "handed [] a = 0" "handed (e # evs) a = (if e = FreeObjAsync a then 1 else 0) + handed evs a"
  "handed (evs @ evs') a = handed evs a + handed evs' a"
  by (simp_all add: handed_def)

lemma decrRefCount_frees:
  assumes "heap s a = Some ob" "obj_valid ob" "counted ob n"
  shows "\<exists>evs. decrRefCount a s = Inr (s\<lparr>heap := drop_ref (heap s) a ob, events := events s @ evs\<rparr>)
           \<and> handed evs = (\<lambda>_. 0)"
proof -
  obtain rs where rs: "free_by_type ob = Inr rs" using assms(2) by (auto simp: obj_valid_def)
  consider "refcount ob = OBJ_SHARED_REFCOUNT" | "refcount ob = 1" | "refcount ob \<noteq> OBJ_SHARED_REFCOUNT" "1 < refcount ob"
  proof -
    have "0 < refcount ob" using assms(3) by (auto simp: counted_def refcount_defs)
    then show thesis using that by (cases "refcount ob = 1") auto
  qed
  then show ?thesis
  proof cases
    case 2
    with rs assms(1) show ?thesis
      by (intro exI [of _ "[FreeValue a rs]"])
        (simp add: decrRefCount_def drop_ref_def refcount_defs free_obj_def emit_def fun_eq_iff)
  qed (use assms(1) in \<open>intro exI [of _ "[]"], simp add: decrRefCount_def drop_ref_def refcount_defs set_obj_def fun_eq_iff\<close>)+
qed

lemma decrRefCount_eq:
  assumes "heap s a = Some ob" "obj_valid ob" "counted ob n"
  shows "\<exists>evs. decrRefCount a s = Inr (s\<lparr>heap := drop_ref (heap s) a ob, events := events s @ evs\<rparr>)"
  using decrRefCount_frees [OF assms] by blast

lemma obj_valid_refcount [simp]: "obj_valid (ob\<lparr>refcount := n\<rparr>) = obj_valid ob"
  by (simp add: obj_valid_def robj_wf_def free_by_type_def freeStringObject_def freeListObject_def
      freeSetObject_def freeZsetObject_def freeHashObject_def freeModuleObject_def freeStreamObject_def)

text \<open>Only the access data of the object changes.\<close>

definition same_value :: "robj \<Rightarrow> robj \<Rightarrow> bool" where
  "same_value ob ob' = (otype ob' = otype ob \<and> encoding ob' = encoding ob \<and> refcount ob' = refcount ob
                        \<and> ptr ob' = ptr ob \<and> (robj_wf ob \<longrightarrow> robj_wf ob'))"

text \<open>
  The accounts of the references. \<open>owed x s c\<close> is the number of references to \<open>c\<close>: by the databases and, as
  \<open>x\<close> says, by others. \<open>accounts x s x' s'\<close>: from \<open>s\<close> to \<open>s'\<close> the reference count of every object moved by
  exactly the difference of the references to it, an object was deallocated exactly when its count came
  to 0, no object changed its type, encoding or contents, and memory nobody refers to was not touched.
  Shared objects are not counted.
\<close>

definition owed :: "(nat \<Rightarrow> nat) \<Rightarrow> server \<Rightarrow> nat \<Rightarrow> nat" where
  "owed x s c = x c + refs (dbs s) c"

definition recounted :: "int \<Rightarrow> robj option \<Rightarrow> robj option \<Rightarrow> bool" where
  "recounted d o1 o2 \<longleftrightarrow> (\<exists>ob. o1 = Some ob \<and>
     (if refcount ob = OBJ_SHARED_REFCOUNT then \<exists>ob'. o2 = Some ob' \<and> same_value ob ob'
      else if refcount ob + d = 0 then o2 = None
      else refcount ob + d < OBJ_FIRST_SPECIAL_REFCOUNT
        \<and> (\<exists>ob'. o2 = Some ob' \<and> same_value (ob\<lparr>refcount := refcount ob + d\<rparr>) ob')))"

definition accounts :: "(nat \<Rightarrow> nat) \<Rightarrow> server \<Rightarrow> (nat \<Rightarrow> nat) \<Rightarrow> server \<Rightarrow> bool" where
  "accounts x s x' s' \<longleftrightarrow> (\<forall>c.
     if owed x s c = 0 then owed x' s' c = 0 \<and> heap s' c = heap s c
     else recounted (int (owed x' s' c) - int (owed x s c)) (heap s c) (heap s' c))"

lemma same_value_refl: "same_value ob ob"
  by (simp add: same_value_def)

lemma same_value_trans: "same_value a b \<Longrightarrow> same_value b c \<Longrightarrow> same_value a c"
  by (simp add: same_value_def)

lemma same_value_count: "same_value a b \<Longrightarrow> same_value (a\<lparr>refcount := n\<rparr>) (b\<lparr>refcount := n\<rparr>)"
  by (simp add: same_value_def robj_wf_def)

lemma recounted_0:
  assumes "counted ob n" "same_value ob ob'"
  shows "recounted 0 (Some ob) (Some ob')"
  using assms by (auto simp: recounted_def counted_def refcount_defs)

lemma recounted_drop:
  assumes "h a = Some ob" "counted ob n"
  shows "recounted (- 1) (h a) (drop_ref h a ob a)"
  using assms by (auto simp: recounted_def drop_ref_def counted_def refcount_defs same_value_refl)

lemma recounted_trans:
  assumes "recounted d o1 o2" "recounted e o2 o3"
  shows "recounted (d + e) o1 o3"
proof -
  obtain a b where ab: "o1 = Some a" "o2 = Some b" using assms by (auto simp: recounted_def)
  show ?thesis
  proof (cases "refcount a = OBJ_SHARED_REFCOUNT")
    case True
    then have "same_value a b" using assms(1) ab by (simp add: recounted_def)
    moreover from this True obtain c where "o3 = Some c" "same_value b c"
      using assms(2) ab by (auto simp: recounted_def same_value_def)
    ultimately show ?thesis using True ab same_value_trans by (auto simp: recounted_def)
  next
    case False
    then have b: "refcount a + d < OBJ_FIRST_SPECIAL_REFCOUNT" "same_value (a\<lparr>refcount := refcount a + d\<rparr>) b"
      using assms(1) ab by (auto simp: recounted_def split: if_splits)
    then have r: "refcount b = refcount a + d" "refcount b \<noteq> OBJ_SHARED_REFCOUNT"
      by (simp_all add: same_value_def refcount_defs)
    show ?thesis
    proof (cases "refcount b + e = 0")
      case True
      then show ?thesis using assms(2) ab b r False by (simp add: recounted_def add.assoc)
    next
      case ne: False
      then obtain c where c: "o3 = Some c" "refcount b + e < OBJ_FIRST_SPECIAL_REFCOUNT"
          "same_value (b\<lparr>refcount := refcount b + e\<rparr>) c"
        using assms(2) ab b(1) r by (auto simp: recounted_def)
      have "same_value (a\<lparr>refcount := refcount b + e\<rparr>) c"
        using same_value_trans [OF same_value_count [OF b(2)] c(3)] by simp
      then show ?thesis using ab c(1,2) ne r False by (simp add: recounted_def add.assoc)
    qed
  qed
qed

lemma accounts_trans:
  assumes "accounts x s y t" "accounts y t z u"
  shows "accounts x s z u"
  unfolding accounts_def
proof (intro allI)
  fix c
  show "if owed x s c = 0 then owed z u c = 0 \<and> heap u c = heap s c
     else recounted (int (owed z u c) - int (owed x s c)) (heap s c) (heap u c)"
  proof (cases "owed x s c = 0")
    case True
    with assms show ?thesis by (simp add: accounts_def)
  next
    case False
    then have r: "recounted (int (owed y t c) - int (owed x s c)) (heap s c) (heap t c)"
      using assms(1) by (simp add: accounts_def)
    show ?thesis
    proof (cases "owed y t c = 0")
      case True
      with assms(2) r False show ?thesis by (simp add: accounts_def)
    next
      case ne: False
      then have "recounted (int (owed z u c) - int (owed y t c)) (heap t c) (heap u c)"
        using assms(2) by (simp add: accounts_def)
      from recounted_trans [OF r this] False show ?thesis by simp
    qed
  qed
qed

lemma free_by_type_cong:
  assumes "otype ob' = otype ob" "encoding ob' = encoding ob"
  shows "free_by_type ob' = free_by_type ob"
  unfolding free_by_type_def freeStringObject_def freeListObject_def freeSetObject_def freeZsetObject_def
    freeHashObject_def freeModuleObject_def freeStreamObject_def assms ..

lemma obj_valid_fields:
  "otype ob' = otype ob \<Longrightarrow> encoding ob' = encoding ob \<Longrightarrow> robj_wf ob' \<Longrightarrow> obj_valid ob \<Longrightarrow> obj_valid ob'"
  using free_by_type_cong [of ob' ob] by (simp add: obj_valid_def)

text \<open>The steps: nothing happens to the counts, or one reference goes.\<close>

lemma ks_okO:
  assumes "ks_ok x s" "owed x s c \<noteq> 0"
  obtains ob where "heap s c = Some ob" "counted ob (owed x s c)" "obj_valid ob"
  using ks_okD [OF assms(1), of c] assms(2) unfolding owed_def by (metis gr0I)

lemma accounts_ks_ok:
  assumes "ks_ok x s" "accounts x s x' s'" "\<forall>db \<in> set (dbs s'). db_ok db"
  shows "ks_ok x' s'"
proof -
  have "\<exists>ob. heap s' c = Some ob \<and> obj_valid ob \<and> counted ob (owed x' s' c)" if "0 < owed x' s' c" for c
  proof -
    have o: "owed x s c \<noteq> 0" "recounted (int (owed x' s' c) - int (owed x s c)) (heap s c) (heap s' c)"
      using assms(2) that by (auto simp: accounts_def split: if_splits)
    obtain ob where ob: "heap s c = Some ob" "counted ob (owed x s c)" "obj_valid ob" using ks_okO [OF assms(1) o(1)] .
    have "refcount ob = OBJ_SHARED_REFCOUNT \<or> refcount ob + (int (owed x' s' c) - int (owed x s c)) \<noteq> 0"
      using ob(2) that by (auto simp: counted_def)
    then obtain ob' where ob': "heap s' c = Some ob'" "same_value (ob\<lparr>refcount := refcount ob'\<rparr>) ob'" "counted ob' (owed x' s' c)"
      using o(2) ob(1,2) that by (auto simp: recounted_def counted_def same_value_def robj_wf_def split: if_splits)
    have "obj_valid ob'"
      using obj_valid_fields [of ob' ob] ob(3) ob'(2) by (auto simp: same_value_def robj_wf_def obj_valid_def)
    with ob' show ?thesis by blast
  qed
  with assms(3) show ?thesis by (simp add: ks_ok_def values_ok_def owed_def)
qed

lemma accounts_touch:
  assumes "ks_ok x s" "\<And>c. owed x' s' c = owed x s c"
    and "\<And>c. heap s' c = heap s c \<or>
           0 < owed x s c \<and> (\<exists>ob ob'. heap s c = Some ob \<and> heap s' c = Some ob' \<and> same_value ob ob')"
  shows "accounts x s x' s'"
  unfolding accounts_def
proof (intro allI)
  fix c
  show "if owed x s c = 0 then owed x' s' c = 0 \<and> heap s' c = heap s c
     else recounted (int (owed x' s' c) - int (owed x s c)) (heap s c) (heap s' c)"
  proof (cases "owed x s c = 0")
    case True
    with assms(2,3) [of c] show ?thesis by auto
  next
    case False
    from ks_okO [OF assms(1) this] obtain ob where ob: "heap s c = Some ob" "counted ob (owed x s c)" by blast
    moreover obtain ob' where "heap s' c = Some ob'" "same_value ob ob'"
      using assms(3) [of c] ob(1) same_value_refl by auto
    ultimately show ?thesis using False recounted_0 assms(2) by simp
  qed
qed

lemma accounts_same:
  assumes "ks_ok x s" "\<And>c. owed x' s' c = owed x s c" "heap s' = heap s"
  shows "accounts x s x' s'"
  using accounts_touch [OF assms(1,2)] assms(3) by simp

lemma accounts_drop:
  assumes "ks_ok x s" "heap s a = Some ob" "heap s' = drop_ref (heap s) a ob"
    and "owed x s a = Suc (owed x' s' a)" "\<And>c. c \<noteq> a \<Longrightarrow> owed x' s' c = owed x s c"
  shows "accounts x s x' s'"
  unfolding accounts_def
proof (intro allI)
  fix c
  show "if owed x s c = 0 then owed x' s' c = 0 \<and> heap s' c = heap s c
     else recounted (int (owed x' s' c) - int (owed x s c)) (heap s c) (heap s' c)"
  proof (cases "c = a")
    case True
    then have o: "owed x s a \<noteq> 0" using assms(4) by simp
    from ks_okO [OF assms(1) this] obtain b where "heap s a = Some b" "counted b (owed x s a)" by blast
    with assms(2) recounted_drop [of "heap s" a ob] True o assms(3,4) show ?thesis by simp
  next
    case False
    then have h: "heap s' c = heap s c" "owed x' s' c = owed x s c"
      using assms(3,5) by (simp_all add: drop_ref_def)
    show ?thesis
    proof (cases "owed x s c = 0")
      case True
      with h show ?thesis by simp
    next
      case ne: False
      from ks_okO [OF assms(1) this] obtain b where "heap s c = Some b" "counted b (owed x s c)" by blast
      with recounted_0 [OF _ same_value_refl] ne h show ?thesis by simp
    qed
  qed
qed

text \<open>Taking and dropping a reference around a callback changes nothing but the event log.\<close>

lemma incr_decr_events:
  assumes "heap s a = Some ob" "counted ob n"
  shows "\<exists>s1. incrRefCount a s = Inr s1 \<and> (\<exists>ob1. heap s1 a = Some ob1 \<and> otype ob1 = otype ob)
           \<and> (\<forall>e1 e2. decrRefCount a (emit e1 (emit e2 s1)) = Inr (emit e1 (emit e2 s)))"
  using assms
  by (auto simp: incrRefCount_def decrRefCount_def counted_def refcount_defs set_obj_def emit_def fun_upd_idem)

lemma drop_ref_other: "c \<noteq> a \<Longrightarrow> drop_ref h a ob c = h c"
  by (simp add: drop_ref_def)

lemma drop_ref_counted:
  assumes "h a = Some ob" "obj_valid ob" "counted ob (Suc n)" "0 < n"
  shows "\<exists>ob'. drop_ref h a ob a = Some ob' \<and> obj_valid ob' \<and> counted ob' n"
  using assms by (auto simp: drop_ref_def counted_def refcount_defs)

subsection \<open>Deleting a key\<close>

definition del_key :: "sds \<Rightarrow> redisDb \<Rightarrow> redisDb" where
  "del_key k db = db\<lparr>db_dict := dictDelete (db_dict db) k, db_expires := dictDelete (db_expires db) k\<rparr>"

lemma del_key_simps [simp]:
  "db_dict (del_key k db) = dictDelete (db_dict db) k"
  "db_expires (del_key k db) = dictDelete (db_expires db) k"
  "db_id (del_key k db) = db_id db"
  by (simp_all add: del_key_def)

lemma db_ok_del_key: "db_ok db \<Longrightarrow> db_ok (del_key k db)"
  by (simp add: db_ok_def)

lemma del_key_absent: "db_ok db \<Longrightarrow> dictFind (db_dict db) k = None \<Longrightarrow> del_key k db = db"
proof -
  assume d: "db_ok db" "dictFind (db_dict db) k = None"
  then have "dictFind (db_expires db) k = None" by (auto simp: db_ok_def)
  with d show ?thesis by (simp add: del_key_def dictDelete_absent)
qed

text \<open>The fields of the server that no keyspace operation changes stay as they are.\<close>

lemma emit_fields [simp]:
  "cluster_enabled (emit e s) = cluster_enabled s" "loading (emit e s) = loading s"
  "mstime (emit e s) = mstime s" "lruclock (emit e s) = lruclock s" "hz (emit e s) = hz s"
  "masterhost (emit e s) = masterhost s" "lazyfree_lazy_server_del (emit e s) = lazyfree_lazy_server_del s"
  "lazyfree_lazy_expire (emit e s) = lazyfree_lazy_expire s"
  by (simp_all add: emit_def)

text \<open>What the operations on keys may change of the server.\<close>

definition kept :: "server \<Rightarrow> server \<Rightarrow> bool" where
  "kept s s' \<longleftrightarrow>
     s' = s\<lparr>dbs := dbs s', heap := heap s', events := events s', stat_keyspace_hits := stat_keyspace_hits s',
            stat_keyspace_misses := stat_keyspace_misses s', stat_expiredkeys := stat_expiredkeys s'\<rparr>
     \<and> map db_id (dbs s') = map db_id (dbs s)"

lemma keptE:
  assumes "kept s s'"
  obtains d h e hits misses expired where "map db_id d = map db_id (dbs s)"
    "s' = s\<lparr>dbs := d, heap := h, events := e, stat_keyspace_hits := hits, stat_keyspace_misses := misses,
            stat_expiredkeys := expired\<rparr>"
  using assms unfolding kept_def by (elim conjE) (rule that)

lemma kept_refl: "kept s s"
  by (simp add: kept_def)

lemma kept_trans:
  assumes "kept s t" "kept t u" shows "kept s u"
  by (rule keptE [OF assms(1)], rule keptE [OF assms(2)]) (simp add: kept_def)

lemma kept_fields:
  assumes "kept s s'"
  shows "mstime s' = mstime s" "loading s' = loading s" "masterhost s' = masterhost s"
    "current_client s' = current_client s" "client_is_master s' = client_is_master s"
    "lazy_expire_disabled s' = lazy_expire_disabled s" "paused_expire s' = paused_expire s"
    "repl_slave_ro s' = repl_slave_ro s" "maxmemory_policy s' = maxmemory_policy s"
    "lazyfree_lazy_server_del s' = lazyfree_lazy_server_del s" "length (dbs s') = length (dbs s)"
    "map db_id (dbs s') = map db_id (dbs s)" "next_addr s' = next_addr s" "dbnum s' = dbnum s"
    "cluster_enabled s' = cluster_enabled s" "dirty s' = dirty s"
proof -
  have l: "length (dbs s') = length (dbs s)"
    using assms unfolding kept_def by (metis length_map)
  then show "length (dbs s') = length (dbs s)" "dbnum s' = dbnum s" by (simp_all add: dbnum_def)
qed (rule keptE [OF assms], simp)+

lemma kept_id: "kept s s' \<Longrightarrow> i < length (dbs s) \<Longrightarrow> db_id (dbs s' ! i) = db_id (dbs s ! i)"
  using kept_fields(11,12) [of s s'] nth_map [of i "dbs s" db_id] nth_map [of i "dbs s'" db_id] by simp

lemma map_update_same: "i < length xs \<Longrightarrow> (map f xs)[i := f (xs ! i)] = map f xs"
  by (induction xs arbitrary: i) (auto split: nat.split)

lemma kept_updates:
  "kept s (emit e s)" "kept s (set_obj a ob s)"
  "i < length (dbs s) \<Longrightarrow> db_id db = db_id (dbs s ! i) \<Longrightarrow> kept s (put_db i db s)"
  by (simp_all add: kept_def emit_def set_obj_def put_db_def map_update map_update_same)

lemma kept_more:
  assumes "kept s t"
  shows "kept s (emit e t)" "kept s (set_obj a ob t)"
    "kept s (t\<lparr>stat_keyspace_hits := n\<rparr>)" "kept s (t\<lparr>stat_keyspace_misses := n\<rparr>)"
  by (rule keptE [OF assms], simp add: kept_def emit_def set_obj_def)+

lemma kept_delete:
  assumes "i < length (dbs s)"
  shows "kept s (s\<lparr>dbs := (dbs s)[i := del_key k (dbs s ! i)], heap := h, events := e\<rparr>)"
    "kept s (s\<lparr>dbs := (dbs s)[i := del_key k (dbs s ! i)], heap := h, events := e, stat_expiredkeys := n\<rparr>)"
  using assms by (simp_all add: kept_def map_update map_update_same)

lemma dbGenericDelete_present:
  assumes "ks_ok x s" "i < length (dbs s)" "dictFind (db_dict (dbs s ! i)) k = Some a" "heap s a = Some ob"
  shows "\<exists>evs. dbGenericDelete i k async flags s =
           Inr (True, s\<lparr>dbs := (dbs s)[i := del_key k (dbs s ! i)],
                        heap := (if async then heap s else drop_ref (heap s) a ob),
                        events := events s @ evs\<rparr>)
           \<and> (\<forall>c. handed evs c = (if async \<and> c = a then 1 else 0))"
proof -
  let ?db = "dbs s ! i"
  obtain ob' where "heap s a = Some ob'" and v: "obj_valid ob'" "counted ob' (x a + refs (dbs s) a)"
    using ks_okE [OF assms(1-3)] by blast
  with assms(4) have ov: "obj_valid ob" "counted ob (x a + refs (dbs s) a)" by simp_all
  obtain s1 ob1 where inc: "incrRefCount a s = Inr s1" "heap s1 a = Some ob1" "otype ob1 = otype ob"
      "\<And>e1 e2. decrRefCount a (emit e1 (emit e2 s1)) = Inr (emit e1 (emit e2 s))"
    using incr_decr_events [OF assms(4) ov(2)] by blast
  define db' where "db' = ?db\<lparr>db_expires := (if 0 < dictSize (db_expires ?db) then dictDelete (db_expires ?db) k
                                          else db_expires ?db), db_dict := dictDelete (db_dict ?db) k\<rparr>"
  have db': "db' = del_key k ?db"
    by (auto simp: db'_def del_key_def dictDelete_def dictSize_def)
  have ev: "\<exists>evs. (let s4 = (if async then emit (FreeObjAsync a) t else t);
               s5 = (if cluster_enabled s4 then emit (SlotToKeyDel (db_id ?db) k) s4 else s4)
             in put_db i db' s5) = s\<lparr>dbs := (dbs s)[i := db'], events := events s @ evs\<rparr>
          \<and> (\<forall>c. handed evs c = (if async \<and> c = a then 1 else 0))"
    if "t = emit e1 (emit e2 s)" "handed [e1, e2] = (\<lambda>_. 0)" for t e1 e2
    using that
    by (intro exI [of _ "[e2, e1] @ (if async then [FreeObjAsync a] else [])
                           @ (if cluster_enabled s then [SlotToKeyDel (db_id ?db) k] else [])"])
      (auto simp: emit_def put_db_def Let_def fun_eq_iff)
  let ?t = "emit (SignalDeletedKeyAsReady (db_id ?db) k (otype ob))
              (emit (ModuleNotifyKeyUnlink k a (db_id ?db) flags) s)"
  have quiet: "handed [SignalDeletedKeyAsReady (db_id ?db) k (otype ob), ModuleNotifyKeyUnlink k a (db_id ?db) flags] = (\<lambda>_. 0)"
    by (simp add: fun_eq_iff)
  obtain evs where e: "(let s4 = (if async then emit (FreeObjAsync a) ?t else ?t);
               s5 = (if cluster_enabled s4 then emit (SlotToKeyDel (db_id ?db) k) s4 else s4)
             in put_db i db' s5) = s\<lparr>dbs := (dbs s)[i := db'], events := events s @ evs\<rparr>"
      "\<forall>c. handed evs c = (if async \<and> c = a then 1 else 0)"
    using ev [OF refl quiet] by (elim exE conjE) (rule that)
  let ?s6 = "s\<lparr>dbs := (dbs s)[i := db'], events := events s @ evs\<rparr>"
  have "dbGenericDelete i k async flags s =
          (if async then Inr (True, ?s6) else cbind (decrRefCount a ?s6) (\<lambda>s7. Inr (True, s7)))"
    using assms(2,3) inc e(1)
    by (cases async; cases "cluster_enabled s") (simp_all add: dbGenericDelete_def Let_def flip: db'_def)
  moreover obtain evs2 where "decrRefCount a ?s6 =
      Inr (?s6\<lparr>heap := drop_ref (heap s) a ob, events := (events s @ evs) @ evs2\<rparr>)" "handed evs2 = (\<lambda>_. 0)"
    using decrRefCount_frees [of ?s6 a ob "x a + refs (dbs s) a"] assms(4) ov by auto
  ultimately show ?thesis using e(2) unfolding db'
    by (intro exI [of _ "if async then evs else evs @ evs2"]) simp
qed

lemma ks_ok_delete:
  assumes "ks_ok x s" "i < length (dbs s)" "dictFind (db_dict (dbs s ! i)) k = Some a" "heap s a = Some ob"
    and "h = heap s \<or> h = drop_ref (heap s) a ob"
  shows "ks_ok x (s\<lparr>dbs := (dbs s)[i := del_key k (dbs s ! i)], heap := h, events := e\<rparr>)"
proof -
  let ?ds = "(dbs s)[i := del_key k (dbs s ! i)]"
  have ok: "db_ok (dbs s ! i)" using assms(1,2) by (simp add: ks_ok_def)
  have r: "refs ?ds c = refs (dbs s) c - (if c = a then 1 else 0)" for c
    using refs_delete [OF assms(2), of "del_key k (dbs s ! i)" k c] ok assms(3) by (auto simp: db_ok_def)
  have p: "0 < refs (dbs s) a" using refs_pos [OF assms(2,3)] .
  have "\<exists>ob. h c = Some ob \<and> obj_valid ob \<and> counted ob (x c + refs ?ds c)" if "0 < x c + refs ?ds c" for c
  proof -
    have pos: "0 < x c + refs (dbs s) c" using that r [of c] by (auto split: if_splits)
    obtain oc where oc: "heap s c = Some oc" "obj_valid oc" "counted oc (x c + refs (dbs s) c)"
      using ks_okD [OF assms(1) pos] by (elim exE conjE) (rule that)
    show ?thesis
    proof (cases "c = a \<and> h = drop_ref (heap s) a ob")
      case True
      then have n: "x a + refs (dbs s) a = Suc (x a + refs ?ds a)" "0 < x a + refs ?ds a"
        using that r [of a] p by auto
      show ?thesis
        using drop_ref_counted [of "heap s" a ob "x a + refs ?ds a"] oc assms(4) True n by auto
    next
      case False
      then have "h c = heap s c" using assms(5) by (auto simp: drop_ref_other)
      moreover have "counted oc (x c + refs ?ds c)" using oc(3) r [of c] by (auto simp: counted_def)
      ultimately show ?thesis using oc by simp
    qed
  qed
  moreover have "\<forall>db \<in> set ?ds. db_ok db"
    using assms(1,2) ok by (auto simp: ks_ok_def db_ok_del_key dest!: set_update_subset_insert [THEN subsetD])
  ultimately show ?thesis by (simp add: ks_ok_def values_ok_def)
qed

lemma dbGenericDelete_lemma:
  assumes "ks_ok x s" "i < length (dbs s)"
  shows "\<exists>b s'. dbGenericDelete i k async flags s = Inr (b, s') \<and> ks_ok x s' \<and> kept s s'
           \<and> (b \<longleftrightarrow> dictFind (db_dict (dbs s ! i)) k \<noteq> None)
           \<and> dbs s' = (dbs s)[i := del_key k (dbs s ! i)]
           \<and> (\<forall>c. heap s' c \<noteq> heap s c \<longrightarrow> dictFind (db_dict (dbs s ! i)) k = Some c)"
proof (cases "dictFind (db_dict (dbs s ! i)) k")
  case None
  have "db_ok (dbs s ! i)" using assms by (simp add: ks_ok_def)
  then have "del_key k (dbs s ! i) = dbs s ! i" using None by (rule del_key_absent)
  with assms None show ?thesis by (auto simp: dbGenericDelete_def kept_refl)
next
  case (Some a)
  obtain ob where ob: "heap s a = Some ob" using ks_okE [OF assms Some] by blast
  obtain evs where e: "dbGenericDelete i k async flags s =
           Inr (True, s\<lparr>dbs := (dbs s)[i := del_key k (dbs s ! i)],
                        heap := (if async then heap s else drop_ref (heap s) a ob),
                        events := events s @ evs\<rparr>)"
    using dbGenericDelete_present [OF assms Some ob] by blast
  have "ks_ok x (s\<lparr>dbs := (dbs s)[i := del_key k (dbs s ! i)],
                 heap := (if async then heap s else drop_ref (heap s) a ob), events := events s @ evs\<rparr>)"
    by (rule ks_ok_delete [OF assms Some ob]) simp
  moreover have "(if async then heap s else drop_ref (heap s) a ob) c \<noteq> heap s c \<longrightarrow> a = c" for c
    using drop_ref_other [of c a "heap s" ob] by auto
  ultimately show ?thesis using e Some kept_delete [OF assms(2)]
    by (intro exI [of _ True] exI [of _ "s\<lparr>dbs := (dbs s)[i := del_key k (dbs s ! i)],
                 heap := (if async then heap s else drop_ref (heap s) a ob), events := events s @ evs\<rparr>"]) simp
qed

text \<open>The references after some events handed theirs to the lazy-free thread.\<close>

definition with_handed :: "(nat \<Rightarrow> nat) \<Rightarrow> event list \<Rightarrow> nat \<Rightarrow> nat" where
  "with_handed x evs c = x c + handed evs c"

lemma dbGenericDelete_accounts:
  assumes "ks_ok x s" "i < length (dbs s)" "dictFind (db_dict (dbs s ! i)) k = Some a"
  shows "\<exists>s' evs. dbGenericDelete i k async flags s = Inr (True, s')
           \<and> s' = s\<lparr>dbs := (dbs s)[i := del_key k (dbs s ! i)], heap := heap s', events := events s @ evs\<rparr>
           \<and> (\<forall>c. handed evs c = (if async \<and> c = a then 1 else 0))
           \<and> accounts x s (with_handed x evs) s' \<and> ks_ok (with_handed x evs) s'"
proof -
  obtain ob where ob: "heap s a = Some ob" using ks_okE [OF assms] by blast
  obtain evs where e: "dbGenericDelete i k async flags s =
           Inr (True, s\<lparr>dbs := (dbs s)[i := del_key k (dbs s ! i)],
                        heap := (if async then heap s else drop_ref (heap s) a ob),
                        events := events s @ evs\<rparr>)"
      and h: "\<forall>c. handed evs c = (if async \<and> c = a then 1 else 0)"
    using dbGenericDelete_present [OF assms ob, of async flags] by (elim exE conjE) (rule that)
  let ?ds = "(dbs s)[i := del_key k (dbs s ! i)]"
  let ?s' = "s\<lparr>dbs := ?ds, heap := (if async then heap s else drop_ref (heap s) a ob), events := events s @ evs\<rparr>"
  have ok: "db_ok (dbs s ! i)" using assms(1,2) by (simp add: ks_ok_def)
  have r: "refs ?ds c = refs (dbs s) c - (if c = a then 1 else 0)" for c
    using refs_delete [OF assms(2), of "del_key k (dbs s ! i)" k c] ok assms(3) by (auto simp: db_ok_def)
  have p: "0 < refs (dbs s) a" using refs_pos [OF assms(2,3)] .
  have acc: "accounts x s (with_handed x evs) ?s'"
  proof (cases async)
    case True
    then show ?thesis using r h p by (intro accounts_same [OF assms(1)]) (auto simp: owed_def with_handed_def)
  next
    case False
    then show ?thesis using r h p by (intro accounts_drop [OF assms(1) ob]) (auto simp: owed_def with_handed_def)
  qed
  have "\<forall>db \<in> set (dbs ?s'). db_ok db"
    using assms(1,2) ok by (auto simp: ks_ok_def db_ok_del_key dest!: set_update_subset_insert [THEN subsetD])
  from accounts_ks_ok [OF assms(1) acc this] acc e h show ?thesis by (intro exI [of _ ?s'] exI [of _ evs]) simp
qed

text \<open>
  C13: \<open>dbGenericDelete\<close> of a key that does not exist says so and changes nothing. A key that exists is
  removed with its expire and nothing else changes in the databases or the server; the reference the
  database had to the value is released exactly once: the value's count goes down by one, and the value
  is deallocated exactly when that was the last reference, or, freeing asynchronously, the reference is
  handed to the lazy-free thread once and the count stays. No other object changes, and the keyspace
  stays consistent.
\<close>

theorem dbGenericDelete_correct:
  assumes "ks_ok x s" "i < length (dbs s)"
  shows "case dictFind (db_dict (dbs s ! i)) k of
           None \<Rightarrow> dbGenericDelete i k async flags s = Inr (False, s)
         | Some a \<Rightarrow> \<exists>s' evs. dbGenericDelete i k async flags s = Inr (True, s')
             \<and> s' = s\<lparr>dbs := (dbs s)[i := del_key k (dbs s ! i)], heap := heap s', events := events s @ evs\<rparr>
             \<and> (\<forall>c. handed evs c = (if async \<and> c = a then 1 else 0))
             \<and> accounts x s (with_handed x evs) s' \<and> ks_ok (with_handed x evs) s'"
proof (cases "dictFind (db_dict (dbs s ! i)) k")
  case None
  with assms show ?thesis by (simp add: dbGenericDelete_def)
next
  case (Some a)
  from dbGenericDelete_accounts [OF assms Some] show ?thesis unfolding Some option.case .
qed

text \<open>Two keys, one with an expire at 50 ms, in the first database.\<close>

definition two_keys :: server where
  "two_keys = init_server\<lparr>
     dbs := [(empty_db 0)\<lparr>db_dict := [([97], 0), ([98], 1)], db_expires := [([97], 50)]\<rparr>, empty_db 1],
     heap := [0 \<mapsto> sample_obj 3, 1 \<mapsto> sample_obj 4], next_addr := 2, lruclock := 9\<rparr>"

lemma obj_valid_sample: "obj_valid (sample_obj l)"
  by (simp add: obj_valid_def robj_wf_def sample_obj_def free_by_type_def freeStringObject_def HISTORY_SIZE_def)

lemma two_keys_dbs [simp]: "length (dbs two_keys) = 2" "dbs two_keys ! 0 =
    (empty_db 0)\<lparr>db_dict := [([97], 0), ([98], 1)], db_expires := [([97], 50)]\<rparr>"
  by (simp_all add: two_keys_def)

lemma refs_two_keys: "refs (dbs two_keys) c = (if c = 0 \<or> c = 1 then 1 else 0)"
  by (simp add: refs_def two_keys_def empty_db_def count_vals_Cons)

lemma ks_ok_two_keys: "ks_ok (\<lambda>_. 0) two_keys"
proof -
  have "counted (sample_obj l) 1" for l by (simp add: counted_def sample_obj_def refcount_defs)
  then have "values_ok (\<lambda>_. 0) (dbs two_keys) (heap two_keys)"
    unfolding values_ok_def refs_two_keys by (auto simp: obj_valid_sample two_keys_def)
  moreover have "\<forall>db \<in> set (dbs two_keys). db_ok db"
    by (auto simp: two_keys_def empty_db_def db_ok_def dict_wf_def dictFind_def)
  ultimately show ?thesis by (simp add: ks_ok_def)
qed

theorem dbGenericDelete_correct_witness:
  "\<exists>s'. dbGenericDelete 0 [97] False DB_FLAG_KEY_DELETED two_keys = Inr (True, s') \<and> ks_ok (\<lambda>_. 0) s'
        \<and> db_dict (dbs s' ! 0) = [([98], 1)] \<and> db_expires (dbs s' ! 0) = []
        \<and> heap s' 0 = None \<and> heap s' 1 \<noteq> None"
proof -
  have f: "dictFind (db_dict (dbs two_keys ! 0)) [97] = Some 0" by (simp add: dictFind_def)
  have "case dictFind (db_dict (dbs two_keys ! 0)) [97] of
           None \<Rightarrow> dbGenericDelete 0 [97] False DB_FLAG_KEY_DELETED two_keys = Inr (False, two_keys)
         | Some a \<Rightarrow> \<exists>s' evs. dbGenericDelete 0 [97] False DB_FLAG_KEY_DELETED two_keys = Inr (True, s')
             \<and> s' = two_keys\<lparr>dbs := (dbs two_keys)[0 := del_key [97] (dbs two_keys ! 0)], heap := heap s',
                  events := events two_keys @ evs\<rparr>
             \<and> (\<forall>c. handed evs c = (if False \<and> c = a then 1 else 0))
             \<and> accounts (\<lambda>_. 0) two_keys (with_handed (\<lambda>_. 0) evs) s' \<and> ks_ok (with_handed (\<lambda>_. 0) evs) s'"
    by (rule dbGenericDelete_correct [OF ks_ok_two_keys]) simp
  then obtain s' evs where d: "dbGenericDelete 0 [97] False DB_FLAG_KEY_DELETED two_keys = Inr (True, s')"
      "s' = two_keys\<lparr>dbs := (dbs two_keys)[0 := del_key [97] (dbs two_keys ! 0)], heap := heap s', events := events two_keys @ evs\<rparr>"
      "\<forall>c. handed evs c = 0" "accounts (\<lambda>_. 0) two_keys (with_handed (\<lambda>_. 0) evs) s'" "ks_ok (with_handed (\<lambda>_. 0) evs) s'"
    unfolding f option.case by auto
  have x: "with_handed (\<lambda>_. 0) evs = (\<lambda>_. 0)" using d(3) by (simp add: with_handed_def fun_eq_iff)
  have ds: "dbs s' = (dbs two_keys)[0 := del_key [97] (dbs two_keys ! 0)]" by (subst d(2)) simp
  have db: "db_dict (dbs s' ! 0) = [([98], 1)]" "db_expires (dbs s' ! 0) = []"
    unfolding ds by (simp_all add: dictDelete_def)
  have "refs (dbs s') c = (if c = 1 then 1 else 0)" for c
    unfolding ds by (simp add: refs_def two_keys_def empty_db_def count_vals_Cons dictDelete_def)
  then have o: "owed (\<lambda>_. 0) two_keys c = (if c = 0 \<or> c = 1 then 1 else 0)"
      "owed (\<lambda>_. 0) s' c = (if c = 1 then 1 else 0)" for c
    by (simp_all add: owed_def refs_two_keys)
  have "refcount (sample_obj l) = 1" for l by (simp add: sample_obj_def)
  moreover have "heap two_keys 0 = Some (sample_obj 3)" "heap two_keys 1 = Some (sample_obj 4)" by (simp_all add: two_keys_def)
  moreover have "recounted (- 1) (heap two_keys 0) (heap s' 0)" "recounted 0 (heap two_keys 1) (heap s' 1)"
    using d(4) [unfolded x accounts_def, rule_format, of 0] d(4) [unfolded x accounts_def, rule_format, of 1] unfolding o by simp_all
  ultimately have "heap s' 0 = None" "heap s' 1 \<noteq> None" by (auto simp: recounted_def refcount_defs)
  with d(1,5) db x show ?thesis by auto
qed

subsection \<open>Expiring and looking up\<close>

text \<open>When a key counts as expired for the command being served, and when that deletes it.\<close>

definition logically_expired :: "server \<Rightarrow> nat \<Rightarrow> sds \<Rightarrow> bool" where
  "logically_expired s i k =
     (\<not> lazy_expire_disabled s \<and> \<not> loading s
      \<and> (case dictFind (db_expires (dbs s ! i)) k of None \<Rightarrow> False | Some when \<Rightarrow> 0 \<le> when \<and> when < mstime s)
      \<and> \<not> (masterhost s \<and> current_client s \<and> client_is_master s))"

definition expire_deletes :: "server \<Rightarrow> int \<Rightarrow> bool" where
  "expire_deletes s flags =
     ((masterhost s \<longrightarrow> flag_set flags EXPIRE_FORCE_DELETE_EXPIRED)
      \<and> \<not> flag_set flags EXPIRE_AVOID_DELETE_EXPIRED \<and> \<not> paused_expire s)"

lemma ks_ok_cong: "dbs s' = dbs s \<Longrightarrow> heap s' = heap s \<Longrightarrow> ks_ok x s' = ks_ok x s"
  by (simp add: ks_ok_def)

lemma keyIsExpired_eq:
  "i < length (dbs s) \<Longrightarrow> keyIsExpired i k s = Inr (\<not> loading s \<and>
     (case dictFind (db_expires (dbs s ! i)) k of None \<Rightarrow> False | Some when \<Rightarrow> 0 \<le> when \<and> when < mstime s))"
  by (auto simp: keyIsExpired_def getExpire_def split: option.splits)

lemma deleteExpired_eq:
  assumes "ks_ok x s" "i < length (dbs s)" "dictFind (db_dict (dbs s ! i)) k = Some a" "heap s a = Some ob"
  shows "\<exists>evs. deleteExpiredKeyAndPropagate i k s =
           Inr (s\<lparr>dbs := (dbs s)[i := del_key k (dbs s ! i)],
                  heap := (if lazyfree_lazy_expire s then heap s else drop_ref (heap s) a ob),
                  events := events s @ evs, stat_expiredkeys := stat_expiredkeys s + 1\<rparr>)
           \<and> AlsoPropagate (db_id (dbs s ! i)) (if lazyfree_lazy_expire s then ''UNLINK'' else ''DEL'') k \<in> set evs"
proof -
  obtain evs where e: "dbGenericDelete i k (lazyfree_lazy_expire s) DB_FLAG_KEY_EXPIRED s =
           Inr (True, s\<lparr>dbs := (dbs s)[i := del_key k (dbs s ! i)],
                        heap := (if lazyfree_lazy_expire s then heap s else drop_ref (heap s) a ob),
                        events := events s @ evs\<rparr>)"
    using dbGenericDelete_present [OF assms, of "lazyfree_lazy_expire s" DB_FLAG_KEY_EXPIRED] by blast
  let ?db = "dbs s ! i"
  show ?thesis
    using assms(2) e
    by (intro exI [of _ "evs @ [NotifyKeyspace NOTIFY_EXPIRED ''expired'' k (db_id ?db),
            TouchWatchedKey (db_id ?db) k, TrackingInvalidateKey k,
            AlsoPropagate (db_id ?db) (if lazyfree_lazy_expire s then ''UNLINK'' else ''DEL'') k]"])
      (simp add: deleteExpiredKeyAndPropagate_def Let_def emit_def signalModifiedKey_def propagateDeletion_def)
qed

lemma expireIfNeeded_lemma:
  assumes "ks_ok x s" "i < length (dbs s)"
  shows "\<exists>s'. expireIfNeeded i k flags s = Inr (logically_expired s i k, s') \<and> ks_ok x s' \<and> kept s s'
           \<and> (if logically_expired s i k \<and> expire_deletes s flags
              then dbs s' = (dbs s)[i := del_key k (dbs s ! i)]
                   \<and> AlsoPropagate (db_id (dbs s ! i)) (if lazyfree_lazy_expire s then ''UNLINK'' else ''DEL'') k
                       \<in> set (events s')
              else s' = s)"
proof (cases "logically_expired s i k \<and> expire_deletes s flags")
  case True
  have "db_ok (dbs s ! i)" using assms by (simp add: ks_ok_def)
  then obtain a where a: "dictFind (db_dict (dbs s ! i)) k = Some a"
    using True by (auto simp: logically_expired_def db_ok_def split: option.splits)
  obtain ob where ob: "heap s a = Some ob" using ks_okE [OF assms a] by blast
  obtain evs where e: "deleteExpiredKeyAndPropagate i k s =
           Inr (s\<lparr>dbs := (dbs s)[i := del_key k (dbs s ! i)],
                  heap := (if lazyfree_lazy_expire s then heap s else drop_ref (heap s) a ob),
                  events := events s @ evs, stat_expiredkeys := stat_expiredkeys s + 1\<rparr>)"
      "AlsoPropagate (db_id (dbs s ! i)) (if lazyfree_lazy_expire s then ''UNLINK'' else ''DEL'') k \<in> set evs"
    using deleteExpired_eq [OF assms a ob] by blast
  have "ks_ok x (s\<lparr>dbs := (dbs s)[i := del_key k (dbs s ! i)],
                  heap := (if lazyfree_lazy_expire s then heap s else drop_ref (heap s) a ob),
                  events := events s @ evs\<rparr>)"
    by (rule ks_ok_delete [OF assms a ob]) simp
  then have "ks_ok x (s\<lparr>dbs := (dbs s)[i := del_key k (dbs s ! i)],
                  heap := (if lazyfree_lazy_expire s then heap s else drop_ref (heap s) a ob),
                  events := events s @ evs, stat_expiredkeys := stat_expiredkeys s + 1\<rparr>)"
    by (rule ks_ok_cong [THEN iffD1, rotated 2]) simp_all
  moreover have "expireIfNeeded i k flags s = cbind (deleteExpiredKeyAndPropagate i k s) (\<lambda>s'. Inr (True, s'))"
    using True assms(2) by (auto simp: expireIfNeeded_def keyIsExpired_eq logically_expired_def expire_deletes_def)
  ultimately show ?thesis using e True kept_delete(2) [OF assms(2)] by simp
next
  case False
  with assms show ?thesis
    by (auto simp: expireIfNeeded_def keyIsExpired_eq logically_expired_def expire_deletes_def kept_refl)
qed

text \<open>
  C15: \<open>expireIfNeeded\<close> says whether the key is expired for this command; it deletes the key, and then
  always propagates the deletion, exactly when the instance may: on a master, or on a writable replica
  told to, and neither paused nor asked to leave the key. Otherwise nothing changes.
\<close>

theorem expireIfNeeded_correct:
  assumes "ks_ok x s" "i < length (dbs s)"
  shows "\<exists>s'. expireIfNeeded i k flags s = Inr (logically_expired s i k, s') \<and> ks_ok x s'
           \<and> (if logically_expired s i k \<and> expire_deletes s flags
              then dbs s' = (dbs s)[i := del_key k (dbs s ! i)]
                   \<and> AlsoPropagate (db_id (dbs s ! i)) (if lazyfree_lazy_expire s then ''UNLINK'' else ''DEL'') k
                       \<in> set (events s')
              else s' = s)"
  using expireIfNeeded_lemma [OF assms, of k flags] by blast

theorem expireIfNeeded_correct_witness:
  "(\<exists>s'. expireIfNeeded 0 [97] 0 (two_keys\<lparr>mstime := 60\<rparr>) = Inr (True, s')
        \<and> db_dict (dbs s' ! 0) = [([98], 1)] \<and> AlsoPropagate 0 ''DEL'' [97] \<in> set (events s'))
   \<and> expireIfNeeded 0 [97] 0 (two_keys\<lparr>mstime := 60, masterhost := True\<rparr>)
       = Inr (True, two_keys\<lparr>mstime := 60, masterhost := True\<rparr>)"
proof -
  have ok: "ks_ok (\<lambda>_. 0) (two_keys\<lparr>mstime := 60\<rparr>)" "ks_ok (\<lambda>_. 0) (two_keys\<lparr>mstime := 60, masterhost := True\<rparr>)"
    using ks_ok_two_keys by (simp_all add: ks_ok_def)
  have "logically_expired (two_keys\<lparr>mstime := 60\<rparr>) 0 [97]" "expire_deletes (two_keys\<lparr>mstime := 60\<rparr>) 0"
    "logically_expired (two_keys\<lparr>mstime := 60, masterhost := True\<rparr>) 0 [97]"
    "\<not> expire_deletes (two_keys\<lparr>mstime := 60, masterhost := True\<rparr>) 0"
    "lazyfree_lazy_expire (two_keys\<lparr>mstime := 60\<rparr>) = False"
    by (simp_all add: logically_expired_def expire_deletes_def two_keys_def init_server_def dictFind_def
        flag_set_def expire_flag_defs)
  then show ?thesis
    using expireIfNeeded_correct [OF ok(1), of 0 "[97]" 0] expireIfNeeded_correct [OF ok(2), of 0 "[97]" 0]
    by (auto simp: dictDelete_def empty_db_def)
qed

lemma updateLRUHistogram_wf:
  assumes "robj_wf ob"
  shows "\<exists>ob'. updateLRUHistogram s ob = Inr ob' \<and> same_value ob ob'"
proof -
  have l: "length (access_times ob) = 4" using assms by (simp add: robj_wf_def HISTORY_SIZE_def)
  show ?thesis
  proof (cases "unat (num_accesses ob) < 4")
    case True
    then have "updateLRUHistogram s ob = Inr (ob\<lparr>access_times := (access_times ob)[unat (num_accesses ob)
        := ucast (LRU_CLOCK s)], num_accesses := num_accesses ob + 1\<rparr>)"
      using l by (simp add: updateLRUHistogram_def Let_def HISTORY_SIZE_def arr_set_def)
    then show ?thesis by (simp add: robj_wf_def same_value_def)
  next
    case False
    obtain ys where "arr_move (access_times ob) 0 1 3 = Inr ys"
        "arr_set ys 3 (ucast (LRU_CLOCK s)) = Inr (tl (access_times ob) @ [ucast (LRU_CLOCK s)])"
      using shift_list4 [OF l, of "ucast (LRU_CLOCK s)"] by blast
    then have "updateLRUHistogram s ob
        = Inr (ob\<lparr>access_times := tl (access_times ob) @ [ucast (LRU_CLOCK s)]\<rparr>)"
      using False by (simp add: updateLRUHistogram_def Let_def HISTORY_SIZE_def)
    then show ?thesis using l by (simp add: robj_wf_def same_value_def HISTORY_SIZE_def)
  qed
qed

lemma touch_value_ok:
  assumes "heap s a = Some ob" "robj_wf ob"
  shows "\<exists>ob'. touch_value rand a s = Inr (set_obj a ob' s) \<and> same_value ob ob'"
proof -
  obtain oh where "updateLRUHistogram s ob = Inr oh" "same_value ob oh"
    using updateLRUHistogram_wf [OF assms(2)] by blast
  moreover have "same_value ob (updateLFU s rand ob)" "same_value ob (ob\<lparr>lru := l\<rparr>)" for l
    by (simp_all add: same_value_def updateLFU_def Let_def robj_wf_def)
  ultimately show ?thesis using assms(1) by (auto simp: touch_value_def)
qed

lemma ks_ok_set_obj:
  assumes "ks_ok x s" "heap s a = Some ob" "same_value ob ob'"
  shows "ks_ok x (set_obj a ob' s)"
proof -
  have "obj_valid ob'" if "obj_valid ob" using that assms(3) obj_valid_fields [of ob' ob]
    by (auto simp: same_value_def obj_valid_def)
  moreover have "counted ob' n = counted ob n" for n using assms(3) by (simp add: same_value_def counted_def)
  ultimately have "values_ok x (dbs s) ((heap s)(a \<mapsto> ob'))"
    using assms(1,2) unfolding ks_ok_def values_ok_def by (metis fun_upd_apply option.inject)
  then show ?thesis using assms(1) by (simp add: ks_ok_def)
qed

text \<open>The expire flags a lookup passes on.\<close>

definition lookup_expire_flags :: "server \<Rightarrow> int \<Rightarrow> int" where
  "lookup_expire_flags s flags =
     (let f1 = (if flag_set flags LOOKUP_WRITE \<and> \<not> (masterhost s \<and> repl_slave_ro s)
                then EXPIRE_FORCE_DELETE_EXPIRED else 0)
      in if flag_set flags LOOKUP_NOEXPIRE then f1 OR EXPIRE_AVOID_DELETE_EXPIRED else f1)"

lemma lookupKey_lemma:
  assumes "ks_ok x s" "i < length (dbs s)"
  shows "\<exists>s'. lookupKey rand i k flags s =
           Inr (if logically_expired s i k then None else dictFind (db_dict (dbs s ! i)) k, s') \<and> ks_ok x s' \<and> kept s s'
         \<and> dbs s' = (if logically_expired s i k \<and> expire_deletes s (lookup_expire_flags s flags)
                     then (dbs s)[i := del_key k (dbs s ! i)] else dbs s)
         \<and> (\<not> logically_expired s i k \<longrightarrow> (\<forall>c. heap s' c = heap s c \<or>
               dictFind (db_dict (dbs s ! i)) k = Some c
               \<and> (\<exists>ob ob'. heap s c = Some ob \<and> heap s' c = Some ob' \<and> same_value ob ob')))"
proof (cases "dictFind (db_dict (dbs s ! i)) k")
  case None
  have "db_ok (dbs s ! i)" using assms by (simp add: ks_ok_def)
  with None have "\<not> logically_expired s i k" by (auto simp: db_ok_def logically_expired_def split: option.splits)
  then show ?thesis using assms None
    by (auto simp: lookupKey_def Let_def intro!: kept_more kept_refl intro: ks_ok_cong [THEN iffD2, rotated 2])
next
  case (Some a)
  obtain s1 where e: "expireIfNeeded i k (lookup_expire_flags s flags) s = Inr (logically_expired s i k, s1)" "ks_ok x s1" "kept s s1"
      "if logically_expired s i k \<and> expire_deletes s (lookup_expire_flags s flags)
       then dbs s1 = (dbs s)[i := del_key k (dbs s ! i)] else s1 = s"
    using expireIfNeeded_lemma [OF assms, of k "lookup_expire_flags s flags"] by metis
  have start: "(let is_ro_replica = (masterhost s \<and> repl_slave_ro s);
                    f1 = (if flag_set flags LOOKUP_WRITE \<and> \<not> is_ro_replica
                          then EXPIRE_FORCE_DELETE_EXPIRED else 0);
                    f2 = (if flag_set flags LOOKUP_NOEXPIRE then f1 OR EXPIRE_AVOID_DELETE_EXPIRED else f1)
                in cbind (expireIfNeeded i k f2 s) (\<lambda>(expired, s').
                   Inr (if expired then None else Some a, s'))) =
      Inr (if logically_expired s i k then None else Some a, s1)"
    using e(1) unfolding lookup_expire_flags_def Let_def by (simp only: cbind_Inr split_conv)
  show ?thesis
  proof (cases "logically_expired s i k")
    case True
    have "dbs s1 = (if expire_deletes s (lookup_expire_flags s flags)
                    then (dbs s)[i := del_key k (dbs s ! i)] else dbs s)"
      using e(4) True by (auto split: if_splits)
    with e(2,3) True start assms(2) Some show ?thesis
      by (auto simp: lookupKey_def Let_def intro!: kept_more intro: ks_ok_cong [THEN iffD2, rotated 2])
  next
    case False
    then have s1: "s1 = s" using e(4) by simp
    obtain ob where ob: "heap s a = Some ob" "obj_valid ob" using ks_okE [OF assms Some] by blast
    then have "robj_wf ob" by (simp add: obj_valid_def)
    with ob obtain ob' where t: "touch_value rand a s = Inr (set_obj a ob' s)" "same_value ob ob'"
      using touch_value_ok by blast
    have ok: "ks_ok x (set_obj a ob' s)" using ks_ok_set_obj [OF assms(1) ob(1) t(2)] .
    show ?thesis
      using start False t ok assms Some ob(1) unfolding s1
      by (simp add: lookupKey_def Let_def) (auto intro!: kept_more kept_refl intro: ks_ok_cong [THEN iffD2, rotated 2])
  qed
qed

text \<open>What a lookup does besides: touching the object, counting, reporting a miss.\<close>

definition lookup_touches :: "server \<Rightarrow> int \<Rightarrow> bool" where
  "lookup_touches s flags \<longleftrightarrow> \<not> active_child s \<and> \<not> flag_set flags LOOKUP_NOTOUCH
     \<and> \<not> (current_client s \<and> client_no_touch s \<and> \<not> cmd_is_touch s)"

definition lookup_counts :: "int \<Rightarrow> bool" where
  "lookup_counts flags \<longleftrightarrow> \<not> flag_set flags LOOKUP_NOSTATS \<and> \<not> flag_set flags LOOKUP_WRITE"

definition lookup_reports :: "int \<Rightarrow> bool" where
  "lookup_reports flags \<longleftrightarrow> \<not> flag_set flags LOOKUP_NONOTIFY \<and> \<not> flag_set flags LOOKUP_WRITE"

definition touched :: "int \<Rightarrow> server \<Rightarrow> robj \<Rightarrow> robj cres" where
  "touched rand s ob =
     (if flag_set (maxmemory_policy s) MAXMEMORY_FLAG_LFU then Inr (updateLFU s rand ob)
      else if flag_set (maxmemory_policy s) MAXMEMORY_FLAG_LRU_HISTOGRAM then updateLRUHistogram s ob
      else Inr (ob\<lparr>lru := ucast (LRU_CLOCK s)\<rparr>))"

lemma touch_touched:
  "heap s a = Some ob \<Longrightarrow> touched rand s ob = Inr ob' \<Longrightarrow> touch_value rand a s = Inr (set_obj a ob' s)"
  by (auto simp: touch_value_def touched_def split: if_splits)

lemma touched_ok: "robj_wf ob \<Longrightarrow> \<exists>ob'. touched rand s ob = Inr ob' \<and> same_value ob ob'"
  using updateLRUHistogram_wf [of ob s] by (auto simp: touched_def same_value_def updateLFU_def Let_def robj_wf_def)

lemma expire_counters:
  assumes "ks_ok x s" "i < length (dbs s)" "expireIfNeeded i k flags s = Inr (b, s')"
  shows "stat_keyspace_hits s' = stat_keyspace_hits s \<and> stat_keyspace_misses s' = stat_keyspace_misses s"
  proof (cases "logically_expired s i k \<and> expire_deletes s flags")
    case True
    have "db_ok (dbs s ! i)" using assms by (simp add: ks_ok_def)
    then obtain a where a: "dictFind (db_dict (dbs s ! i)) k = Some a"
      using True by (auto simp: logically_expired_def db_ok_def split: option.splits)
    obtain ob where ob: "heap s a = Some ob" using ks_okE [OF assms(1,2) a] by blast
    have "expireIfNeeded i k flags s = cbind (deleteExpiredKeyAndPropagate i k s) (\<lambda>s'. Inr (True, s'))"
      using True assms(2) by (auto simp: expireIfNeeded_def keyIsExpired_eq logically_expired_def expire_deletes_def)
    with deleteExpired_eq [OF assms(1,2) a ob] assms(3) show ?thesis by auto
  next
    case False
    with expireIfNeeded_lemma [OF assms(1,2), of k flags] assms(3) show ?thesis by auto
  qed

lemma lookupKey_hit:
  assumes "ks_ok x s" "i < length (dbs s)" "\<not> logically_expired s i k" "dictFind (db_dict (dbs s ! i)) k = Some a"
    and "heap s a = Some ob"
  shows "\<exists>ob'. (if lookup_touches s flags then touched rand s ob = Inr ob' else ob' = ob) \<and> same_value ob ob'
    \<and> lookupKey rand i k flags s = Inr (Some a, s\<lparr>heap := (heap s)(a \<mapsto> ob'),
         stat_keyspace_hits := stat_keyspace_hits s + (if lookup_counts flags then 1 else 0)\<rparr>)"
proof -
  have e: "expireIfNeeded i k f s = Inr (False, s)" for f
    using expireIfNeeded_lemma [OF assms(1,2), of k f] assms(3) by auto
  have "robj_wf ob" using ks_okE [OF assms(1,2,4)] assms(5) by (auto simp: obj_valid_def)
  from touched_ok [OF this, of rand s] obtain ob1 where t: "touched rand s ob = Inr ob1" "same_value ob ob1" by blast
  note tv = touch_touched [OF assms(5) t(1)]
  have "(if lookup_touches s flags then touch_value rand a s else Inr s)
      = Inr (s\<lparr>heap := (heap s)(a \<mapsto> (if lookup_touches s flags then ob1 else ob))\<rparr>)"
    using tv assms(5) by (simp add: set_obj_def fun_upd_idem)
  then have "lookupKey rand i k flags s = Inr (Some a, s\<lparr>heap := (heap s)(a \<mapsto> (if lookup_touches s flags then ob1 else ob)),
         stat_keyspace_hits := stat_keyspace_hits s + (if lookup_counts flags then 1 else 0)\<rparr>)"
    using assms(2,4) e by (simp add: lookupKey_def Let_def lookup_touches_def lookup_counts_def)
  then show ?thesis using t same_value_refl
    by (intro exI [of _ "if lookup_touches s flags then ob1 else ob"]) simp
qed

lemma lookupKey_miss:
  assumes "ks_ok x s" "i < length (dbs s)" "dictFind (db_dict (dbs s ! i)) k = None \<or> logically_expired s i k"
  shows "\<exists>s1. (if dictFind (db_dict (dbs s ! i)) k = None then s1 = s
               else expireIfNeeded i k (lookup_expire_flags s flags) s = Inr (True, s1))
    \<and> lookupKey rand i k flags s = Inr (None, s1\<lparr>
         events := events s1 @ (if lookup_reports flags then [NotifyKeyspace NOTIFY_KEY_MISS ''keymiss'' k (db_id (dbs s ! i))] else []),
         stat_keyspace_misses := stat_keyspace_misses s1 + (if lookup_counts flags then 1 else 0)\<rparr>)"
proof (cases "dictFind (db_dict (dbs s ! i)) k")
  case None
  then show ?thesis using assms(2)
    by (simp add: lookupKey_def Let_def lookup_reports_def lookup_counts_def emit_def)
next
  case (Some a)
  then have "logically_expired s i k" using assms(3) by simp
  then obtain s1 where e: "expireIfNeeded i k (lookup_expire_flags s flags) s = Inr (True, s1)"
    using expireIfNeeded_lemma [OF assms(1,2), of k "lookup_expire_flags s flags"] by auto
  then have "(let is_ro_replica = (masterhost s \<and> repl_slave_ro s);
                    f1 = (if flag_set flags LOOKUP_WRITE \<and> \<not> is_ro_replica
                          then EXPIRE_FORCE_DELETE_EXPIRED else 0);
                    f2 = (if flag_set flags LOOKUP_NOEXPIRE then f1 OR EXPIRE_AVOID_DELETE_EXPIRED else f1)
                in cbind (expireIfNeeded i k f2 s) (\<lambda>(expired, s').
                   Inr (if expired then None else Some a, s'))) = Inr (None, s1)"
    unfolding lookup_expire_flags_def Let_def by (simp only: cbind_Inr split_conv if_True)
  then show ?thesis using assms(2) Some e
    by (simp add: lookupKey_def Let_def lookup_reports_def lookup_counts_def emit_def)
qed

text \<open>
  C14: A lookup returns the value of a key that exists and is not expired for this command, and nothing
  otherwise. A hit touches the object it returns as the eviction policy says (its LFU counter, its access
  history or its LRU clock), unless a child process runs or the flags, the client or its command forbid it,
  and changes nothing else but the counter of hits; a miss counts as a miss and is reported by an event.
  Reads that keep no statistics and writes count neither. An expired key is deleted when
  the instance may delete it.
\<close>

theorem lookupKey_correct:
  assumes "ks_ok x s" "i < length (dbs s)"
  shows "\<exists>s'. lookupKey rand i k flags s =
           Inr (if logically_expired s i k then None else dictFind (db_dict (dbs s ! i)) k, s') \<and> ks_ok x s'
         \<and> dbs s' = (if logically_expired s i k \<and> expire_deletes s (lookup_expire_flags s flags)
                     then (dbs s)[i := del_key k (dbs s ! i)] else dbs s)
         \<and> (if logically_expired s i k \<or> dictFind (db_dict (dbs s ! i)) k = None
            then stat_keyspace_hits s' = stat_keyspace_hits s
              \<and> stat_keyspace_misses s' = stat_keyspace_misses s + (if lookup_counts flags then 1 else 0)
              \<and> (lookup_reports flags \<longrightarrow> last (events s') = NotifyKeyspace NOTIFY_KEY_MISS ''keymiss'' k (db_id (dbs s ! i)))
              \<and> (\<not> logically_expired s i k \<longrightarrow> heap s' = heap s \<and> (\<not> lookup_reports flags \<longrightarrow> events s' = events s))
            else (\<exists>a ob ob'. dictFind (db_dict (dbs s ! i)) k = Some a \<and> heap s a = Some ob
              \<and> (if lookup_touches s flags then touched rand s ob = Inr ob' else ob' = ob) \<and> same_value ob ob'
              \<and> s' = s\<lparr>heap := (heap s)(a \<mapsto> ob'),
                   stat_keyspace_hits := stat_keyspace_hits s + (if lookup_counts flags then 1 else 0)\<rparr>))"
proof (cases "logically_expired s i k \<or> dictFind (db_dict (dbs s ! i)) k = None")
  case True
  have db: "db_ok (dbs s ! i)" using assms by (simp add: ks_ok_def)
  have nx: "dictFind (db_dict (dbs s ! i)) k = None \<Longrightarrow> \<not> logically_expired s i k"
    using db by (auto simp: db_ok_def logically_expired_def split: option.splits)
  from True have m: "dictFind (db_dict (dbs s ! i)) k = None \<or> logically_expired s i k" by blast
  obtain s1 where s1: "if dictFind (db_dict (dbs s ! i)) k = None then s1 = s
               else expireIfNeeded i k (lookup_expire_flags s flags) s = Inr (True, s1)"
      "lookupKey rand i k flags s = Inr (None, s1\<lparr>
         events := events s1 @ (if lookup_reports flags then [NotifyKeyspace NOTIFY_KEY_MISS ''keymiss'' k (db_id (dbs s ! i))] else []),
         stat_keyspace_misses := stat_keyspace_misses s1 + (if lookup_counts flags then 1 else 0)\<rparr>)"
    using lookupKey_miss [OF assms m, of flags rand] by blast
  then have "stat_keyspace_hits s1 = stat_keyspace_hits s" "stat_keyspace_misses s1 = stat_keyspace_misses s"
    using expire_counters [OF assms] by (auto split: if_splits)
  moreover have "\<not> logically_expired s i k \<Longrightarrow> s1 = s" using s1(1) True by simp
  ultimately show ?thesis
    using lookupKey_lemma [OF assms, of rand k flags] s1(2) True nx by (auto split: if_splits)
next
  case False
  then obtain a where a: "dictFind (db_dict (dbs s ! i)) k = Some a" "\<not> logically_expired s i k" by blast
  obtain ob where ob: "heap s a = Some ob" using ks_okE [OF assms a(1)] by blast
  obtain ob' where ob': "if lookup_touches s flags then touched rand s ob = Inr ob' else ob' = ob" "same_value ob ob'"
      "lookupKey rand i k flags s = Inr (Some a, s\<lparr>heap := (heap s)(a \<mapsto> ob'),
         stat_keyspace_hits := stat_keyspace_hits s + (if lookup_counts flags then 1 else 0)\<rparr>)"
    using lookupKey_hit [OF assms a(2,1) ob, of flags rand] by blast
  from lookupKey_lemma [OF assms, of rand k flags] ob'(3)
  have "ks_ok x (s\<lparr>heap := (heap s)(a \<mapsto> ob'),
         stat_keyspace_hits := stat_keyspace_hits s + (if lookup_counts flags then 1 else 0)\<rparr>)" by auto
  with ob' a ob show ?thesis by auto
qed

theorem lookupKey_correct_witness:
  "(\<exists>s' ob'. lookupKey 0 0 [98] LOOKUP_NONE (two_keys\<lparr>mstime := 60\<rparr>) = Inr (Some 1, s') \<and> dbs s' = dbs two_keys
        \<and> heap s' 1 = Some ob' \<and> lru ob' = 9 \<and> stat_keyspace_hits s' = 1)
   \<and> (\<exists>s'. lookupKey 0 0 [97] LOOKUP_NONE (two_keys\<lparr>mstime := 60\<rparr>) = Inr (None, s')
           \<and> db_dict (dbs s' ! 0) = [([98], 1)] \<and> stat_keyspace_misses s' = 1)"
proof -
  let ?s = "two_keys\<lparr>mstime := 60\<rparr>"
  have ok: "ks_ok (\<lambda>_. 0) ?s" using ks_ok_two_keys by (simp add: ks_ok_def)
  have a: "\<not> logically_expired ?s 0 [98]" "logically_expired ?s 0 [97]"
    "expire_deletes ?s (lookup_expire_flags ?s LOOKUP_NONE)"
    by (simp_all add: logically_expired_def expire_deletes_def two_keys_def init_server_def dictFind_def
        flag_set_def expire_flag_defs lookup_flag_defs lookup_expire_flags_def)
  have f: "dictFind (db_dict (dbs ?s ! 0)) [98] = Some 1" "heap ?s 1 = Some (sample_obj 4)" "0 < length (dbs ?s)"
    by (simp_all add: dictFind_def two_keys_def)
  have c: "lookup_counts LOOKUP_NONE" "lookup_touches ?s LOOKUP_NONE"
      "touched 0 ?s (sample_obj 4) = Inr ((sample_obj 4)\<lparr>lru := 9\<rparr>)"
      "stat_keyspace_hits ?s = 0" "stat_keyspace_misses ?s = 0"
    by (simp_all add: lookup_counts_def lookup_touches_def touched_def flag_set_def lookup_flag_defs two_keys_def init_server_def
        policy_defs LRU_CLOCK_def getLRUClock_def)
  obtain s1 where s1: "lookupKey 0 0 [98] LOOKUP_NONE ?s = Inr (Some 1, s1)"
      "s1 = ?s\<lparr>heap := (heap ?s)(1 \<mapsto> (sample_obj 4)\<lparr>lru := 9\<rparr>), stat_keyspace_hits := 1\<rparr>"
    using lookupKey_correct [OF ok, of 0 0 "[98]" LOOKUP_NONE] a(1) f c by auto
  obtain s2 where s2: "lookupKey 0 0 [97] LOOKUP_NONE ?s = Inr (None, s2)"
      "dbs s2 = (dbs ?s)[0 := del_key [97] (dbs ?s ! 0)]" "stat_keyspace_misses s2 = 1"
    using lookupKey_correct [OF ok, of 0 0 "[97]" LOOKUP_NONE] a(2,3) f(3) c by auto
  have "db_dict (dbs s2 ! 0) = [([98], 1)]" unfolding s2(2) by (simp add: dictDelete_def)
  then show ?thesis using s1 s2(1,3) by auto
qed

subsection \<open>Adding and overwriting keep the keyspace consistent\<close>

lemma unat_4_u8: "unat (4 :: u8) = 4"
  by simp

lemma initOrUpdate_same:
  assumes "robj_wf ob" "num_accesses ob \<noteq> 4"
  shows "\<exists>ob'. initOrUpdateObjectt ob now = Inr ob' \<and> same_value ob ob'"
proof -
  have l: "length (access_times ob) = 4" using assms(1) by (simp add: robj_wf_def HISTORY_SIZE_def)
  have "unat (num_accesses ob) \<noteq> 4" using assms(2) by (metis unat_4_u8 unsigned_word_eqI)
  then consider "num_accesses ob = 0" | "num_accesses ob \<noteq> 0" "unat (num_accesses ob) < 4" | "4 < unat (num_accesses ob)"
    by linarith
  then show ?thesis
  proof cases
    case 1
    then have "initOrUpdateObjectt ob now = Inr (ob\<lparr>num_accesses := 1, access_times := (access_times ob)[0 := now]\<rparr>)"
      using l by (simp add: initOrUpdateObjectt_def arr_simps)
    then show ?thesis by (simp add: same_value_def robj_wf_def)
  next
    case 2
    then have "initOrUpdateObjectt ob now = Inr (ob\<lparr>access_times := (access_times ob)[unat (num_accesses ob) := now],
        num_accesses := num_accesses ob + 1\<rparr>)"
      using l by (simp add: initOrUpdateObjectt_def arr_set_def HISTORY_SIZE_def)
    then show ?thesis by (simp add: same_value_def robj_wf_def)
  next
    case 3
    obtain ys where "arr_move (access_times ob) 0 1 3 = Inr ys" "arr_set ys 3 now = Inr (tl (access_times ob) @ [now])"
      using shift_list4 [OF l] by blast
    then have "initOrUpdateObjectt ob now = Inr (ob\<lparr>access_times := tl (access_times ob) @ [now],
        num_accesses := num_accesses ob + 1\<rparr>)"
      using 3 by (auto simp: initOrUpdateObjectt_def HISTORY_SIZE_def)
    then show ?thesis using l by (simp add: same_value_def robj_wf_def HISTORY_SIZE_def)
  qed
qed

text \<open>The object can enter a database: its history is not full, or the policy does not record accesses.\<close>

definition can_enter :: "server \<Rightarrow> robj \<Rightarrow> bool" where
  "can_enter s ob = (num_accesses ob \<noteq> 4 \<or> \<not> flag_set (maxmemory_policy s) MAXMEMORY_FLAG_LRU_HISTOGRAM)"

lemma initObject_ok:
  assumes "robj_wf ob" "can_enter s ob"
  shows "\<exists>ob'. initObjectLRUOrLFU s ob = Inr ob' \<and> same_value ob ob'"
proof -
  have l: "same_value ob (ob\<lparr>lru := l\<rparr>)" for l by (simp add: same_value_def robj_wf_def)
  have "\<exists>ob'. initOrUpdateObjectt (ob\<lparr>lru := l\<rparr>) now = Inr ob' \<and> same_value ob ob'" if "num_accesses ob \<noteq> 4" for l now
    using initOrUpdate_same [of "ob\<lparr>lru := l\<rparr>" now] that assms(1) same_value_trans [OF l [of l]]
    by (auto simp: robj_wf_def)
  moreover have "same_value ob ob" by (simp add: same_value_def)
  ultimately show ?thesis using l assms(2) by (auto simp: initObjectLRUOrLFU_def can_enter_def Let_def)
qed

definition give :: "(nat \<Rightarrow> nat) \<Rightarrow> nat \<Rightarrow> nat \<Rightarrow> nat" where
  "give x a = x(a := Suc (x a))"

definition set_key :: "sds \<Rightarrow> nat \<Rightarrow> redisDb \<Rightarrow> redisDb" where
  "set_key k v db = db\<lparr>db_dict := dictSet (db_dict db) k v\<rparr>"

lemma set_key_simps [simp]:
  "db_dict (set_key k v db) = dictSet (db_dict db) k v" "db_expires (set_key k v db) = db_expires db"
  "db_id (set_key k v db) = db_id db"
  by (simp_all add: set_key_def)

lemma db_ok_set_key: "db_ok db \<Longrightarrow> db_ok (set_key k v db)"
  by (auto simp: db_ok_def)

lemma dbs_ok_set_key:
  "\<forall>db \<in> set ds. db_ok db \<Longrightarrow> i < length ds \<Longrightarrow> \<forall>db \<in> set (ds[i := set_key k v (ds ! i)]). db_ok db"
  by (auto simp: db_ok_set_key dest!: set_update_subset_insert [THEN subsetD])

text \<open>A new key: the reference the caller gave becomes the database's.\<close>

lemma ks_ok_add:
  assumes "ks_ok (give x val) s" "i < length (dbs s)" "dictFind (db_dict (dbs s ! i)) k = None"
    and "heap s val = Some vo" "same_value vo vo'"
    and "dbs s' = (dbs s)[i := set_key k val (dbs s ! i)]" "heap s' = (heap s)(val \<mapsto> vo')"
  shows "ks_ok x s'"
proof -
  have r: "x c + refs (dbs s') c = give x val c + refs (dbs s) c" for c
    using refs_set [OF assms(2), of "set_key k val (dbs s ! i)" k val c] assms(3,6) by (simp add: give_def)
  have k1: "ks_ok (give x val) (set_obj val vo' s)" by (rule ks_ok_set_obj [OF assms(1,4,5)])
  have "values_ok x (dbs s') (heap s')"
    unfolding values_ok_def r assms(7) using ks_okD [OF k1] by simp
  moreover have "\<forall>db \<in> set (dbs s'). db_ok db"
    unfolding assms(6) using assms(1,2) by (intro dbs_ok_set_key) (simp_all add: ks_ok_def)
  ultimately show ?thesis by (simp add: ks_ok_def)
qed

lemma dbAdd_eq:
  assumes "ks_ok (give x val) s" "i < length (dbs s)" "dictFind (db_dict (dbs s ! i)) k = None"
    and "heap s val = Some vo" "can_enter s vo"
  shows "\<exists>s' vo'. dbAddInternal i k val u s = Inr s' \<and> ks_ok x s' \<and> same_value vo vo'
           \<and> dbs s' = (dbs s)[i := set_key k val (dbs s ! i)] \<and> heap s' = (heap s)(val \<mapsto> vo')
           \<and> (\<exists>evs. events s' = events s @ evs \<and> handed evs = (\<lambda>_. 0))"
proof -
  have "obj_valid vo" using ks_okD [OF assms(1), of val] assms(4) by (auto simp: give_def)
  then obtain vo' where v: "initObjectLRUOrLFU s vo = Inr vo'" "same_value vo vo'"
    using initObject_ok assms(5) by (auto simp: obj_valid_def)
  define s' where "s' = emit (NotifyKeyspace NOTIFY_NEW ''new'' k (db_id (dbs s ! i)))
     (if cluster_enabled s then emit (SlotToKeyAdd (db_id (dbs s ! i)) k)
        (emit (SignalKeyAsReady (db_id (dbs s ! i)) k (otype vo))
          (put_db i (set_key k val (dbs s ! i)) (set_obj val vo' s)))
      else emit (SignalKeyAsReady (db_id (dbs s ! i)) k (otype vo))
          (put_db i (set_key k val (dbs s ! i)) (set_obj val vo' s)))"
  have f: "dbs s' = (dbs s)[i := set_key k val (dbs s ! i)]" "heap s' = (heap s)(val \<mapsto> vo')"
    by (simp_all add: s'_def put_db_def)
  have "cluster_enabled (put_db i d (set_obj val vo' s)) = cluster_enabled s" for d
    by (simp add: put_db_def set_obj_def)
  then have "dbAddInternal i k val u s = Inr s'"
    using assms(2,3,4) v(1) by (simp add: dbAddInternal_def s'_def Let_def set_key_def)
  moreover have "events s' = events s @ ([SignalKeyAsReady (db_id (dbs s ! i)) k (otype vo)]
      @ (if cluster_enabled s then [SlotToKeyAdd (db_id (dbs s ! i)) k] else [])
      @ [NotifyKeyspace NOTIFY_NEW ''new'' k (db_id (dbs s ! i))])"
    by (simp add: s'_def emit_def put_db_def set_obj_def)
  moreover have "handed ([SignalKeyAsReady (db_id (dbs s ! i)) k (otype vo)]
      @ (if cluster_enabled s then [SlotToKeyAdd (db_id (dbs s ! i)) k] else [])
      @ [NotifyKeyspace NOTIFY_NEW ''new'' k (db_id (dbs s ! i))]) = (\<lambda>_. 0)"
    by (auto simp: fun_eq_iff)
  ultimately show ?thesis using f v(2) ks_ok_add [OF assms(1-4) v(2) f] by blast
qed

lemma ks_ok_overwrite:
  assumes "ks_ok (give x val) s" "i < length (dbs s)" "dictFind (db_dict (dbs s ! i)) k = Some old"
    and "heap s old = Some oo" "h = heap s \<or> h = drop_ref (heap s) old oo"
    and "dbs s' = (dbs s)[i := set_key k val (dbs s ! i)]" "heap s' = h"
  shows "ks_ok x s'"
proof -
  have p: "0 < refs (dbs s) old" using refs_pos [OF assms(2,3)] .
  have r: "x c + refs (dbs s') c = give x val c + refs (dbs s) c - (if c = old then 1 else 0)" for c
    using refs_set [OF assms(2), of "set_key k val (dbs s ! i)" k val c] assms(3,6) p by (auto simp: give_def)
  have "\<exists>ob. h c = Some ob \<and> obj_valid ob \<and> counted ob (x c + refs (dbs s') c)"
    if "0 < x c + refs (dbs s') c" for c
  proof -
    have pos: "0 < give x val c + refs (dbs s) c" using that r [of c] by linarith
    obtain oc where oc: "heap s c = Some oc" "obj_valid oc" "counted oc (give x val c + refs (dbs s) c)"
      using ks_okD [OF assms(1) pos] by (elim exE conjE) (rule that)
    show ?thesis
    proof (cases "c = old \<and> h = drop_ref (heap s) old oo")
      case True
      then have "give x val old + refs (dbs s) old = Suc (x old + refs (dbs s') old)" "0 < x old + refs (dbs s') old"
        using that r [of old] p by auto
      then show ?thesis
        using drop_ref_counted [of "heap s" old oo "x old + refs (dbs s') old"] oc assms(4) True by auto
    next
      case False
      then have "h c = heap s c" using assms(5) by (auto simp: drop_ref_other)
      moreover have "counted oc (x c + refs (dbs s') c)" using oc(3) r [of c] by (auto simp: counted_def)
      ultimately show ?thesis using oc by simp
    qed
  qed
  then have "values_ok x (dbs s') (heap s')" unfolding values_ok_def assms(7) by blast
  moreover have "\<forall>db \<in> set (dbs s'). db_ok db"
    unfolding assms(6) using assms(1,2) by (intro dbs_ok_set_key) (simp_all add: ks_ok_def)
  ultimately show ?thesis by (simp add: ks_ok_def)
qed

lemma dbSetValue_eq:
  assumes "ks_ok (give x val) s" "i < length (dbs s)" "dictFind (db_dict (dbs s ! i)) k = Some old"
    and "heap s old = Some oo" "heap s val = Some vo"
  shows "\<exists>s'. dbSetValue i k val ow s = Inr s' \<and> ks_ok x s'
           \<and> dbs s' = (dbs s)[i := set_key k val (dbs s ! i)]
           \<and> heap s' = (if lazyfree_lazy_server_del s then (heap s)(val \<mapsto> vo\<lparr>lru := lru oo\<rparr>)
                        else drop_ref ((heap s)(val \<mapsto> vo\<lparr>lru := lru oo\<rparr>)) old
                               (if old = val then vo\<lparr>lru := lru oo\<rparr> else oo))
           \<and> lruclock s' = lruclock s \<and> hz s' = hz s \<and> mstime s' = mstime s
           \<and> (\<exists>evs. s' = s\<lparr>dbs := (dbs s)[i := set_key k val (dbs s ! i)], heap := heap s', events := events s @ evs\<rparr>
                \<and> (\<forall>c. handed evs c = (if lazyfree_lazy_server_del s \<and> c = old then 1 else 0)))"
proof -
  let ?db = "dbs s ! i" and ?vo = "vo\<lparr>lru := lru oo\<rparr>"
  define s1 where "s1 = set_obj val ?vo s"
  define od where "od = (if old = val then ?vo else oo)"
  have sv: "same_value vo ?vo" by (simp add: same_value_def robj_wf_def)
  have k1: "ks_ok (give x val) s1" unfolding s1_def by (rule ks_ok_set_obj [OF assms(1,5) sv])
  have d1: "dbs s1 = dbs s" "lazyfree_lazy_server_del s1 = lazyfree_lazy_server_del s"
      "lruclock s1 = lruclock s" "hz s1 = hz s" "mstime s1 = mstime s"
    by (simp_all add: s1_def set_obj_def)
  have h1: "heap s1 old = Some od" "heap s1 = (heap s)(val \<mapsto> ?vo)" using assms(4) by (simp_all add: s1_def od_def)
  have p: "0 < give x val old + refs (dbs s1) old" using refs_pos [OF assms(2,3)] d1 by simp
  have v: "obj_valid od" "counted od (give x val old + refs (dbs s) old)"
    using ks_okD [OF k1 p] h1 d1 by auto
  obtain t ot where t: "incrRefCount old s1 = Inr t"
      "\<And>e1 e2. decrRefCount old (emit e1 (emit e2 t)) = Inr (emit e1 (emit e2 s1))"
    using incr_decr_events [OF h1(1) v(2)] by blast
  define s3 where "s3 = (if ow then emit (SignalDeletedKeyAsReady (db_id ?db) k (otype oo))
      (emit (ModuleNotifyKeyUnlink k old (db_id ?db) DB_FLAG_KEY_OVERWRITE) s1) else s1)"
  define ev3 where "ev3 = (if ow then [ModuleNotifyKeyUnlink k old (db_id ?db) DB_FLAG_KEY_OVERWRITE,
      SignalDeletedKeyAsReady (db_id ?db) k (otype oo)] else [])"
  define s4 where "s4 = put_db i (set_key k val ?db) s3"
  have d4: "dbs s4 = (dbs s)[i := set_key k val ?db]" "heap s4 = heap s1"
      "lazyfree_lazy_server_del s4 = lazyfree_lazy_server_del s"
      "lruclock s4 = lruclock s" "hz s4 = hz s" "mstime s4 = mstime s"
    using d1 by (simp_all add: s4_def s3_def put_db_def)
  have ev: "s4 = s\<lparr>dbs := (dbs s)[i := set_key k val ?db], heap := heap s1, events := events s @ ev3\<rparr>"
      "handed ev3 c = 0" for c
    by (simp_all add: s4_def s3_def s1_def ev3_def put_db_def set_obj_def emit_def)
  have e: "dbSetValue i k val ow s =
      (if lazyfree_lazy_server_del s then Inr (emit (FreeObjAsync old) s4) else decrRefCount old s4)"
    using assms(2-5) t d4(3)
    by (cases ow) (simp_all add: dbSetValue_def Let_def s4_def s3_def set_key_def flip: s1_def)
  have "heap s4 old = Some od" using h1 d4 by simp
  from decrRefCount_frees [OF this v] obtain evs where
    d: "decrRefCount old s4 = Inr (s4\<lparr>heap := drop_ref (heap s4) old od, events := events s4 @ evs\<rparr>)"
    and ev4: "handed evs = (\<lambda>_. 0)" by blast
  have k: "ks_ok x s'" if "dbs s' = dbs s4" "heap s' = heap s1 \<or> heap s' = drop_ref (heap s1) old od" for s'
    by (rule ks_ok_overwrite [OF k1 _ _ h1(1) that(2) _ refl]) (use that(1) d4(1) d1(1) assms(2,3) in simp_all)
  show ?thesis
  proof (cases "lazyfree_lazy_server_del s")
    case True
    moreover have "ks_ok x (emit (FreeObjAsync old) s4)" by (rule k) (simp_all add: d4)
    moreover have "emit (FreeObjAsync old) s4 = s\<lparr>dbs := (dbs s)[i := set_key k val ?db],
        heap := heap (emit (FreeObjAsync old) s4), events := events s @ ev3 @ [FreeObjAsync old]\<rparr>"
      unfolding ev(1) emit_def by simp
    moreover have "handed (ev3 @ [FreeObjAsync old]) c = (if c = old then 1 else 0)" for c using ev(2) by auto
    ultimately show ?thesis using e d4 h1(2)
      by (intro exI [of _ "emit (FreeObjAsync old) s4"] conjI exI [of _ "ev3 @ [FreeObjAsync old]"]) simp_all
  next
    case False
    let ?s' = "s4\<lparr>heap := drop_ref (heap s4) old od, events := events s4 @ evs\<rparr>"
    have "ks_ok x ?s'" by (rule k) (simp_all add: d4)
    moreover have "?s' = s\<lparr>dbs := (dbs s)[i := set_key k val ?db], heap := heap ?s', events := events s @ ev3 @ evs\<rparr>"
      by (subst (2) ev(1), subst ev(1)) simp
    moreover have "handed (ev3 @ evs) c = 0" for c using ev(2) ev4 by simp
    ultimately show ?thesis using e d d4 h1(2) False
      by (intro exI [of _ ?s'] conjI exI [of _ "ev3 @ evs"]) (simp_all add: od_def)
  qed
qed

lemma dbSetValue_accounts:
  assumes "ks_ok (give x val) s" "i < length (dbs s)" "dictFind (db_dict (dbs s ! i)) k = Some old"
    and "heap s old = Some oo" "heap s val = Some vo"
  shows "\<exists>s' evs vo'. dbSetValue i k val ow s = Inr s'
           \<and> s' = s\<lparr>dbs := (dbs s)[i := set_key k val (dbs s ! i)], heap := heap s', events := events s @ evs\<rparr>
           \<and> (\<forall>c. handed evs c = (if lazyfree_lazy_server_del s \<and> c = old then 1 else 0))
           \<and> accounts (give x val) s (with_handed x evs) s' \<and> ks_ok (with_handed x evs) s'
           \<and> heap s' val = Some vo' \<and> vo' = vo\<lparr>lru := lru oo, refcount := refcount vo'\<rparr>"
proof -
  let ?vo = "vo\<lparr>lru := lru oo\<rparr>" and ?ds = "(dbs s)[i := set_key k val (dbs s ! i)]"
  let ?od = "if old = val then ?vo else oo" and ?lazy = "lazyfree_lazy_server_del s"
  obtain s' evs where s': "dbSetValue i k val ow s = Inr s'" "dbs s' = ?ds"
      "heap s' = (if ?lazy then (heap s)(val \<mapsto> ?vo) else drop_ref ((heap s)(val \<mapsto> ?vo)) old ?od)"
      "s' = s\<lparr>dbs := ?ds, heap := heap s', events := events s @ evs\<rparr>"
      "\<forall>c. handed evs c = (if ?lazy \<and> c = old then 1 else 0)"
    using dbSetValue_eq [OF assms, of ow] by (elim exE conjE) (rule that)
  define s1 where "s1 = set_obj val ?vo s"
  have sv: "same_value vo ?vo" by (simp add: same_value_def robj_wf_def)
  have k1: "ks_ok (give x val) s1" unfolding s1_def by (rule ks_ok_set_obj [OF assms(1,5) sv])
  have h1: "heap s1 = (heap s)(val \<mapsto> ?vo)" "heap s1 old = Some ?od" "dbs s1 = dbs s"
    using assms(4) by (simp_all add: s1_def set_obj_def)
  have a1: "accounts (give x val) s (give x val) s1"
    using sv assms(5) h1 by (intro accounts_touch [OF assms(1)]) (auto simp: owed_def give_def)
  have p: "0 < refs (dbs s) old" using refs_pos [OF assms(2,3)] .
  have r: "refs (dbs s') c = refs (dbs s) c - (if c = old then 1 else 0) + (if c = val then 1 else 0)" for c
    unfolding s'(2) using refs_set [OF assms(2), of "set_key k val (dbs s ! i)" k val c] assms(3) by auto
  have a2: "accounts (give x val) s1 (with_handed x evs) s'"
  proof (cases ?lazy)
    case True
    then show ?thesis using r p s'(3,5) h1 by (intro accounts_same [OF k1]) (auto simp: owed_def give_def with_handed_def)
  next
    case False
    then show ?thesis using r p s'(3,5) h1
      by (intro accounts_drop [OF k1 h1(2)]) (auto simp: owed_def give_def with_handed_def)
  qed
  have acc: "accounts (give x val) s (with_handed x evs) s'" by (rule accounts_trans [OF a1 a2])
  have "\<forall>db \<in> set (dbs s'). db_ok db"
    unfolding s'(2) using assms(1,2) by (intro dbs_ok_set_key) (simp_all add: ks_ok_def)
  then have ok: "ks_ok (with_handed x evs) s'" by (rule accounts_ks_ok [OF assms(1) acc])
  have "0 < owed (with_handed x evs) s' val" using r [of val] by (simp add: owed_def)
  then obtain vo' where vo': "heap s' val = Some vo'" using ks_okO [OF ok, of val] by (metis less_numeral_extra(3))
  then have "vo' = vo\<lparr>lru := lru oo, refcount := refcount vo'\<rparr>"
    unfolding s'(3) by (auto simp: drop_ref_def split: if_splits)
  with s'(1,4,5) acc ok vo' show ?thesis by blast
qed

lemma drop_ref_val:
  assumes "h val = Some vo" "counted vo n" "0 < n"
  shows "drop_ref h old oo val = (if old = val then drop_ref h val oo val else Some vo)"
  using assms by (auto simp: drop_ref_def)

text \<open>What incrementing the count for the database gives back to the caller.\<close>

lemma ks_ok_incr:
  assumes "ks_ok x s" "heap s a = Some ob" "0 < x a + refs (dbs s) a"
    and "refcount ob = OBJ_SHARED_REFCOUNT \<or> refcount ob + 1 < OBJ_FIRST_SPECIAL_REFCOUNT"
  shows "\<exists>s'. incrRefCount a s = Inr s' \<and> ks_ok (give x a) s' \<and> dbs s' = dbs s"
proof -
  have v: "obj_valid ob" "counted ob (x a + refs (dbs s) a)" using ks_okD [OF assms(1,3)] assms(2) by auto
  show ?thesis
  proof (cases "refcount ob = OBJ_SHARED_REFCOUNT")
    case True
    then have "values_ok (give x a) (dbs s) (heap s)"
      using ks_okD [OF assms(1)] assms(2) v(1) unfolding values_ok_def give_def
      by (auto simp: counted_def)
    with True assms(1,2) show ?thesis
      by (simp add: incrRefCount_def refcount_defs ks_ok_def)
  next
    case False
    let ?ob = "ob\<lparr>refcount := refcount ob + 1\<rparr>"
    have "counted ?ob (give x a a + refs (dbs s) a)"
      using v(2) False assms(4) by (auto simp: counted_def give_def)
    then have "values_ok (give x a) (dbs s) ((heap s)(a \<mapsto> ?ob))"
      using ks_okD [OF assms(1)] v(1) unfolding values_ok_def by (auto simp: give_def)
    with False assms show ?thesis
      by (auto simp: incrRefCount_def ks_ok_def)
  qed
qed

lemma removeExpire_ok:
  assumes "ks_ok x s" "i < length (dbs s)"
  shows "\<exists>b s'. removeExpire i k s = Inr (b, s') \<and> ks_ok x s' \<and>
           dbs s' = (dbs s)[i := (dbs s ! i)\<lparr>db_expires := dictDelete (db_expires (dbs s ! i)) k\<rparr>]"
proof -
  let ?db = "(dbs s ! i)\<lparr>db_expires := dictDelete (db_expires (dbs s ! i)) k\<rparr>"
  have r: "refs ((dbs s)[i := ?db]) c = refs (dbs s) c" for c
    using refs_update [OF assms(2), of ?db c] by simp
  have "db_ok (dbs s ! i)" using assms by (simp add: ks_ok_def)
  then have "db_ok ?db" by (auto simp: db_ok_def)
  then have "ks_ok x (put_db i ?db s)"
    using assms by (auto simp: ks_ok_def values_ok_def put_db_def r dest!: set_update_subset_insert [THEN subsetD])
  with assms(2) show ?thesis by (simp add: removeExpire_def put_db_def)
qed

text \<open>
  C16: Overwriting a key stores the new value under it, with the LRU field of the old one, and changes no other
  key, no expire and nothing else of the server. The reference the database had to the old value is released
  exactly once: its count goes down by one and it is deallocated exactly when that was the last reference,
  or, with lazy deletion, the reference is handed to the lazy-free thread once; the reference the caller
  passes becomes the database's. All this holds also when the value is the one already stored.
\<close>

theorem dbSetValue_correct:
  assumes "ks_ok (give x val) s" "i < length (dbs s)" "dictFind (db_dict (dbs s ! i)) k = Some old"
    and "heap s old = Some oo" "heap s val = Some vo"
  shows "\<exists>s' evs vo'. dbSetValue i k val ow s = Inr s'
           \<and> s' = s\<lparr>dbs := (dbs s)[i := set_key k val (dbs s ! i)], heap := heap s', events := events s @ evs\<rparr>
           \<and> (\<forall>c. handed evs c = (if lazyfree_lazy_server_del s \<and> c = old then 1 else 0))
           \<and> accounts (give x val) s (with_handed x evs) s' \<and> ks_ok (with_handed x evs) s'
           \<and> heap s' val = Some vo' \<and> vo' = vo\<lparr>lru := lru oo, refcount := refcount vo'\<rparr>"
  by (rule dbSetValue_accounts [OF assms])

definition three_objs :: server where
  "three_objs = two_keys\<lparr>heap := (heap two_keys)(2 \<mapsto> sample_obj 5), next_addr := 3\<rparr>"

lemma ks_ok_three_objs: "ks_ok (give (\<lambda>_. 0) 2) three_objs"
proof -
  have d: "dbs three_objs = dbs two_keys" by (simp add: three_objs_def)
  have "counted (sample_obj l) 1" for l by (simp add: counted_def sample_obj_def refcount_defs)
  then have "values_ok (give (\<lambda>_. 0) 2) (dbs two_keys) (heap three_objs)"
    unfolding values_ok_def refs_two_keys
    by (auto simp: give_def obj_valid_sample two_keys_def three_objs_def split: if_splits)
  with ks_ok_two_keys show ?thesis by (simp add: ks_ok_def d)
qed

lemma three_objs_dbs [simp]: "length (dbs three_objs) = 2" "dbs three_objs = dbs two_keys"
  by (simp_all add: three_objs_def)

theorem dbSetValue_correct_witness:
  "\<exists>s' vo'. dbSetValue 0 [97] 2 True three_objs = Inr s' \<and> db_dict (dbs s' ! 0) = [([97], 2), ([98], 1)]
        \<and> heap s' 2 = Some vo' \<and> lru vo' = 3 \<and> ptr vo' = ptr (sample_obj 5)"
proof -
  have o: "heap three_objs 0 = Some (sample_obj 3)" "heap three_objs 2 = Some (sample_obj 5)"
    by (simp_all add: three_objs_def two_keys_def)
  have "dictFind (db_dict (dbs three_objs ! 0)) [97] = Some 0" by (simp add: dictFind_def)
  from dbSetValue_correct [OF ks_ok_three_objs _ this o, of True]
  obtain s' evs vo' where s': "dbSetValue 0 [97] 2 True three_objs = Inr s'"
      "s' = three_objs\<lparr>dbs := (dbs three_objs)[0 := set_key [97] 2 (dbs three_objs ! 0)], heap := heap s',
        events := events three_objs @ evs\<rparr>"
      "heap s' 2 = Some vo'" "vo' = (sample_obj 5)\<lparr>lru := lru (sample_obj 3), refcount := refcount vo'\<rparr>"
    by auto
  have "dbs s' ! 0 = set_key [97] 2 (dbs three_objs ! 0)" by (subst s'(2)) simp
  then have "db_dict (dbs s' ! 0) = [([97], 2), ([98], 1)]" by (simp add: dictSet_def)
  moreover have "lru vo' = 3" "ptr vo' = ptr (sample_obj 5)" by (subst s'(4), simp add: sample_obj_def)+
  ultimately show ?thesis using s'(1,3) by blast
qed

lemma drop_ref_at:
  "h c = Some ob \<Longrightarrow> drop_ref h c ob c = Some ob' \<Longrightarrow> num_accesses ob' = num_accesses ob \<and> robj_wf ob' = robj_wf ob
     \<and> lru ob' = lru ob"
  by (auto simp: drop_ref_def robj_wf_def split: if_splits)

text \<open>
  C22: under the histogram policy an overwritten value keeps the LRU field of the old value but not its
  access history: a value created for the overwrite, with no recorded access, gets score 0, which is
  above the score of every object that has been accessed.
\<close>

theorem overwrite_forgets_history:
  assumes "ks_ok (give x val) s" "i < length (dbs s)" "dictFind (db_dict (dbs s ! i)) k = Some old"
    and "heap s old = Some oo" "heap s val = Some vo" "old \<noteq> val" "num_accesses vo = 0" "length wb = 5"
  shows "\<exists>s' vo'. dbSetValue i k val ow s = Inr s' \<and> heap s' val = Some vo' \<and> lru vo' = lru oo
           \<and> estimateObjectEvictionScore s' vo' wb = Inr (Fin 0)"
proof -
  let ?vo = "vo\<lparr>lru := lru oo\<rparr>"
  obtain s' where s': "dbSetValue i k val ow s = Inr s'"
      "heap s' = (if lazyfree_lazy_server_del s then (heap s)(val \<mapsto> ?vo)
                  else drop_ref ((heap s)(val \<mapsto> ?vo)) old (if old = val then ?vo else oo))"
    using dbSetValue_eq [OF assms(1-5), of ow] by blast
  then have h: "heap s' val = Some ?vo" using assms(6) by (auto simp: drop_ref_other)
  have "obj_valid vo" using ks_okD [OF assms(1), of val] assms(5) by (auto simp: give_def)
  then have ok: "hist_ok ?vo" using assms(7) by (simp add: hist_ok_def obj_valid_def robj_wf_def)
  have "ages (ucast (LRU_CLOCK s')) ?vo = []" using length_ages [OF ok] assms(7) by simp
  moreover have "score_of wb [] = 0" by (simp add: score_of_def window_count_def wsum_def wadd_def)
  ultimately have "estimateObjectEvictionScore s' ?vo wb = Inr (Fin 0)"
    using estimate_score_of [OF ok assms(8), of s'] by simp
  with s'(1) h show ?thesis by (intro exI [of _ s'] exI [of _ ?vo]) simp
qed

theorem overwrite_forgets_history_witness:
  "\<exists>s' vo'. dbSetValue 0 [97] 2 True three_objs = Inr s' \<and> heap s' 2 = Some vo' \<and> lru vo' = 3
     \<and> estimateObjectEvictionScore s' vo' (replicate 5 (Fin 7)) = Inr (Fin 0)"
proof -
  have o: "heap three_objs 0 = Some (sample_obj 3)" "heap three_objs 2 = Some (sample_obj 5)"
    by (simp_all add: three_objs_def two_keys_def)
  have "\<exists>s' vo'. dbSetValue 0 [97] 2 True three_objs = Inr s' \<and> heap s' 2 = Some vo' \<and> lru vo' = lru (sample_obj 3)
     \<and> estimateObjectEvictionScore s' vo' (replicate 5 (Fin 7)) = Inr (Fin 0)"
    by (rule overwrite_forgets_history [OF ks_ok_three_objs _ _ o])
      (simp_all add: dictFind_def sample_obj_def)
  then show ?thesis by (simp add: sample_obj_def)
qed
end
