(* ===== verification/Evict_Loop.thy ===== *)
theory Evict_Loop
  imports Evict_Pool Max_Memory Keyspace
begin

section \<open>The eviction cycle: performEvictions and its timer (evict.c)\<close>

text \<open>
  One call of \<open>performEvictions\<close> over the server and the pool. What the cycle asks of the rest of the
  process is the record \<open>evict_env\<close>: the memory in use as a function of the state, the samples of
  \<open>dictGetSomeKeys\<close> and \<open>dictGetRandomKey\<close>, the monotonic clock, the lazy-free queue, \<open>pow\<close>. The
  three loops that have no bound of their own (evicting, refilling the pool, waiting for the lazy-free
  thread) take fuel; the theorems below give an amount that is enough. Latency samples, the debug
  output and the execution-unit bookkeeping are left out; \<open>server.also_propagate\<close> is its number of
  operations, given by the environment.
\<close>

datatype evict_result = EVICT_OK | EVICT_RUNNING | EVICT_FAIL

record evict_env =
  zmalloc_used_memory :: "server \<Rightarrow> u64"
  repl_node_size :: u64
  \<comment> \<open>keys freed so far, round of refilling, database, keys of the dictionary\<close>
  dictGetSomeKeys :: "nat \<Rightarrow> nat \<Rightarrow> nat \<Rightarrow> sds list \<Rightarrow> sds list"
  dictGetRandomKey :: "nat \<Rightarrow> sds list \<Rightarrow> sds"
  \<comment> \<open>\<open>elapsedUs(evictionTimer)\<close> after so many keys, and in each round of waiting\<close>
  elapsedUs :: "nat \<Rightarrow> u64"
  waitedUs :: "nat \<Rightarrow> u64"
  bioPending :: "nat \<Rightarrow> bool"
  \<comment> \<open>the monotonic clock at the end of the call, never 0\<close>
  now_us :: u64
  also_propagate_numops :: nat
  c_pow :: "double \<Rightarrow> double \<Rightarrow> double"

definition mem_status :: "evict_env \<Rightarrow> server \<Rightarrow> mem_state" where
  "mem_status env s = getMaxmemoryState (zmalloc_used_memory env s) (repl_node_size env) False s"

subsection \<open>Choosing a key from the pool\<close>

text \<open>The dictionary the policy samples: all keys, or those with an expire.\<close>

definition policy_keys :: "server \<Rightarrow> redisDb \<Rightarrow> sds list" where
  "policy_keys s db =
     (if flag_set (maxmemory_policy s) MAXMEMORY_FLAG_ALLKEYS
      then map fst (db_dict db) else map fst (db_expires db))"

definition populate_db ::
  "evict_env \<Rightarrow> nat \<Rightarrow> nat \<Rightarrow> server \<Rightarrow> nat \<Rightarrow> redisDb \<Rightarrow> evpool \<Rightarrow> evpool cres" where
  "populate_db env n r s i db p =
     (let samples = dictGetSomeKeys env n r i (policy_keys s db) in
      if flag_set (maxmemory_policy s) MAXMEMORY_FLAG_LRU_HISTOGRAM
      then evictionPoolPopulateLRUHistogram s (int i) db samples p
      else evictionPoolPopulate s (int i) db samples p)"

fun populate_dbs ::
  "evict_env \<Rightarrow> nat \<Rightarrow> nat \<Rightarrow> server \<Rightarrow> nat list \<Rightarrow> evpool \<Rightarrow> nat \<Rightarrow> (evpool \<times> nat) cres" where
  "populate_dbs env n r s [] p total_keys = Inr (p, total_keys)"
| "populate_dbs env n r s (i # is) p total_keys =
     cbind (get_db s i) (\<lambda>db.
     let keys = length (policy_keys s db) in
     if keys \<noteq> 0
     then cbind (populate_db env n r s i db p) (\<lambda>p'. populate_dbs env n r s is p' (total_keys + keys))
     else populate_dbs env n r s is p total_keys)"

text \<open>Backward through the pool: every entry looked at is removed; ghosts are skipped.\<close>

fun take_best :: "server \<Rightarrow> nat list \<Rightarrow> evpool \<Rightarrow> ((sds \<times> nat) option \<times> evpool) cres" where
  "take_best s [] p = Inr (None, p)"
| "take_best s (k # ks) p =
     cbind (arr_get (slots p) k) (\<lambda>e.
       case key_bytes (bufs p) e of
         None \<Rightarrow> take_best s ks p
       | Some key \<Rightarrow>
           if edbid e < 0 then Inl OutOfBounds
           else cbind (get_db s (nat (edbid e))) (\<lambda>db.
             cbind (arr_set (slots p) k (e\<lparr>ekey := PNull, eidle := 0, escore := Fin 0\<rparr>)) (\<lambda>es.
             if key \<in> set (policy_keys s db)
             then Inr (Some (key, nat (edbid e)), p\<lparr>slots := es\<rparr>)
             else take_best s ks (p\<lparr>slots := es\<rparr>))))"

fun best_from_pool ::
  "evict_env \<Rightarrow> nat \<Rightarrow> server \<Rightarrow> nat \<Rightarrow> nat \<Rightarrow> evpool \<Rightarrow> ((sds \<times> nat) option \<times> evpool) cres" where
  "best_from_pool env n s r 0 p = Inl OutOfFuel"
| "best_from_pool env n s r (Suc fuel) p =
     cbind (populate_dbs env n r s [0..<dbnum s] p 0) (\<lambda>(p1, total_keys).
     if total_keys = 0 then Inr (None, p1)
     else cbind (take_best s (rev [0..<EVPOOL_SIZE]) p1) (\<lambda>(best, p2).
       case best of
         Some _ \<Rightarrow> Inr (best, p2)
       | None \<Rightarrow> best_from_pool env n s (Suc r) fuel p2))"

subsection \<open>Choosing a random key\<close>

text \<open>\<open>next_db\<close> is a static \<open>unsigned int\<close> that only grows, so it wraps.\<close>

fun random_from_dbs :: "evict_env \<Rightarrow> nat \<Rightarrow> nat \<Rightarrow> server \<Rightarrow> ((sds \<times> nat) option \<times> server) cres" where
  "random_from_dbs env n 0 s = Inr (None, s)"
| "random_from_dbs env n (Suc m) s =
     (let s' = s\<lparr>next_db := next_db s + 1\<rparr>; j = unat (next_db s') mod dbnum s' in
      cbind (get_db s' j) (\<lambda>db.
        let keys = (if maxmemory_policy s = MAXMEMORY_ALLKEYS_RANDOM
                    then map fst (db_dict db) else map fst (db_expires db)) in
        if keys \<noteq> [] then Inr (Some (dictGetRandomKey env n keys, j), s')
        else random_from_dbs env n m s'))"

text \<open>\<open>bestkey\<close> and \<open>bestdbid\<close>, or nothing.\<close>

definition choose_key ::
  "evict_env \<Rightarrow> nat \<Rightarrow> nat \<Rightarrow> server \<Rightarrow> evpool \<Rightarrow> ((sds \<times> nat) option \<times> server \<times> evpool) cres" where
  "choose_key env fuel n s p =
     (if flag_set (maxmemory_policy s)
           (MAXMEMORY_FLAG_LRU OR MAXMEMORY_FLAG_LFU OR MAXMEMORY_FLAG_LRU_HISTOGRAM)
         \<or> maxmemory_policy s = MAXMEMORY_VOLATILE_TTL
      then cbind (best_from_pool env n s 0 fuel p) (\<lambda>(best, p'). Inr (best, s, p'))
      else if maxmemory_policy s = MAXMEMORY_ALLKEYS_RANDOM
              \<or> maxmemory_policy s = MAXMEMORY_VOLATILE_RANDOM
      then cbind (random_from_dbs env n (dbnum s) s) (\<lambda>(best, s'). Inr (best, s', p))
      else Inr (None, s, p))"

subsection \<open>Evicting one key\<close>

text \<open>The memory counted as freed is that of the deletion alone.\<close>

definition evict_key :: "evict_env \<Rightarrow> sds \<Rightarrow> nat \<Rightarrow> server \<Rightarrow> (int \<times> server) cres" where
  "evict_key env key i s =
     cbind (get_db s i) (\<lambda>db.
     let (keyobj, s0) = createStringObject key s in
     cbind (dbGenericDelete i key (lazyfree_lazy_eviction s0) DB_FLAG_KEY_EVICTED s0) (\<lambda>(_, s1).
     let delta = sint (zmalloc_used_memory env s0) - sint (zmalloc_used_memory env s1);
         s2 = signalModifiedKey db key (s1\<lparr>stat_evictedkeys := stat_evictedkeys s1 + 1\<rparr>);
         s3 = emit (NotifyKeyspace NOTIFY_EVICTED ''evicted'' key (db_id db)) s2;
         s4 = propagateDeletion db key (lazyfree_lazy_eviction s3) s3
     in cbind (decrRefCount keyobj s4) (\<lambda>s5. Inr (delta, s5))))"

subsection \<open>The loop\<close>

text \<open>
  The first component tells whether the loop went to \<open>cant_free\<close>. The number of slaves is read once,
  before the loop.
\<close>

fun evict_loop ::
  "evict_env \<Rightarrow> nat \<Rightarrow> bool \<Rightarrow> u64 \<Rightarrow> int \<Rightarrow> nat \<Rightarrow> nat \<Rightarrow> int \<Rightarrow> server \<Rightarrow> evpool
     \<Rightarrow> (bool \<times> server \<times> evpool) cres" where
  "evict_loop env pfuel has_slaves limit mem_tofree 0 keys_freed mem_freed s p =
     (if mem_freed < mem_tofree then Inl OutOfFuel else Inr (False, s, p))"
| "evict_loop env pfuel has_slaves limit mem_tofree (Suc fuel) keys_freed mem_freed s p =
     (if \<not> mem_freed < mem_tofree then Inr (False, s, p)
      else cbind (choose_key env pfuel keys_freed s p) (\<lambda>(best, s1, p1).
        case best of
          None \<Rightarrow> Inr (True, s1, p1)
        | Some (key, i) \<Rightarrow>
            cbind (evict_key env key i s1) (\<lambda>(delta, s2).
            let n = Suc keys_freed in
            if n mod 16 = 0
            then (let s3 = (if has_slaves then emit FlushSlavesOutputBuffers s2 else s2) in
                  if lazyfree_lazy_eviction s3 \<and> status (mem_status env s3) = C_OK
                  then Inr (False, s3, p1)
                  else if limit < elapsedUs env n
                  then Inr (False, startEvictionTimeProc s3, p1)
                  else evict_loop env pfuel has_slaves limit mem_tofree fuel n (mem_freed + delta) s3 p1)
            else evict_loop env pfuel has_slaves limit mem_tofree fuel n (mem_freed + delta) s2 p1)))"

text \<open>Waiting for the lazy-free thread when nothing is left to evict.\<close>

fun lazyfree_wait :: "evict_env \<Rightarrow> u64 \<Rightarrow> nat \<Rightarrow> nat \<Rightarrow> server \<Rightarrow> (evict_result \<times> server) cres" where
  "lazyfree_wait env limit k 0 s = Inl OutOfFuel"
| "lazyfree_wait env limit k (Suc fuel) s =
     (if bioPending env k \<and> waitedUs env k < limit
      then if status (mem_status env s) = C_OK then Inr (EVICT_OK, s)
           else lazyfree_wait env limit (Suc k) fuel
                  (emit (Usleep (if limit < 1000 then unat limit else 1000)) s)
      else Inr (EVICT_FAIL, s))"

definition update_metrics :: "evict_env \<Rightarrow> evict_result \<Rightarrow> server \<Rightarrow> server" where
  "update_metrics env r s =
     (if r = EVICT_RUNNING \<or> r = EVICT_FAIL
      then if stat_last_eviction_exceeded_time s = 0
           then s\<lparr>stat_last_eviction_exceeded_time := now_us env\<rparr> else s
      else if stat_last_eviction_exceeded_time s \<noteq> 0
      then s\<lparr>stat_total_eviction_exceeded_time := stat_total_eviction_exceeded_time s
                 + uint (now_us env - stat_last_eviction_exceeded_time s),
             stat_last_eviction_exceeded_time := 0\<rparr>
      else s)"

definition performEvictions ::
  "evict_env \<Rightarrow> nat \<Rightarrow> nat \<Rightarrow> nat \<Rightarrow> server \<Rightarrow> evpool \<Rightarrow> (evict_result \<times> server \<times> evpool) cres" where
  "performEvictions env pfuel fuel wfuel s p =
     (if \<not> isSafeToPerformEvictions s then Inr (EVICT_OK, s, p)
      else let st = mem_status env s in
      if status st = C_OK then Inr (EVICT_OK, update_metrics env EVICT_OK s, p)
      else if maxmemory_policy s = MAXMEMORY_NO_EVICTION
      then Inr (EVICT_FAIL, update_metrics env EVICT_FAIL s, p)
      else cbind (evictionTimeLimitUs (c_pow env) s) (\<lambda>limit.
           cbind (cassert (also_propagate_numops env = 0)) (\<lambda>_.
           case tofree st of None \<Rightarrow> Inl NullDeref
           | Some mem_tofree \<Rightarrow>
             cbind (evict_loop env pfuel (slaves s \<noteq> 0) limit (sint mem_tofree) fuel 0 0 s p)
               (\<lambda>(cant_free, s1, p1).
             cbind (if cant_free then lazyfree_wait env limit 0 wfuel s1
                    else Inr (if isEvictionProcRunning s1 then EVICT_RUNNING else EVICT_OK, s1))
               (\<lambda>(r, s2). Inr (r, update_metrics env r s2, p1))))))"

definition AE_NOMORE :: int where "AE_NOMORE = - 1"

definition evictionTimeProc ::
  "evict_env \<Rightarrow> nat \<Rightarrow> nat \<Rightarrow> nat \<Rightarrow> server \<Rightarrow> evpool \<Rightarrow> (int \<times> server \<times> evpool) cres" where
  "evictionTimeProc env pfuel fuel wfuel s p =
     cbind (performEvictions env pfuel fuel wfuel s p) (\<lambda>(r, s', p').
       if r = EVICT_RUNNING then Inr (0, s', p')
       else Inr (AE_NOMORE, s'\<lparr>isEvictionProcRunning := False\<rparr>, p'))"


subsection \<open>The pool along the cycle\<close>

text \<open>What an entry of the pool names: a key and the index of its database.\<close>

definition pool_keys :: "evpool \<Rightarrow> (sds \<times> int) list" where
  "pool_keys p = map snd (contents (\<lambda>_. ()) p)"

definition pool_inv :: "server \<Rightarrow> evpool \<Rightarrow> bool" where
  "pool_inv s p = (pool_ok p \<and> (\<forall>(k, d) \<in> set (pool_keys p). 0 \<le> d \<and> d < int (dbnum s)))"

definition candidate :: "server \<Rightarrow> sds \<Rightarrow> int \<Rightarrow> bool" where
  "candidate s k d = (0 \<le> d \<and> d < int (dbnum s) \<and> k \<in> set (policy_keys s (dbs s ! nat d)))"

definition has_candidates :: "server \<Rightarrow> bool" where
  "has_candidates s = (\<exists>db \<in> set (dbs s). policy_keys s db \<noteq> [])"

lemma pool_keys_contents: "pool_keys p = map snd (contents m p)"
  by (simp add: pool_keys_def contents_def cand_def)

lemma pool_keys_alloc: "pool_keys evictionPoolAlloc = []"
  by (simp add: pool_keys_def contents_alloc)

lemma pool_insert_set: "set (pool_insert lt c xs) \<subseteq> insert c (set xs)"
  using set_takeWhileD [of _ "\<lambda>x. lt (fst x) (fst c)" xs] set_dropWhileD [of _ "\<lambda>x. lt (fst x) (fst c)" xs]
  by (auto simp: pool_insert_def Let_def dest!: list.set_sel(2) [rotated] split: if_splits)

lemma pool_insert_nonempty: "pool_insert lt c xs \<noteq> []"
  by (auto simp: pool_insert_def Let_def EVPOOL_SIZE_def)

lemma fold_pool_insert_set: "set (fold (pool_insert lt) cs xs) \<subseteq> set cs \<union> set xs"
proof (induction cs arbitrary: xs)
  case (Cons c cs)
  then show ?case using pool_insert_set [of lt c xs] by fastforce
qed simp

lemma fold_pool_insert_nonempty: "cs \<noteq> [] \<Longrightarrow> fold (pool_insert lt) cs xs \<noteq> []"
proof (induction cs arbitrary: xs)
  case (Cons c cs)
  then show ?case by (cases cs) (simp_all add: pool_insert_nonempty)
qed simp

lemma histogram_fold:
  assumes "pool_ok p" "\<forall>k \<in> set ks. sample_object s db k = Inr (g k) \<and> hist_ok (g k)"
  shows "\<exists>p' f mn mx mean sd. evictionPoolPopulateLRUHistogram s i db ks p = Inr p' \<and> pool_ok p'
           \<and> contents escore p' = fold (pool_insert dlt) (map (\<lambda>k. (Fin (f k), k, i)) ks) (contents escore p)
           \<and> calculateStatistics s (map g ks) = Inr (mn, mx, mean, sd)
           \<and> (\<forall>k \<in> set ks. estimateObjectEvictionScore s (g k) (defineWindowBoundaries mn mx mean sd)
                = Inr (Fin (f k)))"
proof -
  have h: "\<forall>ob \<in> set (map g ks). hist_ok ob" using assms(2) by auto
  obtain mn mx mean sd where st: "calculateStatistics s (map g ks) = Inr (mn, mx, mean, sd)"
    using calculateStatistics_fold [OF h] by (cases "calculateStatistics s (map g ks)")
      (auto simp: calculateStatistics_def Let_def split: if_splits)
  define wb where "wb = defineWindowBoundaries mn mx mean sd"
  define f where "f = (\<lambda>k. score_of wb (ages (ucast (LRU_CLOCK s)) (g k)))"
  have "\<forall>k \<in> set ks. \<exists>ob. sample_object s db k = Inr ob
             \<and> estimateObjectEvictionScore s ob wb = Inr (Fin (f k))"
    using batch_scores [OF h st] assms(2) by (auto simp: wb_def f_def)
  from populate_histogram_fold [OF assms(1) this, of i]
  obtain p' where "populate_histogram s i db wb ks p = Inr p'" "pool_ok p'"
      "contents escore p' = fold (pool_insert dlt) (map (\<lambda>k. (Fin (f k), k, i)) ks) (contents escore p)"
    by blast
  moreover have "evictionPoolPopulateLRUHistogram s i db ks p = populate_histogram s i db wb ks p"
    using sample_objects_map [of ks s db g] assms(2) st
    by (simp add: evictionPoolPopulateLRUHistogram_def wb_def)
  moreover have "\<forall>k \<in> set ks. estimateObjectEvictionScore s (g k) wb = Inr (Fin (f k))"
    using batch_scores [OF h st] by (auto simp: wb_def f_def)
  ultimately show ?thesis
    using st unfolding wb_def by (intro exI [of _ p'] exI [of _ f] exI [of _ mn] exI [of _ mx] exI [of _ mean]
        exI [of _ sd]) simp
qed

text \<open>What the fillers need of the state: consistent databases, a policy that samples, histories.\<close>

definition values_hist_ok :: "server \<Rightarrow> bool" where
  "values_hist_ok s = (\<forall>db \<in> set (dbs s). \<forall>(k, a) \<in> set (db_dict db). \<forall>ob. heap s a = Some ob \<longrightarrow> hist_ok ob)"

definition evictable :: "server \<Rightarrow> bool" where
  "evictable s = (maxmemory_policy s \<in> set all_policies
     \<and> (maxmemory_policy s = MAXMEMORY_ALLKEYS_LRU_HISTOGRAM \<longrightarrow> values_hist_ok s))"

definition uses_pool :: "server \<Rightarrow> bool" where
  "uses_pool s = (flag_set (maxmemory_policy s)
       (MAXMEMORY_FLAG_LRU OR MAXMEMORY_FLAG_LFU OR MAXMEMORY_FLAG_LRU_HISTOGRAM)
     \<or> maxmemory_policy s = MAXMEMORY_VOLATILE_TTL)"

lemma policy_cases:
  assumes "maxmemory_policy s \<in> set all_policies"
  obtains "uses_pool s" "flag_set (maxmemory_policy s) MAXMEMORY_FLAG_LRU_HISTOGRAM"
      "flag_set (maxmemory_policy s) MAXMEMORY_FLAG_ALLKEYS" "maxmemory_policy s = MAXMEMORY_ALLKEYS_LRU_HISTOGRAM"
  | "uses_pool s" "\<not> flag_set (maxmemory_policy s) MAXMEMORY_FLAG_LRU_HISTOGRAM"
      "flag_set (maxmemory_policy s) MAXMEMORY_FLAG_LRU \<or> flag_set (maxmemory_policy s) MAXMEMORY_FLAG_LFU"
  | "uses_pool s" "maxmemory_policy s = MAXMEMORY_VOLATILE_TTL"
      "\<not> flag_set (maxmemory_policy s) MAXMEMORY_FLAG_LRU" "\<not> flag_set (maxmemory_policy s) MAXMEMORY_FLAG_LFU"
      "\<not> flag_set (maxmemory_policy s) MAXMEMORY_FLAG_LRU_HISTOGRAM"
      "\<not> flag_set (maxmemory_policy s) MAXMEMORY_FLAG_ALLKEYS"
  | "\<not> uses_pool s" "maxmemory_policy s = MAXMEMORY_ALLKEYS_RANDOM"
      "flag_set (maxmemory_policy s) MAXMEMORY_FLAG_ALLKEYS"
  | "\<not> uses_pool s" "maxmemory_policy s = MAXMEMORY_VOLATILE_RANDOM"
      "\<not> flag_set (maxmemory_policy s) MAXMEMORY_FLAG_ALLKEYS" "maxmemory_policy s \<noteq> MAXMEMORY_ALLKEYS_RANDOM"
  | "\<not> uses_pool s" "maxmemory_policy s = MAXMEMORY_NO_EVICTION"
  using assms
  by (auto simp: all_policies_def uses_pool_def policy_defs)

lemma policy_key_object:
  assumes "ks_ok x s" "i < length (dbs s)" "k \<in> set (policy_keys s (dbs s ! i))"
  shows "\<exists>a ob. dictFind (db_dict (dbs s ! i)) k = Some a \<and> heap s a = Some ob \<and> obj_valid ob
           \<and> (k, a) \<in> set (db_dict (dbs s ! i))"
proof -
  have ok: "db_ok (dbs s ! i)" using assms(1,2) by (simp add: ks_ok_def)
  have "dictFind (db_dict (dbs s ! i)) k \<noteq> None"
  proof (cases "flag_set (maxmemory_policy s) MAXMEMORY_FLAG_ALLKEYS")
    case True
    then show ?thesis using assms(3) by (auto simp: policy_keys_def dictFind_None_iff)
  next
    case False
    then have "dictFind (db_expires (dbs s ! i)) k \<noteq> None"
      using assms(3) by (auto simp: policy_keys_def dictFind_None_iff)
    with ok show ?thesis by (auto simp: db_ok_def)
  qed
  then obtain a where a: "dictFind (db_dict (dbs s ! i)) k = Some a" by blast
  then obtain ob where "heap s a = Some ob" "obj_valid ob"
    using ks_okE [OF assms(1,2)] by blast
  with a show ?thesis using map_of_SomeD [of "db_dict (dbs s ! i)" k a] by (auto simp: dictFind_def)
qed

lemma values_hist_okD:
  "values_hist_ok s \<Longrightarrow> i < length (dbs s) \<Longrightarrow> (k, a) \<in> set (db_dict (dbs s ! i)) \<Longrightarrow> heap s a = Some ob
     \<Longrightarrow> hist_ok ob"
  unfolding values_hist_ok_def by (drule bspec [OF _ nth_mem]) auto

lemma histogram_policy:
  "maxmemory_policy s \<in> set all_policies \<Longrightarrow> flag_set (maxmemory_policy s) MAXMEMORY_FLAG_LRU_HISTOGRAM
     \<Longrightarrow> maxmemory_policy s = MAXMEMORY_ALLKEYS_LRU_HISTOGRAM"
  by (auto simp: all_policies_def policy_defs)

lemma policy_key_idle:
  assumes "ks_ok x s" "evictable s" "uses_pool s" "i < length (dbs s)"
    and "\<not> flag_set (maxmemory_policy s) MAXMEMORY_FLAG_LRU_HISTOGRAM" "k \<in> set (policy_keys s (dbs s ! i))"
  shows "\<exists>v. sample_idle s (dbs s ! i) k = Inr v"
proof -
  have pol: "maxmemory_policy s \<in> set all_policies" using assms(2) by (simp add: evictable_def)
  obtain a o1 where a: "dictFind (db_dict (dbs s ! i)) k = Some a" "heap s a = Some o1"
    using policy_key_object [OF assms(1,4,6)] by blast
  then have o1: "sample_object s (dbs s ! i) k = Inr o1" by (simp add: sample_object_def)
  have "dictFind (db_expires (dbs s ! i)) k \<noteq> None" if "\<not> flag_set (maxmemory_policy s) MAXMEMORY_FLAG_ALLKEYS"
    using that assms(6) by (auto simp: policy_keys_def dictFind_None_iff)
  then show ?thesis
    using o1 assms(3,5) by (rule_tac policy_cases [OF pol]) (auto simp: sample_idle_def)
qed

lemma populate_db_ok:
  assumes "ks_ok x s" "evictable s" "uses_pool s" "i < length (dbs s)" "pool_ok p"
    and "set (dictGetSomeKeys env n r i (policy_keys s (dbs s ! i))) \<subseteq> set (policy_keys s (dbs s ! i))"
  shows "\<exists>p'. populate_db env n r s i (dbs s ! i) p = Inr p' \<and> pool_ok p'
           \<and> set (pool_keys p') \<subseteq> set (pool_keys p)
               \<union> (\<lambda>k. (k, int i)) ` set (policy_keys s (dbs s ! i))
           \<and> (dictGetSomeKeys env n r i (policy_keys s (dbs s ! i)) \<noteq> [] \<longrightarrow> pool_keys p' \<noteq> [])
           \<and> (pool_keys p \<noteq> [] \<longrightarrow> pool_keys p' \<noteq> [])"
proof -
  let ?db = "dbs s ! i"
  define ks where "ks = dictGetSomeKeys env n r i (policy_keys s ?db)"
  have ks: "set ks \<subseteq> set (policy_keys s ?db)" using assms(6) by (simp add: ks_def)
  have ob: "\<exists>a ob. dictFind (db_dict ?db) k = Some a \<and> heap s a = Some ob \<and> obj_valid ob
           \<and> (k, a) \<in> set (db_dict ?db)" if "k \<in> set ks" for k
    using policy_key_object [OF assms(1,4)] ks that by blast
  have keys: "set (map snd (fold (pool_insert lt) (map (\<lambda>k. (f k, k, int i)) ks) xs))
       \<subseteq> set (map snd xs) \<union> (\<lambda>k. (k, int i)) ` set (policy_keys s ?db)" for lt and f :: "sds \<Rightarrow> 'm" and xs
  proof -
    have "set (map snd (fold (pool_insert lt) (map (\<lambda>k. (f k, k, int i)) ks) xs))
        \<subseteq> snd ` (set (map (\<lambda>k. (f k, k, int i)) ks) \<union> set xs)"
      by (subst set_map) (rule image_mono [OF fold_pool_insert_set])
    also have "\<dots> = (\<lambda>k. (k, int i)) ` set ks \<union> set (map snd xs)" by (simp add: image_Un image_image)
    finally show ?thesis using ks by blast
  qed
  have ne: "ks \<noteq> [] \<longrightarrow> map snd (fold (pool_insert lt) (map (\<lambda>k. (f k, k, int i)) ks) xs) \<noteq> []"
    "map snd xs \<noteq> [] \<longrightarrow> map snd (fold (pool_insert lt) (map (\<lambda>k. (f k, k, int i)) ks) xs) \<noteq> []"
    for lt and f :: "sds \<Rightarrow> 'm" and xs
    using fold_pool_insert_nonempty [of "map (\<lambda>k. (f k, k, int i)) ks" lt xs] by (cases ks; simp)+
  have pol: "maxmemory_policy s \<in> set all_policies" using assms(2) by (simp add: evictable_def)
  show ?thesis
  proof (cases "flag_set (maxmemory_policy s) MAXMEMORY_FLAG_LRU_HISTOGRAM")
    case True
    then have h: "values_hist_ok s"
      using assms(2) histogram_policy [OF pol] by (simp add: evictable_def)
    define g where "g = (\<lambda>k. the (heap s (the (dictFind (db_dict ?db) k))))"
    have "sample_object s ?db k = Inr (g k) \<and> hist_ok (g k)" if "k \<in> set ks" for k
      using ob [OF that] values_hist_okD [OF h assms(4)] by (auto simp: sample_object_def g_def)
    then obtain p' f where p': "evictionPoolPopulateLRUHistogram s (int i) ?db ks p = Inr p'" "pool_ok p'"
      "contents escore p' = fold (pool_insert dlt) (map (\<lambda>k. (Fin (f k), k, int i)) ks) (contents escore p)"
      using histogram_fold [OF assms(5), of ks s ?db g "int i"] by blast
    have "set (pool_keys p') \<subseteq> set (pool_keys p) \<union> (\<lambda>k. (k, int i)) ` set (policy_keys s ?db)"
      unfolding pool_keys_contents [of _ escore] p'(3) by (rule keys)
    moreover have "ks \<noteq> [] \<longrightarrow> pool_keys p' \<noteq> []" "pool_keys p \<noteq> [] \<longrightarrow> pool_keys p' \<noteq> []"
      unfolding pool_keys_contents [of _ escore] p'(3) by (rule ne)+
    ultimately show ?thesis
      using p'(1,2) True by (simp add: populate_db_def Let_def flip: ks_def)
  next
    case False
    have "\<exists>v. sample_idle s ?db k = Inr v" if "k \<in> set ks" for k
      using policy_key_idle [OF assms(1-4) False] ks that by blast
    then obtain f where f: "\<forall>k \<in> set ks. sample_idle s ?db k = Inr (f k)" by metis
    obtain p' where p': "evictionPoolPopulate s (int i) ?db ks p = Inr p'" "pool_ok p'"
      "contents eidle p' = fold (pool_insert (<)) (map (\<lambda>k. (f k, k, int i)) ks) (contents eidle p)"
      using evictionPoolPopulate_fold [OF assms(5) f, of "int i"] by blast
    have "set (pool_keys p') \<subseteq> set (pool_keys p) \<union> (\<lambda>k. (k, int i)) ` set (policy_keys s ?db)"
      unfolding pool_keys_contents [of _ eidle] p'(3) by (rule keys)
    moreover have "ks \<noteq> [] \<longrightarrow> pool_keys p' \<noteq> []" "pool_keys p \<noteq> [] \<longrightarrow> pool_keys p' \<noteq> []"
      unfolding pool_keys_contents [of _ eidle] p'(3) by (rule ne)+
    ultimately show ?thesis
      using p'(1,2) False by (simp add: populate_db_def Let_def flip: ks_def)
  qed
qed

text \<open>The laws of sampling: only keys of the dictionary, and, every \<open>m\<close> rounds, at least one.\<close>

definition samples_members :: "evict_env \<Rightarrow> bool" where
  "samples_members env =
     ((\<forall>n r i ks. set (dictGetSomeKeys env n r i ks) \<subseteq> set ks)
      \<and> (\<forall>n ks. ks \<noteq> [] \<longrightarrow> dictGetRandomKey env n ks \<in> set ks))"

definition samples_within :: "nat \<Rightarrow> evict_env \<Rightarrow> bool" where
  "samples_within m env =
     (\<forall>n r i ks. ks \<noteq> [] \<longrightarrow> (\<exists>r' \<ge> r. r' < r + m \<and> dictGetSomeKeys env n r' i ks \<noteq> []))"

lemma populate_dbs_ok:
  assumes "ks_ok x s" "evictable s" "uses_pool s" "samples_members env" "\<forall>i \<in> set is. i < length (dbs s)"
    and "pool_inv s p"
  shows "\<exists>p'. populate_dbs env n r s is p t = Inr (p', t + sum_list (map (\<lambda>i. length (policy_keys s (dbs s ! i))) is))
           \<and> pool_inv s p'
           \<and> (\<forall>(k, d) \<in> set (pool_keys p'). (k, d) \<in> set (pool_keys p) \<or> candidate s k d)
           \<and> (pool_keys p \<noteq> [] \<or> (\<exists>i \<in> set is. dictGetSomeKeys env n r i (policy_keys s (dbs s ! i)) \<noteq> [])
              \<longrightarrow> pool_keys p' \<noteq> [])"
  using assms(5,6)
proof (induction "is" arbitrary: p t)
  case (Cons i "is")
  let ?ks = "policy_keys s (dbs s ! i)"
  have i: "i < length (dbs s)" using Cons.prems(1) by simp
  show ?case
  proof (cases "?ks = []")
    case True
    moreover have "set (dictGetSomeKeys env n r i ?ks) \<subseteq> set ?ks" using assms(4) by (simp add: samples_members_def)
    ultimately have "dictGetSomeKeys env n r i ?ks = []" by simp
    with Cons.IH [of p t] Cons.prems True i show ?thesis by simp
  next
    case False
    have p: "pool_ok p" using Cons.prems(2) by (simp add: pool_inv_def)
    obtain p1 where p1: "populate_db env n r s i (dbs s ! i) p = Inr p1" "pool_ok p1"
        "set (pool_keys p1) \<subseteq> set (pool_keys p) \<union> (\<lambda>k. (k, int i)) ` set ?ks"
        "dictGetSomeKeys env n r i ?ks \<noteq> [] \<longrightarrow> pool_keys p1 \<noteq> []" "pool_keys p \<noteq> [] \<longrightarrow> pool_keys p1 \<noteq> []"
      using populate_db_ok [OF assms(1-3) i p, of env n r] assms(4) by (auto simp: samples_members_def)
    have c: "(k, d) \<in> set (pool_keys p) \<or> candidate s k d" if "(k, d) \<in> set (pool_keys p1)" for k d
      using p1(3) that i by (auto simp: candidate_def dbnum_def)
    have inv: "pool_inv s p1"
      using p1(2) c Cons.prems(2) by (fastforce simp: pool_inv_def candidate_def)
    obtain p2 where "populate_dbs env n r s is p1 (t + length ?ks)
          = Inr (p2, t + length ?ks + sum_list (map (\<lambda>i. length (policy_keys s (dbs s ! i))) is))"
        "pool_inv s p2" "\<forall>(k, d) \<in> set (pool_keys p2). (k, d) \<in> set (pool_keys p1) \<or> candidate s k d"
        "pool_keys p1 \<noteq> [] \<or> (\<exists>i \<in> set is. dictGetSomeKeys env n r i (policy_keys s (dbs s ! i)) \<noteq> [])
              \<longrightarrow> pool_keys p2 \<noteq> []"
      using Cons.IH [OF _ inv, of "t + length ?ks"] Cons.prems(1) by auto
    with p1 c i False show ?thesis by (fastforce simp: Let_def add.assoc)
  qed
qed auto

subsection \<open>Taking the best entry\<close>

text \<open>The entry taken is the last one that names an existing key; it and those after it leave the pool.\<close>

definition is_ghost :: "server \<Rightarrow> sds \<times> int \<Rightarrow> bool" where
  "is_ghost s e = (fst e \<notin> set (policy_keys s (dbs s ! nat (snd e))))"

definition drop_ghosts :: "server \<Rightarrow> evpool \<Rightarrow> (sds \<times> int) list" where
  "drop_ghosts s p = dropWhile (is_ghost s) (rev (pool_keys p))"

lemma pool_drop_last:
  assumes "pool_ok p" "slots p = es @ e # fs" "live_slots p = es @ [e]"
    and "e' = e\<lparr>ekey := PNull, eidle := 0, escore := Fin 0\<rparr>"
  shows "pool_ok (p\<lparr>slots := es @ e' # fs\<rparr>)" "live_slots (p\<lparr>slots := es @ e' # fs\<rparr>) = es"
    and "contents m (p\<lparr>slots := es @ e' # fs\<rparr>) = butlast (contents m p)"
    and "pool_keys (p\<lparr>slots := es @ e' # fs\<rparr>) = butlast (pool_keys p)"
    and "pool_keys p = butlast (pool_keys p) @ [(the (key_bytes (bufs p) e), edbid e)]"
proof -
  obtain gs hs where g: "slots p = gs @ hs" "live_slots p = gs" "\<forall>e \<in> set gs. live e"
      "\<forall>f \<in> set hs. \<not> live f" "length (gs @ hs) = 16" "distinct (map ecached (gs @ hs))"
      "\<forall>e \<in> set (gs @ hs). owns e"
    using pool_okE [OF assms(1)] by metis
  have gs: "gs = es @ [e]" using g(2) assms(3) by simp
  have "hs = fs" using g(1) assms(2) unfolding gs by simp
  with gs have e: "gs = es @ [e]" "hs = fs" by simp_all
  have l: "\<not> live e'" "owns e'" "ecached e' = ecached e" using assms(4) by (simp_all add: live_def owns_def)
  have q: "p\<lparr>slots := es @ e' # fs\<rparr> = \<lparr>slots = es @ (e' # fs), bufs = bufs p\<rparr>" by (cases p) simp
  show "pool_ok (p\<lparr>slots := es @ e' # fs\<rparr>)"
    unfolding q by (rule pool_okI(1)) (use g l e in auto)
  show ls: "live_slots (p\<lparr>slots := es @ e' # fs\<rparr>) = es"
    unfolding q by (rule pool_okI(2)) (use g l e in auto)
  show "contents m (p\<lparr>slots := es @ e' # fs\<rparr>) = butlast (contents m p)"
    "pool_keys (p\<lparr>slots := es @ e' # fs\<rparr>) = butlast (pool_keys p)"
    using assms(3) by (simp_all add: contents_def ls pool_keys_def map_butlast)
  show "pool_keys p = butlast (pool_keys p) @ [(the (key_bytes (bufs p) e), edbid e)]"
    using assms(3) by (simp add: pool_keys_def contents_def cand_def)
qed

lemma pool_inv_butlast:
  "pool_inv s p \<Longrightarrow> pool_ok q \<Longrightarrow> pool_keys q = butlast (pool_keys p) \<Longrightarrow> pool_inv s q"
  by (auto simp: pool_inv_def dest: in_set_butlastD)

lemma take_best_refines:
  assumes "pool_inv s p" "length (live_slots p) \<le> m" "m \<le> 16"
  shows "\<exists>p'. take_best s (rev [0..<m]) p =
             Inr (case drop_ghosts s p of [] \<Rightarrow> None | (k, d) # _ \<Rightarrow> Some (k, nat d), p')
           \<and> pool_inv s p' \<and> contents f p' = take (length (drop_ghosts s p) - 1) (contents f p)"
  using assms
proof (induction m arbitrary: p)
  case 0
  then have "contents f p = []" "pool_keys p = []" for f :: "pool_entry \<Rightarrow> 'a"
    by (simp_all add: contents_def pool_keys_def)
  with 0 show ?case by (simp add: drop_ghosts_def)
next
  case (Suc m)
  obtain es fs where s: "slots p = es @ fs" and ls: "live_slots p = es"
    and live: "\<forall>e \<in> set es. live e" and dead: "\<forall>f \<in> set fs. \<not> live f" and len: "length (es @ fs) = 16"
    using Suc.prems(1) by (auto simp: pool_inv_def elim: pool_okE)
  show ?case
  proof (cases "length es = Suc m")
    case False
    then have m: "length es \<le> m" using Suc.prems(2) ls by simp
    then have "(es @ fs) ! m = fs ! (m - length es)" "m - length es < length fs"
      using len Suc.prems(3) by (auto simp: nth_append)
    then have "\<not> live (slots p ! m)" using dead s nth_mem by metis
    then have "take_best s (rev [0..<Suc m]) p = take_best s (rev [0..<m]) p"
      using len Suc.prems(3) by (simp add: s arr_simps key_bytes_def live_def)
    then show ?thesis using Suc.IH [OF Suc.prems(1)] m ls Suc.prems(3) by simp
  next
    case True
    then obtain es' e where es: "es = es' @ [e]" "length es' = m" by (cases es rule: rev_cases) auto
    define e' where "e' = e\<lparr>ekey := PNull, eidle := 0, escore := Fin 0\<rparr>"
    define q where "q = p\<lparr>slots := es' @ e' # fs\<rparr>"
    have "pool_ok p" "slots p = es' @ e # fs" "live_slots p = es' @ [e]"
      using Suc.prems(1) s ls es by (simp_all add: pool_inv_def)
    note drop = pool_drop_last [OF this e'_def, folded q_def]
    have inv: "pool_inv s q" using pool_inv_butlast [OF Suc.prems(1) drop(1,4)] .
    obtain key where key: "key_bytes (bufs p) e = Some key"
      using live es by (cases "ekey e") (auto simp: key_bytes_def live_def)
    have last: "pool_keys p = butlast (pool_keys p) @ [(key, edbid e)]" using drop(5) key by simp
    then have "(key, edbid e) \<in> set (pool_keys p)" by (metis in_set_conv_decomp)
    then have d: "0 \<le> edbid e" "nat (edbid e) < length (dbs s)"
      using Suc.prems(1) by (auto simp: pool_inv_def dbnum_def)
    have get: "arr_get (slots p) m = Inr e" using s es by (auto simp: arr_get_def)
    have set': "arr_set (slots p) m (e\<lparr>ekey := PNull, eidle := 0, escore := Fin 0\<rparr>) = Inr (es' @ e' # fs)"
      using s es by (auto simp: arr_set_def e'_def)
    have step: "take_best s (rev [0..<Suc m]) p =
        (if key \<in> set (policy_keys s (dbs s ! nat (edbid e))) then Inr (Some (key, nat (edbid e)), q)
         else take_best s (rev [0..<m]) q)"
      using d key get set' by (simp add: q_def)
    have dg: "drop_ghosts s p = (if is_ghost s (key, edbid e) then drop_ghosts s q
                                 else (key, edbid e) # rev (butlast (pool_keys p)))"
      by (subst drop_ghosts_def, subst last) (simp add: drop_ghosts_def drop(4))
    have lc: "length (contents f p) = Suc m" using ls es by (simp add: contents_def)
    show ?thesis
    proof (cases "is_ghost s (key, edbid e)")
      case True
      have "length (drop_ghosts s q) \<le> m"
        using length_dropWhile_le [of "is_ghost s" "rev (pool_keys q)"] drop(2) es
        by (simp add: drop_ghosts_def pool_keys_def contents_def)
      then have "take (length (drop_ghosts s q) - 1) (contents f q)
            = take (length (drop_ghosts s q) - 1) (contents f p)"
        unfolding drop(3) using lc by (simp add: take_butlast)
      with True step dg Suc.IH [OF inv] drop(2) es Suc.prems(3) show ?thesis by (auto simp: is_ghost_def)
    next
      case False
      have "length (drop_ghosts s p) = Suc m"
        using dg False last ls es by (simp add: pool_keys_def contents_def)
      then have "contents f q = take (length (drop_ghosts s p) - 1) (contents f p)"
        unfolding drop(3) using lc by (simp add: butlast_conv_take)
      with False step dg inv show ?thesis by (auto simp: is_ghost_def)
    qed
  qed
qed

lemma drop_ghosts_None: "drop_ghosts s p = [] \<longleftrightarrow> (\<forall>e \<in> set (pool_keys p). is_ghost s e)"
  by (simp add: drop_ghosts_def dropWhile_eq_Nil_conv)

lemma drop_ghosts_Cons: "drop_ghosts s p = (k, d) # es \<Longrightarrow> pool_inv s p \<Longrightarrow> candidate s k d"
proof -
  assume a: "drop_ghosts s p = (k, d) # es" "pool_inv s p"
  then have "\<not> is_ghost s (k, d)" using hd_dropWhile [of "is_ghost s" "rev (pool_keys p)"]
    by (auto simp: drop_ghosts_def)
  moreover have "(k, d) \<in> set (pool_keys p)"
    using a(1) set_dropWhileD [of "(k, d)" "is_ghost s" "rev (pool_keys p)"] by (simp add: drop_ghosts_def)
  ultimately show ?thesis using a(2) by (auto simp: pool_inv_def candidate_def is_ghost_def)
qed

text \<open>One round either finds a key or leaves the pool empty.\<close>

lemma take_best_round:
  assumes "pool_inv s p"
  shows "\<exists>p'. pool_inv s p' \<and>
     (take_best s (rev [0..<EVPOOL_SIZE]) p = Inr (None, p') \<and> pool_keys p' = []
        \<and> (\<forall>e \<in> set (pool_keys p). is_ghost s e)
      \<or> (\<exists>k d. take_best s (rev [0..<EVPOOL_SIZE]) p = Inr (Some (k, nat d), p') \<and> candidate s k d))"
proof -
  have "length (live_slots p) \<le> 16"
    using length_live_slots [of p] assms by (simp add: pool_inv_def EVPOOL_SIZE_def)
  from take_best_refines [OF assms this, of "\<lambda>_. ()"] obtain p' where
    p': "take_best s (rev [0..<EVPOOL_SIZE]) p =
             Inr (case drop_ghosts s p of [] \<Rightarrow> None | (k, d) # _ \<Rightarrow> Some (k, nat d), p')"
      "pool_inv s p'" "contents (\<lambda>_. ()) p' = take (length (drop_ghosts s p) - 1) (contents (\<lambda>_. ()) p)"
    by (auto simp: EVPOOL_SIZE_def)
  show ?thesis
  proof (cases "drop_ghosts s p")
    case Nil
    then have "\<forall>e \<in> set (pool_keys p). is_ghost s e" by (simp only: drop_ghosts_None)
    with p' Nil show ?thesis by (intro exI [of _ p']) (simp add: pool_keys_def [of p'])
  next
    case (Cons e es)
    obtain k d where e: "e = (k, d)" by (cases e)
    have "candidate s k d" using drop_ghosts_Cons Cons assms unfolding e by blast
    with p' Cons e show ?thesis by (intro exI [of _ p'] conjI disjI2 exI [of _ k] exI [of _ d]) simp_all
  qed
qed

subsection \<open>The refill loop ends\<close>

definition total_candidates :: "server \<Rightarrow> nat" where
  "total_candidates s = sum_list (map (\<lambda>i. length (policy_keys s (dbs s ! i))) [0..<dbnum s])"

lemma total_candidates_0: "total_candidates s = 0 \<longleftrightarrow> \<not> has_candidates s"
  by (auto simp: total_candidates_def has_candidates_def dbnum_def set_conv_nth)

lemma has_candidatesE:
  assumes "has_candidates s" obtains i where "i < length (dbs s)" "policy_keys s (dbs s ! i) \<noteq> []"
  using assms by (auto simp: has_candidates_def in_set_conv_nth)

lemma candidate_has: "candidate s k d \<Longrightarrow> has_candidates s"
  by (auto simp: candidate_def has_candidates_def dbnum_def intro!: bexI [of _ "dbs s ! nat d"] nth_mem)

definition sampled_some :: "evict_env \<Rightarrow> nat \<Rightarrow> nat \<Rightarrow> server \<Rightarrow> bool" where
  "sampled_some env n r s = (\<exists>i < dbnum s. dictGetSomeKeys env n r i (policy_keys s (dbs s ! i)) \<noteq> [])"

lemma refill_round:
  assumes "ks_ok x s" "evictable s" "uses_pool s" "samples_members env" "pool_inv s p" "has_candidates s"
  shows "\<exists>p'. pool_inv s p' \<and>
     ((\<exists>k d. best_from_pool env n s r (Suc fuel) p = Inr (Some (k, nat d), p') \<and> candidate s k d)
      \<or> best_from_pool env n s r (Suc fuel) p = best_from_pool env n s (Suc r) fuel p'
        \<and> pool_keys p' = [] \<and> \<not> (pool_keys p = [] \<and> sampled_some env n r s))"
proof -
  have r: "\<forall>i \<in> set [0..<dbnum s]. i < length (dbs s)" by (simp add: dbnum_def)
  obtain p1 where p1: "populate_dbs env n r s [0..<dbnum s] p 0 = Inr (p1, total_candidates s)" "pool_inv s p1"
      "\<forall>(k, d) \<in> set (pool_keys p1). (k, d) \<in> set (pool_keys p) \<or> candidate s k d"
      "pool_keys p \<noteq> [] \<or> (\<exists>i \<in> set [0..<dbnum s]. dictGetSomeKeys env n r i (policy_keys s (dbs s ! i)) \<noteq> [])
         \<longrightarrow> pool_keys p1 \<noteq> []"
    using populate_dbs_ok [OF assms(1-4) r assms(5), of n r 0] by (auto simp: total_candidates_def)
  have nz: "total_candidates s \<noteq> 0" using assms(6) total_candidates_0 by blast
  obtain p2 where p2: "pool_inv s p2"
     "take_best s (rev [0..<EVPOOL_SIZE]) p1 = Inr (None, p2) \<and> pool_keys p2 = []
        \<and> (\<forall>e \<in> set (pool_keys p1). is_ghost s e)
      \<or> (\<exists>k d. take_best s (rev [0..<EVPOOL_SIZE]) p1 = Inr (Some (k, nat d), p2) \<and> candidate s k d)"
    using take_best_round [OF p1(2)] by blast
  from p2(2) show ?thesis
  proof
    assume a: "take_best s (rev [0..<EVPOOL_SIZE]) p1 = Inr (None, p2) \<and> pool_keys p2 = []
        \<and> (\<forall>e \<in> set (pool_keys p1). is_ghost s e)"
    have "\<not> (pool_keys p = [] \<and> sampled_some env n r s)"
    proof
      assume e: "pool_keys p = [] \<and> sampled_some env n r s"
      then have "pool_keys p1 \<noteq> []" using p1(4) by (auto simp: sampled_some_def)
      then obtain k d where kd: "(k, d) \<in> set (pool_keys p1)" by (cases "pool_keys p1") auto
      then have "candidate s k d" using p1(3) e by auto
      moreover have "is_ghost s (k, d)" using a kd by blast
      ultimately show False by (simp add: candidate_def is_ghost_def)
    qed
    with a p1(1) nz p2(1) show ?thesis by (intro exI [of _ p2]) simp
  next
    assume "\<exists>k d. take_best s (rev [0..<EVPOOL_SIZE]) p1 = Inr (Some (k, nat d), p2) \<and> candidate s k d"
    then obtain k d where "take_best s (rev [0..<EVPOOL_SIZE]) p1 = Inr (Some (k, nat d), p2)" "candidate s k d"
      by blast
    with p1(1) nz p2(1) show ?thesis
      by (intro exI [of _ p2] conjI disjI1 exI [of _ k] exI [of _ d]) simp_all
  qed
qed

lemma best_from_empty_pool:
  assumes "ks_ok x s" "evictable s" "uses_pool s" "samples_members env" "has_candidates s"
    and "pool_inv s p" "pool_keys p = []" "sampled_some env n (r + j) s" "j < fuel"
  shows "\<exists>p' k d. best_from_pool env n s r fuel p = Inr (Some (k, nat d), p') \<and> pool_inv s p' \<and> candidate s k d"
  using assms(6-)
proof (induction j arbitrary: p r fuel)
  case 0
  then obtain f where "fuel = Suc f" by (cases fuel) auto
  with refill_round [OF assms(1-4) 0(1) assms(5), of n r f] 0 show ?case by auto
next
  case (Suc j)
  then obtain f where f: "fuel = Suc f" by (cases fuel) auto
  from refill_round [OF assms(1-4) Suc.prems(1) assms(5), of n r f] show ?case
  proof (elim exE conjE disjE)
    fix p' assume "best_from_pool env n s r (Suc f) p = best_from_pool env n s (Suc r) f p'"
      "pool_inv s p'" "pool_keys p' = []"
    then show ?thesis using Suc.IH [of p' "Suc r" f] Suc.prems f by simp
  qed (auto simp: f)
qed

lemma sampled_within:
  assumes "samples_within m env" "has_candidates s"
  shows "\<exists>j < m. sampled_some env n (r + j) s"
proof -
  obtain i where i: "i < length (dbs s)" "policy_keys s (dbs s ! i) \<noteq> []" using has_candidatesE [OF assms(2)] .
  then obtain r' where "r \<le> r'" "r' < r + m" "dictGetSomeKeys env n r' i (policy_keys s (dbs s ! i)) \<noteq> []"
    using assms(1) unfolding samples_within_def by blast
  then show ?thesis
    using i(1) by (intro exI [of _ "r' - r"]) (auto simp: sampled_some_def dbnum_def)
qed

lemma best_from_pool_ok:
  assumes "ks_ok x s" "evictable s" "uses_pool s" "samples_members env" "samples_within m env"
    and "pool_inv s p" "m < fuel"
  shows "\<exists>p'. pool_inv s p' \<and>
     (if has_candidates s
      then \<exists>k d. best_from_pool env n s r fuel p = Inr (Some (k, nat d), p') \<and> candidate s k d
      else best_from_pool env n s r fuel p = Inr (None, p'))"
proof -
  obtain f where f: "fuel = Suc f" using assms(7) by (cases fuel) auto
  show ?thesis
  proof (cases "has_candidates s")
    case True
    from refill_round [OF assms(1-4,6) True, of n r f] show ?thesis
    proof (elim exE conjE disjE)
      fix p' assume p': "best_from_pool env n s r (Suc f) p = best_from_pool env n s (Suc r) f p'"
        "pool_inv s p'" "pool_keys p' = []"
      obtain j where "j < m" "sampled_some env n (Suc r + j) s" using sampled_within [OF assms(5) True] by blast
      then have "\<exists>p'' k d. best_from_pool env n s (Suc r) f p' = Inr (Some (k, nat d), p'') \<and> pool_inv s p''
          \<and> candidate s k d"
        using best_from_empty_pool [OF assms(1-4) True p'(2,3), of n "Suc r" j f] assms(7) f by simp
      with p'(1) f True show ?thesis by auto
    qed (auto simp: f True)
  next
    case False
    then have z: "total_candidates s = 0" using total_candidates_0 by blast
    have r: "\<forall>i \<in> set [0..<dbnum s]. i < length (dbs s)" by (simp add: dbnum_def)
    obtain p1 where "populate_dbs env n r s [0..<dbnum s] p 0 = Inr (p1, total_candidates s)" "pool_inv s p1"
      using populate_dbs_ok [OF assms(1-4) r assms(6), of n r 0] by (auto simp: total_candidates_def)
    with False z f show ?thesis by (intro exI [of _ p1]) simp
  qed
qed

subsection \<open>The random policies\<close>

definition is_random :: "server \<Rightarrow> bool" where
  "is_random s = (maxmemory_policy s = MAXMEMORY_ALLKEYS_RANDOM \<or> maxmemory_policy s = MAXMEMORY_VOLATILE_RANDOM)"

lemma random_keys:
  "is_random s \<Longrightarrow> (if maxmemory_policy s = MAXMEMORY_ALLKEYS_RANDOM
                    then map fst (db_dict db) else map fst (db_expires db)) = policy_keys s db"
  by (auto simp: is_random_def policy_keys_def policy_defs)

lemma policy_keys_next_db [simp]: "policy_keys (s\<lparr>next_db := v\<rparr>) db = policy_keys s db"
  by (simp add: policy_keys_def)

lemma next_db_mod:
  assumes "d dvd 2 ^ 32"
  shows "unat ((w :: u32) + 1) mod d = Suc (unat w) mod d"
proof -
  have "unat (w + 1) = Suc (unat w) mod 2 ^ 32" by (simp add: unat_word_ariths)
  then show ?thesis using mod_mod_cancel [OF assms, of "Suc (unat w)"] by simp
qed

lemma random_from_dbs_ok:
  assumes "is_random s" "samples_members env" "m = 0 \<or> 0 < dbnum s"
  shows "\<exists>b v. random_from_dbs env n m s = Inr (b, s\<lparr>next_db := v\<rparr>)
           \<and> (\<forall>k j. b = Some (k, j) \<longrightarrow> candidate s k (int j))
           \<and> (b = None \<and> dbnum s dvd 2 ^ 32 \<longrightarrow>
                (\<forall>t. 0 < t \<and> t \<le> m \<longrightarrow> policy_keys s (dbs s ! ((unat (next_db s) + t) mod dbnum s)) = []))"
  using assms(1,3)
proof (induction m arbitrary: s)
  case 0
  show ?case by (intro exI [of _ None] exI [of _ "next_db s"]) simp
next
  case (Suc m)
  let ?s = "s\<lparr>next_db := next_db s + 1\<rparr>"
  define j where "j = unat (next_db s + 1) mod dbnum s"
  have j: "j < length (dbs s)" using Suc.prems(2) by (simp add: j_def dbnum_def)
  have g: "get_db ?s j = Inr (dbs s ! j)" using j by (simp add: get_db_def arr_simps)
  have j': "unat (next_db ?s) mod dbnum ?s = j" by (simp add: j_def dbnum_def)
  have keys: "(if maxmemory_policy s = MAXMEMORY_ALLKEYS_RANDOM
               then map fst (db_dict db) else map fst (db_expires db)) = policy_keys s db" for db
    by (rule random_keys [OF Suc.prems(1)])
  have unf: "random_from_dbs env n (Suc m) s =
      (if policy_keys s (dbs s ! j) \<noteq> []
       then Inr (Some (dictGetRandomKey env n (policy_keys s (dbs s ! j)), j), ?s)
       else random_from_dbs env n m ?s)"
    unfolding random_from_dbs.simps(2) Let_def j' g cbind_Inr keys ..
  show ?case
  proof (cases "policy_keys s (dbs s ! j) = []")
    case False
    then have "dictGetRandomKey env n (policy_keys s (dbs s ! j)) \<in> set (policy_keys s (dbs s ! j))"
      using assms(2) by (simp add: samples_members_def)
    then show ?thesis using unf False j
      by (intro exI [of _ "Some (dictGetRandomKey env n (policy_keys s (dbs s ! j)), j)"]
          exI [of _ "next_db s + 1"]) (simp add: candidate_def dbnum_def)
  next
    case True
    obtain b v where b: "random_from_dbs env n m ?s = Inr (b, ?s\<lparr>next_db := v\<rparr>)"
        "\<forall>k j. b = Some (k, j) \<longrightarrow> candidate ?s k (int j)"
        "b = None \<and> dbnum ?s dvd 2 ^ 32 \<longrightarrow> (\<forall>t. 0 < t \<and> t \<le> m \<longrightarrow>
           policy_keys ?s (dbs ?s ! ((unat (next_db ?s) + t) mod dbnum ?s)) = [])"
      using Suc.IH [of ?s] Suc.prems by (auto simp: is_random_def dbnum_def)
    have c: "candidate ?s k d = candidate s k d" for k d by (simp add: candidate_def dbnum_def)
    have "policy_keys s (dbs s ! ((unat (next_db s) + t) mod dbnum s)) = []"
      if "b = None" "dbnum s dvd 2 ^ 32" "0 < t" "t \<le> Suc m" for t
    proof (cases "t = 1")
      case t: True
      then have "(unat (next_db s) + t) mod dbnum s = j"
        using next_db_mod [OF that(2), of "next_db s"] by (simp add: j_def)
      with True show ?thesis by simp
    next
      case False
      have "(unat (next_db s + 1) + (t - 1)) mod dbnum s = (Suc (unat (next_db s)) + (t - 1)) mod dbnum s"
        using next_db_mod [OF that(2), of "next_db s"] by (metis mod_add_left_eq)
      moreover have "Suc (unat (next_db s)) + (t - 1) = unat (next_db s) + t" using that(3) by simp
      moreover have "policy_keys s (dbs s ! ((unat (next_db s + 1) + (t - 1)) mod dbnum s)) = []"
      proof -
        have t: "0 < t - 1 \<and> t - 1 \<le> m" using that(3,4) False by simp
        have "b = None \<and> dbnum ?s dvd 2 ^ 32" using that(1,2) by (simp add: dbnum_def)
        from mp [OF spec [OF mp [OF b(3) this], of "t - 1"] t] show ?thesis by (simp add: dbnum_def)
      qed
      ultimately show ?thesis by metis
    qed
    with b c unf True show ?thesis
      by (intro exI [of _ b] exI [of _ v]) simp
  qed
qed

text \<open>A full turn over the databases misses none when their number divides \<open>2 ^ 32\<close>.\<close>

lemma full_turn: "j < d \<Longrightarrow> \<exists>t. 0 < t \<and> t \<le> d \<and> (u + t) mod d = (j :: nat)"
proof -
  assume j: "j < d"
  define t0 where "t0 = (j + (d - u mod d)) mod d"
  define t where "t = (if t0 = 0 then d else t0)"
  have "(u + t) mod d = (u mod d + t0) mod d"
    by (simp add: t_def mod_add_left_eq)
  also have "\<dots> = (u mod d + (j + (d - u mod d))) mod d" by (simp add: t0_def mod_add_right_eq)
  also have "u mod d + (j + (d - u mod d)) = j + d"
  proof -
    have "u mod d < d" using j by simp
    then show ?thesis by linarith
  qed
  also have "(j + d) mod d = j" using j by simp
  finally have "(u + t) mod d = j" .
  moreover have "0 < t" "t \<le> d" using j mod_less_divisor [of d "j + (d - u mod d)"]
    by (auto simp: t_def t0_def)
  ultimately show ?thesis by blast
qed

subsection \<open>Choosing\<close>

text \<open>
  Whatever the policy, the choice ends, leaves a well-formed pool and names an existing key the policy
  may evict; it comes back empty only when there is no such key.
\<close>

lemma choose_key_ok:
  assumes "ks_ok x s" "evictable s" "samples_members env" "samples_within m env" "pool_inv s p" "m < fuel"
  shows "\<exists>b v p'. choose_key env fuel n s p = Inr (b, s\<lparr>next_db := v\<rparr>, p') \<and> pool_inv s p'
     \<and> (\<forall>k j. b = Some (k, j) \<longrightarrow> candidate s k (int j))
     \<and> (b = None \<and> dbnum s dvd 2 ^ 32 \<and> maxmemory_policy s \<noteq> MAXMEMORY_NO_EVICTION \<longrightarrow> \<not> has_candidates s)"
proof (cases "uses_pool s")
  case True
  obtain p' where p': "pool_inv s p'" "if has_candidates s
      then \<exists>k d. best_from_pool env n s 0 fuel p = Inr (Some (k, nat d), p') \<and> candidate s k d
      else best_from_pool env n s 0 fuel p = Inr (None, p')"
    using best_from_pool_ok [OF assms(1,2) True assms(3-6), of n 0] by blast
  have c: "choose_key env fuel n s p = cbind (best_from_pool env n s 0 fuel p) (\<lambda>(best, p'). Inr (best, s, p'))"
    using True by (simp add: choose_key_def uses_pool_def)
  show ?thesis
  proof (cases "has_candidates s")
    case True
    then obtain k d where "best_from_pool env n s 0 fuel p = Inr (Some (k, nat d), p')" "candidate s k d"
      using p'(2) by auto
    then show ?thesis using c p'(1)
      by (intro exI [of _ "Some (k, nat d)"] exI [of _ "next_db s"] exI [of _ p']) (auto simp: candidate_def)
  next
    case False
    with p' c show ?thesis by (intro exI [of _ None] exI [of _ "next_db s"] exI [of _ p']) simp
  qed
next
  case False
  then have np: "choose_key env fuel n s p = (if is_random s
      then cbind (random_from_dbs env n (dbnum s) s) (\<lambda>(best, s'). Inr (best, s', p)) else Inr (None, s, p))"
    by (simp only: choose_key_def uses_pool_def is_random_def if_False)
  show ?thesis
  proof (cases "is_random s")
    case True
    obtain b v where b: "random_from_dbs env n (dbnum s) s = Inr (b, s\<lparr>next_db := v\<rparr>)"
      "\<forall>k j. b = Some (k, j) \<longrightarrow> candidate s k (int j)"
      "b = None \<and> dbnum s dvd 2 ^ 32 \<longrightarrow> (\<forall>t. 0 < t \<and> t \<le> dbnum s \<longrightarrow>
          policy_keys s (dbs s ! ((unat (next_db s) + t) mod dbnum s)) = [])"
    proof -
      have "dbnum s = 0 \<or> 0 < dbnum s" by auto
      from random_from_dbs_ok [OF True assms(3) this, of n] show thesis by (elim exE conjE) (rule that)
    qed
    have "\<not> has_candidates s" if n: "b = None \<and> dbnum s dvd 2 ^ 32"
    proof
      assume "has_candidates s"
      then obtain i where i: "i < length (dbs s)" "policy_keys s (dbs s ! i) \<noteq> []" by (rule has_candidatesE)
      then obtain t where "0 < t" "t \<le> dbnum s" "(unat (next_db s) + t) mod dbnum s = i"
        using full_turn [of i "dbnum s" "unat (next_db s)"] by (auto simp: dbnum_def)
      with b(3) n i(2) show False by blast
    qed
    with b True np assms(5) show ?thesis by (intro exI [of _ b] exI [of _ v] exI [of _ p]) simp
  next
    case nr: False
    have "maxmemory_policy s = MAXMEMORY_NO_EVICTION"
      using assms(2) False nr by (auto simp: evictable_def is_random_def elim: policy_cases)
    with np nr assms(5) show ?thesis by (intro exI [of _ None] exI [of _ "next_db s"] exI [of _ p]) simp
  qed
qed
end
