(* ===== verification/Evict_Cycle.thy ===== *)
theory Evict_Cycle
  imports Evict_Loop
begin

section \<open>The eviction cycle: what it keeps, that it ends, what its result means\<close>

text \<open>
  The abstract cycle is a step relation that deletes keys the policy may evict, one at a time
  (\<open>evicts\<close>). The loop of \<open>performEvictions\<close> refines it, keeps the invariants of the keyspace and of
  the pool, ends because every round deletes a key, and its result says what the header comment of the
  function promises.
\<close>

subsection \<open>The abstract cycle\<close>

inductive evicts :: "(redisDb \<Rightarrow> sds list) \<Rightarrow> redisDb list \<Rightarrow> redisDb list \<Rightarrow> bool" for keys where
  evicts_none: "evicts keys ds ds"
| evicts_key: "evicts keys ds ds' \<Longrightarrow> i < length ds' \<Longrightarrow> k \<in> set (keys (ds' ! i))
     \<Longrightarrow> evicts keys ds (ds'[i := del_key k (ds' ! i)])"

lemma evicts_length: "evicts keys ds ds' \<Longrightarrow> length ds' = length ds"
  by (induction rule: evicts.induct) simp_all

lemma evicts_trans: "evicts keys ds' ds'' \<Longrightarrow> evicts keys ds ds' \<Longrightarrow> evicts keys ds ds''"
  by (induction rule: evicts.induct) (simp_all add: evicts_key)

lemma evicts_one:
  "i < length ds \<Longrightarrow> k \<in> set (keys (ds ! i)) \<Longrightarrow> evicts keys ds (ds[i := del_key k (ds ! i)])"
  by (rule evicts_key [OF evicts_none])

text \<open>Nothing but deletions: what a key still has, it had before.\<close>

lemma evicts_only_deletes:
  assumes "evicts keys ds ds'" "j < length ds"
  shows "dictFind (db_dict (ds' ! j)) k = Some a \<Longrightarrow> dictFind (db_dict (ds ! j)) k = Some a"
    and "dictFind (db_expires (ds' ! j)) k = Some t \<Longrightarrow> dictFind (db_expires (ds ! j)) k = Some t"
proof -
  have "(dictFind (db_dict (ds' ! j)) k = Some a \<longrightarrow> dictFind (db_dict (ds ! j)) k = Some a)
      \<and> (dictFind (db_expires (ds' ! j)) k = Some t \<longrightarrow> dictFind (db_expires (ds ! j)) k = Some t)"
    using assms
  proof (induction rule: evicts.induct)
    case (evicts_key ds ds' i k')
    then show ?case by (cases "i = j") (auto split: if_splits)
  qed simp
  then show "dictFind (db_dict (ds' ! j)) k = Some a \<Longrightarrow> dictFind (db_dict (ds ! j)) k = Some a"
    "dictFind (db_expires (ds' ! j)) k = Some t \<Longrightarrow> dictFind (db_expires (ds ! j)) k = Some t" by simp_all
qed

text \<open>Under a volatile policy a key without an expire survives with its value.\<close>

lemma evicts_volatile:
  assumes "evicts keys ds ds'" "j < length ds" "\<And>db. keys db = map fst (db_expires db)"
    and "dictFind (db_expires (ds ! j)) k = None"
  shows "dictFind (db_dict (ds' ! j)) k = dictFind (db_dict (ds ! j)) k"
proof -
  have "dictFind (db_expires (ds' ! j)) k = None
      \<and> dictFind (db_dict (ds' ! j)) k = dictFind (db_dict (ds ! j)) k"
    using assms(1,2,4)
  proof (induction rule: evicts.induct)
    case (evicts_key ds ds' i k')
    then have "dictFind (db_expires (ds' ! j)) k = None" by simp
    moreover have "i = j \<Longrightarrow> dictFind (db_expires (ds' ! j)) k' \<noteq> None"
      using evicts_key.hyps assms(3) by (auto simp: dictFind_None_iff)
    ultimately show ?case using evicts_key evicts_length [of keys ds ds'] by (cases "i = j") auto
  qed simp
  then show ?thesis by simp
qed

subsection \<open>The cycle with the memory it measures\<close>

text \<open>
  The deletions of a cycle with the memory in use measured right before and right after each, as the
  loop does; the number is the sum of the differences. Nothing is assumed of the measurements.
\<close>

inductive freeing ::
  "evict_env \<Rightarrow> (redisDb \<Rightarrow> sds list) \<Rightarrow> bool \<Rightarrow> redisDb list \<Rightarrow> int \<Rightarrow> redisDb list \<Rightarrow> bool" for env keys lazy where
  freeing_none: "freeing env keys lazy ds 0 ds"
| freeing_key: "freeing env keys lazy ds f (dbs s0) \<Longrightarrow> i < length (dbs s0) \<Longrightarrow> k \<in> set (keys (dbs s0 ! i))
     \<Longrightarrow> dbGenericDelete i k lazy DB_FLAG_KEY_EVICTED s0 = Inr (True, s1)
     \<Longrightarrow> dbs s1 = (dbs s0)[i := del_key k (dbs s0 ! i)]
     \<Longrightarrow> freeing env keys lazy ds (f + (sint (zmalloc_used_memory env s0) - sint (zmalloc_used_memory env s1))) (dbs s1)"

lemma freeing_evicts: "freeing env keys lazy ds f ds' \<Longrightarrow> evicts keys ds ds'"
  by (induction rule: freeing.induct) (simp_all add: evicts_none evicts_key)

lemma freeing_trans: "freeing env keys lazy ds' g ds'' \<Longrightarrow> freeing env keys lazy ds f ds' \<Longrightarrow> freeing env keys lazy ds (f + g) ds''"
proof (induction rule: freeing.induct)
  case (freeing_key ds' g s0 i k s1)
  from freeing.freeing_key [OF freeing_key.IH [OF freeing_key.prems] freeing_key.hyps(2-5)] show ?case
    by (simp add: add.assoc)
qed simp

subsection \<open>Evicting one key\<close>

definition nkeys :: "redisDb list \<Rightarrow> nat" where
  "nkeys ds = sum_list (map (\<lambda>db. dictSize (db_dict db)) ds)"

lemma nkeys_delete:
  assumes "i < length ds" "db_ok (ds ! i)" "dictFind (db_dict (ds ! i)) k \<noteq> None"
  shows "Suc (nkeys (ds[i := del_key k (ds ! i)])) = nkeys ds"
proof -
  have s: "dictSize (db_dict (del_key k (ds ! i))) = dictSize (db_dict (ds ! i)) - 1"
    using assms(2,3) by (auto simp: dictSize_delete db_ok_def)
  have "db_dict (ds ! i) \<noteq> []" using assms(3) by auto
  then have "0 < dictSize (db_dict (ds ! i))" by (simp add: dictSize_def)
  moreover have "dictSize (db_dict (ds ! i)) \<le> nkeys ds"
    using elem_le_sum_list [of i "map (\<lambda>db. dictSize (db_dict db)) ds"] assms(1) by (simp add: nkeys_def)
  ultimately show ?thesis
    using assms(1) s by (simp add: nkeys_def map_update sum_list_update)
qed

text \<open>The settings the cycle reads and never writes.\<close>

definition same_settings :: "server \<Rightarrow> server \<Rightarrow> bool" where
  "same_settings s s' =
     (maxmemory_policy s' = maxmemory_policy s \<and> maxmemory s' = maxmemory s \<and> slaves s' = slaves s
      \<and> repl_buffer_mem s' = repl_buffer_mem s \<and> repl_backlog_size s' = repl_backlog_size s
      \<and> aof_on s' = aof_on s \<and> aof_buf_alloc s' = aof_buf_alloc s
      \<and> lazyfree_lazy_eviction s' = lazyfree_lazy_eviction s)"

lemma same_settings_refl: "same_settings s s"
  by (simp add: same_settings_def)

lemma same_settings_trans: "same_settings s t \<Longrightarrow> same_settings t u \<Longrightarrow> same_settings s u"
  by (simp add: same_settings_def)

lemma policy_keys_cong: "maxmemory_policy s' = maxmemory_policy s \<Longrightarrow> policy_keys s' = policy_keys s"
  by (simp add: policy_keys_def fun_eq_iff)

text \<open>Nothing but reference counts changes, and nothing appears.\<close>

definition same_use :: "robj \<Rightarrow> robj \<Rightarrow> bool" where
  "same_use ob ob' \<longleftrightarrow> ob' = ob\<lparr>refcount := refcount ob'\<rparr>"

definition frames :: "server \<Rightarrow> server \<Rightarrow> bool" where
  "frames s s' \<longleftrightarrow> (\<forall>c ob'. heap s' c = Some ob' \<longrightarrow> (\<exists>ob. heap s c = Some ob \<and> same_use ob ob'))"

lemma same_use_trans: "same_use a b \<Longrightarrow> same_use b c \<Longrightarrow> same_use a c"
  unfolding same_use_def by (metis robj.surjective robj.update_convs(4))

lemma frames_trans: "frames s t \<Longrightarrow> frames t u \<Longrightarrow> frames s u"
  unfolding frames_def using same_use_trans by blast

lemma frames_same: "heap s' = heap s \<Longrightarrow> frames s s'"
  by (simp add: frames_def same_use_def)

lemma hist_ok_same_use: "same_use ob ob' \<Longrightarrow> hist_ok ob' = hist_ok ob"
  unfolding same_use_def hist_ok_def robj_wf_def by (metis robj.select_convs(6,7) robj.surjective robj.update_convs(4))

lemma createStringObject_frame:
  "\<exists>ob. createStringObject bs s = (next_addr s, s\<lparr>heap := (heap s)(next_addr s \<mapsto> ob), next_addr := Suc (next_addr s)\<rparr>)
      \<and> str_ok ob \<and> refcount ob = 1"
  by (auto simp: createStringObject_def createEmbeddedStringObject_def createRawStringObject_def createObject_def
      alloc_obj_def str_ok_def sdsEncodedObject_def)

lemma ks_ok_alloc:
  assumes "ks_ok x s" "fresh_ok s"
  shows "ks_ok x (s\<lparr>heap := (heap s)(next_addr s \<mapsto> ob), next_addr := n\<rparr>)"
proof -
  have n: "heap s (next_addr s) = None" using assms(2) by (simp add: fresh_ok_def)
  have "x (next_addr s) + refs (dbs s) (next_addr s) = 0"
    using ks_okD [OF assms(1), of "next_addr s"] n by (cases "x (next_addr s) + refs (dbs s) (next_addr s)") auto
  then show ?thesis using assms(1) by (auto simp: ks_ok_def values_ok_def)
qed

lemma evict_key_ok:
  assumes "ks_ok x s" "fresh_ok s" "i < length (dbs s)" "dictFind (db_dict (dbs s ! i)) k \<noteq> None"
  shows "\<exists>h evs s0 s1. evict_key env k i s =
       Inr (sint (zmalloc_used_memory env s0) - sint (zmalloc_used_memory env s1),
            s\<lparr>dbs := (dbs s)[i := del_key k (dbs s ! i)], heap := h, events := evs,
              next_addr := Suc (next_addr s), stat_evictedkeys := stat_evictedkeys s + 1\<rparr>)
     \<and> dbs s0 = dbs s \<and> dbs s1 = (dbs s)[i := del_key k (dbs s ! i)]
     \<and> dbGenericDelete i k (lazyfree_lazy_eviction s) DB_FLAG_KEY_EVICTED s0 = Inr (True, s1)
     \<and> ks_ok x (s\<lparr>dbs := (dbs s)[i := del_key k (dbs s ! i)], heap := h, events := evs,
              next_addr := Suc (next_addr s), stat_evictedkeys := stat_evictedkeys s + 1\<rparr>)
     \<and> (\<forall>a \<ge> Suc (next_addr s). h a = None)
     \<and> (\<forall>c ob'. h c = Some ob' \<longrightarrow> (\<exists>ob. heap s c = Some ob \<and> same_use ob ob'))"
proof -
  let ?n = "next_addr s" and ?db = "dbs s ! i"
  have fresh: "heap s ?n = None" using assms(2) by (simp add: fresh_ok_def)
  obtain a where a: "dictFind (db_dict ?db) k = Some a" using assms(4) by blast
  obtain ob where ob: "heap s a = Some ob" using ks_okE [OF assms(1,3) a] by blast
  have al: "a < ?n" using assms(2) ob by (auto simp: fresh_ok_def not_less [symmetric] intro: ccontr)
  then have an: "a \<noteq> ?n" by simp
  obtain ko where ko: "createStringObject k s = (?n, s\<lparr>heap := (heap s)(?n \<mapsto> ko), next_addr := Suc ?n\<rparr>)"
      "str_ok ko" "refcount ko = 1" using createStringObject_frame by blast
  define s0 where "s0 = s\<lparr>heap := (heap s)(?n \<mapsto> ko), next_addr := Suc ?n\<rparr>"
  have s0: "ks_ok x s0" "i < length (dbs s0)" "dictFind (db_dict (dbs s0 ! i)) k = Some a" "heap s0 a = Some ob"
    using ks_ok_alloc [OF assms(1,2)] assms(3) a ob an by (simp_all add: s0_def)
  define lz where "lz = lazyfree_lazy_eviction s"
  obtain evs where del: "dbGenericDelete i k lz DB_FLAG_KEY_EVICTED s0 =
           Inr (True, s0\<lparr>dbs := (dbs s0)[i := del_key k (dbs s0 ! i)],
                        heap := (if lz then heap s0 else drop_ref (heap s0) a ob),
                        events := events s0 @ evs\<rparr>)"
    using dbGenericDelete_present [OF s0, of lz DB_FLAG_KEY_EVICTED] by blast
  define h1 where "h1 = (if lz then heap s0 else drop_ref (heap s0) a ob)"
  define s1 where "s1 = s0\<lparr>dbs := (dbs s)[i := del_key k ?db], heap := h1, events := events s @ evs\<rparr>"
  have del': "dbGenericDelete i k lz DB_FLAG_KEY_EVICTED s0 = Inr (True, s1)"
    unfolding del s1_def h1_def by (simp add: s0_def)
  have h1n: "h1 ?n = Some ko" using an by (simp add: h1_def s0_def drop_ref_other)
  have ks1: "ks_ok x s1"
  proof -
    have "ks_ok x (s0\<lparr>dbs := (dbs s0)[i := del_key k (dbs s0 ! i)], heap := h1, events := events s @ evs\<rparr>)"
      by (rule ks_ok_delete [OF s0]) (simp add: h1_def)
    then show ?thesis by (simp add: s1_def s0_def)
  qed
  define rs where "rs = (if encoding ko = OBJ_ENCODING_RAW then [SdsFree] else [])"
  have rs: "free_by_type ko = Inr rs"
    using ko(2) by (simp add: str_ok_def free_by_type_def freeStringObject_def rs_def)
  define s2 where "s2 = propagateDeletion ?db k lz (emit (NotifyKeyspace NOTIFY_EVICTED ''evicted'' k (db_id ?db))
        (signalModifiedKey ?db k (s1\<lparr>stat_evictedkeys := stat_evictedkeys s1 + 1\<rparr>)))"
  have s2: "s2 = s1\<lparr>stat_evictedkeys := stat_evictedkeys s + 1, events := events s2\<rparr>"
    by (simp add: s2_def propagateDeletion_def signalModifiedKey_def emit_def s1_def s0_def)
  have h2: "heap s2 ?n = Some ko" using h1n by (subst s2) (simp add: s1_def)
  have fin: "decrRefCount ?n s2 = Inr (free_obj ?n (emit (FreeValue ?n rs) s2))"
    using h2 ko(3) rs by (simp add: decrRefCount_def)
  let ?h = "h1(?n := None)"
  have res: "free_obj ?n (emit (FreeValue ?n rs) s2)
      = s\<lparr>dbs := (dbs s)[i := del_key k ?db], heap := ?h, events := events s2 @ [FreeValue ?n rs],
              next_addr := Suc ?n, stat_evictedkeys := stat_evictedkeys s + 1\<rparr>"
    by (subst s2) (simp add: free_obj_def emit_def s1_def s0_def, simp add: s2_def propagateDeletion_def
        signalModifiedKey_def emit_def s1_def s0_def)
  have run: "evict_key env k i s = Inr (sint (zmalloc_used_memory env s0) - sint (zmalloc_used_memory env s1),
      s\<lparr>dbs := (dbs s)[i := del_key k ?db], heap := ?h, events := events s2 @ [FreeValue ?n rs],
              next_addr := Suc ?n, stat_evictedkeys := stat_evictedkeys s + 1\<rparr>)"
  proof -
    have "lazyfree_lazy_eviction s0 = lz"
      "lazyfree_lazy_eviction (emit e (signalModifiedKey ?db k (s1\<lparr>stat_evictedkeys := v\<rparr>))) = lz" for e v
      by (simp_all add: lz_def s0_def s1_def emit_def signalModifiedKey_def)
    with del' fin res assms(3) show ?thesis
      by (simp add: evict_key_def ko(1) Let_def flip: s0_def s2_def)
  qed
  have z: "x ?n + refs (dbs s1) ?n = 0"
  proof (rule ccontr)
    assume p: "x ?n + refs (dbs s1) ?n \<noteq> 0"
    have r: "refs (dbs s1) ?n \<le> refs (dbs s) ?n"
      using refs_delete [OF assms(3), of "del_key k ?db" k ?n] assms(1,3) by (simp add: s1_def s0_def ks_ok_def db_ok_def)
    with p have "0 < x ?n + refs (dbs s) ?n" by linarith
    from ks_okD [OF assms(1) this] fresh show False by simp
  qed
  have ksf: "ks_ok x (s\<lparr>dbs := (dbs s)[i := del_key k ?db], heap := ?h, events := evs',
              next_addr := Suc ?n, stat_evictedkeys := stat_evictedkeys s + 1\<rparr>)" for evs'
    using ks1 z by (auto simp: ks_ok_def values_ok_def s1_def s0_def)
  have use: "\<exists>ob. heap s c = Some ob \<and> same_use ob ob'" if "?h c = Some ob'" for c ob'
    using that ob an
    by (auto simp: h1_def s0_def drop_ref_def same_use_def split: if_splits)
  have "\<forall>b \<ge> Suc ?n. ?h b = None"
    using assms(2) al by (auto simp: h1_def s0_def drop_ref_def fresh_ok_def not_less_eq_eq)
  with run ksf use del' show ?thesis
    by (intro exI [of _ ?h] exI [of _ "events s2 @ [FreeValue ?n rs]"] exI [of _ s0] exI [of _ s1] conjI)
      (simp_all add: s1_def s0_def lz_def)
qed


subsection \<open>One round of the loop\<close>

definition cycle_inv :: "(nat \<Rightarrow> nat) \<Rightarrow> server \<Rightarrow> evpool \<Rightarrow> bool" where
  "cycle_inv x s p = (ks_ok x s \<and> fresh_ok s \<and> evictable s \<and> pool_inv s p)"

lemma cycle_invD:
  "cycle_inv x s p \<Longrightarrow> ks_ok x s" "cycle_inv x s p \<Longrightarrow> fresh_ok s" "cycle_inv x s p \<Longrightarrow> evictable s"
  "cycle_inv x s p \<Longrightarrow> pool_inv s p"
  by (simp_all add: cycle_inv_def)

text \<open>Nothing the invariant speaks of is touched by counters, settings of the loop and the log.\<close>

lemma cycle_inv_cong:
  assumes "dbs s' = dbs s" "heap s' = heap s" "next_addr s' = next_addr s" "maxmemory_policy s' = maxmemory_policy s"
  shows "cycle_inv x s' p = cycle_inv x s p"
  using assms
  by (simp add: cycle_inv_def ks_ok_def fresh_ok_def evictable_def values_hist_ok_def pool_inv_def dbnum_def)

lemma has_candidates_cong:
  "dbs s' = dbs s \<Longrightarrow> maxmemory_policy s' = maxmemory_policy s \<Longrightarrow> has_candidates s' = has_candidates s"
  using policy_keys_cong [of s' s] by (simp add: has_candidates_def)

lemma del_key_entries: "set (db_dict (del_key k db)) \<subseteq> set (db_dict db)"
  by (auto simp: dictDelete_def AList.delete_eq)

lemma evictable_delete:
  assumes "evictable s" "dbs s' = (dbs s)[i := del_key k (dbs s ! i)]" "i < length (dbs s)"
    and "maxmemory_policy s' = maxmemory_policy s"
    and "\<forall>c ob'. heap s' c = Some ob' \<longrightarrow> (\<exists>ob. heap s c = Some ob \<and> same_use ob ob')"
  shows "evictable s'"
proof -
  have "values_hist_ok s'" if v: "values_hist_ok s"
  proof -
    have "hist_ok ob'" if db: "db \<in> set (dbs s')" "(k', a) \<in> set (db_dict db)" and ob': "heap s' a = Some ob'"
      for db k' a ob'
    proof -
      have "db \<in> insert (del_key k (dbs s ! i)) (set (dbs s))"
        using db(1) set_update_subset_insert [of "dbs s" i] unfolding assms(2) by (rule rev_subsetD)
      then have "\<exists>db' \<in> set (dbs s). (k', a) \<in> set (db_dict db')"
      proof
        assume "db = del_key k (dbs s ! i)"
        then have "(k', a) \<in> set (db_dict (dbs s ! i))" using db(2) del_key_entries [of k "dbs s ! i"] by blast
        with assms(3) show ?thesis by (intro bexI [of _ "dbs s ! i"]) simp_all
      qed (use db(2) in blast)
      moreover obtain ob where "heap s a = Some ob" "same_use ob ob'" using assms(5) ob' by blast
      ultimately show ?thesis using v hist_ok_same_use unfolding values_hist_ok_def by blast
    qed
    then show ?thesis by (auto simp: values_hist_ok_def)
  qed
  with assms(1,4) show ?thesis by (simp add: evictable_def)
qed

text \<open>A key chosen and evicted: one abstract step, and the invariant again.\<close>

lemma evict_chosen:
  assumes "cycle_inv x s p" "candidate s k (int j)"
  shows "\<exists>s' s0 s1. evict_key env k j s
       = Inr (sint (zmalloc_used_memory env s0) - sint (zmalloc_used_memory env s1), s')
     \<and> dbs s0 = dbs s \<and> dbs s1 = dbs s' \<and> cycle_inv x s' p \<and> same_settings s s'
     \<and> freeing env (policy_keys s) (lazyfree_lazy_eviction s) (dbs s)
          (sint (zmalloc_used_memory env s0) - sint (zmalloc_used_memory env s1)) (dbs s')
     \<and> frames s s' \<and> Suc (nkeys (dbs s')) = nkeys (dbs s)
     \<and> isEvictionProcRunning s' = isEvictionProcRunning s \<and> stat_evictedkeys s' = stat_evictedkeys s + 1"
proof -
  note inv = cycle_invD [OF assms(1)]
  have j: "j < length (dbs s)" and k: "k \<in> set (policy_keys s (dbs s ! j))"
    using assms(2) by (simp_all add: candidate_def dbnum_def)
  have p: "dictFind (db_dict (dbs s ! j)) k \<noteq> None" using policy_key_object [OF inv(1) j k] by auto
  let ?ds = "(dbs s)[j := del_key k (dbs s ! j)]"
  obtain h evs s0 s1 where e: "evict_key env k j s =
       Inr (sint (zmalloc_used_memory env s0) - sint (zmalloc_used_memory env s1),
            s\<lparr>dbs := ?ds, heap := h, events := evs, next_addr := Suc (next_addr s),
              stat_evictedkeys := stat_evictedkeys s + 1\<rparr>)"
     "dbs s0 = dbs s" "dbs s1 = ?ds"
     "dbGenericDelete j k (lazyfree_lazy_eviction s) DB_FLAG_KEY_EVICTED s0 = Inr (True, s1)"
     "ks_ok x (s\<lparr>dbs := ?ds, heap := h, events := evs, next_addr := Suc (next_addr s),
              stat_evictedkeys := stat_evictedkeys s + 1\<rparr>)"
     "\<forall>a \<ge> Suc (next_addr s). h a = None"
     "\<forall>c ob'. h c = Some ob' \<longrightarrow> (\<exists>ob. heap s c = Some ob \<and> same_use ob ob')"
    using evict_key_ok [OF inv(1,2) j p, of env] by (elim exE conjE) (rule that)
  define s' where "s' = s\<lparr>dbs := ?ds, heap := h, events := evs, next_addr := Suc (next_addr s),
              stat_evictedkeys := stat_evictedkeys s + 1\<rparr>"
  have f: "dbs s' = ?ds" "heap s' = h" "next_addr s' = Suc (next_addr s)" "maxmemory_policy s' = maxmemory_policy s"
    "isEvictionProcRunning s' = isEvictionProcRunning s" "stat_evictedkeys s' = stat_evictedkeys s + 1"
    by (simp_all add: s'_def)
  have "evictable s'" by (rule evictable_delete [OF inv(3) f(1) j f(4)]) (simp add: f e(7))
  moreover have "fresh_ok s'" using e(6) by (simp add: fresh_ok_def f)
  moreover have "pool_inv s' p" using inv(4) by (simp add: pool_inv_def dbnum_def f)
  ultimately have "cycle_inv x s' p" using e(5) by (simp add: cycle_inv_def s'_def)
  moreover have "same_settings s s'" by (simp add: same_settings_def s'_def)
  moreover have "freeing env (policy_keys s) (lazyfree_lazy_eviction s) (dbs s)
      (sint (zmalloc_used_memory env s0) - sint (zmalloc_used_memory env s1)) (dbs s')"
    using freeing_key [OF freeing_none [of env "policy_keys s" "lazyfree_lazy_eviction s" "dbs s0"], of j k s1] e(2-4) f j k
    by simp
  moreover have "frames s s'" using e(7) by (simp add: frames_def f)
  moreover have "Suc (nkeys (dbs s')) = nkeys (dbs s)"
    unfolding f using inv(1) j p by (intro nkeys_delete) (auto simp: ks_ok_def)
  ultimately show ?thesis
    using e(1-3) f by (intro exI [of _ s'] exI [of _ s0] exI [of _ s1] conjI) (simp_all add: s'_def)
qed

subsection \<open>The loop\<close>

text \<open>
  That the keyspace is all whose memory changes while the cycle runs: the memory in use is a function of
  the databases. Only the meaning of the results needs this, not that the cycle ends.
\<close>

definition keyspace_memory :: "(redisDb list \<Rightarrow> u64) \<Rightarrow> evict_env \<Rightarrow> bool" where
  "keyspace_memory fp env = (\<forall>s. zmalloc_used_memory env s = fp (dbs s))"

text \<open>
  Why the loop stopped, \<open>f\<close> the memory freed in it: nothing is left to evict; or enough was freed, the
  lazy-free thread brought the memory below the limit, or the time is up and the timer goes on.
\<close>

definition loop_outcome :: "evict_env \<Rightarrow> u64 \<Rightarrow> int \<Rightarrow> int \<Rightarrow> server \<Rightarrow> bool \<Rightarrow> server \<Rightarrow> bool" where
  "loop_outcome env limit mem_tofree f s cant s' =
     (if cant then isEvictionProcRunning s' = isEvictionProcRunning s
         \<and> (dbnum s dvd 2 ^ 32 \<and> maxmemory_policy s \<noteq> MAXMEMORY_NO_EVICTION \<longrightarrow> \<not> has_candidates s')
      else (mem_tofree \<le> f \<and> isEvictionProcRunning s' = isEvictionProcRunning s
            \<or> lazyfree_lazy_eviction s \<and> status (mem_status env s') = C_OK \<and> isEvictionProcRunning s' = isEvictionProcRunning s
            \<or> isEvictionProcRunning s' \<and> (\<exists>n. limit < elapsedUs env n)))"

lemma loop_outcome_step:
  assumes "loop_outcome env limit t f s2 cant s'"
    and "dbnum s2 = dbnum s" "same_settings s s2" "isEvictionProcRunning s2 = isEvictionProcRunning s"
  shows "loop_outcome env limit t f s cant s'"
  using assms by (cases cant) (auto simp: loop_outcome_def same_settings_def)

text \<open>Memory that is a function of the databases: what was measured is the difference of the two ends.\<close>

lemma freeing_memory:
  "freeing env keys lazy ds f ds' \<Longrightarrow> keyspace_memory fp env \<Longrightarrow> f = sint (fp ds) - sint (fp ds')"
  by (induction rule: freeing.induct) (simp_all add: keyspace_memory_def)

lemma evict_loop_ok:
  assumes "samples_members env" "samples_within m env" "m < pfuel"
    and "cycle_inv x s p" "nkeys (dbs s) < fuel"
  shows "\<exists>cant s' p' g. evict_loop env pfuel sl limit t fuel n f s p = Inr (cant, s', p')
     \<and> cycle_inv x s' p' \<and> same_settings s s' \<and> frames s s'
     \<and> freeing env (policy_keys s) (lazyfree_lazy_eviction s) (dbs s) g (dbs s')
     \<and> loop_outcome env limit t (f + g) s cant s'"
  using assms(4,5)
proof (induction fuel arbitrary: n f s p)
  case (Suc fuel)
  note inv = cycle_invD [OF Suc.prems(1)]
  show ?case
  proof (cases "f < t")
    case False
    then show ?thesis
      using Suc.prems(1) by (intro exI [of _ False] exI [of _ s] exI [of _ p] exI [of _ 0])
        (simp add: same_settings_refl freeing_none frames_same loop_outcome_def)
  next
    case True
    obtain b v p1 where c: "choose_key env pfuel n s p = Inr (b, s\<lparr>next_db := v\<rparr>, p1)" "pool_inv s p1"
      "\<forall>k j. b = Some (k, j) \<longrightarrow> candidate s k (int j)"
      "b = None \<and> dbnum s dvd 2 ^ 32 \<and> maxmemory_policy s \<noteq> MAXMEMORY_NO_EVICTION \<longrightarrow> \<not> has_candidates s"
      using choose_key_ok [OF inv(1,3) assms(1,2) inv(4) assms(3), of n] by (elim exE conjE) (rule that)
    define s1 where "s1 = s\<lparr>next_db := v\<rparr>"
    have s1: "dbs s1 = dbs s" "heap s1 = heap s" "next_addr s1 = next_addr s" "maxmemory_policy s1 = maxmemory_policy s"
      "isEvictionProcRunning s1 = isEvictionProcRunning s" "dbnum s1 = dbnum s"
      "policy_keys s1 = policy_keys s" "same_settings s s1"
      by (simp_all add: s1_def dbnum_def fun_eq_iff same_settings_def)
    have inv1: "cycle_inv x s1 p1"
      using cycle_inv_cong [OF s1(1-4), of x p1] c(2) Suc.prems(1) by (simp add: cycle_inv_def)
    show ?thesis
    proof (cases b)
      case None
      have "\<not> has_candidates s1" if "dbnum s dvd 2 ^ 32" "maxmemory_policy s \<noteq> MAXMEMORY_NO_EVICTION"
        using c(4) None that has_candidates_cong [OF s1(1,4)] by simp
      with None True c(1) inv1 s1 show ?thesis
        by (intro exI [of _ True] exI [of _ s1] exI [of _ p1] exI [of _ 0])
          (simp add: freeing_none frames_same loop_outcome_def flip: s1_def)
    next
      case (Some kj)
      obtain k j where kj: "kj = (k, j)" by (cases kj)
      have cand: "candidate s1 k (int j)"
        using c(3) Some kj s1(1,6,7) by (simp add: candidate_def)
      obtain s2 s0 s0' where e: "evict_key env k j s1
             = Inr (sint (zmalloc_used_memory env s0) - sint (zmalloc_used_memory env s0'), s2)"
          "dbs s0 = dbs s1" "dbs s0' = dbs s2" "cycle_inv x s2 p1" "same_settings s1 s2"
          "freeing env (policy_keys s1) (lazyfree_lazy_eviction s1) (dbs s1)
             (sint (zmalloc_used_memory env s0) - sint (zmalloc_used_memory env s0')) (dbs s2)" "frames s1 s2" "Suc (nkeys (dbs s2)) = nkeys (dbs s1)"
          "isEvictionProcRunning s2 = isEvictionProcRunning s1"
        using evict_chosen [OF inv1 cand, of env] by (elim exE conjE) (rule that)
      define d where "d = sint (zmalloc_used_memory env s0) - sint (zmalloc_used_memory env s0')"
      define s3 where "s3 = (if Suc n mod 16 = 0 \<and> sl then emit FlushSlavesOutputBuffers s2 else s2)"
      have s3: "dbs s3 = dbs s2" "heap s3 = heap s2" "next_addr s3 = next_addr s2"
        "maxmemory_policy s3 = maxmemory_policy s2" "isEvictionProcRunning s3 = isEvictionProcRunning s2"
        "same_settings s2 s3" "lazyfree_lazy_eviction s3 = lazyfree_lazy_eviction s2"
        by (simp_all add: s3_def emit_def same_settings_def)
      have inv3: "cycle_inv x s3 p1" using cycle_inv_cong [OF s3(1-4), of x p1] e(4) by simp
      have set3: "same_settings s s3" using s1(8) e(5) s3(6) same_settings_trans by blast
      have ev3: "freeing env (policy_keys s) (lazyfree_lazy_eviction s) (dbs s) d (dbs s3)"
        using e(6) s1 s3(1) by (simp add: d_def same_settings_def)
      have fr3: "frames s s3"
        using frames_trans [OF frames_same [OF s1(2)] frames_trans [OF e(7) frames_same [OF s3(2)]]] .
      have len: "dbnum s3 = dbnum s" using evicts_length [OF freeing_evicts [OF ev3]] by (simp add: dbnum_def)
      have run3: "isEvictionProcRunning s3 = isEvictionProcRunning s" using s3(5) e(9) s1(5) by simp
      have nk: "nkeys (dbs s3) < fuel" using e(8) s1(1) s3(1) Suc.prems(2) by simp
      define early where "early = (Suc n mod 16 = 0 \<and> lazyfree_lazy_eviction s3 \<and> status (mem_status env s3) = C_OK)"
      define late where "late = (Suc n mod 16 = 0 \<and> \<not> early \<and> limit < elapsedUs env (Suc n))"
      have unf: "evict_loop env pfuel sl limit t (Suc fuel) n f s p =
          (if early then Inr (False, s3, p1)
           else if late then Inr (False, startEvictionTimeProc s3, p1)
           else evict_loop env pfuel sl limit t fuel (Suc n) (f + d) s3 p1)"
        using True c(1) Some kj e(1)
        by (cases "Suc n mod 16 = 0") (simp_all add: Let_def early_def late_def s3_def flip: s1_def d_def)
      show ?thesis
      proof (cases "early \<or> late")
        case False
        obtain cant s' p' g where r: "evict_loop env pfuel sl limit t fuel (Suc n) (f + d) s3 p1 = Inr (cant, s', p')"
          "cycle_inv x s' p'" "same_settings s3 s'" "frames s3 s'"
          "freeing env (policy_keys s3) (lazyfree_lazy_eviction s3) (dbs s3) g (dbs s')"
          "loop_outcome env limit t (f + d + g) s3 cant s'"
          using Suc.IH [OF inv3 nk, of "Suc n" "f + d"] by (elim exE conjE) (rule that)
        have pk: "policy_keys s3 = policy_keys s" "lazyfree_lazy_eviction s3 = lazyfree_lazy_eviction s"
          using set3 policy_keys_cong [of s3 s] by (simp_all add: same_settings_def)
        have "freeing env (policy_keys s) (lazyfree_lazy_eviction s) (dbs s) (d + g) (dbs s')"
          using freeing_trans [OF r(5) [unfolded pk] ev3] .
        moreover have "loop_outcome env limit t (f + (d + g)) s cant s'"
          using loop_outcome_step [OF r(6) len set3 run3] by (simp add: add.assoc)
        ultimately show ?thesis
          using r(1,2) same_settings_trans [OF set3 r(3)] frames_trans [OF fr3 r(4)] unf False
          by (intro exI [of _ cant] exI [of _ s'] exI [of _ p'] exI [of _ "d + g"]) simp
      next
        case True
        define s4 where "s4 = (if early then s3 else startEvictionTimeProc s3)"
        have s4: "dbs s4 = dbs s3" "heap s4 = heap s3" "next_addr s4 = next_addr s3"
          "maxmemory_policy s4 = maxmemory_policy s3" "same_settings s3 s4"
          "isEvictionProcRunning s3 \<longrightarrow> isEvictionProcRunning s4"
          "early \<longrightarrow> status (mem_status env s4) = C_OK" "\<not> early \<longrightarrow> isEvictionProcRunning s4"
          "early \<longrightarrow> lazyfree_lazy_eviction s3 \<and> s4 = s3"
          by (simp_all add: s4_def startEvictionTimeProc_def emit_def same_settings_def early_def)
        have "cycle_inv x s4 p1" using cycle_inv_cong [OF s4(1-4), of x p1] inv3 by simp
        moreover have "loop_outcome env limit t (f + d) s False s4"
        proof (cases early)
          case True
          then have "lazyfree_lazy_eviction s" "status (mem_status env s4) = C_OK" "s4 = s3"
            using s4(7,9) set3 by (simp_all add: same_settings_def)
          then show ?thesis using run3 by (simp add: loop_outcome_def)
        next
          case False
          then have "isEvictionProcRunning s4" "limit < elapsedUs env (Suc n)"
            using s4(8) True by (auto simp: late_def)
          then show ?thesis unfolding loop_outcome_def by auto
        qed
        moreover have "evict_loop env pfuel sl limit t (Suc fuel) n f s p = Inr (False, s4, p1)"
          unfolding unf s4_def using True by auto
        moreover have "freeing env (policy_keys s) (lazyfree_lazy_eviction s) (dbs s) d (dbs s4)" using ev3 s4(1) by simp
        moreover have "frames s s4" by (rule frames_trans [OF fr3 frames_same [OF s4(2)]])
        ultimately show ?thesis
          using same_settings_trans [OF set3 s4(5)]
          by (intro exI [of _ False] exI [of _ s4] exI [of _ p1] exI [of _ d] conjI)
      qed
    qed
  qed
qed simp

subsection \<open>The wait for the lazy-free thread\<close>

lemma lazyfree_wait_ok:
  assumes "\<not> (bioPending env (k + w) \<and> waitedUs env (k + w) < limit)" "w < fuel"
  shows "\<exists>r evs. lazyfree_wait env limit k fuel s = Inr (r, s\<lparr>events := evs\<rparr>)
     \<and> (r = EVICT_OK \<longrightarrow> status (mem_status env (s\<lparr>events := evs\<rparr>)) = C_OK) \<and> r \<noteq> EVICT_RUNNING"
  using assms
proof (induction fuel arbitrary: k w s)
  case (Suc fuel)
  show ?case
  proof (cases "bioPending env k \<and> waitedUs env k < limit \<and> status (mem_status env s) \<noteq> C_OK")
    case True
    then have "w \<noteq> 0" using Suc.prems(1) by (metis add_0_right)
    then obtain w' where w: "w = Suc w'" by (cases w) auto
    define e where "e = Usleep (if limit < 1000 then unat limit else 1000)"
    obtain r evs where r: "lazyfree_wait env limit (Suc k) fuel (emit e s) = Inr (r, (emit e s)\<lparr>events := evs\<rparr>)"
        "r = EVICT_OK \<longrightarrow> status (mem_status env ((emit e s)\<lparr>events := evs\<rparr>)) = C_OK" "r \<noteq> EVICT_RUNNING"
      using Suc.IH [of "Suc k" w' "emit e s"] Suc.prems w by auto
    have "(emit e s)\<lparr>events := evs\<rparr> = s\<lparr>events := evs\<rparr>" by (simp add: emit_def)
    with r True show ?thesis
      by (intro exI [of _ r] exI [of _ evs]) (simp flip: e_def)
  next
    case False
    have s: "s\<lparr>events := events s\<rparr> = s" by simp
    show ?thesis
    proof (cases "bioPending env k \<and> waitedUs env k < limit")
      case True
      with False s show ?thesis by (intro exI [of _ EVICT_OK] exI [of _ "events s"]) simp
    next
      case nf: False
      then show ?thesis using s by (intro exI [of _ EVICT_FAIL] exI [of _ "events s"]) (simp only: lazyfree_wait.simps if_False, simp)
    qed
  qed
qed simp

subsection \<open>The whole call\<close>

text \<open>
  What a call needs of its environment: sampling finds keys within \<open>m\<close> rounds, the time limit is
  defined, nothing is left to propagate, and within \<open>w\<close> rounds of waiting the lazy-free queue is empty
  or the time is up. The fuel covers these bounds and the number of keys.
\<close>

definition env_ok :: "evict_env \<Rightarrow> nat \<Rightarrow> nat \<Rightarrow> server \<Rightarrow> u64 \<Rightarrow> bool" where
  "env_ok env m w s limit =
     (samples_members env \<and> samples_within m env
      \<and> evictionTimeLimitUs (c_pow env) s = Inr limit \<and> also_propagate_numops env = 0
      \<and> \<not> (bioPending env w \<and> waitedUs env w < limit))"

lemma update_metrics_frame:
  "dbs (update_metrics env r s) = dbs s" "heap (update_metrics env r s) = heap s"
  "next_addr (update_metrics env r s) = next_addr s" "maxmemory_policy (update_metrics env r s) = maxmemory_policy s"
  "same_settings s (update_metrics env r s)" "isEvictionProcRunning (update_metrics env r s) = isEvictionProcRunning s"
  by (simp_all add: update_metrics_def same_settings_def)

lemma mem_status_cong:
  assumes "same_settings s s'" "zmalloc_used_memory env s' = zmalloc_used_memory env s"
  shows "status (mem_status env s') = status (mem_status env s)"
  using assms
  by (simp add: mem_status_def getMaxmemoryState_def freeMemoryGetNotCountedMemory_def same_settings_def Let_def)

lemma mem_status_tofree:
  "status (mem_status env s) \<noteq> C_OK \<Longrightarrow> \<exists>t. tofree (mem_status env s) = Some t"
  by (auto simp: mem_status_def getMaxmemoryState_def Let_def split: if_splits)

lemma mem_status_used:
  assumes "same_settings s s'" "zmalloc_used_memory env s' = u"
  shows "status (mem_status env s') = status (getMaxmemoryState u (repl_node_size env) False s)"
  using assms
  by (simp add: mem_status_def getMaxmemoryState_def freeMemoryGetNotCountedMemory_def same_settings_def Let_def)

text \<open>Freeing what was asked for brings the state below the limit.\<close>

lemma freed_enough:
  assumes "tofree (mem_status env s) = Some t" "keyspace_memory fp env" "\<forall>ds. unat (fp ds) < 2 ^ 63"
    and "same_settings s s'" "sint t \<le> sint (fp (dbs s)) - sint (fp (dbs s'))"
  shows "status (mem_status env s') = C_OK"
proof -
  have small: "sint (fp ds) = int (unat (fp ds))" for ds
    by (rule sint_u64_small [OF spec [OF assms(3)]])
  have used: "zmalloc_used_memory env s = fp (dbs s)" "zmalloc_used_memory env s' = fp (dbs s')"
    using assms(2) by (simp_all add: keyspace_memory_def)
  have tf: "tofree (getMaxmemoryState (fp (dbs s)) (repl_node_size env) False s) = Some t"
    using assms(1) used by (simp add: mem_status_def)
  note G = getMaxmemoryState_lemma [of "fp (dbs s)" "repl_node_size env" False s]
  have t: "unat t = counted_memory (fp (dbs s)) (repl_node_size env) s - unat (maxmemory s)"
    and ok: "\<And>u. unat u + unat t \<le> unat (fp (dbs s)) \<Longrightarrow> status (getMaxmemoryState u (repl_node_size env) False s) = C_OK"
    using G tf by blast+
  have "unat t < 2 ^ 63"
    using t counted_memory_le [of "fp (dbs s)" "repl_node_size env" s] assms(3) [THEN spec, of "dbs s"] by linarith
  then have "sint t = int (unat t)" by (rule sint_u64_small)
  with assms(5) have "int (unat t) \<le> int (unat (fp (dbs s))) - int (unat (fp (dbs s')))" by (simp only: small)
  then have "unat (fp (dbs s')) + unat t \<le> unat (fp (dbs s))" by linarith
  then show ?thesis using mem_status_used [OF assms(4) used(2)] ok by simp
qed

text \<open>
  What happened and what the result says when the memory is over the limit and the policy evicts: keys
  were deleted, freeing \<open>g\<close> bytes as measured, and the state is \<open>s2\<close> but for the metrics.
\<close>

definition cycle_report :: "evict_env \<Rightarrow> u64 \<Rightarrow> server \<Rightarrow> evict_result \<Rightarrow> int \<Rightarrow> server \<Rightarrow> bool" where
  "cycle_report env limit s r g s2 \<longleftrightarrow>
     freeing env (policy_keys s) (lazyfree_lazy_eviction s) (dbs s) g (dbs s2)
     \<and> (isEvictionProcRunning s \<longrightarrow> isEvictionProcRunning s2)
     \<and> (r = EVICT_OK \<longrightarrow> status (mem_status env s2) = C_OK \<or> (\<exists>t. tofree (mem_status env s) = Some t \<and> sint t \<le> g))
     \<and> (r = EVICT_RUNNING \<longrightarrow> isEvictionProcRunning s2 \<and> (isEvictionProcRunning s \<or> (\<exists>n. limit < elapsedUs env n)))
     \<and> (dbnum s dvd 2 ^ 32 \<longrightarrow> (r = EVICT_FAIL \<longrightarrow> \<not> has_candidates s2)
          \<and> (has_candidates s2 \<longrightarrow> (r = EVICT_RUNNING \<longleftrightarrow> isEvictionProcRunning s2)))"

lemma cycle_runs:
  assumes "cycle_inv x s p" "env_ok env m w s limit" "m < pfuel" "nkeys (dbs s) < fuel" "w < wfuel"
    and "isSafeToPerformEvictions s" "status (mem_status env s) \<noteq> C_OK" "maxmemory_policy s \<noteq> MAXMEMORY_NO_EVICTION"
  shows "\<exists>r g s2 p'. performEvictions env pfuel fuel wfuel s p = Inr (r, update_metrics env r s2, p')
     \<and> cycle_report env limit s r g s2 \<and> cycle_inv x s2 p' \<and> frames s s2 \<and> same_settings s s2"
proof -
  have E: "samples_members env" "samples_within m env" "evictionTimeLimitUs (c_pow env) s = Inr limit"
    "also_propagate_numops env = 0" "\<not> (bioPending env (0 + w) \<and> waitedUs env (0 + w) < limit)"
    using assms(2) by (simp_all add: env_ok_def)
  obtain t where t: "tofree (mem_status env s) = Some t" using mem_status_tofree assms(7) by blast
  obtain cant s1 p1 g where l: "evict_loop env pfuel (slaves s \<noteq> 0) limit (sint t) fuel 0 0 s p = Inr (cant, s1, p1)"
     "cycle_inv x s1 p1" "same_settings s s1" "frames s s1"
     "freeing env (policy_keys s) (lazyfree_lazy_eviction s) (dbs s) g (dbs s1)"
     "loop_outcome env limit (sint t) (0 + g) s cant s1"
    using evict_loop_ok [OF E(1,2) assms(3,1,4), of "slaves s \<noteq> 0" limit "sint t" 0 0]
    by (elim exE conjE) (rule that)
  obtain r evs where rw: "cbind (if cant then lazyfree_wait env limit 0 wfuel s1
                else Inr (if isEvictionProcRunning s1 then EVICT_RUNNING else EVICT_OK, s1))
           (\<lambda>(r, s2). Inr (r, update_metrics env r s2, p1))
        = Inr (r, update_metrics env r (s1\<lparr>events := evs\<rparr>), p1)"
      "cant \<longrightarrow> (r = EVICT_OK \<longrightarrow> status (mem_status env (s1\<lparr>events := evs\<rparr>)) = C_OK) \<and> r \<noteq> EVICT_RUNNING"
      "\<not> cant \<longrightarrow> r = (if isEvictionProcRunning s1 then EVICT_RUNNING else EVICT_OK) \<and> s1\<lparr>events := evs\<rparr> = s1"
  proof (cases cant)
    case True
    obtain r evs where "lazyfree_wait env limit 0 wfuel s1 = Inr (r, s1\<lparr>events := evs\<rparr>)"
      "r = EVICT_OK \<longrightarrow> status (mem_status env (s1\<lparr>events := evs\<rparr>)) = C_OK" "r \<noteq> EVICT_RUNNING"
      using lazyfree_wait_ok [OF E(5) assms(5), of s1] by (elim exE conjE) (rule that)
    then show ?thesis using True by (intro that [of r evs]) simp_all
  next
    case False
    then show ?thesis
      by (intro that [of "if isEvictionProcRunning s1 then EVICT_RUNNING else EVICT_OK" "events s1"]) simp_all
  qed
  define s2 where "s2 = s1\<lparr>events := evs\<rparr>"
  have s2: "dbs s2 = dbs s1" "heap s2 = heap s1" "next_addr s2 = next_addr s1"
    "maxmemory_policy s2 = maxmemory_policy s1" "same_settings s1 s2"
    "isEvictionProcRunning s2 = isEvictionProcRunning s1" "has_candidates s2 = has_candidates s1"
    by (simp_all add: s2_def same_settings_def has_candidates_def policy_keys_def)
  have run: "performEvictions env pfuel fuel wfuel s p = Inr (r, update_metrics env r s2, p1)"
    using assms(6-8) E t l(1) rw(1) by (simp add: performEvictions_def Let_def s2_def)
  have "cycle_report env limit s r g s2"
  proof (cases cant)
    case True
    then have c: "isEvictionProcRunning s1 = isEvictionProcRunning s" "dbnum s dvd 2 ^ 32 \<longrightarrow> \<not> has_candidates s1"
        "r = EVICT_OK \<longrightarrow> status (mem_status env s2) = C_OK" "r \<noteq> EVICT_RUNNING"
      using l(6) assms(8) rw(2) by (simp_all add: loop_outcome_def s2_def)
    then show ?thesis using l(5) s2 by (simp add: cycle_report_def)
  next
    case False
    then have c: "r = (if isEvictionProcRunning s1 then EVICT_RUNNING else EVICT_OK)" "s2 = s1"
      using rw(3) by (simp_all add: s2_def)
    have o: "sint t \<le> g \<and> isEvictionProcRunning s1 = isEvictionProcRunning s
        \<or> status (mem_status env s1) = C_OK \<and> isEvictionProcRunning s1 = isEvictionProcRunning s
        \<or> isEvictionProcRunning s1 \<and> (\<exists>n. limit < elapsedUs env n)"
      using l(6) False unfolding loop_outcome_def by auto
    show ?thesis
    proof (cases "isEvictionProcRunning s1")
      case True
      then show ?thesis using c o l(5) by (auto simp: cycle_report_def)
    next
      case False
      then show ?thesis using c o l(5) t by (auto simp: cycle_report_def)
    qed
  qed
  moreover have "cycle_inv x s2 p1" using cycle_inv_cong [OF s2(1-4), of x p1] l(2) by simp
  ultimately show ?thesis
    using run frames_trans [OF l(4) frames_same [OF s2(2)]] same_settings_trans [OF l(3) s2(5)] by blast
qed

lemma performEvictions_ok:
  assumes "cycle_inv x s p" "env_ok env m w s limit" "m < pfuel" "nkeys (dbs s) < fuel" "w < wfuel"
  shows "\<exists>r s' p'. performEvictions env pfuel fuel wfuel s p = Inr (r, s', p') \<and> cycle_inv x s' p' \<and> frames s s'
     \<and> evicts (policy_keys s) (dbs s) (dbs s')"
proof -
  have um: "cycle_inv x (update_metrics env r t) q = cycle_inv x t q" for r t q
    by (rule cycle_inv_cong) (simp_all add: update_metrics_frame)
  have uf: "frames s (update_metrics env r s)" for r by (rule frames_same) (simp add: update_metrics_frame)
  show ?thesis
  proof (cases "isSafeToPerformEvictions s \<and> status (mem_status env s) \<noteq> C_OK \<and> maxmemory_policy s \<noteq> MAXMEMORY_NO_EVICTION")
    case True
    then have c: "isSafeToPerformEvictions s" "status (mem_status env s) \<noteq> C_OK" "maxmemory_policy s \<noteq> MAXMEMORY_NO_EVICTION"
      by simp_all
    obtain r g s2 p' where r: "performEvictions env pfuel fuel wfuel s p = Inr (r, update_metrics env r s2, p')"
        "cycle_report env limit s r g s2" "cycle_inv x s2 p'" "frames s s2"
      using cycle_runs [OF assms c] by blast
    have "freeing env (policy_keys s) (lazyfree_lazy_eviction s) (dbs s) g (dbs s2)"
      using r(2) unfolding cycle_report_def by blast
    then have "evicts (policy_keys s) (dbs s) (dbs s2)" by (rule freeing_evicts)
    moreover have "frames s (update_metrics env r s2)"
      by (rule frames_trans [OF r(4) frames_same]) (simp add: update_metrics_frame)
    ultimately show ?thesis using r(1,3) by (auto simp: um update_metrics_frame)
  next
    case False
    then show ?thesis
      using assms(1) uf frames_same [of s s]
      by (cases "isSafeToPerformEvictions s"; cases "status (mem_status env s) = C_OK")
        (simp_all add: performEvictions_def evicts_none um update_metrics_frame)
  qed
qed

subsection \<open>The properties of a call\<close>

text \<open>
  C4: a call of \<open>performEvictions\<close> returns: the refill of the pool ends, every round of the loop deletes
  a key, and the wait for the lazy-free thread is bounded, so fuel for the number of keys is enough. No
  access leaves the pool or a database, no null object is read; the keyspace, the store and the pool
  are consistent afterwards; and all that happened to the databases is that keys the policy may evict
  were deleted, one after the other.
\<close>

theorem performEvictions_returns:
  assumes "cycle_inv x s p" "env_ok env m w s limit" "m < pfuel" "nkeys (dbs s) < fuel" "w < wfuel"
  shows "\<exists>r s' p'. performEvictions env pfuel fuel wfuel s p = Inr (r, s', p') \<and> cycle_inv x s' p'
     \<and> evicts (policy_keys s) (dbs s) (dbs s')"
  using performEvictions_ok [OF assms] by blast

text \<open>
  C1: the result of a call means what the comment above the function says. When evicting is not safe it is
  \<open>EVICT_OK\<close> and nothing changes; below the limit it is \<open>EVICT_OK\<close>, and over it with the policy
  \<open>noeviction\<close> it is \<open>EVICT_FAIL\<close>, and only the metrics change. Otherwise keys were deleted, freeing \<open>g\<close>
  bytes as measured around the deletions, and \<open>EVICT_OK\<close> means that the memory is below the limit or that
  what was asked for has been freed; \<open>EVICT_RUNNING\<close> that the timer runs, either from before or because
  the time limit was passed; \<open>EVICT_FAIL\<close> that no key is left that the policy may evict. Conversely,
  while such keys are left, the result is \<open>EVICT_RUNNING\<close> exactly when the timer runs and never \<open>EVICT_FAIL\<close> (these
  two for a number of databases that divides \<open>2 ^ 32\<close>). Where the memory in use is determined by the databases,
  \<open>EVICT_OK\<close> means that the memory is below the limit after the call.
\<close>

theorem performEvictions_result:
  assumes "cycle_inv x s p" "env_ok env m w s limit" "m < pfuel" "nkeys (dbs s) < fuel" "w < wfuel"
  shows "\<exists>r s' p'. performEvictions env pfuel fuel wfuel s p = Inr (r, s', p')
     \<and> (if \<not> isSafeToPerformEvictions s then r = EVICT_OK \<and> s' = s \<and> p' = p
        else if status (mem_status env s) = C_OK then r = EVICT_OK \<and> s' = update_metrics env r s \<and> p' = p
        else if maxmemory_policy s = MAXMEMORY_NO_EVICTION then r = EVICT_FAIL \<and> s' = update_metrics env r s \<and> p' = p
        else (\<exists>t g s2. tofree (mem_status env s) = Some t \<and> s' = update_metrics env r s2
          \<and> freeing env (policy_keys s) (lazyfree_lazy_eviction s) (dbs s) g (dbs s2)
          \<and> (r = EVICT_OK \<longrightarrow> status (mem_status env s2) = C_OK \<or> sint t \<le> g)
          \<and> (r = EVICT_RUNNING \<longrightarrow> isEvictionProcRunning s2 \<and> (isEvictionProcRunning s \<or> (\<exists>n. limit < elapsedUs env n)))
          \<and> (dbnum s dvd 2 ^ 32 \<longrightarrow> (r = EVICT_FAIL \<longrightarrow> \<not> has_candidates s2)
               \<and> (has_candidates s2 \<longrightarrow> (r = EVICT_RUNNING \<longleftrightarrow> isEvictionProcRunning s2)))
          \<and> (\<forall>fp. keyspace_memory fp env \<and> (\<forall>ds. unat (fp ds) < 2 ^ 63) \<and> r = EVICT_OK
               \<longrightarrow> status (mem_status env s') = C_OK)))"
proof (cases "isSafeToPerformEvictions s \<and> status (mem_status env s) \<noteq> C_OK \<and> maxmemory_policy s \<noteq> MAXMEMORY_NO_EVICTION")
  case True
  then have c: "isSafeToPerformEvictions s" "status (mem_status env s) \<noteq> C_OK" "maxmemory_policy s \<noteq> MAXMEMORY_NO_EVICTION"
    by simp_all
  obtain t where t: "tofree (mem_status env s) = Some t" using mem_status_tofree c(2) by blast
  obtain r g s2 p' where r: "performEvictions env pfuel fuel wfuel s p = Inr (r, update_metrics env r s2, p')"
      "cycle_report env limit s r g s2" "same_settings s s2"
    using cycle_runs [OF assms c] by blast
  have R: "freeing env (policy_keys s) (lazyfree_lazy_eviction s) (dbs s) g (dbs s2)"
      "r = EVICT_OK \<longrightarrow> status (mem_status env s2) = C_OK \<or> sint t \<le> g"
      "r = EVICT_RUNNING \<longrightarrow> isEvictionProcRunning s2 \<and> (isEvictionProcRunning s \<or> (\<exists>n. limit < elapsedUs env n))"
      "dbnum s dvd 2 ^ 32 \<longrightarrow> (r = EVICT_FAIL \<longrightarrow> \<not> has_candidates s2)
          \<and> (has_candidates s2 \<longrightarrow> (r = EVICT_RUNNING \<longleftrightarrow> isEvictionProcRunning s2))"
    using r(2) t by (simp_all add: cycle_report_def)
  have m: "status (mem_status env (update_metrics env r s2)) = C_OK"
    if fp: "keyspace_memory fp env" "\<forall>ds. unat (fp ds) < 2 ^ 63" and ok: "r = EVICT_OK" for fp
  proof -
    have "g = sint (fp (dbs s)) - sint (fp (dbs s2))" by (rule freeing_memory [OF R(1) fp(1)])
    then have "status (mem_status env s2) = C_OK"
      using freed_enough [OF t fp r(3)] R(2) ok by auto
    moreover have "zmalloc_used_memory env (update_metrics env r s2) = zmalloc_used_memory env s2"
      using fp(1) by (simp add: keyspace_memory_def update_metrics_frame)
    ultimately show ?thesis using mem_status_cong [OF update_metrics_frame(5)] by simp
  qed
  have "\<not> \<not> isSafeToPerformEvictions s" using c(1) by simp
  then show ?thesis
    unfolding if_not_P [OF \<open>\<not> \<not> isSafeToPerformEvictions s\<close>] if_not_P [OF c(2)] if_not_P [OF c(3)]
    apply (rule_tac exI [of _ r], rule_tac exI [of _ "update_metrics env r s2"], rule_tac exI [of _ p'])
    apply (rule conjI, rule r(1), rule exI [of _ t], rule exI [of _ g], rule exI [of _ s2])
    apply (intro conjI, rule t, rule refl, rule R(1), rule R(2), rule R(3), rule R(4))
    using m by blast
next
  case False
  then show ?thesis
    by (cases "isSafeToPerformEvictions s"; cases "status (mem_status env s) = C_OK")
      (simp_all add: performEvictions_def)
qed

text \<open>What the deletions leave of a database: a key is gone with its expire, or exactly as it was.\<close>

lemma evicts_whole:
  assumes "evicts keys ds ds'" "j < length ds"
  shows "dictFind (db_dict (ds' ! j)) k = None \<and> dictFind (db_expires (ds' ! j)) k = None
      \<or> dictFind (db_dict (ds' ! j)) k = dictFind (db_dict (ds ! j)) k
        \<and> dictFind (db_expires (ds' ! j)) k = dictFind (db_expires (ds ! j)) k"
    and "\<exists>d e. ds' ! j = (ds ! j)\<lparr>db_dict := d, db_expires := e\<rparr>"
proof -
  have "(dictFind (db_dict (ds' ! j)) k = None \<and> dictFind (db_expires (ds' ! j)) k = None
      \<or> dictFind (db_dict (ds' ! j)) k = dictFind (db_dict (ds ! j)) k
        \<and> dictFind (db_expires (ds' ! j)) k = dictFind (db_expires (ds ! j)) k)
      \<and> (\<exists>d e. ds' ! j = (ds ! j)\<lparr>db_dict := d, db_expires := e\<rparr>)"
    using assms
  proof (induction rule: evicts.induct)
    case (evicts_none ds)
    then show ?case by (intro conjI disjI2 exI [of _ "db_dict (ds ! j)"] exI [of _ "db_expires (ds ! j)"]) simp_all
  next
    case (evicts_key ds ds' i k')
    then obtain d e where "ds' ! j = (ds ! j)\<lparr>db_dict := d, db_expires := e\<rparr>" by blast
    then have "ds'[i := del_key k' (ds' ! i)] ! j = (ds ! j)\<lparr>db_dict := (if i = j then dictDelete d k' else d),
        db_expires := (if i = j then dictDelete e k' else e)\<rparr>"
      using evicts_key.hyps(2) by (cases "i = j") (simp_all add: del_key_def)
    then have "\<exists>d e. ds'[i := del_key k' (ds' ! i)] ! j = (ds ! j)\<lparr>db_dict := d, db_expires := e\<rparr>" by blast
    with evicts_key show ?case by (cases "i = j") (auto simp: del_key_def)
  qed
  then show "dictFind (db_dict (ds' ! j)) k = None \<and> dictFind (db_expires (ds' ! j)) k = None
      \<or> dictFind (db_dict (ds' ! j)) k = dictFind (db_dict (ds ! j)) k
        \<and> dictFind (db_expires (ds' ! j)) k = dictFind (db_expires (ds ! j)) k"
    "\<exists>d e. ds' ! j = (ds ! j)\<lparr>db_dict := d, db_expires := e\<rparr>" by blast+
qed

text \<open>
  C5: a call only removes keys, whole: after it a key of a database is gone with its expire, or it has the
  expire it had and the very value it had, an object of which nothing changed but possibly the
  reference count; the rest of the database is as it was. Under a volatile policy a key that has no expire
  is never removed.
\<close>

theorem performEvictions_spares:
  assumes "cycle_inv x s p" "env_ok env m w s limit" "m < pfuel" "nkeys (dbs s) < fuel" "w < wfuel"
    and "performEvictions env pfuel fuel wfuel s p = Inr (r, s', p')" "j < dbnum s"
    and "db = dbs s ! j" "db' = dbs s' ! j"
  shows "(if dictFind (db_dict db') k = None then dictFind (db_expires db') k = None
          else dictFind (db_dict db') k = dictFind (db_dict db) k \<and> dictFind (db_expires db') k = dictFind (db_expires db) k)
     \<and> (\<forall>a. dictFind (db_dict db') k = Some a \<longrightarrow>
          (\<exists>ob n. heap s a = Some ob \<and> heap s' a = Some (ob\<lparr>refcount := n\<rparr>)))
     \<and> (\<exists>d e. db' = db\<lparr>db_dict := d, db_expires := e\<rparr>)
     \<and> (\<not> flag_set (maxmemory_policy s) MAXMEMORY_FLAG_ALLKEYS \<and> dictFind (db_expires db) k = None
          \<longrightarrow> dictFind (db_dict db') k = dictFind (db_dict db) k)"
proof -
  have ev: "evicts (policy_keys s) (dbs s) (dbs s')" and fr: "frames s s'" and inv: "cycle_inv x s' p'"
    using performEvictions_ok [OF assms(1-5)] assms(6) by auto
  have j: "j < length (dbs s)" using assms(7) by (simp add: dbnum_def)
  have j': "j < length (dbs s')" using j evicts_length [OF ev] by simp
  have w: "dictFind (db_dict db') k = None \<and> dictFind (db_expires db') k = None
      \<or> dictFind (db_dict db') k = dictFind (db_dict db) k \<and> dictFind (db_expires db') k = dictFind (db_expires db) k"
      "\<exists>d e. db' = db\<lparr>db_dict := d, db_expires := e\<rparr>"
    using evicts_whole [OF ev j] unfolding assms(8,9) by blast+
  have ok: "db_ok db'" using cycle_invD(1) [OF inv] j' by (simp add: ks_ok_def assms(9))
  then have n: "dictFind (db_dict db') k = None \<Longrightarrow> dictFind (db_expires db') k = None" unfolding db_ok_def by blast
  have vol: "dictFind (db_dict db') k = dictFind (db_dict db) k"
    if "\<not> flag_set (maxmemory_policy s) MAXMEMORY_FLAG_ALLKEYS" "dictFind (db_expires db) k = None"
    unfolding assms(8,9) by (rule evicts_volatile [OF ev j _ that(2) [unfolded assms(8)]]) (simp add: policy_keys_def that(1))
  have "\<exists>ob n. heap s a = Some ob \<and> heap s' a = Some (ob\<lparr>refcount := n\<rparr>)" if a: "dictFind (db_dict db') k = Some a" for a
  proof -
    obtain ob' where ob': "heap s' a = Some ob'"
      using ks_okE [OF cycle_invD(1) [OF inv] j' a [unfolded assms(9)]] by blast
    then obtain ob where "heap s a = Some ob" "same_use ob ob'" using fr unfolding frames_def by blast
    with ob' show ?thesis unfolding same_use_def by metis
  qed
  moreover have "if dictFind (db_dict db') k = None then dictFind (db_expires db') k = None
          else dictFind (db_dict db') k = dictFind (db_dict db) k \<and> dictFind (db_expires db') k = dictFind (db_expires db) k"
    using w(1) n by auto
  ultimately show ?thesis using w(2) vol by blast
qed

text \<open>
  C23: the timer that continues an eviction runs one cycle each time; it asks to be called again exactly when
  the cycle reports \<open>EVICT_RUNNING\<close>, leaving its flag set, and otherwise is dropped with its flag cleared,
  so that the flag says afterwards whether the timer is registered. It is dropped when evicting is not
  safe, when the memory was below the limit or when the policy is \<open>noeviction\<close>, and otherwise only when no key is
  left that the policy may evict: while there are, it goes on, even past the point where enough was freed.
\<close>

theorem evictionTimeProc_stops:
  assumes "cycle_inv x s p" "env_ok env m w s limit" "m < pfuel" "nkeys (dbs s) < fuel" "w < wfuel"
    and "isEvictionProcRunning s" "dbnum s dvd 2 ^ 32"
    and "calm \<longleftrightarrow> \<not> isSafeToPerformEvictions s \<or> status (mem_status env s) = C_OK
           \<or> maxmemory_policy s = MAXMEMORY_NO_EVICTION"
  shows "\<exists>r s1 p' a s'. performEvictions env pfuel fuel wfuel s p = Inr (r, s1, p')
     \<and> evictionTimeProc env pfuel fuel wfuel s p = Inr (a, s', p')
     \<and> (if r = EVICT_RUNNING then a = 0 \<and> s' = s1 else a = AE_NOMORE \<and> s' = s1\<lparr>isEvictionProcRunning := False\<rparr>)
     \<and> (isEvictionProcRunning s' \<longleftrightarrow> a \<noteq> AE_NOMORE)
     \<and> (calm \<longrightarrow> a = AE_NOMORE) \<and> (a = AE_NOMORE \<longrightarrow> calm \<or> \<not> has_candidates s')
     \<and> (\<not> calm \<and> has_candidates s' \<longrightarrow> a = 0)"
proof (cases calm)
  case True
  obtain r s1 where r: "performEvictions env pfuel fuel wfuel s p = Inr (r, s1, p)" "r \<noteq> EVICT_RUNNING"
    using True unfolding assms(8)
    by (cases "isSafeToPerformEvictions s"; cases "status (mem_status env s) = C_OK") (auto simp: performEvictions_def)
  then show ?thesis using True by (auto simp: evictionTimeProc_def AE_NOMORE_def)
next
  case False
  then have c: "isSafeToPerformEvictions s" "status (mem_status env s) \<noteq> C_OK" "maxmemory_policy s \<noteq> MAXMEMORY_NO_EVICTION"
    by (simp_all add: assms(8))
  obtain r g s2 p' where r: "performEvictions env pfuel fuel wfuel s p = Inr (r, update_metrics env r s2, p')"
      "cycle_report env limit s r g s2"
    using cycle_runs [OF assms(1-5) c] by blast
  let ?s1 = "update_metrics env r s2"
  have hc: "has_candidates (?s1\<lparr>isEvictionProcRunning := b\<rparr>) = has_candidates s2" for b
    by (rule has_candidates_cong) (simp_all add: update_metrics_frame)
  have run: "has_candidates s2 \<Longrightarrow> r = EVICT_RUNNING" "isEvictionProcRunning ?s1"
    using r(2) assms(6,7) by (simp_all add: cycle_report_def update_metrics_frame)
  show ?thesis
  proof (cases "r = EVICT_RUNNING")
    case True
    then show ?thesis using r(1) run(2) False by (auto simp: evictionTimeProc_def AE_NOMORE_def)
  next
    case nr: False
    then have "evictionTimeProc env pfuel fuel wfuel s p = Inr (AE_NOMORE, ?s1\<lparr>isEvictionProcRunning := False\<rparr>, p')"
      using r(1) by (simp add: evictionTimeProc_def)
    then show ?thesis using r(1) nr run(1) hc [of False] by (auto simp: AE_NOMORE_def)
  qed
qed

text \<open>Two keys of 60 bytes each under a limit of 100; sampling returns every key.\<close>

definition demo_memory :: "redisDb list \<Rightarrow> u64" where
  "demo_memory ds = of_nat (60 * min (nkeys ds) 1000)"

definition demo_env :: evict_env where
  "demo_env = \<lparr>zmalloc_used_memory = (\<lambda>s. demo_memory (dbs s)), repl_node_size = 64,
     dictGetSomeKeys = (\<lambda>_ _ _ ks. ks), dictGetRandomKey = (\<lambda>_ ks. hd ks), elapsedUs = (\<lambda>_. 0),
     waitedUs = (\<lambda>_. 0), bioPending = (\<lambda>_. False), now_us = 1, also_propagate_numops = 0,
     c_pow = (\<lambda>x _. x)\<rparr>"

definition full_server :: "int \<Rightarrow> server" where
  "full_server pol = two_keys\<lparr>maxmemory := 100, maxmemory_policy := pol\<rparr>"

lemma cycle_inv_full:
  assumes "pol \<in> set all_policies" "pol \<noteq> MAXMEMORY_ALLKEYS_LRU_HISTOGRAM"
  shows "cycle_inv (\<lambda>_. 0) (full_server pol) evictionPoolAlloc"
proof -
  have "ks_ok (\<lambda>_. 0) (full_server pol)" using ks_ok_two_keys by (simp add: ks_ok_def full_server_def)
  moreover have "fresh_ok (full_server pol)" by (auto simp: fresh_ok_def full_server_def two_keys_def)
  moreover have "pool_inv (full_server pol) evictionPoolAlloc"
    by (simp add: pool_inv_def pool_ok_alloc pool_keys_alloc)
  moreover have "evictable (full_server pol)" using assms by (simp add: evictable_def full_server_def)
  ultimately show ?thesis by (simp add: cycle_inv_def)
qed

lemma demo_env_ok: "env_ok demo_env 1 0 (full_server pol) 500"
proof -
  have "evictionTimeLimitUs f (full_server pol) = Inr 500" for f
    by (simp add: evictionTimeLimitUs_def full_server_def two_keys_def init_server_def)
  moreover have "\<exists>r' \<ge> r. r' < r + 1" for r :: nat by (intro exI [of _ r]) simp
  ultimately show ?thesis
    by (simp add: env_ok_def demo_env_def samples_members_def samples_within_def)
qed

lemma demo_memory_small: "\<forall>ds. unat (demo_memory ds) < 2 ^ 63"
proof
  fix ds
  define n where "n = 60 * min (nkeys ds) 1000"
  have n: "n \<le> 60000" by (simp add: n_def)
  then have "n < 2 ^ 64" by simp
  then have "unat (of_nat n :: u64) = n" by (simp add: unat_of_nat take_bit_nat_eq_self)
  with n show "unat (demo_memory ds) < 2 ^ 63" unfolding demo_memory_def n_def by simp
qed

lemma nkeys_full: "nkeys (dbs (full_server pol)) = 2" "dbnum (full_server pol) = 2"
  "isSafeToPerformEvictions (full_server pol)"
  by (simp_all add: nkeys_def full_server_def two_keys_def dictSize_def empty_db_def dbnum_def
      isSafeToPerformEvictions_def init_server_def)

lemma lru_policy: "MAXMEMORY_ALLKEYS_LRU \<in> set all_policies" "MAXMEMORY_ALLKEYS_LRU \<noteq> MAXMEMORY_ALLKEYS_LRU_HISTOGRAM"
  "MAXMEMORY_VOLATILE_RANDOM \<in> set all_policies" "MAXMEMORY_VOLATILE_RANDOM \<noteq> MAXMEMORY_ALLKEYS_LRU_HISTOGRAM"
  by (simp_all add: all_policies_def policy_defs)

theorem performEvictions_returns_witness:
  "\<exists>r s' p'. performEvictions demo_env 2 3 1 (full_server MAXMEMORY_ALLKEYS_LRU) evictionPoolAlloc = Inr (r, s', p')
     \<and> cycle_inv (\<lambda>_. 0) s' p'"
proof -
  have "\<exists>r s' p'. performEvictions demo_env 2 3 1 (full_server MAXMEMORY_ALLKEYS_LRU) evictionPoolAlloc = Inr (r, s', p')
     \<and> cycle_inv (\<lambda>_. 0) s' p'
     \<and> evicts (policy_keys (full_server MAXMEMORY_ALLKEYS_LRU)) (dbs (full_server MAXMEMORY_ALLKEYS_LRU)) (dbs s')"
    by (rule performEvictions_returns [OF cycle_inv_full [OF lru_policy(1,2)] demo_env_ok]) (simp_all add: nkeys_full)
  then show ?thesis by blast
qed

lemma demo_keyspace_memory: "keyspace_memory demo_memory demo_env"
  by (simp add: keyspace_memory_def demo_env_def)

lemma demo_over: "status (mem_status demo_env (full_server MAXMEMORY_ALLKEYS_LRU)) \<noteq> C_OK"
  by code_simp

lemma demo_over_running:
  "status (mem_status demo_env ((full_server MAXMEMORY_ALLKEYS_LRU)\<lparr>isEvictionProcRunning := True\<rparr>)) \<noteq> C_OK"
  by code_simp

lemma demo_run:
  "case performEvictions demo_env 2 3 1 (full_server MAXMEMORY_ALLKEYS_LRU) evictionPoolAlloc of
     Inr (r, s', p') \<Rightarrow> r = EVICT_OK \<and> map db_dict (dbs s') = [[([98], 1)], []] | Inl e \<Rightarrow> False"
  by code_simp

theorem performEvictions_result_witness:
  "\<exists>s' p'. performEvictions demo_env 2 3 1 (full_server MAXMEMORY_ALLKEYS_LRU) evictionPoolAlloc
             = Inr (EVICT_OK, s', p')
         \<and> map db_dict (dbs s') = [[([98], 1)], []] \<and> status (mem_status demo_env s') = C_OK"
proof -
  let ?s = "full_server MAXMEMORY_ALLKEYS_LRU"
  have f: "1 < (2 :: nat)" "nkeys (dbs ?s) < 3" "0 < (1 :: nat)" by (simp_all add: nkeys_full)
  have c: "\<not> \<not> isSafeToPerformEvictions ?s" "status (mem_status demo_env ?s) \<noteq> C_OK"
      "maxmemory_policy ?s \<noteq> MAXMEMORY_NO_EVICTION"
    using nkeys_full(3) demo_over by (simp_all add: full_server_def policy_defs)
  obtain r s' p' where r: "performEvictions demo_env 2 3 1 ?s evictionPoolAlloc = Inr (r, s', p')"
     "\<forall>fp. keyspace_memory fp demo_env \<and> (\<forall>ds. unat (fp ds) < 2 ^ 63) \<and> r = EVICT_OK \<longrightarrow> status (mem_status demo_env s') = C_OK"
    using performEvictions_result [OF cycle_inv_full [OF lru_policy(1,2)] demo_env_ok f]
    unfolding if_not_P [OF c(1)] if_not_P [OF c(2)] if_not_P [OF c(3)] by blast
  have "r = EVICT_OK" "map db_dict (dbs s') = [[([98], 1)], []]" using demo_run r(1) by simp_all
  moreover have "status (mem_status demo_env s') = C_OK"
    using r(2) \<open>r = EVICT_OK\<close> demo_keyspace_memory demo_memory_small by blast
  ultimately show ?thesis using r(1) by (intro exI [of _ s'] exI [of _ p']) simp
qed

lemma demo_volatile_run:
  "case performEvictions demo_env 2 3 1 (full_server MAXMEMORY_VOLATILE_RANDOM) evictionPoolAlloc of
     Inr (r, s', p') \<Rightarrow> map db_expires (dbs s') = [[], []] | Inl e \<Rightarrow> False"
  by code_simp

theorem performEvictions_spares_witness:
  "\<exists>r s' p'. performEvictions demo_env 2 3 1 (full_server MAXMEMORY_VOLATILE_RANDOM) evictionPoolAlloc = Inr (r, s', p')
     \<and> map db_expires (dbs s') = [[], []] \<and> dictFind (db_dict (dbs s' ! 0)) [98] = Some 1"
proof -
  let ?s = "full_server MAXMEMORY_VOLATILE_RANDOM"
  obtain r s' p' where r: "performEvictions demo_env 2 3 1 ?s evictionPoolAlloc = Inr (r, s', p')"
      "map db_expires (dbs s') = [[], []]"
    using demo_volatile_run by (auto split: sum.splits)
  have "dictFind (db_dict (dbs ?s ! 0)) [98] = Some 1" "dictFind (db_expires (dbs ?s ! 0)) [98] = None"
    "\<not> flag_set (maxmemory_policy ?s) MAXMEMORY_FLAG_ALLKEYS"
    by (simp_all add: full_server_def dictFind_def empty_db_def policy_defs)
  note keep = this
  have f: "1 < (2 :: nat)" "nkeys (dbs ?s) < 3" "0 < (1 :: nat)" "0 < dbnum ?s" by (simp_all add: nkeys_full)
  from performEvictions_spares [OF cycle_inv_full [OF lru_policy(3,4)] demo_env_ok f(1-3) r(1) f(4) refl refl, of "[98]"]
  have "dictFind (db_dict (dbs s' ! 0)) [98] = dictFind (db_dict (dbs ?s ! 0)) [98]"
    using keep(2,3) by blast
  then have "dictFind (db_dict (dbs s' ! 0)) [98] = Some 1" using keep(1) by simp
  then show ?thesis using r by (intro exI conjI)
qed

theorem evictionTimeProc_stops_witness:
  "\<exists>a s' p'. evictionTimeProc demo_env 2 3 1 ((full_server MAXMEMORY_ALLKEYS_LRU)\<lparr>isEvictionProcRunning := True\<rparr>) evictionPoolAlloc
       = Inr (a, s', p') \<and> (a = AE_NOMORE \<longleftrightarrow> \<not> isEvictionProcRunning s') \<and> (has_candidates s' \<longrightarrow> a = 0)"
proof -
  let ?s = "(full_server MAXMEMORY_ALLKEYS_LRU)\<lparr>isEvictionProcRunning := True\<rparr>"
  have i: "cycle_inv (\<lambda>_. 0) ?s evictionPoolAlloc"
    using cycle_inv_full [OF lru_policy(1,2)] by (subst cycle_inv_cong [of _ "full_server MAXMEMORY_ALLKEYS_LRU"]) simp_all
  have "evictionTimeLimitUs f ?s = evictionTimeLimitUs f (full_server MAXMEMORY_ALLKEYS_LRU)" for f
    by (simp add: evictionTimeLimitUs_def)
  then have e: "env_ok demo_env 1 0 ?s 500" using demo_env_ok [of MAXMEMORY_ALLKEYS_LRU] by (simp add: env_ok_def)
  have f: "1 < (2 :: nat)" "nkeys (dbs ?s) < 3" "0 < (1 :: nat)" by (simp_all add: nkeys_full)
  have "dbnum ?s = dbnum (full_server MAXMEMORY_ALLKEYS_LRU)" by (simp add: dbnum_def)
  then have g: "isEvictionProcRunning ?s" "dbnum ?s dvd 2 ^ 32" by (simp_all add: nkeys_full)
  have c: "isSafeToPerformEvictions ?s" "status (mem_status demo_env ?s) \<noteq> C_OK" "maxmemory_policy ?s \<noteq> MAXMEMORY_NO_EVICTION"
    using nkeys_full(3) [of MAXMEMORY_ALLKEYS_LRU] demo_over_running
    by (simp_all add: isSafeToPerformEvictions_def full_server_def two_keys_def init_server_def policy_defs)
  from evictionTimeProc_stops [OF i e f g refl] show ?thesis using c by blast
qed

text \<open>
  With the timer already running a call that brings the memory below the limit still returns
  \<open>EVICT_RUNNING\<close>, which the comment reserves for memory over the limit; the next turn of the timer
  then finds nothing to do.
\<close>

lemma running_below_the_limit:
  "case performEvictions demo_env 2 3 1 ((full_server MAXMEMORY_ALLKEYS_LRU)\<lparr>isEvictionProcRunning := True\<rparr>)
          evictionPoolAlloc of
     Inr (r, s', p') \<Rightarrow> r = EVICT_RUNNING \<and> status (mem_status demo_env s') = C_OK | Inl e \<Rightarrow> False"
  by code_simp
end
