(* ===== verification/Evict_Choice.thy ===== *)
theory Evict_Choice
  imports Evict_Cycle
begin

section \<open>Which key goes first\<close>

text \<open>
  The key a cycle evicts from a fresh pool is the best of all the keys sampled over all databases: the
  most idle one (or least frequently used, or first to expire), or under the histogram policy the one
  with the greatest score, the score of a key being taken under the window boundaries of the batch of
  its own database.
\<close>

lemma last_take_last: "0 < n \<Longrightarrow> xs \<noteq> [] \<Longrightarrow> last (take_last n xs) = last xs"
  by (simp add: take_last_def last_drop)

lemma le_last_sort: "x \<in> set xs \<Longrightarrow> x \<le> last (sort (xs :: 'r :: linorder list))"
proof -
  assume x: "x \<in> set xs"
  obtain ys y where ys: "sort xs = ys @ [y]"
  proof -
    have "set (sort xs) \<noteq> {}" using x by auto
    then show thesis using that by (cases "sort xs" rule: rev_cases) simp_all
  qed
  have "sorted (ys @ [y])" using sorted_sort [of xs] unfolding ys .
  moreover have "x \<in> set (ys @ [y])" using x unfolding ys [symmetric] by simp
  ultimately show ?thesis unfolding ys by (auto simp: sorted_append)
qed

context pool_measure
begin

text \<open>The last entry of a pool filled from scratch is the best of all offers.\<close>

lemma last_is_best:
  assumes "cs \<noteq> []" "\<forall>c \<in> set cs. good (fst c)"
  shows "last (fold (pool_insert lt) cs []) \<in> set cs"
    and "\<forall>c \<in> set cs. rank (fst c) \<le> rank (fst (last (fold (pool_insert lt) cs [])))"
proof -
  let ?r = "rank \<circ> fst" and ?p = "fold (pool_insert lt) cs []"
  have ne: "?p \<noteq> []" using assms(1) by (rule fold_pool_insert_nonempty)
  then show "last ?p \<in> set cs" using fold_pool_insert_set [of lt cs "[]"] last_in_set by fastforce
  have m: "map ?r ?p = take_last EVPOOL_SIZE (sort (map ?r cs))"
    using offers_keep_best [OF pool_sorted_Nil assms(2)] by simp
  have "?r (last ?p) = last (map ?r ?p)" using ne by (simp add: last_map)
  also have "\<dots> = last (sort (map ?r cs))"
    unfolding m using assms(1) by (intro last_take_last) (simp_all add: EVPOOL_SIZE_def flip: length_greater_0_conv)
  finally show "\<forall>c \<in> set cs. rank (fst c) \<le> rank (fst (last ?p))"
    using le_last_sort [of _ "map ?r cs"] by simp
qed

end

text \<open>The sample of a database in a round, and the offers it makes.\<close>

definition sample_of :: "evict_env \<Rightarrow> nat \<Rightarrow> nat \<Rightarrow> server \<Rightarrow> nat \<Rightarrow> sds list" where
  "sample_of env n r s i = dictGetSomeKeys env n r i (policy_keys s (dbs s ! i))"

definition offers :: "(nat \<Rightarrow> sds \<Rightarrow> 'm) \<Rightarrow> (nat \<Rightarrow> sds list) \<Rightarrow> nat list \<Rightarrow> ('m \<times> sds \<times> int) list" where
  "offers f S is = concat (map (\<lambda>i. map (\<lambda>k. (f i k, k, int i)) (S i)) is)"

lemma offers_simps: "offers f S [] = []" "offers f S (i # is) = map (\<lambda>k. (f i k, k, int i)) (S i) @ offers f S is"
  by (simp_all add: offers_def)

lemma set_offers: "set (offers f S is) = {(f i k, k, int i) | i k. i \<in> set is \<and> k \<in> set (S i)}"
  by (auto simp: offers_def)

lemma populate_dbs_fold:
  assumes step: "\<And>i p. i \<in> set is \<Longrightarrow> policy_keys s (dbs s ! i) \<noteq> [] \<Longrightarrow> pool_ok p \<Longrightarrow>
       \<exists>p'. populate_db env n r s i (dbs s ! i) p = Inr p' \<and> pool_ok p'
         \<and> contents m p' = fold (pool_insert lt) (map (\<lambda>k. (f i k, k, int i)) (sample_of env n r s i)) (contents m p)"
    and "samples_members env" "\<forall>i \<in> set is. i < length (dbs s)" "pool_ok p"
  shows "\<exists>p' t'. populate_dbs env n r s is p t = Inr (p', t') \<and> pool_ok p'
     \<and> contents m p' = fold (pool_insert lt) (offers f (sample_of env n r s) is) (contents m p)"
  using assms(1,3,4)
proof (induction "is" arbitrary: p t)
  case (Cons i "is")
  have i: "i < length (dbs s)" using Cons.prems(2) by simp
  show ?case
  proof (cases "policy_keys s (dbs s ! i) = []")
    case True
    have "set (sample_of env n r s i) \<subseteq> set (policy_keys s (dbs s ! i))"
      using assms(2) by (simp add: sample_of_def samples_members_def)
    then have "sample_of env n r s i = []" using True by simp
    with Cons.IH [of p t] Cons.prems True i show ?thesis by (simp add: offers_simps)
  next
    case False
    obtain p1 where p1: "populate_db env n r s i (dbs s ! i) p = Inr p1" "pool_ok p1"
      "contents m p1 = fold (pool_insert lt) (map (\<lambda>k. (f i k, k, int i)) (sample_of env n r s i)) (contents m p)"
      using Cons.prems(1) [of i p] False Cons.prems(3) by auto
    obtain p2 t2 where "populate_dbs env n r s is p1 (t + length (policy_keys s (dbs s ! i))) = Inr (p2, t2)" "pool_ok p2"
     "contents m p2 = fold (pool_insert lt) (offers f (sample_of env n r s) is) (contents m p1)"
      using Cons.IH [OF _ _ p1(2), of "t + length (policy_keys s (dbs s ! i))"] Cons.prems(1,2) by auto
    then show ?thesis using p1 i False by (simp add: Let_def offers_simps)
  qed
qed (simp add: offers_simps)

lemma contents_pool_keys_Nil: "pool_keys p = [] \<Longrightarrow> contents m p = []"
  by (simp add: pool_keys_def contents_def)

lemma choose_from_contents:
  assumes "cycle_inv x s p" "uses_pool s" "samples_members env" "0 < fuel"
    and "populate_dbs env n 0 s [0..<dbnum s] p 0 = Inr (p1, t)" "contents m p1 \<noteq> []"
    and "last (contents m p1) = (v, k, int j)" "\<forall>c \<in> set (contents m p1). candidate s (fst (snd c)) (snd (snd c))"
  shows "\<exists>p'. choose_key env fuel n s p = Inr (Some (k, j), s, p')"
proof -
  note inv = cycle_invD [OF assms(1)]
  obtain f where f: "fuel = Suc f" using assms(4) by (cases fuel) auto
  have r: "\<forall>i \<in> set [0..<dbnum s]. i < length (dbs s)" by (simp add: dbnum_def)
  have t: "t = total_candidates s" "pool_inv s p1"
    using populate_dbs_ok [OF inv(1,3) assms(2,3) r inv(4), of n 0 0] assms(5)
    by (auto simp: total_candidates_def)
  have pk: "pool_keys p1 = map snd (contents m p1)" by (rule pool_keys_contents)
  have lp: "rev (pool_keys p1) = (k, int j) # rev (butlast (pool_keys p1))"
    using assms(6,7) unfolding pk by (cases "contents m p1" rule: rev_cases) auto
  have ng: "\<not> is_ghost s e" if "e \<in> set (pool_keys p1)" for e
    using assms(8) that unfolding pk by (auto simp: candidate_def is_ghost_def)
  have "(k, int j) \<in> set (pool_keys p1)" using arg_cong [OF lp, of set] by auto
  then have "\<not> is_ghost s (k, int j)" by (rule ng)
  then have dg: "drop_ghosts s p1 = (k, int j) # rev (butlast (pool_keys p1))"
    unfolding drop_ghosts_def lp by simp
  have "candidate s k (int j)" using drop_ghosts_Cons [OF dg t(2)] .
  then have nz: "t \<noteq> 0" unfolding t total_candidates_0 using candidate_has by blast
  have "length (live_slots p1) \<le> 16"
    using length_live_slots [of p1] t(2) by (simp add: pool_inv_def EVPOOL_SIZE_def)
  then obtain p2 where "take_best s (rev [0..<EVPOOL_SIZE]) p1 = Inr (Some (k, j), p2)"
    using take_best_refines [OF t(2), of 16 "\<lambda>_. ()"] by (auto simp: EVPOOL_SIZE_def dg)
  then have "best_from_pool env n s 0 fuel p = Inr (Some (k, j), p2)"
    using assms(5) nz f by simp
  then show ?thesis using assms(2) by (simp add: choose_key_def uses_pool_def)
qed


lemma sampled_offers:
  assumes "sampled_some env n r s"
  shows "offers f (sample_of env n r s) [0..<dbnum s] \<noteq> []"
  using assms by (auto simp: sampled_some_def offers_def sample_of_def)

lemma sample_mem:
  "samples_members env \<Longrightarrow> k \<in> set (sample_of env n r s i) \<Longrightarrow> k \<in> set (policy_keys s (dbs s ! i))"
  unfolding sample_of_def samples_members_def by blast

text \<open>From the fold to the choice, whatever the measure.\<close>

lemma choose_last_offer:
  assumes "cycle_inv x s p" "uses_pool s" "samples_members env" "0 < fuel"
    and "populate_dbs env n 0 s [0..<dbnum s] p 0 = Inr (p1, t)"
    and "contents m p1 = fold (pool_insert lt) cs []" "cs = offers f (sample_of env n 0 s) [0..<dbnum s]" "cs \<noteq> []"
    and "last (fold (pool_insert lt) cs []) \<in> set cs"
  shows "\<exists>k j p'. choose_key env fuel n s p = Inr (Some (k, j), s, p') \<and> j < dbnum s
     \<and> k \<in> set (sample_of env n 0 s j) \<and> last (fold (pool_insert lt) cs []) = (f j k, k, int j)"
proof -
  obtain k j where l: "last (fold (pool_insert lt) cs []) = (f j k, k, int j)" "j < dbnum s"
      "k \<in> set (sample_of env n 0 s j)"
    using assms(9) unfolding assms(7) set_offers by auto
  have "\<forall>c \<in> set (contents m p1). candidate s (fst (snd c)) (snd (snd c))"
  proof
    fix c assume "c \<in> set (contents m p1)"
    then have "c \<in> set cs" using fold_pool_insert_set [of lt cs "[]"] unfolding assms(6) by auto
    then show "candidate s (fst (snd c)) (snd (snd c))"
      using sample_mem [OF assms(3)] unfolding assms(7) set_offers by (auto simp: candidate_def)
  qed
  then obtain p' where "choose_key env fuel n s p = Inr (Some (k, j), s, p')"
    using choose_from_contents [OF assms(1-5), of m "f j k" k j] assms(6,8) l(1) fold_pool_insert_nonempty [of cs lt "[]"]
    by auto
  with l show ?thesis by blast
qed

text \<open>
  C2: under an LRU, LFU or TTL policy the first key evicted from an empty pool is one whose measure
  (idle time, inverted frequency, nearness of the expire) is the greatest among all the keys sampled in
  all databases.
\<close>

theorem evicts_most_idle:
  assumes "cycle_inv x s p" "uses_pool s" "maxmemory_policy s \<noteq> MAXMEMORY_ALLKEYS_LRU_HISTOGRAM"
    and "samples_members env" "pool_keys p = []" "sampled_some env n 0 s" "0 < fuel"
  shows "\<exists>k j p' v. choose_key env fuel n s p = Inr (Some (k, j), s, p') \<and> j < dbnum s
     \<and> sample_idle s (dbs s ! j) k = Inr v
     \<and> (\<forall>i < dbnum s. \<forall>k' \<in> set (sample_of env n 0 s i).
          \<exists>v'. sample_idle s (dbs s ! i) k' = Inr v' \<and> v' \<le> v)"
proof -
  note inv = cycle_invD [OF assms(1)]
  have nh: "\<not> flag_set (maxmemory_policy s) MAXMEMORY_FLAG_LRU_HISTOGRAM"
    using inv(3) assms(3) histogram_policy by (auto simp: evictable_def)
  define f where "f = (\<lambda>i k. case sample_idle s (dbs s ! i) k of Inr v \<Rightarrow> v | Inl _ \<Rightarrow> 0)"
  have idle: "sample_idle s (dbs s ! i) k = Inr (f i k)" if "i < length (dbs s)" "k \<in> set (sample_of env n 0 s i)" for i k
    using policy_key_idle [OF inv(1,3) assms(2) that(1) nh sample_mem [OF assms(4) that(2)]] by (auto simp: f_def)
  let ?cs = "offers f (sample_of env n 0 s) [0..<dbnum s]"
  have ne: "?cs \<noteq> []" by (rule sampled_offers [OF assms(6)])
  have step: "\<exists>p'. populate_db env n 0 s i (dbs s ! i) q = Inr p' \<and> pool_ok p'
         \<and> contents eidle p' = fold (pool_insert (<)) (map (\<lambda>k. (f i k, k, int i)) (sample_of env n 0 s i)) (contents eidle q)"
    if "i \<in> set [0..<dbnum s]" "pool_ok q" for i q
    using evictionPoolPopulate_fold [OF that(2), of "sample_of env n 0 s i" s "dbs s ! i" "f i" "int i"]
      idle that(1) nh by (simp add: populate_db_def Let_def sample_of_def dbnum_def)
  obtain p1 t where p1: "populate_dbs env n 0 s [0..<dbnum s] p 0 = Inr (p1, t)"
      "contents eidle p1 = fold (pool_insert (<)) ?cs []"
    using populate_dbs_fold [of "[0..<dbnum s]" s env n 0 eidle "(<)" f p 0, OF step assms(4)] inv(4)
      contents_pool_keys_Nil [OF assms(5), of eidle] by (auto simp: pool_inv_def dbnum_def)
  note best = idle_pool.last_is_best [OF ne, simplified]
  obtain k j p' where c: "choose_key env fuel n s p = Inr (Some (k, j), s, p')" "j < dbnum s"
      "k \<in> set (sample_of env n 0 s j)" "last (fold (pool_insert (<)) ?cs []) = (f j k, k, int j)"
    using choose_last_offer [OF assms(1,2,4,7) p1 refl ne best(1)] by blast
  have "f i k' \<le> f j k" if "i < dbnum s" "k' \<in> set (sample_of env n 0 s i)" for i k'
  proof -
    have "(f i k', k', int i) \<in> set ?cs" using that by (auto simp: set_offers)
    with best(2) c(4) show ?thesis by fastforce
  qed
  then show ?thesis
    using c(1,2) idle [of j k] c(3) idle
    by (intro exI [of _ k] exI [of _ j] exI [of _ p'] exI [of _ "f j k"]) (simp add: dbnum_def)
qed

text \<open>The score of a key among the keys sampled with it.\<close>

definition batch_score :: "server \<Rightarrow> redisDb \<Rightarrow> sds list \<Rightarrow> sds \<Rightarrow> double cres" where
  "batch_score s db ks k =
     cbind (sample_objects s db ks) (\<lambda>obs. cbind (calculateStatistics s obs) (\<lambda>(mn, mx, mean, sd).
     cbind (sample_object s db k) (\<lambda>ob.
       estimateObjectEvictionScore s ob (defineWindowBoundaries mn mx mean sd))))"

text \<open>
  C3: under the histogram policy the first key evicted from an empty pool has the greatest score of all
  the keys sampled, each scored under the windows of the batch of its own database: scores under
  different windows are compared with each other.
\<close>

theorem evicts_highest_score:
  assumes "cycle_inv x s p" "maxmemory_policy s = MAXMEMORY_ALLKEYS_LRU_HISTOGRAM"
    and "samples_members env" "pool_keys p = []" "sampled_some env n 0 s" "0 < fuel"
  shows "\<exists>k j p' v. choose_key env fuel n s p = Inr (Some (k, j), s, p') \<and> j < dbnum s
     \<and> batch_score s (dbs s ! j) (sample_of env n 0 s j) k = Inr (Fin v)
     \<and> (\<forall>i < dbnum s. \<forall>k' \<in> set (sample_of env n 0 s i).
          \<exists>v'. batch_score s (dbs s ! i) (sample_of env n 0 s i) k' = Inr (Fin v') \<and> v' \<le> v)"
proof -
  note inv = cycle_invD [OF assms(1)]
  have up: "uses_pool s" and hf: "flag_set (maxmemory_policy s) MAXMEMORY_FLAG_LRU_HISTOGRAM"
    using assms(2) by (simp_all add: uses_pool_def policy_defs)
  have vh: "values_hist_ok s" using inv(3) assms(2) by (simp add: evictable_def)
  let ?S = "sample_of env n 0 s"
  define g where "g = (\<lambda>i k. the (heap s (the (dictFind (db_dict (dbs s ! i)) k))))"
  have ob: "sample_object s (dbs s ! i) k = Inr (g i k) \<and> hist_ok (g i k)" if "i < length (dbs s)" "k \<in> set (?S i)" for i k
    using policy_key_object [OF inv(1) that(1) sample_mem [OF assms(3) that(2)]] values_hist_okD [OF vh that(1)]
    by (auto simp: sample_object_def g_def)
  define h where "h = (\<lambda>i k. case batch_score s (dbs s ! i) (?S i) k of Inr (Fin v) \<Rightarrow> v | _ \<Rightarrow> 0)"
  have run: "\<exists>p'. evictionPoolPopulateLRUHistogram s (int i) (dbs s ! i) (?S i) q = Inr p' \<and> pool_ok p'
       \<and> contents escore p' = fold (pool_insert dlt) (map (\<lambda>k. (Fin (h i k), k, int i)) (?S i)) (contents escore q)
       \<and> (\<forall>k \<in> set (?S i). batch_score s (dbs s ! i) (?S i) k = Inr (Fin (h i k)))"
    if i: "i < length (dbs s)" and q: "pool_ok q" for i q
  proof -
    have objs: "sample_objects s (dbs s ! i) (?S i) = Inr (map (g i) (?S i))"
      using ob [OF i] by (intro sample_objects_map) simp
    obtain p' f' mn mx mean sd where p': "evictionPoolPopulateLRUHistogram s (int i) (dbs s ! i) (?S i) q = Inr p'" "pool_ok p'"
       "contents escore p' = fold (pool_insert dlt) (map (\<lambda>k. (Fin (f' k), k, int i)) (?S i)) (contents escore q)"
       "calculateStatistics s (map (g i) (?S i)) = Inr (mn, mx, mean, sd)"
       "\<forall>k \<in> set (?S i). estimateObjectEvictionScore s (g i k) (defineWindowBoundaries mn mx mean sd) = Inr (Fin (f' k))"
    proof -
      have "\<forall>k \<in> set (?S i). sample_object s (dbs s ! i) k = Inr (g i k) \<and> hist_ok (g i k)" using ob [OF i] by blast
      from histogram_fold [OF q this, of "int i"] show thesis by (elim exE conjE) (rule that)
    qed
    have sc: "batch_score s (dbs s ! i) (?S i) k = Inr (Fin (f' k))" if "k \<in> set (?S i)" for k
      using objs p'(4,5) ob [OF i that] that by (simp add: batch_score_def)
    then have hf: "h i k = f' k" if "k \<in> set (?S i)" for k using that by (simp add: h_def)
    then have "map (\<lambda>k. (Fin (f' k), k, int i)) (?S i) = map (\<lambda>k. (Fin (h i k), k, int i)) (?S i)" by simp
    with p'(1-3) sc hf show ?thesis by (intro exI [of _ p']) simp
  qed
  let ?cs = "offers (\<lambda>i k. Fin (h i k)) ?S [0..<dbnum s]"
  have ne: "?cs \<noteq> []" by (rule sampled_offers [OF assms(5)])
  have good: "\<forall>c \<in> set ?cs. \<not> is_nan (fst c)" by (auto simp: set_offers)
  have step: "\<exists>p'. populate_db env n 0 s i (dbs s ! i) q = Inr p' \<and> pool_ok p'
       \<and> contents escore p' = fold (pool_insert dlt) (map (\<lambda>k. (Fin (h i k), k, int i)) (?S i)) (contents escore q)"
    if "i \<in> set [0..<dbnum s]" "pool_ok q" for i q
    using run [of i q] that hf by (auto simp: populate_db_def Let_def sample_of_def dbnum_def)
  obtain p1 t where p1: "populate_dbs env n 0 s [0..<dbnum s] p 0 = Inr (p1, t)"
      "contents escore p1 = fold (pool_insert dlt) ?cs []"
    using populate_dbs_fold [of "[0..<dbnum s]" s env n 0 escore dlt "\<lambda>i k. Fin (h i k)" p 0, OF step assms(3)] inv(4)
      contents_pool_keys_Nil [OF assms(4), of escore] by (auto simp: pool_inv_def dbnum_def)
  note best = score_pool.last_is_best [OF ne good]
  obtain k j p' where c: "choose_key env fuel n s p = Inr (Some (k, j), s, p')" "j < dbnum s"
      "k \<in> set (?S j)" "last (fold (pool_insert dlt) ?cs []) = (Fin (h j k), k, int j)"
    using choose_last_offer [OF assms(1) up assms(3,6) p1 refl ne best(1)] by blast
  have max: "h i k' \<le> h j k" if "i < dbnum s" "k' \<in> set (?S i)" for i k'
  proof -
    have "(Fin (h i k'), k', int i) \<in> set ?cs" using that by (auto simp: set_offers)
    with best(2) c(4) show ?thesis by fastforce
  qed
  have sc: "batch_score s (dbs s ! i) (?S i) k' = Inr (Fin (h i k'))" if "i < dbnum s" "k' \<in> set (?S i)" for i k'
    using run [of i evictionPoolAlloc] pool_ok_alloc that by (auto simp: dbnum_def)
  show ?thesis
    using c(1-3) sc max
    by (intro exI [of _ k] exI [of _ j] exI [of _ p'] exI [of _ "h j k"]) simp
qed

lemma demo_samples: "samples_members demo_env" "sampled_some demo_env 0 0 (full_server MAXMEMORY_ALLKEYS_LRU)"
  "sampled_some demo_env 0 0 (full_server MAXMEMORY_ALLKEYS_LRU_HISTOGRAM)"
  "sample_of demo_env 0 0 (full_server MAXMEMORY_ALLKEYS_LRU) 0 = [[97], [98]]"
  using demo_env_ok [of MAXMEMORY_ALLKEYS_LRU]
  by (simp_all add: env_ok_def sampled_some_def sample_of_def demo_env_def policy_keys_def full_server_def dbnum_def
      policy_defs exI [of _ "0 :: nat"])

theorem evicts_most_idle_witness:
  "\<exists>k j p' v. choose_key demo_env 1 0 (full_server MAXMEMORY_ALLKEYS_LRU) evictionPoolAlloc
       = Inr (Some (k, j), full_server MAXMEMORY_ALLKEYS_LRU, p')
     \<and> sample_idle (full_server MAXMEMORY_ALLKEYS_LRU) (dbs (full_server MAXMEMORY_ALLKEYS_LRU) ! j) k = Inr v
     \<and> 6000 \<le> v"
proof -
  let ?s = "full_server MAXMEMORY_ALLKEYS_LRU"
  have u: "uses_pool ?s" "maxmemory_policy ?s \<noteq> MAXMEMORY_ALLKEYS_LRU_HISTOGRAM" "(0 :: nat) < 1"
    by (simp_all add: uses_pool_def full_server_def policy_defs)
  have i: "sample_idle ?s (dbs ?s ! 0) [97] = Inr 6000" by code_simp
  from evicts_most_idle [OF cycle_inv_full [OF lru_policy(1,2)] u(1,2) demo_samples(1) pool_keys_alloc demo_samples(2) u(3)]
  obtain k j p' v where c: "choose_key demo_env 1 0 ?s evictionPoolAlloc = Inr (Some (k, j), ?s, p')"
    "sample_idle ?s (dbs ?s ! j) k = Inr v"
    "\<forall>i < dbnum ?s. \<forall>k' \<in> set (sample_of demo_env 0 0 ?s i). \<exists>v'. sample_idle ?s (dbs ?s ! i) k' = Inr v' \<and> v' \<le> v"
    by (elim exE conjE) (rule that)
  have "\<exists>v'. sample_idle ?s (dbs ?s ! 0) [97] = Inr v' \<and> v' \<le> v"
    using c(3) [THEN spec, of 0] by (simp add: nkeys_full demo_samples(4))
  with i have "6000 \<le> v" by auto
  with c(1,2) show ?thesis by (intro exI conjI)
qed

lemma cycle_inv_histogram:
  "cycle_inv (\<lambda>_. 0) (full_server MAXMEMORY_ALLKEYS_LRU_HISTOGRAM) evictionPoolAlloc"
proof -
  let ?s = "full_server MAXMEMORY_ALLKEYS_LRU_HISTOGRAM"
  have "cycle_inv (\<lambda>_. 0) (full_server MAXMEMORY_ALLKEYS_LRU) evictionPoolAlloc" by (rule cycle_inv_full [OF lru_policy(1,2)])
  then have "ks_ok (\<lambda>_. 0) ?s" "fresh_ok ?s" "pool_inv ?s evictionPoolAlloc"
    by (simp_all add: cycle_inv_def ks_ok_def fresh_ok_def pool_inv_def full_server_def dbnum_def)
  moreover have "values_hist_ok ?s"
    by (auto simp: values_hist_ok_def full_server_def two_keys_def empty_db_def hist_ok_def robj_wf_def
        sample_obj_def HISTORY_SIZE_def)
  moreover have "MAXMEMORY_ALLKEYS_LRU_HISTOGRAM \<in> set all_policies" by (simp add: all_policies_def)
  ultimately show ?thesis by (simp add: cycle_inv_def evictable_def full_server_def)
qed

theorem evicts_highest_score_witness:
  "\<exists>k j p' v. choose_key demo_env 1 0 (full_server MAXMEMORY_ALLKEYS_LRU_HISTOGRAM) evictionPoolAlloc
       = Inr (Some (k, j), full_server MAXMEMORY_ALLKEYS_LRU_HISTOGRAM, p')
     \<and> batch_score (full_server MAXMEMORY_ALLKEYS_LRU_HISTOGRAM) (dbs (full_server MAXMEMORY_ALLKEYS_LRU_HISTOGRAM) ! j)
         (sample_of demo_env 0 0 (full_server MAXMEMORY_ALLKEYS_LRU_HISTOGRAM) j) k = Inr (Fin v)"
proof -
  let ?s = "full_server MAXMEMORY_ALLKEYS_LRU_HISTOGRAM"
  have u: "maxmemory_policy ?s = MAXMEMORY_ALLKEYS_LRU_HISTOGRAM" "(0 :: nat) < 1" by (simp_all add: full_server_def)
  from evicts_highest_score [OF cycle_inv_histogram u(1) demo_samples(1) pool_keys_alloc demo_samples(3) u(2)]
  show ?thesis by (elim exE conjE) (intro exI conjI)
qed
end
