(* ===== verification/C_String.thy ===== *)
theory C_String
  imports Strings
begin

section \<open>C strings\<close>

text \<open>
  What the code uses of the C library on the bytes of an argument: a C string ends at the first NUL,
  \<open>strcasecmp\<close> compares without regard to case, \<open>strtol\<close> and \<open>atoi\<close> read a decimal prefix in the C
  locale, \<open>strtol\<close> saturating at the limits of \<open>long\<close> and \<open>atoi\<close> keeping its low 32 bits.
\<close>

definition bytes_of :: "string \<Rightarrow> sds" where
  "bytes_of cs = map of_char cs"

definition cstr :: "sds \<Rightarrow> sds" where
  "cstr bs = takeWhile (\<lambda>b. b \<noteq> 0) bs"

definition tolower8 :: "u8 \<Rightarrow> u8" where
  "tolower8 b = (if 65 \<le> b \<and> b \<le> 90 then b + 32 else b)"

text \<open>\<open>!strcasecmp(a, b)\<close>\<close>

definition strcaseeq :: "sds \<Rightarrow> sds \<Rightarrow> bool" where
  "strcaseeq a b = (map tolower8 (cstr a) = map tolower8 (cstr b))"

definition arg_is :: "sds \<Rightarrow> string \<Rightarrow> bool" where
  "arg_is a w = strcaseeq a (bytes_of w)"

definition isspace8 :: "u8 \<Rightarrow> bool" where
  "isspace8 b = (b = 32 \<or> 9 \<le> b \<and> b \<le> 13)"

definition isdigit8 :: "u8 \<Rightarrow> bool" where
  "isdigit8 b = (48 \<le> b \<and> b \<le> 57)"

text \<open>Sign, digits and the rest of the text after leading white space.\<close>

fun split_sign :: "sds \<Rightarrow> bool \<times> sds" where
  "split_sign (b # bs) = (if b = 45 then (True, bs) else if b = 43 then (False, bs) else (False, b # bs))"
| "split_sign [] = (False, [])"

definition c_strtol :: "sds \<Rightarrow> int" where
  "c_strtol bs =
     (let (neg, ds) = split_sign (dropWhile isspace8 (cstr bs));
          n = int (digits_val (takeWhile isdigit8 ds))
      in max LONG_MIN (min LONG_MAX (if neg then - n else n)))"

text \<open>The conversion of a \<open>long\<close> to \<open>int\<close>.\<close>

definition to_int :: "int \<Rightarrow> int" where
  "to_int n = sint (word_of_int n :: 32 word)"

definition c_atoi :: "sds \<Rightarrow> int" where
  "c_atoi bs = to_int (c_strtol bs)"

text \<open>The result of a signed 32-bit operation.\<close>

definition c_int :: "int \<Rightarrow> int cres" where
  "c_int n = (if INT_MIN \<le> n \<and> n \<le> INT_MAX then Inr n else Inl IntOverflow)"

lemma c_int_Inr: "INT_MIN \<le> n \<Longrightarrow> n \<le> INT_MAX \<Longrightarrow> c_int n = Inr n"
  by (simp add: c_int_def)

lemma to_int_id: "INT_MIN \<le> n \<Longrightarrow> n \<le> INT_MAX \<Longrightarrow> to_int n = n"
  unfolding to_int_def by (rule sint_small) (simp_all add: int_limits)

lemma strcaseeq_refl [simp]: "strcaseeq a a"
  by (simp add: strcaseeq_def)

subsection \<open>Reading printed numbers\<close>

lemma isdigit8_nonzero: "isdigit8 b \<Longrightarrow> b \<noteq> 0 \<and> b \<noteq> 45 \<and> b \<noteq> 43 \<and> \<not> isspace8 b"
  by (auto simp: isdigit8_def isspace8_def word_le_nat_alt)

lemma digits10_digits: "b \<in> set (digits10 n) \<Longrightarrow> isdigit8 b"
proof (induction n rule: digits10.induct)
  case (1 n)
  have d: "isdigit8 (of_nat (48 + m))" if "m < 10" for m
    using unat_digit [OF that] that by (simp add: isdigit8_def word_le_nat_alt del: of_nat_add unat_digit)
  show ?case
  proof (cases "n < 10")
    case True
    then show ?thesis using 1(2) d by (subst (asm) digits10.simps) simp
  next
    case False
    then show ?thesis using 1 d [of "n mod 10"] by (subst (asm) (2) digits10.simps) auto
  qed
qed

lemma strtol_digits:
  assumes "\<forall>b \<in> set ds. isdigit8 b" "ds \<noteq> []" "int (digits_val ds) \<le> LONG_MAX"
  shows "c_strtol ds = int (digits_val ds)"
proof -
  obtain b bs where ds: "ds = b # bs" using assms(2) by (cases ds) auto
  have "cstr ds = ds" using assms(1) isdigit8_nonzero by (simp add: cstr_def takeWhile_eq_all_conv)
  then show ?thesis
    using assms(1,3) ds isdigit8_nonzero [of b]
    by (simp add: c_strtol_def int_limits takeWhile_eq_all_conv [THEN iffD2])
qed

lemma strtol_negative:
  assumes "\<forall>b \<in> set ds. isdigit8 b" "int (digits_val ds) \<le> - LONG_MIN"
  shows "c_strtol (45 # ds) = - int (digits_val ds)"
proof -
  have "cstr (45 # ds) = 45 # ds" using assms(1) isdigit8_nonzero by (simp add: cstr_def takeWhile_eq_all_conv)
  then show ?thesis
    using assms by (simp add: c_strtol_def isspace8_def int_limits takeWhile_eq_all_conv [THEN iffD2])
qed

lemma strtol_dec_print: "in_ll v \<Longrightarrow> c_strtol (dec_print v) = v"
  using strtol_digits [of "digits10 (nat v)"] strtol_negative [of "digits10 (nat (- v))"] digits10_hd [of "nat v"]
  by (auto simp: dec_print_def digits10_digits in_ll_def int_limits)

text \<open>The printed form of a number is one that \<open>strtol\<close> reads.\<close>

locale printed_strlib = strlib_spec +
  assumes strtol_print: "in_ll v \<Longrightarrow> c_strtol (ll2string L v) = v"
begin

lemma atoi_print: "INT_MIN \<le> v \<Longrightarrow> v \<le> INT_MAX \<Longrightarrow> c_atoi (ll2string L v) = v"
  by (simp add: c_atoi_def strtol_print in_ll_def int_limits to_int_id)

end

interpretation decimal_print: printed_strlib decimal_lib
  by unfold_locales (simp add: decimal_lib_def strtol_dec_print)

end
