(* ===== verification/Get_Keys.thy ===== *)
theory Get_Keys
  imports C_String "HOL-Library.Signed_Division"
begin

unbundle bit_operations_syntax

section \<open>Which arguments of a command are keys (db.c)\<close>

text \<open>
  The positions of the keys among the arguments of a command, found from the key specifications of
  the command table or by a routine of the command. The result is an array the routines grow with
  \<open>getKeysPrepareResult\<close> and then write into; a write past its end or a read past the arguments is a
  fault. The command table is generated code and modules bring their own routines, so a command is an
  argument. Fresh array elements are modelled as zero; no routine reads them.
\<close>

subsection \<open>Commands and results\<close>

definition CMD_MODULE :: int where "CMD_MODULE = 2 ^ 3"
definition CMD_MODULE_GETKEYS :: int where "CMD_MODULE_GETKEYS = 2 ^ 21"
definition CMD_MODULE_GETCHANNELS :: int where "CMD_MODULE_GETCHANNELS = 2 ^ 27"

definition CMD_KEY_RO :: int where "CMD_KEY_RO = 2 ^ 0"
definition CMD_KEY_RW :: int where "CMD_KEY_RW = 2 ^ 1"
definition CMD_KEY_OW :: int where "CMD_KEY_OW = 2 ^ 2"
definition CMD_KEY_RM :: int where "CMD_KEY_RM = 2 ^ 3"
definition CMD_KEY_ACCESS :: int where "CMD_KEY_ACCESS = 2 ^ 4"
definition CMD_KEY_UPDATE :: int where "CMD_KEY_UPDATE = 2 ^ 5"
definition CMD_KEY_INSERT :: int where "CMD_KEY_INSERT = 2 ^ 6"
definition CMD_KEY_DELETE :: int where "CMD_KEY_DELETE = 2 ^ 7"
definition CMD_KEY_NOT_KEY :: int where "CMD_KEY_NOT_KEY = 2 ^ 8"
definition CMD_KEY_INCOMPLETE :: int where "CMD_KEY_INCOMPLETE = 2 ^ 9"
definition CMD_KEY_VARIABLE_FLAGS :: int where "CMD_KEY_VARIABLE_FLAGS = 2 ^ 10"

definition CMD_CHANNEL_PATTERN :: int where "CMD_CHANNEL_PATTERN = 2 ^ 11"
definition CMD_CHANNEL_SUBSCRIBE :: int where "CMD_CHANNEL_SUBSCRIBE = 2 ^ 12"
definition CMD_CHANNEL_UNSUBSCRIBE :: int where "CMD_CHANNEL_UNSUBSCRIBE = 2 ^ 13"
definition CMD_CHANNEL_PUBLISH :: int where "CMD_CHANNEL_PUBLISH = 2 ^ 14"

definition GET_KEYSPEC_DEFAULT :: int where "GET_KEYSPEC_DEFAULT = 0"
definition GET_KEYSPEC_INCLUDE_NOT_KEYS :: int where "GET_KEYSPEC_INCLUDE_NOT_KEYS = 1"
definition GET_KEYSPEC_RETURN_PARTIAL :: int where "GET_KEYSPEC_RETURN_PARTIAL = 2"

definition MAX_KEYS_BUFFER :: nat where "MAX_KEYS_BUFFER = 256"

record keyReference =
  kpos :: int
  kflags :: int

datatype keys_ptr = KeysNull | KeysBuf | KeysHeap

record getKeysResult =
  keys_at :: keys_ptr
  gkeys :: "keyReference list"
  numkeys :: int
  gsize :: int

definition fresh_key :: keyReference where
  "fresh_key = \<lparr>kpos = 0, kflags = 0\<rparr>"

definition GETKEYS_RESULT_INIT :: getKeysResult where
  "GETKEYS_RESULT_INIT =
     \<lparr>keys_at = KeysNull, gkeys = replicate MAX_KEYS_BUFFER fresh_key, numkeys = 0,
      gsize = int MAX_KEYS_BUFFER\<rparr>"

datatype begin_search =
    KSPEC_BS_INVALID | KSPEC_BS_UNKNOWN
  | KSPEC_BS_INDEX int
  | KSPEC_BS_KEYWORD sds int

text \<open>Range: last key, step, limit. Keynum: index of the count, first key, step.\<close>

datatype find_keys =
    KSPEC_FK_INVALID | KSPEC_FK_UNKNOWN
  | KSPEC_FK_RANGE int int int
  | KSPEC_FK_KEYNUM int int int

record keySpec =
  spec_flags :: int
  begin_search_of :: begin_search
  find_keys_of :: find_keys

type_synonym getkeys = "sds list \<Rightarrow> getKeysResult \<Rightarrow> (int \<times> getKeysResult) cres"

record redisCommand =
  cmd_proc :: string
  cmd_flags :: int
  arity :: int
  key_specs :: "keySpec list"
  getkeys_proc :: "getkeys option"
  legacy_range_key_spec :: keySpec

definition argc :: "sds list \<Rightarrow> int" where
  "argc argv = int (length argv)"

definition arg_at :: "sds list \<Rightarrow> int \<Rightarrow> sds cres" where
  "arg_at argv i = (if i < 0 then Inl OutOfBounds else arr_get argv (nat i))"

definition put_key :: "int \<Rightarrow> keyReference \<Rightarrow> getKeysResult \<Rightarrow> getKeysResult cres" where
  "put_key i k r =
     (if i < 0 then Inl OutOfBounds
      else cbind (arr_set (gkeys r) (nat i) k) (\<lambda>ks. Inr (r\<lparr>gkeys := ks\<rparr>)))"

text \<open>The first \<open>n\<close> elements carried over into an array of \<open>m\<close>.\<close>

definition resize_keys :: "nat \<Rightarrow> nat \<Rightarrow> keyReference list \<Rightarrow> keyReference list" where
  "resize_keys n m ks = take n ks @ replicate (m - length (take n ks)) fresh_key"

definition getKeysPrepareResult :: "getKeysResult \<Rightarrow> int \<Rightarrow> getKeysResult cres" where
  "getKeysPrepareResult r n =
     cbind (if keys_at r = KeysNull then cbind (cassert (numkeys r = 0)) (\<lambda>_. Inr (r\<lparr>keys_at := KeysBuf\<rparr>))
            else Inr r) (\<lambda>r'.
     if gsize r' < n
     then Inr (r'\<lparr>keys_at := KeysHeap, gsize := n,
                 gkeys := resize_keys (if keys_at r' \<noteq> KeysBuf then nat n else nat (numkeys r')) (nat n) (gkeys r')\<rparr>)
     else Inr r')"

subsection \<open>Key specifications\<close>

fun getAllKeySpecsFlags :: "keySpec list \<Rightarrow> bool \<Rightarrow> int" where
  "getAllKeySpecsFlags [] invert = 0"
| "getAllKeySpecsFlags (spec # specs) invert =
     (if invert then NOT (spec_flags spec) else spec_flags spec) OR getAllKeySpecsFlags specs invert"

text \<open>The position after the keyword, 0 when it is not found; \<open>up\<close> is the direction.\<close>

function keyword_search :: "sds \<Rightarrow> sds list \<Rightarrow> bool \<Rightarrow> int \<Rightarrow> int \<Rightarrow> int cres" where
  "keyword_search kw argv up end_index i =
     (if i = end_index \<or> argc argv \<le> i \<or> i < 1 then Inr 0
      else cbind (arg_at argv i) (\<lambda>a.
        if strcaseeq a kw then Inr (i + 1)
        else keyword_search kw argv up end_index (if up then i + 1 else i - 1)))"
  by pat_completeness auto
termination
  by (relation "measure (\<lambda>(_, argv, up, _, i). if up then nat (argc argv - i) else nat i)") auto

declare keyword_search.simps [simp del]

definition spec_first :: "keySpec \<Rightarrow> sds list \<Rightarrow> int option cres" where
  "spec_first spec argv =
     (case begin_search_of spec of
        KSPEC_BS_INDEX pos \<Rightarrow> Inr (Some pos)
      | KSPEC_BS_KEYWORD kw startfrom \<Rightarrow>
          let start_index = (if 0 < startfrom then startfrom else argc argv + startfrom);
              end_index = (if 0 < startfrom then argc argv - 1 else 1)
          in cbind (keyword_search kw argv (start_index \<le> end_index) end_index start_index)
               (\<lambda>first. Inr (Some first))
      | _ \<Rightarrow> Inr None)"

definition by_keyword :: "keySpec \<Rightarrow> bool" where
  "by_keyword spec = (case begin_search_of spec of KSPEC_BS_KEYWORD _ _ \<Rightarrow> True | _ \<Rightarrow> False)"

text \<open>First and last position and the step; \<open>None\<close> goes to \<open>invalid_spec\<close>.\<close>

definition spec_range :: "strlib \<Rightarrow> keySpec \<Rightarrow> sds list \<Rightarrow> int \<Rightarrow> (int \<times> int \<times> int) option cres" where
  "spec_range L spec argv first =
     (case find_keys_of spec of
        KSPEC_FK_RANGE lastkey keystep limit \<Rightarrow>
          if 0 \<le> lastkey then Inr (Some (first, first + lastkey, keystep))
          else if limit = 0 then Inr (Some (first, argc argv + lastkey, keystep))
          else cbind (cassert (lastkey = - 1)) (\<lambda>_.
               Inr (Some (first, first + ((argc argv - first) sdiv limit + lastkey), keystep)))
      | KSPEC_FK_KEYNUM keynumidx firstkey keystep \<Rightarrow>
          if argc argv \<le> keynumidx then Inr None
          else cbind (arg_at argv (first + keynumidx)) (\<lambda>a.
            case string2ll L a of
              None \<Rightarrow> Inr None
            | Some n \<Rightarrow> if n < 0 then Inr None
                        else cbind (c_int (first + firstkey + to_int n)) (\<lambda>s.
                             cbind (c_int (s - 1)) (\<lambda>lst. Inr (Some (first + firstkey, lst, keystep)))))
      | _ \<Rightarrow> Inr None)"

text \<open>
  \<open>for (i = first; i <= last; i += step)\<close> over positions already checked; a step below 1 never ends,
  which the fuel shows.
\<close>

fun range_keys ::
  "redisCommand \<Rightarrow> int \<Rightarrow> sds list \<Rightarrow> int \<Rightarrow> int \<Rightarrow> int \<Rightarrow> nat \<Rightarrow> int \<Rightarrow> getKeysResult \<Rightarrow> getKeysResult cres" where
  "range_keys cmd fl argv first lst step 0 i r = (if i \<le> lst then Inl OutOfFuel else Inr r)"
| "range_keys cmd fl argv first lst step (Suc fuel) i r =
     (if \<not> i \<le> lst then Inr r
      else if argc argv \<le> i \<or> i < first
      then if flag_set (cmd_flags cmd) CMD_MODULE \<or> arity cmd < 0
           then range_keys cmd fl argv first lst step fuel (i + step) r
           else Inl Panicked
      else cbind (put_key (numkeys r) \<lparr>kpos = i, kflags = fl\<rparr> r) (\<lambda>r'.
           range_keys cmd fl argv first lst step fuel (i + step) (r'\<lparr>numkeys := numkeys r' + 1\<rparr>)))"

text \<open>
  The keys of a specification whose range is known, and whether the specification was valid; the
  array is enlarged before the range is checked.
\<close>

definition place_keys ::
  "redisCommand \<Rightarrow> sds list \<Rightarrow> keySpec \<Rightarrow> int \<Rightarrow> int \<Rightarrow> int \<Rightarrow> getKeysResult \<Rightarrow> (bool \<times> getKeysResult) cres" where
  "place_keys cmd argv spec first lst step r =
     cbind (c_int (lst - first)) (\<lambda>d.
     cbind (c_int (numkeys r + (d + 1))) (\<lambda>m.
     cbind (getKeysPrepareResult r m) (\<lambda>r1.
     if argc argv \<le> lst \<or> lst < first \<or> argc argv \<le> first then Inr (False, r1)
     else cbind (range_keys cmd (spec_flags spec) argv first lst step (nat (lst - first + 1)) first r1) (\<lambda>r2.
          Inr (\<not> flag_set (spec_flags spec) CMD_KEY_INCOMPLETE, r2)))))"

text \<open>One specification: whether it was valid, and the result so far.\<close>

definition one_spec :: "strlib \<Rightarrow> redisCommand \<Rightarrow> sds list \<Rightarrow> int \<Rightarrow> keySpec \<Rightarrow> getKeysResult \<Rightarrow> (bool \<times> getKeysResult) cres" where
  "one_spec L cmd argv search_flags spec r =
     cbind (cassert (begin_search_of spec \<noteq> KSPEC_BS_INVALID)) (\<lambda>_.
     if flag_set (spec_flags spec) CMD_KEY_NOT_KEY \<and> \<not> flag_set search_flags GET_KEYSPEC_INCLUDE_NOT_KEYS
     then Inr (True, r)
     else cbind (spec_first spec argv) (\<lambda>sf.
       case sf of
         None \<Rightarrow> Inr (False, r)
       | Some first \<Rightarrow>
           if by_keyword spec \<and> first = 0 then Inr (True, r)
           else cbind (spec_range L spec argv first) (\<lambda>sr.
             case sr of
               None \<Rightarrow> Inr (False, r)
             | Some (first', lst, step) \<Rightarrow> place_keys cmd argv spec first' lst step r)))"

fun key_specs_loop ::
  "strlib \<Rightarrow> redisCommand \<Rightarrow> sds list \<Rightarrow> int \<Rightarrow> keySpec list \<Rightarrow> getKeysResult \<Rightarrow> (int \<times> getKeysResult) cres" where
  "key_specs_loop L cmd argv search_flags [] r = Inr (numkeys r, r)"
| "key_specs_loop L cmd argv search_flags (spec # specs) r =
     cbind (one_spec L cmd argv search_flags spec r) (\<lambda>(valid, r').
       if valid \<or> flag_set search_flags GET_KEYSPEC_RETURN_PARTIAL
       then key_specs_loop L cmd argv search_flags specs r'
       else Inr (- 1, r'\<lparr>numkeys := 0\<rparr>))"

definition getKeysUsingKeySpecs ::
  "strlib \<Rightarrow> redisCommand \<Rightarrow> sds list \<Rightarrow> int \<Rightarrow> getKeysResult \<Rightarrow> (int \<times> getKeysResult) cres" where
  "getKeysUsingKeySpecs L cmd argv search_flags r =
     cbind (cassert (numkeys r = 0)) (\<lambda>_. key_specs_loop L cmd argv search_flags (key_specs cmd) r)"

text \<open>\<open>api\<close> is \<open>moduleGetCommandKeysViaAPI\<close> (module.c).\<close>

definition getKeysFromCommandWithSpecs ::
  "strlib \<Rightarrow> (redisCommand \<Rightarrow> getkeys) \<Rightarrow> redisCommand \<Rightarrow> sds list \<Rightarrow> int \<Rightarrow> getKeysResult \<Rightarrow> (int \<times> getKeysResult) cres" where
  "getKeysFromCommandWithSpecs L api cmd argv search_flags r =
     (let has_keyspec = flag_set (getAllKeySpecsFlags (key_specs cmd) True) CMD_KEY_NOT_KEY;
          has_varflags = flag_set (getAllKeySpecsFlags (key_specs cmd) False) CMD_KEY_VARIABLE_FLAGS;
          callbacks = (\<lambda>r. if flag_set (cmd_flags cmd) CMD_MODULE_GETKEYS then api cmd argv r
                           else case getkeys_proc cmd of Some f \<Rightarrow> f argv r | None \<Rightarrow> Inr (0, r))
      in if has_keyspec \<and> \<not> has_varflags
         then cbind (getKeysUsingKeySpecs L cmd argv search_flags r) (\<lambda>(ret, r').
              if 0 \<le> ret then Inr (ret, r') else callbacks r')
         else callbacks r)"

definition doesCommandHaveKeys :: "redisCommand \<Rightarrow> bool" where
  "doesCommandHaveKeys cmd =
     (getkeys_proc cmd \<noteq> None \<or> flag_set (cmd_flags cmd) CMD_MODULE_GETKEYS
      \<or> flag_set (getAllKeySpecsFlags (key_specs cmd) True) CMD_KEY_NOT_KEY)"

end
