(* ===== verification/Native_Keys.thy ===== *)
theory Native_Keys
  imports Get_Keys
begin

section \<open>The key extraction routines of the commands (db.c)\<close>

text \<open>
  The routines \<open>getkeys_proc\<close> points to, the fallback by legacy range, and the channels of the
  publish/subscribe commands. A routine that fills the array in a counted loop is modelled by the list
  of the elements it writes, written one after the other (\<open>put_keys\<close>).
\<close>

fun put_keys :: "int \<Rightarrow> keyReference list \<Rightarrow> getKeysResult \<Rightarrow> getKeysResult cres" where
  "put_keys i [] r = Inr r"
| "put_keys i (k # ks) r = cbind (put_key i k r) (put_keys (i + 1) ks)"

definition key :: "int \<Rightarrow> int \<Rightarrow> keyReference" where
  "key p f = \<lparr>kpos = p, kflags = f\<rparr>"

text \<open>\<open>result->numkeys = n; return n;\<close>\<close>

definition with_numkeys :: "int \<Rightarrow> getKeysResult \<Rightarrow> (int \<times> getKeysResult) cres" where
  "with_numkeys n r = Inr (n, r\<lparr>numkeys := n\<rparr>)"

definition fill_result :: "keyReference list \<Rightarrow> getKeysResult \<Rightarrow> (int \<times> getKeysResult) cres" where
  "fill_result ks r =
     cbind (getKeysPrepareResult r (int (length ks))) (\<lambda>r'.
     cbind (put_keys 0 ks r') (with_numkeys (int (length ks))))"

subsection \<open>Channels\<close>

record ChannelSpecs =
  chan_proc :: string
  chan_flags :: int
  chan_start :: int
  chan_count :: int

definition chan :: "string \<Rightarrow> int \<Rightarrow> int \<Rightarrow> ChannelSpecs" where
  "chan p f n = \<lparr>chan_proc = p, chan_flags = f, chan_start = 1, chan_count = n\<rparr>"

text \<open>The entries before the terminator, whose \<open>proc\<close> is \<open>NULL\<close>.\<close>

definition commands_with_channels :: "ChannelSpecs list" where
  "commands_with_channels =
     [chan ''subscribeCommand'' CMD_CHANNEL_SUBSCRIBE (- 1),
      chan ''ssubscribeCommand'' CMD_CHANNEL_SUBSCRIBE (- 1),
      chan ''unsubscribeCommand'' CMD_CHANNEL_UNSUBSCRIBE (- 1),
      chan ''sunsubscribeCommand'' CMD_CHANNEL_UNSUBSCRIBE (- 1),
      chan ''psubscribeCommand'' (CMD_CHANNEL_PATTERN OR CMD_CHANNEL_SUBSCRIBE) (- 1),
      chan ''punsubscribeCommand'' (CMD_CHANNEL_PATTERN OR CMD_CHANNEL_UNSUBSCRIBE) (- 1),
      chan ''publishCommand'' CMD_CHANNEL_PUBLISH 1,
      chan ''spublishCommand'' CMD_CHANNEL_PUBLISH 1]"

fun channel_flags :: "string \<Rightarrow> int \<Rightarrow> ChannelSpecs list \<Rightarrow> bool" where
  "channel_flags p fl [] = False"
| "channel_flags p fl (spec # specs) =
     (if p = chan_proc spec then flag_set (chan_flags spec) fl else channel_flags p fl specs)"

definition doesCommandHaveChannelsWithFlags :: "redisCommand \<Rightarrow> int \<Rightarrow> bool" where
  "doesCommandHaveChannelsWithFlags cmd fl =
     (if flag_set (cmd_flags cmd) CMD_MODULE_GETCHANNELS then True
      else channel_flags (cmd_proc cmd) fl commands_with_channels)"

text \<open>
  The loop of \<open>getChannelsFromCommand\<close> has the condition \<open>spec != NULL\<close>, which the address of an
  element never is: it ends only at a match, and leaves the table when there is none (the terminator
  matches no command).
\<close>

fun channels_loop :: "string \<Rightarrow> sds list \<Rightarrow> ChannelSpecs list \<Rightarrow> getKeysResult \<Rightarrow> (int \<times> getKeysResult) cres" where
  "channels_loop p argv [] r = Inl OutOfBounds"
| "channels_loop p argv (spec # specs) r =
     (if p = chan_proc spec then
        (let start = chan_start spec;
             stop0 = (if chan_count spec = - 1 then argc argv else start + chan_count spec);
             stop = (if argc argv < stop0 then argc argv else stop0);
             ks = map (\<lambda>i. key i (chan_flags spec)) [start..stop - 1]
         in cbind (getKeysPrepareResult r (stop - start)) (\<lambda>r'.
            cbind (put_keys 0 ks r') (with_numkeys (int (length ks)))))
      else channels_loop p argv specs r)"

text \<open>\<open>api\<close> is \<open>moduleGetCommandChannelsViaAPI\<close> (module.c).\<close>

definition getChannelsFromCommand ::
  "(redisCommand \<Rightarrow> getkeys) \<Rightarrow> redisCommand \<Rightarrow> sds list \<Rightarrow> getKeysResult \<Rightarrow> (int \<times> getKeysResult) cres" where
  "getChannelsFromCommand api cmd argv r =
     (if flag_set (cmd_flags cmd) CMD_MODULE_GETCHANNELS then api cmd argv r
      else channels_loop (cmd_proc cmd) argv commands_with_channels r)"

subsection \<open>Legacy ranges\<close>

text \<open>Positions counted from \<open>i\<close>; \<open>None\<close> is the return of no keys.\<close>

fun legacy_keys ::
  "redisCommand \<Rightarrow> sds list \<Rightarrow> int \<Rightarrow> int \<Rightarrow> int \<Rightarrow> nat \<Rightarrow> int \<Rightarrow> int \<Rightarrow> getKeysResult \<Rightarrow> (int \<times> getKeysResult) option cres" where
  "legacy_keys cmd argv first lst step 0 j i r = (if j \<le> lst then Inl OutOfFuel else Inr (Some (i, r)))"
| "legacy_keys cmd argv first lst step (Suc fuel) j i r =
     (if \<not> j \<le> lst then Inr (Some (i, r))
      else if argc argv \<le> j \<or> j < first
      then if flag_set (cmd_flags cmd) CMD_MODULE \<or> arity cmd < 0 then Inr None else Inl Panicked
      else cbind (put_key i (key j 0) r) (\<lambda>r'.
           legacy_keys cmd argv first lst step fuel (j + step) (i + 1) r'))"

text \<open>The unions of the specification are read as an index and a range.\<close>

definition getKeysUsingLegacyRangeSpec ::
  "redisCommand \<Rightarrow> sds list \<Rightarrow> getKeysResult \<Rightarrow> (int \<times> getKeysResult) cres" where
  "getKeysUsingLegacyRangeSpec cmd argv r =
     (case (begin_search_of (legacy_range_key_spec cmd), find_keys_of (legacy_range_key_spec cmd)) of
        (KSPEC_BS_INVALID, _) \<Rightarrow> with_numkeys 0 r
      | (KSPEC_BS_INDEX first, KSPEC_FK_RANGE lastkey step limit) \<Rightarrow>
          let l0 = (if 0 \<le> lastkey then lastkey + first else lastkey);
              lst = (if l0 < 0 then argc argv + l0 else l0)
          in cbind (getKeysPrepareResult r (lst - first + 1)) (\<lambda>r'.
             cbind (legacy_keys cmd argv first lst step (nat (lst - first + 1)) first 0 r') (\<lambda>res.
             case res of None \<Rightarrow> with_numkeys 0 r' | Some (i, r'') \<Rightarrow> with_numkeys i r''))
      | _ \<Rightarrow> Inl AssertFailed)"

definition getKeysFromCommand ::
  "(redisCommand \<Rightarrow> getkeys) \<Rightarrow> redisCommand \<Rightarrow> sds list \<Rightarrow> getKeysResult \<Rightarrow> (int \<times> getKeysResult) cres" where
  "getKeysFromCommand api cmd argv r =
     (if flag_set (cmd_flags cmd) CMD_MODULE_GETKEYS then api cmd argv r
      else case getkeys_proc cmd of
             Some f \<Rightarrow> f argv r
           | None \<Rightarrow> getKeysUsingLegacyRangeSpec cmd argv r)"

definition getKeysFreeResult :: "getKeysResult \<Rightarrow> keys_ptr list" where
  "getKeysFreeResult r = (if keys_at r \<noteq> KeysBuf then [keys_at r] else [])"

subsection \<open>Counted keys\<close>

definition genericGetKeys ::
  "int \<Rightarrow> int \<Rightarrow> int \<Rightarrow> int \<Rightarrow> sds list \<Rightarrow> getKeysResult \<Rightarrow> (int \<times> getKeysResult) cres" where
  "genericGetKeys storeKeyOfs keyCountOfs firstKeyOfs keyStep argv r =
     cbind (arg_at argv keyCountOfs) (\<lambda>a.
     let num = c_atoi a in
     if num < 1 \<or> (argc argv - firstKeyOfs) sdiv keyStep < num then with_numkeys 0 r
     else let numkeys = (if storeKeyOfs \<noteq> 0 then num + 1 else num) in
       cbind (getKeysPrepareResult r numkeys) (\<lambda>r1.
       cbind (put_keys 0 (map (\<lambda>i. key (firstKeyOfs + i * keyStep) 0) [0..num - 1]) r1) (\<lambda>r2.
       cbind (if storeKeyOfs \<noteq> 0 then put_key num (key storeKeyOfs 0) r2 else Inr r2)
         (with_numkeys numkeys))))"

definition sintercardGetKeys :: getkeys where "sintercardGetKeys = genericGetKeys 0 1 2 1"
definition zunionInterDiffStoreGetKeys :: getkeys where "zunionInterDiffStoreGetKeys = genericGetKeys 1 2 3 1"
definition zunionInterDiffGetKeys :: getkeys where "zunionInterDiffGetKeys = genericGetKeys 0 1 2 1"
definition evalGetKeys :: getkeys where "evalGetKeys = genericGetKeys 0 2 3 1"
definition functionGetKeys :: getkeys where "functionGetKeys = genericGetKeys 0 2 3 1"
definition lmpopGetKeys :: getkeys where "lmpopGetKeys = genericGetKeys 0 1 2 1"
definition blmpopGetKeys :: getkeys where "blmpopGetKeys = genericGetKeys 0 2 3 1"
definition zmpopGetKeys :: getkeys where "zmpopGetKeys = genericGetKeys 0 1 2 1"
definition bzmpopGetKeys :: getkeys where "bzmpopGetKeys = genericGetKeys 0 2 3 1"

subsection \<open>SORT\<close>

definition sortROGetKeys :: getkeys where
  "sortROGetKeys argv r = fill_result [key 1 (CMD_KEY_RO OR CMD_KEY_ACCESS)] r"

definition sort_skiplist :: "(string \<times> int) list" where
  "sort_skiplist = [(''limit'', 2), (''get'', 1), (''by'', 1)]"

datatype sort_option = SkipArgs int | StoreOption | OtherOption

text \<open>The inner loop over the options with arguments.\<close>

fun sort_arg :: "sds \<Rightarrow> bool \<Rightarrow> (string \<times> int) list \<Rightarrow> sort_option" where
  "sort_arg a has_arg [] = OtherOption"
| "sort_arg a has_arg ((name, skip) # opts) =
     (if arg_is a name then SkipArgs skip
      else if arg_is a ''store'' \<and> has_arg then StoreOption
      else sort_arg a has_arg opts)"

lemma sort_arg_skip: "sort_arg a has_arg opts = SkipArgs n \<Longrightarrow> n \<in> snd ` set opts"
  by (induction a has_arg opts rule: sort_arg.induct) (auto split: if_splits)

lemma sort_skip_nonneg: "sort_arg a has_arg sort_skiplist = SkipArgs n \<Longrightarrow> 0 \<le> n"
  using sort_arg_skip [of a has_arg sort_skiplist n] by (auto simp: sort_skiplist_def)

function sort_scan :: "sds list \<Rightarrow> int \<Rightarrow> bool \<Rightarrow> getKeysResult \<Rightarrow> (bool \<times> getKeysResult) cres" where
  "sort_scan argv i found_store r =
     (if \<not> i < argc argv then Inr (found_store, r)
      else cbind (arg_at argv i) (\<lambda>a.
        case sort_arg a (i + 1 < argc argv) sort_skiplist of
          SkipArgs n \<Rightarrow> sort_scan argv (i + n + 1) found_store r
        | StoreOption \<Rightarrow>
            cbind (put_key 1 (key (i + 1) (CMD_KEY_OW OR CMD_KEY_UPDATE)) r) (\<lambda>r'.
            sort_scan argv (i + 1) True r')
        | OtherOption \<Rightarrow> sort_scan argv (i + 1) found_store r))"
  by pat_completeness auto
termination
  by (relation "measure (\<lambda>(argv, i, _, _). nat (argc argv - i))") (auto dest: sort_skip_nonneg)

declare sort_scan.simps [simp del]

definition sortGetKeys :: getkeys where
  "sortGetKeys argv r =
     cbind (getKeysPrepareResult r 2) (\<lambda>r1.
     cbind (put_key 0 (key 1 (CMD_KEY_RO OR CMD_KEY_ACCESS)) r1) (\<lambda>r2.
     cbind (sort_scan argv 2 False r2) (\<lambda>(found_store, r3).
     with_numkeys (if found_store then 2 else 1) r3)))"

subsection \<open>MIGRATE\<close>

definition migrate_keywords :: "(string \<times> int) list" where
  "migrate_keywords = [(''copy'', 0), (''replace'', 0), (''auth'', 1), (''auth2'', 2)]"

fun keyword_skip :: "sds \<Rightarrow> (string \<times> int) list \<Rightarrow> int" where
  "keyword_skip a [] = 0"
| "keyword_skip a ((name, skip) # kws) = (if arg_is a name then skip else keyword_skip a kws)"

lemma keyword_skip_nonneg: "0 \<le> keyword_skip a migrate_keywords"
  by (simp add: migrate_keywords_def)

text \<open>The first key and the number of keys.\<close>

function migrate_scan :: "sds list \<Rightarrow> int \<Rightarrow> (int \<times> int) cres" where
  "migrate_scan argv i =
     (if \<not> i < argc argv then Inr (3, 1)
      else cbind (arg_at argv i) (\<lambda>a.
        if arg_is a ''keys''
        then cbind (arg_at argv 3) (\<lambda>k.
             if 0 < length k then Inr (3, 0) else Inr (i + 1, argc argv - (i + 1)))
        else migrate_scan argv (i + keyword_skip a migrate_keywords + 1)))"
  by pat_completeness auto
termination
  by (relation "measure (\<lambda>(argv, i). nat (argc argv - i))") (auto intro: less_le_trans [OF _ keyword_skip_nonneg])

declare migrate_scan.simps [simp del]

definition migrateGetKeys :: getkeys where
  "migrateGetKeys argv r =
     cbind (if 6 < argc argv then migrate_scan argv 6 else Inr (3, 1)) (\<lambda>(first, num).
     cbind (getKeysPrepareResult r num) (\<lambda>r1.
     cbind (put_keys 0 (map (\<lambda>i. key (first + i) (CMD_KEY_RW OR CMD_KEY_ACCESS OR CMD_KEY_DELETE)) [0..num - 1]) r1)
       (with_numkeys num)))"

subsection \<open>GEORADIUS\<close>

function georadius_scan :: "sds list \<Rightarrow> int \<Rightarrow> int \<Rightarrow> int cres" where
  "georadius_scan argv i stored_key =
     (if \<not> i < argc argv then Inr stored_key
      else cbind (arg_at argv i) (\<lambda>a.
        if (arg_is a ''store'' \<or> arg_is a ''storedist'') \<and> i + 1 < argc argv
        then georadius_scan argv (i + 2) (i + 1)
        else georadius_scan argv (i + 1) stored_key))"
  by pat_completeness auto
termination
  by (relation "measure (\<lambda>(argv, i, _). nat (argc argv - i))") auto

declare georadius_scan.simps [simp del]

definition georadiusGetKeys :: getkeys where
  "georadiusGetKeys argv r =
     cbind (georadius_scan argv 5 (- 1)) (\<lambda>stored_key.
     let num = 1 + (if stored_key = - 1 then 0 else 1) in
     cbind (getKeysPrepareResult r num) (\<lambda>r1.
     cbind (put_key 0 (key 1 0) r1) (\<lambda>r2.
     cbind (if 1 < num then put_key 1 (key stored_key 0) r2 else Inr r2)
       (with_numkeys num))))"

subsection \<open>XREAD\<close>

text \<open>The position of STREAMS, \<open>-1\<close> on a syntax error.\<close>

function xread_scan :: "sds list \<Rightarrow> int \<Rightarrow> int cres" where
  "xread_scan argv i =
     (if \<not> i < argc argv then Inr (- 1)
      else cbind (arg_at argv i) (\<lambda>a.
        if arg_is a ''block'' then xread_scan argv (i + 2)
        else if arg_is a ''count'' then xread_scan argv (i + 2)
        else if arg_is a ''group'' then xread_scan argv (i + 3)
        else if arg_is a ''noack'' then xread_scan argv (i + 1)
        else if arg_is a ''streams'' then Inr i
        else Inr (- 1)))"
  by pat_completeness auto
termination
  by (relation "measure (\<lambda>(argv, i). nat (argc argv - i))") auto

declare xread_scan.simps [simp del]

definition xreadGetKeys :: getkeys where
  "xreadGetKeys argv r =
     cbind (xread_scan argv 1) (\<lambda>streams_pos.
     let num0 = (if streams_pos \<noteq> - 1 then argc argv - streams_pos - 1 else 0) in
     if streams_pos = - 1 \<or> num0 = 0 \<or> num0 mod 2 \<noteq> 0 then with_numkeys 0 r
     else let num = num0 div 2 in
       cbind (getKeysPrepareResult r num) (\<lambda>r1.
       cbind (put_keys 0 (map (\<lambda>i. key i 0) [streams_pos + 1..argc argv - num - 1]) r1)
         (with_numkeys num)))"

subsection \<open>SET and BITFIELD\<close>

text \<open>The bytes of an \<open>sds\<close>, with the NUL after them.\<close>

definition char_at :: "sds \<Rightarrow> nat \<Rightarrow> u8" where
  "char_at a n = (if n < length a then a ! n else 0)"

definition is_get :: "sds \<Rightarrow> bool" where
  "is_get a = ((char_at a 0 = 103 \<or> char_at a 0 = 71) \<and> (char_at a 1 = 101 \<or> char_at a 1 = 69) \<and>
               (char_at a 2 = 116 \<or> char_at a 2 = 84) \<and> char_at a 3 = 0)"

definition setGetKeys :: getkeys where
  "setGetKeys argv r =
     fill_result [key 1 (if \<exists>a \<in> set (drop 3 argv). is_get a
                         then CMD_KEY_RW OR CMD_KEY_ACCESS OR CMD_KEY_UPDATE
                         else CMD_KEY_OW OR CMD_KEY_UPDATE)] r"

text \<open>Whether every subcommand reads.\<close>

function bitfield_readonly :: "sds list \<Rightarrow> int \<Rightarrow> bool cres" where
  "bitfield_readonly argv i =
     (if \<not> i < argc argv then Inr True
      else cbind (arg_at argv i) (\<lambda>a.
        let remargs = argc argv - i - 1 in
        if arg_is a ''get'' \<and> 2 \<le> remargs then bitfield_readonly argv (i + 3)
        else if (arg_is a ''set'' \<or> arg_is a ''incrby'') \<and> 3 \<le> remargs then Inr False
        else if arg_is a ''overflow'' \<and> 1 \<le> remargs then bitfield_readonly argv (i + 2)
        else Inr False))"
  by pat_completeness auto
termination
  by (relation "measure (\<lambda>(argv, i). nat (argc argv - i))") auto

declare bitfield_readonly.simps [simp del]

definition bitfieldGetKeys :: getkeys where
  "bitfieldGetKeys argv r =
     cbind (bitfield_readonly argv 2) (\<lambda>readonly.
     fill_result [key 1 (if readonly then CMD_KEY_RO OR CMD_KEY_ACCESS
                         else CMD_KEY_RW OR CMD_KEY_ACCESS OR CMD_KEY_UPDATE)] r)"

end
