(* ===== verification/Key_Positions.thy ===== *)
theory Key_Positions
  imports Native_Keys
begin

section \<open>Correctness of the key extraction\<close>

text \<open>
  Every native routine writes only inside the array it prepared and returns positions of arguments;
  the routines on a counted list of keys agree with the key specification of their commands; a
  specification can read past the arguments; the channel lookup leaves its table.
\<close>

definition result_ok :: "getKeysResult \<Rightarrow> bool" where
  "result_ok r =
     (gsize r = int (length (gkeys r)) \<and> 0 \<le> numkeys r \<and> numkeys r \<le> gsize r
      \<and> (keys_at r = KeysNull \<longrightarrow> numkeys r = 0))"

definition keys_of :: "getKeysResult \<Rightarrow> keyReference list" where
  "keys_of r = take (nat (numkeys r)) (gkeys r)"

text \<open>The call returns the keys \<open>ks\<close>.\<close>

definition yields :: "(int \<times> getKeysResult) cres \<Rightarrow> keyReference list \<Rightarrow> bool" where
  "yields res ks = (\<exists>r. res = Inr (int (length ks), r) \<and> result_ok r \<and> keys_of r = ks)"

named_theorems key_rules \<open>the array of positions\<close>

lemma result_ok_init [simp]: "result_ok GETKEYS_RESULT_INIT"
  by (simp add: result_ok_def GETKEYS_RESULT_INIT_def)

lemma keys_of_init [simp]: "keys_of GETKEYS_RESULT_INIT = []"
  by (simp add: keys_of_def GETKEYS_RESULT_INIT_def)

lemma arg_at_Inr [key_rules]: "0 \<le> i \<Longrightarrow> i < argc argv \<Longrightarrow> arg_at argv i = Inr (argv ! nat i)"
  by (simp add: arg_at_def argc_def arr_get_Inr nat_less_iff)

lemma arg_at_past: "argc argv \<le> i \<Longrightarrow> arg_at argv i = Inl OutOfBounds"
  by (auto simp: arg_at_def argc_def arr_get_fault nat_le_iff le_nat_iff)

lemma put_key_Inr [key_rules]:
  "0 \<le> i \<Longrightarrow> i < int (length (gkeys r)) \<Longrightarrow> put_key i k r = Inr (r\<lparr>gkeys := (gkeys r)[nat i := k]\<rparr>)"
  by (simp add: put_key_def arr_set_Inr nat_less_iff)

lemma put_keys_Inr [key_rules]:
  "0 \<le> i \<Longrightarrow> nat i + length ks \<le> length (gkeys r) \<Longrightarrow>
     put_keys i ks r = Inr (r\<lparr>gkeys := take (nat i) (gkeys r) @ ks @ drop (nat i + length ks) (gkeys r)\<rparr>)"
proof (induction i ks r rule: put_keys.induct)
  case (2 i k ks r)
  then have i: "nat i < length (gkeys r)" by simp
  have n: "nat (i + 1) = Suc (nat i)" using 2 by simp
  let ?r = "r\<lparr>gkeys := (gkeys r)[nat i := k]\<rparr>"
  have "put_keys (i + 1) ks ?r =
          Inr (?r\<lparr>gkeys := take (nat (i + 1)) (gkeys ?r) @ ks @ drop (nat (i + 1) + length ks) (gkeys ?r)\<rparr>)"
    using 2 i by (intro "2.IH" [where x = ?r]) (auto simp: put_key_Inr)
  moreover have "take (Suc (nat i)) ((gkeys r)[nat i := k]) = take (nat i) (gkeys r) @ [k]"
    using i by (simp add: take_Suc_conv_app_nth)
  ultimately show ?case using 2 i
    by (simp add: put_key_Inr n)
qed (simp add: key_rules)

lemma prepare_ok:
  assumes "result_ok r"
  obtains r' where "getKeysPrepareResult r n = Inr r'" "result_ok r'" "n \<le> gsize r'"
    "numkeys r' = numkeys r" "keys_of r' = keys_of r" "keys_at r' \<noteq> KeysNull"
proof -
  let ?r = "if keys_at r = KeysNull then r\<lparr>keys_at := KeysBuf\<rparr> else r"
  have one: "cbind (if keys_at r = KeysNull then cbind (cassert (numkeys r = 0)) (\<lambda>_. Inr (r\<lparr>keys_at := KeysBuf\<rparr>)) else Inr r) f = f ?r" for f
    :: "getKeysResult \<Rightarrow> getKeysResult cres"
    using assms by (simp add: result_ok_def)
  show ?thesis
  proof (cases "gsize r < n")
    case False
    with assms show ?thesis
      by (intro that [of ?r]) (auto simp: getKeysPrepareResult_def one result_ok_def keys_of_def)
  next
    case True
    let ?m = "if keys_at ?r \<noteq> KeysBuf then nat n else nat (numkeys r)"
    let ?r' = "?r\<lparr>keys_at := KeysHeap, gsize := n, gkeys := resize_keys ?m (nat n) (gkeys r)\<rparr>"
    have n: "0 \<le> n" "numkeys r \<le> n" "length (gkeys r) \<le> nat n" "nat (numkeys r) \<le> ?m" "nat (numkeys r) \<le> length (gkeys r)"
      using assms True by (auto simp: result_ok_def)
    have "nat (numkeys r) \<le> length (take ?m (gkeys r))" using n by simp
    then have k: "take (nat (numkeys r)) (resize_keys ?m (nat n) (gkeys r)) = take (nat (numkeys r)) (gkeys r)"
      unfolding resize_keys_def using n by (simp add: min_def)
    have l: "length (resize_keys ?m (nat n) (gkeys r)) = nat n"
      using n by (auto simp: resize_keys_def)
    show ?thesis
    proof (rule that [of ?r'])
      show "getKeysPrepareResult r n = Inr ?r'"
        using True unfolding getKeysPrepareResult_def one by simp
      show "result_ok ?r'" using n assms l by (simp add: result_ok_def)
      have u: "keys_of ?r' = take (nat (numkeys r)) (resize_keys ?m (nat n) (gkeys r))" by (simp add: keys_of_def)
      show "keys_of ?r' = keys_of r" unfolding u k by (simp add: keys_of_def)
    qed simp_all
  qed
qed

lemma with_numkeys_yields [key_rules]:
  assumes "result_ok r" "keys_at r \<noteq> KeysNull" "take (length ks) (gkeys r) = ks" "n = int (length ks)"
  shows "yields (with_numkeys n r) ks"
proof -
  have "length ks \<le> length (gkeys r)"
    using arg_cong [OF assms(3), of length] by simp
  with assms show ?thesis
    by (auto simp: yields_def with_numkeys_def result_ok_def keys_of_def)
qed

lemma no_keys [key_rules]: "result_ok r \<Longrightarrow> yields (with_numkeys 0 r) []"
  by (auto simp: yields_def with_numkeys_def result_ok_def keys_of_def)

text \<open>Preparing the array for \<open>n\<close> elements and writing \<open>n\<close> elements from the start.\<close>

lemma prepare_put_yields:
  assumes r: "result_ok r" and n: "int (length ks) \<le> n"
    and f: "\<And>r'. result_ok r' \<Longrightarrow> keys_at r' \<noteq> KeysNull \<Longrightarrow> take (length ks) (gkeys r') = ks \<Longrightarrow>
                  n \<le> gsize r' \<Longrightarrow> yields (f r') ls"
  shows "yields (cbind (getKeysPrepareResult r n) (\<lambda>r1. cbind (put_keys 0 ks r1) f)) ls"
proof -
  obtain r1 where r1: "getKeysPrepareResult r n = Inr r1" "result_ok r1" "n \<le> gsize r1" "keys_at r1 \<noteq> KeysNull"
    using r by (rule prepare_ok)
  let ?r2 = "r1\<lparr>gkeys := ks @ drop (length ks) (gkeys r1)\<rparr>"
  have le: "length ks \<le> length (gkeys r1)" using r1 n by (simp add: result_ok_def)
  then have "put_keys 0 ks r1 = Inr ?r2" by (subst put_keys_Inr) simp_all
  moreover have "yields (f ?r2) ls"
    using r1 le by (intro f) (simp_all add: result_ok_def)
  ultimately show ?thesis using r1 by simp
qed

lemma fill_result_yields: "result_ok r \<Longrightarrow> yields (fill_result ks r) ks"
  unfolding fill_result_def by (rule prepare_put_yields) (simp_all add: key_rules)

text \<open>All positions are arguments other than the command name.\<close>

definition positions_ok :: "sds list \<Rightarrow> keyReference list \<Rightarrow> bool" where
  "positions_ok argv ks = (\<forall>k \<in> set ks. 1 \<le> kpos k \<and> kpos k < argc argv)"

lemma positions_ok_simps [simp]:
  "positions_ok argv []"
  "positions_ok argv (k # ks) \<longleftrightarrow> 1 \<le> kpos k \<and> kpos k < argc argv \<and> positions_ok argv ks"
  "positions_ok argv (ks @ ls) \<longleftrightarrow> positions_ok argv ks \<and> positions_ok argv ls"
  by (auto simp: positions_ok_def)

lemma kpos_key [simp]: "kpos (key p f) = p" "kflags (key p f) = f"
  by (simp_all add: key_def)

definition in_range :: "sds list \<Rightarrow> (int \<times> getKeysResult) cres \<Rightarrow> bool" where
  "in_range argv res = (\<exists>ks. yields res ks \<and> positions_ok argv ks)"

lemma in_rangeI [intro]: "yields res ks \<Longrightarrow> positions_ok argv ks \<Longrightarrow> in_range argv res"
  by (auto simp: in_range_def)

subsection \<open>Counted keys\<close>

definition counted_keys :: "int \<Rightarrow> int \<Rightarrow> int \<Rightarrow> sds list \<Rightarrow> int list" where
  "counted_keys storeKeyOfs keyCountOfs firstKeyOfs argv =
     (let n = c_atoi (argv ! nat keyCountOfs)
      in if n < 1 \<or> argc argv - firstKeyOfs < n then []
         else [firstKeyOfs..firstKeyOfs + n - 1] @ (if storeKeyOfs \<noteq> 0 then [storeKeyOfs] else []))"

lemma map_shift_upto: "map (\<lambda>i. f (a + i)) [0..n - 1] = map f [a..a + n - (1::int)]"
proof (rule nth_equalityI)
  show "length (map (\<lambda>i. f (a + i)) [0..n - 1]) = length (map f [a..a + n - 1])" by simp
qed (simp add: nth_upto)

lemma sdiv_one: "(n::int) sdiv 1 = n"
  by (simp add: signed_divide_int_def sgn_mult_abs)

lemma genericGetKeys_yields:
  assumes r: "result_ok r" and c: "0 \<le> keyCountOfs" "keyCountOfs < argc argv"
  shows "yields (genericGetKeys storeKeyOfs keyCountOfs firstKeyOfs 1 argv r)
           (map (\<lambda>p. key p 0) (counted_keys storeKeyOfs keyCountOfs firstKeyOfs argv))"
proof -
  define n where "n = c_atoi (argv ! nat keyCountOfs)"
  show ?thesis
  proof (cases "n < 1 \<or> argc argv - firstKeyOfs < n")
    case True
    then show ?thesis using r c
      by (auto simp: genericGetKeys_def counted_keys_def arg_at_Inr sdiv_one Let_def n_def [symmetric] key_rules)
  next
    case False
    let ?ks = "map (\<lambda>p. key p 0) [firstKeyOfs..firstKeyOfs + n - 1]"
    let ?n = "if storeKeyOfs \<noteq> 0 then n + 1 else n"
    let ?ls = "?ks @ (if storeKeyOfs \<noteq> 0 then [key storeKeyOfs 0] else [])"
    have ls: "map (\<lambda>p. key p 0) (counted_keys storeKeyOfs keyCountOfs firstKeyOfs argv) = ?ls"
      using False by (simp add: counted_keys_def n_def [symmetric] Let_def)
    have len: "int (length ?ks) = n" using False by simp
    have "yields (cbind (getKeysPrepareResult r ?n) (\<lambda>r1. cbind (put_keys 0 ?ks r1) (\<lambda>r2.
            cbind (if storeKeyOfs \<noteq> 0 then put_key n (key storeKeyOfs 0) r2 else Inr r2) (with_numkeys ?n)))) ?ls"
    proof (rule prepare_put_yields [OF r])
      fix r' assume r': "result_ok r'" "keys_at r' \<noteq> KeysNull" "take (length ?ks) (gkeys r') = ?ks" "?n \<le> gsize r'"
      show "yields (cbind (if storeKeyOfs \<noteq> 0 then put_key n (key storeKeyOfs 0) r' else Inr r') (with_numkeys ?n)) ?ls"
      proof (cases "storeKeyOfs = 0")
        case True
        then show ?thesis using r' len by (simp add: with_numkeys_yields)
      next
        case s: False
        have "gsize r' = int (length (gkeys r'))" "n + 1 \<le> gsize r'" "1 \<le> n"
          using r' s False by (simp_all add: result_ok_def)
        then have l: "nat n < length (gkeys r')" by linarith
        have n: "nat n = length ?ks" by simp
        have "take (Suc (nat n)) ((gkeys r')[nat n := key storeKeyOfs 0]) = ?ks @ [key storeKeyOfs 0]"
          using l r'(3) unfolding n [symmetric] by (simp add: take_Suc_conv_app_nth)
        then have "yields (with_numkeys (n + 1) (r'\<lparr>gkeys := (gkeys r')[nat n := key storeKeyOfs 0]\<rparr>)) (?ks @ [key storeKeyOfs 0])"
          using r' False by (intro with_numkeys_yields) (simp_all add: result_ok_def)
        moreover have "put_key n (key storeKeyOfs 0) r' = Inr (r'\<lparr>gkeys := (gkeys r')[nat n := key storeKeyOfs 0]\<rparr>)"
          using False l by (intro put_key_Inr) auto
        ultimately show ?thesis using s by simp
      qed
    qed (use False in simp)
    then show ?thesis using False c unfolding ls
      by (cases "storeKeyOfs = 0")
        (simp_all add: genericGetKeys_def arg_at_Inr sdiv_one Let_def n_def [symmetric] map_shift_upto [where f = "\<lambda>p. key p 0"])
  qed
qed

lemma genericGetKeys_in_range:
  assumes "result_ok r" "0 \<le> keyCountOfs" "keyCountOfs < argc argv" "1 \<le> firstKeyOfs" "0 \<le> storeKeyOfs" "storeKeyOfs < argc argv"
  shows "in_range argv (genericGetKeys storeKeyOfs keyCountOfs firstKeyOfs 1 argv r)"
  using assms by (intro in_rangeI [OF genericGetKeys_yields]) (auto simp: positions_ok_def counted_keys_def Let_def)

subsection \<open>Searched keys\<close>

lemma sort_scan_ok:
  assumes "2 \<le> i" "result_ok r" "keys_at r \<noteq> KeysNull" "2 \<le> gsize r" "kpos (gkeys r ! 0) = 1"
    "found \<Longrightarrow> 1 \<le> kpos (gkeys r ! 1) \<and> kpos (gkeys r ! 1) < argc argv"
  shows "\<exists>found' r'. sort_scan argv i found r = Inr (found', r') \<and> result_ok r' \<and> keys_at r' \<noteq> KeysNull
           \<and> 2 \<le> gsize r' \<and> kpos (gkeys r' ! 0) = 1
           \<and> (found' \<longrightarrow> 1 \<le> kpos (gkeys r' ! 1) \<and> kpos (gkeys r' ! 1) < argc argv)"
  using assms
proof (induction argv i found r rule: sort_scan.induct)
  case (1 argv i found r)
  show ?case
  proof (cases "i < argc argv")
    case False
    then show ?thesis using "1.prems" by (subst sort_scan.simps) simp
  next
    case i: True
    with "1.prems" have a: "arg_at argv i = Inr (argv ! nat i)" by (simp add: arg_at_Inr)
    have nn: "\<not> \<not> i < argc argv" using i by simp
    show ?thesis
    proof (cases "sort_arg (argv ! nat i) (i + 1 < argc argv) sort_skiplist")
      case (SkipArgs n)
      with "1.IH"(1) [OF nn a SkipArgs] "1.prems" i a sort_skip_nonneg [OF SkipArgs] show ?thesis
        by (subst sort_scan.simps) simp
    next
      case StoreOption
      let ?k = "key (i + 1) (CMD_KEY_OW OR CMD_KEY_UPDATE)"
      let ?r = "r\<lparr>gkeys := (gkeys r)[1 := ?k]\<rparr>"
      have l: "1 < length (gkeys r)" using "1.prems" by (simp add: result_ok_def)
      then have p: "put_key 1 ?k r = Inr ?r" by (subst put_key_Inr) simp_all
      have next_ok: "i + 1 < argc argv"
        using StoreOption by (auto simp: sort_skiplist_def split: if_splits)
      from "1.IH"(2) [OF nn a StoreOption p] "1.prems" l next_ok i a p StoreOption show ?thesis
        by (subst sort_scan.simps) (simp add: result_ok_def)
    next
      case OtherOption
      with "1.IH"(3) [OF nn a OtherOption] "1.prems" i a show ?thesis
        by (subst sort_scan.simps) simp
    qed
  qed
qed

lemma sortGetKeys_in_range:
  assumes r: "result_ok r" and c: "2 \<le> argc argv"
  shows "in_range argv (sortGetKeys argv r)"
proof -
  obtain r1 where r1: "getKeysPrepareResult r 2 = Inr r1" "result_ok r1" "2 \<le> gsize r1" "keys_at r1 \<noteq> KeysNull"
    using r by (rule prepare_ok)
  let ?r2 = "r1\<lparr>gkeys := (gkeys r1)[0 := key 1 (CMD_KEY_RO OR CMD_KEY_ACCESS)]\<rparr>"
  have l: "2 \<le> length (gkeys r1)" using r1 by (simp add: result_ok_def)
  then have p: "put_key 0 (key 1 (CMD_KEY_RO OR CMD_KEY_ACCESS)) r1 = Inr ?r2" by (subst put_key_Inr) auto
  have k0: "kpos (gkeys ?r2 ! 0) = 1" using l by (cases "gkeys r1") auto
  have r2: "result_ok ?r2" "keys_at ?r2 \<noteq> KeysNull" "2 \<le> gsize ?r2" using r1 l by (simp_all add: result_ok_def)
  obtain found r3 where s: "sort_scan argv 2 False ?r2 = Inr (found, r3)" "result_ok r3" "keys_at r3 \<noteq> KeysNull"
    "2 \<le> gsize r3" "kpos (gkeys r3 ! 0) = 1"
    "found \<Longrightarrow> 1 \<le> kpos (gkeys r3 ! 1) \<and> kpos (gkeys r3 ! 1) < argc argv"
    using sort_scan_ok [of 2 ?r2 False argv, OF _ r2 k0] by auto
  define n :: int where "n = (if found then 2 else 1)"
  have "2 \<le> length (gkeys r3)" using s by (simp add: result_ok_def)
  then obtain a b ks where g: "gkeys r3 = a # b # ks"
    by (cases "gkeys r3"; cases "tl (gkeys r3)") auto
  have "yields (with_numkeys n r3) (take (nat n) (gkeys r3))"
    using s g by (intro with_numkeys_yields) (auto simp: n_def)
  moreover have "positions_ok argv (take (nat n) (gkeys r3))"
    using s c g by (auto simp: n_def numeral_2_eq_2)
  ultimately show ?thesis
    using r1 p s by (simp add: sortGetKeys_def n_def in_rangeI)
qed

lemma migrate_scan_ok:
  assumes "6 \<le> i" "4 \<le> argc argv"
  shows "\<exists>first num. migrate_scan argv i = Inr (first, num) \<and> 3 \<le> first \<and> 0 \<le> num \<and> first + num \<le> argc argv"
  using assms
proof (induction argv i rule: migrate_scan.induct)
  case (1 argv i)
  show ?case
  proof (cases "i < argc argv")
    case i: True
    with "1.prems" have a: "arg_at argv i = Inr (argv ! nat i)" by (simp add: arg_at_Inr)
    show ?thesis
    proof (cases "arg_is (argv ! nat i) ''keys''")
      case True
      with "1.prems" a i show ?thesis by (subst migrate_scan.simps) (auto simp: arg_at_Inr)
    next
      case False
      with "1.IH" [OF _ a False] "1.prems" i a keyword_skip_nonneg [of "argv ! nat i"] show ?thesis
        by (subst migrate_scan.simps) simp
    qed
  qed (use "1.prems" in \<open>subst migrate_scan.simps, simp\<close>)
qed

lemma migrateGetKeys_in_range:
  assumes r: "result_ok r" and c: "4 \<le> argc argv"
  shows "in_range argv (migrateGetKeys argv r)"
proof -
  obtain first num where s: "(if 6 < argc argv then migrate_scan argv 6 else Inr (3, 1)) = Inr (first, num)"
    "3 \<le> first" "0 \<le> num" "first + num \<le> argc argv"
    using migrate_scan_ok [of 6 argv] c by (cases "6 < argc argv") auto
  let ?ks = "map (\<lambda>i. key (first + i) (CMD_KEY_RW OR CMD_KEY_ACCESS OR CMD_KEY_DELETE)) [0..num - 1]"
  have "yields (cbind (getKeysPrepareResult r num) (\<lambda>r1. cbind (put_keys 0 ?ks r1) (with_numkeys num))) ?ks"
    using s by (intro prepare_put_yields [OF r]) (auto simp: with_numkeys_yields)
  moreover have "positions_ok argv ?ks" using s by (auto simp: positions_ok_def)
  ultimately show ?thesis using s by (auto simp: migrateGetKeys_def)
qed

lemma georadius_scan_ok:
  assumes "5 \<le> i" "stored = - 1 \<or> 1 \<le> stored \<and> stored < argc argv"
  shows "\<exists>p. georadius_scan argv i stored = Inr p \<and> (p = - 1 \<or> 1 \<le> p \<and> p < argc argv)"
  using assms
proof (induction argv i stored rule: georadius_scan.induct)
  case (1 argv i stored)
  show ?case
  proof (cases "i < argc argv")
    case i: True
    with "1.prems" have a: "arg_at argv i = Inr (argv ! nat i)" by (simp add: arg_at_Inr)
    from "1.IH"(1) [OF _ a] "1.IH"(2) [OF _ a] "1.prems" i a show ?thesis
      by (subst georadius_scan.simps) auto
  qed (use "1.prems" in \<open>subst georadius_scan.simps, simp\<close>)
qed

lemma georadiusGetKeys_in_range:
  assumes r: "result_ok r" and c: "2 \<le> argc argv"
  shows "in_range argv (georadiusGetKeys argv r)"
proof -
  obtain p where s: "georadius_scan argv 5 (- 1) = Inr p" "p = - 1 \<or> 1 \<le> p \<and> p < argc argv"
    using georadius_scan_ok [of 5 "- 1" argv] by auto
  let ?ks = "if p = - 1 then [key 1 0] else [key 1 0, key p 0]"
  have "yields (cbind (getKeysPrepareResult r (int (length ?ks))) (\<lambda>r1. cbind (put_keys 0 ?ks r1) (with_numkeys (int (length ?ks))))) ?ks"
    by (intro prepare_put_yields [OF r]) (auto simp: with_numkeys_yields)
  then have "yields (georadiusGetKeys argv r) ?ks"
    using s by (simp add: georadiusGetKeys_def cbind_assoc Let_def split: if_splits)
  then show ?thesis using s c by (auto simp: in_range_def)
qed

lemma xread_scan_ok:
  assumes "1 \<le> i"
  shows "\<exists>p. xread_scan argv i = Inr p \<and> (p = - 1 \<or> 1 \<le> p \<and> p < argc argv)"
  using assms
proof (induction argv i rule: xread_scan.induct)
  case (1 argv i)
  show ?case
  proof (cases "i < argc argv")
    case i: True
    with "1.prems" have a: "arg_at argv i = Inr (argv ! nat i)" by (simp add: arg_at_Inr)
    from "1.IH" [OF _ a] "1.prems" i a show ?thesis
      by (subst xread_scan.simps) auto
  qed (subst xread_scan.simps, simp)
qed

lemma xreadGetKeys_in_range:
  assumes r: "result_ok r"
  shows "in_range argv (xreadGetKeys argv r)"
proof -
  obtain p where s: "xread_scan argv 1 = Inr p" "p = - 1 \<or> 1 \<le> p \<and> p < argc argv"
    using xread_scan_ok [of 1 argv] by auto
  define n where "n = argc argv - p - 1"
  show ?thesis
  proof (cases "p = - 1 \<or> n = 0 \<or> n mod 2 \<noteq> 0")
    case True
    then show ?thesis using r s by (auto simp: xreadGetKeys_def n_def Let_def intro!: in_rangeI no_keys)
  next
    case False
    let ?ks = "map (\<lambda>i. key i 0) [p + 1..argc argv - n div 2 - 1]"
    have n: "n = 2 * (n div 2)" "0 \<le> n" using False s by (auto simp: n_def)
    then have len: "int (length ?ks) = n div 2" by (simp add: n_def)
    have "yields (cbind (getKeysPrepareResult r (n div 2)) (\<lambda>r1. cbind (put_keys 0 ?ks r1) (with_numkeys (n div 2)))) ?ks"
      using len by (intro prepare_put_yields [OF r]) (auto simp: with_numkeys_yields)
    moreover have "positions_ok argv ?ks" using s n False by (auto simp: positions_ok_def)
    ultimately show ?thesis using s False by (auto simp: xreadGetKeys_def n_def Let_def)
  qed
qed

lemma bitfield_readonly_ok: "2 \<le> i \<Longrightarrow> \<exists>b. bitfield_readonly argv i = Inr b"
proof (induction argv i rule: bitfield_readonly.induct)
  case (1 argv i)
  show ?case
  proof (cases "i < argc argv")
    case i: True
    with "1.prems" have a: "arg_at argv i = Inr (argv ! nat i)" by (simp add: arg_at_Inr)
    from "1.IH" [OF _ a refl] "1.prems" i a show ?thesis
      by (subst bitfield_readonly.simps) (auto simp: Let_def)
  next
    case False
    then show ?thesis by (subst bitfield_readonly.simps) auto
  qed
qed

lemma bitfieldGetKeys_in_range:
  assumes "result_ok r" "2 \<le> argc argv"
  shows "in_range argv (bitfieldGetKeys argv r)"
proof -
  obtain b where b: "bitfield_readonly argv 2 = Inr b" using bitfield_readonly_ok [of 2 argv] by auto
  define f where "f = (if b then CMD_KEY_RO OR CMD_KEY_ACCESS else CMD_KEY_RW OR CMD_KEY_ACCESS OR CMD_KEY_UPDATE)"
  have "yields (bitfieldGetKeys argv r) [key 1 f]"
    using fill_result_yields [OF assms(1), of "[key 1 f]"] b by (simp add: bitfieldGetKeys_def f_def)
  then show ?thesis by (rule in_rangeI) (use assms in simp)
qed

lemma setGetKeys_in_range:
  assumes "result_ok r" "2 \<le> argc argv"
  shows "in_range argv (setGetKeys argv r)"
  unfolding setGetKeys_def by (rule in_rangeI [OF fill_result_yields [OF assms(1)]]) (use assms in simp)

lemma sortROGetKeys_in_range:
  assumes "result_ok r" "2 \<le> argc argv"
  shows "in_range argv (sortROGetKeys argv r)"
  unfolding sortROGetKeys_def by (rule in_rangeI [OF fill_result_yields [OF assms(1)]]) (use assms in simp)

text \<open>The native routines, each with the number of arguments it needs.\<close>

definition native_getkeys :: "(getkeys \<times> int) list" where
  "native_getkeys =
     [(sintercardGetKeys, 2), (zunionInterDiffStoreGetKeys, 3), (zunionInterDiffGetKeys, 2), (evalGetKeys, 3),
      (functionGetKeys, 3), (lmpopGetKeys, 2), (blmpopGetKeys, 3), (zmpopGetKeys, 2), (bzmpopGetKeys, 3),
      (sortROGetKeys, 2), (sortGetKeys, 2), (migrateGetKeys, 4), (georadiusGetKeys, 2), (xreadGetKeys, 1),
      (setGetKeys, 2), (bitfieldGetKeys, 2)]"

lemmas native_defs =
  sintercardGetKeys_def zunionInterDiffStoreGetKeys_def zunionInterDiffGetKeys_def evalGetKeys_def
  functionGetKeys_def lmpopGetKeys_def blmpopGetKeys_def zmpopGetKeys_def bzmpopGetKeys_def

lemma native_in_range:
  assumes r: "result_ok r" and f: "(f, n) \<in> set native_getkeys" and n: "n \<le> argc argv"
  shows "in_range argv (f argv r)"
proof -
  note rules = sortROGetKeys_in_range [OF r] sortGetKeys_in_range [OF r] migrateGetKeys_in_range [OF r]
      georadiusGetKeys_in_range [OF r] xreadGetKeys_in_range [OF r] setGetKeys_in_range [OF r]
      bitfieldGetKeys_in_range [OF r] genericGetKeys_in_range [OF r]
  have "list_all (\<lambda>(f, n). n \<le> argc argv \<longrightarrow> in_range argv (f argv r)) native_getkeys"
    by (simp add: native_getkeys_def native_defs rules)
  then show ?thesis using f n by (auto simp: list_all_iff)
qed

lemma yields_numkeys: "yields res ks \<Longrightarrow> \<exists>r. res = Inr (numkeys r, r) \<and> result_ok r \<and> keys_of r = ks"
  by (auto simp: yields_def result_ok_def keys_of_def)

text \<open>
  C24: On at least as many arguments as it needs, every native routine returns without a fault (it
  reads only arguments and writes only inside the array it prepared); it returns the number of keys
  stored, and every position stored is one of the arguments after the command name.
\<close>

theorem native_getkeys_sound:
  assumes "result_ok r" "(f, n) \<in> set native_getkeys" "n \<le> argc argv"
  shows "\<exists>r'. f argv r = Inr (numkeys r', r') \<and> result_ok r'
           \<and> (\<forall>k \<in> set (keys_of r'). 1 \<le> kpos k \<and> kpos k < argc argv)"
  using native_in_range [OF assms] yields_numkeys unfolding in_range_def positions_ok_def by blast

definition sort_args :: "sds list" where
  "sort_args = map bytes_of [''SORT'', ''k'', ''BY'', ''store'', ''STORE'', ''x'', ''store'', ''y'']"

theorem native_getkeys_sound_witness:
  "\<exists>r'. sortGetKeys sort_args GETKEYS_RESULT_INIT = Inr (numkeys r', r') \<and> result_ok r'
      \<and> (\<forall>k \<in> set (keys_of r'). 1 \<le> kpos k \<and> kpos k < argc sort_args)"
  by (rule native_getkeys_sound [where n = 2]) (simp_all add: native_getkeys_def sort_args_def argc_def)

subsection \<open>Key specifications\<close>

lemma append_key:
  assumes "result_ok r" "keys_at r \<noteq> KeysNull" "numkeys r < gsize r"
  obtains r' where "put_key (numkeys r) k r = Inr r'" "result_ok (r'\<lparr>numkeys := numkeys r' + 1\<rparr>)"
    "keys_at r' \<noteq> KeysNull" "gsize r' = gsize r" "numkeys r' = numkeys r"
    "keys_of (r'\<lparr>numkeys := numkeys r' + 1\<rparr>) = keys_of r @ [k]"
proof (rule that [of "r\<lparr>gkeys := (gkeys r)[nat (numkeys r) := k]\<rparr>"])
  have n: "0 \<le> numkeys r" "numkeys r < int (length (gkeys r))" "nat (numkeys r) < length (gkeys r)"
    using assms by (auto simp: result_ok_def)
  then show "put_key (numkeys r) k r = Inr (r\<lparr>gkeys := (gkeys r)[nat (numkeys r) := k]\<rparr>)"
    by (simp add: put_key_Inr)
  have "nat (numkeys r + 1) = Suc (nat (numkeys r))" using n by simp
  then show "keys_of ((r\<lparr>gkeys := (gkeys r)[nat (numkeys r) := k]\<rparr>)\<lparr>numkeys := numkeys (r\<lparr>gkeys := (gkeys r)[nat (numkeys r) := k]\<rparr>) + 1\<rparr>) = keys_of r @ [k]"
    using n(3) by (simp add: keys_of_def take_Suc_conv_app_nth)
qed (use assms in \<open>auto simp: result_ok_def\<close>)

lemma range_keys_ok:
  assumes "result_ok r" "keys_at r \<noteq> KeysNull" "1 \<le> step" "lst < argc argv" "first \<le> i"
    "nat (lst - i + 1) \<le> fuel" "i \<le> lst \<Longrightarrow> numkeys r + (lst - i + 1) \<le> gsize r"
  shows "\<exists>r' ps. range_keys cmd fl argv first lst step fuel i r = Inr r' \<and> result_ok r' \<and> keys_at r' \<noteq> KeysNull
           \<and> keys_of r' = keys_of r @ map (\<lambda>p. key p fl) ps \<and> (\<forall>p \<in> set ps. first \<le> p \<and> p \<le> lst)
           \<and> (step = 1 \<longrightarrow> ps = [i..lst]) \<and> numkeys r' \<le> numkeys r + (if i \<le> lst then lst - i + 1 else 0)"
  using assms
proof (induction cmd fl argv first lst step fuel i r rule: range_keys.induct)
  case (1 cmd fl argv first lst step i r)
  then show ?case by (intro exI [of _ r] exI [of _ "[]"]) auto
next
  case (2 cmd fl argv first lst step fuel i r)
  show ?case
  proof (cases "i \<le> lst")
    case False
    with 2 show ?thesis by (intro exI [of _ r] exI [of _ "[]"]) auto
  next
    case True
    then have g: "numkeys r < gsize r" using "2.prems" by linarith
    obtain r1 where r1: "put_key (numkeys r) \<lparr>kpos = i, kflags = fl\<rparr> r = Inr r1" "result_ok (r1\<lparr>numkeys := numkeys r1 + 1\<rparr>)"
      "keys_at r1 \<noteq> KeysNull" "gsize r1 = gsize r" "numkeys r1 = numkeys r"
      "keys_of (r1\<lparr>numkeys := numkeys r1 + 1\<rparr>) = keys_of r @ [key i fl]"
      unfolding key_def using append_key [OF "2.prems"(1,2) g] by blast
    let ?r = "r1\<lparr>numkeys := numkeys r1 + 1\<rparr>"
    have in_args: "\<not> (argc argv \<le> i \<or> i < first)" using True "2.prems" by linarith
    have "\<exists>r' ps. range_keys cmd fl argv first lst step fuel (i + step) ?r = Inr r' \<and> result_ok r' \<and> keys_at r' \<noteq> KeysNull
           \<and> keys_of r' = keys_of ?r @ map (\<lambda>p. key p fl) ps \<and> (\<forall>p \<in> set ps. first \<le> p \<and> p \<le> lst)
           \<and> (step = 1 \<longrightarrow> ps = [i + step..lst]) \<and> numkeys r' \<le> numkeys ?r + (if i + step \<le> lst then lst - (i + step) + 1 else 0)"
      using True in_args r1 "2.prems" by (intro "2.IH"(2)) auto
    then obtain r' ps where r': "range_keys cmd fl argv first lst step fuel (i + step) ?r = Inr r'" "result_ok r'"
      "keys_at r' \<noteq> KeysNull" "keys_of r' = keys_of ?r @ map (\<lambda>p. key p fl) ps" "\<forall>p \<in> set ps. first \<le> p \<and> p \<le> lst"
      "step = 1 \<longrightarrow> ps = [i + step..lst]" "numkeys r' \<le> numkeys ?r + (if i + step \<le> lst then lst - (i + step) + 1 else 0)"
      by (elim exE conjE) (rule that)
    show ?thesis
    proof (intro exI conjI)
      show "range_keys cmd fl argv first lst step (Suc fuel) i r = Inr r'"
        using True in_args r1(1) r'(1) by simp
      show "keys_of r' = keys_of r @ map (\<lambda>p. key p fl) (i # ps)" using r'(4) r1(6) by simp
      show "numkeys r' \<le> numkeys r + (if i \<le> lst then lst - i + 1 else 0)"
        using r'(7) r1(5) True "2.prems"(3) by (simp split: if_splits)
      show "\<forall>p \<in> set (i # ps). first \<le> p \<and> p \<le> lst" using r'(5) True "2.prems"(5) by simp
      show "step = 1 \<longrightarrow> i # ps = [i..lst]" using r'(6) True by (simp add: upto_rec1)
    qed (use r' in simp_all)
  qed
qed

text \<open>
  The specifications of a command table are well formed: positions start after the name of the
  command, steps are positive, and the numbers are small.
\<close>

definition small :: "int \<Rightarrow> bool" where
  "small n = (\<bar>n\<bar> \<le> 2 ^ 20)"

definition spec_wf :: "keySpec \<Rightarrow> bool" where
  "spec_wf spec =
     ((case begin_search_of spec of
         KSPEC_BS_INVALID \<Rightarrow> False
       | KSPEC_BS_INDEX p \<Rightarrow> 1 \<le> p \<and> small p
       | KSPEC_BS_KEYWORD kw st \<Rightarrow> small st
       | KSPEC_BS_UNKNOWN \<Rightarrow> True)
      \<and> (case find_keys_of spec of
         KSPEC_FK_RANGE l st lm \<Rightarrow> 1 \<le> st \<and> small l \<and> 0 \<le> lm \<and> (lm \<noteq> 0 \<and> l < 0 \<longrightarrow> l = - 1)
       | KSPEC_FK_KEYNUM idx f st \<Rightarrow> 1 \<le> st \<and> 0 \<le> idx \<and> small idx \<and> 0 \<le> f \<and> small f
       | _ \<Rightarrow> True))"

definition by_count :: "keySpec \<Rightarrow> bool" where
  "by_count spec = (case find_keys_of spec of KSPEC_FK_KEYNUM _ _ _ \<Rightarrow> True | _ \<Rightarrow> False)"

text \<open>Only a specification that counts its keys can fault, on the count.\<close>

definition count_fault :: "keySpec list \<Rightarrow> 'a cres \<Rightarrow> bool" where
  "count_fault specs res = ((\<exists>spec \<in> set specs. by_count spec) \<and> (res = Inl OutOfBounds \<or> res = Inl IntOverflow))"

lemma keyword_search_ok:
  "\<exists>p. keyword_search kw argv up e i = Inr p \<and> (p = 0 \<or> 2 \<le> p \<and> p \<le> argc argv)"
proof (induction kw argv up e i rule: keyword_search.induct)
  case (1 kw argv up e i)
  show ?case
  proof (cases "i = e \<or> argc argv \<le> i \<or> i < 1")
    case True
    then show ?thesis by (subst keyword_search.simps) auto
  next
    case False
    then have a: "arg_at argv i = Inr (argv ! nat i)" by (simp add: arg_at_Inr)
    from "1.IH" [OF False a] a False show ?thesis
      by (subst keyword_search.simps) auto
  qed
qed

lemma spec_first_ok:
  assumes "spec_wf spec" "small (argc argv)"
  shows "spec_first spec argv = Inr None
    \<or> (\<exists>p. spec_first spec argv = Inr (Some p) \<and> small p \<and> (1 \<le> p \<or> by_keyword spec \<and> p = 0))"
proof (cases "begin_search_of spec")
  case (KSPEC_BS_KEYWORD kw st)
  then show ?thesis
    using assms keyword_search_ok [of kw argv] unfolding small_def spec_first_def by_keyword_def
    by (clarsimp simp: Let_def) (smt (verit) cbind_Inr)
qed (use assms in \<open>auto simp: spec_first_def spec_wf_def\<close>)

lemma arg_at_cases: "0 \<le> i \<Longrightarrow> arg_at argv i = Inl OutOfBounds \<or> (\<exists>a. arg_at argv i = Inr a)"
  by (auto simp: arg_at_def arr_get_def)

lemma c_int_cases: "c_int n = Inl IntOverflow \<or> c_int n = Inr n"
  by (simp add: c_int_def)

lemma sdiv_small: "small (n::int) \<Longrightarrow> 1 \<le> d \<Longrightarrow> small (n sdiv d)"
proof -
  assume n: "small n" and d: "1 \<le> d"
  have "\<bar>n\<bar> div d \<le> \<bar>n\<bar>" "0 \<le> \<bar>n\<bar> div d"
    using d div_by_1 [of "\<bar>n\<bar>"] zdiv_mono2 [of "\<bar>n\<bar>" 1 d] by (auto simp: pos_imp_zdiv_nonneg_iff)
  moreover have "\<bar>n sdiv d\<bar> \<le> \<bar>n\<bar> div d"
    using d calculation(2) by (cases n "0::int" rule: linorder_cases) (auto simp: signed_divide_int_def)
  ultimately show "small (n sdiv d)" using n unfolding small_def by linarith
qed

text \<open>Where a well-formed specification leads.\<close>

lemma spec_range_ok:
  assumes "spec_wf spec" "small (argc argv)" "small first" "1 \<le> first"
  shows "spec_range L spec argv first = Inr None
    \<or> (\<exists>f l st. spec_range L spec argv first = Inr (Some (f, l, st)) \<and> 1 \<le> f \<and> f \<le> 2 ^ 21 \<and> l \<le> INT_MAX \<and> 1 \<le> st
         \<and> (\<not> by_count spec \<longrightarrow> - (2 ^ 23) \<le> l \<and> l \<le> 2 ^ 23))
    \<or> by_count spec \<and> (spec_range L spec argv first = Inl OutOfBounds \<or> spec_range L spec argv first = Inl IntOverflow)"
proof (cases "find_keys_of spec")
  case (KSPEC_FK_RANGE l st lm)
  show ?thesis
  proof (cases "0 \<le> l")
    case True
    then show ?thesis using KSPEC_FK_RANGE assms
      by (auto simp: spec_range_def spec_wf_def by_count_def small_def int_limits)
  next
    case neg: False
    show ?thesis
    proof (cases "lm = 0")
      case True
      with neg show ?thesis using KSPEC_FK_RANGE assms
        by (auto simp: spec_range_def spec_wf_def by_count_def small_def int_limits)
    next
      case False
      with neg assms KSPEC_FK_RANGE have lm: "1 \<le> lm" "l = - 1" by (auto simp: spec_wf_def)
      have "small (argc argv - first)" using assms by (auto simp: small_def argc_def)
      then have "small ((argc argv - first) sdiv lm)" using lm by (intro sdiv_small)
      with neg lm show ?thesis using KSPEC_FK_RANGE assms
        by (auto simp: spec_range_def spec_wf_def by_count_def small_def int_limits)
    qed
  qed
next
  case (KSPEC_FK_KEYNUM idx f st)
  show ?thesis
  proof (cases "argc argv \<le> idx")
    case True
    then show ?thesis using KSPEC_FK_KEYNUM by (simp add: spec_range_def)
  next
    case False
    have idx: "0 \<le> first + idx" using assms KSPEC_FK_KEYNUM by (simp add: spec_wf_def)
    from arg_at_cases [OF idx, of argv] show ?thesis
    proof
      assume "arg_at argv (first + idx) = Inl OutOfBounds"
      with False show ?thesis using KSPEC_FK_KEYNUM by (simp add: spec_range_def by_count_def)
    next
      assume "\<exists>a. arg_at argv (first + idx) = Inr a"
      then obtain a where a: "arg_at argv (first + idx) = Inr a" ..
      show ?thesis
      proof (cases "string2ll L a")
        case None
        with a False show ?thesis using KSPEC_FK_KEYNUM by (simp add: spec_range_def)
      next
        case (Some n)
        show ?thesis
        proof (cases "n < 0")
          case True
          with a False Some show ?thesis using KSPEC_FK_KEYNUM by (simp add: spec_range_def)
        next
          case n: False
          let ?s = "first + f + to_int n"
          have b: "1 \<le> first + f" "first + f \<le> 2 ^ 21" "1 \<le> st"
            using assms KSPEC_FK_KEYNUM by (auto simp: spec_wf_def small_def)
          have r: "spec_range L spec argv first =
            cbind (c_int ?s) (\<lambda>s. cbind (c_int (s - 1)) (\<lambda>lst. Inr (Some (first + f, lst, st))))"
            using a False Some n KSPEC_FK_KEYNUM by (simp add: spec_range_def)
          have m: "?s \<le> INT_MAX \<Longrightarrow> ?s - 1 \<le> INT_MAX" by simp
          show ?thesis
            using b m KSPEC_FK_KEYNUM unfolding r by_count_def c_int_def by auto
        qed
      qed
    qed
  qed
qed (simp_all add: spec_range_def)

text \<open>The outcome of one specification: more keys, or a fault of its count.\<close>

definition extends :: "sds list \<Rightarrow> getKeysResult \<Rightarrow> getKeysResult \<Rightarrow> bool" where
  "extends argv r r' =
     (result_ok r' \<and> numkeys r' \<le> numkeys r + argc argv \<and> (\<exists>ks. keys_of r' = keys_of r @ ks \<and> positions_ok argv ks))"

lemma extends_refl: "result_ok r \<Longrightarrow> extends argv r r"
  by (auto simp: extends_def argc_def)

lemma place_keys_ok:
  assumes r: "result_ok r" "numkeys r \<le> 2 ^ 30" and f: "1 \<le> f" "f \<le> 2 ^ 21" and st: "1 \<le> st"
    and l: "\<not> by_count spec \<longrightarrow> - (2 ^ 23) \<le> l \<and> l \<le> 2 ^ 23"
  shows "(\<exists>v r'. place_keys cmd argv spec f l st r = Inr (v, r') \<and> extends argv r r')
    \<or> count_fault [spec] (place_keys cmd argv spec f l st r)"
proof (cases "c_int (l - f) = Inr (l - f) \<and> c_int (numkeys r + (l - f + 1)) = Inr (numkeys r + (l - f + 1))")
  case False
  have nk: "0 \<le> numkeys r" using r by (simp add: result_ok_def)
  have "\<not> (- (2 ^ 23) \<le> l \<and> l \<le> 2 ^ 23)"
    using False f nk r(2) by (auto simp: c_int_def int_limits)
  with l have "by_count spec" by blast
  moreover have "place_keys cmd argv spec f l st r = Inl IntOverflow"
    using False c_int_cases [of "l - f"] c_int_cases [of "numkeys r + (l - f + 1)"] by (auto simp: place_keys_def)
  ultimately show ?thesis by (simp add: count_fault_def)
next
  case True
  obtain r1 where r1: "getKeysPrepareResult r (numkeys r + (l - f + 1)) = Inr r1" "result_ok r1"
    "numkeys r + (l - f + 1) \<le> gsize r1" "numkeys r1 = numkeys r" "keys_of r1 = keys_of r" "keys_at r1 \<noteq> KeysNull"
    using r(1) by (rule prepare_ok)
  show ?thesis
  proof (cases "argc argv \<le> l \<or> l < f \<or> argc argv \<le> f")
    case out: True
    then show ?thesis using True r1 by (auto simp: place_keys_def extends_def argc_def)
  next
    case inside: False
    have "\<exists>r' ps. range_keys cmd (spec_flags spec) argv f l st (nat (l - f + 1)) f r1 = Inr r' \<and> result_ok r'
      \<and> keys_at r' \<noteq> KeysNull \<and> keys_of r' = keys_of r1 @ map (\<lambda>p. key p (spec_flags spec)) ps
      \<and> (\<forall>p \<in> set ps. f \<le> p \<and> p \<le> l) \<and> (st = 1 \<longrightarrow> ps = [f..l])
      \<and> numkeys r' \<le> numkeys r1 + (if f \<le> l then l - f + 1 else 0)"
      using r1 st inside by (intro range_keys_ok) auto
    then obtain r' ps where r': "range_keys cmd (spec_flags spec) argv f l st (nat (l - f + 1)) f r1 = Inr r'"
      "result_ok r'" "keys_of r' = keys_of r1 @ map (\<lambda>p. key p (spec_flags spec)) ps"
      "\<forall>p \<in> set ps. f \<le> p \<and> p \<le> l" "numkeys r' \<le> numkeys r1 + (if f \<le> l then l - f + 1 else 0)"
      by (elim exE conjE) (rule that)
    have "positions_ok argv (map (\<lambda>p. key p (spec_flags spec)) ps)"
      using r'(4) f inside by (auto simp: positions_ok_def)
    then have "extends argv r r'"
      using r' r1 f inside unfolding extends_def by auto
    then show ?thesis using True r1(1) inside r'(1) by (simp add: place_keys_def)
  qed
qed

lemma one_spec_ok:
  assumes wf: "spec_wf spec" and argc: "small (argc argv)" and r: "result_ok r" and n: "numkeys r \<le> 2 ^ 30"
  shows "(\<exists>v r'. one_spec L cmd argv fl spec r = Inr (v, r') \<and> extends argv r r') \<or> count_fault [spec] (one_spec L cmd argv fl spec r)"
proof -
  have bs: "begin_search_of spec \<noteq> KSPEC_BS_INVALID" using wf by (auto simp: spec_wf_def)
  note same = extends_refl [OF r, of argv]
  show ?thesis
  proof (cases "flag_set (spec_flags spec) CMD_KEY_NOT_KEY \<and> \<not> flag_set fl GET_KEYSPEC_INCLUDE_NOT_KEYS")
    case True
    then show ?thesis using bs same by (auto simp: one_spec_def)
  next
    case real: False
    show ?thesis
    proof (cases "spec_first spec argv = Inr None")
      case True
      then show ?thesis using real bs same by (auto simp: one_spec_def)
    next
      case False
      with spec_first_ok [OF wf argc] obtain p
        where p: "spec_first spec argv = Inr (Some p)" "small p" "1 \<le> p \<or> by_keyword spec \<and> p = 0" by blast
      show ?thesis
      proof (cases "by_keyword spec \<and> p = 0")
        case True
        then show ?thesis using real bs p same by (auto simp: one_spec_def)
      next
        case False
        with p have p1: "1 \<le> p" by blast
        have step: "one_spec L cmd argv fl spec r = cbind (spec_range L spec argv p) (\<lambda>sr.
             case sr of None \<Rightarrow> Inr (False, r) | Some (f, l, st) \<Rightarrow> place_keys cmd argv spec f l st r)"
          using bs p False by (simp add: one_spec_def if_not_P [OF real])
        from spec_range_ok [OF wf argc p(2) p1, of L] show ?thesis
        proof (elim disjE exE conjE)
          fix f l st
          assume s: "spec_range L spec argv p = Inr (Some (f, l, st))" "1 \<le> f" "f \<le> 2 ^ 21" "1 \<le> st"
            "\<not> by_count spec \<longrightarrow> - (2 ^ 23) \<le> l \<and> l \<le> 2 ^ 23"
          show ?thesis using place_keys_ok [OF r n s(2-5), of cmd argv] s(1) by (simp add: step)
        qed (use same in \<open>auto simp: step count_fault_def\<close>)
      qed
    qed
  qed
qed

lemma key_specs_loop_ok:
  assumes "\<forall>spec \<in> set specs. spec_wf spec" "small (argc argv)" "result_ok r"
    "numkeys r + int (length specs) * argc argv \<le> 2 ^ 30" "positions_ok argv (keys_of r)"
  shows "in_range argv (key_specs_loop L cmd argv fl specs r)
    \<or> (\<exists>r'. key_specs_loop L cmd argv fl specs r = Inr (- 1, r') \<and> result_ok r' \<and> numkeys r' = 0)
    \<or> count_fault specs (key_specs_loop L cmd argv fl specs r)"
  using assms
proof (induction specs arbitrary: r)
  case Nil
  then show ?case by (auto simp: in_range_def yields_def result_ok_def keys_of_def intro!: exI [of _ "keys_of r"])
next
  case (Cons spec specs)
  have a0: "0 \<le> argc argv" by (simp add: argc_def)
  then have a1: "0 \<le> int (length specs) * argc argv" by simp
  have split: "int (length (spec # specs)) * argc argv = argc argv + int (length specs) * argc argv"
    by (simp add: algebra_simps)
  with Cons.prems(4) a0 a1 have n: "numkeys r \<le> 2 ^ 30" by linarith
  have "spec_wf spec" using Cons.prems(1) by simp
  from one_spec_ok [OF this Cons.prems(2,3) n, of L cmd fl] show ?case
  proof (elim disjE exE conjE)
    assume "count_fault [spec] (one_spec L cmd argv fl spec r)"
    then show ?thesis by (auto simp: count_fault_def)
  next
    fix v r1 assume o: "one_spec L cmd argv fl spec r = Inr (v, r1)" and e: "extends argv r r1"
    show ?thesis
    proof (cases "v \<or> flag_set fl GET_KEYSPEC_RETURN_PARTIAL")
      case True
      have "in_range argv (key_specs_loop L cmd argv fl specs r1)
        \<or> (\<exists>r'. key_specs_loop L cmd argv fl specs r1 = Inr (- 1, r') \<and> result_ok r' \<and> numkeys r' = 0)
        \<or> count_fault specs (key_specs_loop L cmd argv fl specs r1)"
        using Cons.prems e split by (intro Cons.IH) (auto simp: extends_def)
      with True o show ?thesis by (auto simp: count_fault_def)
    next
      case False
      with o e show ?thesis by (auto simp: extends_def result_ok_def)
    qed
  qed
qed

text \<open>
  C25: Key specifications that are well formed (as those of the command table are), on fewer than a
  million arguments: the search returns -1 and no keys, or the number of keys stored, all of them at
  positions of arguments after the command name; it never panics, fails an assertion or leaves the
  array. Only a specification that counts its keys can fault: it reads the count past the arguments,
  or the count overflows.
\<close>

theorem getKeysUsingKeySpecs_sound:
  assumes "\<forall>spec \<in> set (key_specs cmd). spec_wf spec" "small (argc argv)" "length (key_specs cmd) \<le> 2 ^ 10"
    "result_ok r" "numkeys r = 0"
  shows "case getKeysUsingKeySpecs L cmd argv fl r of
      Inr (n, r') \<Rightarrow> result_ok r' \<and> (n = numkeys r' \<and> (\<forall>k \<in> set (keys_of r'). 1 \<le> kpos k \<and> kpos k < argc argv)
                                    \<or> n = - 1 \<and> numkeys r' = 0)
    | Inl e \<Rightarrow> (\<exists>spec \<in> set (key_specs cmd). by_count spec) \<and> (e = OutOfBounds \<or> e = IntOverflow)"
proof -
  have "int (length (key_specs cmd)) * argc argv \<le> 2 ^ 10 * 2 ^ 20"
    using assms(2,3) by (intro mult_mono) (auto simp: small_def argc_def)
  then have n: "numkeys r + int (length (key_specs cmd)) * argc argv \<le> 2 ^ 30" using assms(5) by simp
  have p: "positions_ok argv (keys_of r)" using assms(5) by (simp add: keys_of_def)
  have "getKeysUsingKeySpecs L cmd argv fl r = key_specs_loop L cmd argv fl (key_specs cmd) r"
    using assms(5) by (simp add: getKeysUsingKeySpecs_def)
  with key_specs_loop_ok [OF assms(1,2,4) n p, of L cmd fl] show ?thesis
    by (auto simp: in_range_def positions_ok_def count_fault_def dest!: yields_numkeys)
qed

text \<open>A command like EVAL: the count at position 2, the keys after it.\<close>

definition eval_spec :: keySpec where
  "eval_spec = \<lparr>spec_flags = CMD_KEY_RW OR CMD_KEY_ACCESS OR CMD_KEY_UPDATE,
     begin_search_of = KSPEC_BS_INDEX 2, find_keys_of = KSPEC_FK_KEYNUM 0 1 1\<rparr>"

definition eval_cmd :: redisCommand where
  "eval_cmd = \<lparr>cmd_proc = ''evalCommand'', cmd_flags = 0, arity = - 3, key_specs = [eval_spec],
     getkeys_proc = Some evalGetKeys,
     legacy_range_key_spec = \<lparr>spec_flags = 0, begin_search_of = KSPEC_BS_INVALID, find_keys_of = KSPEC_FK_INVALID\<rparr>\<rparr>"

definition eval_args :: "sds list" where
  "eval_args = map bytes_of [''EVAL'', ''return 1'', ''2'', ''a'', ''b'', ''x'']"

lemma eval_spec_wf: "spec_wf eval_spec" "small (argc eval_args)"
  by (simp_all add: spec_wf_def eval_spec_def small_def eval_args_def argc_def)

theorem getKeysUsingKeySpecs_sound_witness:
  "case getKeysUsingKeySpecs decimal_lib eval_cmd eval_args 0 GETKEYS_RESULT_INIT of
      Inr (n, r') \<Rightarrow> result_ok r' \<and> (n = numkeys r' \<and> (\<forall>k \<in> set (keys_of r'). 1 \<le> kpos k \<and> kpos k < argc eval_args)
                                    \<or> n = - 1 \<and> numkeys r' = 0)
    | Inl e \<Rightarrow> (\<exists>spec \<in> set (key_specs eval_cmd). by_count spec) \<and> (e = OutOfBounds \<or> e = IntOverflow)"
  by (rule getKeysUsingKeySpecs_sound) (simp_all add: eval_spec_wf eval_cmd_def GETKEYS_RESULT_INIT_def result_ok_def)

text \<open>The check of the count tests its distance from the first key, not its position.\<close>

lemma count_read_past_arguments:
  "getKeysUsingKeySpecs decimal_lib eval_cmd (take 2 eval_args) 0 GETKEYS_RESULT_INIT = Inl OutOfBounds"
  by code_simp

lemma count_overflows:
  assumes "3 \<le> argc argv" "string2ll L (argv ! 2) = Some INT_MAX"
  shows "getKeysUsingKeySpecs L eval_cmd argv 0 GETKEYS_RESULT_INIT = Inl IntOverflow"
proof -
  have "arg_at argv 2 = Inr (argv ! 2)" using assms(1) arg_at_Inr [of 2 argv] by simp
  moreover have "to_int INT_MAX = INT_MAX" by (simp add: to_int_id int_limits)
  ultimately have "spec_range L eval_spec argv 2 = Inl IntOverflow"
    using assms by (simp add: spec_range_def eval_spec_def c_int_def int_limits)
  then have "one_spec L eval_cmd argv 0 eval_spec GETKEYS_RESULT_INIT = Inl IntOverflow"
    by (simp add: one_spec_def spec_first_def eval_spec_def by_keyword_def flag_set_def CMD_KEY_NOT_KEY_def
      CMD_KEY_RW_def CMD_KEY_ACCESS_def CMD_KEY_UPDATE_def)
  then show ?thesis by (simp add: getKeysUsingKeySpecs_def eval_cmd_def GETKEYS_RESULT_INIT_def)
qed

subsection \<open>The routines agree with the specifications\<close>

lemma c_atoi_parsed: "dec_parse a = Some v \<Longrightarrow> 0 \<le> v \<Longrightarrow> c_atoi a = to_int v"
proof -
  assume a: "dec_parse a = Some v" and v: "0 \<le> v"
  from a have "a = dec_print v" "in_ll v"
    by (auto simp: dec_parse_def Let_def split: if_splits)
  with v show ?thesis
    by (simp add: c_atoi_def strtol_dec_print)
qed

text \<open>
  C19: For a command whose keys are counted (the count at position \<open>p\<close>, the keys after it, as EVAL,
  ZUNION or LMPOP): whenever the key specification finds keys, the native routine of the command
  returns the same positions. The converse fails, since the routine reads the count with \<open>atoi\<close>.
\<close>

theorem counted_routine_agrees:
  assumes specs: "key_specs cmd = [spec]" "begin_search_of spec = KSPEC_BS_INDEX p"
    "find_keys_of spec = KSPEC_FK_KEYNUM 0 1 1"
    and p: "1 \<le> p" "p < argc argv" "small (argc argv)" and r: "result_ok r" "numkeys r = 0"
    and found: "getKeysUsingKeySpecs decimal_lib cmd argv fl r = Inr (n, r1)" "0 < n"
  shows "\<exists>r2. genericGetKeys 0 p (p + 1) 1 argv r = Inr (n, r2) \<and> map kpos (keys_of r2) = map kpos (keys_of r1)"
proof -
  define a where "a = argv ! nat p"
  have a: "arg_at argv p = Inr a" using p by (simp add: arg_at_Inr a_def)
  obtain v r' where o: "one_spec decimal_lib cmd argv fl spec r = Inr (v, r')" "r1 = r'" "n = numkeys r'"
    using found r specs
    by (auto simp: getKeysUsingKeySpecs_def cbind_eq_Inr split: if_splits)
  have "numkeys r' \<noteq> numkeys r" using o found r by simp
  with o(1) obtain f l st where s: "spec_range decimal_lib spec argv p = Inr (Some (f, l, st))"
    "place_keys cmd argv spec f l st r = Inr (v, r')"
    using specs p
    by (auto simp: one_spec_def cbind_eq_Inr spec_first_def by_keyword_def split: if_splits option.splits)
  from s(1) obtain m where m: "dec_parse a = Some m" "0 \<le> m" "f = p + 1" "l = p + to_int m" "st = 1"
    using specs a
    by (auto simp: spec_range_def cbind_eq_Inr c_int_def decimal_lib_def split: if_splits option.splits)
  obtain r2 where r2: "getKeysPrepareResult r (numkeys r + (l - f + 1)) = Inr r2" "result_ok r2"
    "numkeys r + (l - f + 1) \<le> gsize r2" "numkeys r2 = numkeys r" "keys_of r2 = keys_of r" "keys_at r2 \<noteq> KeysNull"
    using r(1) by (rule prepare_ok)
  have inside: "\<not> (argc argv \<le> l \<or> l < f \<or> argc argv \<le> f)"
    and rk: "range_keys cmd (spec_flags spec) argv f l 1 (nat (l - f + 1)) f r2 = Inr r'"
    using s(2) r2 \<open>numkeys r' \<noteq> numkeys r\<close> m(5)
    by (auto simp: place_keys_def cbind_eq_Inr c_int_def split: if_splits)
  obtain ps where "keys_of r' = keys_of r2 @ map (\<lambda>p. key p (spec_flags spec)) ps" "ps = [f..l]" "result_ok r'"
    using range_keys_ok [of r2 1 l argv f f "nat (l - f + 1)" cmd "spec_flags spec"] r2 inside rk by auto
  then have pos: "map kpos (keys_of r1) = [p + 1..p + to_int m]"
    using r2 r o m by (simp add: keys_of_def comp_def)
  have num: "c_atoi (argv ! nat p) = to_int m" using m c_atoi_parsed by (simp add: a_def)
  have ck: "counted_keys 0 p (p + 1) argv = [p + 1..p + to_int m]"
    using inside m by (simp add: counted_keys_def num Let_def)
  have "length (keys_of r') = nat (numkeys r')"
    using \<open>result_ok r'\<close> by (auto simp: keys_of_def result_ok_def min_def nat_le_iff)
  with pos o found have "n = int (length [p + 1..p + to_int m])"
    by (metis length_map int_nat_eq less_imp_le)
  moreover obtain r3 where "genericGetKeys 0 p (p + 1) 1 argv r = Inr (int (length (counted_keys 0 p (p + 1) argv)), r3)"
    "keys_of r3 = map (\<lambda>p. key p 0) (counted_keys 0 p (p + 1) argv)"
    using genericGetKeys_yields [OF r(1), of p argv 0 "p + 1"] p by (auto simp: yields_def)
  ultimately show ?thesis using pos ck by (simp add: comp_def)
qed

theorem counted_routine_agrees_witness:
  "\<exists>r1. getKeysUsingKeySpecs decimal_lib eval_cmd eval_args 0 GETKEYS_RESULT_INIT = Inr (2, r1) \<and>
     (\<exists>r2. evalGetKeys eval_args GETKEYS_RESULT_INIT = Inr (2, r2) \<and> map kpos (keys_of r2) = map kpos (keys_of r1))"
proof -
  have "isl (getKeysUsingKeySpecs decimal_lib eval_cmd eval_args 0 GETKEYS_RESULT_INIT) = False
    \<and> fst (projr (getKeysUsingKeySpecs decimal_lib eval_cmd eval_args 0 GETKEYS_RESULT_INIT)) = 2"
    by code_simp
  then obtain r1 where r1: "getKeysUsingKeySpecs decimal_lib eval_cmd eval_args 0 GETKEYS_RESULT_INIT = Inr (2, r1)"
    by (cases "getKeysUsingKeySpecs decimal_lib eval_cmd eval_args 0 GETKEYS_RESULT_INIT") auto
  have "\<exists>r2. genericGetKeys 0 2 (2 + 1) 1 eval_args GETKEYS_RESULT_INIT = Inr (2, r2) \<and> map kpos (keys_of r2) = map kpos (keys_of r1)"
    by (rule counted_routine_agrees [where spec = eval_spec, OF _ _ _ _ _ _ _ _ r1])
      (simp_all add: eval_cmd_def eval_spec_def eval_spec_wf eval_args_def argc_def small_def GETKEYS_RESULT_INIT_def result_ok_def)
  with r1 show ?thesis by (simp add: evalGetKeys_def)
qed

subsection \<open>Channels\<close>

definition channel_commands :: "string list" where
  "channel_commands = map chan_proc commands_with_channels"

definition publish_commands :: "string list" where
  "publish_commands = [''publishCommand'', ''spublishCommand'']"

text \<open>The positions of the channels: the first argument of PUBLISH, every argument of the others.\<close>

definition channel_positions :: "string \<Rightarrow> sds list \<Rightarrow> int list" where
  "channel_positions p argv =
     (if p \<in> set publish_commands then [1..min 1 (argc argv - 1)] else [1..argc argv - 1])"

lemma channels_loop_found:
  assumes "result_ok r" "1 \<le> argc argv" "spec \<in> set specs" "chan_proc spec = p" "distinct (map chan_proc specs)"
    "chan_start spec = 1" "chan_count spec = - 1 \<or> chan_count spec = 1"
  shows "yields (channels_loop p argv specs r)
     (map (\<lambda>i. key i (chan_flags spec)) [1..if chan_count spec = 1 then min 1 (argc argv - 1) else argc argv - 1])"
  using assms
proof (induction specs)
  case (Cons s specs)
  show ?case
  proof (cases "s = spec")
    case False
    then have "chan_proc s \<noteq> p" using Cons.prems by auto
    with False Cons show ?thesis by auto
  next
    case True
    let ?stop = "if chan_count spec = 1 then min 2 (argc argv) else argc argv"
    let ?ks = "map (\<lambda>i. key i (chan_flags spec)) [1..?stop - 1]"
    have "yields (cbind (getKeysPrepareResult r (?stop - 1)) (\<lambda>r'. cbind (put_keys 0 ?ks r') (with_numkeys (int (length ?ks))))) ?ks"
      using Cons.prems(2) by (intro prepare_put_yields [OF Cons.prems(1)]) (auto simp: with_numkeys_yields)
    moreover have "?stop - 1 = (if chan_count spec = 1 then min 1 (argc argv - 1) else argc argv - 1)" by auto
    ultimately show ?thesis using True Cons.prems
      by (auto simp: Let_def min_def split: if_splits)
  qed
qed simp

lemma channels_loop_missing: "p \<notin> chan_proc ` set specs \<Longrightarrow> channels_loop p argv specs r = Inl OutOfBounds"
  by (induction specs) auto

lemma channel_flags_found:
  "distinct (map chan_proc specs) \<Longrightarrow> spec \<in> set specs \<Longrightarrow>
     channel_flags (chan_proc spec) fl specs = flag_set (chan_flags spec) fl"
  by (induction specs) (force simp: image_iff)+

lemma channel_table:
  "list_all (\<lambda>spec. chan_start spec = 1
     \<and> chan_count spec = (if chan_proc spec \<in> set publish_commands then 1 else - 1)) commands_with_channels"
  by code_simp

text \<open>
  For a command of the publish/subscribe table the positions of its channels are returned, with
  the flags of the table; for every other command without a module callback the search runs past the
  end of the table instead of returning no channels.
\<close>

theorem getChannelsFromCommand_correct:
  assumes "result_ok r" "1 \<le> argc argv" "\<not> flag_set (cmd_flags cmd) CMD_MODULE_GETCHANNELS"
  shows "if cmd_proc cmd \<in> set channel_commands
         then \<exists>r'. getChannelsFromCommand api cmd argv r = Inr (numkeys r', r')
                 \<and> map kpos (keys_of r') = channel_positions (cmd_proc cmd) argv
                 \<and> (\<forall>k \<in> set (keys_of r'). \<forall>fl. flag_set (kflags k) fl = doesCommandHaveChannelsWithFlags cmd fl)
         else getChannelsFromCommand api cmd argv r = Inl OutOfBounds"
proof (cases "cmd_proc cmd \<in> set channel_commands")
  case True
  obtain spec where s: "spec \<in> set commands_with_channels" "chan_proc spec = cmd_proc cmd"
    using True by (auto simp: channel_commands_def)
  with channel_table have c: "chan_start spec = 1"
    "chan_count spec = (if cmd_proc cmd \<in> set publish_commands then 1 else - 1)"
    by (auto simp: list_all_iff)
  have d: "distinct (map chan_proc commands_with_channels)" by (simp add: commands_with_channels_def chan_def)
  have "yields (channels_loop (cmd_proc cmd) argv commands_with_channels r)
      (map (\<lambda>i. key i (chan_flags spec)) (channel_positions (cmd_proc cmd) argv))"
    using channels_loop_found [OF assms(1,2) s(1,2) d c(1)] c(2) by (auto simp: channel_positions_def)
  from yields_numkeys [OF this] True assms(3) channel_flags_found [OF d s(1)] s(2) show ?thesis
    by (auto simp: getChannelsFromCommand_def doesCommandHaveChannelsWithFlags_def comp_def)
next
  case False
  with assms(3) show ?thesis
    by (simp add: getChannelsFromCommand_def channels_loop_missing channel_commands_def)
qed

theorem getChannelsFromCommand_correct_witness:
  "if cmd_proc eval_cmd \<in> set channel_commands
   then \<exists>r'. getChannelsFromCommand (\<lambda>_ _ r. Inr (0, r)) eval_cmd eval_args GETKEYS_RESULT_INIT = Inr (numkeys r', r')
           \<and> map kpos (keys_of r') = channel_positions (cmd_proc eval_cmd) eval_args
           \<and> (\<forall>k \<in> set (keys_of r'). \<forall>fl. flag_set (kflags k) fl = doesCommandHaveChannelsWithFlags eval_cmd fl)
   else getChannelsFromCommand (\<lambda>_ _ r. Inr (0, r)) eval_cmd eval_args GETKEYS_RESULT_INIT = Inl OutOfBounds"
  by (rule getChannelsFromCommand_correct)
    (simp_all add: eval_cmd_def eval_args_def argc_def flag_set_def CMD_MODULE_GETCHANNELS_def)

end
