(* ===== verification/Rdb_Format.thy ===== *)
theory Rdb_Format
  imports Objects
begin

section \<open>Lengths and integers of the RDB format (rdb.c)\<close>

text \<open>
  The bytes of lengths, integers and times. The stream (\<open>rio.c\<close>) is a parameter: a write either
  appends all its bytes or fails, a read returns the next bytes or fails; without a stream the savers
  only count (\<open>rdbSavedObjectLen\<close>). The constants of \<open>rdb.h\<close> are a record, with what the code relies
  on in the locale \<open>rdb_h_spec\<close>. A saver returns the number of bytes, -1 on failure; a loader returns
  \<open>None\<close> where the code returns -1 or NULL, also after \<open>rdbReportCorruptRDB\<close>, which logs and, outside
  RESTORE, may end the process.
\<close>

subsection \<open>Streams\<close>

type_synonym 'r writer = "sds \<Rightarrow> 'r \<Rightarrow> bool \<times> 'r"
type_synonym 'r reader = "nat \<Rightarrow> 'r \<Rightarrow> sds option \<times> 'r"
type_synonym 'r saver = "'r option \<Rightarrow> int \<times> 'r option"
type_synonym ('r, 'a) loader = "'r \<Rightarrow> 'a option \<times> 'r"

definition lbind :: "('r, 'a) loader \<Rightarrow> ('a \<Rightarrow> ('r, 'b) loader) \<Rightarrow> ('r, 'b) loader" where
  "lbind m f r = (case m r of (None, r') \<Rightarrow> (None, r') | (Some x, r') \<Rightarrow> f x r')"

definition lret :: "'a \<Rightarrow> ('r, 'a) loader" where
  "lret x r = (Some x, r)"

definition lfail :: "('r, 'a) loader" where
  "lfail r = (None, r)"

text \<open>\<open>if ((n = a) == -1) return -1; nwritten += n; ...\<close>\<close>

definition then_save :: "'r saver \<Rightarrow> 'r saver \<Rightarrow> 'r saver" where
  "then_save a b rdb =
     (let (n, rdb1) = a rdb in
      if n = - 1 then (- 1, rdb1)
      else let (m, rdb2) = b rdb1 in if m = - 1 then (- 1, rdb2) else (n + m, rdb2))"

fun save_all :: "'r saver list \<Rightarrow> 'r saver" where
  "save_all [] = (\<lambda>rdb. (0, rdb))"
| "save_all (a # as) = then_save a (save_all as)"

definition rdbWriteRaw :: "'r writer \<Rightarrow> sds \<Rightarrow> 'r saver" where
  "rdbWriteRaw wr bs rdb =
     (case rdb of
        None \<Rightarrow> (int (length bs), None)
      | Some r \<Rightarrow> let (ok, r') = wr bs r in (if ok then int (length bs) else - 1, Some r'))"

text \<open>What the code relies on.\<close>

locale rio_spec =
  fixes wr :: "'r writer" and rd :: "'r reader" and written :: "'r \<Rightarrow> sds" and unread :: "'r \<Rightarrow> sds"
  assumes write_appends: "wr bs r = (True, r') \<Longrightarrow> written r' = written r @ bs"
    and read_next: "n \<le> length (unread r) \<Longrightarrow>
      fst (rd n r) = Some (take n (unread r)) \<and> unread (snd (rd n r)) = drop n (unread r)"
    and read_length: "fst (rd n r) = Some bs \<Longrightarrow> length bs = n"
begin

text \<open>A saver that writes exactly \<open>bs\<close> unless a write fails.\<close>

definition reliable :: bool where
  "reliable = (\<forall>bs r. fst (wr bs r))"

definition saves :: "'r saver \<Rightarrow> sds \<Rightarrow> bool" where
  "saves a bs \<longleftrightarrow> a None = (int (length bs), None)
     \<and> (\<forall>r. \<exists>r'. \<not> reliable \<and> a (Some r) = (- 1, Some r') \<or> a (Some r) = (int (length bs), Some r') \<and> written r' = written r @ bs)"

lemma saves_raw: "saves (rdbWriteRaw wr bs) bs"
  unfolding saves_def
proof (intro conjI allI)
  fix r
  show "\<exists>r'. \<not> reliable \<and> rdbWriteRaw wr bs (Some r) = (- 1, Some r')
      \<or> rdbWriteRaw wr bs (Some r) = (int (length bs), Some r') \<and> written r' = written r @ bs"
  proof (cases "wr bs r")
    case (Pair ok r')
    have "\<not> reliable" if "\<not> ok" using that Pair unfolding reliable_def by (metis fst_conv)
    with Pair write_appends show ?thesis by (cases ok) (auto simp: rdbWriteRaw_def)
  qed
qed (simp add: rdbWriteRaw_def)

lemma saves_then:
  assumes "saves a bs" "saves b cs"
  shows "saves (then_save a b) (bs @ cs)"
  unfolding saves_def
proof (intro conjI allI)
  fix r
  obtain r1 where a: "\<not> reliable \<and> a (Some r) = (- 1, Some r1) \<or> a (Some r) = (int (length bs), Some r1) \<and> written r1 = written r @ bs"
    using assms(1) unfolding saves_def by blast
  obtain r2 where b: "\<not> reliable \<and> b (Some r1) = (- 1, Some r2) \<or> b (Some r1) = (int (length cs), Some r2) \<and> written r2 = written r1 @ cs"
    using assms(2) unfolding saves_def by blast
  from a b show "\<exists>r'. \<not> reliable \<and> then_save a b (Some r) = (- 1, Some r')
      \<or> then_save a b (Some r) = (int (length (bs @ cs)), Some r') \<and> written r' = written r @ bs @ cs"
    by (elim disjE conjE) (simp_all add: then_save_def)
qed (use assms in \<open>simp add: saves_def then_save_def\<close>)

lemma saves_nil: "saves (save_all []) []"
  by (simp add: saves_def)

lemma saves_cons: "saves a bs \<Longrightarrow> saves (save_all as) cs \<Longrightarrow> saves (save_all (a # as)) (bs @ cs)"
  using saves_then [of a bs "save_all as" cs] by simp

lemma saves_all: "list_all2 saves as bss \<Longrightarrow> saves (save_all as) (concat bss)"
proof (induction rule: list_all2_induct)
  case (Cons a as bs bss)
  show ?case using saves_cons [OF Cons(1,3)] by simp
qed (use saves_nil in simp)

text \<open>A loader that finds \<open>bs\<close> next in the stream consumes it and returns \<open>x\<close>.\<close>

definition loads :: "('r, 'a) loader \<Rightarrow> sds \<Rightarrow> 'a \<Rightarrow> bool" where
  "loads m bs x \<longleftrightarrow> (\<forall>r rest. unread r = bs @ rest \<longrightarrow> fst (m r) = Some x \<and> unread (snd (m r)) = rest)"

lemma loads_read: "length bs = n \<Longrightarrow> loads (rd n) bs bs"
  using read_next [of n] by (auto simp: loads_def)

lemma loads_bind: "loads m bs x \<Longrightarrow> loads (f x) cs y \<Longrightarrow> loads (lbind m f) (bs @ cs) y"
  unfolding loads_def lbind_def by (auto split: prod.splits option.splits) (metis fst_conv snd_conv option.inject option.distinct(1))+

lemma loads_ret: "loads (lret x) [] x"
  by (simp add: loads_def lret_def)

lemma loads_bind_ret: "loads m bs x \<Longrightarrow> f x = lret y \<Longrightarrow> loads (lbind m f) bs y"
  using loads_bind [of m bs x f "[]" y] loads_ret [of y] by simp

end

text \<open>A stream over a buffer that takes so many bytes and then fails.\<close>

record buffer =
  wbuf :: sds
  rbuf :: sds
  capacity :: nat

definition buf_write :: "buffer writer" where
  "buf_write bs b =
     (if length (wbuf b) + length bs \<le> capacity b then (True, b\<lparr>wbuf := wbuf b @ bs\<rparr>) else (False, b))"

definition buf_read :: "buffer reader" where
  "buf_read n b = (if n \<le> length (rbuf b) then (Some (take n (rbuf b)), b\<lparr>rbuf := drop n (rbuf b)\<rparr>) else (None, b))"

interpretation buf: rio_spec buf_write buf_read wbuf rbuf
  by unfold_locales (auto simp: buf_write_def buf_read_def split: if_splits)

definition rdb_bytes :: "buffer saver \<Rightarrow> sds option" where
  "rdb_bytes a = (case a (Some \<lparr>wbuf = [], rbuf = [], capacity = 1000\<rparr>) of
     (n, Some b) \<Rightarrow> if n = - 1 then None else Some (wbuf b) | (n, None) \<Rightarrow> None)"

subsection \<open>Bytes of a word\<close>

text \<open>\<open>n\<close> low bytes, most significant first (\<open>htonl\<close>, \<open>htonu64\<close>) and least significant first.\<close>

definition be_bytes :: "nat \<Rightarrow> u64 \<Rightarrow> sds" where
  "be_bytes n w = map (\<lambda>i. ucast (drop_bit (8 * i) w)) (rev [0..<n])"

definition of_be :: "sds \<Rightarrow> u64" where
  "of_be bs = foldl (\<lambda>a b. push_bit 8 a OR ucast b) 0 bs"

definition le_bytes :: "nat \<Rightarrow> u64 \<Rightarrow> sds" where
  "le_bytes n w = rev (be_bytes n w)"

definition of_le :: "sds \<Rightarrow> u64" where
  "of_le bs = of_be (rev bs)"

lemma length_be_bytes [simp]: "length (be_bytes n w) = n"
  by (simp add: be_bytes_def)

lemma length_le_bytes [simp]: "length (le_bytes n w) = n"
  by (simp add: le_bytes_def)

lemma be_bytes_Suc: "be_bytes (Suc n) w = ucast (drop_bit (8 * n) w) # be_bytes n w"
  by (simp add: be_bytes_def)

lemma foldl_be: "foldl (\<lambda>a b. push_bit 8 a OR ucast b) a (be_bytes n w) = push_bit (8 * n) a OR take_bit (8 * n) (w :: u64)"
proof (induction n arbitrary: a)
  case 0
  then show ?case by (simp add: be_bytes_def)
next
  case (Suc n)
  have "push_bit (8 * n) (push_bit 8 a OR ucast (ucast (drop_bit (8 * n) w) :: u8)) OR take_bit (8 * n) w
      = push_bit (8 * n + 8) a OR take_bit (8 * n + 8) w"
    by (rule bit_word_eqI) (auto simp: bit_simps not_le not_less)
  then show ?case by (simp add: be_bytes_Suc Suc add.commute)
qed

lemma of_be_bytes: "of_be (be_bytes n w) = take_bit (8 * n) w"
  by (simp add: of_be_def foldl_be)

lemma of_le_bytes: "of_le (le_bytes n w) = take_bit (8 * n) w"
  by (simp add: of_le_def le_bytes_def of_be_bytes)

subsection \<open>Constants\<close>

record rdb_h =
  RDB_6BITLEN :: u8
  RDB_14BITLEN :: u8
  RDB_32BITLEN :: u8
  RDB_64BITLEN :: u8
  RDB_ENCVAL :: u8
  RDB_LENERR :: u64
  RDB_ENC_INT8 :: u8
  RDB_ENC_INT16 :: u8
  RDB_ENC_INT32 :: u8
  RDB_ENC_LZF :: u8

text \<open>The first two bits of a length select its form; the special encodings fit in the other six.\<close>

locale rdb_h_spec =
  fixes h :: "rdb_h"
  assumes tags: "RDB_6BITLEN h < 4" "RDB_14BITLEN h < 4" "RDB_ENCVAL h < 4"
      "distinct [RDB_6BITLEN h, RDB_14BITLEN h, RDB_ENCVAL h]"
    and long_tags: "drop_bit 6 (RDB_32BITLEN h) \<notin> {RDB_6BITLEN h, RDB_14BITLEN h, RDB_ENCVAL h}"
      "drop_bit 6 (RDB_64BITLEN h) \<notin> {RDB_6BITLEN h, RDB_14BITLEN h, RDB_ENCVAL h}"
      "RDB_32BITLEN h \<noteq> RDB_64BITLEN h"
    and encodings: "distinct [RDB_ENC_INT8 h, RDB_ENC_INT16 h, RDB_ENC_INT32 h, RDB_ENC_LZF h]"
      "RDB_ENC_INT8 h < 64" "RDB_ENC_INT16 h < 64" "RDB_ENC_INT32 h < 64" "RDB_ENC_LZF h < 64"
    and lenerr: "RDB_LENERR h = - 1"

text \<open>The published format.\<close>

definition rdb_format :: rdb_h where
  "rdb_format = \<lparr>RDB_6BITLEN = 0, RDB_14BITLEN = 1, RDB_32BITLEN = 128, RDB_64BITLEN = 129, RDB_ENCVAL = 3,
     RDB_LENERR = - 1, RDB_ENC_INT8 = 0, RDB_ENC_INT16 = 1, RDB_ENC_INT32 = 2, RDB_ENC_LZF = 3\<rparr>"

interpretation published: rdb_h_spec rdb_format
  by unfold_locales (simp_all add: rdb_format_def)

subsection \<open>Types and times\<close>

definition rdbSaveType :: "'r writer \<Rightarrow> u8 \<Rightarrow> 'r saver" where
  "rdbSaveType wr type = rdbWriteRaw wr [type]"

definition rdbLoadType :: "'r reader \<Rightarrow> ('r, u8) loader" where
  "rdbLoadType rd = lbind (rd 1) (\<lambda>buf. lret (hd buf))"

text \<open>The machine is little endian, so \<open>memrev64ifbe\<close> does nothing.\<close>

definition rdbLoadTime :: "'r reader \<Rightarrow> ('r, int) loader" where
  "rdbLoadTime rd = lbind (rd 4) (\<lambda>buf. lret (sint (ucast (of_le buf) :: u32)))"

definition rdbSaveMillisecondTime :: "'r writer \<Rightarrow> int \<Rightarrow> 'r saver" where
  "rdbSaveMillisecondTime wr t = rdbWriteRaw wr (le_bytes 8 (word_of_int t))"

definition rdbLoadMillisecondTime :: "'r reader \<Rightarrow> ('r, int) loader" where
  "rdbLoadMillisecondTime rd = lbind (rd 8) (\<lambda>buf. lret (sint (of_le buf)))"

subsection \<open>Lengths\<close>

definition rdbSaveLen :: "rdb_h \<Rightarrow> 'r writer \<Rightarrow> u64 \<Rightarrow> 'r saver" where
  "rdbSaveLen h wr len =
     (if len < 2 ^ 6 then rdbWriteRaw wr [ucast (len AND 0xFF) OR push_bit 6 (RDB_6BITLEN h)]
      else if len < 2 ^ 14
      then rdbWriteRaw wr [ucast (drop_bit 8 len AND 0xFF) OR push_bit 6 (RDB_14BITLEN h), ucast (len AND 0xFF)]
      else if len \<le> 0xFFFFFFFF
      then save_all [rdbWriteRaw wr [RDB_32BITLEN h], rdbWriteRaw wr (be_bytes 4 len)]
      else save_all [rdbWriteRaw wr [RDB_64BITLEN h], rdbWriteRaw wr (be_bytes 8 len)])"

text \<open>The first component is \<open>isencoded\<close>.\<close>

definition rdbLoadLenByRef :: "rdb_h \<Rightarrow> 'r reader \<Rightarrow> ('r, bool \<times> u64) loader" where
  "rdbLoadLenByRef h rd =
     lbind (rd 1) (\<lambda>buf.
     let b0 = hd buf; type = drop_bit 6 (b0 AND 0xC0) in
     if type = RDB_ENCVAL h then lret (True, ucast (b0 AND 0x3F))
     else if type = RDB_6BITLEN h then lret (False, ucast (b0 AND 0x3F))
     else if type = RDB_14BITLEN h
     then lbind (rd 1) (\<lambda>buf1. lret (False, push_bit 8 (ucast (b0 AND 0x3F)) OR ucast (hd buf1)))
     else if b0 = RDB_32BITLEN h then lbind (rd 4) (\<lambda>bs. lret (False, of_be bs))
     else if b0 = RDB_64BITLEN h then lbind (rd 8) (\<lambda>bs. lret (False, of_be bs))
     else lfail)"

definition rdbLoadLen :: "rdb_h \<Rightarrow> 'r reader \<Rightarrow> 'r \<Rightarrow> (bool \<times> u64) \<times> 'r" where
  "rdbLoadLen h rd r =
     (case rdbLoadLenByRef h rd r of
        (None, r') \<Rightarrow> ((False, RDB_LENERR h), r')
      | (Some x, r') \<Rightarrow> (x, r'))"

text \<open>\<open>if ((len = rdbLoadLen(rdb,&isencoded)) == RDB_LENERR) return NULL;\<close>\<close>

definition load_len :: "rdb_h \<Rightarrow> 'r reader \<Rightarrow> ('r, bool \<times> u64) loader" where
  "load_len h rd r =
     (let ((isencoded, len), r') = rdbLoadLen h rd r
      in if len = RDB_LENERR h then (None, r') else (Some (isencoded, len), r'))"

subsection \<open>Integers\<close>

text \<open>\<open>None\<close> is the return value 0.\<close>

definition rdbEncodeInteger :: "rdb_h \<Rightarrow> int \<Rightarrow> sds option" where
  "rdbEncodeInteger h value =
     (if - (2 ^ 7) \<le> value \<and> value \<le> 2 ^ 7 - 1
      then Some [push_bit 6 (RDB_ENCVAL h) OR RDB_ENC_INT8 h, word_of_int (value AND 0xFF)]
      else if - (2 ^ 15) \<le> value \<and> value \<le> 2 ^ 15 - 1
      then Some [push_bit 6 (RDB_ENCVAL h) OR RDB_ENC_INT16 h, word_of_int (value AND 0xFF),
                 word_of_int (drop_bit 8 value AND 0xFF)]
      else if - (2 ^ 31) \<le> value \<and> value \<le> 2 ^ 31 - 1
      then Some [push_bit 6 (RDB_ENCVAL h) OR RDB_ENC_INT32 h, word_of_int (value AND 0xFF),
                 word_of_int (drop_bit 8 value AND 0xFF), word_of_int (drop_bit 16 value AND 0xFF),
                 word_of_int (drop_bit 24 value AND 0xFF)]
      else None)"

definition rdbTryIntegerEncoding :: "rdb_h \<Rightarrow> strlib \<Rightarrow> sds \<Rightarrow> sds option" where
  "rdbTryIntegerEncoding h L s =
     (case string2ll L s of Some value \<Rightarrow> rdbEncodeInteger h value | None \<Rightarrow> None)"

text \<open>The value part of \<open>rdbLoadIntegerObject\<close>.\<close>

definition load_integer :: "rdb_h \<Rightarrow> 'r reader \<Rightarrow> u64 \<Rightarrow> ('r, int) loader" where
  "load_integer h rd enctype =
     (if enctype = ucast (RDB_ENC_INT8 h) then lbind (rd 1) (\<lambda>enc. lret (sint (enc ! 0)))
      else if enctype = ucast (RDB_ENC_INT16 h)
      then lbind (rd 2) (\<lambda>enc.
           lret (sint (ucast (ucast (enc ! 0) OR push_bit 8 (ucast (enc ! 1)) :: u32) :: u16)))
      else if enctype = ucast (RDB_ENC_INT32 h)
      then lbind (rd 4) (\<lambda>enc.
           lret (sint (ucast (enc ! 0) OR push_bit 8 (ucast (enc ! 1)) OR push_bit 16 (ucast (enc ! 2))
                       OR push_bit 24 (ucast (enc ! 3)) :: u32)))
      else lfail)"

subsection \<open>Words and tags\<close>

lemma small_bits:
  assumes "(x :: 'a::len word) < 2 ^ n" "n < LENGTH('a)" "n \<le> i"
  shows "\<not> bit x i"
proof
  assume b: "bit x i"
  then have i: "i < LENGTH('a)" by (rule bit_imp_le_length)
  have "unat (2 ^ n :: 'a word) = 2 ^ n"
    using assms(2) by (metis of_nat_numeral of_nat_power unat_of_nat mod_less power_strict_increasing one_less_numeral_iff semiring_norm(76))
  then have "unat x < 2 ^ n" using assms(1) by (simp add: word_less_nat_alt)
  also have "\<dots> \<le> 2 ^ i" using assms(3) by (simp add: power_increasing)
  finally have "unat x div 2 ^ i = 0" by simp
  then have "\<not> bit (unat x) i" by (simp add: bit_iff_odd)
  with b i show False by (simp add: bit_unsigned_iff)
qed

lemma tag_of:
  assumes "x < (64 :: u8)" "t < (4 :: u8)"
  shows "drop_bit 6 ((x OR push_bit 6 t) AND 0xC0) = t" "(x OR push_bit 6 t) AND 0x3F = x"
proof -
  have x: "\<not> bit x i" if "6 \<le> i" for i using small_bits [of x 6 i] assms that by simp
  have t: "\<not> bit t i" if "2 \<le> i" for i using small_bits [of t 2 i] assms that by simp
  have m: "(0xC0 :: u8) = NOT (mask 6)" "(0x3F :: u8) = mask 6" by (simp_all add: mask_eq_exp_minus_1)
  show "drop_bit 6 ((x OR push_bit 6 t) AND 0xC0) = t"
    unfolding m by (rule bit_word_eqI) (use x t not_le in \<open>auto simp: bit_simps\<close>)
  show "(x OR push_bit 6 t) AND 0x3F = x"
    unfolding m by (rule bit_word_eqI) (use x not_le in \<open>auto simp: bit_simps\<close>)
qed

lemma high_bits: "drop_bit 6 (x AND (0xC0 :: u8)) = drop_bit 6 x"
proof -
  have m: "(0xC0 :: u8) = NOT (mask 6)" by (simp add: mask_eq_exp_minus_1)
  show ?thesis unfolding m by (rule bit_word_eqI) (auto simp: bit_simps dest: bit_imp_le_length)
qed

subsection \<open>What is written reads back\<close>

definition len_bytes :: "rdb_h \<Rightarrow> u64 \<Rightarrow> sds" where
  "len_bytes h len =
     (if len < 2 ^ 6 then [ucast (len AND 0xFF) OR push_bit 6 (RDB_6BITLEN h)]
      else if len < 2 ^ 14
      then [ucast (drop_bit 8 len AND 0xFF) OR push_bit 6 (RDB_14BITLEN h), ucast (len AND 0xFF)]
      else if len \<le> 0xFFFFFFFF then RDB_32BITLEN h # be_bytes 4 len
      else RDB_64BITLEN h # be_bytes 8 len)"

lemma low_byte: "ucast (w AND 0xFF :: u64) = (ucast w :: u8)"
proof -
  have m: "(0xFF :: u64) = mask 8" by (simp add: mask_eq_exp_minus_1)
  show ?thesis unfolding m by (rule bit_word_eqI) (auto simp: bit_simps)
qed

lemma unat_low_byte: "unat (ucast (w :: u64) :: u8) = unat w mod 256"
  by (simp add: unsigned_ucast_eq unsigned_take_bit_eq take_bit_eq_mod)

lemma low_byte_below: "(w :: u64) < 64 \<Longrightarrow> (ucast w :: u8) < 64"
  by (simp add: word_less_nat_alt unat_low_byte)

lemma high_byte_below: "(w :: u64) < 0x4000 \<Longrightarrow> (ucast (drop_bit 8 w) :: u8) < 64"
  by (simp add: word_less_nat_alt unat_low_byte drop_bit_eq_div unat_div)

lemma ucast_low_byte: "(w :: u64) < 64 \<Longrightarrow> ucast (ucast w :: u8) = w"
proof -
  assume w: "w < 64"
  have b: "i < 6" if "bit w i" for i using small_bits [of w 6 i] w that not_le by auto
  show ?thesis by (rule bit_word_eqI) (auto simp: bit_simps dest: b)
qed

lemma join_bytes: "(w :: u64) < 0x4000 \<Longrightarrow> push_bit 8 (ucast (ucast (drop_bit 8 w) :: u8)) OR ucast (ucast w :: u8) = w"
proof -
  assume w: "w < 0x4000"
  have b: "i < 14" if "bit w i" for i using small_bits [of w 14 i] w that not_le by auto
  show ?thesis by (rule bit_word_eqI) (auto simp: bit_simps not_less dest: b)
qed

lemma take_bit_32: "(w :: u64) \<le> 0xFFFFFFFF \<Longrightarrow> take_bit 32 w = w"
proof -
  assume w: "w \<le> 0xFFFFFFFF"
  then have "w < 2 ^ 32" by (simp add: word_less_nat_alt word_le_nat_alt)
  then have b: "i < 32" if "bit w i" for i using small_bits [of w 32 i] that not_le by auto
  show ?thesis by (rule bit_word_eqI) (auto simp: bit_simps dest: b)
qed

lemma sint_of_int8: "- (2 ^ 7) \<le> v \<Longrightarrow> v \<le> 2 ^ 7 - 1 \<Longrightarrow> sint (word_of_int (v AND 0xFF) :: u8) = v"
proof -
  assume v: "- (2 ^ 7) \<le> v" "v \<le> 2 ^ 7 - 1"
  have m: "(0xFF :: int) = mask 8" by (simp add: mask_eq_exp_minus_1)
  have "(word_of_int (v AND 0xFF) :: u8) = word_of_int v"
    unfolding m by (rule bit_word_eqI) (auto simp: bit_simps)
  with v show ?thesis by (simp add: signed_of_int signed_take_bit_int_eq_self_iff)
qed

lemma join16: "(ucast (ucast (word_of_int (v AND 0xFF) :: u8) OR
      push_bit 8 (ucast (word_of_int (drop_bit 8 v AND 0xFF) :: u8)) :: u32) :: u16) = word_of_int v"
proof -
  have m: "(0xFF :: int) = mask 8" by (simp add: mask_eq_exp_minus_1)
  show ?thesis unfolding m by (rule bit_word_eqI) (auto simp: bit_simps not_less)
qed

lemma join32: "(ucast (word_of_int (v AND 0xFF) :: u8) OR
      push_bit 8 (ucast (word_of_int (drop_bit 8 v AND 0xFF) :: u8)) OR
      push_bit 16 (ucast (word_of_int (drop_bit 16 v AND 0xFF) :: u8)) OR
      push_bit 24 (ucast (word_of_int (drop_bit 24 v AND 0xFF) :: u8)) :: u32) = word_of_int v"
proof -
  have m: "(0xFF :: int) = mask 8" by (simp add: mask_eq_exp_minus_1)
  show ?thesis unfolding m
  proof (rule bit_word_eqI)
    fix n assume "n < LENGTH(32)"
    then consider "n < 8" | "8 \<le> n" "n < 16" | "16 \<le> n" "n < 24" | "24 \<le> n" "n < 32" by fastforce
    then show "bit (ucast (word_of_int (v AND mask 8) :: u8) OR
      push_bit 8 (ucast (word_of_int (drop_bit 8 v AND mask 8) :: u8)) OR
      push_bit 16 (ucast (word_of_int (drop_bit 16 v AND mask 8) :: u8)) OR
      push_bit 24 (ucast (word_of_int (drop_bit 24 v AND mask 8) :: u8)) :: u32) n = bit (word_of_int v :: u32) n"
      by cases (auto simp: bit_simps not_less less_diff_conv2)
  qed
qed

lemma tag_drop: "x < (64 :: u8) \<Longrightarrow> t < (4 :: u8) \<Longrightarrow> drop_bit 6 (x OR push_bit 6 t) = t"
  using tag_of(1) [of x t] by (simp only: high_bits)

locale rdb_stream = rio_spec wr rd written unread + rdb_h_spec h
  for wr :: "'r writer" and rd :: "'r reader" and written unread :: "'r \<Rightarrow> sds" and h :: "rdb_h"
begin

lemma saves_type: "saves (rdbSaveType wr t) [t]"
  unfolding rdbSaveType_def by (rule saves_raw)

lemma loads_type: "loads (rdbLoadType rd) [t] t"
  unfolding rdbLoadType_def by (rule loads_bind_ret [OF loads_read]) simp_all

lemma saves_ms: "saves (rdbSaveMillisecondTime wr t) (le_bytes 8 (word_of_int t))"
  unfolding rdbSaveMillisecondTime_def by (rule saves_raw)

lemma loads_ms: "in_ll t \<Longrightarrow> loads (rdbLoadMillisecondTime rd) (le_bytes 8 (word_of_int t)) t"
  unfolding rdbLoadMillisecondTime_def
  by (rule loads_bind_ret [OF loads_read])
    (simp_all add: of_le_bytes take_bit_word_eq_self signed_of_int signed_take_bit_int_eq_self in_ll_def int_limits)

lemma saves_len: "saves (rdbSaveLen h wr len) (len_bytes h len)"
proof -
  have two: "saves (save_all [rdbWriteRaw wr bs, rdbWriteRaw wr cs]) (bs @ cs)" for bs cs
    using saves_all [of "[rdbWriteRaw wr bs, rdbWriteRaw wr cs]" "[bs, cs]"] saves_raw by simp
  show ?thesis
    using two [of "[RDB_32BITLEN h]" "be_bytes 4 len"] two [of "[RDB_64BITLEN h]" "be_bytes 8 len"]
    by (auto simp: rdbSaveLen_def len_bytes_def saves_raw)
qed

lemma tag_distinct:
  "RDB_6BITLEN h \<noteq> RDB_14BITLEN h" "RDB_6BITLEN h \<noteq> RDB_ENCVAL h" "RDB_14BITLEN h \<noteq> RDB_ENCVAL h"
  "RDB_64BITLEN h \<noteq> RDB_32BITLEN h"
  using tags long_tags by auto

lemma loads_len_by_ref: "loads (rdbLoadLenByRef h rd) (len_bytes h len) (False, len)"
proof -
  note one = loads_bind [OF loads_read [of "[_]" 1]]
  consider "len < 64" | "\<not> len < 64" "len < 0x4000" | "\<not> len < 0x4000" "len \<le> 0xFFFFFFFF" | "\<not> len \<le> 0xFFFFFFFF"
    by (cases "len < 64"; cases "len < 0x4000"; cases "len \<le> 0xFFFFFFFF") auto
  then show ?thesis
  proof cases
    case 1
    then show ?thesis
      using tag_drop [OF low_byte_below tags(1), of len] tag_of(2) [OF low_byte_below tags(1), of len] tag_distinct
      unfolding rdbLoadLenByRef_def len_bytes_def high_bits
      by (intro loads_bind_ret [OF loads_read]) (simp_all add: Let_def low_byte ucast_low_byte)
  next
    case 2
    have s: "len_bytes h len = [ucast (drop_bit 8 len) OR push_bit 6 (RDB_14BITLEN h)] @ [ucast len]"
      using 2 by (simp add: len_bytes_def low_byte)
    show ?thesis
      unfolding s rdbLoadLenByRef_def high_bits
      apply (rule one, simp)
      using 2 tag_drop [OF high_byte_below tags(2), of len] tag_of(2) [OF high_byte_below tags(2), of len] tag_distinct
      by (auto simp: Let_def join_bytes intro!: loads_bind_ret loads_read)
  next
    case 3
    then have "\<not> len < 64" by (auto simp: word_less_nat_alt)
    with 3 have s: "len_bytes h len = [RDB_32BITLEN h] @ be_bytes 4 len" by (simp add: len_bytes_def)
    show ?thesis
      unfolding s rdbLoadLenByRef_def high_bits
      apply (rule one, simp)
      using 3 long_tags
      by (auto simp: Let_def of_be_bytes take_bit_32 intro!: loads_bind_ret loads_read)
  next
    case 4
    then have "\<not> len < 64" "\<not> len < 0x4000" by (auto simp: word_less_nat_alt word_le_nat_alt)
    with 4 have s: "len_bytes h len = [RDB_64BITLEN h] @ be_bytes 8 len" by (simp add: len_bytes_def)
    show ?thesis
      unfolding s rdbLoadLenByRef_def high_bits
      apply (rule one, simp)
      using 4 long_tags tag_distinct
      by (auto simp: Let_def of_be_bytes take_bit_word_eq_self intro!: loads_bind_ret loads_read)
  qed
qed

lemma load_len_eq:
  assumes "loads (rdbLoadLenByRef h rd) bs (e, len)" "len \<noteq> RDB_LENERR h"
  shows "loads (load_len h rd) bs (e, len)"
  unfolding loads_def
proof (intro allI impI)
  fix r rest assume "unread r = bs @ rest"
  with assms(1) have "fst (rdbLoadLenByRef h rd r) = Some (e, len)" "unread (snd (rdbLoadLenByRef h rd r)) = rest"
    unfolding loads_def by blast+
  with assms(2) show "fst (load_len h rd r) = Some (e, len) \<and> unread (snd (load_len h rd r)) = rest"
    by (cases "rdbLoadLenByRef h rd r") (simp add: load_len_def rdbLoadLen_def)
qed

lemma loads_len: "len \<noteq> RDB_LENERR h \<Longrightarrow> loads (load_len h rd) (len_bytes h len) (False, len)"
  by (rule load_len_eq [OF loads_len_by_ref])

end

end
