(* ===== verification/Rdb_Strings.thy ===== *)
theory Rdb_Strings
  imports Rdb_Format
begin

section \<open>Strings of the RDB format (rdb.c)\<close>

text \<open>
  Saving a string as an integer, compressed or verbatim, and loading it in the form the caller asks
  for. The LZF compressor is a parameter with its contract in the locale \<open>lzf_spec\<close>; whether an
  allocation of so many bytes succeeds is a parameter of the loaders.
\<close>

subsection \<open>Compression\<close>

record lzf =
  lzf_compress :: "sds \<Rightarrow> nat \<Rightarrow> sds option"
  lzf_decompress :: "sds \<Rightarrow> nat \<Rightarrow> sds"

text \<open>\<open>lzf_compress\<close> fills at most the room it has, or returns 0 (\<open>None\<close>).\<close>

locale lzf_spec =
  fixes Z :: "lzf"
  assumes lzf_inverse: "lzf_compress Z s n = Some c \<Longrightarrow> lzf_decompress Z c (length s) = s"
    and lzf_fits: "lzf_compress Z s n = Some c \<Longrightarrow> length c \<le> n"

text \<open>A run-length code that meets the contract.\<close>

fun rle :: "sds \<Rightarrow> sds" where
  "rle [] = []"
| "rle [b] = [1, b]"
| "rle (b # c # bs) =
     (case rle (c # bs) of
        n # d # rest \<Rightarrow> if b = d \<and> n < 255 then (n + 1) # d # rest else 1 # b # n # d # rest
      | r \<Rightarrow> 1 # b # r)"

fun unrle :: "sds \<Rightarrow> sds" where
  "unrle (n # b # rest) = replicate (unat n) b @ unrle rest"
| "unrle _ = []"

definition rle_lib :: lzf where
  "rle_lib = \<lparr>lzf_compress = (\<lambda>s n. if length (rle s) \<le> n then Some (rle s) else None),
              lzf_decompress = (\<lambda>c n. unrle c)\<rparr>"

lemma rle_shape: "\<exists>n rest. rle (b # bs) = n # b # rest"
  by (induction bs arbitrary: b) (auto split: list.splits)

lemma unrle_rle: "unrle (rle s) = s"
proof (induction s rule: rle.induct)
  case (3 b c bs)
  obtain n rest where r: "rle (c # bs) = n # c # rest" using rle_shape by blast
  have "n < 255 \<Longrightarrow> unat (n + 1) = Suc (unat n)"
    using num_accesses_Suc [of n] by (simp add: word_less_nat_alt)
  with 3 r show ?case by auto
qed simp_all

interpretation rle: lzf_spec rle_lib
  by unfold_locales (auto simp: rle_lib_def unrle_rle split: if_splits)

subsection \<open>Saving\<close>

definition rdbSaveLzfBlob :: "rdb_h \<Rightarrow> 'r writer \<Rightarrow> sds \<Rightarrow> u64 \<Rightarrow> 'r saver" where
  "rdbSaveLzfBlob h wr data original_len =
     save_all [rdbWriteRaw wr [push_bit 6 (RDB_ENCVAL h) OR RDB_ENC_LZF h],
               rdbSaveLen h wr (of_nat (length data)), rdbSaveLen h wr original_len, rdbWriteRaw wr data]"

definition rdbSaveLzfStringObject :: "rdb_h \<Rightarrow> 'r writer \<Rightarrow> lzf \<Rightarrow> sds \<Rightarrow> 'r saver" where
  "rdbSaveLzfStringObject h wr Z s rdb =
     (if length s \<le> 4 then (0, rdb)
      else case lzf_compress Z s (length s - 4) of
             None \<Rightarrow> (0, rdb)
           | Some out \<Rightarrow> rdbSaveLzfBlob h wr out (of_nat (length s)) rdb)"

definition save_verbatim :: "rdb_h \<Rightarrow> 'r writer \<Rightarrow> sds \<Rightarrow> 'r saver" where
  "save_verbatim h wr s =
     save_all (rdbSaveLen h wr (of_nat (length s)) # (if s \<noteq> [] then [rdbWriteRaw wr s] else []))"

definition rdbSaveRawString :: "rdb_h \<Rightarrow> 'r writer \<Rightarrow> strlib \<Rightarrow> lzf \<Rightarrow> bool \<Rightarrow> sds \<Rightarrow> 'r saver" where
  "rdbSaveRawString h wr L Z rdb_compression s rdb =
     (case (if length s \<le> 11 then rdbTryIntegerEncoding h L s else None) of
        Some buf \<Rightarrow> rdbWriteRaw wr buf rdb
      | None \<Rightarrow>
          if rdb_compression \<and> 20 < length s
          then (let (n, rdb') = rdbSaveLzfStringObject h wr Z s rdb in
                if n = - 1 then (- 1, rdb') else if 0 < n then (n, rdb') else save_verbatim h wr s rdb')
          else save_verbatim h wr s rdb)"

definition rdbSaveLongLongAsStringObject :: "rdb_h \<Rightarrow> 'r writer \<Rightarrow> strlib \<Rightarrow> int \<Rightarrow> 'r saver cres" where
  "rdbSaveLongLongAsStringObject h wr L value =
     (case rdbEncodeInteger h value of
        Some buf \<Rightarrow> Inr (rdbWriteRaw wr buf)
      | None \<Rightarrow>
          let buf = ll2string L value in
          cbind (cassert (length buf < 32)) (\<lambda>_.
          Inr (save_all [rdbSaveLen h wr (of_nat (length buf)), rdbWriteRaw wr buf])))"

definition rdbSaveStringObject :: "rdb_h \<Rightarrow> 'r writer \<Rightarrow> strlib \<Rightarrow> lzf \<Rightarrow> bool \<Rightarrow> robj \<Rightarrow> 'r saver cres" where
  "rdbSaveStringObject h wr L Z rdb_compression ob =
     (if encoding ob = OBJ_ENCODING_INT
      then cbind (long_of ob) (rdbSaveLongLongAsStringObject h wr L)
      else cbind (cassert (sdsEncodedObject ob)) (\<lambda>_.
           cbind (sds_of ob) (\<lambda>s. Inr (rdbSaveRawString h wr L Z rdb_compression s))))"

subsection \<open>Loading\<close>

datatype rdb_load = RDB_LOAD_NONE | RDB_LOAD_ENC | RDB_LOAD_PLAIN | RDB_LOAD_SDS

text \<open>A plain string, an \<open>sds\<close>, or an object. The loaders run over the stream and the server.\<close>

datatype loaded = PlainStr sds | SdsStr sds | ObjRef nat

definition on_rio :: "('r, 'a) loader \<Rightarrow> ('r \<times> server, 'a) loader" where
  "on_rio m rs = (let (x, r') = m (fst rs) in (x, (r', snd rs)))"

definition on_server :: "(server \<Rightarrow> nat \<times> server) \<Rightarrow> ('r \<times> server, loaded) loader" where
  "on_server f rs = (let (a, s') = f (snd rs) in (Some (ObjRef a), (fst rs, s')))"

definition rdbLoadIntegerObject ::
  "rdb_h \<Rightarrow> 'r reader \<Rightarrow> strlib \<Rightarrow> u64 \<Rightarrow> rdb_load \<Rightarrow> ('r \<times> server, loaded) loader" where
  "rdbLoadIntegerObject h rd L enctype flags =
     lbind (on_rio (load_integer h rd enctype)) (\<lambda>val.
       case flags of
         RDB_LOAD_PLAIN \<Rightarrow> lret (PlainStr (ll2string L val))
       | RDB_LOAD_SDS \<Rightarrow> lret (SdsStr (ll2string L val))
       | RDB_LOAD_ENC \<Rightarrow> on_server (createStringObjectFromLongLongForValue L val)
       | RDB_LOAD_NONE \<Rightarrow> on_server (createStringObjectFromLongLongWithSds L val))"

definition rdbLoadLzfStringObject ::
  "rdb_h \<Rightarrow> 'r reader \<Rightarrow> lzf \<Rightarrow> (u64 \<Rightarrow> bool) \<Rightarrow> rdb_load \<Rightarrow> ('r \<times> server, loaded) loader" where
  "rdbLoadLzfStringObject h rd Z alloc_ok flags =
     lbind (on_rio (load_len h rd)) (\<lambda>(_, clen).
     lbind (on_rio (load_len h rd)) (\<lambda>(_, len).
     if \<not> alloc_ok clen then lfail
     else if \<not> alloc_ok len then lfail
     else lbind (on_rio (rd (unat clen))) (\<lambda>c.
       let val = lzf_decompress Z c (unat len) in
       if length val \<noteq> unat len then lfail
       else case flags of
              RDB_LOAD_PLAIN \<Rightarrow> lret (PlainStr val)
            | RDB_LOAD_SDS \<Rightarrow> lret (SdsStr val)
            | _ \<Rightarrow> on_server (createObject OBJ_STRING (SdsPtr val 0)))))"

text \<open>
  An object is created with the length first, then its bytes are read into it. On a short read the
  object is released (its reference count is 1, so the release does not fault).
\<close>

definition load_into_object :: "'r reader \<Rightarrow> u64 \<Rightarrow> nat \<Rightarrow> ('r \<times> server, loaded) loader" where
  "load_into_object rd len a rs =
     (if len = 0 then (Some (ObjRef a), rs)
      else case rd (unat len) (fst rs) of
        (Some bs, r') \<Rightarrow>
          (case heap (snd rs) a of
             Some ob \<Rightarrow> (Some (ObjRef a), (r', set_obj a (ob\<lparr>ptr := SdsPtr bs 0\<rparr>) (snd rs)))
           | None \<Rightarrow> (None, (r', snd rs)))
      | (None, r') \<Rightarrow>
          (case decrRefCount a (snd rs) of Inr s' \<Rightarrow> (None, (r', s')) | Inl _ \<Rightarrow> (None, (r', snd rs))))"

definition load_verbatim ::
  "'r reader \<Rightarrow> (u64 \<Rightarrow> bool) \<Rightarrow> rdb_load \<Rightarrow> u64 \<Rightarrow> ('r \<times> server, loaded) loader" where
  "load_verbatim rd alloc_ok flags len =
     (let bytes = (\<lambda>f. if \<not> alloc_ok len then lfail
                       else if len = 0 then lret (f []) else lbind (on_rio (rd (unat len))) (\<lambda>bs. lret (f bs)))
      in case flags of
           RDB_LOAD_PLAIN \<Rightarrow> bytes PlainStr
         | RDB_LOAD_SDS \<Rightarrow> bytes SdsStr
         | _ \<Rightarrow> (\<lambda>rs.
             case tryCreateStringObject (alloc_ok len) (replicate (unat len) 0) (snd rs) of
               (None, s') \<Rightarrow> (None, (fst rs, s'))
             | (Some a, s') \<Rightarrow> load_into_object rd len a (fst rs, s')))"

definition rdbGenericLoadStringObject ::
  "rdb_h \<Rightarrow> 'r reader \<Rightarrow> strlib \<Rightarrow> lzf \<Rightarrow> (u64 \<Rightarrow> bool) \<Rightarrow> rdb_load \<Rightarrow> ('r \<times> server, loaded) loader" where
  "rdbGenericLoadStringObject h rd L Z alloc_ok flags =
     lbind (on_rio (load_len h rd)) (\<lambda>(isencoded, len).
     if isencoded then
       (if len = ucast (RDB_ENC_INT8 h) \<or> len = ucast (RDB_ENC_INT16 h) \<or> len = ucast (RDB_ENC_INT32 h)
        then rdbLoadIntegerObject h rd L len flags
        else if len = ucast (RDB_ENC_LZF h) then rdbLoadLzfStringObject h rd Z alloc_ok flags
        else lfail)
     else load_verbatim rd alloc_ok flags len)"

definition rdbLoadStringObject ::
  "rdb_h \<Rightarrow> 'r reader \<Rightarrow> strlib \<Rightarrow> lzf \<Rightarrow> (u64 \<Rightarrow> bool) \<Rightarrow> ('r \<times> server, loaded) loader" where
  "rdbLoadStringObject h rd L Z alloc_ok = rdbGenericLoadStringObject h rd L Z alloc_ok RDB_LOAD_NONE"

definition rdbLoadEncodedStringObject ::
  "rdb_h \<Rightarrow> 'r reader \<Rightarrow> strlib \<Rightarrow> lzf \<Rightarrow> (u64 \<Rightarrow> bool) \<Rightarrow> ('r \<times> server, loaded) loader" where
  "rdbLoadEncodedStringObject h rd L Z alloc_ok = rdbGenericLoadStringObject h rd L Z alloc_ok RDB_LOAD_ENC"

subsection \<open>A string saved loads back\<close>

text \<open>At most one object is allocated; nothing else changes.\<close>

definition only_new :: "server \<Rightarrow> server \<Rightarrow> bool" where
  "only_new s s' =
     (s' = s \<or> (\<exists>ob. s' = s\<lparr>heap := (heap s)(next_addr s \<mapsto> ob), next_addr := Suc (next_addr s)\<rparr>))"

lemma only_new_refl [simp]: "only_new s s"
  by (simp add: only_new_def)

lemma only_new_alloc: "only_new s (snd (alloc_obj ob s))"
  by (auto simp: only_new_def alloc_obj_def)

lemma only_new_set:
  "only_new s s' \<Longrightarrow> heap s' (next_addr s) = Some ob0 \<Longrightarrow> fresh_ok s \<Longrightarrow> only_new s (set_obj (next_addr s) ob s')"
proof -
  assume n: "only_new s s'" and h: "heap s' (next_addr s) = Some ob0" and f: "fresh_ok s"
  then obtain ob1 where "s' = s\<lparr>heap := (heap s)(next_addr s \<mapsto> ob1), next_addr := Suc (next_addr s)\<rparr>"
    by (auto simp: only_new_def fresh_ok_def)
  then have "set_obj (next_addr s) ob s' = s\<lparr>heap := (heap s)(next_addr s \<mapsto> ob), next_addr := Suc (next_addr s)\<rparr>"
    by (intro server.equality) (simp_all add: set_obj_def)
  then show ?thesis by (auto simp: only_new_def)
qed

lemma only_new_heap: "only_new s s' \<Longrightarrow> c \<noteq> next_addr s \<Longrightarrow> heap s' c = heap s c"
  by (auto simp: only_new_def)

lemma only_new_create:
  "only_new s (snd (createObject t p s))" "only_new s (snd (createEmbeddedStringObject bs s))"
  "only_new s (snd (createStringObject bs s))"
  by (simp_all add: createObject_def createEmbeddedStringObject_def createStringObject_def
      createRawStringObject_def only_new_alloc)

lemma only_new_createFromLL:
  assumes "fresh_ok s"
  shows "only_new s (snd (createStringObjectFromLongLongWithOptions L v flag s))"
proof -
  obtain a t where c: "createObject OBJ_STRING (LongPtr v) s = (a, t)" by (cases "createObject OBJ_STRING (LongPtr v) s")
  have "only_new s t" using only_new_create(1) [of s OBJ_STRING "LongPtr v"] c by simp
  then have "only_new s (snd (with_encoding OBJ_ENCODING_INT (createObject OBJ_STRING (LongPtr v) s)))"
    using createObject_heap [OF c] c assms by (auto simp: with_encoding_def intro: only_new_set)
  then show ?thesis
    by (auto simp: createStringObjectFromLongLongWithOptions_def only_new_create(3))
qed

text \<open>
  Loading from \<open>sv\<close> to \<open>sv'\<close> made the string \<open>s\<close> at \<open>a\<close>: either the object allocated last, with one reference and a
  history that is empty or, for short strings, what the memory held, or a shared integer.
\<close>

definition may_share :: "server \<Rightarrow> bool" where
  "may_share s = (maxmemory s = 0 \<or> \<not> flag_set (maxmemory_policy s) MAXMEMORY_FLAG_NO_SHARED_INTEGERS)"

definition new_obj :: "server \<Rightarrow> nat \<Rightarrow> robj \<Rightarrow> bool" where
  "new_obj s a ob =
     (Suc a = next_addr s \<and> refcount ob = 1 \<and> length (access_times ob) = length (fst (fresh_mem s a))
      \<and> num_accesses ob \<in> {0, snd (fresh_mem s a)})"

definition is_str :: "strlib \<Rightarrow> server \<Rightarrow> server \<Rightarrow> nat \<Rightarrow> sds \<Rightarrow> bool" where
  "is_str L sv sv' a s = (\<exists>ob. heap sv' a = Some ob \<and> str_ok ob \<and> str_bytes L ob = s
     \<and> (next_addr sv \<le> a \<and> new_obj sv' a ob \<or> may_share sv' \<and> refcount ob = OBJ_SHARED_REFCOUNT))"

lemma next_simps [simp]:
  "next_addr (snd (alloc_obj ob s)) = Suc (next_addr s)" "fst (alloc_obj ob s) = next_addr s"
  "fresh_mem (snd (alloc_obj ob s)) = fresh_mem s" "heap (snd (alloc_obj ob s)) = (heap s)(next_addr s \<mapsto> ob)"
  by (simp_all add: alloc_obj_def)

lemma new_objI:
  "createObject t p s = (a, s') \<Longrightarrow> heap s' a = Some ob \<Longrightarrow> new_obj s' a ob"
  "createEmbeddedStringObject bs s = (a, s') \<Longrightarrow> heap s' a = Some ob \<Longrightarrow> new_obj s' a ob"
  "createStringObject bs s = (a, s') \<Longrightarrow> heap s' a = Some ob \<Longrightarrow> new_obj s' a ob"
  by (auto simp: createObject_def createEmbeddedStringObject_def createStringObject_def createRawStringObject_def
      new_obj_def alloc_obj_def split: if_splits)

lemma new_obj_set:
  "new_obj s a ob \<Longrightarrow> refcount ob' = refcount ob \<Longrightarrow> access_times ob' = access_times ob \<Longrightarrow>
     num_accesses ob' = num_accesses ob \<Longrightarrow> new_obj (set_obj c ob'' s) a ob'"
  by (simp add: new_obj_def)

lemma createFromLL_new:
  assumes "createStringObjectFromLongLongWithOptions L v flag s = (a, s')" "heap s' a = Some ob"
  shows "next_addr s \<le> a \<and> new_obj s' a ob \<or> flag = LL2STROBJ_AUTO \<and> 0 \<le> v \<and> v < OBJ_SHARED_INTEGERS \<and> a = shared_integers s v \<and> s' = s"
proof -
  note d = assms(1) [unfolded createStringObjectFromLongLongWithOptions_def]
  show ?thesis
  proof (cases "0 \<le> v \<and> v < OBJ_SHARED_INTEGERS \<and> flag = LL2STROBJ_AUTO")
    case True
    then show ?thesis using d by auto
  next
    case nshared: False
    show ?thesis
    proof (cases "LONG_MIN \<le> v \<and> v \<le> LONG_MAX \<and> flag \<noteq> LL2STROBJ_NO_INT_ENC")
      case True
      obtain b t where c: "createObject OBJ_STRING (LongPtr v) s = (b, t)" by (cases "createObject OBJ_STRING (LongPtr v) s")
      then obtain ob1 where o: "heap t b = Some ob1" using createObject_heap [OF c] by simp
      from d have "with_encoding OBJ_ENCODING_INT (b, t) = (a, s')" unfolding if_not_P [OF nshared] if_P [OF True] c .
      with o have "a = b" "s' = set_obj b (ob1\<lparr>encoding := OBJ_ENCODING_INT\<rparr>) t" by (auto simp: with_encoding_def)
      with new_objI(1) [OF c o] createObject_heap [OF c] assms(2) show ?thesis by (auto intro: new_obj_set)
    next
      case False
      from d have "createStringObject (ll2string L v) s = (a, s')" unfolding if_not_P [OF nshared] if_not_P [OF False] .
      then show ?thesis using new_objI(3) createStringObject_heap assms(2) by (metis order_refl)
    qed
  qed
qed

fun denotes :: "strlib \<Rightarrow> rdb_load \<Rightarrow> server \<Rightarrow> server \<Rightarrow> loaded \<Rightarrow> sds \<Rightarrow> bool" where
  "denotes L RDB_LOAD_PLAIN sv sv' v s = (v = PlainStr s)"
| "denotes L RDB_LOAD_SDS sv sv' v s = (v = SdsStr s)"
| "denotes L _ sv sv' v s = (\<exists>a. v = ObjRef a \<and> is_str L sv sv' a s)"

lemma denotes_obj:
  "flags = RDB_LOAD_NONE \<or> flags = RDB_LOAD_ENC \<Longrightarrow>
     denotes L flags sv sv' (ObjRef a) s \<longleftrightarrow> is_str L sv sv' a s"
  by auto

lemma createObject_denotes:
  "flags = RDB_LOAD_NONE \<or> flags = RDB_LOAD_ENC \<Longrightarrow> createObject OBJ_STRING (SdsPtr bs 0) s = (a, s') \<Longrightarrow>
     denotes L flags s s' (ObjRef a) bs"
  using createObject_heap [of OBJ_STRING "SdsPtr bs 0" s a s'] new_objI(1) [of OBJ_STRING "SdsPtr bs 0" s a s']
  by (auto simp: is_str_def str_ok_def str_bytes_def sdsEncodedObject_def)

locale rdb_strings = rdb_stream wr rd written unread h + strlib_spec L + lzf_spec Z
  for wr :: "'r writer" and rd :: "'r reader" and written unread :: "'r \<Rightarrow> sds" and h :: "rdb_h"
    and L :: strlib and Z :: lzf
begin

text \<open>\<open>m\<close> finds \<open>bs\<close> next in the stream and returns the string \<open>s\<close>.\<close>

definition loads_string :: "rdb_load \<Rightarrow> ('r \<times> server, loaded) loader \<Rightarrow> sds \<Rightarrow> sds \<Rightarrow> bool" where
  "loads_string flags m bs s \<longleftrightarrow>
     (\<forall>r rest sv. unread r = bs @ rest \<and> shared_ok sv \<and> fresh_ok sv \<longrightarrow>
        (\<exists>v r' sv'. m (r, sv) = (Some v, (r', sv')) \<and> unread r' = rest \<and> only_new sv sv' \<and> denotes L flags sv sv' v s))"

lemma loads_stringI:
  assumes "\<And>r rest sv. unread r = bs @ rest \<Longrightarrow> shared_ok sv \<Longrightarrow> fresh_ok sv \<Longrightarrow>
    \<exists>v r' sv'. m (r, sv) = (Some v, (r', sv')) \<and> unread r' = rest \<and> only_new sv sv' \<and> denotes L flags sv sv' v s"
  shows "loads_string flags m bs s"
  using assms by (auto simp: loads_string_def)

lemma loads_string_bind:
  assumes "loads m bs x" "loads_string flags (f x) cs s"
  shows "loads_string flags (lbind (on_rio m) f) (bs @ cs) s"
proof (rule loads_stringI)
  fix r rest sv assume r: "unread r = (bs @ cs) @ rest" and sv: "shared_ok sv" "fresh_ok sv"
  obtain r1 where r1: "m r = (Some x, r1)" "unread r1 = cs @ rest"
  proof -
    have "fst (m r) = Some x" "unread (snd (m r)) = cs @ rest"
      using assms(1) r unfolding loads_def by (metis append_assoc)+
    then show ?thesis by (intro that [of "snd (m r)"]) (simp_all add: prod_eq_iff)
  qed
  obtain v r' sv' where "f x (r1, sv) = (Some v, (r', sv'))" "unread r' = rest" "only_new sv sv'" "denotes L flags sv sv' v s"
    using assms(2) r1(2) sv unfolding loads_string_def by blast
  with r1 show "\<exists>v r' sv'. lbind (on_rio m) f (r, sv) = (Some v, (r', sv')) \<and> unread r' = rest \<and> only_new sv sv' \<and> denotes L flags sv sv' v s"
    by (auto simp: lbind_def on_rio_def)
qed

lemma loads_string_here:
  assumes "\<And>rs :: 'r \<times> server. shared_ok (snd rs) \<Longrightarrow> fresh_ok (snd rs) \<Longrightarrow>
    \<exists>v sv'. m rs = (Some v, (fst rs, sv')) \<and> only_new (snd rs) sv' \<and> denotes L flags (snd rs) sv' v s"
  shows "loads_string flags m [] s"
proof (rule loads_stringI)
  fix r :: 'r and rest sv assume "unread r = [] @ rest" "shared_ok sv" "fresh_ok sv"
  with assms [of "(r, sv)"] show "\<exists>v r' sv'. m (r, sv) = (Some v, (r', sv')) \<and> unread r' = rest \<and> only_new sv sv' \<and> denotes L flags sv sv' v s"
    by auto
qed

lemma loads_string_plain:
  "loads_string RDB_LOAD_PLAIN (lret (PlainStr s)) [] s" "loads_string RDB_LOAD_SDS (lret (SdsStr s)) [] s"
proof -
  have "loads_string flags (lret v) [] s" if "\<And>sv. denotes L flags sv sv v s" for flags v
    by (rule loads_string_here, rule_tac x = v in exI, rule_tac x = "snd rs" in exI) (simp add: lret_def that)
  then show "loads_string RDB_LOAD_PLAIN (lret (PlainStr s)) [] s" "loads_string RDB_LOAD_SDS (lret (SdsStr s)) [] s"
    by simp_all
qed

lemma loads_string_created:
  assumes "flags = RDB_LOAD_NONE \<or> flags = RDB_LOAD_ENC"
    and "\<And>sv. shared_ok sv \<Longrightarrow> fresh_ok sv \<Longrightarrow> only_new sv (snd (f sv)) \<and> is_str L sv (snd (f sv)) (fst (f sv)) s"
  shows "loads_string flags (on_server f) [] s"
proof (rule loads_string_here)
  fix rs :: "'r \<times> server" assume rs: "shared_ok (snd rs)" "fresh_ok (snd rs)"
  obtain a s' where f: "f (snd rs) = (a, s')" by (cases "f (snd rs)")
  with assms(2) [OF rs] have "on_server f rs = (Some (ObjRef a), (fst rs, s'))" "only_new (snd rs) s'" "denotes L flags (snd rs) s' (ObjRef a) s"
    using denotes_obj [OF assms(1)] by (simp_all add: on_server_def)
  then show "\<exists>v sv'. on_server f rs = (Some v, (fst rs, sv')) \<and> only_new (snd rs) sv' \<and> denotes L flags (snd rs) sv' v s"
    by blast
qed

lemma integer_forms:
  assumes "in_ll v"
  shows "loads_string flags
    (case flags of
         RDB_LOAD_PLAIN \<Rightarrow> lret (PlainStr (ll2string L v))
       | RDB_LOAD_SDS \<Rightarrow> lret (SdsStr (ll2string L v))
       | RDB_LOAD_ENC \<Rightarrow> on_server (createStringObjectFromLongLongForValue L v)
       | RDB_LOAD_NONE \<Rightarrow> on_server (createStringObjectFromLongLongWithSds L v)) [] (ll2string L v)"
proof -
  have made: "only_new sv (snd (createStringObjectFromLongLongWithOptions L v flag sv)) \<and>
      is_str L sv (snd (createStringObjectFromLongLongWithOptions L v flag sv))
        (fst (createStringObjectFromLongLongWithOptions L v flag sv)) (ll2string L v)"
    if sv: "shared_ok sv" "fresh_ok sv" and fl: "flag = LL2STROBJ_AUTO \<longrightarrow> may_share sv" for sv flag
  proof -
    obtain a s' where c: "createStringObjectFromLongLongWithOptions L v flag sv = (a, s')"
      by (cases "createStringObjectFromLongLongWithOptions L v flag sv")
    obtain ob where "heap s' a = Some ob" "str_ok ob" "str_bytes L ob = ll2string L v"
      using createFromLL_heap [OF c assms sv(1)] by blast
    moreover from createFromLL_new [OF c this(1)] this(1)
    have "next_addr sv \<le> a \<and> new_obj s' a ob \<or> may_share s' \<and> refcount ob = OBJ_SHARED_REFCOUNT"
      using sv(1) fl by (force simp: shared_ok_def)
    ultimately show ?thesis
      using only_new_createFromLL [OF sv(2), of L v flag] c by (auto simp: is_str_def)
  qed
  note fresh = made [of _ LL2STROBJ_NO_SHARED] made [of _ LL2STROBJ_NO_INT_ENC]
  show ?thesis
    by (cases flags)
      (auto simp: loads_string_plain made fresh may_share_def createStringObjectFromLongLongForValue_def
        createStringObjectFromLongLongWithSds_def intro!: loads_string_created)
qed

end

context rdb_stream
begin

lemma loads_encoding:
  assumes "e < 64"
  shows "loads (load_len h rd) [push_bit 6 (RDB_ENCVAL h) OR e] (True, ucast e)"
proof (rule load_len_eq)
  have "drop_bit 6 (e OR push_bit 6 (RDB_ENCVAL h)) = RDB_ENCVAL h" "(e OR push_bit 6 (RDB_ENCVAL h)) AND 0x3F = e"
    using tag_drop [OF assms tags(3)] tag_of(2) [OF assms tags(3)] by simp_all
  then show "loads (rdbLoadLenByRef h rd) [push_bit 6 (RDB_ENCVAL h) OR e] (True, ucast e)"
    unfolding rdbLoadLenByRef_def high_bits
    by (intro loads_bind_ret [OF loads_read]) (simp_all add: Let_def or.commute)
  show "(ucast e :: u64) \<noteq> RDB_LENERR h"
  proof
    assume "ucast e = RDB_LENERR h"
    then have "bit (ucast e :: u64) 63" by (simp add: lenerr)
    then show False by (auto simp: bit_simps dest: bit_imp_le_length)
  qed
qed

lemma ucast_enc_eq: "(ucast (a :: u8) :: u64) = ucast b \<longleftrightarrow> a = b"
proof -
  have inv: "(ucast (ucast x :: u64) :: u8) = x" for x :: u8
    by (rule bit_word_eqI) (simp add: bit_simps)
  show ?thesis using inv [of a] inv [of b] by metis
qed

lemma loads_integer:
  assumes "rdbEncodeInteger h v = Some buf"
  obtains e cs where "buf = [push_bit 6 (RDB_ENCVAL h) OR e] @ cs" "e < 64"
    "e = RDB_ENC_INT8 h \<or> e = RDB_ENC_INT16 h \<or> e = RDB_ENC_INT32 h"
    "loads (load_integer h rd (ucast e)) cs v" "in_ll v"
proof -
  have d: "RDB_ENC_INT8 h \<noteq> RDB_ENC_INT16 h" "RDB_ENC_INT8 h \<noteq> RDB_ENC_INT32 h" "RDB_ENC_INT16 h \<noteq> RDB_ENC_INT32 h"
    using encodings(1) by auto
  consider (8) "- (2 ^ 7) \<le> v" "v \<le> 2 ^ 7 - 1"
    | (16) "\<not> (- (2 ^ 7) \<le> v \<and> v \<le> 2 ^ 7 - 1)" "- (2 ^ 15) \<le> v" "v \<le> 2 ^ 15 - 1"
    | (32) "\<not> (- (2 ^ 15) \<le> v \<and> v \<le> 2 ^ 15 - 1)" "- (2 ^ 31) \<le> v" "v \<le> 2 ^ 31 - 1"
    using assms by (auto simp: rdbEncodeInteger_def split: if_splits)
  then show ?thesis
  proof cases
    case 8
    show ?thesis
    proof (rule that)
      show "buf = [push_bit 6 (RDB_ENCVAL h) OR RDB_ENC_INT8 h] @ [word_of_int (v AND 0xFF)]"
        using assms 8 by (simp add: rdbEncodeInteger_def)
      show "loads (load_integer h rd (ucast (RDB_ENC_INT8 h))) [word_of_int (v AND 0xFF)] v"
        unfolding load_integer_def using sint_of_int8 [OF 8]
        by (auto intro!: loads_bind_ret [OF loads_read])
    qed (use 8 encodings in \<open>auto simp: in_ll_def int_limits\<close>)
  next
    case 16
    let ?cs = "[word_of_int (v AND 0xFF), word_of_int (drop_bit 8 v AND 0xFF)]"
    have v: "signed_take_bit 15 v = v" using 16 by (simp add: signed_take_bit_int_eq_self)
    show ?thesis
    proof (rule that)
      show "buf = [push_bit 6 (RDB_ENCVAL h) OR RDB_ENC_INT16 h] @ ?cs"
        using assms 16 by (auto simp: rdbEncodeInteger_def split: if_splits)
      show "loads (load_integer h rd (ucast (RDB_ENC_INT16 h))) ?cs v"
        unfolding load_integer_def ucast_enc_eq using d join16 [of v]
        by (auto simp: signed_of_int v intro!: loads_bind_ret [OF loads_read])
    qed (use 16 encodings in \<open>auto simp: in_ll_def int_limits\<close>)
  next
    case 32
    let ?cs = "[word_of_int (v AND 0xFF), word_of_int (drop_bit 8 v AND 0xFF),
      word_of_int (drop_bit 16 v AND 0xFF), word_of_int (drop_bit 24 v AND 0xFF)]"
    have v: "signed_take_bit 31 v = v" using 32 by (simp add: signed_take_bit_int_eq_self)
    show ?thesis
    proof (rule that)
      show "buf = [push_bit 6 (RDB_ENCVAL h) OR RDB_ENC_INT32 h] @ ?cs"
        using assms 32 by (auto simp: rdbEncodeInteger_def split: if_splits)
      show "loads (load_integer h rd (ucast (RDB_ENC_INT32 h))) ?cs v"
        unfolding load_integer_def ucast_enc_eq using d join32 [of v]
        by (auto simp: signed_of_int v intro!: loads_bind_ret [OF loads_read])
    qed (use 32 encodings in \<open>auto simp: in_ll_def int_limits\<close>)
  qed
qed

end

lemma tryCreate_ok:
  assumes "tryCreateStringObject True bs sv = (x, sv')"
  shows "x = Some (next_addr sv) \<and> only_new sv sv' \<and>
    (\<exists>ob. heap sv' (next_addr sv) = Some ob \<and> (\<forall>cs. str_ok (ob\<lparr>ptr := SdsPtr cs 0\<rparr>)) \<and> ptr ob = SdsPtr bs 0
       \<and> new_obj sv' (next_addr sv) ob)"
proof (cases "length bs \<le> OBJ_ENCODING_EMBSTR_SIZE_LIMIT")
  case True
  obtain a t where c: "createEmbeddedStringObject bs sv = (a, t)" by (cases "createEmbeddedStringObject bs sv")
  show ?thesis using True assms c createEmbedded_heap [OF c] new_objI(2) [OF c] only_new_create(2) [of sv bs]
    by (auto simp: tryCreateStringObject_def str_ok_def sdsEncodedObject_def)
next
  case False
  obtain a t where c: "createObject OBJ_STRING (SdsPtr bs 0) sv = (a, t)" by (cases "createObject OBJ_STRING (SdsPtr bs 0) sv")
  show ?thesis using False assms c createObject_heap [OF c] new_objI(1) [OF c] only_new_create(1) [of sv OBJ_STRING "SdsPtr bs 0"]
    by (auto simp: tryCreateStringObject_def tryCreateRawStringObject_def str_ok_def sdsEncodedObject_def)
qed

lemma str_ok_ptr: "str_ok (ob\<lparr>ptr := SdsPtr cs 0\<rparr>) \<Longrightarrow> ptr ob = SdsPtr cs 0 \<Longrightarrow> str_ok ob"
  by (auto simp: str_ok_def sdsEncodedObject_def)

context rdb_strings
begin

definition string_code :: "(u64 \<Rightarrow> bool) \<Rightarrow> 'r saver \<Rightarrow> sds \<Rightarrow> bool" where
  "string_code alloc_ok a s \<longleftrightarrow>
     (\<exists>bs. saves a bs \<and> (\<forall>flags. loads_string flags (rdbGenericLoadStringObject h rd L Z alloc_ok flags) bs s))"

lemma integer_code:
  assumes "rdbEncodeInteger h v = Some buf"
  shows "string_code alloc_ok (rdbWriteRaw wr buf) (ll2string L v)"
  unfolding string_code_def
proof (intro exI conjI allI)
  show "saves (rdbWriteRaw wr buf) buf" by (rule saves_raw)
  fix flags
  obtain e cs where e: "buf = [push_bit 6 (RDB_ENCVAL h) OR e] @ cs" "e < 64"
    "e = RDB_ENC_INT8 h \<or> e = RDB_ENC_INT16 h \<or> e = RDB_ENC_INT32 h"
    "loads (load_integer h rd (ucast e)) cs v" "in_ll v"
    using assms by (rule loads_integer)
  have "loads_string flags (rdbLoadIntegerObject h rd L (ucast e) flags) (cs @ []) (ll2string L v)"
    unfolding rdbLoadIntegerObject_def by (rule loads_string_bind, rule e(4), rule integer_forms [OF e(5)])
  with e(3) show "loads_string flags (rdbGenericLoadStringObject h rd L Z alloc_ok flags) buf (ll2string L v)"
    unfolding rdbGenericLoadStringObject_def e(1)
    by (intro loads_string_bind [OF loads_encoding [OF e(2)]]) auto
qed

lemma length_word:
  assumes "n < 2 ^ 63"
  shows "unat (of_nat n :: u64) = n" "(of_nat n :: u64) \<noteq> RDB_LENERR h"
proof -
  show u: "unat (of_nat n :: u64) = n" using assms by (simp add: unat_of_nat)
  show "(of_nat n :: u64) \<noteq> RDB_LENERR h"
  proof
    assume "(of_nat n :: u64) = RDB_LENERR h"
    then have "(of_nat (Suc n) :: u64) = 0" by (simp add: lenerr)
    then have "unat (of_nat (Suc n) :: u64) = 0" by simp
    with assms show False by (simp only: unat_of_nat) simp
  qed
qed

lemma loads_object:
  assumes flags: "flags = RDB_LOAD_NONE \<or> flags = RDB_LOAD_ENC" and len: "unat len = length s" and ok: "alloc_ok len"
  shows "loads_string flags (load_verbatim rd alloc_ok flags len) s s"
proof (rule loads_stringI)
  fix r rest sv assume r: "unread r = s @ rest" and sv: "shared_ok sv" "fresh_ok sv"
  obtain x sv1 where c: "tryCreateStringObject True (replicate (unat len) 0) sv = (x, sv1)"
    by (cases "tryCreateStringObject True (replicate (unat len) 0) sv")
  obtain ob where ob: "x = Some (next_addr sv)" "only_new sv sv1" "heap sv1 (next_addr sv) = Some ob"
    "\<forall>cs. str_ok (ob\<lparr>ptr := SdsPtr cs 0\<rparr>)" "ptr ob = SdsPtr (replicate (unat len) 0) 0"
    "new_obj sv1 (next_addr sv) ob"
    using tryCreate_ok [OF c] by blast
  have m: "load_verbatim rd alloc_ok flags len (r, sv) = load_into_object rd len (next_addr sv) (r, sv1)"
    using flags ok c ob(1) by (auto simp: load_verbatim_def)
  show "\<exists>v r' sv'. load_verbatim rd alloc_ok flags len (r, sv) = (Some v, (r', sv')) \<and> unread r' = rest
      \<and> only_new sv sv' \<and> denotes L flags sv sv' v s"
  proof (cases "len = 0")
    case True
    then have "s = []" using len by simp
    moreover have "is_str L sv sv1 (next_addr sv) []"
      using ob True str_ok_ptr [where ob = ob and cs = "[]"] by (auto simp: is_str_def str_bytes_def)
    ultimately show ?thesis
      using True m r ob(2) denotes_obj [OF flags] by (auto simp: load_into_object_def)
  next
    case False
    have rd: "fst (rd (unat len) r) = Some s" "unread (snd (rd (unat len) r)) = rest"
      using read_next [of "unat len" r] r len by simp_all
    let ?sv = "set_obj (next_addr sv) (ob\<lparr>ptr := SdsPtr s 0\<rparr>) sv1"
    have "load_into_object rd len (next_addr sv) (r, sv1) = (Some (ObjRef (next_addr sv)), (snd (rd (unat len) r), ?sv))"
      using False rd ob(3) by (cases "rd (unat len) r") (simp add: load_into_object_def)
    moreover have "only_new sv ?sv" by (rule only_new_set [OF ob(2,3) sv(2)])
    moreover have "is_str L sv ?sv (next_addr sv) s"
      using ob(4) new_obj_set [OF ob(6)] by (simp add: is_str_def str_bytes_def)
    ultimately show ?thesis using m rd(2) denotes_obj [OF flags] by auto
  qed
qed

lemma loads_verbatim:
  assumes "unat len = length s" "alloc_ok len"
  shows "loads_string flags (load_verbatim rd alloc_ok flags len) s s"
proof -
  have bytes: "loads_string fl (if \<not> alloc_ok len then lfail else if len = 0 then lret (f [])
      else lbind (on_rio (rd (unat len))) (\<lambda>bs. lret (f bs))) s s"
    if "\<And>bs. loads_string fl (lret (f bs)) [] bs" for f fl
  proof (cases "len = 0")
    case True
    then show ?thesis using assms that by simp
  next
    case False
    then show ?thesis
      using assms by (auto intro!: loads_string_bind [where cs = "[]", simplified] loads_read that)
  qed
  show ?thesis
    using loads_object [where len = len and s = s and alloc_ok = alloc_ok and flags = flags] assms bytes [of RDB_LOAD_PLAIN PlainStr] bytes [of RDB_LOAD_SDS SdsStr]
    by (cases flags) (simp_all add: load_verbatim_def loads_string_plain)
qed

lemma verbatim_loads:
  assumes "length s < 2 ^ 63" "\<And>n. unat n \<le> length s \<Longrightarrow> alloc_ok n"
  shows "loads_string flags (rdbGenericLoadStringObject h rd L Z alloc_ok flags) (len_bytes h (of_nat (length s)) @ s) s"
proof -
  note len = length_word [OF assms(1)]
  have "loads_string flags (load_verbatim rd alloc_ok flags (of_nat (length s))) s s"
    using len assms(2) by (intro loads_verbatim) simp_all
  then show ?thesis
    unfolding rdbGenericLoadStringObject_def
    by (intro loads_string_bind [OF loads_len [OF len(2)]]) simp
qed

lemma saves_verbatim:
  "saves (save_all [rdbSaveLen h wr (of_nat (length s)), rdbWriteRaw wr s]) (len_bytes h (of_nat (length s)) @ s)"
  using saves_all [of "[rdbSaveLen h wr (of_nat (length s)), rdbWriteRaw wr s]" "[len_bytes h (of_nat (length s)), s]"]
  by (simp add: saves_len saves_raw)

lemma verbatim_code:
  assumes "length s < 2 ^ 63" "\<And>n. unat n \<le> length s \<Longrightarrow> alloc_ok n"
  shows "string_code alloc_ok (save_verbatim h wr s) s"
  unfolding string_code_def
proof (intro exI conjI allI)
  show "saves (save_verbatim h wr s) (len_bytes h (of_nat (length s)) @ s)"
    using saves_verbatim [of s] saves_all [of "[rdbSaveLen h wr (of_nat (length s))]" "[len_bytes h (of_nat (length s))]"]
    by (auto simp: save_verbatim_def saves_len)
qed (use verbatim_loads assms in blast)

end

context rdb_strings
begin

lemma loads_lzf:
  assumes "lzf_compress Z s n = Some out" "length s < 2 ^ 63" "n \<le> length s" "\<And>n. unat n \<le> length s \<Longrightarrow> alloc_ok n"
  shows "loads_string flags (rdbLoadLzfStringObject h rd Z alloc_ok flags)
           (len_bytes h (of_nat (length out)) @ len_bytes h (of_nat (length s)) @ out @ []) s"
proof -
  have out: "length out \<le> length s" using lzf_fits [OF assms(1)] assms(3) by simp
  then have o: "length out < 2 ^ 63" using assms(2) by simp
  note lo = length_word [OF o] and ls = length_word [OF assms(2)]
  have forms: "loads_string flags (case flags of
              RDB_LOAD_PLAIN \<Rightarrow> lret (PlainStr s)
            | RDB_LOAD_SDS \<Rightarrow> lret (SdsStr s)
            | _ \<Rightarrow> on_server (createObject OBJ_STRING (SdsPtr s 0))) [] s"
  proof -
    have "only_new sv (snd (createObject OBJ_STRING (SdsPtr s 0) sv)) \<and>
        is_str L sv (snd (createObject OBJ_STRING (SdsPtr s 0) sv)) (fst (createObject OBJ_STRING (SdsPtr s 0) sv)) s" for sv
      using only_new_create(1) [of sv OBJ_STRING "SdsPtr s 0"]
        createObject_denotes [where flags = RDB_LOAD_NONE and bs = s and s = sv and L = L] by (metis denotes_obj prod.collapse)
    then show ?thesis by (cases flags) (simp_all add: loads_string_plain loads_string_created)
  qed
  show ?thesis
    unfolding rdbLoadLzfStringObject_def
    apply (rule loads_string_bind, rule loads_len [OF lo(2)])
    apply (simp only: prod.case)
    apply (rule loads_string_bind, rule loads_len [OF ls(2)])
    using out lo ls assms forms lzf_inverse [OF assms(1)]
    by (cases flags) (auto simp: Let_def intro!: loads_string_bind [where cs = "[]", simplified] loads_read)
qed

lemma lzf_code:
  assumes "lzf_compress Z s n = Some out" "length s < 2 ^ 63" "n \<le> length s" "\<And>n. unat n \<le> length s \<Longrightarrow> alloc_ok n"
  shows "string_code alloc_ok (rdbSaveLzfBlob h wr out (of_nat (length s))) s"
  unfolding string_code_def
proof (intro exI conjI allI)
  let ?tag = "[push_bit 6 (RDB_ENCVAL h) OR RDB_ENC_LZF h]"
  let ?bs = "?tag @ len_bytes h (of_nat (length out)) @ len_bytes h (of_nat (length s)) @ out @ []"
  have "list_all2 saves [rdbWriteRaw wr ?tag, rdbSaveLen h wr (of_nat (length out)), rdbSaveLen h wr (of_nat (length s)), rdbWriteRaw wr out]
      [?tag, len_bytes h (of_nat (length out)), len_bytes h (of_nat (length s)), out]"
    by (simp add: saves_raw saves_len)
  from saves_all [OF this] show "saves (rdbSaveLzfBlob h wr out (of_nat (length s))) ?bs"
    by (simp add: rdbSaveLzfBlob_def)
  fix flags
  have "RDB_ENC_LZF h \<noteq> RDB_ENC_INT8 h" "RDB_ENC_LZF h \<noteq> RDB_ENC_INT16 h" "RDB_ENC_LZF h \<noteq> RDB_ENC_INT32 h"
    using encodings(1) by auto
  then show "loads_string flags (rdbGenericLoadStringObject h rd L Z alloc_ok flags) ?bs s"
    unfolding rdbGenericLoadStringObject_def
    using loads_lzf [OF assms, where flags = flags]
    by (intro loads_string_bind [OF loads_encoding [OF encodings(5)]]) (simp add: ucast_enc_eq)
qed

lemma len_bytes_nonempty: "len_bytes h n \<noteq> []"
  by (simp add: len_bytes_def)

lemma raw_code:
  assumes "length s < 2 ^ 63" "\<And>n. unat n \<le> length s \<Longrightarrow> alloc_ok n"
  shows "string_code alloc_ok (rdbSaveRawString h wr L Z rdb_compression s) s"
proof -
  let ?int = "if length s \<le> 11 then rdbTryIntegerEncoding h L s else None"
  show ?thesis
  proof (cases ?int)
    case (Some buf)
    then obtain v where v: "string2ll L s = Some v" "rdbEncodeInteger h v = Some buf"
      by (auto simp: rdbTryIntegerEncoding_def split: if_splits option.splits)
    then have "ll2string L v = s" using parse_iff by auto
    moreover have "rdbSaveRawString h wr L Z rdb_compression s = rdbWriteRaw wr buf"
      using Some by (simp add: rdbSaveRawString_def fun_eq_iff)
    ultimately show ?thesis using integer_code [OF v(2), of alloc_ok] by simp
  next
    case None
    have n4: "\<not> length s \<le> 4" if "20 < length s" using that by simp
    show ?thesis
    proof (cases "rdb_compression \<and> 20 < length s \<and> lzf_compress Z s (length s - 4) \<noteq> None")
      case True
      then obtain out where out: "lzf_compress Z s (length s - 4) = Some out" by blast
      let ?blob = "rdbSaveLzfBlob h wr out (of_nat (length s))"
      have "string_code alloc_ok ?blob s" using assms by (intro lzf_code [OF out]) simp_all
      then obtain bs where bs: "saves ?blob bs"
        "\<forall>flags. loads_string flags (rdbGenericLoadStringObject h rd L Z alloc_ok flags) bs s"
        by (auto simp: string_code_def)
      have pos: "bs \<noteq> []"
      proof
        assume "bs = []"
        with bs(1) have "fst (?blob None) = 0" by (simp add: saves_def)
        moreover have "fst (?blob None) > 0"
          using len_bytes_nonempty saves_len
          by (simp add: rdbSaveLzfBlob_def then_save_def rdbWriteRaw_def saves_def split: prod.splits)
        ultimately show False by simp
      qed
      have eq: "rdbSaveRawString h wr L Z rdb_compression s rdb = (let (n, rdb') = ?blob rdb in
                if n = - 1 then (- 1, rdb') else if 0 < n then (n, rdb') else save_verbatim h wr s rdb')" for rdb
        using None True out n4 by (simp add: rdbSaveRawString_def rdbSaveLzfStringObject_def)
      have "saves (rdbSaveRawString h wr L Z rdb_compression s) bs"
        unfolding saves_def
      proof (intro conjI allI)
        show "rdbSaveRawString h wr L Z rdb_compression s None = (int (length bs), None)"
          using bs(1) pos by (simp add: eq saves_def)
        fix r
        obtain r' where "\<not> reliable \<and> ?blob (Some r) = (- 1, Some r') \<or> ?blob (Some r) = (int (length bs), Some r') \<and> written r' = written r @ bs"
          using bs(1) unfolding saves_def by blast
        then show "\<exists>r'. \<not> reliable \<and> rdbSaveRawString h wr L Z rdb_compression s (Some r) = (- 1, Some r')
          \<or> rdbSaveRawString h wr L Z rdb_compression s (Some r) = (int (length bs), Some r') \<and> written r' = written r @ bs"
          using pos by (auto simp: eq)
      qed
      with bs(2) show ?thesis by (auto simp: string_code_def)
    next
      case False
      then have "rdbSaveRawString h wr L Z rdb_compression s = save_verbatim h wr s"
        using None n4 by (auto simp: rdbSaveRawString_def rdbSaveLzfStringObject_def fun_eq_iff)
      then show ?thesis using verbatim_code [OF assms] by simp
    qed
  qed
qed

lemma long_code:
  assumes "in_ll v" "\<And>n. unat n \<le> 20 \<Longrightarrow> alloc_ok n"
  shows "\<exists>a. rdbSaveLongLongAsStringObject h wr L v = Inr a \<and> string_code alloc_ok a (ll2string L v)"
proof (cases "rdbEncodeInteger h v")
  case None
  let ?s = "ll2string L v"
  have l: "length ?s \<le> 20" using print_length [OF assms(1)] .
  with assms(2) have "\<forall>flags. loads_string flags (rdbGenericLoadStringObject h rd L Z alloc_ok flags) (len_bytes h (of_nat (length ?s)) @ ?s) ?s"
    by (intro allI verbatim_loads) simp_all
  with l saves_verbatim [of ?s] None show ?thesis
    by (auto simp: rdbSaveLongLongAsStringObject_def string_code_def Let_def)
qed (auto simp: rdbSaveLongLongAsStringObject_def integer_code)

text \<open>Every string object is saved without a fault, and as its bytes.\<close>

lemma object_code:
  assumes "str_ok ob" "length (str_bytes L ob) < 2 ^ 63" "\<And>n. unat n \<le> max 20 (length (str_bytes L ob)) \<Longrightarrow> alloc_ok n"
  shows "\<exists>a. rdbSaveStringObject h wr L Z rdb_compression ob = Inr a \<and> string_code alloc_ok a (str_bytes L ob)"
  using assms(1)
proof (cases rule: str_okE [where L = L])
  case (Sds bs n)
  then have "string_code alloc_ok (rdbSaveRawString h wr L Z rdb_compression bs) bs"
    using assms(2,3) by (intro raw_code) simp_all
  with Sds show ?thesis by (simp add: rdbSaveStringObject_def sds_of_def)
next
  case (Int v)
  have "\<exists>a. rdbSaveLongLongAsStringObject h wr L v = Inr a \<and> string_code alloc_ok a (ll2string L v)"
    using assms(3) Int(4) by (intro long_code) simp_all
  with Int show ?thesis by (simp add: rdbSaveStringObject_def long_of_def)
qed

end

subsection \<open>The round trip\<close>

text \<open>
  C35: A string object (integer encoded or not) is saved without a fault as a sequence of bytes that
  depends on the object only: the length computed without a stream is the one written, and unless a
  write fails exactly these bytes are appended. Found in a stream they are loaded back, in each of the
  four forms, as the same string, consuming exactly them; loading allocates at most one object and
  changes nothing else of the server.
\<close>

theorem rdb_string_roundtrip:
  assumes "rio_spec wr rd written unread" "rdb_h_spec h" "strlib_spec L" "lzf_spec Z"
    and "str_ok ob" "length (str_bytes L ob) < 2 ^ 63" "\<And>n. unat n \<le> max 20 (length (str_bytes L ob)) \<Longrightarrow> alloc_ok n"
  shows "\<exists>save bs. rdbSaveStringObject h wr L Z rdb_compression ob = Inr save
    \<and> save None = (int (length bs), None)
    \<and> (\<forall>r. \<exists>r'. \<not> (\<forall>bs r. fst (wr bs r)) \<and> save (Some r) = (- 1, Some r')
           \<or> save (Some r) = (int (length bs), Some r') \<and> written r' = written r @ bs)
    \<and> (\<forall>flags r rest s. unread r = bs @ rest \<and> shared_ok s \<and> fresh_ok s \<longrightarrow>
         (\<exists>v r' s'. rdbGenericLoadStringObject h rd L Z alloc_ok flags (r, s) = (Some v, (r', s'))
            \<and> unread r' = rest \<and> only_new s s' \<and> denotes L flags s s' v (str_bytes L ob)))"
proof -
  have I: "rdb_strings wr rd written unread h L Z"
    using assms(1-4) by (simp add: rdb_strings_def rdb_stream_def)
  show ?thesis
    using rdb_strings.object_code [OF I, where alloc_ok = alloc_ok and rdb_compression = rdb_compression, OF assms(5-7)]
    unfolding rdb_strings.string_code_def [OF I] rio_spec.saves_def [OF assms(1)] rio_spec.reliable_def [OF assms(1)] rdb_strings.loads_string_def [OF I]
    by blast
qed

definition long_string :: robj where
  "long_string = \<lparr>otype = OBJ_STRING, encoding = OBJ_ENCODING_RAW, lru = 0, refcount = 1,
     ptr = SdsPtr (replicate 30 97) 0, access_times = [0, 0, 0, 0], num_accesses = 0\<rparr>"

theorem rdb_string_roundtrip_witness:
  "\<exists>save bs. rdbSaveStringObject rdb_format buf_write decimal_lib rle_lib True long_string = Inr save
    \<and> save None = (int (length bs), None)
    \<and> (\<forall>r. \<exists>r'. \<not> (\<forall>bs r. fst (buf_write bs r)) \<and> save (Some r) = (- 1, Some r')
           \<or> save (Some r) = (int (length bs), Some r') \<and> wbuf r' = wbuf r @ bs)
    \<and> (\<forall>flags r rest s. rbuf r = bs @ rest \<and> shared_ok s \<and> fresh_ok s \<longrightarrow>
         (\<exists>v r' s'. rdbGenericLoadStringObject rdb_format buf_read decimal_lib rle_lib (\<lambda>_. True) flags (r, s) = (Some v, (r', s'))
            \<and> rbuf r' = rest \<and> only_new s s' \<and> denotes decimal_lib flags s s' v (str_bytes decimal_lib long_string)))"
  by (rule rdb_string_roundtrip [OF buf.rio_spec_axioms published.rdb_h_spec_axioms decimal.strlib_spec_axioms rle.lzf_spec_axioms])
    (simp_all add: long_string_def str_ok_def sdsEncodedObject_def str_bytes_def)

text \<open>What is written for some strings: an integer, a short string, a compressible one.\<close>

lemma rdb_string_bytes:
  "rdb_bytes (rdbSaveRawString rdb_format buf_write decimal_lib rle_lib True ([49, 50])) = Some [192, 12]"
  "rdb_bytes (rdbSaveRawString rdb_format buf_write decimal_lib rle_lib True ([48, 49])) = Some [2, 48, 49]"
  "rdb_bytes (rdbSaveRawString rdb_format buf_write decimal_lib rle_lib True (replicate 30 97)) = Some [195, 2, 30, 30, 97]"
  by code_simp+

end
