(* ===== verification/Rdb_Keys.thy ===== *)
theory Rdb_Keys
  imports Rdb_Strings Keyspace C_String Max_Memory
begin

section \<open>Keys and databases of the RDB format (rdb.c)\<close>

text \<open>
  Saving a key with its expire and its use for eviction, saving a database, and the loop that loads
  them. Values that are not strings go through the data structures outside the repository and are
  parameters, as are the modules' and functions' opcodes, the checksum of the stream and the role of
  the server in a cluster. Loading returns \<open>LoadOk\<close>, \<open>LoadErr\<close> (a short or corrupt file) or
  \<open>ServerExit\<close>; the loop has no bound of its own and takes fuel, one unit per opcode.
\<close>

subsection \<open>Types and opcodes of rdb.h\<close>

record rdb_ops =
  RDB_TYPE_STRING :: u8
  RDB_TYPE_SET :: u8
  RDB_TYPE_HASH :: u8
  RDB_TYPE_ZSET_2 :: u8
  RDB_TYPE_MODULE_2 :: u8
  RDB_TYPE_SET_INTSET :: u8
  RDB_TYPE_HASH_LISTPACK :: u8
  RDB_TYPE_ZSET_LISTPACK :: u8
  RDB_TYPE_LIST_QUICKLIST_2 :: u8
  RDB_TYPE_SET_LISTPACK :: u8
  RDB_TYPE_STREAM_LISTPACKS_3 :: u8
  rdbIsObjectType :: "u8 \<Rightarrow> bool"
  RDB_OPCODE_FUNCTION2 :: u8
  RDB_OPCODE_FUNCTION_PRE_GA :: u8
  RDB_OPCODE_MODULE_AUX :: u8
  RDB_OPCODE_IDLE :: u8
  RDB_OPCODE_FREQ :: u8
  RDB_OPCODE_AUX :: u8
  RDB_OPCODE_RESIZEDB :: u8
  RDB_OPCODE_EXPIRETIME_MS :: u8
  RDB_OPCODE_EXPIRETIME :: u8
  RDB_OPCODE_SELECTDB :: u8
  RDB_OPCODE_EOF :: u8
  RDB_VERSION :: int

definition opcodes :: "rdb_ops \<Rightarrow> u8 list" where
  "opcodes R =
     [RDB_OPCODE_EXPIRETIME R, RDB_OPCODE_EXPIRETIME_MS R, RDB_OPCODE_FREQ R, RDB_OPCODE_IDLE R,
      RDB_OPCODE_EOF R, RDB_OPCODE_SELECTDB R, RDB_OPCODE_RESIZEDB R, RDB_OPCODE_AUX R,
      RDB_OPCODE_MODULE_AUX R, RDB_OPCODE_FUNCTION_PRE_GA R, RDB_OPCODE_FUNCTION2 R]"

text \<open>The opcodes differ from each other and from the types of objects.\<close>

locale rdb_ops_spec =
  fixes R :: "rdb_ops"
  assumes distinct_opcodes: "distinct (opcodes R)"
    and types_not_opcodes: "rdbIsObjectType R t \<Longrightarrow> t \<notin> set (opcodes R)"
    and string_type: "rdbIsObjectType R (RDB_TYPE_STRING R)"
    and version: "5 \<le> RDB_VERSION R" "RDB_VERSION R \<le> 9999"

definition rdb_version_11 :: rdb_ops where
  "rdb_version_11 =
     \<lparr>RDB_TYPE_STRING = 0, RDB_TYPE_SET = 2, RDB_TYPE_HASH = 4, RDB_TYPE_ZSET_2 = 5, RDB_TYPE_MODULE_2 = 7,
      RDB_TYPE_SET_INTSET = 11, RDB_TYPE_HASH_LISTPACK = 16, RDB_TYPE_ZSET_LISTPACK = 17,
      RDB_TYPE_LIST_QUICKLIST_2 = 18, RDB_TYPE_SET_LISTPACK = 20, RDB_TYPE_STREAM_LISTPACKS_3 = 21,
      rdbIsObjectType = (\<lambda>t. t \<le> 7 \<or> 9 \<le> t \<and> t \<le> 21),
      RDB_OPCODE_FUNCTION2 = 245, RDB_OPCODE_FUNCTION_PRE_GA = 246, RDB_OPCODE_MODULE_AUX = 247,
      RDB_OPCODE_IDLE = 248, RDB_OPCODE_FREQ = 249, RDB_OPCODE_AUX = 250, RDB_OPCODE_RESIZEDB = 251,
      RDB_OPCODE_EXPIRETIME_MS = 252, RDB_OPCODE_EXPIRETIME = 253, RDB_OPCODE_SELECTDB = 254,
      RDB_OPCODE_EOF = 255, RDB_VERSION = 11\<rparr>"

interpretation version_11: rdb_ops_spec rdb_version_11
  by unfold_locales (auto simp: rdb_version_11_def opcodes_def word_le_nat_alt)

text \<open>A saver that may panic.\<close>

type_synonym 'r fsaver = "'r option \<Rightarrow> (int \<times> 'r option) cres"

text \<open>The rest of the process, as the savers and loaders see it.\<close>

datatype load_value = ValueAt nat | EmptyKey | BadValue

datatype load_result = LoadOk | LoadErr | ServerExit

record 'r rdb_env =
  wr_of :: "'r writer"
  rd_of :: "'r reader"
  fmt :: rdb_h
  ops :: rdb_ops
  lib :: strlib
  lzf_of :: lzf
  compression :: bool
  alloc :: "u64 \<Rightarrow> bool"
  save_other :: "robj \<Rightarrow> 'r saver cres"
  load_other :: "u8 \<Rightarrow> sds \<Rightarrow> 'r \<times> server \<Rightarrow> load_value \<times> 'r \<times> server"
  load_special :: "u8 \<Rightarrow> 'r \<times> server \<Rightarrow> load_result \<times> 'r \<times> server"
  save_modules_aux :: "bool \<Rightarrow> 'r fsaver"
  function_codes :: "sds list"
  redis_version :: sds
  time_now :: int
  used_memory :: int
  replid :: sds
  master_repl_offset :: int
  i_am_master :: bool
  aof_preamble :: bool
  feed_repl :: bool
  allow_dup :: bool
  repl_backlog :: bool
  cksum_of :: "'r \<Rightarrow> u64"
  check_cksum :: bool

subsection \<open>Saving\<close>

definition rdbSaveObjectType :: "'r rdb_env \<Rightarrow> robj \<Rightarrow> 'r saver cres" where
  "rdbSaveObjectType E ob =
     (let R = ops E; save = (\<lambda>t. Inr (rdbSaveType (wr_of E) t)); e = encoding ob in
      if otype ob = OBJ_STRING then save (RDB_TYPE_STRING R)
      else if otype ob = OBJ_LIST
      then if e = OBJ_ENCODING_QUICKLIST \<or> e = OBJ_ENCODING_LISTPACK then save (RDB_TYPE_LIST_QUICKLIST_2 R)
           else Inl Panicked
      else if otype ob = OBJ_SET
      then if e = OBJ_ENCODING_INTSET then save (RDB_TYPE_SET_INTSET R)
           else if e = OBJ_ENCODING_HT then save (RDB_TYPE_SET R)
           else if e = OBJ_ENCODING_LISTPACK then save (RDB_TYPE_SET_LISTPACK R)
           else Inl Panicked
      else if otype ob = OBJ_ZSET
      then if e = OBJ_ENCODING_LISTPACK then save (RDB_TYPE_ZSET_LISTPACK R)
           else if e = OBJ_ENCODING_SKIPLIST then save (RDB_TYPE_ZSET_2 R)
           else Inl Panicked
      else if otype ob = OBJ_HASH
      then if e = OBJ_ENCODING_LISTPACK then save (RDB_TYPE_HASH_LISTPACK R)
           else if e = OBJ_ENCODING_HT then save (RDB_TYPE_HASH R)
           else Inl Panicked
      else if otype ob = OBJ_STREAM then save (RDB_TYPE_STREAM_LISTPACKS_3 R)
      else if otype ob = OBJ_MODULE then save (RDB_TYPE_MODULE_2 R)
      else Inl Panicked)"

definition rdbLoadObjectType :: "'r rdb_env \<Rightarrow> ('r, u8) loader" where
  "rdbLoadObjectType E =
     lbind (rdbLoadType (rd_of E)) (\<lambda>type. if rdbIsObjectType (ops E) type then lret type else lfail)"

text \<open>The values that are strings; the other types are a parameter.\<close>

definition rdbSaveObject :: "'r rdb_env \<Rightarrow> robj \<Rightarrow> 'r saver cres" where
  "rdbSaveObject E ob =
     (if otype ob = OBJ_STRING then rdbSaveStringObject (fmt E) (wr_of E) (lib E) (lzf_of E) (compression E) ob
      else save_other E ob)"

definition rdbSavedObjectLen :: "'r rdb_env \<Rightarrow> robj \<Rightarrow> int cres" where
  "rdbSavedObjectLen E ob =
     cbind (rdbSaveObject E ob) (\<lambda>save.
     let len = fst (save None) in cbind (cassert (len \<noteq> - 1)) (\<lambda>_. Inr len))"

text \<open>Savers run one after the other until one fails.\<close>

definition plain :: "'r saver \<Rightarrow> 'r fsaver" where
  "plain a rdb = Inr (a rdb)"

definition late :: "'r saver cres \<Rightarrow> 'r fsaver" where
  "late m rdb = cbind m (\<lambda>a. Inr (a rdb))"

fun run_savers :: "'r fsaver list \<Rightarrow> 'r fsaver" where
  "run_savers [] rdb = Inr (0, rdb)"
| "run_savers (a # as) rdb =
     cbind (a rdb) (\<lambda>(n, rdb1).
     if n = - 1 then Inr (- 1, rdb1)
     else cbind (run_savers as rdb1) (\<lambda>(m, rdb2). Inr (if m = - 1 then - 1 else n + m, rdb2)))"

text \<open>On success 1 is returned. The key is a static string object.\<close>

definition rdbSaveKeyValuePair :: "'r rdb_env \<Rightarrow> server \<Rightarrow> sds \<Rightarrow> robj \<Rightarrow> int \<Rightarrow> 'r fsaver" where
  "rdbSaveKeyValuePair E s key val expiretime rdb =
     (let w = wr_of E; R = ops E;
          expire = (if expiretime \<noteq> - 1
                    then [rdbSaveType w (RDB_OPCODE_EXPIRETIME_MS R), rdbSaveMillisecondTime w expiretime] else []);
          idle = (if flag_set (maxmemory_policy s) MAXMEMORY_FLAG_LRU
                  then [rdbSaveType w (RDB_OPCODE_IDLE R), rdbSaveLen (fmt E) w (estimateObjectIdleTime s val div 1000)]
                  else []);
          freq = (if flag_set (maxmemory_policy s) MAXMEMORY_FLAG_LFU
                  then [rdbSaveType w (RDB_OPCODE_FREQ R), rdbWriteRaw w [ucast (LFUDecrAndReturn s val)]] else [])
      in cbind (run_savers (map plain (expire @ idle @ freq) @
           [late (rdbSaveObjectType E val),
            plain (rdbSaveRawString (fmt E) w (lib E) (lzf_of E) (compression E) key),
            late (rdbSaveObject E val)]) rdb) (\<lambda>(n, rdb').
         Inr (if n = - 1 then - 1 else 1, rdb')))"

text \<open>The pairs of a database; the releases of memory in the child are left out.\<close>

definition save_pair :: "'r rdb_env \<Rightarrow> server \<Rightarrow> nat \<Rightarrow> sds \<times> nat \<Rightarrow> 'r fsaver" where
  "save_pair E s i kv rdb =
     cbind (obj_at s (snd kv)) (\<lambda>ob.
     cbind (getExpire i (fst kv) s) (\<lambda>expire. rdbSaveKeyValuePair E s (fst kv) ob expire rdb))"

definition rdbSaveDb :: "'r rdb_env \<Rightarrow> server \<Rightarrow> nat \<Rightarrow> 'r fsaver" where
  "rdbSaveDb E s i rdb =
     cbind (get_db s i) (\<lambda>db.
     if dictSize (db_dict db) = 0 then Inr (0, rdb)
     else let w = wr_of E; len = (\<lambda>n. plain (rdbSaveLen (fmt E) w (of_nat n))) in
       run_savers ([plain (rdbSaveType w (RDB_OPCODE_SELECTDB (ops E))), len i,
                    plain (rdbSaveType w (RDB_OPCODE_RESIZEDB (ops E))), len (dictSize (db_dict db)),
                    len (dictSize (db_expires db))] @ map (save_pair E s i) (db_dict db)) rdb)"

subsection \<open>Saving a file\<close>

text \<open>The key and the value of an AUX field without their length, as \<open>strlen\<close> finds it.\<close>

definition rdbSaveAuxField :: "'r rdb_env \<Rightarrow> sds \<Rightarrow> sds \<Rightarrow> 'r saver" where
  "rdbSaveAuxField E key val =
     (let raw = rdbSaveRawString (fmt E) (wr_of E) (lib E) (lzf_of E) (compression E)
      in save_all [rdbSaveType (wr_of E) (RDB_OPCODE_AUX (ops E)), raw key, raw val])"

definition rdbSaveAuxFieldStrStr :: "'r rdb_env \<Rightarrow> string \<Rightarrow> sds \<Rightarrow> 'r saver" where
  "rdbSaveAuxFieldStrStr E key val = rdbSaveAuxField E (bytes_of key) (cstr val)"

definition rdbSaveAuxFieldStrInt :: "'r rdb_env \<Rightarrow> string \<Rightarrow> int \<Rightarrow> 'r saver" where
  "rdbSaveAuxFieldStrInt E key val = rdbSaveAuxField E (bytes_of key) (ll2string (lib E) val)"

text \<open>The state of replication that a file carries.\<close>

definition CONFIG_RUN_ID_SIZE :: nat where "CONFIG_RUN_ID_SIZE = 40"

record rdbSaveInfo =
  repl_stream_db :: int
  repl_id_is_set :: bool
  repl_id :: sds
  repl_offset :: int

definition RDB_SAVE_INFO_INIT :: rdbSaveInfo where
  "RDB_SAVE_INFO_INIT =
     \<lparr>repl_stream_db = - 1, repl_id_is_set = False, repl_id = replicate CONFIG_RUN_ID_SIZE 48, repl_offset = - 1\<rparr>"

text \<open>\<open>rsi\<close> is NULL when there is no replication to save. Pointers have 64 bits.\<close>

definition aux_fields :: "'r rdb_env \<Rightarrow> bool \<Rightarrow> rdbSaveInfo option \<Rightarrow> 'r saver list" where
  "aux_fields E aof_base rsi =
     [rdbSaveAuxFieldStrStr E ''redis-ver'' (redis_version E),
      rdbSaveAuxFieldStrInt E ''redis-bits'' 64,
      rdbSaveAuxFieldStrInt E ''ctime'' (time_now E),
      rdbSaveAuxFieldStrInt E ''used-mem'' (used_memory E)] @
     (case rsi of
        None \<Rightarrow> []
      | Some info \<Rightarrow>
          [rdbSaveAuxFieldStrInt E ''repl-stream-db'' (repl_stream_db info),
           rdbSaveAuxFieldStrStr E ''repl-id'' (replid E),
           rdbSaveAuxFieldStrInt E ''repl-offset'' (master_repl_offset E)]) @
     [rdbSaveAuxFieldStrInt E ''aof-base'' (if aof_base then 1 else 0)]"

definition rdbSaveInfoAuxFields :: "'r rdb_env \<Rightarrow> bool \<Rightarrow> rdbSaveInfo option \<Rightarrow> 'r saver" where
  "rdbSaveInfoAuxFields E aof_base rsi rdb =
     (let (n, rdb') = save_all (aux_fields E aof_base rsi) rdb in (if n = - 1 then - 1 else 1, rdb'))"

definition rdbSaveFunctions :: "'r rdb_env \<Rightarrow> 'r saver" where
  "rdbSaveFunctions E =
     save_all (concat (map (\<lambda>code.
       [rdbSaveType (wr_of E) (RDB_OPCODE_FUNCTION2 (ops E)),
        rdbSaveRawString (fmt E) (wr_of E) (lib E) (lzf_of E) (compression E) code]) (function_codes E)))"

text \<open>\<open>snprintf(magic, 10, "REDIS%04d", RDB_VERSION)\<close>.\<close>

definition magic :: "int \<Rightarrow> sds" where
  "magic v = (let ds = digits10 (nat v) in take 9 (bytes_of ''REDIS'' @ replicate (4 - length ds) 48 @ ds))"

record save_request =
  exclude_data :: bool
  exclude_functions :: bool
  aof_preamble_flag :: bool
  save_info :: "rdbSaveInfo option"

definition rio_parts :: "'r rdb_env \<Rightarrow> save_request \<Rightarrow> server \<Rightarrow> 'r fsaver list" where
  "rio_parts E req s =
     [plain (rdbWriteRaw (wr_of E) (magic (RDB_VERSION (ops E)))),
      plain (rdbSaveInfoAuxFields E (aof_preamble_flag req) (save_info req))] @
     (if exclude_data req then [] else [save_modules_aux E True]) @
     (if exclude_functions req then [] else [plain (rdbSaveFunctions E)]) @
     (if exclude_data req then [] else map (rdbSaveDb E s) [0..<dbnum s]) @
     (if exclude_data req then [] else [save_modules_aux E False]) @
     [plain (rdbSaveType (wr_of E) (RDB_OPCODE_EOF (ops E)))]"

definition rdbSaveRio :: "'r rdb_env \<Rightarrow> save_request \<Rightarrow> server \<Rightarrow> 'r \<Rightarrow> (cstatus \<times> 'r) cres" where
  "rdbSaveRio E req s r =
     cbind (run_savers (rio_parts E req s) (Some r)) (\<lambda>(n, rdb).
     let r1 = (case rdb of Some r1 \<Rightarrow> r1 | None \<Rightarrow> r) in
     if n = - 1 then Inr (C_ERR, r1)
     else let (ok, r2) = wr_of E (le_bytes 8 (cksum_of E r1)) r1 in Inr (if ok then C_OK else C_ERR, r2))"

text \<open>\<open>eofmark\<close>: 40 random hexadecimal digits.\<close>

definition rdbSaveRioWithEOFMark :: "'r rdb_env \<Rightarrow> save_request \<Rightarrow> sds \<Rightarrow> server \<Rightarrow> 'r \<Rightarrow> (cstatus \<times> 'r) cres" where
  "rdbSaveRioWithEOFMark E req eofmark s r =
     (let (ok1, r1) = wr_of E (bytes_of ''$EOF:'') r in if \<not> ok1 then Inr (C_ERR, r1)
      else let (ok2, r2) = wr_of E eofmark r1 in if \<not> ok2 then Inr (C_ERR, r2)
      else let (ok3, r3) = wr_of E [13, 10] r2 in if \<not> ok3 then Inr (C_ERR, r3)
      else cbind (rdbSaveRio E (req\<lparr>aof_preamble_flag := False\<rparr>) s r3) (\<lambda>(st, r4). if st = C_ERR then Inr (C_ERR, r4)
      else let (ok5, r5) = wr_of E eofmark r4 in Inr (if ok5 then C_OK else C_ERR, r5)))"

subsection \<open>Loading a file\<close>

definition NOTIFY_LOADED :: int where "NOTIFY_LOADED = 2 ^ 12"

text \<open>
  The attributes of the next key, the counters of the server and what the AUX fields set. A module or function opcode
  (\<open>load_special\<close>) goes on with \<open>LoadOk\<close>.
\<close>

record load_state =
  ld_db :: nat
  ld_expire :: int
  ld_freq :: int
  ld_idle :: int
  ld_keys_loaded :: nat
  ld_keys_expired :: nat
  ld_used_mem :: int
  ld_rsi :: "rdbSaveInfo option"

definition no_attributes :: "load_state \<Rightarrow> load_state" where
  "no_attributes ld = ld\<lparr>ld_expire := - 1, ld_freq := - 1, ld_idle := - 1\<rparr>"

definition rdbLoadObject :: "'r rdb_env \<Rightarrow> u8 \<Rightarrow> sds \<Rightarrow> 'r \<times> server \<Rightarrow> (load_value \<times> 'r \<times> server) cres" where
  "rdbLoadObject E rdbtype key rs =
     (if rdbtype = RDB_TYPE_STRING (ops E)
      then (case rdbLoadEncodedStringObject (fmt E) (rd_of E) (lib E) (lzf_of E) (alloc E) rs of
              (Some (ObjRef a), r', s') \<Rightarrow>
                cbind (tryObjectEncodingEx (lib E) a False s') (\<lambda>(b, s''). Inr (ValueAt b, r', s''))
            | (_, rs') \<Rightarrow> Inr (BadValue, rs'))
      else Inr (load_other E rdbtype key rs))"

text \<open>The lookup of the value and what is set on it, with the clocks read before the loop.\<close>

definition set_usage :: "nat \<Rightarrow> int \<Rightarrow> int \<Rightarrow> int \<Rightarrow> server \<Rightarrow> server cres" where
  "set_usage a lfu_freq lru_idle lru_clock s =
     cbind (obj_at s a) (\<lambda>ob.
     cbind (objectSetLRUOrLFU s ob lfu_freq lru_idle lru_clock 1000) (\<lambda>(_, ob'). Inr (set_obj a ob' s)))"

definition add_loaded :: "'r rdb_env \<Rightarrow> int \<Rightarrow> load_state \<Rightarrow> sds \<Rightarrow> nat \<Rightarrow> server \<Rightarrow> server cres" where
  "add_loaded E lru_clock ld key a s =
     (let i = ld_db ld in
      cbind (dbAddRDBLoad i key a s) (\<lambda>(added, s1).
      cbind (if added then Inr s1
             else if allow_dup E
             then cbind (dbSyncDelete i key s1) (\<lambda>(_, s2). cbind (dbAddRDBLoad i key a s2) (\<lambda>(_, s3). Inr s3))
             else Inl Panicked) (\<lambda>s2.
      cbind (if ld_expire ld \<noteq> - 1 then setExpire None i key (ld_expire ld) s2 else Inr s2) (\<lambda>s3.
      cbind (set_usage a (ld_freq ld) (ld_idle ld) lru_clock s3) (\<lambda>s4.
      cbind (get_db s4 i) (\<lambda>db. Inr (emit (ModuleNotifyKeyspace NOTIFY_LOADED ''loaded'' key (db_id db)) s4)))))))"

definition drop_expired :: "'r rdb_env \<Rightarrow> load_state \<Rightarrow> sds \<Rightarrow> nat \<Rightarrow> server \<Rightarrow> server cres" where
  "drop_expired E ld key a s =
     cbind (if feed_repl E
            then cbind (cassert (repl_backlog E \<and> slaves s = 0)) (\<lambda>_.
                 Inr (emit (FeedSlaves (ld_db ld) (if lazyfree_lazy_expire s then ''UNLINK'' else ''DEL'') key) s))
            else Inr s) (decrRefCount a)"

text \<open>A key of the given type: \<open>None\<close> goes to \<open>eoferr\<close>.\<close>

definition load_key ::
  "'r rdb_env \<Rightarrow> int \<Rightarrow> int \<Rightarrow> u8 \<Rightarrow> load_state \<Rightarrow> 'r \<times> server \<Rightarrow> (load_state option \<times> 'r \<times> server) cres" where
  "load_key E now lru_clock type ld rs =
     (case rdbGenericLoadStringObject (fmt E) (rd_of E) (lib E) (lzf_of E) (alloc E) RDB_LOAD_SDS rs of
        (Some (SdsStr key), rs1) \<Rightarrow>
          cbind (rdbLoadObject E type key rs1) (\<lambda>(val, r2, s2).
            case val of
              BadValue \<Rightarrow> Inr (None, r2, s2)
            | EmptyKey \<Rightarrow> Inr (Some (no_attributes ld), r2, s2)
            | ValueAt a \<Rightarrow>
                if i_am_master E \<and> \<not> aof_preamble E \<and> ld_expire ld \<noteq> - 1 \<and> ld_expire ld < now
                then cbind (drop_expired E ld key a s2) (\<lambda>s3.
                     Inr (Some (no_attributes (ld\<lparr>ld_keys_expired := ld_keys_expired ld + 1\<rparr>)), r2, s3))
                else cbind (add_loaded E lru_clock ld key a s2) (\<lambda>s3.
                     Inr (Some (no_attributes (ld\<lparr>ld_keys_loaded := ld_keys_loaded ld + 1\<rparr>)), r2, s3)))
      | (_, rs1) \<Rightarrow> Inr (None, rs1))"

text \<open>
  An AUX field: both strings are loaded and released. The fields that are only logged or are unknown
  change nothing; the state of replication is set when the caller asks for it. On LP64 \<open>strtoll\<close> is
  \<open>strtol\<close>.
\<close>

definition aux_value :: "sds \<Rightarrow> sds \<Rightarrow> load_state \<Rightarrow> load_state" where
  "aux_value key v ld =
     (let set_rsi = (\<lambda>f. ld\<lparr>ld_rsi := map_option f (ld_rsi ld)\<rparr>) in
      if take 1 (cstr key) = [37] then ld
      else if arg_is key ''repl-stream-db'' then set_rsi (\<lambda>rsi. rsi\<lparr>repl_stream_db := c_atoi v\<rparr>)
      else if arg_is key ''repl-id''
      then set_rsi (\<lambda>rsi. if length v = CONFIG_RUN_ID_SIZE then rsi\<lparr>repl_id := v, repl_id_is_set := True\<rparr> else rsi)
      else if arg_is key ''repl-offset'' then set_rsi (\<lambda>rsi. rsi\<lparr>repl_offset := c_strtol v\<rparr>)
      else if arg_is key ''used-mem'' then ld\<lparr>ld_used_mem := c_strtol v\<rparr>
      else ld)"

text \<open>A string object of \<open>rdbLoadStringObject\<close> holds its bytes.\<close>

definition load_aux :: "'r rdb_env \<Rightarrow> load_state \<Rightarrow> 'r \<times> server \<Rightarrow> (load_state option \<times> 'r \<times> server) cres" where
  "load_aux E ld rs =
     (let load = rdbLoadStringObject (fmt E) (rd_of E) (lib E) (lzf_of E) (alloc E) in
      case load rs of
        (Some (ObjRef a), rs1) \<Rightarrow>
          (case load rs1 of
             (Some (ObjRef b), r2, s2) \<Rightarrow>
               cbind (obj_at s2 a) (\<lambda>auxkey. cbind (obj_at s2 b) (\<lambda>auxval.
               cbind (decrRefCount a s2) (\<lambda>s3. cbind (decrRefCount b s3) (\<lambda>s4.
               Inr (Some (aux_value (str_bytes (lib E) auxkey) (str_bytes (lib E) auxval) ld), r2, s4)))))
           | (_, r2, s2) \<Rightarrow> cbind (decrRefCount a s2) (\<lambda>s3. Inr (None, r2, s3)))
      | (_, rs1) \<Rightarrow> Inr (None, rs1))"

text \<open>One turn: go on with the attributes, stop at EOF (\<open>LoadOk\<close>) or fail.\<close>

datatype turn = GoOn load_state | Stop load_result

definition attribute :: "('r, 'a) loader \<Rightarrow> ('a \<Rightarrow> turn) \<Rightarrow> 'r \<times> server \<Rightarrow> (turn \<times> 'r \<times> server) cres" where
  "attribute m f rs =
     (case on_rio m rs of (None, rs') \<Rightarrow> Inr (Stop LoadErr, rs') | (Some x, rs') \<Rightarrow> Inr (f x, rs'))"

definition load_opcode ::
  "'r rdb_env \<Rightarrow> int \<Rightarrow> int \<Rightarrow> u8 \<Rightarrow> load_state \<Rightarrow> 'r \<times> server \<Rightarrow> (turn \<times> 'r \<times> server) cres" where
  "load_opcode E now lru_clock type ld rs =
     (let R = ops E; rd = rd_of E in
      if type = RDB_OPCODE_EXPIRETIME R then attribute (rdbLoadTime rd) (\<lambda>t. GoOn (ld\<lparr>ld_expire := t * 1000\<rparr>)) rs
      else if type = RDB_OPCODE_EXPIRETIME_MS R
      then attribute (rdbLoadMillisecondTime rd) (\<lambda>t. GoOn (ld\<lparr>ld_expire := t\<rparr>)) rs
      else if type = RDB_OPCODE_FREQ R
      then attribute (rd 1) (\<lambda>b. GoOn (ld\<lparr>ld_freq := uint (hd b)\<rparr>)) rs
      else if type = RDB_OPCODE_IDLE R
      then attribute (load_len (fmt E) rd) (\<lambda>(_, q). GoOn (ld\<lparr>ld_idle := sint q\<rparr>)) rs
      else if type = RDB_OPCODE_EOF R then Inr (Stop LoadOk, rs)
      else if type = RDB_OPCODE_SELECTDB R
      then attribute (load_len (fmt E) rd)
             (\<lambda>(_, dbid). if dbnum (snd rs) \<le> unat dbid then Stop ServerExit else GoOn (ld\<lparr>ld_db := unat dbid\<rparr>)) rs
      else if type = RDB_OPCODE_RESIZEDB R
      then attribute (lbind (load_len (fmt E) rd) (\<lambda>_. load_len (fmt E) rd)) (\<lambda>_. GoOn ld) rs
      else if type = RDB_OPCODE_AUX R
      then cbind (load_aux E ld rs) (\<lambda>(res, rs').
           Inr (case res of None \<Rightarrow> Stop LoadErr | Some ld' \<Rightarrow> GoOn ld', rs'))
      else if type = RDB_OPCODE_MODULE_AUX R \<or> type = RDB_OPCODE_FUNCTION2 R
      then (let (res, rs') = load_special E type rs in Inr (if res = LoadOk then GoOn ld else Stop res, rs'))
      else if type = RDB_OPCODE_FUNCTION_PRE_GA R then Inr (Stop ServerExit, rs)
      else cbind (load_key E now lru_clock type ld rs) (\<lambda>(res, rs').
           Inr (case res of None \<Rightarrow> Stop LoadErr | Some ld' \<Rightarrow> GoOn ld', rs')))"

fun load_loop ::
  "'r rdb_env \<Rightarrow> int \<Rightarrow> int \<Rightarrow> nat \<Rightarrow> load_state \<Rightarrow> 'r \<times> server \<Rightarrow> (load_result \<times> load_state \<times> 'r \<times> server) cres" where
  "load_loop E now lru_clock 0 ld rs = Inl OutOfFuel"
| "load_loop E now lru_clock (Suc fuel) ld rs =
     (case on_rio (rdbLoadType (rd_of E)) rs of
        (None, rs') \<Rightarrow> Inr (LoadErr, ld, rs')
      | (Some type, rs') \<Rightarrow>
          cbind (load_opcode E now lru_clock type ld rs') (\<lambda>(turn, rs'').
            case turn of
              GoOn ld' \<Rightarrow> load_loop E now lru_clock fuel ld' rs''
            | Stop res \<Rightarrow> Inr (res, ld, rs'')))"

definition check_end :: "'r rdb_env \<Rightarrow> int \<Rightarrow> 'r \<times> server \<Rightarrow> load_result \<times> 'r \<times> server" where
  "check_end E rdbver rs =
     (if 5 \<le> rdbver
      then (case on_rio (rd_of E 8) rs of
              (None, rs') \<Rightarrow> (LoadErr, rs')
            | (Some bs, rs') \<Rightarrow>
                if check_cksum E \<and> of_le bs \<noteq> 0 \<and> of_le bs \<noteq> cksum_of E (fst rs) then (LoadErr, rs')
                else (LoadOk, rs'))
      else (LoadOk, rs))"

text \<open>The counters were cleared by \<open>startLoading\<close>.\<close>

definition start_load :: "rdbSaveInfo option \<Rightarrow> load_state" where
  "start_load rsi =
     \<lparr>ld_db = 0, ld_expire = - 1, ld_freq = - 1, ld_idle = - 1, ld_keys_loaded = 0, ld_keys_expired = 0,
      ld_used_mem = 0, ld_rsi = rsi\<rparr>"

definition rdbLoadRioWithLoadingCtx ::
  "'r rdb_env \<Rightarrow> rdbSaveInfo option \<Rightarrow> nat \<Rightarrow> 'r \<times> server \<Rightarrow> (load_result \<times> load_state \<times> 'r \<times> server) cres" where
  "rdbLoadRioWithLoadingCtx E rsi fuel rs =
     (let ld = start_load rsi in
      case on_rio (rd_of E 9) rs of
        (None, rs1) \<Rightarrow> Inr (LoadErr, ld, rs1)
      | (Some buf, r1, s1) \<Rightarrow>
          if take 5 buf \<noteq> bytes_of ''REDIS'' then Inr (LoadErr, ld, r1, s1)
          else let rdbver = c_atoi (drop 5 buf) in
            if rdbver < 1 \<or> RDB_VERSION (ops E) < rdbver then Inr (LoadErr, ld, r1, s1)
            else cbind (load_loop E (mstime s1) (uint (LRU_CLOCK s1)) fuel ld (r1, s1)) (\<lambda>(res, ld', rs2).
                 if res = LoadOk then (let (res', rs3) = check_end E rdbver rs2 in Inr (res', ld', rs3))
                 else Inr (res, ld', rs2)))"

end
