(* ===== verification/Rdb_Loading.thy ===== *)
theory Rdb_Loading
  imports Rdb_Keys
begin

section \<open>A snapshot loads back (rdb.c)\<close>

text \<open>
  The abstract view of a database is the map from its keys to the bytes of their strings and their
  expires. The lemmas follow one key through loading: the objects that existed keep their values
  (\<open>grows\<close>), the value is loaded, encoded and entered, and the view changes at that key only. A key is
  then a few turns of the loop, a database a sequence of keys, a file a sequence of databases.
\<close>

subsection \<open>The store only grows\<close>

text \<open>
  \<open>createEmbeddedStringObject\<close> leaves the history of the new object as the memory happened to be.
  \<open>mem_typed\<close> is the type of that memory, an array of \<open>HISTORY_SIZE\<close> times; the count beside it may be
  any byte. Loading adds one access when the policy is a histogram policy and another when the file
  holds an idle time (not under LFU); \<open>room\<close> says that this count of accesses does not make one of
  the two write past the array (\<open>initOrUpdateObjectt\<close> does when it finds \<open>HISTORY_SIZE\<close>). Under a
  policy that does neither there is no condition on the memory at all.
\<close>

definition mem_typed :: "server \<Rightarrow> bool" where
  "mem_typed s = (\<forall>a. length (fst (fresh_mem s a)) = HISTORY_SIZE)"

definition room :: "server \<Rightarrow> bool \<Rightarrow> u8 \<Rightarrow> bool" where
  "room s idle n =
     (flag_set (maxmemory_policy s) MAXMEMORY_FLAG_LFU
      \<or> ((flag_set (maxmemory_policy s) MAXMEMORY_FLAG_LRU_HISTOGRAM \<or> idle \<longrightarrow> unat n \<noteq> HISTORY_SIZE)
         \<and> (flag_set (maxmemory_policy s) MAXMEMORY_FLAG_LRU_HISTOGRAM \<and> idle \<longrightarrow> unat n \<noteq> HISTORY_SIZE - 1)))"

definition spare_history :: "bool \<Rightarrow> server \<Rightarrow> bool" where
  "spare_history idle s = (\<forall>a. room s idle (snd (fresh_mem s a)))"

definition fresh_count :: "server \<Rightarrow> robj \<Rightarrow> bool" where
  "fresh_count s ob = (num_accesses ob = 0 \<or> (\<exists>a. num_accesses ob = snd (fresh_mem s a)))"

lemma fresh_count_room: "fresh_count s ob \<Longrightarrow> spare_history idle s \<Longrightarrow> room s idle (num_accesses ob)"
  by (auto simp: fresh_count_def spare_history_def room_def HISTORY_SIZE_def)

lemma room_mono: "room s idle n \<Longrightarrow> (i \<Longrightarrow> idle) \<Longrightarrow> room s i n"
  by (auto simp: room_def)

definition grows :: "server \<Rightarrow> server \<Rightarrow> bool" where
  "grows s s' =
     (s' = s\<lparr>heap := heap s', next_addr := next_addr s', events := events s', dbs := dbs s'\<rparr>
      \<and> next_addr s \<le> next_addr s' \<and> fresh_ok s' \<and> dbnum s' = dbnum s
      \<and> (\<forall>c ob. heap s c = Some ob \<longrightarrow> (\<exists>ob'. heap s' c = Some ob' \<and> same_value ob ob')))"

lemma grows_fields:
  assumes "grows s s'"
  shows "maxmemory s' = maxmemory s" "maxmemory_policy s' = maxmemory_policy s" "fresh_mem s' = fresh_mem s"
    "shared_integers s' = shared_integers s" "slaves s' = slaves s" "masterhost s' = masterhost s"
    "cluster_enabled s' = cluster_enabled s" "fresh_ok s'" "next_addr s \<le> next_addr s'" "dbnum s' = dbnum s"
proof -
  have e: "s' = s\<lparr>heap := heap s', next_addr := next_addr s', events := events s', dbs := dbs s'\<rparr>"
    using assms by (simp add: grows_def)
  show "maxmemory s' = maxmemory s" "maxmemory_policy s' = maxmemory_policy s" "fresh_mem s' = fresh_mem s"
    "shared_integers s' = shared_integers s" "slaves s' = slaves s" "masterhost s' = masterhost s"
    "cluster_enabled s' = cluster_enabled s"
    by (subst e, simp)+
  show "fresh_ok s'" "next_addr s \<le> next_addr s'" "dbnum s' = dbnum s" using assms by (simp_all add: grows_def)
qed

lemma grows_refl: "fresh_ok s \<Longrightarrow> grows s s"
  by (auto simp: grows_def same_value_def)

lemma update_twice:
  "t = s\<lparr>heap := h, next_addr := n, events := e, dbs := d\<rparr> \<Longrightarrow>
     t\<lparr>heap := h', next_addr := n', events := e', dbs := d'\<rparr> = s\<lparr>heap := h', next_addr := n', events := e', dbs := d'\<rparr>"
  by simp

lemma grows_trans:
  assumes "grows s t" "grows t u"
  shows "grows s u"
proof -
  have e: "t = s\<lparr>heap := heap t, next_addr := next_addr t, events := events t, dbs := dbs t\<rparr>"
    "u = t\<lparr>heap := heap u, next_addr := next_addr u, events := events u, dbs := dbs u\<rparr>"
    using assms by (simp_all add: grows_def)
  have "u = s\<lparr>heap := heap u, next_addr := next_addr u, events := events u, dbs := dbs u\<rparr>"
    by (rule trans [OF e(2) update_twice [OF e(1)]])
  moreover have "\<exists>ob'. heap u c = Some ob' \<and> same_value ob ob'" if "heap s c = Some ob" for c ob
    using assms that unfolding grows_def by (meson same_value_trans)
  ultimately show ?thesis using assms by (simp add: grows_def)
qed

lemma str_ok_same: "same_value ob ob' \<Longrightarrow> str_ok ob' = str_ok ob"
  by (simp add: same_value_def str_ok_def sdsEncodedObject_def)

lemma str_bytes_same: "same_value ob ob' \<Longrightarrow> str_bytes L ob' = str_bytes L ob"
  by (simp add: same_value_def str_bytes_def)

lemma grows_shared: "grows s s' \<Longrightarrow> shared_ok s \<Longrightarrow> shared_ok s'"
  unfolding shared_ok_def
proof (intro allI impI)
  fix v assume g: "grows s s'"
    and sh: "\<forall>v. 0 \<le> v \<and> v < OBJ_SHARED_INTEGERS \<longrightarrow> (\<exists>ob. heap s (shared_integers s v) = Some ob \<and> str_ok ob
      \<and> encoding ob = OBJ_ENCODING_INT \<and> ptr ob = LongPtr v \<and> refcount ob = OBJ_SHARED_REFCOUNT)"
    and v: "0 \<le> v \<and> v < OBJ_SHARED_INTEGERS"
  obtain ob where ob: "heap s (shared_integers s v) = Some ob" "str_ok ob" "encoding ob = OBJ_ENCODING_INT"
      "ptr ob = LongPtr v" "refcount ob = OBJ_SHARED_REFCOUNT"
    using sh v by blast
  obtain ob' where "heap s' (shared_integers s v) = Some ob'" "same_value ob ob'"
    using g ob(1) unfolding grows_def by blast
  with ob g str_ok_same [OF this(2)] show "\<exists>ob. heap s' (shared_integers s' v) = Some ob \<and> str_ok ob
      \<and> encoding ob = OBJ_ENCODING_INT \<and> ptr ob = LongPtr v \<and> refcount ob = OBJ_SHARED_REFCOUNT"
    by (auto simp: grows_fields same_value_def)
qed

lemma grows_mem:
  assumes "grows s s'"
  shows "mem_typed s' = mem_typed s" "may_share s' = may_share s" "spare_history idle s' = spare_history idle s"
    "fresh_count s' ob = fresh_count s ob" "room s' idle n = room s idle n"
  by (simp_all add: mem_typed_def may_share_def spare_history_def room_def fresh_count_def grows_fields [OF assms])

text \<open>Objects below \<open>n\<close> stay as they are; above, objects come and go.\<close>

lemma growsI:
  assumes "s' = s\<lparr>heap := h, next_addr := n, events := e\<rparr>" "fresh_ok s'" "next_addr s \<le> n"
    and "\<And>c ob. heap s c = Some ob \<Longrightarrow> h c = Some ob"
  shows "grows s s'"
  using assms by (auto simp: grows_def same_value_def dbnum_def)

lemma only_new_grows: "only_new s s' \<Longrightarrow> fresh_ok s \<Longrightarrow> grows s s'"
  by (auto simp: only_new_def grows_def fresh_ok_def same_value_def dbnum_def)

lemma live_below: "fresh_ok s \<Longrightarrow> heap s c = Some ob \<Longrightarrow> c < next_addr s"
  by (rule ccontr) (simp add: fresh_ok_def)

subsection \<open>The value\<close>

lemma decr_frame:
  assumes "decrRefCount a s = Inr s'" "heap s a = Some ob" "refcount ob = 1"
  shows "\<exists>e. s' = s\<lparr>heap := (heap s)(a := None), events := e\<rparr>"
proof -
  obtain x where "s' = free_obj a (emit (FreeValue a x) s)" using assms by (auto simp: decrRefCount_def cres_simps)
  then have "s' = s\<lparr>heap := (heap s)(a := None), events := events s @ [FreeValue a x]\<rparr>"
    by (simp add: free_obj_def emit_def)
  then show ?thesis by blast
qed

lemma same_except:
  "s' = s\<lparr>heap := h, next_addr := n, events := e\<rparr> \<Longrightarrow>
     s' = s\<lparr>heap := heap s', next_addr := next_addr s', events := events s', dbs := dbs s'\<rparr>"
  by simp

text \<open>What encoding a new object does to the store: \<open>a\<close> is replaced by \<open>b\<close>.\<close>

definition replaced :: "server \<Rightarrow> nat \<Rightarrow> server \<Rightarrow> nat \<Rightarrow> bool" where
  "replaced s a s' b =
     ((\<exists>h n e. s' = s\<lparr>heap := h, next_addr := n, events := e\<rparr>) \<and> next_addr s \<le> next_addr s' \<and> fresh_ok s'
      \<and> (\<forall>c. c < a \<longrightarrow> heap s' c = heap s c)
      \<and> (\<forall>ob. heap s' b = Some ob \<longrightarrow> new_obj s' b ob
             \<or> may_share s \<and> (\<exists>v. 0 \<le> v \<and> v < OBJ_SHARED_INTEGERS \<and> b = shared_integers s v)))"

lemma emb_at:
  "createEmbeddedStringObject bs s = (b, t) \<Longrightarrow>
     b = next_addr s \<and> (\<exists>ob. t = s\<lparr>heap := (heap s)(b \<mapsto> ob), next_addr := Suc b\<rparr> \<and> new_obj t b ob)"
  by (auto simp: createEmbeddedStringObject_def alloc_obj_def new_obj_def)

lemma replaced_fresh:
  assumes "s' = s\<lparr>heap := (heap s)(next_addr s \<mapsto> ob', a := None), next_addr := Suc (next_addr s), events := e\<rparr>"
    and "a < next_addr s" "fresh_ok s" "new_obj s' (next_addr s) ob'"
  shows "replaced s a s' (next_addr s)"
  unfolding replaced_def
proof (intro conjI)
  show "\<exists>h n e. s' = s\<lparr>heap := h, next_addr := n, events := e\<rparr>" using assms(1) by blast
  show "fresh_ok s'" using assms(1-3) by (auto simp: fresh_ok_def)
qed (use assms in auto)

lemma replaced_emb:
  assumes "createEmbeddedStringObject bs s = (b, t)" "decrRefCount a t = Inr s'" "heap s a = Some ob" "refcount ob = 1"
    and "fresh_ok s"
  shows "replaced s a s' b"
proof -
  have na: "a < next_addr s" using live_below assms(3,5) by blast
  obtain ob' where t: "b = next_addr s" "t = s\<lparr>heap := (heap s)(b \<mapsto> ob'), next_addr := Suc b\<rparr>" "new_obj t b ob'"
    using emb_at [OF assms(1)] by blast
  have "heap t a = Some ob" using t assms(3) na by simp
  then obtain e where s': "s' = t\<lparr>heap := (heap t)(a := None), events := e\<rparr>"
    using decr_frame [OF assms(2)] assms(4) by blast
  then have "s' = s\<lparr>heap := (heap s)(next_addr s \<mapsto> ob', a := None), next_addr := Suc (next_addr s), events := e\<rparr>"
    using t by simp
  moreover have "new_obj s' (next_addr s) ob'" using t s' by (simp add: new_obj_def)
  ultimately show ?thesis using na assms(5) t(1) replaced_fresh by blast
qed

lemma replaced_same:
  assumes "heap s a = Some ob" "new_obj s a ob" "fresh_ok s"
  shows "replaced s a s a"
  unfolding replaced_def
proof (intro conjI)
  show "\<exists>h n e. s = s\<lparr>heap := h, next_addr := n, events := e\<rparr>"
    by (intro exI [of _ "heap s"] exI [of _ "next_addr s"] exI [of _ "events s"]) simp
qed (use assms in auto)

lemma replaced_in_place:
  assumes "heap s a = Some ob" "new_obj s a ob" "fresh_ok s" "refcount ob' = refcount ob"
    "access_times ob' = access_times ob" "num_accesses ob' = num_accesses ob"
  shows "replaced s a (set_obj a ob' s) a"
  unfolding replaced_def
proof (intro conjI)
  show "\<exists>h n e. set_obj a ob' s = s\<lparr>heap := h, next_addr := n, events := e\<rparr>"
    by (intro exI [of _ "(heap s)(a \<mapsto> ob')"] exI [of _ "next_addr s"] exI [of _ "events s"]) (simp add: set_obj_def)
  show "fresh_ok (set_obj a ob' s)" using assms(1,3) live_below by (auto simp: fresh_ok_def)
qed (use assms new_obj_set [of s a ob ob' a ob'] in auto)

lemma replaced_freed:
  assumes "decrRefCount a s = Inr s'" "heap s a = Some ob" "refcount ob = 1" "fresh_ok s" "may_share s"
    "0 \<le> v" "v < OBJ_SHARED_INTEGERS"
  shows "replaced s a s' (shared_integers s v)"
proof -
  obtain e where s': "s' = s\<lparr>heap := (heap s)(a := None), events := e\<rparr>" using decr_frame [OF assms(1-3)] by blast
  show ?thesis
    unfolding replaced_def
  proof (intro conjI)
    show "\<exists>h n e. s' = s\<lparr>heap := h, next_addr := n, events := e\<rparr>"
      using s' by (intro exI [of _ "(heap s)(a := None)"] exI [of _ "next_addr s"] exI [of _ e]) simp
  qed (use s' assms in \<open>auto simp: fresh_ok_def\<close>)
qed

lemma replaced_number:
  assumes "decrRefCount a s = Inr s1" "heap s a = Some ob" "refcount ob = 1" "fresh_ok s"
    and "createStringObjectFromLongLongForValue L v s1 = (b, s')"
  shows "replaced s a s' b"
proof -
  have na: "a < next_addr s" using live_below assms(2,4) by blast
  obtain e where s1: "s1 = s\<lparr>heap := (heap s)(a := None), events := e\<rparr>" using decr_frame [OF assms(1-3)] by blast
  then have f1: "fresh_ok s1" "may_share s1 = may_share s" "shared_integers s1 = shared_integers s" "next_addr s1 = next_addr s"
    using assms(4) by (auto simp: fresh_ok_def may_share_def)
  obtain flag where c: "createStringObjectFromLongLongWithOptions L v flag s1 = (b, s')"
      and fl: "flag = LL2STROBJ_AUTO \<longrightarrow> may_share s1"
    using assms(5) by (auto simp: createStringObjectFromLongLongForValue_def may_share_def split: if_splits)
  have "only_new s1 s'" using only_new_createFromLL [OF f1(1), of L v flag] c by simp
  then consider "s' = s1" | ob' where "s' = s1\<lparr>heap := (heap s1)(next_addr s1 \<mapsto> ob'), next_addr := Suc (next_addr s1)\<rparr>"
    by (auto simp: only_new_def)
  then show ?thesis
  proof cases
    case 1
    then show ?thesis
      unfolding replaced_def
      using s1 f1 fl createFromLL_new [OF c] by (auto intro!: exI [of _ "(heap s)(a := None)"] exI [of _ "next_addr s"])
  next
    case 2
    have s': "s' = s\<lparr>heap := (heap s)(a := None, next_addr s \<mapsto> ob'), next_addr := Suc (next_addr s), events := e\<rparr>"
      using 2 s1 by simp
    have new: "new_obj s' b ob2 \<or> flag = LL2STROBJ_AUTO \<and> 0 \<le> v \<and> v < OBJ_SHARED_INTEGERS \<and> b = shared_integers s v"
      if "heap s' b = Some ob2" for ob2
      using createFromLL_new [OF c that] f1(3) by auto
    show ?thesis
      unfolding replaced_def
    proof (intro conjI allI impI)
      show "\<exists>h n e. s' = s\<lparr>heap := h, next_addr := n, events := e\<rparr>" using s' by blast
      show "fresh_ok s'" "next_addr s \<le> next_addr s'" using s' assms(4) na by (auto simp: fresh_ok_def)
      show "heap s' c = heap s c" if "c < a" for c using s' na that by simp
      show "new_obj s' b ob2 \<or> may_share s \<and> (\<exists>v. 0 \<le> v \<and> v < OBJ_SHARED_INTEGERS \<and> b = shared_integers s v)"
        if "heap s' b = Some ob2" for ob2
        using new [OF that] fl f1(2) by auto
    qed
  qed
qed

lemma encode_replaces:
  assumes e: "tryObjectEncodingEx L a False s = Inr (b, s')"
    and ob: "heap s a = Some ob" "str_ok ob" "new_obj s a ob" and f: "fresh_ok s"
  shows "replaced s a s' b"
proof (cases "sdsEncodedObject ob")
  case False
  with e ob f show ?thesis by (auto simp: tryObjectEncodingEx_def str_ok_type intro: replaced_same)
next
  case True
  have rc: "refcount ob = 1" using ob(3) by (simp add: new_obj_def)
  obtain bs n where p: "ptr ob = SdsPtr bs n" using ob(2) True by (auto simp: str_ok_def sdsEncodedObject_def obj_encoding_defs)
  have small: "replaced s a s' b" if "encode_small a False ob bs s = Inr (b, s')"
    using that ob rc f by (auto simp: encode_small_def cres_simps split: if_splits prod.splits intro: replaced_same replaced_emb)
  from e ob(1) True rc p have "(case (if length bs \<le> 20 then string2ll L bs else None) of
           Some value \<Rightarrow>
             if (maxmemory s = 0 \<or> \<not> flag_set (maxmemory_policy s) MAXMEMORY_FLAG_NO_SHARED_INTEGERS)
                \<and> 0 \<le> value \<and> value < OBJ_SHARED_INTEGERS
             then cbind (decrRefCount a s) (\<lambda>s'. Inr (shared_integers s value, s'))
             else if encoding ob = OBJ_ENCODING_RAW
             then Inr (a, set_obj a (ob\<lparr>encoding := OBJ_ENCODING_INT, ptr := LongPtr value\<rparr>) s)
             else if encoding ob = OBJ_ENCODING_EMBSTR
             then cbind (decrRefCount a s) (\<lambda>s'. Inr (createStringObjectFromLongLongForValue L value s'))
             else encode_small a False ob bs s
         | None \<Rightarrow> encode_small a False ob bs s) = Inr (b, s')"
    by (simp add: tryObjectEncodingEx_def str_ok_type [OF ob(2)] sds_of_def)
  then show ?thesis
    using ob rc f small
    by (auto simp: cres_simps may_share_def split: option.splits if_splits
        intro: replaced_freed replaced_in_place replaced_number)
qed

text \<open>A value just loaded, with the history of its memory, and nothing else changed.\<close>

definition loaded_value :: "strlib \<Rightarrow> server \<Rightarrow> server \<Rightarrow> nat \<Rightarrow> sds \<Rightarrow> bool" where
  "loaded_value L s s' b v =
     (grows s s' \<and> dbs s' = dbs s
      \<and> (\<exists>ob. heap s' b = Some ob \<and> str_ok ob \<and> str_bytes L ob = v
           \<and> (next_addr s \<le> b \<and> refcount ob = 1 \<and> robj_wf ob \<and> fresh_count s ob
              \<or> may_share s \<and> refcount ob = OBJ_SHARED_REFCOUNT)))"

lemma only_new_dbs: "only_new s s' \<Longrightarrow> dbs s' = dbs s"
  by (auto simp: only_new_def)

lemma new_obj_typed: "new_obj s a ob \<Longrightarrow> mem_typed s \<Longrightarrow> refcount ob = 1 \<and> robj_wf ob \<and> fresh_count s ob"
  by (auto simp: new_obj_def mem_typed_def robj_wf_def fresh_count_def)

lemma loaded_valueI:
  assumes "only_new s s'" "is_str L s s' a v" "fresh_ok s" "mem_typed s"
  shows "loaded_value L s s' a v"
proof -
  have g: "grows s s'" by (rule only_new_grows [OF assms(1,3)])
  then show ?thesis
    using assms(2,4) new_obj_typed [of s' a] grows_mem [OF g] only_new_dbs [OF assms(1)]
    by (auto simp: loaded_value_def is_str_def)
qed

lemma replaced_grows:
  assumes "grows s t" "replaced t a u b" "next_addr s \<le> a" "fresh_ok s"
  shows "grows s u"
proof -
  obtain h n e where u: "u = t\<lparr>heap := h, next_addr := n, events := e\<rparr>" using assms(2) by (auto simp: replaced_def)
  have te: "t = s\<lparr>heap := heap t, next_addr := next_addr t, events := events t, dbs := dbs t\<rparr>"
    using assms(1) by (simp add: grows_def)
  have ue: "u = s\<lparr>heap := heap u, next_addr := next_addr u, events := events u, dbs := dbs u\<rparr>"
    by (rule trans [OF _ update_twice [OF te]]) (simp add: u)
  have "\<exists>ob'. heap u c = Some ob' \<and> same_value ob ob'" if h: "heap s c = Some ob" for c ob
  proof -
    have "c < a" using live_below [OF assms(4) h] assms(3) by simp
    then have "heap u c = heap t c" using assms(2) by (simp add: replaced_def)
    with assms(1) h show ?thesis by (simp add: grows_def)
  qed
  moreover have "next_addr s \<le> next_addr u" "fresh_ok u" "dbnum u = dbnum s"
    using assms(1,2) by (auto simp: replaced_def grows_def dbnum_def)
  ultimately show ?thesis unfolding grows_def using ue by blast
qed

context strlib_spec
begin

lemma encode_loaded:
  assumes s: "shared_ok s" "fresh_ok s" "mem_typed s"
    and t: "only_new s t" "is_str L s t a v"
  shows "\<exists>b u. tryObjectEncodingEx L a False t = Inr (b, u) \<and> loaded_value L s u b v"
proof -
  have lv: "loaded_value L s t a v" by (rule loaded_valueI [OF t s(2,3)])
  then have g: "grows s t" by (simp add: loaded_value_def)
  note ft = grows_fields(8) [OF g] and st = grows_shared [OF g s(1)] and mt = grows_mem [OF g]
  obtain ob where ob: "heap t a = Some ob" "str_ok ob" "str_bytes L ob = v"
      "next_addr s \<le> a \<and> new_obj t a ob \<or> may_share t \<and> refcount ob = OBJ_SHARED_REFCOUNT"
    using t(2) by (auto simp: is_str_def)
  from ob(4) show ?thesis
  proof
    assume "may_share t \<and> refcount ob = OBJ_SHARED_REFCOUNT"
    then have "tryObjectEncodingEx L a False t = Inr (a, t)"
      using ob by (auto simp: tryObjectEncodingEx_def str_ok_type refcount_defs)
    with lv show ?thesis by blast
  next
    assume n: "next_addr s \<le> a \<and> new_obj t a ob"
    obtain b u ob' where e: "tryObjectEncodingEx L a False t = Inr (b, u)" and same: "same_string L t a ob u b ob'"
      using encode_keeps [OF ob(1,2) st ft, of False] by blast
    have r: "replaced t a u b" using encode_replaces [OF e ob(1,2)] n ft by blast
    have gu: "grows s u" using replaced_grows [OF g r] n s(2) by blast
    have o': "heap u b = Some ob'" "str_ok ob'" "str_bytes L ob' = v" using same ob(3) by (auto simp: same_string_def)
    from r o'(1) consider "new_obj u b ob'"
      | w where "may_share t" "0 \<le> w" "w < OBJ_SHARED_INTEGERS" "b = shared_integers t w"
      by (auto simp: replaced_def)
    then have "next_addr s \<le> b \<and> refcount ob' = 1 \<and> robj_wf ob' \<and> fresh_count s ob'
        \<or> may_share s \<and> refcount ob' = OBJ_SHARED_REFCOUNT"
    proof cases
      case 1
      have "Suc a = next_addr t" "Suc b = next_addr u" using n 1 by (auto simp: new_obj_def)
      moreover have "next_addr t \<le> next_addr u" using r by (simp add: replaced_def)
      ultimately have "next_addr s \<le> b" using n by simp
      with new_obj_typed [OF 1] s(3) grows_mem(1,4) [OF gu] show ?thesis by simp
    next
      case 2
      have "shared_integers t w = shared_integers u w" using grows_fields(4) [OF gu] grows_fields(4) [OF g] by simp
      with 2 o'(1) grows_shared [OF gu s(1)] have "refcount ob' = OBJ_SHARED_REFCOUNT" by (auto simp: shared_ok_def)
      with 2(1) mt(2) show ?thesis by simp
    qed
    moreover have "dbs u = dbs s" using r only_new_dbs [OF t(1)] by (auto simp: replaced_def)
    ultimately show ?thesis using e gu o' unfolding loaded_value_def by blast
  qed
qed

end

text \<open>Dropping a value that was loaded.\<close>

lemma release_loaded:
  assumes "grows s t" "heap t a = Some ob" "str_ok ob" "fresh_ok s"
    and "next_addr s \<le> a \<and> refcount ob = 1 \<or> refcount ob = OBJ_SHARED_REFCOUNT"
  shows "\<exists>u. decrRefCount a t = Inr u \<and> grows s u \<and> dbs u = dbs t \<and> (\<forall>c. c \<noteq> a \<longrightarrow> heap u c = heap t c)
    \<and> (refcount ob = OBJ_SHARED_REFCOUNT \<longrightarrow> u = t)"
  using assms(5)
proof
  assume "refcount ob = OBJ_SHARED_REFCOUNT"
  then have "decrRefCount a t = Inr t" using assms(2) by (simp add: decrRefCount_def refcount_defs)
  with assms(1) show ?thesis by blast
next
  assume n: "next_addr s \<le> a \<and> refcount ob = 1"
  obtain u where d: "decrRefCount a t = Inr u" using decr_last_string [OF assms(2,3)] n by blast
  then obtain e where u: "u = t\<lparr>heap := (heap t)(a := None), events := e\<rparr>"
    using decr_frame [OF d assms(2)] n by blast
  have "\<exists>h n e. u = t\<lparr>heap := h, next_addr := n, events := e\<rparr>"
    using u by (intro exI [of _ "(heap t)(a := None)"] exI [of _ "next_addr t"] exI [of _ e]) simp
  then have "replaced t a u a"
    unfolding replaced_def using u grows_fields(8) [OF assms(1)] by (auto simp: fresh_ok_def)
  with d u n show ?thesis using replaced_grows [OF assms(1) _ _ assms(4)] by (auto simp: refcount_defs)
qed

subsection \<open>The view of a database\<close>

definition view :: "strlib \<Rightarrow> server \<Rightarrow> nat \<Rightarrow> sds \<Rightarrow> (sds \<times> int option) option" where
  "view L s i k =
     (if i < dbnum s
      then (case dictFind (db_dict (dbs s ! i)) k of
              None \<Rightarrow> None
            | Some a \<Rightarrow> (case heap s a of
                None \<Rightarrow> None
              | Some ob \<Rightarrow> Some (str_bytes L ob, dictFind (db_expires (dbs s ! i)) k)))
      else None)"

definition load_inv :: "server \<Rightarrow> bool" where
  "load_inv s =
     (shared_ok s \<and> fresh_ok s \<and> mem_typed s \<and> (\<forall>db \<in> set (dbs s). db_ok db)
      \<and> (\<forall>db \<in> set (dbs s). \<forall>k a. dictFind (db_dict db) k = Some a \<longrightarrow> heap s a \<noteq> None))"

lemma load_invD:
  assumes "load_inv s"
  shows "shared_ok s" "fresh_ok s" "mem_typed s" "i < dbnum s \<Longrightarrow> db_ok (dbs s ! i)"
    "i < dbnum s \<Longrightarrow> dictFind (db_dict (dbs s ! i)) k = Some a \<Longrightarrow> \<exists>ob. heap s a = Some ob"
proof -
  show "i < dbnum s \<Longrightarrow> dictFind (db_dict (dbs s ! i)) k = Some a \<Longrightarrow> \<exists>ob. heap s a = Some ob"
    using assms nth_mem [of i "dbs s"] unfolding load_inv_def dbnum_def by blast
qed (use assms in \<open>auto simp: load_inv_def dbnum_def\<close>)

lemma view_absent: "load_inv s \<Longrightarrow> i < dbnum s \<Longrightarrow> view L s i k = None \<longleftrightarrow> dictFind (db_dict (dbs s ! i)) k = None"
  using load_invD(5) by (fastforce simp: view_def split: option.splits)

lemma live_grows: "grows s s' \<Longrightarrow> heap s a \<noteq> None \<Longrightarrow> heap s' a \<noteq> None"
  unfolding grows_def by fastforce

lemma load_inv_grows:
  assumes "grows s s'" "load_inv s" "\<forall>db \<in> set (dbs s'). db_ok db"
    and "\<And>db k a. db \<in> set (dbs s') \<Longrightarrow> dictFind (db_dict db) k = Some a \<Longrightarrow> heap s' a \<noteq> None"
  shows "load_inv s'"
  using assms grows_shared [OF assms(1)] grows_fields(8) [OF assms(1)] grows_mem [OF assms(1)]
  by (auto simp: load_inv_def)

lemma same_dbs:
  assumes "grows s s'" "load_inv s" "dbs s' = dbs s"
  shows "load_inv s'" "view L s' = view L s"
proof -
  show "load_inv s'"
    using assms live_grows [OF assms(1)] by (intro load_inv_grows [OF assms(1,2)]) (auto simp: load_inv_def)
  show "view L s' = view L s"
  proof (intro ext)
    fix i k
    show "view L s' i k = view L s i k"
    proof (cases "i < dbnum s \<and> dictFind (db_dict (dbs s ! i)) k \<noteq> None")
      case True
      then obtain a ob where a: "dictFind (db_dict (dbs s ! i)) k = Some a" "heap s a = Some ob"
        using load_invD(5) [OF assms(2)] by blast
      then obtain ob' where "heap s' a = Some ob'" "same_value ob ob'" using assms(1) unfolding grows_def by blast
      with True a show ?thesis by (simp add: view_def dbnum_def assms(3) str_bytes_same)
    qed (use assms(3) in \<open>auto simp: view_def dbnum_def\<close>)
  qed
qed

subsection \<open>Entering the key\<close>

lemma room_same: "maxmemory_policy t = maxmemory_policy s \<Longrightarrow> room t idle n = room s idle n"
  by (simp add: room_def)

lemma count_not_full: "unat n \<noteq> HISTORY_SIZE \<longleftrightarrow> n \<noteq> (4 :: u8)"
  using unat_4_u8 by (metis HISTORY_SIZE_def unsigned_word_eqI)

lemma count_not_three: "unat n \<noteq> HISTORY_SIZE - 1 \<longleftrightarrow> n + 1 \<noteq> (4 :: u8)"
proof -
  have "n + 1 = 4 \<longleftrightarrow> n = (3 :: u8)" using add_right_cancel [of n 1 3] by simp
  moreover have "n = 3 \<longleftrightarrow> unat n = unat (3 :: u8)" by (rule word_unat_eq_iff)
  ultimately show ?thesis by (simp add: HISTORY_SIZE_def)
qed

lemma initOrUpdate_count:
  assumes "initOrUpdateObjectt ob now = Inr ob'"
  shows "num_accesses ob' = num_accesses ob + 1"
  using assms by (auto simp: initOrUpdateObjectt_def cbind_eq_Inr split: if_splits)

text \<open>
  An object with room has its first access recorded, and then room for the idle time; a shared one
  is left alone.
\<close>

lemma initObject_new:
  assumes "robj_wf ob \<and> room s idle (num_accesses ob) \<or> refcount ob = OBJ_SHARED_REFCOUNT"
  shows "\<exists>ob'. initObjectLRUOrLFU s ob = Inr ob' \<and> same_value ob ob'
           \<and> (refcount ob \<noteq> OBJ_SHARED_REFCOUNT \<longrightarrow> robj_wf ob'
                \<and> (flag_set (maxmemory_policy s) MAXMEMORY_FLAG_LFU \<or> \<not> idle \<or> num_accesses ob' \<noteq> 4))"
proof (cases "refcount ob = OBJ_SHARED_REFCOUNT")
  case False
  then have ob: "robj_wf ob" "room s idle (num_accesses ob)" using assms by auto
  have lru: "same_value ob (ob\<lparr>lru := l\<rparr>) \<and> robj_wf (ob\<lparr>lru := l\<rparr>) \<and> num_accesses (ob\<lparr>lru := l\<rparr>) = num_accesses ob" for l
    using ob(1) by (simp add: same_value_def robj_wf_def)
  show ?thesis
  proof (cases "\<not> flag_set (maxmemory_policy s) MAXMEMORY_FLAG_LFU
                \<and> flag_set (maxmemory_policy s) MAXMEMORY_FLAG_LRU_HISTOGRAM")
    case True
    then have n: "num_accesses ob \<noteq> 4" "idle \<Longrightarrow> num_accesses ob + 1 \<noteq> 4"
      using ob(2) unfolding room_def count_not_full count_not_three by auto
    let ?ob = "ob\<lparr>lru := ucast (ucast (LRU_CLOCK s) :: u64)\<rparr>"
    obtain ob' where o': "initOrUpdateObjectt ?ob (ucast (LRU_CLOCK s)) = Inr ob'" "same_value ?ob ob'"
      using initOrUpdate_same [of ?ob] lru n(1) by metis
    then have "same_value ob ob'" "robj_wf ob'" "idle \<Longrightarrow> num_accesses ob' \<noteq> 4"
      using lru same_value_trans n(2) initOrUpdate_count [OF o'(1)] by (auto simp: same_value_def)
    then show ?thesis using True False o'(1) by (auto simp: initObjectLRUOrLFU_def Let_def)
  next
    case nh: False
    then have "flag_set (maxmemory_policy s) MAXMEMORY_FLAG_LFU \<or> \<not> idle \<or> num_accesses ob \<noteq> 4"
      using ob(2) by (auto simp: room_def count_not_full)
    then show ?thesis using nh False lru by (auto simp: initObjectLRUOrLFU_def)
  qed
qed (simp add: initObjectLRUOrLFU_def same_value_def)

lemma objectSet_ok:
  assumes "flag_set (maxmemory_policy s) MAXMEMORY_FLAG_LFU \<or> lru_idle < 0 \<or> robj_wf ob \<and> num_accesses ob \<noteq> 4"
    and "lfu_freq \<le> 255"
  shows "\<exists>r ob'. objectSetLRUOrLFU s ob lfu_freq lru_idle clk 1000 = Inr (r, ob') \<and> same_value ob ob'"
proof -
  have l: "same_value ob (ob\<lparr>lru := l\<rparr>)" for l by (simp add: same_value_def robj_wf_def)
  have "\<exists>ob'. initOrUpdateObjectt (ob\<lparr>lru := l\<rparr>) now = Inr ob' \<and> same_value ob ob'"
    if "robj_wf ob" "num_accesses ob \<noteq> 4" for l now
    using initOrUpdate_same [of "ob\<lparr>lru := l\<rparr>" now] that same_value_trans [OF l [of l]] by (auto simp: robj_wf_def)
  then have idle: "robj_wf ob \<Longrightarrow> num_accesses ob \<noteq> 4 \<Longrightarrow> \<exists>r ob'. cbind (initOrUpdateObjectt (ob\<lparr>lru := l\<rparr>) now) (\<lambda>ob. Inr (True, ob)) = Inr (r, ob') \<and> same_value ob ob'" for l now
    by (metis cbind_Inr)
  have id: "same_value ob ob" by (simp add: same_value_def)
  show ?thesis
  proof (cases "flag_set (maxmemory_policy s) MAXMEMORY_FLAG_LFU")
    case True
    then show ?thesis using assms(2) l id by (cases "0 \<le> lfu_freq") (auto simp: objectSetLRUOrLFU_def)
  next
    case False
    then show ?thesis using assms(1) idle id by (cases "0 \<le> lru_idle") (auto simp: objectSetLRUOrLFU_def Let_def simp del: cbind_Inr cres_simps)
  qed
qed

definition entered :: "sds \<Rightarrow> nat \<Rightarrow> int \<Rightarrow> redisDb \<Rightarrow> redisDb" where
  "entered key b e db =
     db\<lparr>db_dict := dictSet (db_dict db) key b,
        db_expires := (if e = - 1 then db_expires db else dictSet (db_expires db) key e)\<rparr>"

lemma entered_simps [simp]:
  "db_dict (entered key b e db) = dictSet (db_dict db) key b"
  "db_expires (entered key b e db) = (if e = - 1 then db_expires db else dictSet (db_expires db) key e)"
  by (simp_all add: entered_def)

lemma db_ok_entered: "db_ok db \<Longrightarrow> db_ok (entered key b e db)"
  by (auto simp: db_ok_def table_simps)

lemma put_db_fields [simp]:
  "heap (put_db i d s) = heap s" "dbs (put_db i d s) = (dbs s)[i := d]" "maxmemory_policy (put_db i d s) = maxmemory_policy s"
  "get_db (emit e s) i = get_db s i" "get_db (set_obj a ob s) i = get_db s i"
  by (simp_all add: put_db_def get_db_def)

lemma add_loaded_steps:
  assumes i: "ld_db ld < length (dbs t)" and k: "dictFind (db_dict (dbs t ! ld_db ld)) key = None"
    and ob: "heap t b = Some ob" "robj_wf ob \<and> room t (0 \<le> ld_idle ld) (num_accesses ob) \<or> refcount ob = OBJ_SHARED_REFCOUNT"
    and safe: "flag_set (maxmemory_policy t) MAXMEMORY_FLAG_LFU \<or> ld_idle ld < 0 \<or> refcount ob \<noteq> OBJ_SHARED_REFCOUNT"
    and freq: "ld_freq ld \<le> 255"
  shows "\<exists>u ob' e. add_loaded E clk ld key b t = Inr u \<and> same_value ob ob'
    \<and> u = t\<lparr>heap := (heap t)(b \<mapsto> ob'), events := e,
           dbs := (dbs t)[ld_db ld := entered key b (ld_expire ld) (dbs t ! ld_db ld)]\<rparr>"
proof -
  let ?i = "ld_db ld" let ?db = "dbs t ! ?i" let ?x = "ld_expire ld"
  let ?d1 = "?db\<lparr>db_dict := dictSet (db_dict ?db) key b\<rparr>"
  obtain ob1 where ob1: "initObjectLRUOrLFU t ob = Inr ob1" "same_value ob ob1"
      "refcount ob \<noteq> OBJ_SHARED_REFCOUNT \<longrightarrow> robj_wf ob1
        \<and> (flag_set (maxmemory_policy t) MAXMEMORY_FLAG_LFU \<or> \<not> 0 \<le> ld_idle ld \<or> num_accesses ob1 \<noteq> 4)"
    using initObject_new [OF ob(2)] by blast
  define s1 where "s1 = (let s = put_db ?i ?d1 (set_obj b ob1 t) in if cluster_enabled s then emit (SlotToKeyAdd (db_id ?db) key) s else s)"
  have a: "dbAddRDBLoad ?i key b t = Inr (True, s1)"
    using i k ob(1) ob1(1) by (simp add: dbAddRDBLoad_def s1_def Let_def)
  have h1: "heap s1 b = Some ob1" "dbs s1 = (dbs t)[?i := ?d1]" "maxmemory_policy s1 = maxmemory_policy t"
    by (simp_all add: s1_def Let_def)
  define s3 where "s3 = (if ?x \<noteq> - 1 then put_db ?i (entered key b ?x ?db) s1 else s1)"
  have x: "(if ?x \<noteq> - 1 then setExpire None ?i key ?x s1 else Inr s1) = Inr s3"
    using i h1(2) by (simp add: setExpire_def s3_def table_simps entered_def)
  have h3: "heap s3 b = Some ob1" "dbs s3 = (dbs t)[?i := entered key b ?x ?db]" "maxmemory_policy s3 = maxmemory_policy t"
    using h1 by (simp_all add: s3_def entered_def)
  obtain r ob2 where ob2: "objectSetLRUOrLFU s3 ob1 (ld_freq ld) (ld_idle ld) clk 1000 = Inr (r, ob2)" "same_value ob1 ob2"
    using objectSet_ok [of s3 "ld_idle ld" ob1 "ld_freq ld" clk] safe freq ob1(3) h3(3) by auto
  let ?u = "emit (ModuleNotifyKeyspace NOTIFY_LOADED ''loaded'' key (db_id (entered key b ?x ?db))) (set_obj b ob2 s3)"
  have "add_loaded E clk ld key b t = Inr ?u"
    using i h3 ob2(1) by (simp add: add_loaded_def Let_def a x set_usage_def)
  moreover have "\<exists>e. ?u = t\<lparr>heap := (heap t)(b \<mapsto> ob2), events := e, dbs := (dbs t)[?i := entered key b ?x ?db]\<rparr>"
  proof (rule exI)
    show "?u = t\<lparr>heap := (heap t)(b \<mapsto> ob2), events := events ?u, dbs := (dbs t)[?i := entered key b ?x ?db]\<rparr>"
      by (simp add: s3_def s1_def Let_def put_db_def set_obj_def emit_def entered_def)
  qed
  moreover have "same_value ob ob2" by (rule same_value_trans [OF ob1(2) ob2(2)])
  ultimately show ?thesis by blast
qed

text \<open>The view after a key was entered.\<close>

lemma entered_view:
  assumes inv: "load_inv s" and g: "grows s t" "dbs t = dbs s" and i: "i < dbnum s" and k: "view L s i key = None"
    and ob: "heap t b = Some ob" "same_value ob ob'"
    and u: "u = t\<lparr>heap := (heap t)(b \<mapsto> ob'), events := e, dbs := (dbs t)[i := entered key b x (dbs t ! i)]\<rparr>"
  shows "grows s u \<and> load_inv u
    \<and> view L u = (view L s)(i := (view L s i)(key \<mapsto> (str_bytes L ob, if x = - 1 then None else Some x)))"
proof -
  have gt: "grows t u"
    using u ob live_below [OF grows_fields(8) [OF g(1)] ob(1)] grows_fields(8) [OF g(1)]
    by (auto simp: grows_def fresh_ok_def same_value_def dbnum_def)
  have gu: "grows s u" by (rule grows_trans [OF g(1) gt])
  have inv_t: "load_inv t" "view L t = view L s" using same_dbs [OF g(1) inv g(2)] by simp_all
  have it: "i < dbnum t" "i < length (dbs t)" using i g(2) by (simp_all add: dbnum_def)
  have kt: "dictFind (db_dict (dbs t ! i)) key = None"
    using k inv_t(2) by (simp add: view_absent [OF inv_t(1) it(1), of L, symmetric])
  have xt: "dictFind (db_expires (dbs t ! i)) key = None"
    using load_invD(4) [OF inv_t(1) it(1)] kt by (auto simp: db_ok_def)
  have "\<forall>db \<in> set (dbs u). db_ok db"
    using inv_t(1) it u by (auto simp: load_inv_def dest!: set_update_subset_insert [THEN subsetD] intro: db_ok_entered)
  moreover have "heap u a \<noteq> None" if "db \<in> set (dbs u)" "dictFind (db_dict db) k' = Some a" for db k' a
  proof -
    have "db = entered key b x (dbs t ! i) \<or> db \<in> set (dbs t)"
      using that(1) u set_update_subset_insert [of "dbs t" i] by auto
    moreover have "heap t a \<noteq> None" if "db \<in> set (dbs t)" "dictFind (db_dict db) k' = Some a" for db
      using inv_t(1) that unfolding load_inv_def by blast
    from this [of "dbs t ! i"] this [of db] calculation have "a = b \<or> heap t a \<noteq> None"
      using that(2) nth_mem [OF it(2)] by (auto simp: table_simps split: if_splits)
    then show ?thesis using u by auto
  qed
  ultimately have "load_inv u" by (rule load_inv_grows [OF gt inv_t(1)])
  moreover have v: "view L u j k' = ((view L t)(i := (view L t i)(key \<mapsto> (str_bytes L ob, if x = - 1 then None else Some x)))) j k'" for j k'
  proof (cases "j = i")
    case True
    then show ?thesis
      using u it xt str_bytes_same [OF ob(2)] ob(1)
      by (auto simp: view_def dbnum_def table_simps split: option.splits)
  next
    case False
    then show ?thesis
      using u str_bytes_same [OF ob(2)] ob(1)
      by (auto simp: view_def dbnum_def nth_list_update split: option.splits)
  qed
  ultimately show ?thesis using gu ext [OF ext [OF v]] unfolding inv_t(2) by blast
qed

subsection \<open>Turns of the loop\<close>

definition plain_ld :: "load_state \<Rightarrow> nat \<Rightarrow> bool" where
  "plain_ld ld i = (ld_db ld = i \<and> ld_expire ld = - 1 \<and> ld_freq ld = - 1 \<and> ld_idle ld = - 1)"

text \<open>A master drops the keys whose expire has passed.\<close>

definition dropped :: "'r rdb_env \<Rightarrow> int \<Rightarrow> int \<Rightarrow> bool" where
  "dropped E now e = (i_am_master E \<and> \<not> aof_preamble E \<and> e \<noteq> - 1 \<and> e < now)"

text \<open>
  What loading needs of the server: when idle times were saved (\<open>idle\<close>), no value may be a shared
  integer unless the policy is LFU, because the history of a shared integer would fill up; the memory
  of new objects leaves \<open>room\<close> in their histories; expired keys are only fed to replicas when there
  are none yet.
\<close>

definition can_load :: "'r rdb_env \<Rightarrow> bool \<Rightarrow> server \<Rightarrow> bool" where
  "can_load E idle s =
     (load_inv s \<and> (idle \<longrightarrow> flag_set (maxmemory_policy s) MAXMEMORY_FLAG_LFU \<or> \<not> may_share s)
      \<and> spare_history idle s \<and> (feed_repl E \<longrightarrow> repl_backlog E \<and> slaves s = 0))"

lemma can_load_grows: "can_load E idle s \<Longrightarrow> grows s t \<Longrightarrow> load_inv t \<Longrightarrow> can_load E idle t"
  by (auto simp: can_load_def grows_fields grows_mem)

lemma grows_emit: "grows s t \<Longrightarrow> grows s (emit e t)"
  by (rule grows_trans) (auto simp: grows_def emit_def fresh_ok_def same_value_def dbnum_def)

locale rdb_file = rdb_strings "wr_of E" "rd_of E" written unread "fmt E" "lib E" "lzf_of E" + rdb_ops_spec "ops E"
  for E :: "'r rdb_env" and written unread :: "'r \<Rightarrow> sds"
begin

text \<open>From any stream that goes on with \<open>bs\<close>, at most \<open>N\<close> turns consume it and lead to a state in \<open>Q\<close>.\<close>

definition reach ::
  "int \<Rightarrow> int \<Rightarrow> nat \<Rightarrow> sds \<Rightarrow> load_state \<Rightarrow> server \<Rightarrow> (load_state \<Rightarrow> server \<Rightarrow> bool) \<Rightarrow> bool" where
  "reach now clk N bs ld s Q \<longleftrightarrow>
     (\<forall>r rest. unread r = bs @ rest \<longrightarrow>
        (\<exists>n ld' r' s'. n \<le> N \<and> unread r' = rest \<and> Q ld' s'
           \<and> (\<forall>fuel. load_loop E now clk (n + fuel) ld (r, s) = load_loop E now clk fuel ld' (r', s'))))"

lemma reachD:
  assumes "reach now clk N bs ld s Q" "unread r = bs @ rest"
  obtains n ld' r' s' where "n \<le> N" "unread r' = rest" "Q ld' s'"
    "\<And>fuel. load_loop E now clk (n + fuel) ld (r, s) = load_loop E now clk fuel ld' (r', s')"
  using assms unfolding reach_def by blast

lemma reach_none: "Q ld s \<Longrightarrow> reach now clk 0 [] ld s Q"
  unfolding reach_def by (intro allI impI exI [of _ 0]) auto

lemma reach_then:
  assumes "reach now clk N bs ld s Q" "\<And>ld' s'. Q ld' s' \<Longrightarrow> reach now clk M cs ld' s' P"
  shows "reach now clk (N + M) (bs @ cs) ld s P"
  unfolding reach_def
proof (intro allI impI)
  fix r rest assume "unread r = (bs @ cs) @ rest"
  then have r: "unread r = bs @ cs @ rest" by simp
  obtain n ld1 r1 s1 where 1: "n \<le> N" "unread r1 = cs @ rest" "Q ld1 s1"
      "\<And>fuel. load_loop E now clk (n + fuel) ld (r, s) = load_loop E now clk fuel ld1 (r1, s1)"
    by (rule reachD [OF assms(1) r]) (rule that)
  obtain m ld2 r2 s2 where 2: "m \<le> M" "unread r2 = rest" "P ld2 s2"
      "\<And>fuel. load_loop E now clk (m + fuel) ld1 (r1, s1) = load_loop E now clk fuel ld2 (r2, s2)"
    by (rule reachD [OF assms(2) [OF 1(3)] 1(2)]) (rule that)
  have "load_loop E now clk (n + m + fuel) ld (r, s) = load_loop E now clk fuel ld2 (r2, s2)" for fuel
    using 1(4) [of "m + fuel"] 2(4) by (simp add: add.assoc)
  then show "\<exists>n ld' r' s'. n \<le> N + M \<and> unread r' = rest \<and> P ld' s'
      \<and> (\<forall>fuel. load_loop E now clk (n + fuel) ld (r, s) = load_loop E now clk fuel ld' (r', s'))"
    using 1(1) 2(1-3) by (intro exI [of _ "n + m"] exI [of _ ld2] exI [of _ r2] exI [of _ s2]) simp
qed

lemma reach_weaken: "reach now clk N bs ld s Q \<Longrightarrow> (\<And>ld' s'. Q ld' s' \<Longrightarrow> P ld' s') \<Longrightarrow> N \<le> M \<Longrightarrow> reach now clk M bs ld s P"
  unfolding reach_def by (meson le_trans)

lemma loadsD: "loads m bs x \<Longrightarrow> unread r = bs @ rest \<Longrightarrow> \<exists>r'. m r = (Some x, r') \<and> unread r' = rest"
  unfolding loads_def by (metis prod.collapse)

lemma reach_turn:
  assumes "\<And>r rest. unread r = bs @ rest \<Longrightarrow>
    \<exists>ld' r' s'. load_opcode E now clk op ld (r, s) = Inr (GoOn ld', (r', s')) \<and> unread r' = rest \<and> Q ld' s'"
  shows "reach now clk 1 (op # bs) ld s Q"
  unfolding reach_def
proof (intro allI impI)
  fix r rest assume "unread r = (op # bs) @ rest"
  then obtain r1 where r1: "rdbLoadType (rd_of E) r = (Some op, r1)" "unread r1 = bs @ rest"
    using loadsD [OF loads_type, of r op "bs @ rest"] by auto
  obtain ld' r' s' where "load_opcode E now clk op ld (r1, s) = Inr (GoOn ld', (r', s'))" "unread r' = rest" "Q ld' s'"
    using assms [OF r1(2)] by blast
  with r1 show "\<exists>n ld' r' s'. n \<le> 1 \<and> unread r' = rest \<and> Q ld' s'
      \<and> (\<forall>fuel. load_loop E now clk (n + fuel) ld (r, s) = load_loop E now clk fuel ld' (r', s'))"
    by (intro exI [of _ 1] exI [of _ ld'] exI [of _ r'] exI [of _ s']) (simp add: on_rio_def)
qed

lemma attributeI:
  assumes "loads m bs x" "f x = GoOn ld'" "unread r = bs @ rest"
  shows "\<exists>r'. attribute m f (r, s) = Inr (GoOn ld', (r', s)) \<and> unread r' = rest"
  using loadsD [OF assms(1,3)] assms(2) by (auto simp: attribute_def on_rio_def)

lemma reach_attribute:
  assumes "\<And>r. load_opcode E now clk op ld (r, s) = attribute m f (r, s)" "loads m bs x" "f x = GoOn ld'"
  shows "reach now clk 1 (op # bs) ld s (\<lambda>l t. l = ld' \<and> t = s)"
  by (rule reach_turn) (use attributeI [where m = m and f = f, OF assms(2,3)] assms(1) in fastforce)

lemma reversed_opcodes: "distinct (rev (opcodes (ops E)))"
  using distinct_opcodes by simp

lemmas opcode_order =
  distinct_opcodes [unfolded opcodes_def, simplified] reversed_opcodes [unfolded opcodes_def rev.simps append.simps, simplified]

lemma dispatch:
  "load_opcode E now clk (RDB_OPCODE_EXPIRETIME_MS (ops E)) ld rs =
     attribute (rdbLoadMillisecondTime (rd_of E)) (\<lambda>t. GoOn (ld\<lparr>ld_expire := t\<rparr>)) rs"
  "load_opcode E now clk (RDB_OPCODE_FREQ (ops E)) ld rs =
     attribute (rd_of E 1) (\<lambda>b. GoOn (ld\<lparr>ld_freq := uint (hd b)\<rparr>)) rs"
  "load_opcode E now clk (RDB_OPCODE_IDLE (ops E)) ld rs =
     attribute (load_len (fmt E) (rd_of E)) (\<lambda>(_, q). GoOn (ld\<lparr>ld_idle := sint q\<rparr>)) rs"
  "load_opcode E now clk (RDB_OPCODE_SELECTDB (ops E)) ld rs =
     attribute (load_len (fmt E) (rd_of E))
       (\<lambda>(_, dbid). if dbnum (snd rs) \<le> unat dbid then Stop ServerExit else GoOn (ld\<lparr>ld_db := unat dbid\<rparr>)) rs"
  "load_opcode E now clk (RDB_OPCODE_RESIZEDB (ops E)) ld rs =
     attribute (lbind (load_len (fmt E) (rd_of E)) (\<lambda>_. load_len (fmt E) (rd_of E))) (\<lambda>_. GoOn ld) rs"
  "load_opcode E now clk (RDB_OPCODE_AUX (ops E)) ld rs =
     cbind (load_aux E ld rs) (\<lambda>(res, rs'). Inr (case res of None \<Rightarrow> Stop LoadErr | Some ld' \<Rightarrow> GoOn ld', rs'))"
  "load_opcode E now clk (RDB_OPCODE_EOF (ops E)) ld rs = Inr (Stop LoadOk, rs)"
  by (simp_all add: load_opcode_def Let_def opcode_order)

lemma reach_expire:
  "in_ll e \<Longrightarrow> reach now clk 1 (RDB_OPCODE_EXPIRETIME_MS (ops E) # le_bytes 8 (word_of_int e)) ld s
     (\<lambda>l t. l = ld\<lparr>ld_expire := e\<rparr> \<and> t = s)"
  by (rule reach_attribute [OF dispatch(1) loads_ms]) simp_all

lemma reach_freq:
  "reach now clk 1 (RDB_OPCODE_FREQ (ops E) # [f]) ld s (\<lambda>l t. l = ld\<lparr>ld_freq := uint f\<rparr> \<and> t = s)"
  by (rule reach_attribute [OF dispatch(2) loads_read]) simp_all

lemma reach_idle:
  "q \<noteq> RDB_LENERR (fmt E) \<Longrightarrow> reach now clk 1 (RDB_OPCODE_IDLE (ops E) # len_bytes (fmt E) q) ld s
     (\<lambda>l t. l = ld\<lparr>ld_idle := sint q\<rparr> \<and> t = s)"
  by (rule reach_attribute [OF dispatch(3) loads_len]) simp_all

lemma reach_selectdb:
  "unat d < dbnum s \<Longrightarrow> d \<noteq> RDB_LENERR (fmt E) \<Longrightarrow>
     reach now clk 1 (RDB_OPCODE_SELECTDB (ops E) # len_bytes (fmt E) d) ld s (\<lambda>l t. l = ld\<lparr>ld_db := unat d\<rparr> \<and> t = s)"
  by (rule reach_attribute [OF dispatch(4) [where rs = "(_, s)", simplified snd_conv] loads_len]) simp_all

lemma reach_resizedb:
  assumes "n \<noteq> RDB_LENERR (fmt E)" "m \<noteq> RDB_LENERR (fmt E)"
  shows "reach now clk 1 (RDB_OPCODE_RESIZEDB (ops E) # len_bytes (fmt E) n @ len_bytes (fmt E) m) ld s
     (\<lambda>l t. l = ld \<and> t = s)"
  by (rule reach_attribute [OF dispatch(5) loads_bind [OF loads_len [OF assms(1)] loads_len [OF assms(2)]]]) simp

end

lemma load_state_plain: "plain_ld (no_attributes ld) (ld_db ld)" "ld_db (no_attributes ld) = ld_db ld"
  by (simp_all add: plain_ld_def no_attributes_def)

text \<open>The view after a key was read: unchanged when the key is dropped.\<close>

definition with_key ::
  "'r rdb_env \<Rightarrow> int \<Rightarrow> nat \<Rightarrow> sds \<Rightarrow> sds \<Rightarrow> int \<Rightarrow> (nat \<Rightarrow> sds \<Rightarrow> (sds \<times> int option) option) \<Rightarrow>
     nat \<Rightarrow> sds \<Rightarrow> (sds \<times> int option) option" where
  "with_key E now i key v e f =
     (if dropped E now e then f else f(i := (f i)(key \<mapsto> (v, if e = - 1 then None else Some e))))"

lemma drop_loaded:
  assumes s: "can_load E idle s" and u: "loaded_value L s u b v"
  shows "\<exists>w. drop_expired E ld key b u = Inr w \<and> grows s w \<and> dbs w = dbs s"
proof -
  obtain ob where g: "grows s u" "dbs u = dbs s" and ob: "heap u b = Some ob" "str_ok ob"
      "next_addr s \<le> b \<and> refcount ob = 1 \<or> refcount ob = OBJ_SHARED_REFCOUNT"
    using u by (auto simp: loaded_value_def)
  have f: "fresh_ok s" using s by (simp add: can_load_def load_inv_def)
  let ?e = "FeedSlaves (ld_db ld) (if lazyfree_lazy_expire u then ''UNLINK'' else ''DEL'') key"
  have "\<exists>w. decrRefCount b u = Inr w \<and> grows s w \<and> dbs w = dbs s"
    using release_loaded [OF g(1) ob(1,2) f ob(3)] g(2) by auto
  moreover have "\<exists>w. decrRefCount b (emit ?e u) = Inr w \<and> grows s w \<and> dbs w = dbs s"
    using release_loaded [OF grows_emit [OF g(1), of ?e] _ ob(2) f ob(3)] ob(1) g(2) by auto
  ultimately show ?thesis
    using s grows_fields(5) [OF g(1)] by (simp add: drop_expired_def can_load_def)
qed

lemma add_loaded_ok:
  assumes s: "can_load E idle s" and u: "loaded_value L s u b v"
    and i: "ld_db ld < dbnum s" and k: "view L s (ld_db ld) key = None"
    and att: "ld_idle ld < 0 \<or> idle" "ld_freq ld \<le> 255"
  shows "\<exists>w. add_loaded E clk ld key b u = Inr w \<and> grows s w \<and> load_inv w
    \<and> view L w = (view L s)(ld_db ld := (view L s (ld_db ld))(key \<mapsto> (v, if ld_expire ld = - 1 then None else Some (ld_expire ld))))"
proof -
  obtain ob where g: "grows s u" "dbs u = dbs s" and ob: "heap u b = Some ob" "str_bytes L ob = v"
      "refcount ob = 1 \<and> robj_wf ob \<and> fresh_count s ob \<or> may_share s \<and> refcount ob = OBJ_SHARED_REFCOUNT"
    using u by (auto simp: loaded_value_def)
  have inv: "load_inv s" using s by (simp add: can_load_def)
  have iu: "ld_db ld < length (dbs u)" using i g(2) by (simp add: dbnum_def)
  have ku: "dictFind (db_dict (dbs u ! ld_db ld)) key = None"
    using k view_absent [OF inv i] g(2) by simp
  have safe: "flag_set (maxmemory_policy u) MAXMEMORY_FLAG_LFU \<or> ld_idle ld < 0 \<or> refcount ob \<noteq> OBJ_SHARED_REFCOUNT"
    using s att(1) ob(3) grows_fields(2) [OF g(1)] by (auto simp: can_load_def refcount_defs)
  have "spare_history idle s" using s by (simp add: can_load_def)
  then have "fresh_count s ob \<Longrightarrow> room u (0 \<le> ld_idle ld) (num_accesses ob)"
    using room_mono [OF fresh_count_room, of s ob idle "0 \<le> ld_idle ld"] att(1) grows_mem(5) [OF g(1)] by auto
  then have wf: "robj_wf ob \<and> room u (0 \<le> ld_idle ld) (num_accesses ob) \<or> refcount ob = OBJ_SHARED_REFCOUNT"
    using ob(3) by blast
  obtain w ob' e where w: "add_loaded E clk ld key b u = Inr w" "same_value ob ob'"
      "w = u\<lparr>heap := (heap u)(b \<mapsto> ob'), events := e,
           dbs := (dbs u)[ld_db ld := entered key b (ld_expire ld) (dbs u ! ld_db ld)]\<rparr>"
    using add_loaded_steps [OF iu ku ob(1) wf safe att(2)] by blast
  show ?thesis
    using entered_view [OF inv g i k ob(1) w(2,3)] w(1) ob(2) by blast
qed

context rdb_file
begin

definition str_loads :: "rdb_load \<Rightarrow> sds \<Rightarrow> sds \<Rightarrow> bool" where
  "str_loads flags bs v =
     loads_string flags (rdbGenericLoadStringObject (fmt E) (rd_of E) (lib E) (lzf_of E) (alloc E) flags) bs v"

lemma str_loadsD:
  assumes "str_loads flags bs v" "unread r = bs @ rest" "load_inv s"
  obtains x r' s' where "rdbGenericLoadStringObject (fmt E) (rd_of E) (lib E) (lzf_of E) (alloc E) flags (r, s) = (Some x, (r', s'))"
    "unread r' = rest" "only_new s s'" "denotes (lib E) flags s s' x v"
proof -
  have "shared_ok s" "fresh_ok s" using load_invD [OF assms(3)] by simp_all
  with assms show ?thesis using that unfolding str_loads_def loads_string_def by blast
qed

lemma only_new_load:
  assumes "only_new s s'" "can_load E idle s"
  shows "grows s s'" "can_load E idle s'" "view L s' = view L s" "load_inv s'" "dbnum s' = dbnum s"
proof -
  have inv: "load_inv s" using assms(2) by (simp add: can_load_def)
  show g: "grows s s'" using only_new_grows [OF assms(1)] load_invD(2) [OF inv] by blast
  note same = same_dbs [OF g inv only_new_dbs [OF assms(1)]]
  show "load_inv s'" "view L s' = view L s" using same by simp_all
  then show "can_load E idle s'" using can_load_grows [OF assms(2) g] by simp
  show "dbnum s' = dbnum s" using only_new_dbs [OF assms(1)] by (simp add: dbnum_def)
qed

lemma load_object_ok:
  assumes "str_loads RDB_LOAD_ENC bs v" "unread r = bs @ rest" "can_load E idle s"
  shows "\<exists>b r' u. rdbLoadObject E (RDB_TYPE_STRING (ops E)) key (r, s) = Inr (ValueAt b, (r', u))
           \<and> unread r' = rest \<and> loaded_value (lib E) s u b v"
proof -
  have inv: "load_inv s" using assms(3) by (simp add: can_load_def)
  obtain x r' s' where l: "rdbGenericLoadStringObject (fmt E) (rd_of E) (lib E) (lzf_of E) (alloc E) RDB_LOAD_ENC (r, s) = (Some x, (r', s'))"
      "unread r' = rest" "only_new s s'" "denotes (lib E) RDB_LOAD_ENC s s' x v"
    by (rule str_loadsD [OF assms(1,2) inv]) (rule that)
  then obtain a where a: "x = ObjRef a" "is_str (lib E) s s' a v" by auto
  obtain b u where e: "tryObjectEncodingEx (lib E) a False s' = Inr (b, u)" "loaded_value (lib E) s u b v"
    using encode_loaded [OF load_invD(1-3) [OF inv] l(3) a(2)] by blast
  with l a show ?thesis by (simp add: rdbLoadObject_def rdbLoadEncodedStringObject_def)
qed

lemma string_turn: "load_opcode E now clk (RDB_TYPE_STRING (ops E)) ld rs =
    cbind (load_key E now clk (RDB_TYPE_STRING (ops E)) ld rs)
      (\<lambda>(res, rs'). Inr (case res of None \<Rightarrow> Stop LoadErr | Some ld' \<Rightarrow> GoOn ld', rs'))"
  using types_not_opcodes [OF string_type] by (simp add: load_opcode_def opcodes_def Let_def)

lemma key_turn:
  assumes s: "can_load E idle s" and i: "ld_db ld = i" "i < dbnum s" and k: "view (lib E) s i key = None"
    and codes: "str_loads RDB_LOAD_SDS kb key" "str_loads RDB_LOAD_ENC vb v"
    and att: "ld_idle ld < 0 \<or> idle" "ld_freq ld \<le> 255"
  shows "reach now clk 1 (RDB_TYPE_STRING (ops E) # kb @ vb) ld s
    (\<lambda>l t. plain_ld l i \<and> grows s t \<and> load_inv t \<and> view (lib E) t = with_key E now i key v (ld_expire ld) (view (lib E) s))"
proof (rule reach_turn)
  fix r rest assume r: "unread r = (kb @ vb) @ rest"
  have inv: "load_inv s" using s by (simp add: can_load_def)
  obtain x r1 s1 where K: "rdbGenericLoadStringObject (fmt E) (rd_of E) (lib E) (lzf_of E) (alloc E) RDB_LOAD_SDS (r, s) = (Some x, (r1, s1))"
      "unread r1 = vb @ rest" "only_new s s1" "denotes (lib E) RDB_LOAD_SDS s s1 x key"
    using r by (auto intro: str_loadsD [OF codes(1) _ inv])
  then have x: "x = SdsStr key" by simp
  note s1 = only_new_load [OF K(3) s]
  obtain b r' u where V: "rdbLoadObject E (RDB_TYPE_STRING (ops E)) key (r1, s1) = Inr (ValueAt b, (r', u))"
      "unread r' = rest" "loaded_value (lib E) s1 u b v"
    using load_object_ok [OF codes(2) K(2) s1(2)] by blast
  have i1: "ld_db ld < dbnum s1" "view (lib E) s1 (ld_db ld) key = None"
    using i k s1(3,5) by simp_all
  have start: "load_opcode E now clk (RDB_TYPE_STRING (ops E)) ld (r, s) =
      cbind (if dropped E now (ld_expire ld) then drop_expired E ld key b u else add_loaded E clk ld key b u)
        (\<lambda>w. Inr (GoOn (no_attributes (if dropped E now (ld_expire ld) then ld\<lparr>ld_keys_expired := ld_keys_expired ld + 1\<rparr>
                    else ld\<lparr>ld_keys_loaded := ld_keys_loaded ld + 1\<rparr>)), (r', w)))"
    by (simp add: string_turn load_key_def K(1) x V(1) dropped_def cbind_assoc)
  show "\<exists>ld' r' s'. load_opcode E now clk (RDB_TYPE_STRING (ops E)) ld (r, s) = Inr (GoOn ld', (r', s')) \<and> unread r' = rest
      \<and> plain_ld ld' i \<and> grows s s' \<and> load_inv s' \<and> view (lib E) s' = with_key E now i key v (ld_expire ld) (view (lib E) s)"
  proof (cases "dropped E now (ld_expire ld)")
    case True
    obtain w where w: "drop_expired E ld key b u = Inr w" "grows s1 w" "dbs w = dbs s1"
      using drop_loaded [OF s1(2) V(3)] by blast
    then have "load_inv w" "view (lib E) w = view (lib E) s1"
      using same_dbs [OF w(2) s1(4) w(3)] by simp_all
    with True w grows_trans [OF s1(1) w(2)] V(2) s1(3) i(1) show ?thesis
      unfolding start by (auto simp: with_key_def load_state_plain [of "ld\<lparr>ld_keys_expired := _\<rparr>", simplified])
  next
    case False
    obtain w where w: "add_loaded E clk ld key b u = Inr w" "grows s1 w" "load_inv w"
        "view (lib E) w = (view (lib E) s1)(ld_db ld := (view (lib E) s1 (ld_db ld))(key \<mapsto> (v, if ld_expire ld = - 1 then None else Some (ld_expire ld))))"
      using add_loaded_ok [OF s1(2) V(3) i1 att] by blast
    with False grows_trans [OF s1(1) w(2)] V(2) s1(3) i(1) show ?thesis
      unfolding start by (auto simp: with_key_def load_state_plain [of "ld\<lparr>ld_keys_loaded := _\<rparr>", simplified])
  qed
qed

end

subsection \<open>A key and its value\<close>

context rdb_file
begin

text \<open>A saver that writes exactly \<open>bs\<close> unless a write fails, whatever it returns.\<close>

definition fsaves :: "'r fsaver \<Rightarrow> sds \<Rightarrow> bool" where
  "fsaves m bs \<longleftrightarrow>
     (\<forall>r. \<exists>n r'. m (Some r) = Inr (n, Some r') \<and> (n = - 1 \<and> \<not> reliable \<or> 0 \<le> n \<and> written r' = written r @ bs))"

lemma fsaves_plain: "saves a bs \<Longrightarrow> fsaves (plain a) bs"
  unfolding fsaves_def saves_def plain_def
proof (intro allI)
  fix r assume "a None = (int (length bs), None) \<and> (\<forall>r. \<exists>r'. \<not> reliable \<and> a (Some r) = (- 1, Some r')
    \<or> a (Some r) = (int (length bs), Some r') \<and> written r' = written r @ bs)"
  then obtain r' where "\<not> reliable \<and> a (Some r) = (- 1, Some r') \<or> a (Some r) = (int (length bs), Some r') \<and> written r' = written r @ bs"
    by blast
  then show "\<exists>n r'. Inr (a (Some r)) = Inr (n, Some r') \<and> (n = - 1 \<and> \<not> reliable \<or> 0 \<le> n \<and> written r' = written r @ bs)"
    by auto
qed

lemma fsaves_late: "saves a bs \<Longrightarrow> fsaves (late (Inr a)) bs"
  using fsaves_plain [of a bs] by (simp add: fsaves_def plain_def late_def)

lemma fsavesD:
  assumes "fsaves m bs"
  obtains n r' where "m (Some r) = Inr (n, Some r')" "n = - 1 \<and> \<not> reliable \<or> 0 \<le> n \<and> written r' = written r @ bs"
  using assms unfolding fsaves_def by blast

lemma fsaves_run: "list_all2 fsaves ms bss \<Longrightarrow> fsaves (run_savers ms) (concat bss)"
proof (induction rule: list_all2_induct)
  case Nil
  then show ?case by (simp add: fsaves_def)
next
  case (Cons m ms bs bss)
  show ?case
    unfolding fsaves_def
  proof
    fix r
    obtain n r1 where 1: "m (Some r) = Inr (n, Some r1)" "n = - 1 \<and> \<not> reliable \<or> 0 \<le> n \<and> written r1 = written r @ bs"
      by (rule fsavesD [OF Cons(1)]) (rule that)
    obtain k r2 where 2: "run_savers ms (Some r1) = Inr (k, Some r2)" "k = - 1 \<and> \<not> reliable \<or> 0 \<le> k \<and> written r2 = written r1 @ concat bss"
      by (rule fsavesD [OF Cons(3)]) (rule that)
    from 1 2 show "\<exists>n r'. run_savers (m # ms) (Some r) = Inr (n, Some r') \<and> (n = - 1 \<and> \<not> reliable \<or> 0 \<le> n \<and> written r' = written r @ concat (bs # bss))"
      by auto
  qed
qed

definition attribute_bytes :: "int \<Rightarrow> u64 option \<Rightarrow> u8 option \<Rightarrow> sds list" where
  "attribute_bytes e q f =
     (if e \<noteq> - 1 then [[RDB_OPCODE_EXPIRETIME_MS (ops E)], le_bytes 8 (word_of_int e)] else []) @
     (case q of None \<Rightarrow> [] | Some q \<Rightarrow> [[RDB_OPCODE_IDLE (ops E)], len_bytes (fmt E) q]) @
     (case f of None \<Rightarrow> [] | Some f \<Rightarrow> [[RDB_OPCODE_FREQ (ops E)], [f]])"

lemma reach_attributes:
  assumes "plain_ld ld i" "in_ll e" "\<And>x. q = Some x \<Longrightarrow> x \<noteq> RDB_LENERR (fmt E)"
  shows "reach now clk 3 (concat (attribute_bytes e q f)) ld s
    (\<lambda>l t. t = s \<and> ld_db l = i \<and> ld_expire l = e \<and> ld_freq l \<le> 255 \<and> (q = None \<longrightarrow> ld_idle l < 0))"
proof -
  have 1: "reach now clk 1 (concat (if e \<noteq> - 1 then [[RDB_OPCODE_EXPIRETIME_MS (ops E)], le_bytes 8 (word_of_int e)] else [])) ld s
      (\<lambda>l t. t = s \<and> ld_db l = i \<and> ld_expire l = e \<and> ld_freq l = - 1 \<and> ld_idle l = - 1)"
  proof (cases "e = - 1")
    case True
    then show ?thesis using assms(1)
      by (auto intro!: reach_weaken [OF reach_none [where Q = "\<lambda>l t. l = ld \<and> t = s"]] simp: plain_ld_def)
  next
    case False
    then show ?thesis using assms(1)
      by (auto intro!: reach_weaken [OF reach_expire [OF assms(2)]] simp: plain_ld_def)
  qed
  have 2: "reach now clk 1 (concat (case q of None \<Rightarrow> [] | Some q \<Rightarrow> [[RDB_OPCODE_IDLE (ops E)], len_bytes (fmt E) q])) l s
      (\<lambda>l' t. t = s \<and> ld_db l' = i \<and> ld_expire l' = e \<and> ld_freq l' = - 1 \<and> (q = None \<longrightarrow> ld_idle l' < 0))"
    if "ld_db l = i \<and> ld_expire l = e \<and> ld_freq l = - 1 \<and> ld_idle l = - 1" for l :: load_state
  proof (cases q)
    case None
    then show ?thesis using that
      by (auto intro!: reach_weaken [OF reach_none [where Q = "\<lambda>l' t. l' = l \<and> t = s"]])
  next
    case (Some x)
    then show ?thesis using that
      by (auto intro!: reach_weaken [OF reach_idle [OF assms(3) [OF Some]]])
  qed
  have f: "uint (x :: u8) \<le> 255" for x using uint_u8_bound [of x] by simp
  have 3: "reach now clk 1 (concat (case f of None \<Rightarrow> [] | Some f \<Rightarrow> [[RDB_OPCODE_FREQ (ops E)], [f]])) l s
      (\<lambda>l t. t = s \<and> ld_db l = i \<and> ld_expire l = e \<and> ld_freq l \<le> 255 \<and> (q = None \<longrightarrow> ld_idle l < 0))"
    if "ld_db l = i \<and> ld_expire l = e \<and> ld_freq l = - 1 \<and> (q = None \<longrightarrow> ld_idle l < 0)" for l :: load_state
  proof (cases f)
    case None
    then show ?thesis using that
      by (auto intro!: reach_weaken [OF reach_none [where Q = "\<lambda>l' t. l' = l \<and> t = s"]])
  next
    case (Some x)
    then show ?thesis using that f by (auto intro!: reach_weaken [OF reach_freq])
  qed
  have "reach now clk (1 + (1 + 1)) (concat (attribute_bytes e q f)) ld s
    (\<lambda>l t. t = s \<and> ld_db l = i \<and> ld_expire l = e \<and> ld_freq l \<le> 255 \<and> (q = None \<longrightarrow> ld_idle l < 0))"
    unfolding attribute_bytes_def concat_append
  proof (rule reach_then [OF 1], rule reach_then)
    fix l :: load_state and t assume "t = s \<and> ld_db l = i \<and> ld_expire l = e \<and> ld_freq l = - 1 \<and> ld_idle l = - 1"
    then show "reach now clk 1 (concat (case q of None \<Rightarrow> [] | Some q \<Rightarrow> [[RDB_OPCODE_IDLE (ops E)], len_bytes (fmt E) q])) l t
      (\<lambda>l' t. t = s \<and> ld_db l' = i \<and> ld_expire l' = e \<and> ld_freq l' = - 1 \<and> (q = None \<longrightarrow> ld_idle l' < 0))"
      using 2 [of l] by blast
  next
    fix l :: load_state and t assume "t = s \<and> ld_db l = i \<and> ld_expire l = e \<and> ld_freq l = - 1 \<and> (q = None \<longrightarrow> ld_idle l < 0)"
    then show "reach now clk 1 (concat (case f of None \<Rightarrow> [] | Some f \<Rightarrow> [[RDB_OPCODE_FREQ (ops E)], [f]])) l t
      (\<lambda>l t. t = s \<and> ld_db l = i \<and> ld_expire l = e \<and> ld_freq l \<le> 255 \<and> (q = None \<longrightarrow> ld_idle l < 0))"
      using 3 [of l] by blast
  qed
  then show ?thesis by (simp add: numeral_3_eq_3)
qed

end

text \<open>What a snapshot can hold in this model: string values of less than \<open>2 ^ 63\<close> bytes.\<close>

definition stringy :: "strlib \<Rightarrow> robj \<Rightarrow> bool" where
  "stringy L ob = (str_ok ob \<and> length (str_bytes L ob) < 2 ^ 63)"

lemma idle_not_error: "(w :: u64) div 1000 \<noteq> - 1"
proof
  assume "w div 1000 = - 1"
  then have "unat (w div 1000) = unat (- 1 :: u64)" by simp
  then have "unat w div 1000 = 2 ^ 64 - 1" by (simp add: unat_div unsigned_minus_1_eq_mask mask_eq_exp_minus_1)
  moreover have "unat w < 2 ^ 64" by (rule order_less_le_trans [OF unsigned_less]) simp
  ultimately show False by simp
qed

context rdb_file
begin

lemma string_codeE:
  assumes "string_code (alloc E) a v"
  obtains bs where "saves a bs" "\<And>flags. str_loads flags bs v"
  using assms unfolding string_code_def str_loads_def by blast

lemma pair_code:
  assumes mem: "\<And>n. alloc E n" and ob: "stringy (lib E) ob" and key: "length key < 2 ^ 63" and e: "in_ll e"
  shows "\<exists>bs. fsaves (rdbSaveKeyValuePair E s key ob e) bs
    \<and> (\<forall>now clk ld t i. plain_ld ld i \<and> can_load E (flag_set (maxmemory_policy s) MAXMEMORY_FLAG_LRU) t
          \<and> i < dbnum t \<and> view (lib E) t i key = None \<longrightarrow>
        reach now clk 4 bs ld t (\<lambda>l u. plain_ld l i \<and> grows t u \<and> load_inv u
          \<and> view (lib E) u = with_key E now i key (str_bytes (lib E) ob) e (view (lib E) t)))"
proof -
  define q where "q = (if flag_set (maxmemory_policy s) MAXMEMORY_FLAG_LRU then Some (estimateObjectIdleTime s ob div 1000) else None)"
  define f where "f = (if flag_set (maxmemory_policy s) MAXMEMORY_FLAG_LFU then Some (ucast (LFUDecrAndReturn s ob) :: u8) else None)"
  obtain kb where kb: "saves (rdbSaveRawString (fmt E) (wr_of E) (lib E) (lzf_of E) (compression E) key) kb"
      "\<And>flags. str_loads flags kb key"
    by (rule string_codeE [OF raw_code [OF key mem, where rdb_compression = "compression E"]]) (rule that)
  obtain a where a: "rdbSaveStringObject (fmt E) (wr_of E) (lib E) (lzf_of E) (compression E) ob = Inr a"
      "string_code (alloc E) a (str_bytes (lib E) ob)"
    using object_code [of ob "alloc E" "compression E"] ob mem by (auto simp: stringy_def)
  obtain vb where vb: "saves a vb" "\<And>flags. str_loads flags vb (str_bytes (lib E) ob)"
    by (rule string_codeE [OF a(2)]) (rule that)
  have ty: "otype ob = OBJ_STRING" using ob by (simp add: stringy_def str_ok_type)
  let ?bs = "attribute_bytes e q f @ [[RDB_TYPE_STRING (ops E)], kb, vb]"
  let ?savers = "map plain ((if e \<noteq> - 1 then [rdbSaveType (wr_of E) (RDB_OPCODE_EXPIRETIME_MS (ops E)), rdbSaveMillisecondTime (wr_of E) e] else []) @
      (if flag_set (maxmemory_policy s) MAXMEMORY_FLAG_LRU
       then [rdbSaveType (wr_of E) (RDB_OPCODE_IDLE (ops E)), rdbSaveLen (fmt E) (wr_of E) (estimateObjectIdleTime s ob div 1000)] else []) @
      (if flag_set (maxmemory_policy s) MAXMEMORY_FLAG_LFU
       then [rdbSaveType (wr_of E) (RDB_OPCODE_FREQ (ops E)), rdbWriteRaw (wr_of E) [ucast (LFUDecrAndReturn s ob)]] else [])) @
    [late (rdbSaveObjectType E ob),
     plain (rdbSaveRawString (fmt E) (wr_of E) (lib E) (lzf_of E) (compression E) key),
     late (rdbSaveObject E ob)]"
  have "list_all2 fsaves ?savers ?bs"
    unfolding map_append attribute_bytes_def append_assoc
    using kb(1) vb(1) ty a(1) saves_type saves_ms saves_len saves_raw
    by (intro list_all2_appendI)
      (auto simp: q_def f_def rdbSaveObjectType_def rdbSaveObject_def intro!: fsaves_plain fsaves_late)
  from fsaves_run [OF this] have run: "fsaves (run_savers ?savers) (concat ?bs)" .
  have "fsaves (rdbSaveKeyValuePair E s key ob e) (concat ?bs)"
    unfolding fsaves_def
  proof
    fix r
    obtain n r' where "run_savers ?savers (Some r) = Inr (n, Some r')" "n = - 1 \<and> \<not> reliable \<or> 0 \<le> n \<and> written r' = written r @ concat ?bs"
      by (rule fsavesD [OF run]) (rule that)
    then show "\<exists>n r'. rdbSaveKeyValuePair E s key ob e (Some r) = Inr (n, Some r') \<and> (n = - 1 \<and> \<not> reliable \<or> 0 \<le> n \<and> written r' = written r @ concat ?bs)"
      by (auto simp: rdbSaveKeyValuePair_def Let_def)
  qed
  moreover have "reach now clk 4 (concat ?bs) ld t (\<lambda>l u. plain_ld l i \<and> grows t u \<and> load_inv u
          \<and> view (lib E) u = with_key E now i key (str_bytes (lib E) ob) e (view (lib E) t))"
    if t: "plain_ld ld i" "can_load E (flag_set (maxmemory_policy s) MAXMEMORY_FLAG_LRU) t" "i < dbnum t" "view (lib E) t i key = None"
    for now clk ld t i
  proof -
    have "reach now clk (3 + 1) (concat (attribute_bytes e q f) @ RDB_TYPE_STRING (ops E) # kb @ vb) ld t
        (\<lambda>l u. plain_ld l i \<and> grows t u \<and> load_inv u \<and> view (lib E) u = with_key E now i key (str_bytes (lib E) ob) e (view (lib E) t))"
    proof (rule reach_then [OF reach_attributes [OF t(1) e]])
      show "x \<noteq> RDB_LENERR (fmt E)" if "q = Some x" for x
        using that idle_not_error by (auto simp: q_def lenerr split: if_splits)
      fix l :: load_state and u
      assume l: "u = t \<and> ld_db l = i \<and> ld_expire l = e \<and> ld_freq l \<le> 255 \<and> (q = None \<longrightarrow> ld_idle l < 0)"
      then have "ld_idle l < 0 \<or> flag_set (maxmemory_policy s) MAXMEMORY_FLAG_LRU" by (auto simp: q_def)
      from key_turn [OF t(2) _ t(3,4) kb(2) vb(2) this] l
      show "reach now clk 1 (RDB_TYPE_STRING (ops E) # kb @ vb) l u
          (\<lambda>l u. plain_ld l i \<and> grows t u \<and> load_inv u \<and> view (lib E) u = with_key E now i key (str_bytes (lib E) ob) e (view (lib E) t))"
        by simp
    qed
    then show ?thesis by simp
  qed
  ultimately show ?thesis by blast
qed

end

subsection \<open>A database\<close>

definition val_of :: "strlib \<Rightarrow> server \<Rightarrow> nat \<Rightarrow> sds" where
  "val_of L s a = (case heap s a of None \<Rightarrow> [] | Some ob \<Rightarrow> str_bytes L ob)"

definition exp_of :: "server \<Rightarrow> nat \<Rightarrow> sds \<Rightarrow> int" where
  "exp_of s i k = (case dictFind (db_expires (dbs s ! i)) k of None \<Rightarrow> - 1 | Some e \<Rightarrow> e)"

definition saveable :: "strlib \<Rightarrow> server \<Rightarrow> nat \<Rightarrow> bool" where
  "saveable L s i =
     (i < dbnum s \<and> db_ok (dbs s ! i) \<and> dictSize (db_dict (dbs s ! i)) < 2 ^ 63 \<and> dictSize (db_expires (dbs s ! i)) < 2 ^ 63
      \<and> (\<forall>(k, a) \<in> set (db_dict (dbs s ! i)). length k < 2 ^ 63 \<and> (\<exists>ob. heap s a = Some ob \<and> stringy L ob))
      \<and> (\<forall>(k, e) \<in> set (db_expires (dbs s ! i)). in_ll e \<and> e \<noteq> - 1))"

text \<open>The database as it is found after loading: without the keys dropped as expired.\<close>

definition snapshot :: "'r rdb_env \<Rightarrow> int \<Rightarrow> server \<Rightarrow> nat \<Rightarrow> sds \<Rightarrow> (sds \<times> int option) option" where
  "snapshot E now s i k =
     (case view (lib E) s i k of
        None \<Rightarrow> None
      | Some (v, x) \<Rightarrow> if dropped E now (case x of None \<Rightarrow> - 1 | Some e \<Rightarrow> e) then None else Some (v, x))"

definition with_keys ::
  "'r rdb_env \<Rightarrow> int \<Rightarrow> server \<Rightarrow> nat \<Rightarrow> (sds, nat) dict \<Rightarrow> (nat \<Rightarrow> sds \<Rightarrow> (sds \<times> int option) option) \<Rightarrow>
     nat \<Rightarrow> sds \<Rightarrow> (sds \<times> int option) option" where
  "with_keys E now s i kvs f = foldl (\<lambda>f (k, a). with_key E now i k (val_of (lib E) s a) (exp_of s i k) f) f kvs"

lemma with_keys_simps:
  "with_keys E now s i [] f = f"
  "with_keys E now s i ((k, a) # kvs) f = with_keys E now s i kvs (with_key E now i k (val_of (lib E) s a) (exp_of s i k) f)"
  by (simp_all add: with_keys_def)

lemma with_key_other: "k' \<noteq> k \<or> j \<noteq> i \<Longrightarrow> with_key E now i k v e f j k' = f j k'"
  by (auto simp: with_key_def)

lemma with_keys_at:
  "dict_wf kvs \<Longrightarrow> with_keys E now s i kvs f j k =
     (if j \<noteq> i then f j k
      else case dictFind kvs k of
             None \<Rightarrow> f i k
           | Some a \<Rightarrow> with_key E now i k (val_of (lib E) s a) (exp_of s i k) f i k)"
proof (induction kvs arbitrary: f)
  case (Cons e kvs)
  obtain k' a where e: "e = (k', a)" by (cases e)
  have wf: "dict_wf kvs" "dictFind kvs k' = None"
    using Cons.prems e by (auto simp: dict_wf_def dictFind_None_iff)
  then show ?case
    using Cons.IH [OF wf(1)] e
    by (auto simp: with_keys_simps dictFind_Cons with_key_other with_key_def split: option.splits)
qed (simp add: with_keys_simps)

lemma saveable_expire: "saveable L s i \<Longrightarrow> in_ll (exp_of s i k)"
  by (auto simp: saveable_def exp_of_def in_ll_def int_limits dictFind_def split: option.splits dest!: map_of_SomeD)

lemma getExpire_exp: "i < dbnum s \<Longrightarrow> getExpire i k s = Inr (exp_of s i k)"
  by (simp add: getExpire_def exp_of_def dbnum_def split: option.splits)

lemma with_keys_snapshot:
  assumes s: "saveable (lib E) s i" and f: "\<And>k. f i k = None"
  shows "with_keys E now s i (db_dict (dbs s ! i)) f = f(i := snapshot E now s i)"
proof (intro ext)
  fix j k
  have wf: "dict_wf (db_dict (dbs s ! i))" using s by (simp add: saveable_def db_ok_def)
  have i: "i < dbnum s" using s by (simp add: saveable_def)
  show "with_keys E now s i (db_dict (dbs s ! i)) f j k = (f(i := snapshot E now s i)) j k"
  proof (cases "j = i \<and> dictFind (db_dict (dbs s ! i)) k \<noteq> None")
    case True
    then obtain a where a: "j = i" "dictFind (db_dict (dbs s ! i)) k = Some a" by auto
    then have "(k, a) \<in> set (db_dict (dbs s ! i))" by (simp add: dictFind_def map_of_SomeD)
    then obtain ob where ob: "heap s a = Some ob" using s by (auto simp: saveable_def)
    have "x \<noteq> - 1" if "dictFind (db_expires (dbs s ! i)) k = Some x" for x
      using s that by (auto simp: saveable_def dictFind_def dest!: map_of_SomeD)
    with a ob i show ?thesis
      unfolding with_keys_at [OF wf]
      by (auto simp: snapshot_def view_def with_key_def val_of_def exp_of_def f split: option.splits)
  next
    case False
    then show ?thesis unfolding with_keys_at [OF wf] using f i by (auto simp: snapshot_def view_def)
  qed
qed

context rdb_file
begin

lemma pairs_code:
  assumes mem: "\<And>n. alloc E n" and i: "i < dbnum s" and x: "\<And>k. in_ll (exp_of s i k)"
    and kvs: "\<forall>(k, a) \<in> set kvs. length k < 2 ^ 63 \<and> (\<exists>ob. heap s a = Some ob \<and> stringy (lib E) ob)" "dict_wf kvs"
  shows "\<exists>bss. list_all2 fsaves (map (save_pair E s i) kvs) bss
    \<and> (\<forall>now clk ld t. plain_ld ld i \<and> can_load E (flag_set (maxmemory_policy s) MAXMEMORY_FLAG_LRU) t
          \<and> i < dbnum t \<and> (\<forall>(k, a) \<in> set kvs. view (lib E) t i k = None) \<longrightarrow>
        reach now clk (4 * length kvs) (concat bss) ld t (\<lambda>l u. plain_ld l i \<and> grows t u \<and> load_inv u
          \<and> view (lib E) u = with_keys E now s i kvs (view (lib E) t)))"
  using kvs
proof (induction kvs)
  case Nil
  have "reach now clk 0 [] ld t (\<lambda>l u. plain_ld l i \<and> grows t u \<and> load_inv u \<and> view (lib E) u = with_keys E now s i [] (view (lib E) t))"
    if "plain_ld ld i" "can_load E idle t" for now clk ld t idle
    using that by (intro reach_none) (auto simp: with_keys_simps can_load_def intro: grows_refl load_invD)
  then show ?case by (auto intro!: exI [of _ "[]"])
next
  case (Cons kv kvs)
  obtain key a where kv: "kv = (key, a)" by (cases kv)
  obtain ob where ob: "length key < 2 ^ 63" "heap s a = Some ob" "stringy (lib E) ob"
    using Cons.prems(1) kv by auto
  from pair_code [OF mem ob(3,1) x, of s key] obtain bs where bs: "fsaves (rdbSaveKeyValuePair E s key ob (exp_of s i key)) bs"
      "\<forall>now clk ld t i'. plain_ld ld i' \<and> can_load E (flag_set (maxmemory_policy s) MAXMEMORY_FLAG_LRU) t \<and>
          i' < dbnum t \<and> view (lib E) t i' key = None \<longrightarrow>
        reach now clk 4 bs ld t (\<lambda>l u. plain_ld l i' \<and> grows t u \<and> load_inv u
          \<and> view (lib E) u = with_key E now i' key (str_bytes (lib E) ob) (exp_of s i key) (view (lib E) t))"
    by (elim exE conjE) (rule that)
  have "dict_wf kvs" "\<forall>(k, a) \<in> set kvs. k \<noteq> key"
    using Cons.prems(2) kv by (force simp: dict_wf_def)+
  from Cons.IH [OF _ this(1)] Cons.prems(1) obtain bss where bss: "list_all2 fsaves (map (save_pair E s i) kvs) bss"
      "\<forall>now clk ld t. plain_ld ld i \<and> can_load E (flag_set (maxmemory_policy s) MAXMEMORY_FLAG_LRU) t \<and>
          i < dbnum t \<and> (\<forall>(k, a) \<in> set kvs. view (lib E) t i k = None) \<longrightarrow>
        reach now clk (4 * length kvs) (concat bss) ld t (\<lambda>l u. plain_ld l i \<and> grows t u \<and> load_inv u
          \<and> view (lib E) u = with_keys E now s i kvs (view (lib E) t))"
    using that by auto
  have "save_pair E s i (key, a) = rdbSaveKeyValuePair E s key ob (exp_of s i key)"
    using ob(2) getExpire_exp [OF i] by (simp add: fun_eq_iff save_pair_def)
  then have all: "list_all2 fsaves (map (save_pair E s i) (kv # kvs)) (bs # bss)" using bs(1) bss(1) kv by simp
  have "reach now clk (4 + 4 * length kvs) (bs @ concat bss) ld t (\<lambda>l u. plain_ld l i \<and> grows t u \<and> load_inv u
          \<and> view (lib E) u = with_keys E now s i (kv # kvs) (view (lib E) t))"
    if t: "plain_ld ld i" "can_load E (flag_set (maxmemory_policy s) MAXMEMORY_FLAG_LRU) t" "i < dbnum t"
      "\<forall>(k, a) \<in> set (kv # kvs). view (lib E) t i k = None" for now clk ld t
  proof (rule reach_then)
    show "reach now clk 4 bs ld t (\<lambda>l u. plain_ld l i \<and> grows t u \<and> load_inv u
        \<and> view (lib E) u = with_key E now i key (str_bytes (lib E) ob) (exp_of s i key) (view (lib E) t))"
      using t kv by (intro bs(2) [rule_format]) simp
    fix l u
    assume u: "plain_ld l i \<and> grows t u \<and> load_inv u \<and> view (lib E) u = with_key E now i key (str_bytes (lib E) ob) (exp_of s i key) (view (lib E) t)"
    then have c: "can_load E (flag_set (maxmemory_policy s) MAXMEMORY_FLAG_LRU) u" "i < dbnum u"
      using can_load_grows [OF t(2)] t(3) by (auto simp: grows_fields)
    have "\<forall>(k, a) \<in> set kvs. view (lib E) u i k = None"
    proof (clarify)
      fix k a assume "(k, a) \<in> set kvs"
      with t(4) \<open>\<forall>(k, a) \<in> set kvs. k \<noteq> key\<close> have "view (lib E) t i k = None" "k \<noteq> key" by auto
      with u show "view (lib E) u i k = None" by (simp add: with_key_other)
    qed
    with u c have pre: "plain_ld l i \<and> can_load E (flag_set (maxmemory_policy s) MAXMEMORY_FLAG_LRU) u
        \<and> i < dbnum u \<and> (\<forall>(k, a) \<in> set kvs. view (lib E) u i k = None)" by blast
    have "reach now clk (4 * length kvs) (concat bss) l u (\<lambda>l w. plain_ld l i \<and> grows u w \<and> load_inv w
          \<and> view (lib E) w = with_keys E now s i kvs (view (lib E) u))"
      by (rule bss(2) [rule_format, OF pre])
    then show "reach now clk (4 * length kvs) (concat bss) l u (\<lambda>l u. plain_ld l i \<and> grows t u \<and> load_inv u
          \<and> view (lib E) u = with_keys E now s i (kv # kvs) (view (lib E) t))"
      by (rule reach_weaken) (use u ob(2) kv in \<open>auto simp: with_keys_simps val_of_def intro: grows_trans\<close>)
  qed
  then show ?case using all by (intro exI [of _ "bs # bss"]) simp
qed

lemma of_nat_len: "n < 2 ^ 63 \<Longrightarrow> unat (of_nat n :: u64) = n \<and> (of_nat n :: u64) \<noteq> RDB_LENERR (fmt E)"
  using length_word [of n] by simp

lemma db_code:
  assumes mem: "\<And>n. alloc E n" and s: "saveable (lib E) s i" and small: "dbnum s < 2 ^ 63"
  shows "\<exists>bs. fsaves (rdbSaveDb E s i) bs
    \<and> (\<forall>now clk ld t j. plain_ld ld j \<and> can_load E (flag_set (maxmemory_policy s) MAXMEMORY_FLAG_LRU) t
          \<and> i < dbnum t \<and> (\<forall>k. view (lib E) t i k = None) \<longrightarrow>
        reach now clk (2 + 4 * dictSize (db_dict (dbs s ! i))) bs ld t (\<lambda>l u. (\<exists>j. plain_ld l j) \<and> grows t u \<and> load_inv u
          \<and> view (lib E) u = (view (lib E) t)(i := snapshot E now s i)))"
proof (cases "db_dict (dbs s ! i) = []")
  case True
  have i: "i < length (dbs s)" using s by (simp add: saveable_def dbnum_def)
  have e: "snapshot E now s i = (\<lambda>k. None)" for now by (rule ext) (simp add: snapshot_def view_def True)
  have "fsaves (rdbSaveDb E s i) []" using i True by (simp add: fsaves_def rdbSaveDb_def dictSize_def)
  moreover have "reach now clk (2 + 4 * dictSize (db_dict (dbs s ! i))) [] ld t (\<lambda>l u. (\<exists>j. plain_ld l j) \<and> grows t u \<and> load_inv u
          \<and> view (lib E) u = (view (lib E) t)(i := snapshot E now s i))"
    if "plain_ld ld j" "can_load E idle t" "\<forall>k. view (lib E) t i k = None" for now clk ld t j idle
  proof (rule reach_weaken)
    show "reach now clk 0 [] ld t (\<lambda>l u. l = ld \<and> u = t)" by (rule reach_none) simp
    have "view (lib E) t = (view (lib E) t)(i := snapshot E now s i)" unfolding e using that(3) by (auto simp: fun_eq_iff)
    then show "(\<exists>j. plain_ld l j) \<and> grows t u \<and> load_inv u \<and> view (lib E) u = (view (lib E) t)(i := snapshot E now s i)"
      if "l = ld \<and> u = t" for l u
      using that \<open>plain_ld ld j\<close> \<open>can_load E idle t\<close> by (auto simp: can_load_def intro: grows_refl load_invD)
  qed simp
  ultimately show ?thesis by blast
next
  case False
  let ?db = "dbs s ! i"
  have i: "i < dbnum s" "i < length (dbs s)" using s by (simp_all add: saveable_def dbnum_def)
  have sizes: "i < 2 ^ 63" "dictSize (db_dict ?db) < 2 ^ 63" "dictSize (db_expires ?db) < 2 ^ 63"
    using s i small by (simp_all add: saveable_def)
  note words = sizes [THEN of_nat_len]
  have wf: "\<forall>(k, a) \<in> set (db_dict ?db). length k < 2 ^ 63 \<and> (\<exists>ob. heap s a = Some ob \<and> stringy (lib E) ob)" "dict_wf (db_dict ?db)"
    using s by (simp_all add: saveable_def db_ok_def)
  from pairs_code [OF mem i(1) saveable_expire [OF s] wf] obtain bss where bss: "list_all2 fsaves (map (save_pair E s i) (db_dict ?db)) bss"
      "\<forall>now clk ld t. plain_ld ld i \<and> can_load E (flag_set (maxmemory_policy s) MAXMEMORY_FLAG_LRU) t \<and>
          i < dbnum t \<and> (\<forall>(k, a) \<in> set (db_dict ?db). view (lib E) t i k = None) \<longrightarrow>
        reach now clk (4 * length (db_dict ?db)) (concat bss) ld t (\<lambda>l u. plain_ld l i \<and> grows t u \<and> load_inv u
          \<and> view (lib E) u = with_keys E now s i (db_dict ?db) (view (lib E) t))"
    by (elim exE conjE) (rule that)
  let ?len = "\<lambda>n. plain (rdbSaveLen (fmt E) (wr_of E) (of_nat n))"
  let ?ms = "[plain (rdbSaveType (wr_of E) (RDB_OPCODE_SELECTDB (ops E))), ?len i,
      plain (rdbSaveType (wr_of E) (RDB_OPCODE_RESIZEDB (ops E))), ?len (dictSize (db_dict ?db)), ?len (dictSize (db_expires ?db))]
      @ map (save_pair E s i) (db_dict ?db)"
  let ?lb = "\<lambda>n. len_bytes (fmt E) (of_nat n)"
  let ?bss = "[[RDB_OPCODE_SELECTDB (ops E)], ?lb i, [RDB_OPCODE_RESIZEDB (ops E)], ?lb (dictSize (db_dict ?db)),
      ?lb (dictSize (db_expires ?db))] @ bss"
  have "list_all2 fsaves ?ms ?bss"
    using bss(1) by (intro list_all2_appendI) (auto intro: fsaves_plain saves_type saves_len)
  from fsaves_run [OF this] have f: "fsaves (rdbSaveDb E s i) (concat ?bss)"
    using i False by (simp add: fsaves_def rdbSaveDb_def Let_def)
  have r: "reach now clk (1 + (1 + 4 * length (db_dict ?db)))
      ((RDB_OPCODE_SELECTDB (ops E) # ?lb i) @ (RDB_OPCODE_RESIZEDB (ops E) # ?lb (dictSize (db_dict ?db)) @ ?lb (dictSize (db_expires ?db))) @ concat bss) ld t
      (\<lambda>l u. (\<exists>j. plain_ld l j) \<and> grows t u \<and> load_inv u \<and> view (lib E) u = (view (lib E) t)(i := snapshot E now s i))"
    if t: "plain_ld ld j" "can_load E (flag_set (maxmemory_policy s) MAXMEMORY_FLAG_LRU) t" "i < dbnum t" "\<forall>k. view (lib E) t i k = None"
    for now clk ld t j
  proof (rule reach_then [OF reach_selectdb], goal_cases)
    case (3 l u)
    have l: "plain_ld l i" "u = t" using 3 t(1) words(1) by (simp_all add: plain_ld_def)
    have "view (lib E) t i k = None" for k using t(4) by blast
    note snap = with_keys_snapshot [OF s, of "view (lib E) t", OF this]
    show ?case
    proof (rule reach_then [OF reach_resizedb], goal_cases)
      case (3 l' u')
      then have "plain_ld l' i" "u' = t" using l by simp_all
      with t have pre: "plain_ld l' i \<and> can_load E (flag_set (maxmemory_policy s) MAXMEMORY_FLAG_LRU) u'
          \<and> i < dbnum u' \<and> (\<forall>(k, a) \<in> set (db_dict ?db). view (lib E) u' i k = None)" by auto
      have "reach now clk (4 * length (db_dict ?db)) (concat bss) l' u' (\<lambda>l u. plain_ld l i \<and> grows u' u \<and> load_inv u
          \<and> view (lib E) u = with_keys E now s i (db_dict ?db) (view (lib E) u'))"
        by (rule bss(2) [rule_format, OF pre])
      then show ?case by (rule reach_weaken) (use snap \<open>u' = t\<close> in auto)
    qed (use words in simp_all)
  qed (use words t(3) in simp_all)
  have "reach now clk (2 + 4 * dictSize (db_dict ?db)) (concat ?bss) ld t
      (\<lambda>l u. (\<exists>j. plain_ld l j) \<and> grows t u \<and> load_inv u \<and> view (lib E) u = (view (lib E) t)(i := snapshot E now s i))"
    if "plain_ld ld j" "can_load E (flag_set (maxmemory_policy s) MAXMEMORY_FLAG_LRU) t" "i < dbnum t" "\<forall>k. view (lib E) t i k = None"
    for now clk ld t j
    using r [OF that, of now clk] by (simp add: dictSize_def)
  with f show ?thesis by blast
qed

end

end
