(* ===== verification/Rdb_Snapshot.thy ===== *)
theory Rdb_Snapshot
  imports Rdb_Loading
begin

section \<open>The whole file: a snapshot restores the data set (rdb.c)\<close>

text \<open>
  The header, the AUX fields, the databases and the end of the file, saved by \<open>rdbSaveRio\<close> and loaded by
  \<open>rdbLoadRioWithLoadingCtx\<close>. The theorem is about servers whose values are strings, without modules
  and libraries of functions.
\<close>

subsection \<open>AUX fields\<close>

context rdb_file
begin

text \<open>Bytes that at most \<open>N\<close> turns read as fields: they set \<open>f\<close> and leave the view as it is.\<close>

definition fields :: "nat \<Rightarrow> sds \<Rightarrow> (load_state \<Rightarrow> load_state) \<Rightarrow> bool" where
  "fields N bs f \<longleftrightarrow>
     (\<forall>now clk ld t idle. can_load E idle t \<longrightarrow>
        reach now clk N bs ld t (\<lambda>l u. l = f ld \<and> grows t u \<and> load_inv u \<and> view (lib E) u = view (lib E) t))"

lemma load_aux_ok:
  assumes codes: "str_loads RDB_LOAD_NONE kb key" "str_loads RDB_LOAD_NONE vb v"
    and s: "can_load E idle s" and r: "unread r = (kb @ vb) @ rest"
  shows "\<exists>r' t. load_aux E ld (r, s) = Inr (Some (aux_value key v ld), (r', t)) \<and> unread r' = rest \<and> grows s t \<and> dbs t = dbs s"
proof -
  have inv: "load_inv s" using s by (simp add: can_load_def)
  obtain x r1 s1 where K: "rdbGenericLoadStringObject (fmt E) (rd_of E) (lib E) (lzf_of E) (alloc E) RDB_LOAD_NONE (r, s) = (Some x, (r1, s1))"
      "unread r1 = vb @ rest" "only_new s s1" "denotes (lib E) RDB_LOAD_NONE s s1 x key"
    using r by (auto intro: str_loadsD [OF codes(1) _ inv])
  then obtain a oa where a: "x = ObjRef a" "heap s1 a = Some oa" "str_ok oa" "str_bytes (lib E) oa = key"
      "next_addr s \<le> a \<and> refcount oa = 1 \<or> refcount oa = OBJ_SHARED_REFCOUNT"
    by (auto simp: is_str_def new_obj_def)
  note s1 = only_new_load [OF K(3) s]
  obtain y r2 s2 where V: "rdbGenericLoadStringObject (fmt E) (rd_of E) (lib E) (lzf_of E) (alloc E) RDB_LOAD_NONE (r1, s1) = (Some y, (r2, s2))"
      "unread r2 = rest" "only_new s1 s2" "denotes (lib E) RDB_LOAD_NONE s1 s2 y v"
    by (rule str_loadsD [OF codes(2) K(2) s1(4)]) (rule that)
  then obtain b ob where b: "y = ObjRef b" "heap s2 b = Some ob" "str_ok ob" "str_bytes (lib E) ob = v"
      "next_addr s1 \<le> b \<and> refcount ob = 1 \<or> refcount ob = OBJ_SHARED_REFCOUNT"
    by (auto simp: is_str_def new_obj_def)
  note s2 = only_new_load [OF V(3) s1(2)]
  have below: "a < next_addr s1" by (rule live_below [OF grows_fields(8) [OF s1(1)] a(2)])
  then have a2: "heap s2 a = Some oa" using only_new_heap [OF V(3)] a(2) by simp
  note g2 = grows_trans [OF s1(1) s2(1)] and fresh = load_invD(2) [OF inv]
  obtain s3 where 3: "decrRefCount a s2 = Inr s3" "grows s s3" "dbs s3 = dbs s2" "\<forall>c. c \<noteq> a \<longrightarrow> heap s3 c = heap s2 c"
      "refcount oa = OBJ_SHARED_REFCOUNT \<longrightarrow> s3 = s2"
    using release_loaded [OF g2 a2 a(3) fresh a(5)] by blast
  have b3: "heap s3 b = Some ob"
  proof (cases "refcount oa = OBJ_SHARED_REFCOUNT")
    case False
    then have "b \<noteq> a" using b(5) below a2 b(2) by (auto simp: refcount_defs)
    then show ?thesis using 3(4) b(2) by simp
  qed (use 3(5) b(2) in simp)
  have "next_addr s \<le> next_addr s1" by (rule grows_fields(9) [OF s1(1)])
  then have "next_addr s \<le> b \<and> refcount ob = 1 \<or> refcount ob = OBJ_SHARED_REFCOUNT" using b(5) by auto
  then obtain s4 where "decrRefCount b s3 = Inr s4" "grows s s4" "dbs s4 = dbs s3"
    using release_loaded [OF 3(2) b3 b(3) fresh] by blast
  with 3 K V a(1,4) b(1,2,4) a2 only_new_dbs [OF K(3)] only_new_dbs [OF V(3)] show ?thesis
    by (simp add: load_aux_def rdbLoadStringObject_def)
qed

lemma aux_field:
  assumes "str_loads RDB_LOAD_NONE kb key" "str_loads RDB_LOAD_NONE vb v"
  shows "fields 1 (RDB_OPCODE_AUX (ops E) # kb @ vb) (aux_value key v)"
  unfolding fields_def
proof (intro allI impI)
  fix now clk ld t idle assume t: "can_load E idle t"
  then have inv: "load_inv t" by (simp add: can_load_def)
  show "reach now clk 1 (RDB_OPCODE_AUX (ops E) # kb @ vb) ld t
      (\<lambda>l u. l = aux_value key v ld \<and> grows t u \<and> load_inv u \<and> view (lib E) u = view (lib E) t)"
  proof (rule reach_turn)
    fix r rest assume "unread r = (kb @ vb) @ rest"
    then obtain r' u where u: "load_aux E ld (r, t) = Inr (Some (aux_value key v ld), (r', u))" "unread r' = rest" "grows t u" "dbs u = dbs t"
      using load_aux_ok [OF assms t] by blast
    with same_dbs [OF u(3) inv u(4)] show "\<exists>ld' r' s'. load_opcode E now clk (RDB_OPCODE_AUX (ops E)) ld (r, t) = Inr (GoOn ld', (r', s'))
        \<and> unread r' = rest \<and> ld' = aux_value key v ld \<and> grows t s' \<and> load_inv s' \<and> view (lib E) s' = view (lib E) t"
      by (simp add: dispatch(6))
  qed
qed

lemma fields_none: "fields 0 [] (\<lambda>ld. ld)"
  by (auto simp: fields_def can_load_def intro!: reach_none intro: grows_refl load_invD)

lemma fields_then:
  assumes "fields N bs f" "fields M cs g"
  shows "fields (N + M) (bs @ cs) (\<lambda>ld. g (f ld))"
  unfolding fields_def
proof (intro allI impI)
  fix now clk ld t idle assume t: "can_load E idle t"
  show "reach now clk (N + M) (bs @ cs) ld t (\<lambda>l u. l = g (f ld) \<and> grows t u \<and> load_inv u \<and> view (lib E) u = view (lib E) t)"
  proof (rule reach_then)
    show "reach now clk N bs ld t (\<lambda>l u. l = f ld \<and> grows t u \<and> load_inv u \<and> view (lib E) u = view (lib E) t)"
      using assms(1) t unfolding fields_def by blast
    fix l u assume u: "l = f ld \<and> grows t u \<and> load_inv u \<and> view (lib E) u = view (lib E) t"
    then have "can_load E idle u" using can_load_grows [OF t] by blast
    then have "reach now clk M cs l u (\<lambda>l' w. l' = g l \<and> grows u w \<and> load_inv w \<and> view (lib E) w = view (lib E) u)"
      using assms(2) unfolding fields_def by blast
    then show "reach now clk M cs l u (\<lambda>l u. l = g (f ld) \<and> grows t u \<and> load_inv u \<and> view (lib E) u = view (lib E) t)"
      by (rule reach_weaken) (use u in \<open>auto intro: grows_trans\<close>)
  qed
qed

text \<open>A saver of one AUX field that is loaded as \<open>f\<close>.\<close>

definition aux_saver :: "'r saver \<Rightarrow> (load_state \<Rightarrow> load_state) \<Rightarrow> bool" where
  "aux_saver a f \<longleftrightarrow> (\<exists>bs. saves a bs \<and> fields 1 bs f)"

lemma aux_field_saver:
  assumes mem: "\<And>n. alloc E n" and "length key < 2 ^ 63" "length v < 2 ^ 63"
  shows "aux_saver (rdbSaveAuxField E key v) (aux_value key v)"
proof -
  obtain kb where kb: "saves (rdbSaveRawString (fmt E) (wr_of E) (lib E) (lzf_of E) (compression E) key) kb"
      "\<And>flags. str_loads flags kb key"
    by (rule string_codeE [OF raw_code [OF assms(2) mem, where rdb_compression = "compression E"]]) (rule that)
  obtain vb where vb: "saves (rdbSaveRawString (fmt E) (wr_of E) (lib E) (lzf_of E) (compression E) v) vb"
      "\<And>flags. str_loads flags vb v"
    by (rule string_codeE [OF raw_code [OF assms(3) mem, where rdb_compression = "compression E"]]) (rule that)
  have "saves (rdbSaveAuxField E key v) (concat [[RDB_OPCODE_AUX (ops E)], kb, vb])"
    unfolding rdbSaveAuxField_def Let_def by (rule saves_all) (use kb vb saves_type in simp)
  moreover have "fields 1 (RDB_OPCODE_AUX (ops E) # kb @ vb) (aux_value key v)" by (rule aux_field [OF kb(2) vb(2)])
  ultimately show ?thesis unfolding aux_saver_def by auto
qed

lemma aux_savers:
  assumes "list_all2 aux_saver as fs"
  shows "\<exists>bs. saves (save_all as) bs \<and> fields (length as) bs (\<lambda>ld. foldl (\<lambda>l f. f l) ld fs)"
  using assms
proof (induction rule: list_all2_induct)
  case Nil
  then show ?case using saves_nil fields_none by auto
next
  case (Cons a as f fs)
  then obtain bs cs where "saves a bs" "fields 1 bs f" "saves (save_all as) cs"
      "fields (length as) cs (\<lambda>ld. foldl (\<lambda>l f. f l) ld fs)"
    by (auto simp: aux_saver_def)
  then show ?case
    using saves_cons [of a bs as cs] fields_then [of 1 bs f "length as" cs "\<lambda>ld. foldl (\<lambda>l f. f l) ld fs"] by auto
qed

end

subsection \<open>The header\<close>

lemma digits_val_zeros: "digits_val (replicate k 48 @ bs) = digits_val bs"
  by (induction k) (simp_all add: digits_val_def)

lemma atoi_digits:
  assumes "\<forall>b \<in> set ds. isdigit8 b" "ds \<noteq> []" "int (digits_val ds) \<le> INT_MAX"
  shows "c_atoi ds = int (digits_val ds)"
  using strtol_digits [OF assms(1,2)] assms(3) by (simp add: c_atoi_def to_int_id int_limits)

lemma magic_header:
  assumes "0 \<le> v" "v \<le> 9999"
  shows "length (magic v) = 9" "take 5 (magic v) = bytes_of ''REDIS''" "c_atoi (drop 5 (magic v)) = v"
proof -
  let ?ds = "digits10 (nat v)"
  have l: "length ?ds \<le> 4" using length_digits10 [of "nat v" 3] assms by simp
  have r: "length (bytes_of ''REDIS'') = 5" by (simp add: bytes_of_def)
  have m: "magic v = bytes_of ''REDIS'' @ replicate (4 - length ?ds) 48 @ ?ds"
    using l r by (simp add: magic_def Let_def)
  show "length (magic v) = 9" "take 5 (magic v) = bytes_of ''REDIS''" using l r by (simp_all add: m)
  have "isdigit8 48" by (simp add: isdigit8_def)
  then have "c_atoi (replicate (4 - length ?ds) 48 @ ?ds) = int (digits_val (replicate (4 - length ?ds) 48 @ ?ds))"
    using digits10_hd [of "nat v"] digits10_digits [of _ "nat v"] assms
    by (intro atoi_digits) (auto simp: digits_val_zeros int_limits)
  then show "c_atoi (drop 5 (magic v)) = v" using r assms by (simp add: m digits_val_zeros)
qed

subsection \<open>All databases\<close>

definition no_auxiliary :: "'r rdb_env \<Rightarrow> bool" where
  "no_auxiliary E =
     (function_codes E = [] \<and> (\<forall>b rdb. save_modules_aux E b rdb = Inr (0, rdb)) \<and> (\<forall>n. alloc E n)
      \<and> length (redis_version E) < 2 ^ 63 \<and> length (replid E) < 2 ^ 63
      \<and> in_ll (time_now E) \<and> in_ll (used_memory E) \<and> in_ll (master_repl_offset E))"

definition snapshots :: "'r rdb_env \<Rightarrow> int \<Rightarrow> server \<Rightarrow> nat list \<Rightarrow> (nat \<Rightarrow> sds \<Rightarrow> (sds \<times> int option) option) \<Rightarrow>
    nat \<Rightarrow> sds \<Rightarrow> (sds \<times> int option) option" where
  "snapshots E now s is f = (\<lambda>i. if i \<in> set is then snapshot E now s i else f i)"

definition turns :: "server \<Rightarrow> nat list \<Rightarrow> nat" where
  "turns s is = sum_list (map (\<lambda>i. 2 + 4 * dictSize (db_dict (dbs s ! i))) is)"

lemma turns_Cons: "turns s (i # js) = 2 + 4 * dictSize (db_dict (dbs s ! i)) + turns s js"
  by (simp add: turns_def)

context rdb_file
begin

lemma dbs_code:
  assumes mem: "\<And>n. alloc E n" and s: "\<forall>i \<in> set is. saveable (lib E) s i" "distinct is" and small: "dbnum s < 2 ^ 63"
  shows "\<exists>bss. list_all2 fsaves (map (rdbSaveDb E s) is) bss
    \<and> (\<forall>now clk ld t j. plain_ld ld j \<and> can_load E (flag_set (maxmemory_policy s) MAXMEMORY_FLAG_LRU) t
          \<and> (\<forall>i \<in> set is. i < dbnum t \<and> (\<forall>k. view (lib E) t i k = None)) \<longrightarrow>
        reach now clk (turns s is) (concat bss) ld t (\<lambda>l u. (\<exists>j. plain_ld l j) \<and> grows t u \<and> load_inv u
          \<and> view (lib E) u = snapshots E now s is (view (lib E) t)))"
  using s
proof (induction "is")
  case Nil
  have "reach now clk 0 [] ld t (\<lambda>l u. (\<exists>j. plain_ld l j) \<and> grows t u \<and> load_inv u \<and> view (lib E) u = snapshots E now s [] (view (lib E) t))"
    if "plain_ld ld j" "can_load E idle t" for now clk ld t j idle
    using that by (intro reach_none) (auto simp: snapshots_def can_load_def intro: grows_refl load_invD)
  then show ?case by (auto simp: turns_def intro!: exI [of _ "[]"])
next
  case (Cons i js)
  have i: "saveable (lib E) s i" "i \<notin> set js" using Cons.prems by simp_all
  from db_code [OF mem i(1) small] obtain bs where bs: "fsaves (rdbSaveDb E s i) bs"
      "\<forall>now clk ld t j. plain_ld ld j \<and> can_load E (flag_set (maxmemory_policy s) MAXMEMORY_FLAG_LRU) t
          \<and> i < dbnum t \<and> (\<forall>k. view (lib E) t i k = None) \<longrightarrow>
        reach now clk (2 + 4 * dictSize (db_dict (dbs s ! i))) bs ld t (\<lambda>l u. (\<exists>j. plain_ld l j) \<and> grows t u \<and> load_inv u
          \<and> view (lib E) u = (view (lib E) t)(i := snapshot E now s i))"
    by (elim exE conjE) (rule that)
  have "\<forall>i \<in> set js. saveable (lib E) s i" "distinct js" using Cons.prems by simp_all
  from Cons.IH [OF this] obtain bss where bss: "list_all2 fsaves (map (rdbSaveDb E s) js) bss"
      "\<forall>now clk ld t j. plain_ld ld j \<and> can_load E (flag_set (maxmemory_policy s) MAXMEMORY_FLAG_LRU) t
          \<and> (\<forall>i \<in> set js. i < dbnum t \<and> (\<forall>k. view (lib E) t i k = None)) \<longrightarrow>
        reach now clk (turns s js) (concat bss) ld t (\<lambda>l u. (\<exists>j. plain_ld l j) \<and> grows t u \<and> load_inv u
          \<and> view (lib E) u = snapshots E now s js (view (lib E) t))"
    by (elim exE conjE) (rule that)
  have "reach now clk (2 + 4 * dictSize (db_dict (dbs s ! i)) + turns s js) (bs @ concat bss) ld t
      (\<lambda>l u. (\<exists>j. plain_ld l j) \<and> grows t u \<and> load_inv u \<and> view (lib E) u = snapshots E now s (i # js) (view (lib E) t))"
    if t: "plain_ld ld j" "can_load E (flag_set (maxmemory_policy s) MAXMEMORY_FLAG_LRU) t"
      "\<forall>i \<in> set (i # js). i < dbnum t \<and> (\<forall>k. view (lib E) t i k = None)" for now clk ld t j
  proof (rule reach_then)
    have pre: "plain_ld ld j \<and> can_load E (flag_set (maxmemory_policy s) MAXMEMORY_FLAG_LRU) t \<and> i < dbnum t \<and> (\<forall>k. view (lib E) t i k = None)"
      using t by simp
    show "reach now clk (2 + 4 * dictSize (db_dict (dbs s ! i))) bs ld t (\<lambda>l u. (\<exists>j. plain_ld l j) \<and> grows t u \<and> load_inv u
          \<and> view (lib E) u = (view (lib E) t)(i := snapshot E now s i))"
      by (rule bs(2) [rule_format, OF pre])
    fix l u
    assume u: "(\<exists>j. plain_ld l j) \<and> grows t u \<and> load_inv u \<and> view (lib E) u = (view (lib E) t)(i := snapshot E now s i)"
    then obtain j' where pl: "plain_ld l j'" by blast
    have "\<forall>i \<in> set js. i < dbnum u \<and> (\<forall>k. view (lib E) u i k = None)"
      using u t(3) i(2) by (auto simp: grows_fields)
    with pl u can_load_grows [OF t(2)] have pre': "plain_ld l j' \<and> can_load E (flag_set (maxmemory_policy s) MAXMEMORY_FLAG_LRU) u
          \<and> (\<forall>i \<in> set js. i < dbnum u \<and> (\<forall>k. view (lib E) u i k = None))" by blast
    have "reach now clk (turns s js) (concat bss) l u (\<lambda>l w. (\<exists>j. plain_ld l j) \<and> grows u w \<and> load_inv w
          \<and> view (lib E) w = snapshots E now s js (view (lib E) u))"
      by (rule bss(2) [rule_format, OF pre'])
    then show "reach now clk (turns s js) (concat bss) l u (\<lambda>l u. (\<exists>j. plain_ld l j) \<and> grows t u \<and> load_inv u
          \<and> view (lib E) u = snapshots E now s (i # js) (view (lib E) t))"
    proof (rule reach_weaken)
      fix l' w assume w: "(\<exists>j. plain_ld l' j) \<and> grows u w \<and> load_inv w \<and> view (lib E) w = snapshots E now s js (view (lib E) u)"
      have "snapshots E now s js (view (lib E) u) = snapshots E now s (i # js) (view (lib E) t)"
        using u i(2) by (auto simp: snapshots_def fun_eq_iff)
      then show "(\<exists>j. plain_ld l' j) \<and> grows t w \<and> load_inv w \<and> view (lib E) w = snapshots E now s (i # js) (view (lib E) t)"
        using w u grows_trans by auto
    qed simp
  qed
  then have "\<forall>now clk ld t j. plain_ld ld j \<and> can_load E (flag_set (maxmemory_policy s) MAXMEMORY_FLAG_LRU) t
          \<and> (\<forall>i \<in> set (i # js). i < dbnum t \<and> (\<forall>k. view (lib E) t i k = None)) \<longrightarrow>
        reach now clk (turns s (i # js)) (concat (bs # bss)) ld t (\<lambda>l u. (\<exists>j. plain_ld l j) \<and> grows t u \<and> load_inv u
          \<and> view (lib E) u = snapshots E now s (i # js) (view (lib E) t))"
    unfolding turns_Cons concat.simps by blast
  moreover have "list_all2 fsaves (map (rdbSaveDb E s) (i # js)) (bs # bss)" using bs(1) bss(1) by simp
  ultimately show ?case by blast
qed

end

context rdb_file
begin

lemma length_cstr: "length (cstr bs) \<le> length bs"
  by (simp add: cstr_def length_takeWhile_le)

end

text \<open>What loading the AUX fields of a file sets.\<close>

definition loaded_info :: "'r rdb_env \<Rightarrow> rdbSaveInfo option \<Rightarrow> load_state \<Rightarrow> load_state" where
  "loaded_info E rsi ld =
     (let num = ll2string (lib E); used = ld\<lparr>ld_used_mem := c_strtol (num (used_memory E))\<rparr> in
      case rsi of
        None \<Rightarrow> used
      | Some info \<Rightarrow> used\<lparr>ld_rsi := map_option (\<lambda>i.
          (if length (cstr (replid E)) = CONFIG_RUN_ID_SIZE
           then i\<lparr>repl_id := cstr (replid E), repl_id_is_set := True\<rparr> else i)
          \<lparr>repl_stream_db := c_atoi (num (repl_stream_db info)),
           repl_offset := c_strtol (num (master_repl_offset E))\<rparr>) (ld_rsi ld)\<rparr>)"

lemma aux_values:
  "aux_value (bytes_of ''redis-ver'') v ld = ld"
  "aux_value (bytes_of ''redis-bits'') v ld = ld"
  "aux_value (bytes_of ''ctime'') v ld = ld"
  "aux_value (bytes_of ''used-mem'') v ld = ld\<lparr>ld_used_mem := c_strtol v\<rparr>"
  "aux_value (bytes_of ''repl-stream-db'') v ld = ld\<lparr>ld_rsi := map_option (\<lambda>i. i\<lparr>repl_stream_db := c_atoi v\<rparr>) (ld_rsi ld)\<rparr>"
  "aux_value (bytes_of ''repl-id'') v ld = ld\<lparr>ld_rsi := map_option (\<lambda>i.
     if length v = CONFIG_RUN_ID_SIZE then i\<lparr>repl_id := v, repl_id_is_set := True\<rparr> else i) (ld_rsi ld)\<rparr>"
  "aux_value (bytes_of ''repl-offset'') v ld = ld\<lparr>ld_rsi := map_option (\<lambda>i. i\<lparr>repl_offset := c_strtol v\<rparr>) (ld_rsi ld)\<rparr>"
  "aux_value (bytes_of ''aof-base'') v ld = ld"
  by (simp_all add: aux_value_def arg_is_def strcaseeq_def cstr_def bytes_of_def tolower8_def)

context rdb_file
begin

lemma info_aux:
  assumes E: "no_auxiliary E" and rsi: "\<And>i. rsi = Some i \<Longrightarrow> in_ll (repl_stream_db i)"
  shows "\<exists>bs. fsaves (plain (rdbSaveInfoAuxFields E aof rsi)) bs \<and> fields 8 bs (loaded_info E rsi)"
proof -
  have mem: "alloc E n" for n using E by (simp add: no_auxiliary_def)
  have int: "aux_saver (rdbSaveAuxFieldStrInt E k v) (aux_value (bytes_of k) (ll2string (lib E) v))" if "in_ll v" "length k < 100" for k v
    unfolding rdbSaveAuxFieldStrInt_def
    using print_length [OF that(1)] that(2) by (intro aux_field_saver mem) (simp_all add: bytes_of_def)
  have str: "aux_saver (rdbSaveAuxFieldStrStr E k v) (aux_value (bytes_of k) (cstr v))" if "length v < 2 ^ 63" "length k < 100" for k v
    unfolding rdbSaveAuxFieldStrStr_def
    using length_cstr [of v] that by (intro aux_field_saver mem) (simp_all add: bytes_of_def)
  have l: "length (aux_fields E aof rsi) \<le> 8" by (simp add: aux_fields_def split: option.split)
  have "in_ll 64" "in_ll 0" "in_ll 1" by (simp_all add: in_ll_def int_limits)
  let ?num = "\<lambda>k v. aux_value (bytes_of k) (ll2string (lib E) v)"
  let ?fs = "[aux_value (bytes_of ''redis-ver'') (cstr (redis_version E)), ?num ''redis-bits'' 64,
      ?num ''ctime'' (time_now E), ?num ''used-mem'' (used_memory E)] @
     (case rsi of None \<Rightarrow> [] | Some i \<Rightarrow> [?num ''repl-stream-db'' (repl_stream_db i),
        aux_value (bytes_of ''repl-id'') (cstr (replid E)), ?num ''repl-offset'' (master_repl_offset E)]) @
     [?num ''aof-base'' (if aof then 1 else 0)]"
  have "list_all2 aux_saver (aux_fields E aof rsi) ?fs"
    using E rsi \<open>in_ll 64\<close> \<open>in_ll 0\<close> \<open>in_ll 1\<close> unfolding no_auxiliary_def aux_fields_def
    by (auto split: option.splits intro!: int str list_all2_appendI)
  moreover have "(\<lambda>ld. foldl (\<lambda>l f. f l) ld ?fs) = loaded_info E rsi"
  proof
    show "foldl (\<lambda>l f. f l) ld ?fs = loaded_info E rsi ld" for ld
      by (cases rsi; cases "ld_rsi ld") (simp_all add: aux_values loaded_info_def Let_def)
  qed
  ultimately obtain bs where bs: "saves (save_all (aux_fields E aof rsi)) bs" "fields (length (aux_fields E aof rsi)) bs (loaded_info E rsi)"
    using aux_savers by metis
  have "fsaves (plain (rdbSaveInfoAuxFields E aof rsi)) bs"
    unfolding fsaves_def
  proof
    fix r
    obtain n r' where "plain (save_all (aux_fields E aof rsi)) (Some r) = Inr (n, Some r')"
        "n = - 1 \<and> \<not> reliable \<or> 0 \<le> n \<and> written r' = written r @ bs"
      by (rule fsavesD [OF fsaves_plain [OF bs(1)]]) (rule that)
    then show "\<exists>n r'. plain (rdbSaveInfoAuxFields E aof rsi) (Some r) = Inr (n, Some r')
        \<and> (n = - 1 \<and> \<not> reliable \<or> 0 \<le> n \<and> written r' = written r @ bs)"
      by (cases "n = - 1") (simp_all add: plain_def rdbSaveInfoAuxFields_def)
  qed
  moreover have "fields 8 bs (loaded_info E rsi)"
    unfolding fields_def
  proof (intro allI impI)
    fix now clk ld t idle assume "can_load E idle t"
    then have "reach now clk (length (aux_fields E aof rsi)) bs ld t
        (\<lambda>l u. l = loaded_info E rsi ld \<and> grows t u \<and> load_inv u \<and> view (lib E) u = view (lib E) t)"
      using bs(2) unfolding fields_def by blast
    then show "reach now clk 8 bs ld t (\<lambda>l u. l = loaded_info E rsi ld \<and> grows t u \<and> load_inv u \<and> view (lib E) u = view (lib E) t)"
      by (rule reach_weaken) (use l in simp_all)
  qed
  ultimately show ?thesis by blast
qed

lemma file_code:
  assumes E: "no_auxiliary E" and s: "\<forall>i < dbnum s. saveable (lib E) s i" "dbnum s < 2 ^ 63"
    and req: "\<not> exclude_data req" "\<forall>i. save_info req = Some i \<longrightarrow> in_ll (repl_stream_db i)"
  shows "\<exists>bs. fsaves (run_savers (rio_parts E req s)) (magic (RDB_VERSION (ops E)) @ bs @ [RDB_OPCODE_EOF (ops E)])
    \<and> (\<forall>now clk ld t j. plain_ld ld j \<and> can_load E (flag_set (maxmemory_policy s) MAXMEMORY_FLAG_LRU) t
          \<and> dbnum t = dbnum s \<and> (\<forall>i < dbnum t. \<forall>k. view (lib E) t i k = None) \<longrightarrow>
        reach now clk (8 + turns s [0..<dbnum s]) bs ld t (\<lambda>l u. view (lib E) u = snapshots E now s [0..<dbnum s] (view (lib E) t)))"
proof -
  have mem: "alloc E n" for n using E by (simp add: no_auxiliary_def)
  obtain ab where ab: "fsaves (plain (rdbSaveInfoAuxFields E (aof_preamble_flag req) (save_info req))) ab" "fields 8 ab (loaded_info E (save_info req))"
    using info_aux [OF E] req(2) by blast
  have all: "\<forall>i \<in> set [0..<dbnum s]. saveable (lib E) s i" "distinct [0..<dbnum s]" using s by simp_all
  from dbs_code [OF mem all s(2)] obtain bss where bss: "list_all2 fsaves (map (rdbSaveDb E s) [0..<dbnum s]) bss"
      "\<forall>now clk ld t j. plain_ld ld j \<and> can_load E (flag_set (maxmemory_policy s) MAXMEMORY_FLAG_LRU) t
          \<and> (\<forall>i \<in> set [0..<dbnum s]. i < dbnum t \<and> (\<forall>k. view (lib E) t i k = None)) \<longrightarrow>
        reach now clk (turns s [0..<dbnum s]) (concat bss) ld t (\<lambda>l u. (\<exists>j. plain_ld l j) \<and> grows t u \<and> load_inv u
          \<and> view (lib E) u = snapshots E now s [0..<dbnum s] (view (lib E) t))"
    by (elim exE conjE) (rule that)
  have none: "fsaves (save_modules_aux E b) []" for b using E by (simp add: fsaves_def no_auxiliary_def)
  have fn: "fsaves (plain (rdbSaveFunctions E)) []"
    using E fsaves_plain [OF saves_nil] by (simp add: rdbSaveFunctions_def no_auxiliary_def)
  let ?bss = "[magic (RDB_VERSION (ops E)), ab] @ [[]] @ (if exclude_functions req then [] else [[]]) @ bss @ [[]] @ [[RDB_OPCODE_EOF (ops E)]]"
  have "list_all2 fsaves (rio_parts E req s) ?bss"
    unfolding rio_parts_def if_not_P [OF req(1)]
    using ab(1) bss(1) none fn
    by (intro list_all2_appendI) (auto intro!: fsaves_plain saves_raw saves_type)
  from fsaves_run [OF this] have "fsaves (run_savers (rio_parts E req s)) (magic (RDB_VERSION (ops E)) @ (ab @ concat bss) @ [RDB_OPCODE_EOF (ops E)])"
    by (cases "exclude_functions req") simp_all
  moreover have "reach now clk (8 + turns s [0..<dbnum s]) (ab @ concat bss) ld t
      (\<lambda>l u. view (lib E) u = snapshots E now s [0..<dbnum s] (view (lib E) t))"
    if t: "plain_ld ld j" "can_load E (flag_set (maxmemory_policy s) MAXMEMORY_FLAG_LRU) t" "dbnum t = dbnum s"
      "\<forall>i < dbnum t. \<forall>k. view (lib E) t i k = None" for now clk ld t j
  proof (rule reach_then)
    show "reach now clk 8 ab ld t (\<lambda>l u. l = loaded_info E (save_info req) ld \<and> grows t u \<and> load_inv u \<and> view (lib E) u = view (lib E) t)"
      using ab(2) t(2) unfolding fields_def by blast
    fix l u assume u: "l = loaded_info E (save_info req) ld \<and> grows t u \<and> load_inv u \<and> view (lib E) u = view (lib E) t"
    then have "plain_ld l j" using t(1) by (auto simp: loaded_info_def plain_ld_def Let_def split: option.splits)
    from u have c: "can_load E (flag_set (maxmemory_policy s) MAXMEMORY_FLAG_LRU) u" using can_load_grows [OF t(2)] by blast
    have "dbnum u = dbnum s" using u t(3) grows_fields(10) [of t u] by simp
    then have pre: "plain_ld l j \<and> can_load E (flag_set (maxmemory_policy s) MAXMEMORY_FLAG_LRU) u
        \<and> (\<forall>i \<in> set [0..<dbnum s]. i < dbnum u \<and> (\<forall>k. view (lib E) u i k = None))"
      using c u t \<open>plain_ld l j\<close> by auto
    show "reach now clk (turns s [0..<dbnum s]) (concat bss) l u (\<lambda>l u. view (lib E) u = snapshots E now s [0..<dbnum s] (view (lib E) t))"
      by (rule reach_weaken [OF bss(2) [rule_format, OF pre]]) (use u in auto)
  qed
  ultimately show ?thesis by blast
qed

lemma reach_eof:
  assumes "reach now clk N bs ld s Q" "unread r = bs @ RDB_OPCODE_EOF (ops E) # rest" "N < fuel"
  shows "\<exists>ld' r' s'. load_loop E now clk fuel ld (r, s) = Inr (LoadOk, ld', (r', s')) \<and> unread r' = rest \<and> Q ld' s'"
proof -
  obtain n ld' r' s' where n: "n \<le> N" "unread r' = RDB_OPCODE_EOF (ops E) # rest" "Q ld' s'"
      "\<And>fuel. load_loop E now clk (n + fuel) ld (r, s) = load_loop E now clk fuel ld' (r', s')"
    by (rule reachD [OF assms(1,2)]) (rule that)
  obtain r'' where r'': "rdbLoadType (rd_of E) r' = (Some (RDB_OPCODE_EOF (ops E)), r'')" "unread r'' = rest"
    using loadsD [OF loads_type, of r' "RDB_OPCODE_EOF (ops E)" rest] n(2) by auto
  obtain m where m: "fuel = n + Suc m" using n(1) assms(3) by (metis less_imp_Suc_add add_Suc_right le_less_trans)
  have "load_loop E now clk fuel ld (r, s) = Inr (LoadOk, ld', (r'', s'))"
    using r''(1) unfolding m n(4) by (simp add: on_rio_def dispatch(7))
  with r''(2) n(3) show ?thesis by blast
qed

end

subsection \<open>The round trip\<close>

lemma rdb_snapshot_ok:
  assumes spec: "rio_spec (wr_of E) (rd_of E) written unread" "rdb_h_spec (fmt E)" "strlib_spec (lib E)"
      "lzf_spec (lzf_of E)" "rdb_ops_spec (ops E)"
    and E: "no_auxiliary E"
    and s: "\<forall>i < dbnum s. saveable (lib E) s i" "dbnum s < 2 ^ 63"
    and req: "\<not> exclude_data req" "\<forall>i. save_info req = Some i \<longrightarrow> in_ll (repl_stream_db i)"
    and t: "can_load E (flag_set (maxmemory_policy s) MAXMEMORY_FLAG_LRU) t" "dbnum t = dbnum s"
      "\<forall>i < dbnum t. \<forall>k. view (lib E) t i k = None"
  shows "\<exists>bs. (\<forall>r. \<exists>st r'. rdbSaveRio E req s r = Inr (st, r')
           \<and> (st = C_ERR \<longrightarrow> (\<exists>bs r. \<not> fst (wr_of E bs r)))
           \<and> (st = C_OK \<longrightarrow> (\<exists>r1. written r1 = written r @ bs \<and> written r' = written r @ bs @ le_bytes 8 (cksum_of E r1))))
    \<and> (\<forall>r ck rest fuel. unread r = bs @ ck @ rest \<and> length ck = 8 \<and> 8 + turns s [0..<dbnum s] < fuel \<longrightarrow>
         (\<exists>ld r1 r' u. rdbLoadRioWithLoadingCtx E rsi fuel (r, t) =
              Inr (if check_cksum E \<and> of_le ck \<noteq> 0 \<and> of_le ck \<noteq> cksum_of E r1 then LoadErr else LoadOk, ld, (r', u))
            \<and> unread r1 = ck @ rest \<and> unread r' = rest
            \<and> (\<forall>i < dbnum s. view (lib E) u i = snapshot E (mstime t) s i)))"
proof -
  have I: "rdb_file E written unread"
    using spec by (simp add: rdb_file_def rdb_strings_def rdb_stream_def)
  have v: "5 \<le> RDB_VERSION (ops E)" "RDB_VERSION (ops E) \<le> 9999"
    using rdb_ops_spec.version [OF spec(5)] by simp_all
  let ?m = "magic (RDB_VERSION (ops E))" and ?eof = "RDB_OPCODE_EOF (ops E)"
  have m: "length ?m = 9" "take 5 ?m = bytes_of ''REDIS''" "c_atoi (drop 5 ?m) = RDB_VERSION (ops E)"
    using magic_header [of "RDB_VERSION (ops E)"] v by simp_all
  from rdb_file.file_code [OF I E s req] obtain bs where bs: "rdb_file.fsaves E written (run_savers (rio_parts E req s)) (?m @ bs @ [?eof])"
      "\<forall>now clk ld t j. plain_ld ld j \<and> can_load E (flag_set (maxmemory_policy s) MAXMEMORY_FLAG_LRU) t
          \<and> dbnum t = dbnum s \<and> (\<forall>i < dbnum t. \<forall>k. view (lib E) t i k = None) \<longrightarrow>
        rdb_file.reach E unread now clk (8 + turns s [0..<dbnum s]) bs ld t
          (\<lambda>l u. view (lib E) u = snapshots E now s [0..<dbnum s] (view (lib E) t))"
    by (elim exE conjE) (rule that)
  have save: "\<exists>st r'. rdbSaveRio E req s r = Inr (st, r')
           \<and> (st = C_ERR \<longrightarrow> (\<exists>bs r. \<not> fst (wr_of E bs r)))
           \<and> (st = C_OK \<longrightarrow> (\<exists>r1. written r1 = written r @ (?m @ bs @ [?eof])
             \<and> written r' = written r @ (?m @ bs @ [?eof]) @ le_bytes 8 (cksum_of E r1)))" for r
  proof -
    obtain n r1 where r1: "run_savers (rio_parts E req s) (Some r) = Inr (n, Some r1)"
        "n = - 1 \<and> (\<exists>bs r. \<not> fst (wr_of E bs r)) \<or> 0 \<le> n \<and> written r1 = written r @ ?m @ bs @ [?eof]"
      using bs(1) unfolding rdb_file.fsaves_def [OF I] rio_spec.reliable_def [OF spec(1)] by metis
    obtain ok r2 where w: "wr_of E (le_bytes 8 (cksum_of E r1)) r1 = (ok, r2)" by (cases "wr_of E (le_bytes 8 (cksum_of E r1)) r1")
    have "written r2 = written r1 @ le_bytes 8 (cksum_of E r1)" if ok
      using rio_spec.write_appends [OF spec(1), of _ r1 r2] w that by simp
    moreover have "\<not> ok \<longrightarrow> (\<exists>bs r. \<not> fst (wr_of E bs r))" using w by (metis fst_conv)
    ultimately show ?thesis using r1 w by (auto simp: rdbSaveRio_def Let_def)
  qed
  have load: "\<exists>ld r1 r' u. rdbLoadRioWithLoadingCtx E rsi fuel (r, t) =
              Inr (if check_cksum E \<and> of_le ck \<noteq> 0 \<and> of_le ck \<noteq> cksum_of E r1 then LoadErr else LoadOk, ld, (r', u))
            \<and> unread r1 = ck @ rest \<and> unread r' = rest
            \<and> (\<forall>i < dbnum s. view (lib E) u i = snapshot E (mstime t) s i)"
    if r: "unread r = (?m @ bs @ [?eof]) @ ck @ rest" "length ck = 8" "8 + turns s [0..<dbnum s] < fuel" for r ck rest fuel
  proof -
    let ?ld = "start_load rsi"
    obtain r0 where r0: "rd_of E 9 r = (Some ?m, r0)" "unread r0 = bs @ ?eof # ck @ rest"
      using rdb_file.loadsD [OF I rio_spec.loads_read [OF spec(1), of ?m 9] , of r "bs @ ?eof # ck @ rest"] r(1) m(1) by auto
    have pre: "plain_ld ?ld 0 \<and> can_load E (flag_set (maxmemory_policy s) MAXMEMORY_FLAG_LRU) t
          \<and> dbnum t = dbnum s \<and> (\<forall>i < dbnum t. \<forall>k. view (lib E) t i k = None)"
      using t by (simp add: plain_ld_def start_load_def)
    obtain ld' r1 u where l: "load_loop E (mstime t) (uint (LRU_CLOCK t)) fuel ?ld (r0, t) = Inr (LoadOk, ld', (r1, u))"
        "unread r1 = ck @ rest" "view (lib E) u = snapshots E (mstime t) s [0..<dbnum s] (view (lib E) t)"
      using rdb_file.reach_eof [OF I bs(2) [rule_format, OF pre] r0(2) r(3)] by blast
    obtain r' where r': "rd_of E 8 r1 = (Some ck, r')" "unread r' = rest"
      using rdb_file.loadsD [OF I rio_spec.loads_read [OF spec(1) r(2)] l(2)] by blast
    have "check_end E (RDB_VERSION (ops E)) (r1, u) =
        (if check_cksum E \<and> of_le ck \<noteq> 0 \<and> of_le ck \<noteq> cksum_of E r1 then LoadErr else LoadOk, r', u)"
      using v(1) r'(1) by (simp add: check_end_def on_rio_def)
    with r0(1) m v l(1) have "rdbLoadRioWithLoadingCtx E rsi fuel (r, t) =
        Inr (if check_cksum E \<and> of_le ck \<noteq> 0 \<and> of_le ck \<noteq> cksum_of E r1 then LoadErr else LoadOk, ld', (r', u))"
      by (simp add: rdbLoadRioWithLoadingCtx_def on_rio_def Let_def)
    moreover have "view (lib E) u i = snapshot E (mstime t) s i" if "i < dbnum s" for i
      using that l(3) by (simp add: snapshots_def)
    ultimately show ?thesis using l(2) r'(2) by blast
  qed
  show ?thesis
    by (rule exI [of _ "?m @ bs @ [?eof]"]) (use save load in blast)
qed

text \<open>
  C6: A server whose values are strings is saved by \<open>rdbSaveRio\<close> as a file that does not depend on the
  stream, and C_ERR is only returned when a write failed. Loaded into an empty server, with fuel for
  four opcodes per key, the loop ends, and every database holds exactly the keys, strings and expires it
  had when saved, without those a master drops as expired. The result is an error only when checksums
  are verified and differ. The conditions on the loading server: it has as many databases, its shared
  integers and free addresses are in order (\<open>load_inv\<close>); when the saving server's policy is an LRU
  policy, so that the file holds idle times, it is under LFU or does not share integers (C37 is what
  happens otherwise); and the memory of new objects leaves \<open>room\<close> in the access counts that
  \<open>createEmbeddedStringObject\<close> does not initialise, which is no condition when no idle time is loaded
  and the policy is not a histogram policy.
\<close>

theorem rdb_snapshot_roundtrip:
  assumes spec: "rio_spec (wr_of E) (rd_of E) written unread" "rdb_h_spec (fmt E)" "strlib_spec (lib E)"
      "lzf_spec (lzf_of E)" "rdb_ops_spec (ops E)"
    and E: "no_auxiliary E"
    and s: "\<forall>i < dbnum s. saveable (lib E) s i" "dbnum s < 2 ^ 63"
    and req: "\<not> exclude_data req" "\<forall>i. save_info req = Some i \<longrightarrow> in_ll (repl_stream_db i)"
    and t: "load_inv t" "dbnum t = dbnum s" "\<forall>i < dbnum t. \<forall>k. view (lib E) t i k = None"
      "feed_repl E \<longrightarrow> repl_backlog E \<and> slaves t = 0"
    and idle: "flag_set (maxmemory_policy s) MAXMEMORY_FLAG_LRU \<longrightarrow>
        flag_set (maxmemory_policy t) MAXMEMORY_FLAG_LFU \<or> \<not> may_share t"
    and mem: "\<forall>a. room t (flag_set (maxmemory_policy s) MAXMEMORY_FLAG_LRU) (snd (fresh_mem t a))"
  shows "\<exists>bs. (\<forall>r. \<exists>st r'. rdbSaveRio E req s r = Inr (st, r')
           \<and> (st = C_ERR \<longrightarrow> (\<exists>bs r. \<not> fst (wr_of E bs r)))
           \<and> (st = C_OK \<longrightarrow> (\<exists>r1. written r1 = written r @ bs \<and> written r' = written r @ bs @ le_bytes 8 (cksum_of E r1))))
    \<and> (\<forall>r ck rest fuel. unread r = bs @ ck @ rest \<and> length ck = 8 \<and> 8 + turns s [0..<dbnum s] < fuel \<longrightarrow>
         (\<exists>ld r1 r' u. rdbLoadRioWithLoadingCtx E rsi fuel (r, t) =
              Inr (if check_cksum E \<and> of_le ck \<noteq> 0 \<and> of_le ck \<noteq> cksum_of E r1 then LoadErr else LoadOk, ld, (r', u))
            \<and> unread r1 = ck @ rest \<and> unread r' = rest
            \<and> (\<forall>i < dbnum s. view (lib E) u i = snapshot E (mstime t) s i)))"
  using t idle mem by (intro rdb_snapshot_ok [OF spec E s req _ t(2,3)]) (simp add: can_load_def spare_history_def)

subsection \<open>A concrete snapshot\<close>

definition demo_rdb :: "buffer rdb_env" where
  "demo_rdb =
     \<lparr>wr_of = buf_write, rd_of = buf_read, fmt = rdb_format, ops = rdb_version_11, lib = decimal_lib, lzf_of = rle_lib,
      compression = True, alloc = (\<lambda>_. True), save_other = (\<lambda>_. Inl Panicked), load_other = (\<lambda>_ _ rs. (BadValue, rs)),
      load_special = (\<lambda>_ rs. (LoadErr, rs)), save_modules_aux = (\<lambda>_ rdb. Inr (0, rdb)), function_codes = [],
      redis_version = [55, 46, 50], time_now = 100, used_memory = 1000, replid = [], master_repl_offset = 0,
      i_am_master = True, aof_preamble = False, feed_repl = False, allow_dup = False, repl_backlog = False,
      cksum_of = (\<lambda>_. 0), check_cksum = True\<rparr>"

interpretation demo: rdb_file demo_rdb wbuf rbuf
  unfolding rdb_file_def rdb_strings_def rdb_stream_def demo_rdb_def
  using buf.rio_spec_axioms published.rdb_h_spec_axioms decimal.strlib_spec_axioms rle.lzf_spec_axioms
    version_11.rdb_ops_spec_axioms
  by simp

definition demo_saved :: server where
  "demo_saved = (string_server (SdsPtr [104, 105] 0))
     \<lparr>dbs := [(empty_db 0)\<lparr>db_dict := [([97], 10000), ([98], 42)], db_expires := [([97], 5000)]\<rparr>, empty_db 1]\<rparr>"

definition demo_request :: save_request where
  "demo_request = \<lparr>exclude_data = False, exclude_functions = False, aof_preamble_flag = False, save_info = None\<rparr>"

definition demo_target :: server where
  "demo_target = (string_server (SdsPtr [104, 105] 0))
     \<lparr>dbs := [empty_db 0, empty_db 1], fresh_mem := (\<lambda>_. ([1, 2, 3, 4], 77))\<rparr>"

lemma demo_saveable: "\<forall>i < dbnum demo_saved. saveable (lib demo_rdb) demo_saved i"
proof -
  have "dbnum demo_saved = 2" by (simp add: demo_saved_def dbnum_def)
  moreover have "saveable (lib demo_rdb) demo_saved 0" "saveable (lib demo_rdb) demo_saved 1"
    using string_server_objs decimal.print_length [of 42]
    by (auto simp: refcount_defs demo_saved_def saveable_def dbnum_def db_ok_def dict_wf_def dictSize_def dictFind_def empty_db_def stringy_def
        demo_rdb_def string_server_def str_bytes_def shared_obj_def str_ok_def sdsEncodedObject_def in_ll_def int_limits)
  ultimately show ?thesis by (auto simp: less_2_cases_iff)
qed

lemma demo_can_load: "can_load demo_rdb idle demo_target \<longleftrightarrow> \<not> idle"
  using string_server_ok [of "SdsPtr [104, 105] 0"]
  by (auto simp: can_load_def load_inv_def demo_target_def shared_ok_def fresh_ok_def mem_typed_def spare_history_def room_def
      may_share_def demo_rdb_def
      string_server_def init_server_def empty_db_def db_ok_def HISTORY_SIZE_def policy_defs)

theorem rdb_snapshot_roundtrip_witness:
  "\<exists>bs. (\<forall>r. \<exists>st r'. rdbSaveRio demo_rdb demo_request demo_saved r = Inr (st, r')
           \<and> (st = C_ERR \<longrightarrow> (\<exists>bs r. \<not> fst (wr_of demo_rdb bs r)))
           \<and> (st = C_OK \<longrightarrow> (\<exists>r1. wbuf r1 = wbuf r @ bs \<and> wbuf r' = wbuf r @ bs @ le_bytes 8 (cksum_of demo_rdb r1))))
    \<and> (\<forall>r ck rest fuel. rbuf r = bs @ ck @ rest \<and> length ck = 8 \<and> 8 + turns demo_saved [0..<dbnum demo_saved] < fuel \<longrightarrow>
         (\<exists>ld r1 r' u. rdbLoadRioWithLoadingCtx demo_rdb None fuel (r, demo_target) =
              Inr (if check_cksum demo_rdb \<and> of_le ck \<noteq> 0 \<and> of_le ck \<noteq> cksum_of demo_rdb r1 then LoadErr else LoadOk, ld, (r', u))
            \<and> rbuf r1 = ck @ rest \<and> rbuf r' = rest
            \<and> (\<forall>i < dbnum demo_saved. view (lib demo_rdb) u i = snapshot demo_rdb (mstime demo_target) demo_saved i)))"
proof (rule rdb_snapshot_roundtrip)
  show "rio_spec (wr_of demo_rdb) (rd_of demo_rdb) wbuf rbuf" "rdb_h_spec (fmt demo_rdb)" "strlib_spec (lib demo_rdb)"
      "lzf_spec (lzf_of demo_rdb)" "rdb_ops_spec (ops demo_rdb)"
    using buf.rio_spec_axioms published.rdb_h_spec_axioms decimal.strlib_spec_axioms rle.lzf_spec_axioms
      version_11.rdb_ops_spec_axioms
    by (simp_all add: demo_rdb_def)
  show "no_auxiliary demo_rdb" by (simp add: no_auxiliary_def demo_rdb_def in_ll_def int_limits)
  show "\<forall>i < dbnum demo_saved. saveable (lib demo_rdb) demo_saved i" by (rule demo_saveable)
  show "dbnum demo_saved < 2 ^ 63" "dbnum demo_target = dbnum demo_saved"
    by (simp_all add: dbnum_def demo_saved_def demo_target_def)
  show "\<not> exclude_data demo_request" "\<forall>i. save_info demo_request = Some i \<longrightarrow> in_ll (repl_stream_db i)" by (simp_all add: demo_request_def)
  have nl: "\<not> flag_set (maxmemory_policy demo_saved) MAXMEMORY_FLAG_LRU"
    by (simp add: demo_saved_def string_server_def init_server_def policy_defs)
  have c: "can_load demo_rdb False demo_target" by (simp add: demo_can_load)
  show "load_inv demo_target" "feed_repl demo_rdb \<longrightarrow> repl_backlog demo_rdb \<and> slaves demo_target = 0"
    using c by (simp_all add: can_load_def)
  show "flag_set (maxmemory_policy demo_saved) MAXMEMORY_FLAG_LRU \<longrightarrow>
      flag_set (maxmemory_policy demo_target) MAXMEMORY_FLAG_LFU \<or> \<not> may_share demo_target"
    using nl by simp
  show "\<forall>a. room demo_target (flag_set (maxmemory_policy demo_saved) MAXMEMORY_FLAG_LRU) (snd (fresh_mem demo_target a))"
    using c nl by (simp add: can_load_def spare_history_def)
  show "\<forall>i < dbnum demo_target. \<forall>k. view (lib demo_rdb) demo_target i k = None"
    by (auto simp: view_def dbnum_def demo_target_def empty_db_def nth_Cons' split: if_splits)
qed

text \<open>What the snapshot holds: both keys, the first with its expire.\<close>

lemma demo_snapshot:
  "snapshot demo_rdb (mstime demo_target) demo_saved 0 [97] = Some ([104, 105], Some 5000)"
  "snapshot demo_rdb (mstime demo_target) demo_saved 0 [98] = Some (ll2string decimal_lib 42, None)"
  "snapshot demo_rdb 6000 demo_saved 0 [97] = None"
  by (simp_all add: snapshot_def view_def demo_saved_def dbnum_def dictFind_def empty_db_def string_server_def demo_rdb_def
      demo_target_def init_server_def dropped_def str_bytes_def shared_obj_def)

text \<open>
  C36: The state of replication round trips: the AUX fields saved with a replication ID of 40 characters
  are loaded, by a caller that asks for it, as the same database, ID and offset; the loop consumes them
  in at most eight turns and leaves the data set and the attributes of the next key as they were.
\<close>

theorem rdb_replication_roundtrip:
  assumes spec: "rio_spec (wr_of E) (rd_of E) written unread" "rdb_h_spec (fmt E)" "printed_strlib (lib E)"
      "lzf_spec (lzf_of E)" "rdb_ops_spec (ops E)"
    and E: "no_auxiliary E" "length (cstr (replid E)) = CONFIG_RUN_ID_SIZE"
    and info: "INT_MIN \<le> repl_stream_db info" "repl_stream_db info \<le> INT_MAX"
    and t: "can_load E idle t"
  shows "\<exists>bs. (\<forall>r. \<exists>n r'. rdbSaveInfoAuxFields E aof (Some info) (Some r) = (n, Some r')
           \<and> (n = - 1 \<and> (\<exists>bs r. \<not> fst (wr_of E bs r)) \<or> n = 1 \<and> written r' = written r @ bs))
    \<and> (\<forall>r rest ld rsi. unread r = bs @ rest \<and> ld_rsi ld = Some rsi \<longrightarrow>
         (\<exists>n r' u. n \<le> 8 \<and> unread r' = rest \<and> view (lib E) u = view (lib E) t
            \<and> (\<forall>fuel. load_loop E now clk (n + fuel) ld (r, t) = load_loop E now clk fuel
                  (ld\<lparr>ld_used_mem := used_memory E,
                      ld_rsi := Some \<lparr>repl_stream_db = repl_stream_db info, repl_id_is_set = True,
                                      repl_id = cstr (replid E), repl_offset = master_repl_offset E\<rparr>\<rparr>) (r', u))))"
proof -
  have I: "rdb_file E written unread"
    using spec by (simp add: rdb_file_def rdb_strings_def rdb_stream_def printed_strlib_def)
  have "in_ll (repl_stream_db info)" using info by (simp add: in_ll_def int_limits)
  then obtain bs where bs: "rdb_file.fsaves E written (plain (rdbSaveInfoAuxFields E aof (Some info))) bs"
      "rdb_file.fields E unread 8 bs (loaded_info E (Some info))"
    using rdb_file.info_aux [OF I E(1), of "Some info" aof] by auto
  have "\<exists>n r'. rdbSaveInfoAuxFields E aof (Some info) (Some r) = (n, Some r')
      \<and> (n = - 1 \<and> (\<exists>bs r. \<not> fst (wr_of E bs r)) \<or> n = 1 \<and> written r' = written r @ bs)" for r
  proof -
    obtain n r' where n: "rdbSaveInfoAuxFields E aof (Some info) (Some r) = (n, Some r')"
        "n = - 1 \<and> (\<exists>bs r. \<not> fst (wr_of E bs r)) \<or> 0 \<le> n \<and> written r' = written r @ bs"
      using bs(1) unfolding rdb_file.fsaves_def [OF I] rio_spec.reliable_def [OF spec(1)] plain_def by (metis sum.inject(2))
    from n(1) have "n = - 1 \<or> n = 1" by (auto simp: rdbSaveInfoAuxFields_def split: prod.splits if_splits)
    with n show ?thesis by auto
  qed
  moreover have "\<exists>n r' u. n \<le> 8 \<and> unread r' = rest \<and> view (lib E) u = view (lib E) t
      \<and> (\<forall>fuel. load_loop E now clk (n + fuel) ld (r, t) = load_loop E now clk fuel
            (ld\<lparr>ld_used_mem := used_memory E,
                ld_rsi := Some \<lparr>repl_stream_db = repl_stream_db info, repl_id_is_set = True,
                                repl_id = cstr (replid E), repl_offset = master_repl_offset E\<rparr>\<rparr>) (r', u))"
    if r: "unread r = bs @ rest" "ld_rsi ld = Some rsi" for r rest ld rsi
  proof -
    have "loaded_info E (Some info) ld = ld\<lparr>ld_used_mem := used_memory E,
        ld_rsi := Some \<lparr>repl_stream_db = repl_stream_db info, repl_id_is_set = True,
                        repl_id = cstr (replid E), repl_offset = master_repl_offset E\<rparr>\<rparr>"
      using E r(2) printed_strlib.strtol_print [OF spec(3)] printed_strlib.atoi_print [OF spec(3) info]
      by (simp add: loaded_info_def no_auxiliary_def)
    with rdb_file.reachD [OF I bs(2) [unfolded rdb_file.fields_def [OF I], rule_format, OF t] r(1)] show ?thesis
      by metis
  qed
  ultimately show ?thesis by blast
qed

definition demo_replica :: "buffer rdb_env" where
  "demo_replica = demo_rdb\<lparr>replid := replicate 40 97, master_repl_offset := 12345\<rparr>"

theorem rdb_replication_roundtrip_witness:
  "\<exists>bs. (\<forall>r. \<exists>n r'. rdbSaveInfoAuxFields demo_replica True (Some (RDB_SAVE_INFO_INIT\<lparr>repl_stream_db := 3\<rparr>)) (Some r) = (n, Some r')
           \<and> (n = - 1 \<and> (\<exists>bs r. \<not> fst (wr_of demo_replica bs r)) \<or> n = 1 \<and> wbuf r' = wbuf r @ bs))
    \<and> (\<forall>r rest ld rsi. rbuf r = bs @ rest \<and> ld_rsi ld = Some rsi \<longrightarrow>
         (\<exists>n r' u. n \<le> 8 \<and> rbuf r' = rest \<and> view (lib demo_replica) u = view (lib demo_replica) demo_target
            \<and> (\<forall>fuel. load_loop demo_replica 0 0 (n + fuel) ld (r, demo_target) = load_loop demo_replica 0 0 fuel
                  (ld\<lparr>ld_used_mem := 1000,
                      ld_rsi := Some \<lparr>repl_stream_db = 3, repl_id_is_set = True,
                                      repl_id = replicate 40 97, repl_offset = 12345\<rparr>\<rparr>) (r', u))))"
proof -
  have s: "rio_spec (wr_of demo_replica) (rd_of demo_replica) wbuf rbuf" "rdb_h_spec (fmt demo_replica)"
      "printed_strlib (lib demo_replica)" "lzf_spec (lzf_of demo_replica)" "rdb_ops_spec (ops demo_replica)"
    using buf.rio_spec_axioms published.rdb_h_spec_axioms decimal_print.printed_strlib_axioms rle.lzf_spec_axioms
      version_11.rdb_ops_spec_axioms
    by (simp_all add: demo_replica_def demo_rdb_def)
  have c: "cstr (replid demo_replica) = replicate 40 97" by (simp add: demo_replica_def cstr_def)
  have e: "no_auxiliary demo_replica" "length (cstr (replid demo_replica)) = CONFIG_RUN_ID_SIZE"
    unfolding c by (simp_all add: no_auxiliary_def demo_replica_def demo_rdb_def in_ll_def int_limits CONFIG_RUN_ID_SIZE_def)
  have t: "can_load demo_replica False demo_target"
    using demo_can_load [of False] by (simp add: can_load_def demo_replica_def demo_rdb_def)
  show ?thesis
    using rdb_replication_roundtrip [OF s e _ _ t, of "RDB_SAVE_INFO_INIT\<lparr>repl_stream_db := 3\<rparr>" True 0 0]
    by (simp add: c int_limits) (simp add: demo_replica_def demo_rdb_def)
qed

subsection \<open>Idle times of shared integers\<close>

text \<open>Several keys of one database that hold the same object, each with an idle time.\<close>

fun load_same :: "'r rdb_env \<Rightarrow> int \<Rightarrow> load_state \<Rightarrow> sds list \<Rightarrow> nat \<Rightarrow> server \<Rightarrow> server cres" where
  "load_same E clk ld [] b t = Inr t"
| "load_same E clk ld (k # ks) b t = cbind (add_loaded E clk ld k b t) (load_same E clk ld ks b)"

lemma add_shared:
  assumes i: "ld_db ld < length (dbs t)" and k: "dictFind (db_dict (dbs t ! ld_db ld)) key = None"
    and ob: "heap t b = Some ob" "refcount ob = OBJ_SHARED_REFCOUNT" "hist_ok ob"
    and pol: "\<not> flag_set (maxmemory_policy t) MAXMEMORY_FLAG_LFU" "0 \<le> ld_idle ld"
  shows "if unat (num_accesses ob) < 4
    then \<exists>u ob'. add_loaded E clk ld key b t = Inr u \<and> heap u b = Some ob' \<and> refcount ob' = OBJ_SHARED_REFCOUNT
           \<and> hist_ok ob' \<and> unat (num_accesses ob') = Suc (unat (num_accesses ob)) \<and> maxmemory_policy u = maxmemory_policy t
           \<and> dbs u = (dbs t)[ld_db ld := entered key b (ld_expire ld) (dbs t ! ld_db ld)]
    else add_loaded E clk ld key b t = Inl OutOfBounds"
proof -
  let ?i = "ld_db ld" let ?db = "dbs t ! ?i" let ?x = "ld_expire ld"
  let ?d1 = "?db\<lparr>db_dict := dictSet (db_dict ?db) key b\<rparr>"
  define s1 where "s1 = (let s = put_db ?i ?d1 (set_obj b ob t) in if cluster_enabled s then emit (SlotToKeyAdd (db_id ?db) key) s else s)"
  have a: "dbAddRDBLoad ?i key b t = Inr (True, s1)"
    using i k ob(1,2) by (simp add: dbAddRDBLoad_def s1_def Let_def initObjectLRUOrLFU_def)
  define s3 where "s3 = (if ?x \<noteq> - 1 then put_db ?i (entered key b ?x ?db) s1 else s1)"
  have h1: "heap s1 b = Some ob" "dbs s1 = (dbs t)[?i := ?d1]" "maxmemory_policy s1 = maxmemory_policy t"
    by (simp_all add: s1_def Let_def)
  have x: "(if ?x \<noteq> - 1 then setExpire None ?i key ?x s1 else Inr s1) = Inr s3"
    using i h1(2) by (simp add: setExpire_def s3_def table_simps entered_def)
  have h3: "heap s3 b = Some ob" "dbs s3 = (dbs t)[?i := entered key b ?x ?db]" "maxmemory_policy s3 = maxmemory_policy t"
    using h1 by (simp_all add: s3_def entered_def)
  define lru_abs where "lru_abs = (let x = clk - ld_idle ld * 1000 div LRU_CLOCK_RESOLUTION in if x < 0 then x + LRU_CLOCK_MAX else x)"
  let ?ob = "ob\<lparr>lru := word_of_int lru_abs\<rparr>" and ?now = "word_of_int (ld_idle ld * 1000 div LRU_CLOCK_RESOLUTION)"
  have set: "objectSetLRUOrLFU s3 ob (ld_freq ld) (ld_idle ld) clk 1000 = cbind (initOrUpdateObjectt ?ob ?now) (\<lambda>ob. Inr (True, ob))"
    using pol h3(3) by (simp add: objectSetLRUOrLFU_def Let_def lru_abs_def)
  have run: "add_loaded E clk ld key b t = cbind (initOrUpdateObjectt ?ob ?now) (\<lambda>ob'.
      Inr (emit (ModuleNotifyKeyspace NOTIFY_LOADED ''loaded'' key (db_id (entered key b ?x ?db))) (set_obj b ob' s3)))"
    using i h3 by (simp add: add_loaded_def Let_def a x set_usage_def set cbind_assoc)
  show ?thesis
  proof (cases "unat (num_accesses ob) < 4")
    case True
    obtain ob' where ob': "initOrUpdateObjectt ?ob ?now = Inr ob'" "hist_ok ob'" "history ob' = history ?ob @ [?now]"
        "ob' = ?ob\<lparr>access_times := access_times ob', num_accesses := num_accesses ob'\<rparr>"
      using initOrUpdate_append [of ?ob ?now] True ob(3) by (auto simp: robj_wf_def hist_ok_def)
    have "refcount ob' = OBJ_SHARED_REFCOUNT" using ob(2) by (subst ob'(4)) simp
    moreover have "unat (num_accesses ob') = Suc (unat (num_accesses ob))"
      using arg_cong [OF ob'(3), of length] length_history [OF ob'(2)] length_history [of ?ob] ob(3)
      by (simp add: hist_ok_def robj_wf_def)
    ultimately show ?thesis using True ob' h3 by (simp add: run)
  next
    case False
    then have "initOrUpdateObjectt ?ob ?now = Inl OutOfBounds"
      using ob(3) by (intro initOrUpdate_full) (auto simp: robj_wf_def hist_ok_def HISTORY_SIZE_def)
    with False show ?thesis by (simp add: run)
  qed
qed

text \<open>
  C37: Under a policy without the LFU flag, keys loaded with an idle time and holding the same shared
  integer append to the history of that one object: as many keys are loaded as its history has free
  slots, and the next one writes past the end of the history. With an unused integer the fifth key does.
\<close>

theorem shared_integer_idle_overflow:
  assumes "ld_db ld < length (dbs t)" "distinct keys" "\<forall>k \<in> set keys. dictFind (db_dict (dbs t ! ld_db ld)) k = None"
    and "heap t b = Some ob" "refcount ob = OBJ_SHARED_REFCOUNT" "hist_ok ob"
    and "\<not> flag_set (maxmemory_policy t) MAXMEMORY_FLAG_LFU" "0 \<le> ld_idle ld"
  shows "if unat (num_accesses ob) + length keys \<le> HISTORY_SIZE then no_fault (load_same E clk ld keys b t)
    else load_same E clk ld keys b t = Inl OutOfBounds"
  using assms
proof (induction keys arbitrary: t ob)
  case Nil
  then show ?case by (simp add: hist_ok_def)
next
  case (Cons key keys)
  have k: "dictFind (db_dict (dbs t ! ld_db ld)) key = None" using Cons.prems(3) by simp
  note step = add_shared [OF Cons.prems(1) k Cons.prems(4-8), of E clk]
  show ?case
  proof (cases "unat (num_accesses ob) < 4")
    case True
    then obtain u ob' where u: "add_loaded E clk ld key b t = Inr u" "heap u b = Some ob'" "refcount ob' = OBJ_SHARED_REFCOUNT"
        "hist_ok ob'" "unat (num_accesses ob') = Suc (unat (num_accesses ob))" "maxmemory_policy u = maxmemory_policy t"
        "dbs u = (dbs t)[ld_db ld := entered key b (ld_expire ld) (dbs t ! ld_db ld)]"
      using step by auto
    have "ld_db ld < length (dbs u)" "distinct keys" "\<forall>k \<in> set keys. dictFind (db_dict (dbs u ! ld_db ld)) k = None"
      "\<not> flag_set (maxmemory_policy u) MAXMEMORY_FLAG_LFU"
      using Cons.prems(1-3,7) u(6,7) by (auto simp: table_simps)
    from Cons.IH [OF this(1-3) u(2-4) this(4) Cons.prems(8)] u(1,5) show ?thesis by simp
  next
    case False
    then show ?thesis using step Cons.prems(6) by (simp add: hist_ok_def HISTORY_SIZE_def)
  qed
qed

theorem shared_integer_idle_overflow_witness:
  "load_same demo_rdb 0 ((start_load None)\<lparr>ld_idle := 7\<rparr>)
     [[97], [98], [99], [100], [101]] 42 demo_target = Inl OutOfBounds"
  using shared_integer_idle_overflow
    [of "(start_load None)\<lparr>ld_idle := 7\<rparr>"
      demo_target "[[97], [98], [99], [100], [101]]" 42 "shared_obj 42" demo_rdb 0]
  by (simp add: start_load_def demo_target_def string_server_def init_server_def empty_db_def shared_obj_def sample_obj_def hist_ok_def
      robj_wf_def HISTORY_SIZE_def policy_defs)

end
