(* ===== verification/Key_Commands.thy ===== *)
theory Key_Commands
  imports Keyspace C_String Max_Memory
begin

section \<open>Commands on keys and databases (db.c)\<close>

text \<open>
  The commands that work on keys of any type: DEL, EXISTS, RENAME, MOVE, COPY, SELECT, SWAPDB, FLUSHDB
  and FLUSHALL, and the swap of the data set with one just loaded. The arguments of a command are the
  bytes of its argument objects. What the commands ask of other modules (watched keys, client tracking,
  blocked clients, the lazy-free thread, propagation) is recorded as events. \<open>rand\<close> is the value of
  \<open>rand()\<close> at the next update of an LFU counter.
\<close>

record client =
  c_argv :: "sds list"
  c_db :: nat
  c_master :: bool
  c_deny_blocking :: bool

definition arg :: "client \<Rightarrow> nat \<Rightarrow> sds cres" where
  "arg c j = arr_get (c_argv c) j"

text \<open>\<open>getIntFromObjectOrReply\<close> on an argument, whose object is an sds string.\<close>

definition int_arg :: "strlib \<Rightarrow> sds \<Rightarrow> string option \<Rightarrow> server \<Rightarrow> int option \<times> server" where
  "int_arg L v msg s =
     (case string2ll L v of
        None \<Rightarrow> (None, reply_error msg ''value is not an integer or out of range'' s)
      | Some n \<Rightarrow>
          if n < LONG_MIN \<or> LONG_MAX < n then (None, reply_error msg ''value is out of range'' s)
          else if n < INT_MIN \<or> INT_MAX < n
          then (None, reply_error msg ''value is out of range, value must between'' s)
          else (Some n, s))"

lemma int_arg_object:
  "heap s a = Some ob \<Longrightarrow> otype ob = OBJ_STRING \<Longrightarrow> sdsEncodedObject ob \<Longrightarrow> ptr ob = SdsPtr v n \<Longrightarrow>
     getIntFromObjectOrReply L (Some a) msg s = Inr (int_arg L v msg s)"
  by (simp add: getIntFromObjectOrReply_def getRangeLongFromObjectOrReply_def getLongFromObjectOrReply_def
      getLongLongFromObjectOrReply_def getLongLongFromObject_def obj_at_def sds_of_def int_arg_def split: option.split)

subsection \<open>Databases\<close>

definition EMPTYDB_NO_FLAGS :: int where "EMPTYDB_NO_FLAGS = 0"
definition EMPTYDB_ASYNC :: int where "EMPTYDB_ASYNC = 1"
definition EMPTYDB_NOFUNCTIONS :: int where "EMPTYDB_NOFUNCTIONS = 2"

lemmas emptydb_defs = EMPTYDB_NO_FLAGS_def EMPTYDB_ASYNC_def EMPTYDB_NOFUNCTIONS_def

text \<open>\<open>dictEmpty\<close> gives up the references to the values.\<close>

fun release_values :: "nat list \<Rightarrow> server \<Rightarrow> server cres" where
  "release_values [] s = Inr s"
| "release_values (a # as) s = cbind (decrRefCount a s) (release_values as)"

definition emptied_db :: "redisDb \<Rightarrow> redisDb" where
  "emptied_db db = db\<lparr>db_dict := [], db_expires := [], avg_ttl := 0, expires_cursor := 0\<rparr>"

definition db_range :: "server \<Rightarrow> int \<Rightarrow> nat list" where
  "db_range s dbid = (if dbid = - 1 then [0..<dbnum s] else [nat dbid])"

fun empty_dbs :: "bool \<Rightarrow> nat list \<Rightarrow> redisDb list \<Rightarrow> server \<Rightarrow> (int \<times> redisDb list \<times> server) cres" where
  "empty_dbs async [] dbarray s = Inr (0, dbarray, s)"
| "empty_dbs async (j # js) dbarray s =
     cbind (arr_get dbarray j) (\<lambda>db.
     cbind (if async then Inr (emit (EmptyDbAsync (db_id db)) s) else release_values (map snd (db_dict db)) s) (\<lambda>s1.
     cbind (empty_dbs async js (dbarray[j := emptied_db db]) s1) (\<lambda>(n, dbarray', s2).
     Inr (int (dictSize (db_dict db)) + n, dbarray', s2))))"

text \<open>The databases may be those of the server or temporary ones.\<close>

definition emptyDbStructure :: "redisDb list \<Rightarrow> int \<Rightarrow> bool \<Rightarrow> server \<Rightarrow> (int \<times> redisDb list \<times> server) cres" where
  "emptyDbStructure dbarray dbid async s = empty_dbs async (db_range s dbid) dbarray s"

text \<open>The type of a key of a database, \<open>None\<close> when it does not exist.\<close>

definition key_type :: "server \<Rightarrow> redisDb \<Rightarrow> sds \<Rightarrow> int option cres" where
  "key_type s db k =
     (case dictFind (db_dict db) k of
        None \<Rightarrow> Inr None | Some a \<Rightarrow> cbind (obj_at s a) (\<lambda>ob. Inr (Some (otype ob))))"

fun scan_ready :: "redisDb \<Rightarrow> sds list \<Rightarrow> server \<Rightarrow> server cres" where
  "scan_ready db [] s = Inr s"
| "scan_ready db (k # ks) s =
     cbind (key_type s db k) (\<lambda>t.
     scan_ready db ks (case t of None \<Rightarrow> s | Some t \<Rightarrow> emit (SignalKeyAsReady (db_id db) k t) s))"

definition scanDatabaseForReadyKeys :: "redisDb \<Rightarrow> server \<Rightarrow> server cres" where
  "scanDatabaseForReadyKeys db s = scan_ready db (blocking_keys db) s"

fun scan_deleted :: "redisDb \<Rightarrow> redisDb option \<Rightarrow> sds list \<Rightarrow> server \<Rightarrow> server cres" where
  "scan_deleted emptied replaced_with [] s = Inr s"
| "scan_deleted emptied replaced_with (k # ks) s =
     cbind (key_type s emptied k) (\<lambda>original.
     cbind (case replaced_with of None \<Rightarrow> Inr None | Some db \<Rightarrow> key_type s db k) (\<lambda>curr.
     let original_type = (case original of None \<Rightarrow> - 1 | Some t \<Rightarrow> t);
         curr_type = (case curr of None \<Rightarrow> - 1 | Some t \<Rightarrow> t) in
     scan_deleted emptied replaced_with ks
       (if original \<noteq> None \<and> curr = None \<or> original_type \<noteq> curr_type
        then emit (SignalDeletedKeyAsReady (db_id emptied) k original_type) s else s)))"

definition scanDatabaseForDeletedKeys :: "redisDb \<Rightarrow> redisDb option \<Rightarrow> server \<Rightarrow> server cres" where
  "scanDatabaseForDeletedKeys emptied replaced_with s = scan_deleted emptied replaced_with (blocking_keys emptied) s"

definition touch_all :: "redisDb \<Rightarrow> redisDb option \<Rightarrow> server \<Rightarrow> server" where
  "touch_all emptied replaced_with s = emit (TouchAllWatched (db_id emptied) (map_option db_id replaced_with)) s"

fun signal_flushed :: "nat list \<Rightarrow> server \<Rightarrow> server cres" where
  "signal_flushed [] s = Inr s"
| "signal_flushed (j # js) s =
     cbind (get_db s j) (\<lambda>db.
     cbind (scanDatabaseForDeletedKeys db None s) (\<lambda>s1. signal_flushed js (touch_all db None s1)))"

definition signalFlushedDb :: "int \<Rightarrow> bool \<Rightarrow> server \<Rightarrow> server cres" where
  "signalFlushedDb dbid async s =
     cbind (signal_flushed (db_range s dbid) s) (\<lambda>s1. Inr (emit (TrackingInvalidateOnFlush async) s1))"

text \<open>\<open>- 1\<close> is returned for a database out of range, the number of keys removed otherwise.\<close>

definition emptyData :: "int \<Rightarrow> int \<Rightarrow> server \<Rightarrow> (int \<times> server) cres" where
  "emptyData dbid flags s =
     (let async = flag_set flags EMPTYDB_ASYNC; with_functions = (\<not> flag_set flags EMPTYDB_NOFUNCTIONS) in
      if dbid < - 1 \<or> int (dbnum s) \<le> dbid then Inr (- 1, s)
      else cbind (signalFlushedDb dbid async (emit (FlushDbEvent True async dbid) s)) (\<lambda>s1.
           cbind (emptyDbStructure (dbs s1) dbid async s1) (\<lambda>(removed, ds, s2).
           let s3 = s2\<lparr>dbs := ds\<rparr>;
               s4 = (if cluster_enabled s3 then emit FlushSlotToKey s3 else s3);
               s5 = (if dbid = - 1 then emit FlushSlaveKeysWithExpireList s4 else s4) in
           cbind (cassert (with_functions \<longrightarrow> dbid = - 1)) (\<lambda>_.
           let s6 = (if with_functions then emit (FunctionsClear async) s5 else s5) in
           Inr (removed, emit (FlushDbEvent False async dbid) s6)))))"

text \<open>Temporary databases are allocated with every field zero.\<close>

definition initTempDb :: "server \<Rightarrow> redisDb list" where
  "initTempDb s = replicate (dbnum s) (empty_db 0)"

definition discardTempDb :: "redisDb list \<Rightarrow> server \<Rightarrow> server cres" where
  "discardTempDb tempDb s = cbind (emptyDbStructure tempDb (- 1) True s) (\<lambda>(_, _, s'). Inr s')"

definition selectDb :: "client \<Rightarrow> int \<Rightarrow> server \<Rightarrow> cstatus \<times> client" where
  "selectDb c dbid s =
     (if dbid < 0 \<or> int (dbnum s) \<le> dbid then (C_ERR, c) else (C_OK, c\<lparr>c_db := nat dbid\<rparr>))"

definition dbTotalServerKeyCount :: "server \<Rightarrow> int" where
  "dbTotalServerKeyCount s = sum_list (map (\<lambda>db. int (dictSize (db_dict db))) (dbs s))"

subsection \<open>FLUSHDB and FLUSHALL\<close>

definition getFlushCommandFlags :: "client \<Rightarrow> server \<Rightarrow> int option \<times> server" where
  "getFlushCommandFlags c s =
     (case c_argv c of
        [_] \<Rightarrow> (Some (if lazyfree_lazy_user_flush s then EMPTYDB_ASYNC else EMPTYDB_NO_FLAGS), s)
      | [_, opt] \<Rightarrow>
          if arg_is opt ''sync'' then (Some EMPTYDB_NO_FLAGS, s)
          else if arg_is opt ''async'' then (Some EMPTYDB_ASYNC, s)
          else (None, emit (Reply (ReplyError ''syntax error'')) s)
      | _ \<Rightarrow> (None, emit (Reply (ReplyError ''syntax error'')) s))"

definition flushdbCommand :: "client \<Rightarrow> server \<Rightarrow> server cres" where
  "flushdbCommand c s =
     (case getFlushCommandFlags c s of
        (None, s1) \<Rightarrow> Inr s1
      | (Some flags, s1) \<Rightarrow>
          cbind (get_db s1 (c_db c)) (\<lambda>db.
          cbind (emptyData (db_id db) (flags OR EMPTYDB_NOFUNCTIONS) s1) (\<lambda>(n, s2).
          Inr (emit (Reply ReplyOk) (emit ForcePropagation (s2\<lparr>dirty := dirty s2 + n\<rparr>))))))"

subsection \<open>DEL, EXISTS, TYPE\<close>

fun del_loop :: "nat \<Rightarrow> bool \<Rightarrow> sds list \<Rightarrow> server \<Rightarrow> (int \<times> server) cres" where
  "del_loop i lazy [] s = Inr (0, s)"
| "del_loop i lazy (k # ks) s =
     cbind (expireIfNeeded i k 0 s) (\<lambda>(_, s1).
     cbind (if lazy then dbAsyncDelete i k s1 else dbSyncDelete i k s1) (\<lambda>(deleted, s2).
     cbind (get_db s2 i) (\<lambda>db.
     let s3 = (if deleted
               then (let s3 = emit (NotifyKeyspace NOTIFY_GENERIC ''del'' k (db_id db)) (signalModifiedKey db k s2)
                     in s3\<lparr>dirty := dirty s3 + 1\<rparr>)
               else s2) in
     cbind (del_loop i lazy ks s3) (\<lambda>(n, s4). Inr (if deleted then n + 1 else n, s4)))))"

definition delGenericCommand :: "client \<Rightarrow> bool \<Rightarrow> server \<Rightarrow> server cres" where
  "delGenericCommand c lazy s =
     cbind (del_loop (c_db c) lazy (tl (c_argv c)) s) (\<lambda>(numdel, s1). Inr (emit (Reply (ReplyInt numdel)) s1))"

definition delCommand :: "client \<Rightarrow> server \<Rightarrow> server cres" where
  "delCommand c s = delGenericCommand c (lazyfree_lazy_user_del s) s"

definition unlinkCommand :: "client \<Rightarrow> server \<Rightarrow> server cres" where
  "unlinkCommand c s = delGenericCommand c True s"

fun exists_loop :: "int \<Rightarrow> nat \<Rightarrow> sds list \<Rightarrow> server \<Rightarrow> (int \<times> server) cres" where
  "exists_loop rand i [] s = Inr (0, s)"
| "exists_loop rand i (k # ks) s =
     cbind (lookupKeyReadWithFlags rand i k LOOKUP_NOTOUCH s) (\<lambda>(v, s1).
     cbind (exists_loop rand i ks s1) (\<lambda>(n, s2). Inr (if v \<noteq> None then n + 1 else n, s2)))"

definition existsCommand :: "int \<Rightarrow> client \<Rightarrow> server \<Rightarrow> server cres" where
  "existsCommand rand c s =
     cbind (exists_loop rand (c_db c) (tl (c_argv c)) s) (\<lambda>(count, s1). Inr (emit (Reply (ReplyInt count)) s1))"

definition selectCommand :: "strlib \<Rightarrow> client \<Rightarrow> server \<Rightarrow> (client \<times> server) cres" where
  "selectCommand L c s =
     cbind (arg c 1) (\<lambda>v.
     case int_arg L v None s of
       (None, s1) \<Rightarrow> Inr (c, s1)
     | (Some dbid, s1) \<Rightarrow>
         if cluster_enabled s1 \<and> dbid \<noteq> 0
         then Inr (c, emit (Reply (ReplyError ''SELECT is not allowed in cluster mode'')) s1)
         else (case selectDb c dbid s1 of
                 (C_ERR, c') \<Rightarrow> Inr (c', emit (Reply (ReplyError ''DB index is out of range'')) s1)
               | (C_OK, c') \<Rightarrow> Inr (c', emit (Reply ReplyOk) s1)))"

definition randomkeyCommand ::
  "(nat \<Rightarrow> (sds, nat) dict \<Rightarrow> sds) \<Rightarrow> nat \<Rightarrow> client \<Rightarrow> server \<Rightarrow> server cres" where
  "randomkeyCommand pick fuel c s =
     cbind (dbRandomKey pick fuel (c_db c) s) (\<lambda>(key, s1).
     case key of
       None \<Rightarrow> Inr (emit (Reply ReplyNull) s1)
     | Some a \<Rightarrow> cbind (obj_at s1 a) (\<lambda>ob. cbind (sds_of ob) (\<lambda>bs.
         decrRefCount a (emit (Reply (ReplyBulk bs)) s1))))"

definition dbsizeCommand :: "client \<Rightarrow> server \<Rightarrow> server cres" where
  "dbsizeCommand c s =
     cbind (get_db s (c_db c)) (\<lambda>db. Inr (emit (Reply (ReplyInt (int (dictSize (db_dict db))))) s))"

text \<open>The names of the types; that of a module's value is a parameter, as is the value's type ID.\<close>

definition obj_type_name :: "string option list" where
  "obj_type_name =
     [Some ''string'', Some ''list'', Some ''set'', Some ''zset'', Some ''hash'', None, Some ''stream'']"

definition OBJ_TYPE_MAX :: int where "OBJ_TYPE_MAX = 7"

definition getObjectTypeName :: "(nat \<Rightarrow> string) \<Rightarrow> nat option \<Rightarrow> server \<Rightarrow> string cres" where
  "getObjectTypeName module_name a s =
     (case a of
        None \<Rightarrow> Inr ''none''
      | Some p \<Rightarrow>
          cbind (obj_at s p) (\<lambda>ob.
          cbind (cassert (0 \<le> otype ob \<and> otype ob < OBJ_TYPE_MAX)) (\<lambda>_.
          if otype ob = OBJ_MODULE then Inr (module_name p)
          else (case obj_type_name ! nat (otype ob) of None \<Rightarrow> Inl NullDeref | Some n \<Rightarrow> Inr n))))"

definition typeCommand :: "int \<Rightarrow> (nat \<Rightarrow> string) \<Rightarrow> client \<Rightarrow> server \<Rightarrow> server cres" where
  "typeCommand rand module_name c s =
     cbind (arg c 1) (\<lambda>k.
     cbind (lookupKeyReadWithFlags rand (c_db c) k LOOKUP_NOTOUCH s) (\<lambda>(v, s1).
     cbind (getObjectTypeName module_name v s1) (\<lambda>n. Inr (emit (Reply (ReplyStatus n)) s1))))"

subsection \<open>RENAME, MOVE, COPY\<close>

definition moved_events :: "redisDb \<Rightarrow> sds \<Rightarrow> string \<Rightarrow> redisDb \<Rightarrow> sds \<Rightarrow> string \<Rightarrow> server \<Rightarrow> server" where
  "moved_events src k e dst k' e' s =
     emit (NotifyKeyspace NOTIFY_GENERIC e' k' (db_id dst))
       (emit (NotifyKeyspace NOTIFY_GENERIC e k (db_id src))
         (signalModifiedKey dst k' (signalModifiedKey src k s)))"

definition renameGenericCommand :: "int \<Rightarrow> client \<Rightarrow> bool \<Rightarrow> server \<Rightarrow> server cres" where
  "renameGenericCommand rand c nx s =
     (let i = c_db c in
      cbind (arg c 1) (\<lambda>k. cbind (arg c 2) (\<lambda>k'.
      cbind (lookupKeyWriteOrReply rand i k (ReplyError ''no such key'') s) (\<lambda>(v, s1).
      case v of
        None \<Rightarrow> Inr s1
      | Some a \<Rightarrow>
          if k = k' then Inr (emit (Reply (if nx then ReplyZero else ReplyOk)) s1)
          else cbind (incrRefCount a s1) (\<lambda>s2.
               cbind (getExpire i k s2) (\<lambda>expire.
               cbind (lookupKeyWrite rand i k' s2) (\<lambda>(old, s3).
               if old \<noteq> None \<and> nx
               then cbind (decrRefCount a s3) (\<lambda>s4. Inr (emit (Reply ReplyZero) s4))
               else cbind (if old \<noteq> None then dbDelete i k' s3 else Inr (False, s3)) (\<lambda>(_, s4).
                    cbind (dbAdd i k' a s4) (\<lambda>s5.
                    cbind (if expire \<noteq> - 1 then setExpire (Some (c_master c)) i k' expire s5 else Inr s5) (\<lambda>s6.
                    cbind (dbDelete i k s6) (\<lambda>(_, s7).
                    cbind (get_db s7 i) (\<lambda>db.
                    let s8 = moved_events db k ''rename_from'' db k' ''rename_to'' s7
                    in Inr (emit (Reply (if nx then ReplyOne else ReplyOk)) (s8\<lparr>dirty := dirty s8 + 1\<rparr>))))))))))))))"

definition renameCommand :: "int \<Rightarrow> client \<Rightarrow> server \<Rightarrow> server cres" where
  "renameCommand rand c s = renameGenericCommand rand c False s"

definition renamenxCommand :: "int \<Rightarrow> client \<Rightarrow> server \<Rightarrow> server cres" where
  "renamenxCommand rand c s = renameGenericCommand rand c True s"

text \<open>From the lookup of the source key on.\<close>

definition move_key :: "int \<Rightarrow> client \<Rightarrow> nat \<Rightarrow> nat \<Rightarrow> sds \<Rightarrow> server \<Rightarrow> server cres" where
  "move_key rand c src dst k s =
     cbind (lookupKeyWrite rand src k s) (\<lambda>(v, s1).
     case v of
       None \<Rightarrow> Inr (emit (Reply ReplyZero) s1)
     | Some a \<Rightarrow>
         cbind (getExpire src k s1) (\<lambda>expire.
         cbind (lookupKeyWrite rand dst k s1) (\<lambda>(old, s2).
         if old \<noteq> None then Inr (emit (Reply ReplyZero) s2)
         else cbind (dbAdd dst k a s2) (\<lambda>s3.
              cbind (if expire \<noteq> - 1 then setExpire (Some (c_master c)) dst k expire s3 else Inr s3) (\<lambda>s4.
              cbind (incrRefCount a s4) (\<lambda>s5.
              cbind (dbDelete src k s5) (\<lambda>(_, s6).
              cbind (get_db s6 src) (\<lambda>sdb. cbind (get_db s6 dst) (\<lambda>ddb.
              let s7 = moved_events sdb k ''move_from'' ddb k ''move_to'' s6
              in Inr (emit (Reply ReplyOne) (s7\<lparr>dirty := dirty s7 + 1\<rparr>)))))))))))"

definition moveCommand :: "strlib \<Rightarrow> int \<Rightarrow> client \<Rightarrow> server \<Rightarrow> server cres" where
  "moveCommand L rand c s =
     (if cluster_enabled s then Inr (emit (Reply (ReplyError ''MOVE is not allowed in cluster mode'')) s)
      else cbind (arg c 1) (\<lambda>k. cbind (arg c 2) (\<lambda>v.
        case int_arg L v None s of
          (None, s1) \<Rightarrow> Inr s1
        | (Some dbid, s1) \<Rightarrow>
            (case selectDb c dbid s1 of
               (C_ERR, _) \<Rightarrow> Inr (emit (Reply (ReplyError ''DB index is out of range'')) s1)
             | (C_OK, c') \<Rightarrow>
                 if c_db c' = c_db c
                 then Inr (emit (Reply (ReplyError ''source and destination objects are the same'')) s1)
                 else move_key rand c (c_db c) (c_db c') k s1))))"

text \<open>The options of COPY: replace, and the target database. \<open>None\<close> when an error was replied.\<close>

fun copy_options :: "strlib \<Rightarrow> client \<Rightarrow> sds list \<Rightarrow> bool \<Rightarrow> nat \<Rightarrow> server \<Rightarrow> (bool \<times> nat) option \<times> server" where
  "copy_options L c [] replace dst s = (Some (replace, dst), s)"
| "copy_options L c (v # vs) replace dst s =
     (if arg_is v ''replace'' then copy_options L c vs True dst s
      else if arg_is v ''db'' \<and> vs \<noteq> []
      then (case int_arg L (hd vs) None s of
              (None, s1) \<Rightarrow> (None, s1)
            | (Some dbid, s1) \<Rightarrow>
                (case selectDb c dbid s1 of
                   (C_ERR, _) \<Rightarrow> (None, emit (Reply (ReplyError ''DB index is out of range'')) s1)
                 | (C_OK, c') \<Rightarrow> copy_options L c (tl vs) replace (c_db c') s1))
      else (None, emit (Reply (ReplyError ''syntax error'')) s))"

text \<open>Duplicating a value: strings here, the other types are a parameter that may reply and give up.\<close>

definition dup_value :: "(nat \<Rightarrow> server \<Rightarrow> nat option \<times> server) \<Rightarrow> nat \<Rightarrow> server \<Rightarrow> (nat option \<times> server) cres" where
  "dup_value dup a s =
     cbind (obj_at s a) (\<lambda>ob.
     if otype ob = OBJ_STRING then cbind (dupStringObject a s) (\<lambda>(b, s1). Inr (Some b, s1))
     else if otype ob \<in> {OBJ_LIST, OBJ_SET, OBJ_ZSET, OBJ_HASH, OBJ_STREAM, OBJ_MODULE} then Inr (dup a s)
     else Inr (None, emit (Reply (ReplyError ''unknown type object'')) s))"

definition copy_key ::
  "(nat \<Rightarrow> server \<Rightarrow> nat option \<times> server) \<Rightarrow> int \<Rightarrow> client \<Rightarrow> bool \<Rightarrow> nat \<Rightarrow> sds \<Rightarrow> sds \<Rightarrow> server \<Rightarrow> server cres" where
  "copy_key dup rand c replace dst k k' s =
     cbind (lookupKeyRead rand (c_db c) k s) (\<lambda>(v, s1).
     case v of
       None \<Rightarrow> Inr (emit (Reply ReplyZero) s1)
     | Some a \<Rightarrow>
         cbind (getExpire (c_db c) k s1) (\<lambda>expire.
         cbind (lookupKeyWrite rand dst k' s1) (\<lambda>(old, s2).
         if old \<noteq> None \<and> \<not> replace then Inr (emit (Reply ReplyZero) s2)
         else cbind (dup_value dup a s2) (\<lambda>(new, s3).
              case new of
                None \<Rightarrow> Inr s3
              | Some b \<Rightarrow>
                  cbind (if old \<noteq> None then dbDelete dst k' s3 else Inr (False, s3)) (\<lambda>(_, s4).
                  cbind (dbAdd dst k' b s4) (\<lambda>s5.
                  cbind (if expire \<noteq> - 1 then setExpire (Some (c_master c)) dst k' expire s5 else Inr s5) (\<lambda>s6.
                  cbind (get_db s6 dst) (\<lambda>db.
                  let s7 = emit (NotifyKeyspace NOTIFY_GENERIC ''copy_to'' k' (db_id db)) (signalModifiedKey db k' s6)
                  in Inr (emit (Reply ReplyOne) (s7\<lparr>dirty := dirty s7 + 1\<rparr>))))))))))"

definition copyCommand ::
  "strlib \<Rightarrow> (nat \<Rightarrow> server \<Rightarrow> nat option \<times> server) \<Rightarrow> int \<Rightarrow> client \<Rightarrow> server \<Rightarrow> server cres" where
  "copyCommand L dup rand c s =
     cbind (arg c 1) (\<lambda>k. cbind (arg c 2) (\<lambda>k'.
     case copy_options L c (drop 3 (c_argv c)) False (c_db c) s of
       (None, s1) \<Rightarrow> Inr s1
     | (Some (replace, dst), s1) \<Rightarrow>
         if cluster_enabled s1 \<and> (c_db c \<noteq> 0 \<or> dst \<noteq> 0)
         then Inr (emit (Reply (ReplyError ''Copying to another database is not allowed in cluster mode'')) s1)
         else if dst = c_db c \<and> k = k'
         then Inr (emit (Reply (ReplyError ''source and destination objects are the same'')) s1)
         else copy_key dup rand c replace dst k k' s1))"

subsection \<open>SWAPDB and the swap with a temporary data set\<close>

text \<open>The fields a swap exchanges; the identifier and the blocked keys stay.\<close>

definition take_content :: "redisDb \<Rightarrow> redisDb \<Rightarrow> redisDb" where
  "take_content db from =
     db\<lparr>db_dict := db_dict from, db_expires := db_expires from, avg_ttl := avg_ttl from,
        expires_cursor := expires_cursor from\<rparr>"

definition dbSwapDatabases :: "int \<Rightarrow> int \<Rightarrow> server \<Rightarrow> (cstatus \<times> server) cres" where
  "dbSwapDatabases id1 id2 s =
     (if id1 < 0 \<or> int (dbnum s) \<le> id1 \<or> id2 < 0 \<or> int (dbnum s) \<le> id2 then Inr (C_ERR, s)
      else if id1 = id2 then Inr (C_OK, s)
      else let i = nat id1; j = nat id2 in
        cbind (get_db s i) (\<lambda>db1. cbind (get_db s j) (\<lambda>db2.
        let s1 = touch_all db2 (Some db1) (touch_all db1 (Some db2) s) in
        cbind (scanDatabaseForDeletedKeys db1 (Some db2) s1) (\<lambda>s2.
        cbind (scanDatabaseForDeletedKeys db2 (Some db1) s2) (\<lambda>s3.
        let new1 = take_content db1 db2; new2 = take_content db2 db1;
            s4 = put_db j new2 (put_db i new1 s3) in
        cbind (scanDatabaseForReadyKeys new1 s4) (\<lambda>s5.
        cbind (scanDatabaseForReadyKeys new2 s5) (\<lambda>s6. Inr (C_OK, s6))))))))"

fun swap_with_temp :: "nat list \<Rightarrow> redisDb list \<Rightarrow> server \<Rightarrow> (redisDb list \<times> server) cres" where
  "swap_with_temp [] tempDb s = Inr (tempDb, s)"
| "swap_with_temp (i # is) tempDb s =
     cbind (get_db s i) (\<lambda>active. cbind (arr_get tempDb i) (\<lambda>new.
     cbind (scanDatabaseForDeletedKeys active (Some new) (touch_all active (Some new) s)) (\<lambda>s1.
     let active' = take_content active new in
     cbind (scanDatabaseForReadyKeys active' (put_db i active' s1)) (\<lambda>s2.
     swap_with_temp is (tempDb[i := take_content new active]) s2))))"

definition swapMainDbWithTempDb :: "redisDb list \<Rightarrow> server \<Rightarrow> (redisDb list \<times> server) cres" where
  "swapMainDbWithTempDb tempDb s =
     cbind (swap_with_temp [0..<dbnum s] tempDb s) (\<lambda>(tempDb', s1).
     Inr (tempDb', emit FlushSlaveKeysWithExpireList (emit (TrackingInvalidateOnFlush True) s1)))"

definition swapdbCommand :: "strlib \<Rightarrow> client \<Rightarrow> server \<Rightarrow> server cres" where
  "swapdbCommand L c s =
     (if cluster_enabled s then Inr (emit (Reply (ReplyError ''SWAPDB is not allowed in cluster mode'')) s)
      else cbind (arg c 1) (\<lambda>v. cbind (arg c 2) (\<lambda>w.
        case int_arg L v (Some ''invalid first DB index'') s of
          (None, s1) \<Rightarrow> Inr s1
        | (Some id1, s1) \<Rightarrow>
            (case int_arg L w (Some ''invalid second DB index'') s1 of
               (None, s2) \<Rightarrow> Inr s2
             | (Some id2, s2) \<Rightarrow>
                 cbind (dbSwapDatabases id1 id2 s2) (\<lambda>(st, s3).
                 Inr (if st = C_ERR then emit (Reply (ReplyError ''DB index is out of range'')) s3
                      else (let s4 = emit (SwapDbEvent id1 id2) s3
                            in emit (Reply ReplyOk) (s4\<lparr>dirty := dirty s4 + 1\<rparr>))))))))"

end
