(* ===== verification/Key_Effects.thy ===== *)
theory Key_Effects
  imports Key_Commands
begin

section \<open>What the commands on keys do to the keyspace (db.c)\<close>

text \<open>
  The effect of the commands on the databases and on the references to the values. \<open>db_edit\<close> collects
  what the proofs use of an operation: it succeeds, keeps the invariant and the settings of the server,
  and leaves the databases as stated.
\<close>

subsection \<open>Shared steps\<close>

lemma not_expired_cong:
  assumes "kept s t" "dictFind (db_expires (dbs t ! i)) k = dictFind (db_expires (dbs s ! i)) k"
  shows "logically_expired t i k = logically_expired s i k" "expire_deletes t f = expire_deletes s f"
  using kept_fields [OF assms(1)] assms(2) by (simp_all add: logically_expired_def expire_deletes_def cong: option.case_cong)

lemma kept_ok: "kept s t \<Longrightarrow> i < length (dbs s) \<Longrightarrow> i < length (dbs t)"
  by (simp add: kept_fields)

lemma ks_ok_emit [simp]: "ks_ok x (emit e s) = ks_ok x s"
  by (simp add: ks_ok_def emit_def)

lemma ks_ok_dirty [simp]: "ks_ok x (s\<lparr>dirty := n\<rparr>) = ks_ok x s"
  by (simp add: ks_ok_def)

lemma signal_fields [simp]:
  "dbs (signalModifiedKey db k s) = dbs s" "heap (signalModifiedKey db k s) = heap s"
  "dirty (signalModifiedKey db k s) = dirty s" "ks_ok x (signalModifiedKey db k s) = ks_ok x s"
  by (simp_all add: signalModifiedKey_def emit_def ks_ok_def)

lemma kept_signal: "kept s t \<Longrightarrow> kept s (signalModifiedKey db k t)"
  by (simp add: signalModifiedKey_def kept_more)

lemma emit_dbs [simp]: "dbs (emit e s) = dbs s" "heap (emit e s) = heap s" "dirty (emit e s) = dirty s"
  by (simp_all add: emit_def)

subsection \<open>DEL and UNLINK\<close>

definition del_keys :: "sds list \<Rightarrow> redisDb \<Rightarrow> redisDb" where
  "del_keys ks db = fold del_key ks db"

lemma del_keys_simps:
  "dictFind (db_dict (del_keys ks db)) k = (if k \<in> set ks then None else dictFind (db_dict db) k)"
  "dictFind (db_expires (del_keys ks db)) k = (if k \<in> set ks then None else dictFind (db_expires db) k)"
  "db_id (del_keys ks db) = db_id db"
  by (induction ks arbitrary: db) (auto simp: del_keys_def table_simps)

text \<open>The keys a DEL counts: those that exist, unless they are expired and the instance removes them as expired.\<close>

definition counts :: "server \<Rightarrow> nat \<Rightarrow> sds \<Rightarrow> bool" where
  "counts s i k = (dictFind (db_dict (dbs s ! i)) k \<noteq> None \<and> \<not> (logically_expired s i k \<and> expire_deletes s 0))"

lemma del_key_twice: "db_ok db \<Longrightarrow> del_key k (del_key k db) = del_key k db"
  by (intro del_key_absent db_ok_del_key) (simp_all add: table_simps)

lemma kept_dirty: "kept (s\<lparr>dirty := p\<rparr>) t \<Longrightarrow> kept (t\<lparr>dirty := q\<rparr>) u \<Longrightarrow> kept (s\<lparr>dirty := q\<rparr>) u"
  by (erule keptE, erule keptE) (simp add: kept_def)

lemma del_one:
  assumes "ks_ok x s" "i < length (dbs s)"
  shows "\<exists>e s1 s2. expireIfNeeded i k 0 s = Inr (e, s1)
      \<and> (if lazy then dbAsyncDelete i k s1 else dbSyncDelete i k s1) = Inr (counts s i k, s2)
      \<and> ks_ok x s2 \<and> kept s s2 \<and> dbs s2 = (dbs s)[i := del_key k (dbs s ! i)]"
proof -
  let ?db = "dbs s ! i"
  have ok: "db_ok ?db" using assms by (simp add: ks_ok_def)
  obtain s1 where e: "expireIfNeeded i k 0 s = Inr (logically_expired s i k, s1)" "ks_ok x s1" "kept s s1"
      "if logically_expired s i k \<and> expire_deletes s 0 then dbs s1 = (dbs s)[i := del_key k ?db] else s1 = s"
    using expireIfNeeded_lemma [OF assms, of k 0] by metis
  have d1: "dbs s1 = (if logically_expired s i k \<and> expire_deletes s 0 then (dbs s)[i := del_key k ?db] else dbs s)"
    using e(4) by (auto split: if_splits)
  have i1: "i < length (dbs s1)" by (rule kept_ok [OF e(3) assms(2)])
  obtain b s2 where d: "dbGenericDelete i k lazy DB_FLAG_KEY_DELETED s1 = Inr (b, s2)" "ks_ok x s2" "kept s1 s2"
      "b \<longleftrightarrow> dictFind (db_dict (dbs s1 ! i)) k \<noteq> None" "dbs s2 = (dbs s1)[i := del_key k (dbs s1 ! i)]"
    using dbGenericDelete_lemma [OF e(2) i1, of k lazy DB_FLAG_KEY_DELETED] by blast
  have "b = counts s i k" using d(4) d1 assms(2) by (auto simp: counts_def table_simps)
  moreover have "dbs s2 = (dbs s)[i := del_key k ?db]"
    using d(5) d1 assms(2) ok by (simp add: del_key_twice)
  moreover have "(if lazy then dbAsyncDelete i k s1 else dbSyncDelete i k s1) = dbGenericDelete i k lazy DB_FLAG_KEY_DELETED s1"
    by (simp add: dbAsyncDelete_def dbSyncDelete_def)
  ultimately show ?thesis using e(1) d(1,2) kept_trans [OF e(3) d(3)] by auto
qed

lemma counts_after:
  assumes "kept s t" "i < length (dbs s)" "dbs t = (dbs s)[i := del_key k (dbs s ! i)]"
  shows "counts t i k' \<longleftrightarrow> k' \<noteq> k \<and> counts s i k'"
proof (cases "k' = k")
  case False
  then have "dictFind (db_expires (dbs t ! i)) k' = dictFind (db_expires (dbs s ! i)) k'"
    using assms(2,3) by (simp add: table_simps)
  from not_expired_cong [OF assms(1) this] show ?thesis
    using False assms(2,3) by (simp add: counts_def table_simps)
qed (use assms in \<open>simp add: counts_def table_simps\<close>)

lemma del_loop_ok:
  assumes "ks_ok x s" "i < length (dbs s)"
  shows "\<exists>s'. del_loop i lazy ks s = Inr (int (card {k \<in> set ks. counts s i k}), s') \<and> ks_ok x s'
      \<and> kept (s\<lparr>dirty := dirty s + int (card {k \<in> set ks. counts s i k})\<rparr>) s'
      \<and> dbs s' = (dbs s)[i := del_keys ks (dbs s ! i)]"
  using assms
proof (induction ks arbitrary: s)
  case Nil
  then show ?case by (simp add: del_keys_def kept_refl)
next
  case (Cons k ks)
  obtain e s1 s2 where o: "expireIfNeeded i k 0 s = Inr (e, s1)"
      "(if lazy then dbAsyncDelete i k s1 else dbSyncDelete i k s1) = Inr (counts s i k, s2)"
      "ks_ok x s2" "kept s s2" "dbs s2 = (dbs s)[i := del_key k (dbs s ! i)]"
    using del_one [OF Cons.prems, of k lazy] by blast
  have i2: "i < length (dbs s2)" by (rule kept_ok [OF o(4) Cons.prems(2)])
  let ?b = "counts s i k" and ?db = "dbs s2 ! i"
  define s3 where "s3 = (if ?b
       then (let t = emit (NotifyKeyspace NOTIFY_GENERIC ''del'' k (db_id ?db)) (signalModifiedKey ?db k s2)
             in t\<lparr>dirty := dirty t + 1\<rparr>) else s2)"
  have s3: "ks_ok x s3" "dbs s3 = dbs s2" "kept (s\<lparr>dirty := dirty s + (if ?b then 1 else 0)\<rparr>) s3"
  proof -
    show "ks_ok x s3" "dbs s3 = dbs s2" using o(3) by (simp_all add: s3_def Let_def)
    show "kept (s\<lparr>dirty := dirty s + (if ?b then 1 else 0)\<rparr>) s3"
      by (rule keptE [OF o(4)]) (simp add: s3_def Let_def kept_def signalModifiedKey_def emit_def)
  qed
  have i3: "i < length (dbs s3)" using i2 s3(2) by simp
  have ce: "counts s3 i k' \<longleftrightarrow> k' \<noteq> k \<and> counts s i k'" for k'
  proof -
    have "kept s (s3\<lparr>dirty := dirty s\<rparr>)" by (rule keptE [OF s3(3)]) (simp add: kept_def)
    from counts_after [OF this Cons.prems(2), of k k'] show ?thesis
      using o(5) s3(2) by (simp add: counts_def logically_expired_def expire_deletes_def cong: option.case_cong)
  qed
  have fin: "finite {k' \<in> set ks. k' \<noteq> k \<and> counts s i k'}" by simp
  have "{k' \<in> set (k # ks). counts s i k'} = (if ?b then insert k {k' \<in> set ks. k' \<noteq> k \<and> counts s i k'}
      else {k' \<in> set ks. k' \<noteq> k \<and> counts s i k'})" by auto
  then have n: "card {k' \<in> set (k # ks). counts s i k'} = (if ?b then 1 else 0) + card {k' \<in> set ks. k' \<noteq> k \<and> counts s i k'}"
    using fin by simp
  obtain s4 where l: "del_loop i lazy ks s3 = Inr (int (card {k' \<in> set ks. counts s3 i k'}), s4)" "ks_ok x s4"
      "kept (s3\<lparr>dirty := dirty s3 + int (card {k' \<in> set ks. counts s3 i k'})\<rparr>) s4"
      "dbs s4 = (dbs s3)[i := del_keys ks (dbs s3 ! i)]"
    using Cons.IH [OF s3(1) i3] by blast
  have "dirty s3 = dirty s + (if ?b then 1 else 0)" using kept_fields(16) [OF s3(3)] by simp
  then have "dirty s3 + int (card {k' \<in> set ks. counts s3 i k'}) = dirty s + int (card {k' \<in> set (k # ks). counts s i k'})"
    unfolding n ce by simp
  with kept_dirty [OF s3(3) l(3)]
  have "kept (s\<lparr>dirty := dirty s + int (card {k' \<in> set (k # ks). counts s i k'})\<rparr>) s4" by simp
  moreover have "dbs s4 = (dbs s)[i := del_keys (k # ks) (dbs s ! i)]"
    using l(4) s3(2) o(5) Cons.prems(2) by (simp add: del_keys_def)
  moreover have "del_loop i lazy (k # ks) s = cbind (del_loop i lazy ks s3) (\<lambda>(m, s4). Inr (if ?b then m + 1 else m, s4))"
    using o(1) i2 by (simp only: del_loop.simps o(1,2) cbind_Inr split_conv get_db_Inr [OF i2] Let_def s3_def)
  ultimately show ?case using l(1,2) n ce by (auto simp: ac_simps)
qed

text \<open>
  C17: DEL removes its keys and their expires and no other key. The reply is the number of different keys
  among its arguments that existed, without those it found expired and removed as such; the counter of
  unsaved changes grows by that number, and the keyspace stays consistent.
\<close>

theorem delGenericCommand_correct:
  assumes "ks_ok x s" "c_db c < length (dbs s)" "c_argv c = cmd # ks"
  shows "\<exists>s'. delGenericCommand c lazy s = Inr s' \<and> ks_ok x s'
      \<and> dbs s' = (dbs s)[c_db c := del_keys ks (dbs s ! c_db c)]
      \<and> dirty s' = dirty s + int (card {k \<in> set ks. counts s (c_db c) k})
      \<and> last (events s') = Reply (ReplyInt (int (card {k \<in> set ks. counts s (c_db c) k})))"
proof -
  obtain s' where s': "del_loop (c_db c) lazy ks s = Inr (int (card {k \<in> set ks. counts s (c_db c) k}), s')" "ks_ok x s'"
      "kept (s\<lparr>dirty := dirty s + int (card {k \<in> set ks. counts s (c_db c) k})\<rparr>) s'"
      "dbs s' = (dbs s)[c_db c := del_keys ks (dbs s ! c_db c)]"
    using del_loop_ok [OF assms(1,2), of lazy ks] by blast
  then show ?thesis
    using kept_fields(16) [OF s'(3)] by (simp add: delGenericCommand_def assms(3)) (simp add: emit_def)
qed

definition demo_client :: "sds list \<Rightarrow> client" where
  "demo_client argv = \<lparr>c_argv = argv, c_db = 0, c_master = False, c_deny_blocking = False\<rparr>"

theorem delGenericCommand_correct_witness:
  "\<exists>s'. delGenericCommand (demo_client [[68, 69, 76], [98], [99], [98]]) False two_keys = Inr s'
      \<and> db_dict (dbs s' ! 0) = [([97], 0)] \<and> dirty s' = 1 \<and> last (events s') = Reply (ReplyInt 1)"
proof -
  have "{k \<in> set [[98], [99], [98]]. counts two_keys 0 k} = {[98]}"
    by (auto simp: counts_def dictFind_def logically_expired_def)
  moreover have "dirty two_keys = 0" by (simp add: two_keys_def init_server_def)
  ultimately show ?thesis
    using delGenericCommand_correct [OF ks_ok_two_keys, of "demo_client [[68, 69, 76], [98], [99], [98]]" "[68, 69, 76]" "[[98], [99], [98]]" False]
    by (auto simp: demo_client_def del_keys_def dictDelete_def)
qed

subsection \<open>Scanning for blocked clients\<close>

text \<open>Only the log of events grows.\<close>

definition logs :: "server \<Rightarrow> server \<Rightarrow> bool" where
  "logs s s' \<longleftrightarrow> s' = s\<lparr>events := events s'\<rparr>"

lemma logs_refl: "logs s s"
  by (simp add: logs_def)

lemma logs_trans: "logs s t \<Longrightarrow> logs t u \<Longrightarrow> logs s u"
  unfolding logs_def by (metis server.surjective server.update_convs(6))

lemma logs_emit: "logs s t \<Longrightarrow> logs s (emit e t)"
  unfolding logs_def emit_def by (metis server.surjective server.update_convs(6))

lemma logs_fields: "logs s t \<Longrightarrow> dbs t = dbs s \<and> heap t = heap s \<and> dbnum t = dbnum s \<and> cluster_enabled t = cluster_enabled s
    \<and> dirty t = dirty s \<and> next_addr t = next_addr s"
  unfolding logs_def dbnum_def by (metis server.select_convs server.surjective server.update_convs(6))

definition live_values :: "server \<Rightarrow> redisDb \<Rightarrow> bool" where
  "live_values s db \<longleftrightarrow> (\<forall>k a. dictFind (db_dict db) k = Some a \<longrightarrow> heap s a \<noteq> None)"

lemma live_values_heap: "heap t = heap s \<Longrightarrow> live_values t db = live_values s db"
  by (simp add: live_values_def)

lemma live_values_content: "db_dict db' = db_dict db \<Longrightarrow> live_values s db' = live_values s db"
  by (simp add: live_values_def)

lemma ks_ok_live: "ks_ok x s \<Longrightarrow> i < length (dbs s) \<Longrightarrow> live_values s (dbs s ! i)"
  unfolding live_values_def by (metis ks_okE option.discI)

lemma key_type_ok: "live_values s db \<Longrightarrow> \<exists>t. key_type s db k = Inr t"
  unfolding live_values_def key_type_def
  by (cases "dictFind (db_dict db) k") (auto simp: obj_at_def split: option.splits)

lemma scan_ready_ok: "live_values s db \<Longrightarrow> \<exists>s'. scan_ready db ks s = Inr s' \<and> logs s s'"
proof (induction ks arbitrary: s)
  case Nil
  then show ?case by (simp add: logs_refl)
next
  case (Cons k ks)
  obtain t where t: "key_type s db k = Inr t" using key_type_ok [OF Cons.prems] by blast
  let ?s = "case t of None \<Rightarrow> s | Some t \<Rightarrow> emit (SignalKeyAsReady (db_id db) k t) s"
  have s: "logs s ?s" by (auto intro: logs_refl logs_emit split: option.split)
  then have "live_values ?s db" using Cons.prems live_values_heap logs_fields by blast
  from Cons.IH [OF this] t logs_trans [OF s] show ?case by auto
qed

lemma scan_deleted_ok:
  "live_values s db \<Longrightarrow> (\<And>db'. rep = Some db' \<Longrightarrow> live_values s db') \<Longrightarrow>
     \<exists>s'. scan_deleted db rep ks s = Inr s' \<and> logs s s'"
proof (induction ks arbitrary: s)
  case Nil
  then show ?case by (simp add: logs_refl)
next
  case (Cons k ks)
  obtain t where t: "key_type s db k = Inr t" using key_type_ok [OF Cons.prems(1)] by blast
  have "\<exists>u. (case rep of None \<Rightarrow> Inr None | Some db' \<Rightarrow> key_type s db' k) = Inr u"
    using Cons.prems(2) key_type_ok by (cases rep) auto
  then obtain u where u: "(case rep of None \<Rightarrow> Inr None | Some db' \<Rightarrow> key_type s db' k) = Inr u" by blast
  let ?ot = "case t of None \<Rightarrow> - 1 | Some t \<Rightarrow> t" and ?ct = "case u of None \<Rightarrow> - 1 | Some t \<Rightarrow> t"
  let ?s = "if t \<noteq> None \<and> u = None \<or> ?ot \<noteq> ?ct then emit (SignalDeletedKeyAsReady (db_id db) k ?ot) s else s"
  have s: "logs s ?s" by (simp add: logs_refl logs_emit)
  then have h: "heap ?s = heap s" using logs_fields by blast
  have l: "live_values ?s db" "\<And>db'. rep = Some db' \<Longrightarrow> live_values ?s db'"
    using Cons.prems live_values_heap [OF h] by blast+
  obtain s' where "scan_deleted db rep ks ?s = Inr s'" "logs ?s s'" using Cons.IH [OF l] by blast
  moreover have "scan_deleted db rep (k # ks) s = scan_deleted db rep ks ?s"
    unfolding scan_deleted.simps t u cbind_Inr Let_def by (rule refl)
  ultimately show ?case using logs_trans [OF s] by auto
qed

lemma logs_touch: "logs s (touch_all db rep s)"
  by (simp add: touch_all_def logs_emit logs_refl)

subsection \<open>SWAPDB\<close>

lemma take_content_simps [simp]:
  "db_dict (take_content db from) = db_dict from" "db_expires (take_content db from) = db_expires from"
  "db_id (take_content db from) = db_id db" "blocking_keys (take_content db from) = blocking_keys db"
  "take_content db db = db" "take_content (take_content a b) (take_content b a) = a"
  by (simp_all add: take_content_def)

lemma db_ok_content: "db_ok from \<Longrightarrow> db_ok (take_content db from)"
  by (simp add: db_ok_def)

definition swapped :: "nat \<Rightarrow> nat \<Rightarrow> redisDb list \<Rightarrow> redisDb list" where
  "swapped i j ds = ds[i := take_content (ds ! i) (ds ! j), j := take_content (ds ! j) (ds ! i)]"

lemma swapped_twice: "i < length ds \<Longrightarrow> j < length ds \<Longrightarrow> swapped i j (swapped i j ds) = ds"
  by (rule nth_equalityI) (auto simp: swapped_def nth_list_update)

lemma refs_swapped: "i < length ds \<Longrightarrow> j < length ds \<Longrightarrow> refs (swapped i j ds) a = refs ds a"
  using refs_update [of i ds "take_content (ds ! i) (ds ! j)" a]
    refs_update [of j "ds[i := take_content (ds ! i) (ds ! j)]" "take_content (ds ! j) (ds ! i)" a]
  by (cases "i = j") (simp_all add: swapped_def)

lemma ks_ok_swapped:
  assumes "ks_ok x s" "i < length (dbs s)" "j < length (dbs s)" "dbs t = swapped i j (dbs s)" "heap t = heap s"
  shows "ks_ok x t"
proof -
  have "\<forall>db \<in> set (dbs t). db_ok db"
    unfolding assms(4) swapped_def using assms(1-3)
    by (auto simp: ks_ok_def db_ok_content dest!: set_update_subset_insert [THEN subsetD])
  then show ?thesis using assms by (simp add: ks_ok_def values_ok_def refs_swapped)
qed

lemma dbSwap_ok:
  assumes "ks_ok x s" "0 \<le> id1" "id1 < int (dbnum s)" "0 \<le> id2" "id2 < int (dbnum s)"
  shows "\<exists>s'. dbSwapDatabases id1 id2 s = Inr (C_OK, s') \<and> ks_ok x s' \<and> heap s' = heap s
      \<and> dbs s' = swapped (nat id1) (nat id2) (dbs s)"
proof (cases "id1 = id2")
  case True
  with assms show ?thesis by (simp add: dbSwapDatabases_def swapped_def)
next
  case False
  define i j where ij: "i = nat id1" "j = nat id2"
  have l: "i < length (dbs s)" "j < length (dbs s)" using assms by (auto simp: dbnum_def ij)
  let ?a = "dbs s ! i" and ?b = "dbs s ! j"
  have v: "live_values s ?a" "live_values s ?b" using ks_ok_live [OF assms(1)] l by blast+
  define s1 where "s1 = touch_all ?b (Some ?a) (touch_all ?a (Some ?b) s)"
  have s1: "logs s s1" unfolding s1_def by (intro logs_trans [OF logs_touch logs_touch])
  have live: "live_values t ?a" "live_values t ?b" if "logs s t" for t
    using v logs_fields [OF that] by (simp_all add: live_values_def)
  obtain s2 where s2: "scan_deleted ?a (Some ?b) (blocking_keys ?a) s1 = Inr s2" "logs s1 s2"
    using scan_deleted_ok [of s1 ?a "Some ?b"] live [OF s1] by auto
  have l2: "logs s s2" by (rule logs_trans [OF s1 s2(2)])
  obtain s3 where s3: "scan_deleted ?b (Some ?a) (blocking_keys ?b) s2 = Inr s3" "logs s2 s3"
    using scan_deleted_ok [of s2 ?b "Some ?a"] live [OF l2] by auto
  have l3: "logs s s3" by (rule logs_trans [OF l2 s3(2)])
  let ?na = "take_content ?a ?b" and ?nb = "take_content ?b ?a"
  define s4 where "s4 = put_db j ?nb (put_db i ?na s3)"
  have h4: "heap s4 = heap s" "dbs s4 = swapped i j (dbs s)"
    using logs_fields [OF l3] by (simp_all add: s4_def put_db_def swapped_def)
  have n4: "live_values t ?na" "live_values t ?nb" if "heap t = heap s" for t
    using v that by (simp_all add: live_values_def)
  obtain s5 where s5: "scan_ready ?na (blocking_keys ?na) s4 = Inr s5" "logs s4 s5"
    using scan_ready_ok n4(1) h4(1) by blast
  then have "heap s5 = heap s" using logs_fields h4(1) by simp
  then obtain s6 where s6: "scan_ready ?nb (blocking_keys ?nb) s5 = Inr s6" "logs s5 s6"
    using scan_ready_ok n4(2) by blast
  have f: "dbs s6 = swapped i j (dbs s)" "heap s6 = heap s"
    using logs_fields [OF s5(2)] logs_fields [OF s6(2)] h4 by simp_all
  have "dbSwapDatabases id1 id2 s = Inr (C_OK, s6)"
    using False assms l s2 s3 s5 s6
    by (simp add: dbSwapDatabases_def Let_def scanDatabaseForDeletedKeys_def scanDatabaseForReadyKeys_def s1_def s4_def
        flip: ij)
  with f ks_ok_swapped [OF assms(1) l f] show ?thesis by (simp add: ij)
qed

text \<open>
  C18: Swapping two databases exchanges their keys, expires and expire cursors and leaves the values, the
  identifiers and the clients blocked on either; the keyspace stays consistent, and swapping again
  restores the databases. An identifier out of range changes nothing.
\<close>

theorem dbSwapDatabases_correct:
  assumes "ks_ok x s"
  shows "if 0 \<le> id1 \<and> id1 < int (dbnum s) \<and> 0 \<le> id2 \<and> id2 < int (dbnum s)
    then \<exists>s' s''. dbSwapDatabases id1 id2 s = Inr (C_OK, s') \<and> ks_ok x s' \<and> heap s' = heap s
           \<and> dbs s' = (dbs s)[nat id1 := take_content (dbs s ! nat id1) (dbs s ! nat id2),
                              nat id2 := take_content (dbs s ! nat id2) (dbs s ! nat id1)]
           \<and> dbSwapDatabases id1 id2 s' = Inr (C_OK, s'') \<and> dbs s'' = dbs s
    else dbSwapDatabases id1 id2 s = Inr (C_ERR, s)"
proof (cases "0 \<le> id1 \<and> id1 < int (dbnum s) \<and> 0 \<le> id2 \<and> id2 < int (dbnum s)")
  case True
  then obtain s' where s': "dbSwapDatabases id1 id2 s = Inr (C_OK, s')" "ks_ok x s'" "heap s' = heap s"
      "dbs s' = swapped (nat id1) (nat id2) (dbs s)"
    using dbSwap_ok [OF assms] by blast
  have n: "dbnum s' = dbnum s" using s'(4) by (simp add: dbnum_def swapped_def)
  obtain s'' where "dbSwapDatabases id1 id2 s' = Inr (C_OK, s'')" "dbs s'' = swapped (nat id1) (nat id2) (dbs s')"
    using dbSwap_ok [OF s'(2), of id1 id2] True n by auto
  moreover have "nat id1 < length (dbs s)" "nat id2 < length (dbs s)" using True by (auto simp: dbnum_def)
  ultimately show ?thesis using True s' swapped_twice by (auto simp: swapped_def)
qed (auto simp: dbSwapDatabases_def)

theorem dbSwapDatabases_correct_witness:
  "\<exists>s' s''. dbSwapDatabases 0 1 two_keys = Inr (C_OK, s') \<and> db_dict (dbs s' ! 1) = [([97], 0), ([98], 1)]
      \<and> db_dict (dbs s' ! 0) = [] \<and> dbSwapDatabases 0 1 s' = Inr (C_OK, s'') \<and> dbs s'' = dbs two_keys"
  using dbSwapDatabases_correct [OF ks_ok_two_keys, of 0 1]
  by (auto simp: dbnum_def two_keys_def empty_db_def)

subsection \<open>Emptying databases\<close>

lemma decrRefCount_dbs:
  "decrRefCount a (s\<lparr>dbs := d\<rparr>) = cbind (decrRefCount a s) (\<lambda>s'. Inr (s'\<lparr>dbs := d\<rparr>))"
  by (cases "heap s a")
    (auto simp: decrRefCount_def obj_at_def free_obj_def set_obj_def emit_def cbind_def split: sum.split)

lemma release_values_dbs:
  "release_values as (s\<lparr>dbs := d\<rparr>) = cbind (release_values as s) (\<lambda>s'. Inr (s'\<lparr>dbs := d\<rparr>))"
  by (induction as arbitrary: s) (simp_all add: decrRefCount_dbs cbind_assoc)

lemma kept_dbs: "kept (s\<lparr>dbs := d\<rparr>) t \<Longrightarrow> dbs t = d \<Longrightarrow> kept s (t\<lparr>dbs := dbs s\<rparr>)"
  by (erule keptE) (simp add: kept_def)

text \<open>Giving up one reference per entry of a list.\<close>

definition plus_refs :: "(nat \<Rightarrow> nat) \<Rightarrow> nat list \<Rightarrow> nat \<Rightarrow> nat" where
  "plus_refs x as a = x a + count_list as a"

lemma plus_refs_simps: "plus_refs x [] = x" "plus_refs x (a # as) = give (plus_refs x as) a"
  by (auto simp: plus_refs_def give_def fun_eq_iff)

lemma plus_refs_append: "plus_refs x (as @ bs) = plus_refs (plus_refs x bs) as"
  by (simp add: plus_refs_def fun_eq_iff)

lemma release_one:
  assumes "ks_ok (give x a) s"
  shows "\<exists>s' evs. decrRefCount a s = Inr s' \<and> ks_ok x s' \<and> dbs s' = dbs s \<and> kept s s'
      \<and> accounts (give x a) s x s' \<and> events s' = events s @ evs \<and> handed evs = (\<lambda>_. 0)"
proof -
  have p: "0 < give x a a + refs (dbs s) a" by (simp add: give_def)
  obtain ob where ob: "heap s a = Some ob" "obj_valid ob" "counted ob (give x a a + refs (dbs s) a)"
    using ks_okD [OF assms p] by (elim exE conjE) (rule that)
  obtain evs where d: "decrRefCount a s = Inr (s\<lparr>heap := drop_ref (heap s) a ob, events := events s @ evs\<rparr>)"
      "handed evs = (\<lambda>_. 0)"
    using decrRefCount_frees [OF ob] by blast
  let ?s' = "s\<lparr>heap := drop_ref (heap s) a ob, events := events s @ evs\<rparr>"
  have acc: "accounts (give x a) s x ?s'"
    by (rule accounts_drop [OF assms ob(1)]) (simp_all add: owed_def give_def)
  have "\<forall>db \<in> set (dbs ?s'). db_ok db" using assms by (simp add: ks_ok_def)
  from accounts_ks_ok [OF assms acc this] acc d show ?thesis
    by (intro exI [of _ ?s'] exI [of _ evs]) (simp add: kept_def)
qed

lemma release_values_ok:
  "ks_ok (plus_refs x as) s \<Longrightarrow> \<exists>s' evs. release_values as s = Inr s' \<and> ks_ok x s' \<and> dbs s' = dbs s \<and> kept s s'
      \<and> accounts (plus_refs x as) s x s' \<and> events s' = events s @ evs \<and> handed evs = (\<lambda>_. 0)"
proof (induction as arbitrary: s)
  case Nil
  then show ?case by (simp add: plus_refs_simps kept_refl accounts_same fun_eq_iff)
next
  case (Cons a as)
  have g: "ks_ok (give (plus_refs x as) a) s" using Cons.prems by (simp add: plus_refs_simps)
  obtain s1 e1 where s1: "decrRefCount a s = Inr s1" "ks_ok (plus_refs x as) s1" "dbs s1 = dbs s" "kept s s1"
      "accounts (give (plus_refs x as) a) s (plus_refs x as) s1" "events s1 = events s @ e1" "handed e1 = (\<lambda>_. 0)"
    using release_one [OF g] by (elim exE conjE) (rule that)
  obtain s2 e2 where s2: "release_values as s1 = Inr s2" "ks_ok x s2" "dbs s2 = dbs s1" "kept s1 s2"
      "accounts (plus_refs x as) s1 x s2" "events s2 = events s1 @ e2" "handed e2 = (\<lambda>_. 0)"
    using Cons.IH [OF s1(2)] by (elim exE conjE) (rule that)
  have "handed (e1 @ e2) = (\<lambda>_. 0)" using s1(7) s2(7) by (simp add: fun_eq_iff)
  with s1 s2 kept_trans [OF s1(4) s2(4)] accounts_trans [OF s1(5) s2(5)] show ?case
    by (intro exI [of _ s2] exI [of _ "e1 @ e2"]) (simp add: plus_refs_simps)
qed

lemma count_vals_list: "count_vals a d = count_list (map snd d) a"
  by (induction d) (auto simp: count_vals_def)

text \<open>Emptying a database passes its references on.\<close>

lemma accounts_cong:
  "dbs t' = dbs t \<Longrightarrow> heap t' = heap t \<Longrightarrow> accounts x s y t' = accounts x s y t"
  by (simp add: accounts_def owed_def)

lemma refs_emptied:
  assumes "j < length ds"
  shows "plus_refs x (map snd (db_dict (ds ! j))) a + refs (ds[j := emptied_db (ds ! j)]) a = x a + refs ds a"
  using refs_update [OF assms, of "emptied_db (ds ! j)" a]
  by (simp add: plus_refs_def emptied_db_def count_vals_list)

lemma ks_ok_emptied:
  assumes "ks_ok x s" "j < length (dbs s)"
  shows "ks_ok (plus_refs x (map snd (db_dict (dbs s ! j)))) (s\<lparr>dbs := (dbs s)[j := emptied_db (dbs s ! j)]\<rparr>)"
proof -
  have r: "plus_refs x (map snd (db_dict (dbs s ! j))) a + refs ((dbs s)[j := emptied_db (dbs s ! j)]) a = x a + refs (dbs s) a" for a
    by (rule refs_emptied [OF assms(2)])
  have "db_ok (emptied_db (dbs s ! j))" by (simp add: db_ok_def emptied_db_def)
  then have "\<forall>db \<in> set ((dbs s)[j := emptied_db (dbs s ! j)]). db_ok db"
    using assms(1) by (auto simp: ks_ok_def dest!: set_update_subset_insert [THEN subsetD])
  with assms(1) show ?thesis by (simp add: ks_ok_def values_ok_def r)
qed

text \<open>All values of some databases.\<close>

definition vals_of :: "nat list \<Rightarrow> redisDb list \<Rightarrow> nat list" where
  "vals_of js ds = concat (map (\<lambda>j. map snd (db_dict (ds ! j))) js)"

definition emptied :: "nat list \<Rightarrow> redisDb list \<Rightarrow> redisDb list" where
  "emptied js ds = fold (\<lambda>j ds. ds[j := emptied_db (ds ! j)]) js ds"

lemma emptied_simps: "emptied [] ds = ds" "emptied (j # js) ds = emptied js (ds[j := emptied_db (ds ! j)])"
  by (simp_all add: emptied_def)

lemma emptied_nth:
  "i < length ds \<Longrightarrow> emptied js ds ! i = (if i \<in> set js then emptied_db (ds ! i) else ds ! i)"
proof (induction js arbitrary: ds)
  case (Cons j js)
  then show ?case by (cases "i = j") (auto simp: emptied_simps emptied_db_def)
qed (simp add: emptied_simps)

lemma length_emptied [simp]: "length (emptied js ds) = length ds"
  by (induction js arbitrary: ds) (simp_all add: emptied_simps)

lemma vals_of_update: "j \<notin> set js \<Longrightarrow> vals_of js (ds[j := db]) = vals_of js ds"
  by (induction js) (simp_all add: vals_of_def)

lemma empty_dbs_ok:
  assumes "ks_ok x (s\<lparr>dbs := ds\<rparr>)" "distinct js" "\<forall>j \<in> set js. j < length ds"
  shows "\<exists>s'. empty_dbs async js ds s = Inr (sum_list (map (\<lambda>j. int (dictSize (db_dict (ds ! j)))) js), emptied js ds, s')
      \<and> ks_ok (if async then plus_refs x (vals_of js ds) else x) (s'\<lparr>dbs := emptied js ds\<rparr>) \<and> kept s s' \<and> dbs s' = dbs s
      \<and> accounts x (s\<lparr>dbs := ds\<rparr>) (if async then plus_refs x (vals_of js ds) else x) (s'\<lparr>dbs := emptied js ds\<rparr>)
      \<and> (\<exists>evs. events s' = events s @ evs \<and> handed evs = (\<lambda>_. 0)
            \<and> (async \<longrightarrow> evs = map (\<lambda>j. EmptyDbAsync (db_id (ds ! j))) js))"
  using assms
proof (induction js arbitrary: s ds x)
  case Nil
  then show ?case by (simp add: emptied_simps vals_of_def plus_refs_simps kept_refl accounts_same fun_eq_iff)
next
  case (Cons j js)
  let ?db = "ds ! j" and ?ds = "ds[j := emptied_db (ds ! j)]" and ?vs = "map snd (db_dict (ds ! j))"
  have j: "j < length ds" using Cons.prems(3) by simp
  have e: "ks_ok (plus_refs x ?vs) (s\<lparr>dbs := ?ds\<rparr>)"
    using ks_ok_emptied [OF Cons.prems(1), of j] j by simp
  have ac: "accounts x (s\<lparr>dbs := ds\<rparr>) (plus_refs x ?vs) (s\<lparr>dbs := ?ds\<rparr>)"
    by (rule accounts_same [OF Cons.prems(1)]) (simp_all add: owed_def refs_emptied [OF j])
  obtain s1 e1 where s1: "(if async then Inr (emit (EmptyDbAsync (db_id ?db)) s) else release_values ?vs s) = Inr s1"
      "ks_ok (if async then plus_refs x ?vs else x) (s1\<lparr>dbs := ?ds\<rparr>)" "kept s s1" "dbs s1 = dbs s"
      and a1: "accounts x (s\<lparr>dbs := ds\<rparr>) (if async then plus_refs x ?vs else x) (s1\<lparr>dbs := ?ds\<rparr>)"
      and e1: "events s1 = events s @ e1" "handed e1 = (\<lambda>_. 0)" "async \<Longrightarrow> e1 = [EmptyDbAsync (db_id ?db)]"
  proof (cases async)
    case True
    have "accounts x (s\<lparr>dbs := ds\<rparr>) (plus_refs x ?vs) ((emit (EmptyDbAsync (db_id ?db)) s)\<lparr>dbs := ?ds\<rparr>)"
      using ac by (subst accounts_cong [of _ "s\<lparr>dbs := ?ds\<rparr>"]) (simp_all add: emit_def)
    moreover have "events (emit (EmptyDbAsync (db_id ?db)) s) = events s @ [EmptyDbAsync (db_id ?db)]"
        "handed [EmptyDbAsync (db_id ?db)] = (\<lambda>_. 0)" by (simp_all add: emit_def fun_eq_iff)
    moreover have "ks_ok (plus_refs x ?vs) ((emit (EmptyDbAsync (db_id ?db)) s)\<lparr>dbs := ?ds\<rparr>)"
      using e by (simp add: ks_ok_def)
    ultimately show ?thesis using True that [of "emit (EmptyDbAsync (db_id ?db)) s" "[EmptyDbAsync (db_id ?db)]"]
      by (simp add: kept_updates)
  next
    case False
    obtain t ev where t: "release_values ?vs (s\<lparr>dbs := ?ds\<rparr>) = Inr t" "ks_ok x t" "dbs t = ?ds" "kept (s\<lparr>dbs := ?ds\<rparr>) t"
        "accounts (plus_refs x ?vs) (s\<lparr>dbs := ?ds\<rparr>) x t" "events t = events s @ ev" "handed ev = (\<lambda>_. 0)"
      using release_values_ok [OF e] by auto
    have "accounts x (s\<lparr>dbs := ds\<rparr>) x (t\<lparr>dbs := dbs s, dbs := ?ds\<rparr>)"
      using accounts_trans [OF ac t(5)] t(3) by (subst accounts_cong [of _ t]) simp_all
    moreover have "release_values ?vs s = Inr (t\<lparr>dbs := dbs s\<rparr>)"
      using release_values_dbs [of ?vs "dbs s" "s\<lparr>dbs := ?ds\<rparr>"] t(1) by simp
    ultimately show ?thesis using False t kept_dbs [OF t(4,3)]
      by (intro that [of "t\<lparr>dbs := dbs s\<rparr>" ev]) (simp_all add: ks_ok_def)
  qed
  have js: "distinct js" "\<forall>j \<in> set js. j < length ?ds" using Cons.prems(2,3) by simp_all
  have nj: "j \<notin> set js" using Cons.prems(2) by simp
  have same_nth: "?ds ! i = ds ! i" if "i \<in> set js" for i using that nj by (cases "i = j") auto
  from Cons.IH [OF s1(2) js] obtain s2 e2 where s2:
      "empty_dbs async js ?ds s1 = Inr (sum_list (map (\<lambda>i. int (dictSize (db_dict (?ds ! i)))) js), emptied js ?ds, s2)"
      "ks_ok (if async then plus_refs (if async then plus_refs x ?vs else x) (vals_of js ?ds) else (if async then plus_refs x ?vs else x))
         (s2\<lparr>dbs := emptied js ?ds\<rparr>)" "kept s1 s2" "dbs s2 = dbs s1"
      and a2: "accounts (if async then plus_refs x ?vs else x) (s1\<lparr>dbs := ?ds\<rparr>)
         (if async then plus_refs (if async then plus_refs x ?vs else x) (vals_of js ?ds) else (if async then plus_refs x ?vs else x))
         (s2\<lparr>dbs := emptied js ?ds\<rparr>)"
      and e2: "events s2 = events s1 @ e2" "handed e2 = (\<lambda>_. 0)"
         "async \<longrightarrow> e2 = map (\<lambda>i. EmptyDbAsync (db_id (?ds ! i))) js"
    by (elim exE conjE) (rule that)
  have m: "map (\<lambda>i. int (dictSize (db_dict (?ds ! i)))) js = map (\<lambda>i. int (dictSize (db_dict (ds ! i)))) js"
  proof (intro map_cong refl)
    fix i assume "i \<in> set js"
    with nj have "j \<noteq> i" by blast
    then show "int (dictSize (db_dict (?ds ! i))) = int (dictSize (db_dict (ds ! i)))" by simp
  qed
  have v: "plus_refs (plus_refs x ?vs) (vals_of js ds) = plus_refs x (vals_of (j # js) ds)"
    by (simp add: vals_of_def plus_refs_def fun_eq_iff)
  have "empty_dbs async (j # js) ds s =
      Inr (sum_list (map (\<lambda>j. int (dictSize (db_dict (ds ! j)))) (j # js)), emptied (j # js) ds, s2)"
    using j s1(1) s2(1) by (simp add: arr_simps emptied_simps m)
  moreover have "ks_ok (if async then plus_refs x (vals_of (j # js) ds) else x) (s2\<lparr>dbs := emptied (j # js) ds\<rparr>)"
    using s2(2) v vals_of_update [OF nj] by (simp add: emptied_simps split: if_splits)
  moreover have "accounts x (s\<lparr>dbs := ds\<rparr>) (if async then plus_refs x (vals_of (j # js) ds) else x) (s2\<lparr>dbs := emptied (j # js) ds\<rparr>)"
    using accounts_trans [OF a1 a2] v vals_of_update [OF nj] by (simp add: emptied_simps split: if_splits)
  moreover have "events s2 = events s @ (e1 @ e2)" "handed (e1 @ e2) = (\<lambda>_. 0)"
    using e1(1,2) e2(1,2) by (simp_all add: fun_eq_iff)
  moreover have "async \<longrightarrow> e1 @ e2 = map (\<lambda>i. EmptyDbAsync (db_id (ds ! i))) (j # js)"
    using e1(3) e2(3) same_nth by auto
  ultimately show ?case using s2(3,4) s1(3,4) kept_trans [OF s1(3) s2(3)]
    by (intro exI [of _ s2] conjI exI [of _ "e1 @ e2"]) simp_all
qed

end
