(* ===== verification/Key_Moves.thy ===== *)
theory Key_Moves
  imports Key_Effects
begin

section \<open>Emptying, replacing and renaming (db.c)\<close>

text \<open>
  What FLUSHDB and FLUSHALL, the swap with a data set just loaded, and RENAME do to the keyspace and to
  the references to the values.
\<close>

subsection \<open>Emptying the databases of the server\<close>

lemma logs_more: "logs s t \<Longrightarrow> t = s\<lparr>events := events t\<rparr>"
  by (simp add: logs_def)

lemma logs_kept: "logs s t \<Longrightarrow> kept s t"
  by (subst logs_more, assumption) (simp add: kept_def)

lemma ks_ok_logs: "logs s t \<Longrightarrow> ks_ok x t = ks_ok x s"
  using logs_fields by (intro ks_ok_cong) blast+

lemma kept_dbs_set: "kept s t \<Longrightarrow> map db_id d = map db_id (dbs s) \<Longrightarrow> kept s (t\<lparr>dbs := d\<rparr>)"
  by (erule keptE) (simp add: kept_def)

lemma kept_if: "kept s t \<Longrightarrow> kept s (if b then emit e t else t)"
  by (simp add: kept_more(1))

lemma ks_ok_if: "ks_ok x (if b then emit e t else t) = ks_ok x t"
  by simp

lemma signal_flushed_ok:
  "ks_ok x s \<Longrightarrow> \<forall>j \<in> set js. j < length (dbs s) \<Longrightarrow> \<exists>s'. signal_flushed js s = Inr s' \<and> logs s s'"
proof (induction js arbitrary: s)
  case (Cons j js)
  then have j: "j < length (dbs s)" by simp
  obtain s1 where s1: "scan_deleted (dbs s ! j) None (blocking_keys (dbs s ! j)) s = Inr s1" "logs s s1"
    using scan_deleted_ok [OF ks_ok_live [OF Cons.prems(1) j], of None] by auto
  have l: "logs s (touch_all (dbs s ! j) None s1)" by (rule logs_trans [OF s1(2) logs_touch])
  let ?t = "touch_all (dbs s ! j) None s1"
  have "dbs ?t = dbs s" using logs_fields [OF l] by blast
  then have "ks_ok x ?t" "\<forall>i \<in> set js. i < length (dbs ?t)"
    using Cons.prems ks_ok_logs [OF l] by auto
  then obtain s2 where "signal_flushed js ?t = Inr s2" "logs ?t s2"
    using Cons.IH by blast
  then show ?case using s1(1) j logs_trans [OF l] by (auto simp: scanDatabaseForDeletedKeys_def)
qed (simp add: logs_refl)

lemma signalFlushedDb_ok:
  assumes "ks_ok x s" "- 1 \<le> dbid" "dbid < int (dbnum s)"
  shows "\<exists>s'. signalFlushedDb dbid async s = Inr s' \<and> logs s s'"
proof -
  have "\<forall>j \<in> set (db_range s dbid). j < length (dbs s)" using assms(2,3) by (auto simp: db_range_def dbnum_def)
  from signal_flushed_ok [OF assms(1) this] show ?thesis
    by (auto simp: signalFlushedDb_def intro: logs_emit)
qed

lemma db_range_ok:
  assumes "- 1 \<le> dbid" "dbid < int (dbnum s)"
  shows "distinct (db_range s dbid)" "\<forall>j \<in> set (db_range s dbid). j < length (dbs s)"
    "i < length (dbs s) \<Longrightarrow> i \<in> set (db_range s dbid) \<longleftrightarrow> dbid = - 1 \<or> int i = dbid"
  using assms by (auto simp: db_range_def dbnum_def)

lemma emptied_map: "emptied js ds = map (\<lambda>i. if i \<in> set js then emptied_db (ds ! i) else ds ! i) [0..<length ds]"
  by (rule nth_equalityI) (simp_all add: emptied_nth)

lemma map_id_emptied: "map db_id (emptied js ds) = map db_id ds"
  by (rule nth_equalityI) (simp_all add: emptied_nth emptied_db_def)

text \<open>What is emptied: the databases a call names, and the number of keys they held.\<close>

definition flushed :: "int \<Rightarrow> redisDb list \<Rightarrow> redisDb list" where
  "flushed dbid ds = map (\<lambda>i. if dbid = - 1 \<or> int i = dbid then emptied_db (ds ! i) else ds ! i) [0..<length ds]"

definition keys_in :: "int \<Rightarrow> redisDb list \<Rightarrow> int" where
  "keys_in dbid ds = (\<Sum>i | i < length ds \<and> (dbid = - 1 \<or> int i = dbid). int (dictSize (db_dict (ds ! i))))"

lemma range_flushed:
  assumes "- 1 \<le> dbid" "dbid < int (dbnum s)"
  shows "emptied (db_range s dbid) (dbs s) = flushed dbid (dbs s)"
    "sum_list (map (\<lambda>j. int (dictSize (db_dict (dbs s ! j)))) (db_range s dbid)) = keys_in dbid (dbs s)"
proof -
  show "emptied (db_range s dbid) (dbs s) = flushed dbid (dbs s)"
    unfolding emptied_map flushed_def using db_range_ok(3) [OF assms] by (intro map_cong refl) auto
  have "set (db_range s dbid) = {i. i < length (dbs s) \<and> (dbid = - 1 \<or> int i = dbid)}"
    using db_range_ok(2,3) [OF assms] by auto
  then show "sum_list (map (\<lambda>j. int (dictSize (db_dict (dbs s ! j)))) (db_range s dbid)) = keys_in dbid (dbs s)"
    using db_range_ok(1) [OF assms] by (simp add: keys_in_def sum_list_distinct_conv_sum_set)
qed

lemma emptyData_ok:
  assumes "ks_ok x s" "- 1 \<le> dbid" "dbid < int (dbnum s)" "flag_set flags EMPTYDB_NOFUNCTIONS \<or> dbid = - 1"
  shows "\<exists>s'. emptyData dbid flags s = Inr (keys_in dbid (dbs s), s') \<and> dbs s' = flushed dbid (dbs s) \<and> kept s s'
      \<and> ks_ok (if flag_set flags EMPTYDB_ASYNC then plus_refs x (vals_of (db_range s dbid) (dbs s)) else x) s'
      \<and> accounts x s (if flag_set flags EMPTYDB_ASYNC then plus_refs x (vals_of (db_range s dbid) (dbs s)) else x) s'
      \<and> (flag_set flags EMPTYDB_ASYNC \<longrightarrow> (\<forall>j \<in> set (db_range s dbid). EmptyDbAsync (db_id (dbs s ! j)) \<in> set (events s')))"
proof -
  let ?async = "flag_set flags EMPTYDB_ASYNC" and ?rs = "db_range s dbid"
  have e: "logs s (emit (FlushDbEvent True ?async dbid) s)" by (rule logs_emit [OF logs_refl])
  have ok: "ks_ok x (emit (FlushDbEvent True ?async dbid) s)" "dbid < int (dbnum (emit (FlushDbEvent True ?async dbid) s))"
    using assms(1,3) by (simp_all add: dbnum_def)
  obtain s1 where s1: "signalFlushedDb dbid ?async (emit (FlushDbEvent True ?async dbid) s) = Inr s1"
      "logs (emit (FlushDbEvent True ?async dbid) s) s1"
    using signalFlushedDb_ok [OF ok(1) assms(2) ok(2)] by blast
  have l1: "logs s s1" by (rule logs_trans [OF e s1(2)])
  have d1: "dbs s1 = dbs s" "db_range s1 dbid = ?rs" "ks_ok x (s1\<lparr>dbs := dbs s\<rparr>)"
    using logs_fields [OF l1] ks_ok_logs [OF l1] assms(1) by (simp_all add: db_range_def ks_ok_def)
  from empty_dbs_ok [OF d1(3) db_range_ok(1,2) [OF assms(2,3)], of ?async]
  obtain s2 e2 where s2: "empty_dbs ?async ?rs (dbs s) s1 = Inr (keys_in dbid (dbs s), flushed dbid (dbs s), s2)"
      "ks_ok (if ?async then plus_refs x (vals_of ?rs (dbs s)) else x) (s2\<lparr>dbs := flushed dbid (dbs s)\<rparr>)" "kept s1 s2"
      and a2: "accounts x (s1\<lparr>dbs := dbs s\<rparr>) (if ?async then plus_refs x (vals_of ?rs (dbs s)) else x) (s2\<lparr>dbs := flushed dbid (dbs s)\<rparr>)"
      and e2: "events s2 = events s1 @ e2" "?async \<longrightarrow> e2 = map (\<lambda>j. EmptyDbAsync (db_id (dbs s ! j))) ?rs"
    unfolding range_flushed [OF assms(2,3)] by (elim exE conjE) (rule that)
  have k2: "kept s (s2\<lparr>dbs := flushed dbid (dbs s)\<rparr>)"
    by (rule kept_dbs_set [OF kept_trans [OF logs_kept [OF l1] s2(3)]])
      (simp add: map_id_emptied flip: range_flushed(1) [OF assms(2,3)])
  let ?s3 = "s2\<lparr>dbs := flushed dbid (dbs s)\<rparr>"
  let ?s4 = "if cluster_enabled ?s3 then emit FlushSlotToKey ?s3 else ?s3"
  let ?s5 = "if dbid = - 1 then emit FlushSlaveKeysWithExpireList ?s4 else ?s4"
  let ?s6 = "if \<not> flag_set flags EMPTYDB_NOFUNCTIONS then emit (FunctionsClear ?async) ?s5 else ?s5"
  have "emptyData dbid flags s = Inr (keys_in dbid (dbs s), emit (FlushDbEvent False ?async dbid) ?s6)"
    using assms(2,3,4) s1(1) s2(1) d1(1,2)
    by (simp add: emptyData_def Let_def emptyDbStructure_def del: emit_dbs emit_fields) (auto simp: cassert_def)
  moreover have "kept s (emit (FlushDbEvent False ?async dbid) ?s6)" by (intro kept_more(1) kept_if k2)
  moreover have "dbs (emit (FlushDbEvent False ?async dbid) ?s6) = flushed dbid (dbs s)" by simp
  moreover have "ks_ok (if ?async then plus_refs x (vals_of ?rs (dbs s)) else x) (emit (FlushDbEvent False ?async dbid) ?s6)"
    using s2(2) by (simp only: ks_ok_emit ks_ok_if)
  moreover have "accounts x s (if ?async then plus_refs x (vals_of ?rs (dbs s)) else x) (emit (FlushDbEvent False ?async dbid) ?s6)"
  proof -
    have "accounts x s y t = accounts x (s1\<lparr>dbs := dbs s\<rparr>) y t" for y t
      using logs_fields [OF l1] by (simp add: accounts_def owed_def)
    moreover have "accounts x s y (emit (FlushDbEvent False ?async dbid) ?s6) = accounts x s y (s2\<lparr>dbs := flushed dbid (dbs s)\<rparr>)" for y
      by (rule accounts_cong) simp_all
    ultimately show ?thesis using a2 by simp
  qed
  moreover have "?async \<longrightarrow> (\<forall>j \<in> set ?rs. EmptyDbAsync (db_id (dbs s ! j)) \<in> set (events (emit (FlushDbEvent False ?async dbid) ?s6)))"
    using e2 by (auto simp: emit_def)
  ultimately show ?thesis by blast
qed

lemma nofunctions_set: "flag_set (f OR EMPTYDB_NOFUNCTIONS) EMPTYDB_NOFUNCTIONS"
proof -
  have "(f OR 2) AND 2 = (2 :: int)" by (rule bit_eqI) (auto simp: bit_simps)
  then show ?thesis by (simp add: flag_set_def emptydb_defs)
qed

lemma async_set: "flag_set (f OR EMPTYDB_NOFUNCTIONS) EMPTYDB_ASYNC = flag_set f EMPTYDB_ASYNC"
  by (simp add: flag_set_def emptydb_defs bit.conj_disj_distrib2)

lemma emptyData_assert:
  assumes "ks_ok x s" "- 1 \<le> dbid" "dbid < int (dbnum s)" "\<not> flag_set flags EMPTYDB_NOFUNCTIONS \<and> dbid \<noteq> - 1"
  shows "emptyData dbid flags s = Inl AssertFailed"
proof -
  have "emptyData dbid (flags OR EMPTYDB_NOFUNCTIONS) s \<noteq> Inl e" for e
    using emptyData_ok [OF assms(1-3), of "flags OR EMPTYDB_NOFUNCTIONS"] nofunctions_set by auto
  then show ?thesis using assms by (auto simp: emptyData_def Let_def async_set nofunctions_set cbind_def cassert_def split: sum.splits) blast+
qed

text \<open>
  C20: Emptying a database, or all of them, leaves no key and no expire in those named and every other database
  as it was, and returns the number of keys they held. Every value gives up exactly the references those
  databases had: its count goes down by their number, and it is deallocated exactly when none is left;
  or, when asynchronous, each named database is handed to the lazy-free thread, which then holds those
  references, and no count changes. A number out of range changes nothing and gives
  -1; asking to clear the functions with one database fails the assertion.
\<close>

theorem emptyData_correct:
  assumes "ks_ok x s"
    and "x' = (if flag_set flags EMPTYDB_ASYNC then plus_refs x (vals_of (db_range s dbid) (dbs s)) else x)"
  shows "if dbid < - 1 \<or> int (dbnum s) \<le> dbid then emptyData dbid flags s = Inr (- 1, s)
    else if \<not> flag_set flags EMPTYDB_NOFUNCTIONS \<and> dbid \<noteq> - 1 then emptyData dbid flags s = Inl AssertFailed
    else \<exists>s'. emptyData dbid flags s = Inr (keys_in dbid (dbs s), s') \<and> dbs s' = flushed dbid (dbs s)
      \<and> ks_ok x' s' \<and> accounts x s x' s'
      \<and> (flag_set flags EMPTYDB_ASYNC \<longrightarrow> (\<forall>j \<in> set (db_range s dbid). EmptyDbAsync (db_id (dbs s ! j)) \<in> set (events s')))"
proof (cases "dbid < - 1 \<or> int (dbnum s) \<le> dbid")
  case False
  then have r: "- 1 \<le> dbid" "dbid < int (dbnum s)" by auto
  show ?thesis
  proof (cases "\<not> flag_set flags EMPTYDB_NOFUNCTIONS \<and> dbid \<noteq> - 1")
    case True
    with emptyData_assert [OF assms(1) r] False show ?thesis by simp
  next
    case ok: False
    then have "flag_set flags EMPTYDB_NOFUNCTIONS \<or> dbid = - 1" by blast
    from emptyData_ok [OF assms(1) r this, folded assms(2)] show ?thesis
      using False ok by (simp only: if_False) blast
  qed
qed (simp add: emptyData_def Let_def)

theorem emptyData_correct_witness:
  "\<exists>s'. emptyData (- 1) EMPTYDB_NO_FLAGS two_keys = Inr (2, s') \<and> map db_dict (dbs s') = [[], []] \<and> ks_ok (\<lambda>_. 0) s'
      \<and> accounts (\<lambda>_. 0) two_keys (\<lambda>_. 0) s'"
proof -
  have k: "keys_in (- 1) (dbs two_keys) = 2"
  proof -
    have "{i. i < length (dbs two_keys) \<and> ((- 1 :: int) = - 1 \<or> int i = - 1)} = {0, 1}" by auto
    then show ?thesis unfolding keys_in_def by (simp add: dictSize_def two_keys_def empty_db_def)
  qed
  have "map db_dict (flushed (- 1) (dbs two_keys)) = [[], []]"
    by (simp add: flushed_def emptied_db_def two_keys_def upt_rec)
  moreover have "dbnum two_keys = 2" by (simp add: dbnum_def)
  ultimately show ?thesis
    using emptyData_correct [OF ks_ok_two_keys refl, of "- 1" EMPTYDB_NO_FLAGS] k
    by (auto simp: flag_set_def emptydb_defs)
qed

subsection \<open>Replacing the data set by one just loaded\<close>

text \<open>The named databases of one array take the contents of those of another.\<close>

definition taken :: "nat list \<Rightarrow> redisDb list \<Rightarrow> redisDb list \<Rightarrow> redisDb list" where
  "taken js as bs = map (\<lambda>i. if i \<in> set js then take_content (as ! i) (bs ! i) else as ! i) [0..<length as]"

lemma taken_Nil: "taken [] as bs = as"
  by (simp add: taken_def map_nth)

lemma taken_Cons:
  "j \<notin> set js \<Longrightarrow> j < length as \<Longrightarrow> length bs = length as \<Longrightarrow>
     taken js (as[j := take_content (as ! j) (bs ! j)]) (bs[j := take_content (bs ! j) (as ! j)]) = taken (j # js) as bs"
  by (rule nth_equalityI) (auto simp: taken_def nth_list_update)

lemma taken_all: "length bs = length as \<Longrightarrow> taken [0..<length as] as bs = map2 take_content as bs"
  by (rule nth_equalityI) (simp_all add: taken_def)

lemma swap_with_temp_ok:
  assumes "distinct js" "\<forall>j \<in> set js. j < length (dbs s)" "length temp = length (dbs s)"
    and "\<forall>i < length (dbs s). live_values s (dbs s ! i) \<and> live_values s (temp ! i)"
  shows "\<exists>s'. swap_with_temp js temp s = Inr (taken js temp (dbs s), s') \<and> dbs s' = taken js (dbs s) temp
      \<and> heap s' = heap s \<and> kept s s'"
  using assms
proof (induction js arbitrary: s temp)
  case Nil
  then show ?case by (simp add: taken_Nil kept_refl)
next
  case (Cons j js)
  let ?a = "dbs s ! j" and ?b = "temp ! j"
  have j: "j < length (dbs s)" "j < length temp" "j \<notin> set js" using Cons.prems by auto
  have t: "logs s (touch_all ?a (Some ?b) s)" by (rule logs_touch)
  have ht: "heap (touch_all ?a (Some ?b) s) = heap s" using logs_fields [OF t] by blast
  have lt: "live_values (touch_all ?a (Some ?b) s) ?a" "\<And>db. Some ?b = Some db \<Longrightarrow> live_values (touch_all ?a (Some ?b) s) db"
    using Cons.prems(4) j(1) live_values_heap [OF ht] by auto
  obtain s1 where s1: "scan_deleted ?a (Some ?b) (blocking_keys ?a) (touch_all ?a (Some ?b) s) = Inr s1"
      "logs (touch_all ?a (Some ?b) s) s1"
    using scan_deleted_ok [OF lt] by blast
  have l1: "logs s s1" by (rule logs_trans [OF t s1(2)])
  let ?na = "take_content ?a ?b" and ?nb = "take_content ?b ?a"
  have h1: "heap (put_db j ?na s1) = heap s" "dbs (put_db j ?na s1) = (dbs s)[j := ?na]"
    using logs_fields [OF l1] by (simp_all add: put_db_def)
  have "live_values (put_db j ?na s1) ?na"
    using Cons.prems(4) j(1) live_values_heap [OF h1(1)] live_values_content [of ?na ?b] by simp
  from scan_ready_ok [OF this] obtain s2 where s2: "scan_ready ?na (blocking_keys ?na) (put_db j ?na s1) = Inr s2"
      "logs (put_db j ?na s1) s2" by blast
  have f2: "heap s2 = heap s" "dbs s2 = (dbs s)[j := ?na]" using logs_fields [OF s2(2)] h1 by simp_all
  have "kept s (put_db j ?na s1)"
    using kept_trans [OF logs_kept [OF l1] kept_updates(3)] j(1) logs_fields [OF l1] by simp
  then have k2: "kept s s2" by (rule kept_trans [OF _ logs_kept [OF s2(2)]])
  have live2: "live_values s2 (dbs s2 ! i) \<and> live_values s2 (temp[j := ?nb] ! i)" if "i < length (dbs s2)" for i
    using that Cons.prems(3,4) j f2 live_values_heap [OF f2(1)] live_values_content [of ?na ?b] live_values_content [of ?nb ?a]
    by (cases "i = j") auto
  obtain s3 where s3: "swap_with_temp js (temp[j := ?nb]) s2 = Inr (taken js (temp[j := ?nb]) (dbs s2), s3)"
      "dbs s3 = taken js (dbs s2) (temp[j := ?nb])" "heap s3 = heap s2" "kept s2 s3"
    using Cons.IH [of s2 "temp[j := ?nb]"] Cons.prems(1-3) f2(2) live2 by auto
  have "swap_with_temp (j # js) temp s = swap_with_temp js (temp[j := ?nb]) s2"
    using s1(1) s2(1) j by (simp add: arr_simps scanDatabaseForDeletedKeys_def scanDatabaseForReadyKeys_def Let_def)
  moreover have "taken js (temp[j := ?nb]) (dbs s2) = taken (j # js) temp (dbs s)"
    unfolding f2(2) using taken_Cons [OF j(3,2), of "dbs s"] Cons.prems(3) by simp
  moreover have "taken js (dbs s2) (temp[j := ?nb]) = taken (j # js) (dbs s) temp"
    unfolding f2(2) using taken_Cons [OF j(3,1), of temp] Cons.prems(3) by simp
  ultimately show ?case using s3 f2(1) kept_trans [OF k2 s3(4)] by auto
qed

lemma dicts_map2:
  "length bs = length as \<Longrightarrow> map db_dict (map2 take_content as bs) = map db_dict bs"
  by (rule nth_equalityI) simp_all

lemma refs_dicts: "refs ds a = sum_list (map (count_vals a) (map db_dict ds))"
  by (simp add: refs_def o_def)

lemma swapMainDb_ok:
  assumes ok: "ks_ok x (s\<lparr>dbs := dbs s @ temp\<rparr>)" and len: "length temp = dbnum s"
  shows "\<exists>s'. swapMainDbWithTempDb temp s = Inr (map2 take_content temp (dbs s), s')
      \<and> dbs s' = map2 take_content (dbs s) temp \<and> heap s' = heap s \<and> kept s s'
      \<and> ks_ok x (s'\<lparr>dbs := dbs s' @ map2 take_content temp (dbs s)\<rparr>)"
proof -
  let ?ds = "dbs s @ temp"
  have l: "length temp = length (dbs s)" using len by (simp add: dbnum_def)
  have live: "live_values s (?ds ! i)" if "i < length ?ds" for i
    using ks_ok_live [OF ok, of i] that live_values_heap [of "s\<lparr>dbs := ?ds\<rparr>" s] by simp
  have "live_values s (dbs s ! i) \<and> live_values s (temp ! i)" if "i < length (dbs s)" for i
    using live [of i] live [of "length (dbs s) + i"] that l by (simp add: nth_append)
  then obtain s1 where s1: "swap_with_temp [0..<length (dbs s)] temp s = Inr (taken [0..<length (dbs s)] temp (dbs s), s1)"
      "dbs s1 = taken [0..<length (dbs s)] (dbs s) temp" "heap s1 = heap s" "kept s s1"
    using swap_with_temp_ok [of "[0..<length (dbs s)]" s temp] l by auto
  have t: "taken [0..<length (dbs s)] temp (dbs s) = map2 take_content temp (dbs s)"
      "taken [0..<length (dbs s)] (dbs s) temp = map2 take_content (dbs s) temp"
    using taken_all [of "dbs s" temp] taken_all [of temp "dbs s"] l by simp_all
  let ?s' = "emit FlushSlaveKeysWithExpireList (emit (TrackingInvalidateOnFlush True) s1)"
  let ?new = "map2 take_content (dbs s) temp @ map2 take_content temp (dbs s)"
  have "refs ?new a = refs ?ds a" for a
    using l by (simp add: refs_dicts dicts_map2 del: map_map)
  moreover have "\<forall>db \<in> set ?new. db_ok db"
    using ok by (auto simp: ks_ok_def db_ok_content dest!: set_zip_leftD set_zip_rightD
        dest: in_set_zipE)
  ultimately have "ks_ok x (?s'\<lparr>dbs := ?new\<rparr>)"
    using ok s1(3) by (simp add: ks_ok_def values_ok_def)
  moreover have "swapMainDbWithTempDb temp s = Inr (map2 take_content temp (dbs s), ?s')"
    using s1(1) t(1) by (simp add: swapMainDbWithTempDb_def dbnum_def)
  moreover have "kept s ?s'" using s1(4) by (simp add: kept_more(1))
  ultimately show ?thesis using s1(2,3) t(2) by simp
qed

lemma refs_append: "refs (as @ bs) a = refs as a + refs bs a"
  by (simp add: refs_def)

text \<open>References held by some databases count as held outside.\<close>

lemma ks_ok_split:
  "ks_ok x (s\<lparr>dbs := as @ bs\<rparr>) \<longleftrightarrow> (\<forall>db \<in> set as. db_ok db) \<and> ks_ok (\<lambda>a. x a + refs as a) (s\<lparr>dbs := bs\<rparr>)"
  by (auto simp: ks_ok_def values_ok_def refs_append add.assoc)

lemma vals_of_dicts: "map db_dict as = map db_dict bs \<Longrightarrow> \<forall>j \<in> set js. j < length as \<Longrightarrow> vals_of js as = vals_of js bs"
  unfolding vals_of_def by (intro arg_cong [of _ _ concat] map_cong refl) (metis length_map nth_map)

lemma refs_emptied_all: "refs (emptied [0..<length ds] ds) a = 0"
  by (auto simp: refs_def emptied_map emptied_db_def)

lemma discardTempDb_ok:
  assumes "ks_ok x (s\<lparr>dbs := dbs s @ temp\<rparr>)" "length temp = dbnum s"
  shows "\<exists>s'. discardTempDb temp s = Inr s' \<and> dbs s' = dbs s \<and> kept s s'
      \<and> ks_ok (plus_refs x (vals_of [0..<dbnum s] temp)) s'"
proof -
  let ?x = "\<lambda>a. x a + refs (dbs s) a" and ?js = "[0..<dbnum s]"
  have ok: "\<forall>db \<in> set (dbs s). db_ok db" "ks_ok ?x (s\<lparr>dbs := temp\<rparr>)"
    using assms(1) unfolding ks_ok_split by auto
  obtain n s' where s': "empty_dbs True ?js temp s = Inr (n, emptied ?js temp, s')"
      "ks_ok (plus_refs ?x (vals_of ?js temp)) (s'\<lparr>dbs := emptied ?js temp\<rparr>)" "kept s s'" "dbs s' = dbs s"
    using empty_dbs_ok [OF ok(2), of ?js True] assms(2) by auto
  have "plus_refs ?x (vals_of ?js temp) a + refs (emptied ?js temp) a = plus_refs x (vals_of ?js temp) a + refs (dbs s) a" for a
    using refs_emptied_all [of temp a] assms(2) by (simp add: plus_refs_def)
  then have "ks_ok (plus_refs x (vals_of ?js temp)) s'"
    using s'(2,4) ok(1) by (simp add: ks_ok_def values_ok_def)
  with s' show ?thesis
    by (simp add: discardTempDb_def emptyDbStructure_def db_range_def)
qed

text \<open>
  C21: Replacing the data set by one loaded into temporary databases, and then discarding those, gives every
  database of the server the keys and expires loaded for it; the keyspace stays consistent, the values
  of the old data set are left to the lazy-free thread, each with the reference its database had, and
  no reference to a loaded value is lost.
\<close>

theorem data_set_replaced:
  assumes "ks_ok x (s\<lparr>dbs := dbs s @ temp\<rparr>)" "length temp = dbnum s"
  shows "\<exists>old s1 s2. swapMainDbWithTempDb temp s = Inr (old, s1) \<and> discardTempDb old s1 = Inr s2
      \<and> map db_dict (dbs s2) = map db_dict temp \<and> map db_expires (dbs s2) = map db_expires temp
      \<and> map db_id (dbs s2) = map db_id (dbs s) \<and> map blocking_keys (dbs s2) = map blocking_keys (dbs s)
      \<and> ks_ok (plus_refs x (vals_of [0..<dbnum s] (dbs s))) s2"
proof -
  let ?old = "map2 take_content temp (dbs s)" and ?new = "map2 take_content (dbs s) temp"
  have l: "length temp = length (dbs s)" using assms(2) by (simp add: dbnum_def)
  obtain s1 where s1: "swapMainDbWithTempDb temp s = Inr (?old, s1)" "dbs s1 = ?new" "kept s s1"
      "ks_ok x (s1\<lparr>dbs := dbs s1 @ ?old\<rparr>)"
    using swapMainDb_ok [OF assms] by blast
  have n: "dbnum s1 = dbnum s" "length ?old = dbnum s1" using kept_fields(14) [OF s1(3)] l by (simp_all add: dbnum_def)
  obtain s2 where s2: "discardTempDb ?old s1 = Inr s2" "dbs s2 = ?new"
      "ks_ok (plus_refs x (vals_of [0..<dbnum s1] ?old)) s2"
    using discardTempDb_ok [OF s1(4) n(2)] s1(2) by auto
  have "vals_of [0..<dbnum s] ?old = vals_of [0..<dbnum s] (dbs s)"
    using l by (intro vals_of_dicts dicts_map2) (simp_all add: dbnum_def)
  moreover have "map db_dict ?new = map db_dict temp" by (rule dicts_map2) (simp add: l)
  moreover have "map db_expires ?new = map db_expires temp" "map db_id ?new = map db_id (dbs s)"
      "map blocking_keys ?new = map blocking_keys (dbs s)"
    using l by (auto intro!: nth_equalityI)
  ultimately show ?thesis using s1(1) s2 n(1) by auto
qed

theorem data_set_replaced_witness:
  "\<exists>old s1 s2. swapMainDbWithTempDb (dbs two_keys) (two_keys\<lparr>dbs := [empty_db 0, empty_db 1]\<rparr>) = Inr (old, s1)
      \<and> discardTempDb old s1 = Inr s2 \<and> map db_dict (dbs s2) = [[([97], 0), ([98], 1)], []]"
proof -
  let ?s = "two_keys\<lparr>dbs := [empty_db 0, empty_db 1]\<rparr>"
  have "refs [empty_db 0, empty_db 1] a = 0" for a by (simp add: refs_def empty_db_def)
  then have "ks_ok (\<lambda>_. 0) (?s\<lparr>dbs := dbs ?s @ dbs two_keys\<rparr>)"
    unfolding ks_ok_split using ks_ok_two_keys by (auto simp: empty_db_def db_ok_def)
  from data_set_replaced [OF this] show ?thesis by (auto simp: dbnum_def two_keys_def empty_db_def)
qed

end
