(* ===== verification/Key_Rename.thy ===== *)
theory Key_Rename
  imports Key_Moves
begin

section \<open>RENAME and RENAMENX (db.c)\<close>

text \<open>
  The commands as compositions of the keyspace operations: what they leave in the database and in the
  store of objects, and when the insertion of the renamed value writes outside its access history.
\<close>

subsection \<open>The operations RENAME composes\<close>

text \<open>
  A step keeps the books: the counts follow the references, the references handed to the lazy-free thread
  are those \<open>h\<close> tells, and the keyspace is consistent afterwards.
\<close>

definition books :: "(nat \<Rightarrow> nat) \<Rightarrow> server \<Rightarrow> (nat \<Rightarrow> nat) \<Rightarrow> (nat \<Rightarrow> nat) \<Rightarrow> server \<Rightarrow> bool" where
  "books x s h x' s' \<longleftrightarrow> (\<exists>evs. events s' = events s @ evs \<and> handed evs = h) \<and> accounts x s x' s' \<and> ks_ok x' s'"

lemma booksI:
  "events s' = events s @ evs \<Longrightarrow> handed evs = h \<Longrightarrow> accounts x s x' s' \<Longrightarrow> ks_ok x' s' \<Longrightarrow> books x s h x' s'"
  by (auto simp: books_def)

lemma books_refl: "ks_ok x s \<Longrightarrow> books x s (\<lambda>_. 0) x s"
  by (rule booksI [of _ _ "[]"]) (simp_all add: fun_eq_iff accounts_same)

lemma books_trans:
  assumes "books x s g y t" "books y t h z u"
  shows "books x s (\<lambda>c. g c + h c) z u"
proof -
  obtain e1 e2 where e: "events t = events s @ e1" "handed e1 = g" "events u = events t @ e2" "handed e2 = h"
    using assms unfolding books_def by blast
  have "handed (e1 @ e2) = (\<lambda>c. g c + h c)" using e(2,4) by (simp add: fun_eq_iff)
  with e(1,3) assms show ?thesis
    by (intro booksI [of _ _ "e1 @ e2"]) (auto simp: books_def intro: accounts_trans)
qed

lemma books_emit: "books x s h y t \<Longrightarrow> (\<And>a. e \<noteq> FreeObjAsync a) \<Longrightarrow> books x s h y (emit e t)"
proof -
  assume b: "books x s h y t" and e: "\<And>a. e \<noteq> FreeObjAsync a"
  have "books y t (\<lambda>_. 0) y (emit e t)"
    using b e by (intro booksI [of _ _ "[e]"] accounts_same) (auto simp: books_def emit_def fun_eq_iff ks_ok_def owed_def)
  from books_trans [OF b this] show ?thesis by simp
qed

lemma books_dirty: "books x s h y (t\<lparr>dirty := n\<rparr>) = books x s h y t"
  by (simp add: books_def accounts_def owed_def ks_ok_def)

lemma books_ok: "books x s h y t \<Longrightarrow> ks_ok y t"
  by (simp add: books_def)

text \<open>Only access data and reference counts differ.\<close>

lemma lookupKeyWrite_live:
  assumes "ks_ok x s" "i < length (dbs s)" "\<not> logically_expired s i k"
  shows "\<exists>s'. lookupKeyWrite rand i k s = Inr (dictFind (db_dict (dbs s ! i)) k, s') \<and> ks_ok x s' \<and> kept s s'
      \<and> dbs s' = dbs s \<and> (\<forall>c ob. heap s c = Some ob \<longrightarrow> (\<exists>ob'. heap s' c = Some ob' \<and> same_value ob ob'))
      \<and> books x s (\<lambda>_. 0) x s'"
proof -
  let ?f = "LOOKUP_NONE OR LOOKUP_WRITE"
  have w: "lookupKeyWrite rand i k s = lookupKey rand i k ?f s"
    by (simp add: lookupKeyWrite_def lookupKeyWriteWithFlags_def)
  have f: "\<not> lookup_reports ?f" "\<not> lookup_counts ?f"
    by (simp_all add: lookup_reports_def lookup_counts_def flag_set_def lookup_flag_defs)
  obtain s' where s': "lookupKey rand i k ?f s = Inr (dictFind (db_dict (dbs s ! i)) k, s')" "ks_ok x s'" "kept s s'"
      "dbs s' = dbs s" and h: "\<forall>c. heap s' c = heap s c \<or> dictFind (db_dict (dbs s ! i)) k = Some c
               \<and> (\<exists>ob ob'. heap s c = Some ob \<and> heap s' c = Some ob' \<and> same_value ob ob')"
    using lookupKey_lemma [OF assms(1,2), of rand k ?f] assms(3)
    by (simp only: simp_thms if_False) (elim exE conjE, rule that)
  have "\<exists>ob'. heap s' c = Some ob' \<and> same_value ob ob'" if "heap s c = Some ob" for c ob
    using h [rule_format, of c] that same_value_refl by (elim disjE conjE exE) simp_all
  moreover have "events s' = events s"
  proof (cases "dictFind (db_dict (dbs s ! i)) k")
    case None
    with lookupKey_miss [OF assms(1,2), of k ?f rand] s'(1) f show ?thesis by auto
  next
    case (Some a)
    obtain ob where "heap s a = Some ob" using ks_okE [OF assms(1,2) Some] by blast
    from lookupKey_hit [OF assms Some this, of ?f rand] s'(1) show ?thesis by auto
  qed
  moreover have "accounts x s x s'"
  proof (rule accounts_touch [OF assms(1)])
    fix c
    show "heap s' c = heap s c \<or> 0 < owed x s c \<and> (\<exists>ob ob'. heap s c = Some ob \<and> heap s' c = Some ob' \<and> same_value ob ob')"
      using h [rule_format, of c] refs_pos [OF assms(2), of k c] by (auto simp: owed_def)
  qed (simp add: owed_def s'(4))
  ultimately show ?thesis unfolding w using s'
    by (intro exI [of _ s']) (auto intro: booksI [of _ _ "[]"] simp: fun_eq_iff)
qed

lemma incrRefCount_ok:
  assumes "ks_ok x s" "heap s a = Some ob" "0 < x a + refs (dbs s) a"
    and "refcount ob = OBJ_SHARED_REFCOUNT \<or> refcount ob + 1 < OBJ_FIRST_SPECIAL_REFCOUNT"
  shows "\<exists>s'. incrRefCount a s = Inr s' \<and> ks_ok (give x a) s' \<and> dbs s' = dbs s \<and> kept s s' \<and> books x s (\<lambda>_. 0) (give x a) s'"
proof -
  obtain s' where s': "incrRefCount a s = Inr s'" "ks_ok (give x a) s'" "dbs s' = dbs s"
    using ks_ok_incr [OF assms] by blast
  have "kept s s'" using s'(1) assms(2) by (auto simp: incrRefCount_def obj_at_def kept_refl kept_updates(2) split: if_splits)
  moreover have "events s' = events s" "heap s' = (if refcount ob = OBJ_SHARED_REFCOUNT then heap s
      else (heap s)(a \<mapsto> ob\<lparr>refcount := refcount ob + 1\<rparr>))"
    using s'(1) assms(2,4) by (auto simp: incrRefCount_def obj_at_def set_obj_def refcount_defs split: if_splits)
  ultimately have h: "events s' = events s" "kept s s'" "heap s' = (if refcount ob = OBJ_SHARED_REFCOUNT then heap s
      else (heap s)(a \<mapsto> ob\<lparr>refcount := refcount ob + 1\<rparr>))" by simp_all
  have "recounted (int (owed (give x a) s' c) - int (owed x s c)) (heap s c) (heap s' c)" if o: "owed x s c \<noteq> 0" for c
  proof -
    obtain oc where oc: "heap s c = Some oc" "counted oc (owed x s c)" using ks_okO [OF assms(1) o] by blast
    show ?thesis
    proof (cases "c = a")
      case True
      then show ?thesis using oc assms(2,4) h(3) s'(3)
        by (auto simp: recounted_def owed_def give_def counted_def refcount_defs same_value_refl)
    next
      case False
      then show ?thesis using oc h(3) s'(3) recounted_0 [OF oc(2) same_value_refl] by (simp add: owed_def give_def)
    qed
  qed
  moreover have "owed (give x a) s' c = 0 \<and> heap s' c = heap s c" if "owed x s c = 0" for c
    using that assms(3) h(3) s'(3) by (auto simp: owed_def give_def)
  ultimately have "accounts x s (give x a) s'" by (simp add: accounts_def)
  with s' h(1,2) show ?thesis
    by (intro exI [of _ s']) (auto intro: booksI [of _ _ "[]"] simp: fun_eq_iff)
qed

lemma dbAdd_kept:
  assumes "dbAdd i k val s = Inr s'" "i < length (dbs s)" "dictFind (db_dict (dbs s ! i)) k = None"
  shows "kept s s'"
proof -
  have "kept s (put_db i ((dbs s ! i)\<lparr>db_dict := d\<rparr>) (set_obj val ob s))" for d ob
    using assms(2) by (intro kept_trans [OF kept_updates(2) kept_updates(3)]) (simp_all add: set_obj_def)
  then show ?thesis using assms
    by (auto simp: dbAdd_def dbAddInternal_def cbind_eq_Inr Let_def intro!: kept_more(1))
qed

lemma dbAdd_ok:
  assumes "ks_ok (give x val) s" "i < length (dbs s)" "dictFind (db_dict (dbs s ! i)) k = None"
    and "\<not> flag_set (maxmemory_policy s) MAXMEMORY_FLAG_LRU_HISTOGRAM"
  shows "\<exists>s'. dbAdd i k val s = Inr s' \<and> ks_ok x s' \<and> kept s s' \<and> dbs s' = (dbs s)[i := set_key k val (dbs s ! i)]
      \<and> books (give x val) s (\<lambda>_. 0) x s'"
proof -
  obtain vo where vo: "heap s val = Some vo" using ks_okD [OF assms(1), of val] by (auto simp: give_def)
  have "can_enter s vo" using assms(4) by (simp add: can_enter_def)
  from dbAdd_eq [OF assms(1-3) vo this, of False] obtain s' vo' evs where s': "dbAdd i k val s = Inr s'" "ks_ok x s'"
      "same_value vo vo'" "dbs s' = (dbs s)[i := set_key k val (dbs s ! i)]" "heap s' = (heap s)(val \<mapsto> vo')"
      "events s' = events s @ evs" "handed evs = (\<lambda>_. 0)"
    unfolding dbAdd_def [symmetric] by (elim exE conjE) (rule that)
  have "owed x s' c = owed (give x val) s c" for c
    unfolding owed_def s'(4) using refs_set [OF assms(2), of "set_key k val (dbs s ! i)" k val c] assms(3) by (simp add: give_def)
  then have "accounts (give x val) s x s'"
    using vo s'(3,5) by (intro accounts_touch [OF assms(1)]) (auto simp: owed_def give_def)
  then have "books (give x val) s (\<lambda>_. 0) x s'" using s'(2,6,7) by (auto intro: booksI)
  then show ?thesis using s' dbAdd_kept [OF s'(1) assms(2,3)] by blast
qed

definition with_expire :: "sds \<Rightarrow> int \<Rightarrow> redisDb \<Rightarrow> redisDb" where
  "with_expire k e db = (if e = - 1 then db else db\<lparr>db_expires := dictSet (db_expires db) k e\<rparr>)"

lemma with_expire_simps [simp]:
  "db_dict (with_expire k e db) = db_dict db" "db_id (with_expire k e db) = db_id db"
  "dictFind (db_expires (with_expire k e db)) q = (if e \<noteq> - 1 \<and> q = k then Some e else dictFind (db_expires db) q)"
  by (simp_all add: with_expire_def)

lemma setExpire_ok:
  assumes "ks_ok x s" "i < length (dbs s)" "dictFind (db_dict (dbs s ! i)) k \<noteq> None"
  shows "\<exists>s'. (if e \<noteq> - 1 then setExpire c i k e s else Inr s) = Inr s' \<and> ks_ok x s' \<and> kept s s'
      \<and> dbs s' = (dbs s)[i := with_expire k e (dbs s ! i)] \<and> books x s (\<lambda>_. 0) x s'"
proof (cases "e = - 1")
  case True
  then show ?thesis using assms by (simp add: with_expire_def kept_refl books_refl)
next
  case False
  let ?db = "with_expire k e (dbs s ! i)"
  have d: "?db = (dbs s ! i)\<lparr>db_expires := dictSet (db_expires (dbs s ! i)) k e\<rparr>" using False by (simp add: with_expire_def)
  have "db_ok (dbs s ! i)" using assms(1,2) by (simp add: ks_ok_def)
  then have "db_ok ?db" using assms(3) by (auto simp: db_ok_def d)
  then have "\<forall>db \<in> set ((dbs s)[i := ?db]). db_ok db"
    using assms(1) by (auto simp: ks_ok_def dest!: set_update_subset_insert [THEN subsetD])
  moreover have r: "refs ((dbs s)[i := ?db]) c = refs (dbs s) c" for c
    using refs_update [OF assms(2), of ?db c] by simp
  ultimately have k: "ks_ok x (put_db i ?db s)" using assms(1) by (simp add: ks_ok_def values_ok_def put_db_def)
  have kp: "kept s (put_db i ?db s)" using assms(2) by (simp add: kept_updates(3))
  let ?s' = "if c = Some False \<and> (masterhost s \<and> \<not> repl_slave_ro s)
             then emit (RememberSlaveKeyWithExpire (db_id (dbs s ! i)) k) (put_db i ?db s) else put_db i ?db s"
  have "setExpire c i k e s = Inr ?s'"
    using assms(2,3) by (simp add: setExpire_def Let_def d)
  moreover have "ks_ok x ?s'" using k by (simp only: ks_ok_if)
  moreover have "kept s ?s'" using kp by (intro kept_if)
  moreover have "books x s (\<lambda>_. 0) x (put_db i ?db s)"
    using k r by (intro booksI [of _ _ "[]"] accounts_same [OF assms(1)]) (simp_all add: put_db_def fun_eq_iff owed_def)
  then have "books x s (\<lambda>_. 0) x ?s'" by (simp add: books_emit)
  ultimately show ?thesis using False by (simp add: put_db_def)
qed

text \<open>The reference to a value that goes to the lazy-free thread.\<close>

definition lazily :: "server \<Rightarrow> nat option \<Rightarrow> nat \<Rightarrow> nat" where
  "lazily s v c = (if lazyfree_lazy_server_del s \<and> v = Some c then 1 else 0)"

lemma dbDelete_ok:
  assumes "ks_ok x s" "i < length (dbs s)" "v = dictFind (db_dict (dbs s ! i)) k"
  shows "\<exists>b s'. dbDelete i k s = Inr (b, s') \<and> kept s s' \<and> dbs s' = (dbs s)[i := del_key k (dbs s ! i)]
      \<and> books x s (lazily s v) (\<lambda>c. x c + lazily s v c) s'"
proof (cases v)
  case None
  have "db_ok (dbs s ! i)" using assms by (simp add: ks_ok_def)
  then have "del_key k (dbs s ! i) = dbs s ! i" using None assms(3) by (intro del_key_absent) simp_all
  moreover have "lazily s v = (\<lambda>_. 0)" using None by (simp add: lazily_def fun_eq_iff)
  ultimately show ?thesis using assms None
    by (intro exI [of _ False] exI [of _ s]) (simp add: dbDelete_def dbGenericDelete_def kept_refl books_refl)
next
  case (Some a)
  then have a: "dictFind (db_dict (dbs s ! i)) k = Some a" using assms(3) by simp
  obtain s' evs where s': "dbDelete i k s = Inr (True, s')"
      "s' = s\<lparr>dbs := (dbs s)[i := del_key k (dbs s ! i)], heap := heap s', events := events s @ evs\<rparr>"
      "\<forall>c. handed evs c = (if lazyfree_lazy_server_del s \<and> c = a then 1 else 0)"
      "accounts x s (with_handed x evs) s'" "ks_ok (with_handed x evs) s'"
    using dbGenericDelete_accounts [OF assms(1,2) a, of "lazyfree_lazy_server_del s" DB_FLAG_KEY_DELETED]
    unfolding dbDelete_def [symmetric] by (elim exE conjE) (rule that)
  have h: "handed evs = lazily s v" using s'(3) Some by (auto simp: lazily_def fun_eq_iff)
  then have x: "with_handed x evs = (\<lambda>c. x c + lazily s v c)" by (simp add: with_handed_def fun_eq_iff)
  have "events s' = events s @ evs" "dbs s' = (dbs s)[i := del_key k (dbs s ! i)]" by (subst s'(2), simp)+
  moreover have "kept s s'" by (subst s'(2)) (rule kept_delete(1) [OF assms(2)])
  ultimately show ?thesis using s'(1,4,5) h x by (auto intro: booksI)
qed

text \<open>A key that may exist is deleted first.\<close>

lemma make_way:
  assumes "ks_ok x s" "i < length (dbs s)" "found = dictFind (db_dict (dbs s ! i)) k"
  shows "\<exists>b s'. (if found \<noteq> None then dbDelete i k s else Inr (False, s)) = Inr (b, s') \<and> kept s s'
      \<and> dbs s' = (dbs s)[i := del_key k (dbs s ! i)] \<and> books x s (lazily s found) (\<lambda>c. x c + lazily s found c) s'"
proof (cases "found = None")
  case True
  then have "del_key k (dbs s ! i) = dbs s ! i"
    using assms by (intro del_key_absent) (simp_all add: ks_ok_def)
  moreover have "lazily s found = (\<lambda>_. 0)" using True by (simp add: lazily_def fun_eq_iff)
  ultimately show ?thesis using True assms
    by (intro exI [of _ False] exI [of _ s]) (simp add: kept_refl books_refl)
qed (use dbDelete_ok [OF assms] in simp)

lemma lazily_kept: "kept s t \<Longrightarrow> lazily t = lazily s"
  by (simp add: lazily_def fun_eq_iff kept_fields)

lemma getExpire_eq:
  "i < length (dbs s) \<Longrightarrow> getExpire i k s = Inr (case dictFind (db_expires (dbs s ! i)) k of None \<Rightarrow> - 1 | Some e \<Rightarrow> e)"
  by (auto simp: getExpire_def split: option.split)

subsection \<open>RENAME\<close>

text \<open>The database after a rename: the key's value and expire under the new name, and nothing of the old ones.\<close>

definition renamed_db :: "sds \<Rightarrow> sds \<Rightarrow> nat \<Rightarrow> int \<Rightarrow> redisDb \<Rightarrow> redisDb" where
  "renamed_db k k' a e db = del_key k (with_expire k' e (set_key k' a (del_key k' db)))"

lemma renamed_db_simps:
  assumes "k \<noteq> k'"
  shows "dictFind (db_dict (renamed_db k k' a e db)) q =
      (if q = k then None else if q = k' then Some a else dictFind (db_dict db) q)"
    "dictFind (db_expires (renamed_db k k' a e db)) q =
      (if q = k then None else if q = k' then (if e = - 1 then None else Some e) else dictFind (db_expires db) q)"
  using assms by (simp_all add: renamed_db_def table_simps)

text \<open>From the reference taken on the value on.\<close>

lemma rename_tail:
  assumes ok: "ks_ok (give x a) s" and i: "i < length (dbs s)" and ne: "k \<noteq> k'"
    and pol: "\<not> flag_set (maxmemory_policy s) MAXMEMORY_FLAG_LRU_HISTOGRAM"
    and old: "old = dictFind (db_dict (dbs s ! i)) k'" and v: "dictFind (db_dict (dbs s ! i)) k = Some a"
  shows "\<exists>b b' s4 s5 s6 s7. (if old \<noteq> None then dbDelete i k' s else Inr (False, s)) = Inr (b, s4)
      \<and> dbAdd i k' a s4 = Inr s5 \<and> (if e \<noteq> - 1 then setExpire c i k' e s5 else Inr s5) = Inr s6
      \<and> dbDelete i k s6 = Inr (b', s7) \<and> kept s s7
      \<and> dbs s7 = (dbs s)[i := renamed_db k k' a e (dbs s ! i)]
      \<and> books (give x a) s (\<lambda>c. lazily s old c + lazily s (Some a) c) (\<lambda>c. x c + lazily s old c + lazily s (Some a) c) s7"
proof -
  let ?y = "\<lambda>c. x c + lazily s old c"
  have y: "(\<lambda>c. give x a c + lazily s old c) = give ?y a" by (auto simp: give_def fun_eq_iff)
  obtain b s4 where s4: "(if old \<noteq> None then dbDelete i k' s else Inr (False, s)) = Inr (b, s4)"
      "kept s s4" "dbs s4 = (dbs s)[i := del_key k' (dbs s ! i)]" "books (give x a) s (lazily s old) (give ?y a) s4"
    using make_way [OF ok i old] unfolding y by blast
  have 4: "i < length (dbs s4)" "dictFind (db_dict (dbs s4 ! i)) k' = None"
      "\<not> flag_set (maxmemory_policy s4) MAXMEMORY_FLAG_LRU_HISTOGRAM"
    using s4(3) i pol kept_fields(9) [OF s4(2)] by (simp_all add: table_simps)
  obtain s5 where s5: "dbAdd i k' a s4 = Inr s5" "ks_ok ?y s5" "kept s4 s5"
      "dbs s5 = (dbs s4)[i := set_key k' a (dbs s4 ! i)]" "books (give ?y a) s4 (\<lambda>_. 0) ?y s5"
    using dbAdd_ok [OF books_ok [OF s4(4)] 4] by blast
  have 5: "i < length (dbs s5)" "dictFind (db_dict (dbs s5 ! i)) k' \<noteq> None"
    using s5(4) 4(1) by (simp_all add: table_simps)
  obtain s6 where s6: "(if e \<noteq> - 1 then setExpire c i k' e s5 else Inr s5) = Inr s6" "ks_ok ?y s6" "kept s5 s6"
      "dbs s6 = (dbs s5)[i := with_expire k' e (dbs s5 ! i)]" "books ?y s5 (\<lambda>_. 0) ?y s6"
    using setExpire_ok [OF s5(2) 5] by blast
  have 6: "i < length (dbs s6)" using s6(4) 5(1) by simp
  have k6: "kept s s6" by (intro kept_trans [OF s4(2)] kept_trans [OF s5(3)] s6(3))
  have v6: "Some a = dictFind (db_dict (dbs s6 ! i)) k"
    using s6(4) s5(4) s4(3) i ne v by (simp add: table_simps)
  obtain b' s7 where s7: "dbDelete i k s6 = Inr (b', s7)" "kept s6 s7"
      "dbs s7 = (dbs s6)[i := del_key k (dbs s6 ! i)]" "books ?y s6 (lazily s (Some a)) (\<lambda>c. ?y c + lazily s (Some a) c) s7"
    using dbDelete_ok [OF s6(2) 6 v6] unfolding lazily_kept [OF k6] by blast
  have "dbs s7 = (dbs s)[i := renamed_db k k' a e (dbs s ! i)]"
    using s7(3) s6(4) s5(4) s4(3) i by (simp add: renamed_db_def)
  moreover have "kept s s7" by (rule kept_trans [OF k6 s7(2)])
  moreover have "books (give x a) s (\<lambda>c. lazily s old c + lazily s (Some a) c) (\<lambda>c. ?y c + lazily s (Some a) c) s7"
    using books_trans [OF books_trans [OF books_trans [OF s4(4) s5(5)] s6(5)] s7(4)] by simp
  ultimately show ?thesis using s4(1) s5(1) s6(1) s7(1) by blast
qed

lemma last_emit [simp]: "last (events (emit e s)) = e"
  by (simp add: emit_def)

lemma kept_expired:
  "kept s t \<Longrightarrow> dbs t = dbs s \<Longrightarrow> logically_expired t i k = logically_expired s i k"
  by (rule not_expired_cong(1)) simp_all

text \<open>A live key renamed to another name.\<close>

lemma rename_live:
  assumes ok: "ks_ok x s" and i: "i < length (dbs s)" and i': "c_db c = i" and argv: "c_argv c = [cmd, k, k']" and ne: "k \<noteq> k'"
    and live: "\<not> logically_expired s i k" "\<not> logically_expired s i k'"
    and pol: "\<not> flag_set (maxmemory_policy s) MAXMEMORY_FLAG_LRU_HISTOGRAM"
    and a: "dictFind (db_dict (dbs s ! i)) k = Some a" "heap s a = Some ob"
    and cnt: "refcount ob = OBJ_SHARED_REFCOUNT \<or> refcount ob + 1 < OBJ_FIRST_SPECIAL_REFCOUNT"
    and h: "h = (\<lambda>c. lazily s (dictFind (db_dict (dbs s ! i)) k') c + lazily s (Some a) c)"
  shows "\<exists>s'. renameGenericCommand rand c nx s = Inr s'
      \<and> (if nx \<and> dictFind (db_dict (dbs s ! i)) k' \<noteq> None
         then dbs s' = dbs s \<and> dirty s' = dirty s \<and> last (events s') = Reply ReplyZero \<and> books x s (\<lambda>_. 0) x s'
         else dbs s' = (dbs s)[i := renamed_db k k' a (case dictFind (db_expires (dbs s ! i)) k of None \<Rightarrow> - 1 | Some e \<Rightarrow> e) (dbs s ! i)]
           \<and> dirty s' = dirty s + 1 \<and> last (events s') = Reply (if nx then ReplyOne else ReplyOk)
           \<and> books x s h (\<lambda>c. x c + h c) s')"
proof -
  let ?db = "dbs s ! i"
  define e where "e = (case dictFind (db_expires ?db) k of None \<Rightarrow> - 1 | Some e \<Rightarrow> e)"
  obtain s1 ob1 where s1: "lookupKeyWrite rand i k s = Inr (Some a, s1)" "ks_ok x s1" "kept s s1" "dbs s1 = dbs s"
      "heap s1 a = Some ob1" "same_value ob ob1" and b1: "books x s (\<lambda>_. 0) x s1"
    using lookupKeyWrite_live [OF ok i live(1), of rand] unfolding a(1) using a(2) by blast
  have p1: "0 < x a + refs (dbs s1) a" using refs_pos [OF i a(1)] s1(4) by simp
  have c1: "refcount ob1 = OBJ_SHARED_REFCOUNT \<or> refcount ob1 + 1 < OBJ_FIRST_SPECIAL_REFCOUNT"
    using cnt s1(6) by (simp add: same_value_def)
  obtain s2 where s2: "incrRefCount a s1 = Inr s2" "ks_ok (give x a) s2" "dbs s2 = dbs s1" "kept s1 s2"
      and b2: "books x s1 (\<lambda>_. 0) (give x a) s2"
    using incrRefCount_ok [OF s1(2,5) p1 c1] by blast
  have k2: "kept s s2" "dbs s2 = dbs s" using kept_trans [OF s1(3) s2(4)] s2(3) s1(4) by simp_all
  have i2: "i < length (dbs s2)" "\<not> logically_expired s2 i k'"
    using i k2(2) live(2) kept_expired [OF k2] by simp_all
  have e2: "getExpire i k s2 = Inr e" using getExpire_eq [OF i2(1)] k2(2) by (simp add: e_def)
  obtain s3 where s3: "lookupKeyWrite rand i k' s2 = Inr (dictFind (db_dict ?db) k', s3)" "ks_ok (give x a) s3"
      "kept s2 s3" "dbs s3 = dbs s" and b3: "books (give x a) s2 (\<lambda>_. 0) (give x a) s3"
    using lookupKeyWrite_live [OF s2(2) i2, of rand] k2(2) by auto
  have k3: "kept s s3" by (rule kept_trans [OF k2(1) s3(3)])
  have b: "books x s (\<lambda>_. 0) (give x a) s3" using books_trans [OF books_trans [OF b1 b2] b3] by simp
  have start: "renameGenericCommand rand c nx s =
      (if dictFind (db_dict ?db) k' \<noteq> None \<and> nx then cbind (decrRefCount a s3) (\<lambda>s4. Inr (emit (Reply ReplyZero) s4))
       else cbind (if dictFind (db_dict ?db) k' \<noteq> None then dbDelete i k' s3 else Inr (False, s3)) (\<lambda>(_, s4).
            cbind (dbAdd i k' a s4) (\<lambda>s5.
            cbind (if e \<noteq> - 1 then setExpire (Some (c_master c)) i k' e s5 else Inr s5) (\<lambda>s6.
            cbind (dbDelete i k s6) (\<lambda>(_, s7).
            cbind (get_db s7 i) (\<lambda>db.
            let s8 = moved_events db k ''rename_from'' db k' ''rename_to'' s7
            in Inr (emit (Reply (if nx then ReplyOne else ReplyOk)) (s8\<lparr>dirty := dirty s8 + 1\<rparr>))))))))"
    using ne argv by (simp add: renameGenericCommand_def i' Let_def arg_def arr_get_def lookupKeyWriteOrReply_def s1(1) s2(1) e2 s3(1))
  show ?thesis
  proof (cases "nx \<and> dictFind (db_dict ?db) k' \<noteq> None")
    case True
    obtain s4 evs where s4: "decrRefCount a s3 = Inr s4" "ks_ok x s4" "dbs s4 = dbs s3" "kept s3 s4"
        and e4: "accounts (give x a) s3 x s4" "events s4 = events s3 @ evs" "handed evs = (\<lambda>_. 0)"
      using release_one [OF s3(2)] by (elim exE conjE) (rule that)
    have "books x s (\<lambda>_. 0) x s4" using books_trans [OF b booksI [OF e4(2,3,1) s4(2)]] by simp
    then have b4: "books x s (\<lambda>_. 0) x (emit (Reply ReplyZero) s4)" by (simp add: books_emit)
    have "renameGenericCommand rand c nx s = Inr (emit (Reply ReplyZero) s4)" using start True s4(1) by simp
    moreover have "dirty s4 = dirty s" using kept_fields(16) [OF kept_trans [OF k3 s4(4)]] .
    ultimately show ?thesis using True s4 s3(4) b4 by simp
  next
    case False
    have a3: "dictFind (db_dict (dbs s3 ! i)) k = Some a" using a(1) s3(4) by simp
    have h3: "h = (\<lambda>c. lazily s3 (dictFind (db_dict ?db) k') c + lazily s3 (Some a) c)"
      by (simp add: h lazily_kept [OF k3])
    have 3: "i < length (dbs s3)" "dictFind (db_dict ?db) k' = dictFind (db_dict (dbs s3 ! i)) k'"
        "\<not> flag_set (maxmemory_policy s3) MAXMEMORY_FLAG_LRU_HISTOGRAM"
      using i s3(4) pol kept_fields(9) [OF k3] by simp_all
    obtain b b' s4 s5 s6 s7 where t: "(if dictFind (db_dict ?db) k' \<noteq> None then dbDelete i k' s3 else Inr (False, s3)) = Inr (b, s4)"
        "dbAdd i k' a s4 = Inr s5" "(if e \<noteq> - 1 then setExpire (Some (c_master c)) i k' e s5 else Inr s5) = Inr s6"
        "dbDelete i k s6 = Inr (b', s7)" "kept s3 s7" "dbs s7 = (dbs s3)[i := renamed_db k k' a e (dbs s3 ! i)]"
        and b7': "books (give x a) s3 (\<lambda>c. lazily s3 (dictFind (db_dict ?db) k') c + lazily s3 (Some a) c)
          (\<lambda>c. x c + lazily s3 (dictFind (db_dict ?db) k') c + lazily s3 (Some a) c) s7"
      using rename_tail [OF s3(2) 3(1) ne 3(3,2) a3, of e "Some (c_master c)"] by (elim exE conjE) (rule that)
    have b7: "books (give x a) s3 h (\<lambda>c. x c + h c) s7" using b7' by (simp add: h3 add.assoc)
    let ?d = "renamed_db k k' a e ?db"
    let ?s8 = "moved_events ?d k ''rename_from'' ?d k' ''rename_to'' s7"
    have d7: "dbs s7 = (dbs s)[i := ?d]" "dirty s7 = dirty s"
      using t(6) s3(4) kept_fields(16) [OF kept_trans [OF k3 t(5)]] by simp_all
    have "books x s h (\<lambda>c. x c + h c) s7" using books_trans [OF b b7] by simp
    then have b8: "books x s h (\<lambda>c. x c + h c) (emit (Reply (if nx then ReplyOne else ReplyOk)) (?s8\<lparr>dirty := dirty ?s8 + 1\<rparr>))"
      by (simp add: books_emit books_dirty moved_events_def signalModifiedKey_def)
    have "get_db s7 i = Inr ?d" using d7(1) i by simp
    then have "renameGenericCommand rand c nx s =
        Inr (emit (Reply (if nx then ReplyOne else ReplyOk)) (?s8\<lparr>dirty := dirty ?s8 + 1\<rparr>))"
      unfolding start using False by (simp only: t(1-4) cbind_Inr split_conv Let_def) auto
    moreover have "last (events (emit (Reply (if nx then ReplyOne else ReplyOk)) (?s8\<lparr>dirty := dirty ?s8 + 1\<rparr>)))
        = Reply (if nx then ReplyOne else ReplyOk)" by simp
    ultimately show ?thesis using False b8 d7
      by (intro exI [of _ "emit (Reply (if nx then ReplyOne else ReplyOk)) (?s8\<lparr>dirty := dirty ?s8 + 1\<rparr>)"])
        (simp add: moved_events_def e_def del: last_emit)
  qed
qed

text \<open>
  C19: RENAME and RENAMENX, when neither name is expired, the eviction policy keeps no access history (for one
  that does see the faults below) and no reference count is about to reach the reserved ones:
  a missing key is an error and changes nothing; a key renamed to itself, or by RENAMENX to a name in use,
  changes nothing; otherwise the value and its expire appear under the new name (an expire of -1, which no
  command stores, would be dropped), whatever was there before is gone with its expire, every other key
  is untouched and the counter of unsaved changes grows by one. The counts follow the references exactly:
  the value that was under the new name loses one, and is deallocated if that was the last; the renamed value keeps
  its count. With lazy deletion each of the two deletions hands one reference to the lazy-free thread instead.
\<close>

theorem renameGenericCommand_correct:
  assumes "ks_ok x s" "c_db c < length (dbs s)" "c_argv c = [cmd, k, k']"
    and "\<not> logically_expired s (c_db c) k" "\<not> logically_expired s (c_db c) k'"
    and "\<not> flag_set (maxmemory_policy s) MAXMEMORY_FLAG_LRU_HISTOGRAM"
    and "\<forall>a ob. heap s a = Some ob \<longrightarrow> refcount ob = OBJ_SHARED_REFCOUNT \<or> refcount ob + 1 < OBJ_FIRST_SPECIAL_REFCOUNT"
    and "db = dbs s ! c_db c" "found = dictFind (db_dict db) k" "there = dictFind (db_dict db) k'"
    and "h = (\<lambda>c. if lazyfree_lazy_server_del s
                  then (if there = Some c then 1 else 0) + (if found = Some c then 1 else 0) else 0)"
  shows "\<exists>s' db'. renameGenericCommand rand c nx s = Inr s' \<and> dbs s' = (dbs s)[c_db c := db']
      \<and> (if found = None
         then db' = db \<and> dirty s' = dirty s \<and> last (events s') = Reply (ReplyError ''no such key'') \<and> books x s (\<lambda>_. 0) x s'
         else if k = k' \<or> nx \<and> there \<noteq> None
         then db' = db \<and> dirty s' = dirty s \<and> last (events s') = Reply (if nx then ReplyZero else ReplyOk)
           \<and> books x s (\<lambda>_. 0) x s'
         else dirty s' = dirty s + 1 \<and> last (events s') = Reply (if nx then ReplyOne else ReplyOk)
           \<and> books x s h (\<lambda>c. x c + h c) s'
           \<and> (\<forall>q. dictFind (db_dict db') q = (if q = k then None else if q = k' then found else dictFind (db_dict db) q))
           \<and> (\<forall>q. dictFind (db_expires db') q =
                (if q = k \<or> q = k' \<and> dictFind (db_expires db) k = Some (- 1) then None
                 else if q = k' then dictFind (db_expires db) k else dictFind (db_expires db) q)))"
proof -
  obtain s1 where s1: "lookupKeyWrite rand (c_db c) k s = Inr (found, s1)" "kept s s1" "dbs s1 = dbs s"
      and b1: "books x s (\<lambda>_. 0) x s1"
    using lookupKeyWrite_live [OF assms(1,2,4), of rand] unfolding assms(8,9) by blast
  note d1 = kept_fields(16) [OF s1(2)]
  have e1: "books x s (\<lambda>_. 0) x (emit (Reply r) s1)" for r using b1 by (simp add: books_emit)
  have same: "(dbs s)[c_db c := db] = dbs s" by (simp add: assms(8))
  show ?thesis
  proof (cases found)
    case None
    then have "renameGenericCommand rand c nx s = Inr (emit (Reply (ReplyError ''no such key'')) s1)"
      using assms(3) s1(1) by (simp add: renameGenericCommand_def Let_def arg_def arr_get_def lookupKeyWriteOrReply_def)
    with None s1 d1 e1 same show ?thesis
      by (intro exI [of _ "emit (Reply (ReplyError ''no such key'')) s1"] exI [of _ db]) simp
  next
    case (Some a)
    show ?thesis
    proof (cases "k = k'")
      case True
      with Some have "renameGenericCommand rand c nx s = Inr (emit (Reply (if nx then ReplyZero else ReplyOk)) s1)"
        using assms(3) s1(1) by (simp add: renameGenericCommand_def Let_def arg_def arr_get_def lookupKeyWriteOrReply_def)
      with True Some s1 d1 e1 same show ?thesis
        by (intro exI [of _ "emit (Reply (if nx then ReplyZero else ReplyOk)) s1"] exI [of _ db]) simp
    next
      case ne: False
      have a: "dictFind (db_dict (dbs s ! c_db c)) k = Some a" using Some assms(8,9) by simp
      obtain ob where ob: "heap s a = Some ob" using ks_okE [OF assms(1,2) a] by blast
      have h: "h = (\<lambda>c'. lazily s (dictFind (db_dict (dbs s ! c_db c)) k') c' + lazily s (Some a) c')"
        using Some by (auto simp: assms(8,10,11) lazily_def fun_eq_iff)
      define e where "e = (case dictFind (db_expires db) k of None \<Rightarrow> - 1 | Some e \<Rightarrow> e)"
      obtain s' where s': "renameGenericCommand rand c nx s = Inr s'"
          "if nx \<and> there \<noteq> None then dbs s' = dbs s \<and> dirty s' = dirty s \<and> last (events s') = Reply ReplyZero \<and> books x s (\<lambda>_. 0) x s'
           else dbs s' = (dbs s)[c_db c := renamed_db k k' a e db] \<and> dirty s' = dirty s + 1
             \<and> last (events s') = Reply (if nx then ReplyOne else ReplyOk) \<and> books x s h (\<lambda>c. x c + h c) s'"
        using rename_live [OF assms(1,2) refl assms(3) ne assms(4-6) a ob assms(7) [rule_format, OF ob] h, of rand nx]
        unfolding e_def assms(8,10) by blast
      show ?thesis
      proof (cases "nx \<and> there \<noteq> None")
        case True
        with s' Some same show ?thesis by (intro exI [of _ s'] exI [of _ db]) simp
      next
        case False
        with s' Some ne show ?thesis
          by (intro exI [of _ s'] exI [of _ "renamed_db k k' a e db"])
            (auto simp: renamed_db_simps [OF ne] e_def split: option.split)
      qed
    qed
  qed
qed

theorem renameGenericCommand_correct_witness:
  "\<exists>s' db'. renameGenericCommand 0 (demo_client [[82], [97], [98]]) False two_keys = Inr s' \<and> dbs s' = (dbs two_keys)[0 := db']
      \<and> dictFind (db_dict db') [98] = Some 0 \<and> dictFind (db_dict db') [97] = None \<and> dictFind (db_expires db') [98] = Some 50
      \<and> books (\<lambda>_. 0) two_keys (\<lambda>_. 0) (\<lambda>_. 0) s'"
proof -
  let ?db = "dbs two_keys ! 0"
  have l: "\<not> logically_expired two_keys 0 [97]" "\<not> logically_expired two_keys 0 [98]"
    by (simp_all add: logically_expired_def dictFind_def two_keys_def init_server_def)
  have p: "\<not> flag_set (maxmemory_policy two_keys) MAXMEMORY_FLAG_LRU_HISTOGRAM"
    by (simp add: two_keys_def init_server_def policy_defs)
  have c: "\<forall>a ob. heap two_keys a = Some ob \<longrightarrow> refcount ob = OBJ_SHARED_REFCOUNT \<or> refcount ob + 1 < OBJ_FIRST_SPECIAL_REFCOUNT"
    by (auto simp: two_keys_def sample_obj_def refcount_defs split: if_splits)
  have f: "dictFind (db_dict ?db) [97] = Some 0" "dictFind (db_expires ?db) [97] = Some 50"
    by (simp_all add: dictFind_def)
  have x: "c_db (demo_client [[82], [97], [98]]) = 0" "c_argv (demo_client [[82], [97], [98]]) = [[82], [97], [98]]"
    by (simp_all add: demo_client_def)
  have n: "dictFind (db_dict ?db) [97] \<noteq> None" "\<not> ([97] = ([98] :: sds) \<or> False \<and> dictFind (db_dict ?db) [98] \<noteq> None)"
    using f by simp_all
  have lz: "\<not> lazyfree_lazy_server_del two_keys" by (simp add: two_keys_def init_server_def)
  obtain s' db' where r: "renameGenericCommand 0 (demo_client [[82], [97], [98]]) False two_keys = Inr s'"
      "dbs s' = (dbs two_keys)[0 := db']"
      "\<forall>q. dictFind (db_dict db') q = (if q = [97] then None else if q = [98] then dictFind (db_dict ?db) [97] else dictFind (db_dict ?db) q)"
      "\<forall>q. dictFind (db_expires db') q =
          (if q = [97] \<or> q = [98] \<and> dictFind (db_expires ?db) [97] = Some (- 1) then None
           else if q = [98] then dictFind (db_expires ?db) [97] else dictFind (db_expires ?db) q)"
      "books (\<lambda>_. 0) two_keys (\<lambda>_. 0) (\<lambda>_. 0) s'"
    using renameGenericCommand_correct [where rand = 0 and nx = False, OF ks_ok_two_keys _ x(2) _ _ p c refl refl refl refl,
        unfolded x(1), OF _ l] lz n unfolding if_not_P [OF n(2)] if_not_P [OF n(1)] by auto
  from r(3,4) f have "dictFind (db_dict db') [98] = Some 0" "dictFind (db_dict db') [97] = None" "dictFind (db_expires db') [98] = Some 50"
    by simp_all
  with r(1,2,5) show ?thesis by blast
qed

subsection \<open>Renaming under the histogram policy\<close>

lemma set_obj_inj: "set_obj a ob1 s = set_obj a ob2 s \<Longrightarrow> ob1 = ob2"
  by (drule arg_cong [of _ _ "\<lambda>s. heap s a"]) (simp add: set_obj_def)

lemma touch_full:
  assumes "heap s a = Some ob" "hist_ok ob" "num_accesses ob = 4"
  shows "\<exists>ob'. touch_value rand a s = Inr (set_obj a ob' s) \<and> same_value ob ob' \<and> num_accesses ob' = 4 \<and> hist_ok ob'"
proof -
  have "robj_wf ob" using assms(2) by (simp add: hist_ok_def)
  then obtain ob' where t: "touch_value rand a s = Inr (set_obj a ob' s)" "same_value ob ob'"
    using touch_value_ok [OF assms(1)] by blast
  have n: "unat (num_accesses ob) = 4" using assms(3) by simp
  have "num_accesses ob' = 4"
    using t(1) assms(1,3) n
    by (auto simp: touch_value_def obj_at_def updateLFU_def updateLRUHistogram_def Let_def HISTORY_SIZE_def cbind_eq_Inr
        split: if_splits dest!: set_obj_inj)
  with t show ?thesis using \<open>robj_wf ob\<close> by (auto simp: same_value_def hist_ok_def HISTORY_SIZE_def)
qed

lemma lookup_full:
  assumes "ks_ok x s" "i < length (dbs s)" "\<not> logically_expired s i k"
    and "dictFind (db_dict (dbs s ! i)) k = Some a" "heap s a = Some ob" "hist_ok ob" "num_accesses ob = 4"
  shows "\<exists>ob'. lookupKeyWrite rand i k s = Inr (Some a, set_obj a ob' s)
      \<and> same_value ob ob' \<and> num_accesses ob' = 4 \<and> hist_ok ob'"
proof -
  have e: "expireIfNeeded i k f s = Inr (False, s)" for f
    using expireIfNeeded_lemma [OF assms(1,2), of k f] assms(3) by auto
  have same: "set_obj a ob s = s" using assms(5) by (simp add: set_obj_def fun_upd_idem)
  have "same_value ob ob" by (simp add: same_value_def)
  moreover obtain ob' where "touch_value rand a s = Inr (set_obj a ob' s)" "same_value ob ob'" "num_accesses ob' = 4" "hist_ok ob'"
    using touch_full [OF assms(5-7)] by blast
  moreover have "flag_set (LOOKUP_NONE OR LOOKUP_WRITE) LOOKUP_WRITE" by (simp add: flag_set_def lookup_flag_defs)
  ultimately show ?thesis
    using assms(2,4,6,7) e same
    by (cases "\<not> active_child s \<and> \<not> (flag_set (LOOKUP_NONE OR LOOKUP_WRITE) LOOKUP_NOTOUCH
                 \<or> current_client s \<and> client_no_touch s \<and> \<not> cmd_is_touch s)")
      (simp_all add: lookupKeyWrite_def lookupKeyWriteWithFlags_def lookupKey_def Let_def, metis+)
qed

lemma lookup_absent:
  assumes "i < length (dbs s)" "dictFind (db_dict (dbs s ! i)) k = None"
  shows "lookupKeyWrite rand i k s = Inr (None, s)"
proof -
  have "flag_set (LOOKUP_NONE OR LOOKUP_WRITE) LOOKUP_WRITE" by (simp add: flag_set_def lookup_flag_defs)
  then show ?thesis using assms by (simp add: lookupKeyWrite_def lookupKeyWriteWithFlags_def lookupKey_def Let_def)
qed

lemma dbAdd_full:
  assumes "i < length (dbs s)" "dictFind (db_dict (dbs s ! i)) k = None" "heap s a = Some ob" "hist_ok ob" "num_accesses ob = 4"
    and "refcount ob \<noteq> OBJ_SHARED_REFCOUNT" "flag_set (maxmemory_policy s) MAXMEMORY_FLAG_LRU_HISTOGRAM"
    and "\<not> flag_set (maxmemory_policy s) MAXMEMORY_FLAG_LFU"
  shows "dbAdd i k a s = Inl OutOfBounds"
proof -
  have "robj_wf (ob\<lparr>lru := l\<rparr>)" for l using assms(4) by (simp add: hist_ok_def robj_wf_def)
  then have "initOrUpdateObjectt (ob\<lparr>lru := l\<rparr>) now = Inl OutOfBounds" for l now
    using assms(5) by (intro initOrUpdate_full) simp_all
  then have "initObjectLRUOrLFU s ob = Inl OutOfBounds"
    using assms(6-8) by (simp add: initObjectLRUOrLFU_def Let_def)
  then show ?thesis using assms(1-3) by (simp add: dbAdd_def dbAddInternal_def obj_at_def)
qed

text \<open>
  C28: Under the histogram policy a key whose value has a full access history cannot be renamed: the value is
  inserted under its new name as if it were new, and the routine that records the insertion writes
  \<open>access_times[HISTORY_SIZE]\<close>, one past the array. Such a value has been looked up \<open>HISTORY_SIZE\<close> times,
  so any client may reach this with commands it is allowed to use.
\<close>

theorem rename_full_history_faults:
  assumes "ks_ok x s" "c_db c < length (dbs s)" "c_argv c = [cmd, k, k']" "k \<noteq> k'"
    and "\<not> logically_expired s (c_db c) k" "dictFind (db_dict (dbs s ! c_db c)) k' = None"
    and "dictFind (db_dict (dbs s ! c_db c)) k = Some a" "heap s a = Some ob"
    and "hist_ok ob" "unat (num_accesses ob) = HISTORY_SIZE" "refcount ob + 1 < OBJ_FIRST_SPECIAL_REFCOUNT"
    and "flag_set (maxmemory_policy s) MAXMEMORY_FLAG_LRU_HISTOGRAM" "\<not> flag_set (maxmemory_policy s) MAXMEMORY_FLAG_LFU"
  shows "renameGenericCommand rand c nx s = Inl OutOfBounds"
proof -
  have n: "num_accesses ob = 4" using assms(10) by (simp add: HISTORY_SIZE_def) (metis unat_4_u8 unsigned_word_eqI)
  obtain ob1 where l: "lookupKeyWrite rand (c_db c) k s = Inr (Some a, set_obj a ob1 s)"
      "same_value ob ob1" "num_accesses ob1 = 4" "hist_ok ob1"
    using lookup_full [OF assms(1,2,5,7-9) n] by blast
  let ?ob2 = "ob1\<lparr>refcount := refcount ob1 + 1\<rparr>"
  let ?s2 = "set_obj a ?ob2 (set_obj a ob1 s)"
  have r: "refcount ob1 < OBJ_FIRST_SPECIAL_REFCOUNT" "refcount ?ob2 \<noteq> OBJ_SHARED_REFCOUNT"
    using l(2) assms(11) by (simp_all add: same_value_def refcount_defs)
  have i: "incrRefCount a (set_obj a ob1 s) = Inr ?s2" using r(1) by (simp add: incrRefCount_def)
  have d: "c_db c < length (dbs ?s2)" "dictFind (db_dict (dbs ?s2 ! c_db c)) k' = None" "heap ?s2 a = Some ?ob2"
      "maxmemory_policy ?s2 = maxmemory_policy s"
    using assms(2,6) by (simp_all add: set_obj_def)
  have h: "hist_ok ?ob2" "num_accesses ?ob2 = 4" using l(3,4) by (simp_all add: hist_ok_def robj_wf_def)
  have "dbAdd (c_db c) k' a ?s2 = Inl OutOfBounds"
    by (rule dbAdd_full [OF d(1-3) h r(2)]) (use assms(12,13) d(4) in simp_all)
  then show ?thesis
    using assms(3,4) by (simp add: renameGenericCommand_def Let_def arg_def arr_get_def lookupKeyWriteOrReply_def l(1) i
        getExpire_eq [OF d(1)] lookup_absent [OF d(1,2)])
qed

theorem rename_full_history_faults_witness:
  "renameGenericCommand 0 (demo_client [[82], [97], [99]]) False
     (two_keys\<lparr>maxmemory_policy := MAXMEMORY_ALLKEYS_LRU_HISTOGRAM,
               heap := (heap two_keys)(0 \<mapsto> (sample_obj 3)\<lparr>num_accesses := 4\<rparr>)\<rparr>) = Inl OutOfBounds"
proof -
  let ?s = "two_keys\<lparr>maxmemory_policy := MAXMEMORY_ALLKEYS_LRU_HISTOGRAM,
               heap := (heap two_keys)(0 \<mapsto> (sample_obj 3)\<lparr>num_accesses := 4\<rparr>)\<rparr>"
  have "same_value (sample_obj 3) ((sample_obj 3)\<lparr>num_accesses := 4\<rparr>)" by (simp add: same_value_def robj_wf_def)
  moreover have "heap two_keys 0 = Some (sample_obj 3)" by (simp add: two_keys_def)
  ultimately have "ks_ok (\<lambda>_. 0) (set_obj 0 ((sample_obj 3)\<lparr>num_accesses := 4\<rparr>) two_keys)"
    using ks_ok_set_obj [OF ks_ok_two_keys] by blast
  then have ok: "ks_ok (\<lambda>_. 0) ?s" by (simp add: ks_ok_def set_obj_def)
  show ?thesis
    by (rule rename_full_history_faults [OF ok, where cmd = "[82]" and k = "[97]" and k' = "[99]" and a = 0 and ob = "(sample_obj 3)\<lparr>num_accesses := 4\<rparr>"])
      (simp_all add: demo_client_def logically_expired_def dictFind_def two_keys_def init_server_def hist_ok_def robj_wf_def
        sample_obj_def HISTORY_SIZE_def refcount_defs policy_defs)
qed

end
