(* ===== verification/Rdb_Background.thy ===== *)
theory Rdb_Background
  imports Rdb_Snapshot Key_Moves
begin

section \<open>Saving to files and in the background (rdb.c, db.c)\<close>

text \<open>
  SAVE, BGSAVE, the transfer to replicas, FLUSHALL and the loading of a file at start: the state of
  \<open>struct redisServer\<close> they keep, the files of the working directory, and what becomes of both on every
  outcome of the system calls. \<open>fork()\<close> and the bookkeeping of children (server.c) are parameters; a child
  is the same code on a copy of the server.
\<close>

subsection \<open>State\<close>

definition RDB_CHILD_TYPE_NONE :: int where "RDB_CHILD_TYPE_NONE = 0"
definition RDB_CHILD_TYPE_DISK :: int where "RDB_CHILD_TYPE_DISK = 1"
definition RDB_CHILD_TYPE_SOCKET :: int where "RDB_CHILD_TYPE_SOCKET = 2"
definition CHILD_TYPE_NONE :: int where "CHILD_TYPE_NONE = 0"
definition CHILD_TYPE_RDB :: int where "CHILD_TYPE_RDB = 1"
definition SLAVE_STATE_WAIT_BGSAVE_START :: int where "SLAVE_STATE_WAIT_BGSAVE_START = 6"
definition SLAVE_STATE_WAIT_BGSAVE_END :: int where "SLAVE_STATE_WAIT_BGSAVE_END = 7"
definition SIGUSR1 :: int where "SIGUSR1 = 10"

lemmas child_defs = RDB_CHILD_TYPE_NONE_def RDB_CHILD_TYPE_DISK_def RDB_CHILD_TYPE_SOCKET_def CHILD_TYPE_NONE_def
  CHILD_TYPE_RDB_def SLAVE_STATE_WAIT_BGSAVE_START_def SLAVE_STATE_WAIT_BGSAVE_END_def

text \<open>Calls to other modules.\<close>

datatype io_event =
    ModuleEvent string | Kill int int | UpdateSlavesWaitingBgsave cstatus int
  | SetupSlaveForFullResync nat | CreateFileEvent int | DeleteFileEvent int | JemallocPurge
  | BlockingOperationStarts | BlockingOperationEnds | ReclaimFileCache

record replica =
  replstate :: int
  slave_req :: int
  conn :: nat

record persistence =
  srv :: server
  files :: "sds \<Rightarrow> sds option"
  rdb_filename :: sds
  saveparamslen :: nat
  dirty_before_bgsave :: int
  lastsave :: int
  lastbgsave_try :: int
  lastbgsave_status :: cstatus
  stat_rdb_saves :: int
  rdb_save_time_start :: int
  rdb_save_time_last :: int
  rdb_bgsave_scheduled :: bool
  rdb_child_type :: int
  child_type :: int
  child_pid :: int
  in_exec :: bool
  \<comment> \<open>the connections of a transfer and the descriptors it uses\<close>
  rdb_pipe_read :: int
  rdb_child_exit_pipe :: int
  rdb_pipe_conns :: "nat list option"
  rdb_pipe_numconns_writing :: nat
  rdb_pipe_buff :: "sds option"
  open_fds :: "int list"
  slave_list :: "replica list"
  \<comment> \<open>replication\<close>
  slaveseldb :: int
  has_backlog :: bool
  master_db :: "int option"
  cached_master_db :: "int option"
  \<comment> \<open>loading\<close>
  async_loading :: bool
  loading_start_time :: int
  loading_loaded_bytes :: int
  loading_total_bytes :: int
  loading_rdb_used_mem :: int
  rdb_last_load_keys_expired :: nat
  rdb_last_load_keys_loaded :: nat
  rdbFileBeingLoaded :: "sds option"
  io_log :: "io_event list"

definition on_srv :: "(server \<Rightarrow> server) \<Rightarrow> persistence \<Rightarrow> persistence" where
  "on_srv f p = p\<lparr>srv := f (srv p)\<rparr>"

definition log_io :: "io_event \<Rightarrow> persistence \<Rightarrow> persistence" where
  "log_io e p = p\<lparr>io_log := io_log p @ [e]\<rparr>"

text \<open>
  What the system calls of one save return: the stream of the file opened, the results of \<open>fflush\<close>,
  \<open>fsync\<close>, \<open>fclose\<close>, \<open>rename\<close> and \<open>fsyncFileDir\<close>, the time, and the process the code runs in.
\<close>

record 'r save_io =
  opened :: "'r option"
  fflush_ok :: bool
  fsync_ok :: bool
  fclose_ok :: bool
  rename_ok :: bool
  dir_fsync_ok :: bool
  time_is :: int
  getpid :: int
  in_child :: bool

subsection \<open>Saving to a file\<close>

definition startSaving :: "bool \<Rightarrow> bool \<Rightarrow> persistence \<Rightarrow> persistence" where
  "startSaving preamble child =
     log_io (ModuleEvent (if preamble \<and> child then ''PERSISTENCE_AOF_START''
                        else if preamble then ''PERSISTENCE_SYNC_AOF_START''
                        else if child then ''PERSISTENCE_RDB_START'' else ''PERSISTENCE_SYNC_RDB_START''))"

definition stopSaving :: "bool \<Rightarrow> persistence \<Rightarrow> persistence" where
  "stopSaving success = log_io (ModuleEvent (if success then ''PERSISTENCE_ENDED'' else ''PERSISTENCE_FAILED''))"

text \<open>The file is what was written to its stream; on an error it is closed and removed.\<close>

definition rdbSaveInternal ::
  "'r rdb_env \<Rightarrow> ('r \<Rightarrow> sds) \<Rightarrow> 'r save_io \<Rightarrow> save_request \<Rightarrow> sds \<Rightarrow> persistence \<Rightarrow> (cstatus \<times> persistence) cres" where
  "rdbSaveInternal E written io req filename p =
     (case opened io of
        None \<Rightarrow> Inr (C_ERR, p)
      | Some r \<Rightarrow>
          cbind (rdbSaveRio E req (srv p) r) (\<lambda>(st, r').
          let werr = (C_ERR, p\<lparr>files := (files p)(filename := None)\<rparr>) in
          if st = C_ERR then Inr werr
          else if \<not> fflush_ok io then Inr werr
          else if \<not> fsync_ok io then Inr werr
          else if \<not> fclose_ok io then Inr werr
          else Inr (C_OK, p\<lparr>files := (files p)(filename \<mapsto> written r')\<rparr>)))"

definition rdbSaveToFile ::
  "'r rdb_env \<Rightarrow> ('r \<Rightarrow> sds) \<Rightarrow> 'r save_io \<Rightarrow> save_request \<Rightarrow> sds \<Rightarrow> persistence \<Rightarrow> (cstatus \<times> persistence) cres" where
  "rdbSaveToFile E written io req filename p =
     cbind (rdbSaveInternal E written io (req\<lparr>save_info := None\<rparr>) filename (startSaving False (in_child io) p)) (\<lambda>(st, p1).
     Inr (st, stopSaving (st = C_OK) p1))"

definition temp_name :: "strlib \<Rightarrow> int \<Rightarrow> sds" where
  "temp_name L pid = bytes_of ''temp-'' @ ll2string L pid @ bytes_of ''.rdb''"

definition rdbSave ::
  "'r rdb_env \<Rightarrow> ('r \<Rightarrow> sds) \<Rightarrow> 'r save_io \<Rightarrow> save_request \<Rightarrow> sds \<Rightarrow> persistence \<Rightarrow> (cstatus \<times> persistence) cres" where
  "rdbSave E written io req filename p =
     (let tmpfile = temp_name (lib E) (getpid io) in
      cbind (rdbSaveInternal E written io req tmpfile (startSaving False (in_child io) p)) (\<lambda>(st, p1).
      if st \<noteq> C_OK then Inr (C_ERR, stopSaving False p1)
      else if \<not> rename_ok io
      then Inr (C_ERR, stopSaving False (p1\<lparr>files := (files p1)(tmpfile := None)\<rparr>))
      else let p2 = p1\<lparr>files := (files p1)(tmpfile := None, filename := files p1 tmpfile)\<rparr> in
           if \<not> dir_fsync_ok io then Inr (C_ERR, stopSaving False p2)
           else Inr (C_OK, stopSaving True
                  (on_srv (\<lambda>s. s\<lparr>dirty := 0\<rparr>) (p2\<lparr>lastsave := time_is io, lastbgsave_status := C_OK\<rparr>)))))"

definition rdbRemoveTempFile :: "strlib \<Rightarrow> int \<Rightarrow> persistence \<Rightarrow> persistence" where
  "rdbRemoveTempFile L childpid p = p\<lparr>files := (files p)(temp_name L childpid := None)\<rparr>"

text \<open>The replication information of a snapshot, \<open>None\<close> when there is none.\<close>

definition rdbPopulateSaveInfo :: "persistence \<Rightarrow> rdbSaveInfo option" where
  "rdbPopulateSaveInfo p =
     (if \<not> masterhost (srv p) \<and> has_backlog p
      then Some (RDB_SAVE_INFO_INIT\<lparr>repl_stream_db := (if slaveseldb p = - 1 then 0 else slaveseldb p)\<rparr>)
      else case master_db p of
             Some d \<Rightarrow> Some (RDB_SAVE_INFO_INIT\<lparr>repl_stream_db := d\<rparr>)
           | None \<Rightarrow> (case cached_master_db p of
                       Some d \<Rightarrow> Some (RDB_SAVE_INFO_INIT\<lparr>repl_stream_db := d\<rparr>) | None \<Rightarrow> None))"

text \<open>The request of SAVE and BGSAVE: everything, without the AOF preamble flag.\<close>

definition save_all_request :: "persistence \<Rightarrow> save_request" where
  "save_all_request p =
     \<lparr>exclude_data = False, exclude_functions = False, aof_preamble_flag = False, save_info = rdbPopulateSaveInfo p\<rparr>"

subsection \<open>Children\<close>

text \<open>
  \<open>fork t\<close> is the parent's state after \<open>redisFork\<close> for a child of type \<open>t\<close>, \<open>None\<close> when it failed. The
  code of a disk child is \<open>rdbSave\<close> and its exit code.
\<close>

type_synonym forker = "int \<Rightarrow> persistence \<Rightarrow> persistence option"

definition rdbSaveBackground :: "forker \<Rightarrow> int \<Rightarrow> persistence \<Rightarrow> cstatus \<times> persistence" where
  "rdbSaveBackground fork now p =
     (if active_child (srv p) then (C_ERR, p)
      else let p1 = p\<lparr>stat_rdb_saves := stat_rdb_saves p + 1, dirty_before_bgsave := dirty (srv p), lastbgsave_try := now\<rparr> in
           case fork CHILD_TYPE_RDB p1 of
             None \<Rightarrow> (C_ERR, p1\<lparr>lastbgsave_status := C_ERR\<rparr>)
           | Some p2 \<Rightarrow> (C_OK, p2\<lparr>rdb_save_time_start := now, rdb_child_type := RDB_CHILD_TYPE_DISK\<rparr>))"

definition bgsave_child ::
  "'r rdb_env \<Rightarrow> ('r \<Rightarrow> sds) \<Rightarrow> 'r save_io \<Rightarrow> save_request \<Rightarrow> sds \<Rightarrow> persistence \<Rightarrow> (int \<times> persistence) cres" where
  "bgsave_child E written io req filename p =
     cbind (rdbSave E written (io\<lparr>in_child := True\<rparr>) req filename p) (\<lambda>(retval, p').
     Inr (if retval = C_OK then 0 else 1, p'))"

definition backgroundSaveDoneHandlerDisk :: "strlib \<Rightarrow> int \<Rightarrow> int \<Rightarrow> int \<Rightarrow> persistence \<Rightarrow> persistence" where
  "backgroundSaveDoneHandlerDisk L now exitcode bysignal p =
     (if bysignal = 0 \<and> exitcode = 0
      then (on_srv (\<lambda>s. s\<lparr>dirty := dirty s - dirty_before_bgsave p\<rparr>) p)\<lparr>lastsave := now, lastbgsave_status := C_OK\<rparr>
      else if bysignal = 0 \<and> exitcode \<noteq> 0 then p\<lparr>lastbgsave_status := C_ERR\<rparr>
      else let p1 = rdbRemoveTempFile L (child_pid p) p in
           if bysignal \<noteq> SIGUSR1 then p1\<lparr>lastbgsave_status := C_ERR\<rparr> else p1)"

definition close_fd :: "int \<Rightarrow> persistence \<Rightarrow> persistence" where
  "close_fd fd p = p\<lparr>open_fds := remove1 fd (open_fds p)\<rparr>"

definition backgroundSaveDoneHandlerSocket :: "int \<Rightarrow> int \<Rightarrow> persistence \<Rightarrow> persistence" where
  "backgroundSaveDoneHandlerSocket exitcode bysignal p =
     (let p1 = (if rdb_child_exit_pipe p \<noteq> - 1 then close_fd (rdb_child_exit_pipe p) p else p);
          p2 = close_fd (rdb_pipe_read p1) (log_io (DeleteFileEvent (rdb_pipe_read p1)) p1)
      in p2\<lparr>rdb_child_exit_pipe := - 1, rdb_pipe_read := - 1, rdb_pipe_conns := None,
            rdb_pipe_numconns_writing := 0, rdb_pipe_buff := None\<rparr>)"

definition backgroundSaveDoneHandler :: "strlib \<Rightarrow> int \<Rightarrow> int \<Rightarrow> int \<Rightarrow> persistence \<Rightarrow> persistence cres" where
  "backgroundSaveDoneHandler L now exitcode bysignal p =
     (let type = rdb_child_type p in
      cbind (if type = RDB_CHILD_TYPE_DISK then Inr (backgroundSaveDoneHandlerDisk L now exitcode bysignal p)
             else if type = RDB_CHILD_TYPE_SOCKET then Inr (backgroundSaveDoneHandlerSocket exitcode bysignal p)
             else Inl Panicked) (\<lambda>p1.
      Inr (log_io (UpdateSlavesWaitingBgsave (if bysignal = 0 \<and> exitcode = 0 then C_OK else C_ERR) type)
             (p1\<lparr>rdb_child_type := RDB_CHILD_TYPE_NONE, rdb_save_time_last := now - rdb_save_time_start p1,
                 rdb_save_time_start := - 1\<rparr>))))"

definition killRDBChild :: "persistence \<Rightarrow> persistence" where
  "killRDBChild p = log_io (Kill (child_pid p) SIGUSR1) p"

text \<open>
  The transfer to replicas. \<open>pipe1\<close> and \<open>pipe2\<close> are the results of the two calls to \<open>anetPipe\<close> (read end, write
  end). In the parent: the replicas that wait with this request are set up and their connections collected.
\<close>

definition set_up_replicas :: "int \<Rightarrow> persistence \<Rightarrow> persistence" where
  "set_up_replicas req p =
     (let chosen = (\<lambda>r. replstate r = SLAVE_STATE_WAIT_BGSAVE_START \<and> slave_req r = req) in
      fold (\<lambda>r. log_io (SetupSlaveForFullResync (conn r))) (filter chosen (slave_list p))
        (p\<lparr>rdb_pipe_conns := Some (map conn (filter chosen (slave_list p))), rdb_pipe_numconns_writing := 0,
           slave_list := map (\<lambda>r. if chosen r then r\<lparr>replstate := SLAVE_STATE_WAIT_BGSAVE_END\<rparr> else r) (slave_list p)\<rparr>))"

definition undo_replicas :: "persistence \<Rightarrow> persistence" where
  "undo_replicas p =
     p\<lparr>slave_list := map (\<lambda>r. if replstate r = SLAVE_STATE_WAIT_BGSAVE_END
                              then r\<lparr>replstate := SLAVE_STATE_WAIT_BGSAVE_START\<rparr> else r) (slave_list p)\<rparr>"

definition rdbSaveToSlavesSockets ::
  "forker \<Rightarrow> (int \<times> int) option \<Rightarrow> (int \<times> int) option \<Rightarrow> int \<Rightarrow> int \<Rightarrow> persistence \<Rightarrow> cstatus \<times> persistence" where
  "rdbSaveToSlavesSockets fork pipe1 pipe2 now req p =
     (if active_child (srv p) then (C_ERR, p)
      else if rdb_pipe_conns p \<noteq> None then (C_ERR, p)
      else case pipe1 of
        None \<Rightarrow> (C_ERR, p)
      | Some (rd1, wr1) \<Rightarrow>
          let p1 = p\<lparr>rdb_pipe_read := rd1, open_fds := [rd1, wr1] @ open_fds p\<rparr> in
          (case pipe2 of
             None \<Rightarrow> (C_ERR, close_fd (rdb_pipe_read p1) (close_fd wr1 p1))
           | Some (rd2, wr2) \<Rightarrow>
               let p2 = set_up_replicas req (p1\<lparr>rdb_child_exit_pipe := wr2, open_fds := [rd2, wr2] @ open_fds p1\<rparr>) in
               (case fork CHILD_TYPE_RDB p2 of
                  None \<Rightarrow>
                    let p3 = close_fd (rdb_pipe_read p2) (close_fd wr1 (undo_replicas p2)) in
                    (C_ERR, close_fd rd2 (p3\<lparr>rdb_pipe_conns := None, rdb_pipe_numconns_writing := 0\<rparr>))
                | Some p3 \<Rightarrow>
                    let p4 = close_fd wr1 (p3\<lparr>rdb_save_time_start := now, rdb_child_type := RDB_CHILD_TYPE_SOCKET\<rparr>) in
                    (C_OK, close_fd rd2 (log_io (CreateFileEvent (rdb_pipe_read p4)) p4)))))"

subsection \<open>Commands\<close>

definition p_reply :: "reply \<Rightarrow> persistence \<Rightarrow> persistence" where
  "p_reply r = on_srv (emit (Reply r))"

definition saveCommand :: "'r rdb_env \<Rightarrow> ('r \<Rightarrow> sds) \<Rightarrow> 'r save_io \<Rightarrow> persistence \<Rightarrow> persistence cres" where
  "saveCommand E written io p =
     (if child_type p = CHILD_TYPE_RDB then Inr (p_reply (ReplyError ''Background save already in progress'') p)
      else let p1 = p\<lparr>stat_rdb_saves := stat_rdb_saves p + 1\<rparr> in
           cbind (rdbSave E written io (save_all_request p1) (rdb_filename p1) p1) (\<lambda>(st, p2).
           Inr (p_reply (if st = C_OK then ReplyOk else ReplyError ''err'') p2)))"

definition bgsave_now :: "forker \<Rightarrow> int \<Rightarrow> bool \<Rightarrow> persistence \<Rightarrow> persistence" where
  "bgsave_now fork now schedule p =
     (if child_type p = CHILD_TYPE_RDB then p_reply (ReplyError ''Background save already in progress'') p
      else if active_child (srv p) \<or> in_exec p
      then (if schedule \<or> in_exec p
            then p_reply (ReplyStatus ''Background saving scheduled'') (p\<lparr>rdb_bgsave_scheduled := True\<rparr>)
            else p_reply (ReplyError ''Another child process is active (AOF?): can't BGSAVE right now.'') p)
      else (case rdbSaveBackground fork now p of
              (C_OK, p1) \<Rightarrow> p_reply (ReplyStatus ''Background saving started'') p1
            | (C_ERR, p1) \<Rightarrow> p_reply (ReplyError ''err'') p1))"

definition bgsaveCommand :: "forker \<Rightarrow> int \<Rightarrow> client \<Rightarrow> persistence \<Rightarrow> persistence" where
  "bgsaveCommand fork now c p =
     (if 1 < length (c_argv c) \<and> \<not> (length (c_argv c) = 2 \<and> arg_is (c_argv c ! 1) ''schedule'')
      then p_reply (ReplyError ''syntax error'') p
      else bgsave_now fork now (1 < length (c_argv c)) p)"

definition lastsaveCommand :: "persistence \<Rightarrow> persistence" where
  "lastsaveCommand p = p_reply (ReplyInt (lastsave p)) p"

text \<open>The purge of the allocator is recorded as an event; it exists when the server is built with jemalloc.\<close>

definition flushAllDataAndResetRDB ::
  "'r rdb_env \<Rightarrow> ('r \<Rightarrow> sds) \<Rightarrow> 'r save_io \<Rightarrow> int \<Rightarrow> persistence \<Rightarrow> persistence cres" where
  "flushAllDataAndResetRDB E written io flags p =
     cbind (emptyData (- 1) flags (srv p)) (\<lambda>(n, s).
     let p1 = p\<lparr>srv := s\<lparr>dirty := dirty s + n\<rparr>\<rparr>;
         p2 = (if child_type p1 = CHILD_TYPE_RDB then killRDBChild p1 else p1) in
     cbind (if 0 < saveparamslen p2
            then cbind (rdbSave E written io (save_all_request p2) (rdb_filename p2) p2) (\<lambda>(_, p3). Inr p3)
            else Inr p2) (\<lambda>p3.
     Inr (if flag_set flags EMPTYDB_ASYNC then p3 else log_io JemallocPurge p3)))"

definition flushallCommand ::
  "'r rdb_env \<Rightarrow> ('r \<Rightarrow> sds) \<Rightarrow> 'r save_io \<Rightarrow> client \<Rightarrow> persistence \<Rightarrow> persistence cres" where
  "flushallCommand E written io c p =
     (case getFlushCommandFlags c (srv p) of
        (None, s1) \<Rightarrow> Inr (p\<lparr>srv := s1\<rparr>)
      | (Some flags, s1) \<Rightarrow>
          cbind (flushAllDataAndResetRDB E written io (flags OR EMPTYDB_NOFUNCTIONS) (p\<lparr>srv := s1\<rparr>)) (\<lambda>p1.
          Inr (p_reply ReplyOk (on_srv (emit ForcePropagation) p1))))"

subsection \<open>Loading a file\<close>

definition startLoading :: "int \<Rightarrow> int \<Rightarrow> bool \<Rightarrow> bool \<Rightarrow> bool \<Rightarrow> persistence \<Rightarrow> persistence" where
  "startLoading now nbytes preamble replication async p =
     log_io (ModuleEvent (if preamble then ''LOADING_AOF_START'' else if replication then ''LOADING_REPL_START''
                        else ''LOADING_RDB_START''))
       (log_io BlockingOperationStarts
         ((on_srv (\<lambda>s. s\<lparr>loading := True\<rparr>) p)\<lparr>async_loading := async_loading p \<or> async, loading_start_time := now,
            loading_loaded_bytes := 0, loading_total_bytes := nbytes, loading_rdb_used_mem := 0,
            rdb_last_load_keys_expired := 0, rdb_last_load_keys_loaded := 0\<rparr>))"

definition startLoadingFile :: "int \<Rightarrow> int \<Rightarrow> sds \<Rightarrow> bool \<Rightarrow> bool \<Rightarrow> persistence \<Rightarrow> persistence" where
  "startLoadingFile now nbytes filename preamble replication p =
     startLoading now nbytes preamble replication False (p\<lparr>rdbFileBeingLoaded := Some filename\<rparr>)"

definition stopLoading :: "bool \<Rightarrow> persistence \<Rightarrow> persistence" where
  "stopLoading success p =
     log_io (ModuleEvent (if success then ''LOADING_ENDED'' else ''LOADING_FAILED''))
       ((log_io BlockingOperationEnds ((on_srv (\<lambda>s. s\<lparr>loading := False\<rparr>) p)\<lparr>async_loading := False\<rparr>))\<lparr>rdbFileBeingLoaded := None\<rparr>)"

datatype rdb_result = RDB_OK | RDB_NOT_EXIST | RDB_FAILED

text \<open>
  \<open>fopen_fails\<close>: the file exists but cannot be opened; \<open>stream_of\<close>: a stream that reads the bytes of a file;
  \<open>fstat_size\<close>: its size, \<open>None\<close> when \<open>fstat\<close> fails. Where the loop calls \<open>exit(1)\<close> (a database that does
  not exist, a pre-GA function) the process ends: neither function returns.
\<close>

definition rdbLoadRio ::
  "'r rdb_env \<Rightarrow> rdbSaveInfo option \<Rightarrow> nat \<Rightarrow> 'r \<Rightarrow> persistence \<Rightarrow> (cstatus \<times> rdbSaveInfo option \<times> persistence) cres" where
  "rdbLoadRio E rsi fuel r p =
     cbind (rdbLoadRioWithLoadingCtx E rsi fuel (r, srv p)) (\<lambda>(res, ld, (_, s)).
     if res = ServerExit then Inl Exited
     else Inr (if res = LoadOk then C_OK else C_ERR, ld_rsi ld,
          p\<lparr>srv := s, rdb_last_load_keys_loaded := rdb_last_load_keys_loaded p + ld_keys_loaded ld,
            rdb_last_load_keys_expired := rdb_last_load_keys_expired p + ld_keys_expired ld,
            loading_rdb_used_mem := ld_used_mem ld\<rparr>))"

definition rdbLoad ::
  "'r rdb_env \<Rightarrow> (sds \<Rightarrow> 'r) \<Rightarrow> bool \<Rightarrow> int option \<Rightarrow> int \<Rightarrow> nat \<Rightarrow> sds \<Rightarrow> rdbSaveInfo option \<Rightarrow> bool \<Rightarrow> persistence
     \<Rightarrow> (rdb_result \<times> rdbSaveInfo option \<times> persistence) cres" where
  "rdbLoad E stream_of fopen_fails fstat_size now fuel filename rsi keep_cache p =
     (case files p filename of
        None \<Rightarrow> Inr (RDB_NOT_EXIST, rsi, p)
      | Some bytes \<Rightarrow>
          if fopen_fails then Inr (RDB_FAILED, rsi, p)
          else let p1 = startLoadingFile now (case fstat_size of None \<Rightarrow> 0 | Some n \<Rightarrow> n) filename False False p in
               cbind (rdbLoadRio E rsi fuel (stream_of bytes) p1) (\<lambda>(retval, rsi', p2).
               let p3 = stopLoading (retval = C_OK) p2;
                   p4 = (if retval = C_OK \<and> \<not> keep_cache then log_io ReclaimFileCache p3 else p3)
               in Inr (if retval = C_OK then RDB_OK else RDB_FAILED, rsi', p4)))"

definition loadingAbsProgress :: "int \<Rightarrow> persistence \<Rightarrow> persistence" where
  "loadingAbsProgress pos p = p\<lparr>loading_loaded_bytes := pos\<rparr>"

definition loadingIncrProgress :: "int \<Rightarrow> persistence \<Rightarrow> persistence" where
  "loadingIncrProgress n p = p\<lparr>loading_loaded_bytes := loading_loaded_bytes p + n\<rparr>"

definition updateLoadingFileName :: "sds \<Rightarrow> persistence \<Rightarrow> persistence" where
  "updateLoadingFileName filename p = p\<lparr>rdbFileBeingLoaded := Some filename\<rparr>"

end
