(* ===== verification/Rdb_Persist.thy ===== *)
theory Rdb_Persist
  imports Rdb_Background
begin

section \<open>What saving guarantees (rdb.c)\<close>

text \<open>
  The dump file is replaced as a whole or not at all, whatever system call fails; a saved file loads back as
  the data set it was saved from; and over every sequence of writes, saves and children the counter of
  unsaved changes covers what a crash would lose.
\<close>

subsection \<open>One save\<close>

lemma note_fields [simp]:
  "srv (log_io e p) = srv p" "files (log_io e p) = files p" "rdb_filename (log_io e p) = rdb_filename p"
  "lastsave (log_io e p) = lastsave p" "lastbgsave_status (log_io e p) = lastbgsave_status p"
  by (simp_all add: log_io_def)

lemma saving_fields [simp]:
  "srv (startSaving a b p) = srv p" "files (startSaving a b p) = files p"
  "srv (stopSaving c p) = srv p" "files (stopSaving c p) = files p"
  "lastsave (startSaving a b p) = lastsave p" "lastsave (stopSaving c p) = lastsave p"
  "lastbgsave_status (startSaving a b p) = lastbgsave_status p" "lastbgsave_status (stopSaving c p) = lastbgsave_status p"
  by (simp_all add: startSaving_def stopSaving_def)

text \<open>The bytes of a file written, flushed and closed without an error.\<close>

definition whole_file :: "'r rdb_env \<Rightarrow> ('r \<Rightarrow> sds) \<Rightarrow> 'r save_io \<Rightarrow> save_request \<Rightarrow> server \<Rightarrow> sds \<Rightarrow> bool" where
  "whole_file E written io req s bs \<longleftrightarrow> (\<exists>r r'. opened io = Some r \<and> rdbSaveRio E req s r = Inr (C_OK, r') \<and> bs = written r')"

lemma rdbSaveInternal_ok:
  assumes "rdbSaveInternal E written io req f p = Inr (st, p')"
  shows "(st = C_OK \<longrightarrow> (\<exists>bs. whole_file E written io req (srv p) bs \<and> p' = p\<lparr>files := (files p)(f \<mapsto> bs)\<rparr>))
    \<and> (st = C_ERR \<longrightarrow> p' = p\<lparr>files := (files p)(f := None)\<rparr> \<or> opened io = None \<and> p' = p)"
proof (cases "opened io")
  case (Some r)
  obtain x where x: "rdbSaveRio E req (srv p) r = Inr x"
    using assms Some by (cases "rdbSaveRio E req (srv p) r") (auto simp: rdbSaveInternal_def)
  obtain st' r' where "x = (st', r')" by (cases x)
  with x Some assms show ?thesis
    by (cases st') (auto simp: rdbSaveInternal_def whole_file_def Let_def split: if_splits)
qed (use assms in \<open>simp add: rdbSaveInternal_def\<close>)

lemma rdbSave_cases:
  assumes "rdbSave E written io req filename p = Inr (st, p')" "filename \<noteq> temp_name (lib E) (getpid io)"
  shows "(st = C_OK \<and> dir_fsync_ok io \<and> (\<exists>bs. whole_file E written io req (srv p) bs
        \<and> files p' = (files p)(temp_name (lib E) (getpid io) := None, filename \<mapsto> bs)
        \<and> srv p' = (srv p)\<lparr>dirty := 0\<rparr> \<and> lastsave p' = time_is io \<and> lastbgsave_status p' = C_OK))
    \<or> (st = C_ERR \<and> \<not> dir_fsync_ok io \<and> (\<exists>bs. whole_file E written io req (srv p) bs
        \<and> files p' = (files p)(temp_name (lib E) (getpid io) := None, filename \<mapsto> bs))
        \<and> srv p' = srv p \<and> lastsave p' = lastsave p \<and> lastbgsave_status p' = lastbgsave_status p)
    \<or> (st = C_ERR \<and> (files p' = (files p)(temp_name (lib E) (getpid io) := None) \<or> opened io = None \<and> files p' = files p)
        \<and> srv p' = srv p \<and> lastsave p' = lastsave p \<and> lastbgsave_status p' = lastbgsave_status p)"
proof -
  let ?tmp = "temp_name (lib E) (getpid io)" and ?p0 = "startSaving False (in_child io) p"
  obtain st1 p1 where i: "rdbSaveInternal E written io req ?tmp ?p0 = Inr (st1, p1)"
    using assms(1) by (cases "rdbSaveInternal E written io req ?tmp ?p0") (auto simp: rdbSave_def Let_def)
  note c = rdbSaveInternal_ok [OF i]
  show ?thesis
  proof (cases st1)
    case C_ERR
    then have "st = C_ERR" "p' = stopSaving False p1" using assms(1) i by (auto simp: rdbSave_def Let_def)
    moreover have "p1 = ?p0\<lparr>files := (files ?p0)(?tmp := None)\<rparr> \<or> opened io = None \<and> p1 = ?p0" using c C_ERR by simp
    ultimately show ?thesis by (elim disjE) simp_all
  next
    case C_OK
    then obtain bs where bs: "whole_file E written io req (srv ?p0) bs" "p1 = ?p0\<lparr>files := (files ?p0)(?tmp \<mapsto> bs)\<rparr>"
      using c by auto
    show ?thesis
    proof (cases "rename_ok io")
      case False
      then have "st = C_ERR" "p' = stopSaving False (p1\<lparr>files := (files p1)(?tmp := None)\<rparr>)"
        using assms(1) i C_OK by (auto simp: rdbSave_def Let_def)
      with bs show ?thesis by simp
    next
      case True
      let ?p2 = "p1\<lparr>files := (files p1)(?tmp := None, filename := files p1 ?tmp)\<rparr>"
      have f: "files ?p2 = (files p)(?tmp := None, filename \<mapsto> bs)" using bs(2) by simp
      show ?thesis
      proof (cases "dir_fsync_ok io")
        case False
        then have "st = C_ERR" "p' = stopSaving False ?p2"
          using assms(1) i C_OK True by (auto simp: rdbSave_def Let_def)
        with f bs False show ?thesis by - (rule disjI2, rule disjI1, auto)
      next
        case ok: True
        then have "st = C_OK" "p' = stopSaving True (on_srv (\<lambda>s. s\<lparr>dirty := 0\<rparr>) (?p2\<lparr>lastsave := time_is io, lastbgsave_status := C_OK\<rparr>))"
          using assms(1) i C_OK True by (auto simp: rdbSave_def Let_def)
        with f bs ok show ?thesis by - (rule disjI1, auto simp: on_srv_def)
      qed
    qed
  qed
qed

text \<open>
  C8: Saving replaces the dump file as a whole or leaves it: afterwards its contents are those of a file written
  to the end, or what they were. C_OK is returned only after the new file is in place, and then the counter
  of unsaved changes is zero; on C_ERR the data set, that counter and the time of the last save stay as
  they were. No other file is touched but the temporary one, which does not stay behind, unless it
  could not even be opened.
\<close>

theorem rdbSave_atomic:
  assumes "rdbSave E written io req filename p = Inr (st, p')" "filename \<noteq> temp_name (lib E) (getpid io)"
  shows "(files p' filename = files p filename
        \<or> (\<exists>r r'. opened io = Some r \<and> rdbSaveRio E req (srv p) r = Inr (C_OK, r') \<and> files p' filename = Some (written r')))
    \<and> (st = C_OK \<longrightarrow> (\<exists>r r'. opened io = Some r \<and> rdbSaveRio E req (srv p) r = Inr (C_OK, r')
          \<and> files p' filename = Some (written r')) \<and> srv p' = (srv p)\<lparr>dirty := 0\<rparr> \<and> lastsave p' = time_is io)
    \<and> (st = C_ERR \<longrightarrow> srv p' = srv p \<and> lastsave p' = lastsave p)
    \<and> (\<forall>f. f \<noteq> filename \<and> f \<noteq> temp_name (lib E) (getpid io) \<longrightarrow> files p' f = files p f)
    \<and> (opened io \<noteq> None \<longrightarrow> files p' (temp_name (lib E) (getpid io)) = None)"
  using rdbSave_cases [OF assms] assms(2) unfolding whole_file_def by auto

subsection \<open>A saved file loads back\<close>

lemma can_load_loading: "can_load E idle (s\<lparr>loading := l\<rparr>) = can_load E idle s"
  by (simp add: can_load_def load_inv_def shared_ok_def fresh_ok_def mem_typed_def spare_history_def room_def may_share_def)

lemma view_loading: "view L (s\<lparr>loading := l\<rparr>) i k = view L s i k"
  by (simp add: view_def dbnum_def cong: option.case_cong if_cong)

text \<open>
  The checksum of a stream (\<open>rioGenericUpdateChecksum\<close>, a callback that every read and write of a rio with
  checksums calls): a function \<open>crc\<close> of the bytes written to and read from it. A stream that only reads or only
  writes is recognised by its bytes: \<open>tagged\<close> marks the output of a stream that was read from, \<open>aligned\<close> gives
  the rest of an input that started as \<open>F\<close>; both satisfy the laws of \<open>rio_spec\<close> again, so that what is proved
  of every stream holds of them.
\<close>

locale rio_crc = rio_spec wr rd written unread
  for wr :: "'r writer" and rd :: "'r reader" and written unread :: "'r \<Rightarrow> sds" +
  fixes seen :: "'r \<Rightarrow> sds" and crc :: "sds \<Rightarrow> u64" and cksum :: "'r \<Rightarrow> u64"
  assumes write_seen: "wr bs r = (ok, r') \<Longrightarrow> seen r' = seen r"
    and read_seen: "rd n r = (Some bs, r') \<Longrightarrow> written r' = written r \<and> seen r' = seen r @ bs"
    and cksum_crc: "cksum r = crc (written r @ seen r)"

definition tagged :: "('r \<Rightarrow> sds) \<Rightarrow> ('r \<Rightarrow> sds) \<Rightarrow> 'r \<Rightarrow> sds" where
  "tagged written seen r = (if seen r = [] then 0 else 1) # written r"

definition aligned :: "('r \<Rightarrow> sds) \<Rightarrow> ('r \<Rightarrow> sds) \<Rightarrow> ('r \<Rightarrow> sds) \<Rightarrow> sds \<Rightarrow> 'r \<Rightarrow> sds" where
  "aligned written seen unread F r = (if written r = [] \<and> seen r @ unread r = F then unread r else [])"

context rio_crc
begin

lemma read_aligned:
  assumes "n \<le> length (aligned written seen unread F r)"
  shows "fst (rd n r) = Some (take n (aligned written seen unread F r))
       \<and> aligned written seen unread F (snd (rd n r)) = drop n (aligned written seen unread F r)"
proof (cases "written r = [] \<and> seen r @ unread r = F")
  case True
  then have "n \<le> length (unread r)" using assms by (simp add: aligned_def)
  from read_next [OF this] True read_seen [of n r "take n (unread r)" "snd (rd n r)"] show ?thesis
    by (cases "rd n r") (auto simp: aligned_def)
next
  case False
  then have n: "n = 0" using assms by (auto simp: aligned_def split: if_splits)
  have "fst (rd 0 r) = Some []" "unread (snd (rd 0 r)) = unread r" using read_next [of 0 r] by simp_all
  with False n read_seen [of 0 r "[]" "snd (rd 0 r)"] show ?thesis
    by (cases "rd 0 r") (auto simp: aligned_def)
qed

lemma one_way: "rio_spec wr rd (tagged written seen) (aligned written seen unread F)"
proof
  show "wr bs r = (True, r') \<Longrightarrow> tagged written seen r' = tagged written seen r @ bs" for bs r r'
    using write_appends write_seen by (auto simp: tagged_def)
qed (use read_aligned read_length in blast)+

end

text \<open>A stream that was saved completely, and another one that holds its bytes and the checksum.\<close>

lemma saved_stream:
  assumes spec: "rio_spec (wr_of E) (rd_of E) W U" "rdb_h_spec (fmt E)" "strlib_spec (lib E)"
      "lzf_spec (lzf_of E)" "rdb_ops_spec (ops E)"
    and E: "no_auxiliary E"
    and s: "\<forall>i < dbnum s. saveable (lib E) s i" "dbnum s < 2 ^ 63"
    and req: "\<not> exclude_data req" "\<forall>i. save_info req = Some i \<longrightarrow> in_ll (repl_stream_db i)"
    and t: "can_load E (flag_set (maxmemory_policy s) MAXMEMORY_FLAG_LRU) t" "dbnum t = dbnum s"
      "\<forall>i < dbnum t. \<forall>k. view (lib E) t i k = None"
    and save: "rdbSaveRio E req s r = Inr (C_OK, r')"
  shows "\<exists>bs r1. W r1 = W r @ bs \<and> W r' = W r @ bs @ le_bytes 8 (cksum_of E r1)
    \<and> (\<forall>q. U q = bs @ le_bytes 8 (cksum_of E r1) \<and> 8 + turns s [0..<dbnum s] < fuel \<longrightarrow>
         (\<exists>ld q1 q' u. rdbLoadRioWithLoadingCtx E rsi fuel (q, t) =
              Inr (if check_cksum E \<and> cksum_of E r1 \<noteq> 0 \<and> cksum_of E r1 \<noteq> cksum_of E q1 then LoadErr else LoadOk, ld, (q', u))
            \<and> U q1 = le_bytes 8 (cksum_of E r1) \<and> (\<forall>i < dbnum s. view (lib E) u i = snapshot E (mstime t) s i)))"
proof -
  obtain bs where w: "\<forall>r. \<exists>st r'. rdbSaveRio E req s r = Inr (st, r')
           \<and> (st = C_ERR \<longrightarrow> (\<exists>bs r. \<not> fst (wr_of E bs r)))
           \<and> (st = C_OK \<longrightarrow> (\<exists>r1. W r1 = W r @ bs \<and> W r' = W r @ bs @ le_bytes 8 (cksum_of E r1)))"
    and l: "\<forall>r ck rest fuel. U r = bs @ ck @ rest \<and> length ck = 8 \<and> 8 + turns s [0..<dbnum s] < fuel \<longrightarrow>
         (\<exists>ld r1 r' u. rdbLoadRioWithLoadingCtx E rsi fuel (r, t) =
              Inr (if check_cksum E \<and> of_le ck \<noteq> 0 \<and> of_le ck \<noteq> cksum_of E r1 then LoadErr else LoadOk, ld, (r', u))
            \<and> U r1 = ck @ rest \<and> U r' = rest
            \<and> (\<forall>i < dbnum s. view (lib E) u i = snapshot E (mstime t) s i))"
    using rdb_snapshot_ok [OF spec E s req t, of rsi] by (elim exE conjE) (rule that)
  obtain r1 where r1: "W r1 = W r @ bs" "W r' = W r @ bs @ le_bytes 8 (cksum_of E r1)"
    using w [rule_format, of r] save by auto
  let ?ck = "le_bytes 8 (cksum_of E r1)"
  have ck: "of_le ?ck = cksum_of E r1" by (simp add: of_le_bytes take_bit_word_eq_self)
  have ck8: "length ?ck = 8" by (rule length_le_bytes)
  have "\<exists>ld q1 q' u. rdbLoadRioWithLoadingCtx E rsi fuel (q, t) =
              Inr (if check_cksum E \<and> cksum_of E r1 \<noteq> 0 \<and> cksum_of E r1 \<noteq> cksum_of E q1 then LoadErr else LoadOk, ld, (q', u))
            \<and> U q1 = ?ck \<and> (\<forall>i < dbnum s. view (lib E) u i = snapshot E (mstime t) s i)"
    if "U q = bs @ ?ck" "8 + turns s [0..<dbnum s] < fuel" for q
  proof -
    have "U q = bs @ ?ck @ [] \<and> length ?ck = 8 \<and> 8 + turns s [0..<dbnum s] < fuel" using that ck8 by simp
    from l [rule_format, OF this] show ?thesis unfolding ck by (elim exE conjE) (intro exI conjI; simp)
  qed
  with r1 show ?thesis by blast
qed

text \<open>
  When checksums are on, those of the writer and the reader agree before the eight bytes of the checksum.
\<close>

lemma saved_stream_loads:
  assumes spec: "rio_spec (wr_of E) (rd_of E) written unread" "rdb_h_spec (fmt E)" "strlib_spec (lib E)"
      "lzf_spec (lzf_of E)" "rdb_ops_spec (ops E)"
    and E: "no_auxiliary E"
    and s: "\<forall>i < dbnum s. saveable (lib E) s i" "dbnum s < 2 ^ 63"
    and req: "\<not> exclude_data req" "\<forall>i. save_info req = Some i \<longrightarrow> in_ll (repl_stream_db i)"
    and t: "can_load E (flag_set (maxmemory_policy s) MAXMEMORY_FLAG_LRU) t" "dbnum t = dbnum s"
      "\<forall>i < dbnum t. \<forall>k. view (lib E) t i k = None"
    and save: "rdbSaveRio E req s r = Inr (C_OK, r')" "written r = []"
    and q: "unread q = written r'"
    and ck: "\<not> check_cksum E \<or> (\<forall>r. cksum_of E r = 0)
      \<or> rio_crc (wr_of E) (rd_of E) written unread seen crc (cksum_of E) \<and> seen r = [] \<and> written q = [] \<and> seen q = []"
    and fuel: "8 + turns s [0..<dbnum s] < fuel"
  shows "\<exists>ld q' u. rdbLoadRioWithLoadingCtx E rsi fuel (q, t) = Inr (LoadOk, ld, (q', u))
            \<and> (\<forall>i < dbnum s. view (lib E) u i = snapshot E (mstime t) s i)"
proof (cases "\<not> check_cksum E \<or> (\<forall>r. cksum_of E r = 0)")
  case True
  obtain bs r1 where "written r' = bs @ le_bytes 8 (cksum_of E r1)"
    and l: "\<forall>q. unread q = bs @ le_bytes 8 (cksum_of E r1) \<and> 8 + turns s [0..<dbnum s] < fuel \<longrightarrow>
         (\<exists>ld q1 q' u. rdbLoadRioWithLoadingCtx E rsi fuel (q, t) =
              Inr (if check_cksum E \<and> cksum_of E r1 \<noteq> 0 \<and> cksum_of E r1 \<noteq> cksum_of E q1 then LoadErr else LoadOk, ld, (q', u))
            \<and> unread q1 = le_bytes 8 (cksum_of E r1) \<and> (\<forall>i < dbnum s. view (lib E) u i = snapshot E (mstime t) s i))"
    using saved_stream [OF spec E s req t save(1), of fuel rsi] save(2) by auto
  then show ?thesis using l [rule_format, of q] q fuel True by auto
next
  case False
  then have crc_ok: "rio_crc (wr_of E) (rd_of E) written unread seen crc (cksum_of E)"
    and io: "seen r = []" "written q = []" "seen q = []"
    using ck by blast+
  let ?W = "tagged written seen" and ?U = "aligned written seen unread (written r')"
  note spec' = rio_crc.one_way [OF crc_ok, of "written r'"] spec(2-5)
  obtain bs r1 where b: "?W r1 = ?W r @ bs" "?W r' = ?W r @ bs @ le_bytes 8 (cksum_of E r1)"
    and l: "\<forall>q. ?U q = bs @ le_bytes 8 (cksum_of E r1) \<and> 8 + turns s [0..<dbnum s] < fuel \<longrightarrow>
         (\<exists>ld q1 q' u. rdbLoadRioWithLoadingCtx E rsi fuel (q, t) =
              Inr (if check_cksum E \<and> cksum_of E r1 \<noteq> 0 \<and> cksum_of E r1 \<noteq> cksum_of E q1 then LoadErr else LoadOk, ld, (q', u))
            \<and> ?U q1 = le_bytes 8 (cksum_of E r1) \<and> (\<forall>i < dbnum s. view (lib E) u i = snapshot E (mstime t) s i))"
    using saved_stream [OF spec' E s req t save(1), of fuel rsi] by (elim exE conjE) (rule that)
  have w: "written r1 = bs" "seen r1 = []" "written r' = bs @ le_bytes 8 (cksum_of E r1)"
    using b save(2) io(1) by (auto simp: tagged_def split: if_splits)
  have "?U q = bs @ le_bytes 8 (cksum_of E r1)" using io q w(3) by (simp add: aligned_def)
  then obtain ld q1 q' u where u: "rdbLoadRioWithLoadingCtx E rsi fuel (q, t) =
              Inr (if check_cksum E \<and> cksum_of E r1 \<noteq> 0 \<and> cksum_of E r1 \<noteq> cksum_of E q1 then LoadErr else LoadOk, ld, (q', u))"
      "?U q1 = le_bytes 8 (cksum_of E r1)" "\<forall>i < dbnum s. view (lib E) u i = snapshot E (mstime t) s i"
    using l fuel by blast
  have "length (le_bytes 8 (cksum_of E r1)) = 8" by (rule length_le_bytes)
  then have "le_bytes 8 (cksum_of E r1) \<noteq> []" by (metis list.size(3) zero_neq_numeral)
  then have "written q1 = []" "seen q1 = bs"
    using u(2) w(3) by (auto simp: aligned_def split: if_splits)
  then have "cksum_of E q1 = cksum_of E r1" using w(1,2) by (simp add: rio_crc.cksum_crc [OF crc_ok])
  with u show ?thesis by auto
qed

text \<open>
  C9: A data set of string values saved to a file, and the file loaded by a server started without data: SAVE having
  returned C_OK, the load returns \<open>RDB_OK\<close>, leaves the loading state, and every database holds the keys, strings
  and expires it had, less those a master drops as expired. With checksums on, both ends compute them from the
  bytes they wrote and read, so the check passes; they may also be off, or not have been saved. The
  conditions on the loading server are those of the snapshot's round trip: as many databases, shared
  integers not used for idle times of an LRU policy, and \<open>room\<close> in the access counts that
  \<open>createEmbeddedStringObject\<close> does not initialise.
\<close>

theorem saved_file_loads:
  assumes spec: "rio_spec (wr_of E) (rd_of E) written unread" "rdb_h_spec (fmt E)" "strlib_spec (lib E)"
      "lzf_spec (lzf_of E)" "rdb_ops_spec (ops E)"
    and E: "no_auxiliary E"
    and cksum: "\<not> check_cksum E \<or> (\<forall>r. cksum_of E r = 0)
      \<or> rio_crc (wr_of E) (rd_of E) written unread seen crc (cksum_of E)
        \<and> (\<forall>r. opened io = Some r \<longrightarrow> seen r = []) \<and> (\<forall>bs. written (stream_of bs) = [] \<and> seen (stream_of bs) = [])"
    and s: "\<forall>i < dbnum (srv p). saveable (lib E) (srv p) i" "dbnum (srv p) < 2 ^ 63"
    and req: "\<not> exclude_data req" "\<forall>i. save_info req = Some i \<longrightarrow> in_ll (repl_stream_db i)"
    and save: "rdbSave E written io req f p = Inr (C_OK, p')" "f \<noteq> temp_name (lib E) (getpid io)"
      "\<forall>r. opened io = Some r \<longrightarrow> written r = []"
    and load: "\<forall>bs. unread (stream_of bs) = bs" "files q f = files p' f" "load_inv (srv q)"
      "dbnum (srv q) = dbnum (srv p)" "\<forall>i < dbnum (srv q). \<forall>k. view (lib E) (srv q) i k = None"
      "feed_repl E \<longrightarrow> repl_backlog E \<and> slaves (srv q) = 0"
    and idle: "flag_set (maxmemory_policy (srv p)) MAXMEMORY_FLAG_LRU \<longrightarrow>
        flag_set (maxmemory_policy (srv q)) MAXMEMORY_FLAG_LFU \<or> \<not> may_share (srv q)"
    and mem: "\<forall>a. room (srv q) (flag_set (maxmemory_policy (srv p)) MAXMEMORY_FLAG_LRU) (snd (fresh_mem (srv q) a))"
    and fuel: "8 + turns (srv p) [0..<dbnum (srv p)] < fuel"
  shows "\<exists>rsi' q'. rdbLoad E stream_of False stat_size now fuel f rsi keep q = Inr (RDB_OK, rsi', q')
      \<and> \<not> loading (srv q') \<and> rdbFileBeingLoaded q' = None
      \<and> (\<forall>i < dbnum (srv p). view (lib E) (srv q') i = snapshot E (mstime (srv q)) (srv p) i)"
proof -
  define q1 where "q1 = startLoadingFile now (case stat_size of None \<Rightarrow> 0 | Some n \<Rightarrow> n) f False False q"
  have q1: "srv q1 = (srv q)\<lparr>loading := True\<rparr>"
    by (simp add: q1_def startLoadingFile_def startLoading_def on_srv_def log_io_def)
  have c: "can_load E (flag_set (maxmemory_policy (srv p)) MAXMEMORY_FLAG_LRU) (srv q)"
    using load(3,6) idle mem by (simp add: can_load_def spare_history_def)
  have t: "can_load E (flag_set (maxmemory_policy (srv p)) MAXMEMORY_FLAG_LRU) (srv q1)" "dbnum (srv q1) = dbnum (srv p)"
      "\<forall>i < dbnum (srv q1). \<forall>k. view (lib E) (srv q1) i k = None"
    using c load(4,5) unfolding q1 can_load_loading view_loading by (simp_all add: dbnum_def)
  obtain r r' where r: "opened io = Some r" "rdbSaveRio E req (srv p) r = Inr (C_OK, r')" "files p' f = Some (written r')"
    using rdbSave_cases [OF save(1,2)] unfolding whole_file_def by auto
  have ck: "\<not> check_cksum E \<or> (\<forall>r. cksum_of E r = 0)
      \<or> rio_crc (wr_of E) (rd_of E) written unread seen crc (cksum_of E) \<and> seen r = []
        \<and> written (stream_of (written r')) = [] \<and> seen (stream_of (written r')) = []"
    using cksum r(1) by blast
  have "written r = []" "unread (stream_of (written r')) = written r'" using save(3) r(1) load(1) by simp_all
  from saved_stream_loads [OF spec E s req t r(2) this ck fuel, of rsi] obtain ld q2 u where
      u: "rdbLoadRioWithLoadingCtx E rsi fuel (stream_of (written r'), srv q1) = Inr (LoadOk, ld, (q2, u))"
      "\<forall>i < dbnum (srv p). view (lib E) u i = snapshot E (mstime (srv q)) (srv p) i"
    by (auto simp: q1)
  then have "rdbLoad E stream_of False stat_size now fuel f rsi keep q =
      Inr (RDB_OK, ld_rsi ld, (if \<not> keep then log_io ReclaimFileCache else id) (stopLoading True
        (q1\<lparr>srv := u, rdb_last_load_keys_loaded := rdb_last_load_keys_loaded q1 + ld_keys_loaded ld,
            rdb_last_load_keys_expired := rdb_last_load_keys_expired q1 + ld_keys_expired ld,
            loading_rdb_used_mem := ld_used_mem ld\<rparr>)))"
    using load(2) r(3) by (simp add: rdbLoad_def rdbLoadRio_def Let_def flip: q1_def)
  then show ?thesis using u(2)
    by (auto simp: stopLoading_def log_io_def on_srv_def view_loading fun_eq_iff)
qed

subsection \<open>A concrete run\<close>

text \<open>A file that takes every write.\<close>

definition log_write :: "buffer writer" where
  "log_write bs b = (True, b\<lparr>wbuf := wbuf b @ bs\<rparr>)"

interpretation disk: rio_spec log_write buf_read wbuf rbuf
  by unfold_locales (auto simp: log_write_def buf_read_def split: if_splits)

definition disk_rdb :: "buffer rdb_env" where
  "disk_rdb = demo_rdb\<lparr>wr_of := log_write\<rparr>"

definition demo_io :: "buffer save_io" where
  "demo_io =
     \<lparr>opened = Some \<lparr>wbuf = [], rbuf = [], capacity = 0\<rparr>, fflush_ok = True, fsync_ok = True,
      fclose_ok = True, rename_ok = True, dir_fsync_ok = True, time_is = 77, getpid = 42, in_child = False\<rparr>"

definition demo_persistence :: persistence where
  "demo_persistence =
     \<lparr>srv = demo_saved\<lparr>dirty := 5\<rparr>, files = (\<lambda>_. None), rdb_filename = [100], saveparamslen = 1, dirty_before_bgsave = 0,
      lastsave = 0, lastbgsave_try = 0, lastbgsave_status = C_OK, stat_rdb_saves = 0, rdb_save_time_start = - 1,
      rdb_save_time_last = - 1, rdb_bgsave_scheduled = False, rdb_child_type = RDB_CHILD_TYPE_NONE,
      child_type = CHILD_TYPE_NONE, child_pid = - 1, in_exec = False, rdb_pipe_read = - 1, rdb_child_exit_pipe = - 1,
      rdb_pipe_conns = None, rdb_pipe_numconns_writing = 0, rdb_pipe_buff = None, open_fds = [], slave_list = [],
      slaveseldb = - 1, has_backlog = False, master_db = None, cached_master_db = None, async_loading = False,
      loading_start_time = 0, loading_loaded_bytes = 0, loading_total_bytes = 0, loading_rdb_used_mem = 0,
      rdb_last_load_keys_expired = 0, rdb_last_load_keys_loaded = 0, rdbFileBeingLoaded = None, io_log = []\<rparr>"

lemma disk_spec:
  "rio_spec (wr_of disk_rdb) (rd_of disk_rdb) wbuf rbuf" "rdb_h_spec (fmt disk_rdb)" "strlib_spec (lib disk_rdb)"
  "lzf_spec (lzf_of disk_rdb)" "rdb_ops_spec (ops disk_rdb)" "no_auxiliary disk_rdb"
  using disk.rio_spec_axioms published.rdb_h_spec_axioms decimal.strlib_spec_axioms rle.lzf_spec_axioms
    version_11.rdb_ops_spec_axioms
  by (simp_all add: disk_rdb_def demo_rdb_def no_auxiliary_def in_ll_def int_limits)

lemma disk_saveable:
  "\<forall>i < dbnum (srv demo_persistence). saveable (lib disk_rdb) (srv demo_persistence) i" "dbnum (srv demo_persistence) < 2 ^ 63"
  using demo_saveable by (simp_all add: demo_persistence_def disk_rdb_def saveable_def dbnum_def demo_saved_def)

lemma disk_request: "\<not> exclude_data demo_request" "\<forall>i. save_info demo_request = Some i \<longrightarrow> in_ll (repl_stream_db i)"
  by (simp_all add: demo_request_def)

lemma disk_target:
  "can_load disk_rdb (flag_set (maxmemory_policy (srv demo_persistence)) MAXMEMORY_FLAG_LRU) demo_target"
  "dbnum demo_target = dbnum (srv demo_persistence)" "\<forall>i < dbnum demo_target. \<forall>k. view (lib disk_rdb) demo_target i k = None"
proof -
  have "\<not> flag_set (maxmemory_policy (srv demo_persistence)) MAXMEMORY_FLAG_LRU"
    by (simp add: demo_persistence_def demo_saved_def string_server_def init_server_def policy_defs)
  moreover have "can_load disk_rdb i s = can_load demo_rdb i s" for i s by (simp add: can_load_def disk_rdb_def demo_rdb_def)
  ultimately show "can_load disk_rdb (flag_set (maxmemory_policy (srv demo_persistence)) MAXMEMORY_FLAG_LRU) demo_target"
    by (simp add: demo_can_load)
  show "dbnum demo_target = dbnum (srv demo_persistence)"
    by (simp add: dbnum_def demo_target_def demo_persistence_def demo_saved_def)
  show "\<forall>i < dbnum demo_target. \<forall>k. view (lib disk_rdb) demo_target i k = None"
    by (auto simp: view_def dbnum_def demo_target_def empty_db_def nth_Cons' split: if_splits)
qed

text \<open>The save gets to the end: what follows depends on the remaining calls.\<close>

lemma disk_writes: "\<exists>r'. rdbSaveRio disk_rdb demo_request (srv demo_persistence) r = Inr (C_OK, r')"
proof -
  obtain st r' where "rdbSaveRio disk_rdb demo_request (srv demo_persistence) r = Inr (st, r')"
      "st = C_ERR \<longrightarrow> (\<exists>bs r. \<not> fst (wr_of disk_rdb bs r))"
    using rdb_snapshot_ok [OF disk_spec disk_saveable disk_request disk_target, of None] by metis
  moreover have "fst (wr_of disk_rdb bs r)" for bs r by (simp add: disk_rdb_def log_write_def)
  ultimately show ?thesis by (cases st) auto
qed

lemma disk_names: "[100] \<noteq> temp_name (lib disk_rdb) (getpid (demo_io\<lparr>rename_ok := b\<rparr>))"
  by (simp add: temp_name_def bytes_of_def)

lemma disk_saves: "\<exists>p'. rdbSave disk_rdb wbuf demo_io demo_request [100] demo_persistence = Inr (C_OK, p')"
  using disk_writes [of "\<lparr>wbuf = [], rbuf = [], capacity = 0\<rparr>"]
  by (auto simp: rdbSave_def rdbSaveInternal_def Let_def demo_io_def)

theorem rdbSave_atomic_witness:
  "\<exists>p'. rdbSave disk_rdb wbuf (demo_io\<lparr>rename_ok := False\<rparr>) demo_request [100] demo_persistence = Inr (C_ERR, p')
      \<and> dirty (srv p') = 5 \<and> files p' (temp_name (lib disk_rdb) 42) = None"
proof -
  obtain p' where p': "rdbSave disk_rdb wbuf (demo_io\<lparr>rename_ok := False\<rparr>) demo_request [100] demo_persistence = Inr (C_ERR, p')"
    using disk_writes [of "\<lparr>wbuf = [], rbuf = [], capacity = 0\<rparr>"]
    by (auto simp: rdbSave_def rdbSaveInternal_def Let_def demo_io_def)
  have "opened (demo_io\<lparr>rename_ok := False\<rparr>) \<noteq> None" "getpid (demo_io\<lparr>rename_ok := False\<rparr>) = 42" by (simp_all add: demo_io_def)
  then show ?thesis
    using rdbSave_atomic [OF p' disk_names] p' by (auto simp: demo_persistence_def)
qed

text \<open>
  A tape: what was written, what is ahead and what was read; its checksum is the sum of those bytes, and it
  is verified.
\<close>

record tape =
  out :: sds
  ahead :: sds
  behind :: sds

definition tape_write :: "tape writer" where
  "tape_write bs b = (True, b\<lparr>out := out b @ bs\<rparr>)"

definition tape_read :: "tape reader" where
  "tape_read n b =
     (if n \<le> length (ahead b) then (Some (take n (ahead b)), b\<lparr>ahead := drop n (ahead b), behind := behind b @ take n (ahead b)\<rparr>)
      else (None, b))"

definition byte_sum :: "sds \<Rightarrow> u64" where
  "byte_sum bs = sum_list (map ucast bs)"

definition tape_sum :: "tape \<Rightarrow> u64" where
  "tape_sum b = byte_sum (out b @ behind b)"

interpretation tape: rio_crc tape_write tape_read out ahead behind byte_sum tape_sum
  by unfold_locales (auto simp: tape_write_def tape_read_def tape_sum_def split: if_splits)

definition tape_rdb :: "tape rdb_env" where
  "tape_rdb =
     \<lparr>wr_of = tape_write, rd_of = tape_read, fmt = rdb_format, ops = rdb_version_11, lib = decimal_lib, lzf_of = rle_lib,
      compression = True, alloc = (\<lambda>_. True), save_other = (\<lambda>_. Inl Panicked), load_other = (\<lambda>_ _ rs. (BadValue, rs)),
      load_special = (\<lambda>_ rs. (LoadErr, rs)), save_modules_aux = (\<lambda>_ rdb. Inr (0, rdb)), function_codes = [],
      redis_version = [55, 46, 50], time_now = 100, used_memory = 1000, replid = [], master_repl_offset = 0,
      i_am_master = True, aof_preamble = False, feed_repl = False, allow_dup = False, repl_backlog = False,
      cksum_of = tape_sum, check_cksum = True\<rparr>"

lemma tape_spec:
  "rio_spec (wr_of tape_rdb) (rd_of tape_rdb) out ahead" "rdb_h_spec (fmt tape_rdb)" "strlib_spec (lib tape_rdb)"
  "lzf_spec (lzf_of tape_rdb)" "rdb_ops_spec (ops tape_rdb)" "no_auxiliary tape_rdb"
  using tape.rio_spec_axioms published.rdb_h_spec_axioms decimal.strlib_spec_axioms rle.lzf_spec_axioms
    version_11.rdb_ops_spec_axioms
  by (simp_all add: tape_rdb_def no_auxiliary_def in_ll_def int_limits)

definition tape_io :: "tape save_io" where
  "tape_io =
     \<lparr>opened = Some \<lparr>out = [], ahead = [], behind = []\<rparr>, fflush_ok = True, fsync_ok = True,
      fclose_ok = True, rename_ok = True, dir_fsync_ok = True, time_is = 77, getpid = 42, in_child = False\<rparr>"

definition play :: "sds \<Rightarrow> tape" where
  "play bs = \<lparr>out = [], ahead = bs, behind = []\<rparr>"

lemma tape_same:
  "lib tape_rdb = lib disk_rdb" "can_load tape_rdb b s = can_load disk_rdb b s"
  "snapshot tape_rdb n s i = snapshot demo_rdb n s i"
proof -
  show "lib tape_rdb = lib disk_rdb" "can_load tape_rdb b s = can_load disk_rdb b s"
    by (simp_all add: tape_rdb_def disk_rdb_def demo_rdb_def can_load_def)
  have d: "dropped tape_rdb = dropped demo_rdb" "lib tape_rdb = lib demo_rdb"
    by (simp_all add: dropped_def fun_eq_iff tape_rdb_def demo_rdb_def)
  show "snapshot tape_rdb n s i = snapshot demo_rdb n s i"
    unfolding snapshot_def d by (rule refl)
qed

lemma tape_saves: "\<exists>p'. rdbSave tape_rdb out tape_io demo_request [100] demo_persistence = Inr (C_OK, p')"
proof -
  let ?r = "\<lparr>out = [], ahead = [], behind = []\<rparr>"
  note t = disk_target [folded tape_same] and s = disk_saveable [folded tape_same]
  obtain st r' where "rdbSaveRio tape_rdb demo_request (srv demo_persistence) ?r = Inr (st, r')"
      "st = C_ERR \<longrightarrow> (\<exists>bs r. \<not> fst (wr_of tape_rdb bs r))"
    using rdb_snapshot_ok [OF tape_spec s disk_request t, of None] by metis
  moreover have "fst (wr_of tape_rdb bs r)" for bs r by (simp add: tape_rdb_def tape_write_def)
  ultimately have "\<exists>r'. rdbSaveRio tape_rdb demo_request (srv demo_persistence) ?r = Inr (C_OK, r')" by (cases st) auto
  then show ?thesis by (auto simp: rdbSave_def rdbSaveInternal_def Let_def tape_io_def)
qed

theorem saved_file_loads_witness:
  "\<exists>p' rsi' q'. rdbSave tape_rdb out tape_io demo_request [100] demo_persistence = Inr (C_OK, p')
      \<and> rdbLoad tape_rdb play False None 0
          (9 + turns (srv demo_persistence) [0..<dbnum (srv demo_persistence)]) [100] None False (p'\<lparr>srv := demo_target\<rparr>) = Inr (RDB_OK, rsi', q')
      \<and> view (lib tape_rdb) (srv q') 0 [97] = Some ([104, 105], Some 5000)"
proof -
  obtain p' where p': "rdbSave tape_rdb out tape_io demo_request [100] demo_persistence = Inr (C_OK, p')"
    using tape_saves by blast
  let ?q = "p'\<lparr>srv := demo_target\<rparr>" and ?p = "srv demo_persistence"
  have n: "[100] \<noteq> temp_name (lib tape_rdb) (getpid tape_io)" by (simp add: temp_name_def bytes_of_def)
  have w: "\<forall>r. opened tape_io = Some r \<longrightarrow> out r = []" by (simp add: tape_io_def)
  have c: "\<not> check_cksum tape_rdb \<or> (\<forall>r. cksum_of tape_rdb r = 0)
      \<or> rio_crc (wr_of tape_rdb) (rd_of tape_rdb) out ahead behind byte_sum (cksum_of tape_rdb)
        \<and> (\<forall>r. opened tape_io = Some r \<longrightarrow> behind r = []) \<and> (\<forall>bs. out (play bs) = [] \<and> behind (play bs) = [])"
    using tape.rio_crc_axioms by (simp add: tape_rdb_def tape_io_def play_def)
  have r: "\<forall>bs. ahead (play bs) = bs" by (simp add: play_def)
  have f: "files ?q [100] = files p' [100]" by simp
  have l: "flag_set (maxmemory_policy ?p) MAXMEMORY_FLAG_LRU = False"
    by (simp add: demo_persistence_def demo_saved_def string_server_def init_server_def policy_defs)
  have cl: "can_load tape_rdb False demo_target"
    using disk_target(1) unfolding tape_same l by simp
  have t: "load_inv (srv ?q)" "dbnum (srv ?q) = dbnum ?p" "\<forall>i < dbnum (srv ?q). \<forall>k. view (lib tape_rdb) (srv ?q) i k = None"
      "feed_repl tape_rdb \<longrightarrow> repl_backlog tape_rdb \<and> slaves (srv ?q) = 0"
    using disk_target(2,3) cl by (simp_all add: tape_same can_load_def)
  have i: "flag_set (maxmemory_policy ?p) MAXMEMORY_FLAG_LRU \<longrightarrow>
        flag_set (maxmemory_policy (srv ?q)) MAXMEMORY_FLAG_LFU \<or> \<not> may_share (srv ?q)"
    and m: "\<forall>a. room (srv ?q) (flag_set (maxmemory_policy ?p) MAXMEMORY_FLAG_LRU) (snd (fresh_mem (srv ?q) a))"
    using cl unfolding l by (simp_all add: can_load_def spare_history_def)
  have fl: "8 + turns ?p [0..<dbnum ?p] < 9 + turns ?p [0..<dbnum ?p]" by simp
  obtain rsi' q' where q: "rdbLoad tape_rdb play False None 0 (9 + turns ?p [0..<dbnum ?p]) [100] None False ?q = Inr (RDB_OK, rsi', q')"
      "\<forall>i < dbnum ?p. view (lib tape_rdb) (srv q') i = snapshot tape_rdb (mstime (srv ?q)) ?p i"
    using saved_file_loads [OF tape_spec c disk_saveable [folded tape_same] disk_request p' n w r f t i m fl, of None 0 None False]
    by (elim exE conjE) (rule that)
  have "snapshot demo_rdb (mstime demo_target) ?p 0 [97] = snapshot demo_rdb (mstime demo_target) demo_saved 0 [97]"
    by (simp add: snapshot_def view_def dropped_def demo_persistence_def dbnum_def cong: option.case_cong if_cong)
  moreover have "0 < dbnum ?p" by (simp add: demo_persistence_def demo_saved_def dbnum_def)
  ultimately have "view (lib tape_rdb) (srv q') 0 [97] = Some ([104, 105], Some 5000)"
    using q(2) demo_snapshot(1) by (simp add: tape_same)
  with p' q(1) show ?thesis by blast
qed

end
