(* ===== verification/Rdb_Steps.thy ===== *)
theory Rdb_Steps
  imports Rdb_Persist
begin

section \<open>Writes, saves and children as steps (rdb.c)\<close>

text \<open>
  The life of the dump file as a step relation: the server executes writes, SAVE, BGSAVE and transfers to replicas;
  a child ends by itself or is killed, while it writes the temporary file or after it renamed it
  (\<open>ChildKilledLate\<close>); the parent learns of it. Beside the server's state runs a history that
  the code does not keep: how many changes there were in all, how many the dump file holds and how many
  the server takes to be saved. The creation and the clearing of children (server.c) are parameters.
\<close>

locale children =
  fixes fork :: forker and reset :: "persistence \<Rightarrow> persistence"
  assumes fork_parent: "fork t p = Some p' \<Longrightarrow>
      \<exists>pid. p' = p\<lparr>child_type := t, child_pid := pid, srv := (srv p)\<lparr>active_child := True\<rparr>\<rparr>"
    and reset_child: "reset p = p\<lparr>child_type := CHILD_TYPE_NONE, child_pid := - 1, srv := (srv p)\<lparr>active_child := False\<rparr>\<rparr>"

record history =
  total :: int
  recorded :: int
  on_disk :: int
  at_fork :: int
  \<comment> \<open>the data set the dump file was written from, when it was replaced\<close>
  dumped :: "server option"
  \<comment> \<open>the child's copy of the server, and its exit code and signal\<close>
  image :: "persistence option"
  ended :: "(int \<times> int) option"

definition new_dump :: "cstatus \<Rightarrow> persistence \<Rightarrow> persistence \<Rightarrow> int \<Rightarrow> server \<Rightarrow> history \<Rightarrow> history" where
  "new_dump st p p' n s h =
     (if st = C_OK \<or> files p' (rdb_filename p) \<noteq> files p (rdb_filename p)
      then h\<lparr>on_disk := n, dumped := Some s\<rparr> else h)"

inductive bg_step ::
  "'r rdb_env \<Rightarrow> ('r \<Rightarrow> sds) \<Rightarrow> forker \<Rightarrow> (persistence \<Rightarrow> persistence) \<Rightarrow> persistence \<times> history \<Rightarrow> persistence \<times> history \<Rightarrow> bool"
  for E written fork reset where
    Write: "0 \<le> n \<Longrightarrow> dirty s = dirty (srv p) + n \<Longrightarrow> active_child s = active_child (srv p) \<Longrightarrow>
      bg_step E written fork reset (p, h) (p\<lparr>srv := s\<rparr>, h\<lparr>total := total h + n\<rparr>)"
  | SaveRefused: "child_type p = CHILD_TYPE_RDB \<Longrightarrow> saveCommand E written io p = Inr p' \<Longrightarrow>
      bg_step E written fork reset (p, h) (p', h)"
  | Save: "child_type p \<noteq> CHILD_TYPE_RDB \<Longrightarrow> saveCommand E written io p = Inr p' \<Longrightarrow>
      st = (if last (events (srv p')) = Reply ReplyOk then C_OK else C_ERR) \<Longrightarrow>
      bg_step E written fork reset (p, h)
        (p', (new_dump st p p' (total h) (srv p) h)\<lparr>recorded := if st = C_OK then total h else recorded h\<rparr>)"
  | Bgsave: "p' = bgsaveCommand fork now c p \<Longrightarrow>
      bg_step E written fork reset (p, h)
        (p', if child_type p \<noteq> CHILD_TYPE_RDB \<and> child_type p' = CHILD_TYPE_RDB
             then h\<lparr>at_fork := total h, image := Some p'\<rparr> else h)"
  | Transfer: "rdbSaveToSlavesSockets fork pipe1 pipe2 now req p = (st, p') \<Longrightarrow>
      bg_step E written fork reset (p, h) (p', h)"
  | ChildExits: "image h = Some q \<Longrightarrow> ended h = None \<Longrightarrow>
      bgsave_child E written io (save_all_request q) (rdb_filename q) (q\<lparr>files := files p\<rparr>) = Inr (code, q') \<Longrightarrow>
      bg_step E written fork reset (p, h)
        (p\<lparr>files := files q'\<rparr>,
         (new_dump (if code = 0 then C_OK else C_ERR) p (p\<lparr>files := files q'\<rparr>) (at_fork h) (srv q) h)\<lparr>ended := Some (code, 0)\<rparr>)"
  | ChildKilledLate: "image h = Some q \<Longrightarrow> ended h = None \<Longrightarrow> sig \<noteq> 0 \<Longrightarrow>
      bgsave_child E written io (save_all_request q) (rdb_filename q) (q\<lparr>files := files p\<rparr>) = Inr (code, q') \<Longrightarrow>
      bg_step E written fork reset (p, h)
        (p\<lparr>files := files q'\<rparr>,
         (new_dump (if code = 0 then C_OK else C_ERR) p (p\<lparr>files := files q'\<rparr>) (at_fork h) (srv q) h)\<lparr>ended := Some (0, sig)\<rparr>)"
  | TransferEnds: "child_type p = CHILD_TYPE_RDB \<Longrightarrow> image h = None \<Longrightarrow> ended h = None \<Longrightarrow>
      bg_step E written fork reset (p, h) (p, h\<lparr>ended := Some (code, 0)\<rparr>)"
  | ChildKilled: "child_type p = CHILD_TYPE_RDB \<Longrightarrow> ended h = None \<Longrightarrow> sig \<noteq> 0 \<Longrightarrow>
      bg_step E written fork reset (p, h)
        (p\<lparr>files := (files p)(temp_name (lib E) (child_pid p) := partial)\<rparr>, h\<lparr>ended := Some (0, sig)\<rparr>)"
  | Reap: "ended h = Some (code, sig) \<Longrightarrow> backgroundSaveDoneHandler (lib E) now code sig p = Inr p' \<Longrightarrow>
      bg_step E written fork reset (p, h)
        (reset p', h\<lparr>ended := None, image := None,
           recorded := if rdb_child_type p = RDB_CHILD_TYPE_DISK \<and> code = 0 \<and> sig = 0 then at_fork h else recorded h\<rparr>)"

subsection \<open>The invariant\<close>

definition counts_ok :: "int \<Rightarrow> history \<Rightarrow> bool" where
  "counts_ok d h \<longleftrightarrow> d = total h - recorded h \<and> recorded h \<le> on_disk h \<and> on_disk h \<le> total h"

definition dump_ok :: "'r rdb_env \<Rightarrow> ('r \<Rightarrow> sds) \<Rightarrow> (sds \<Rightarrow> sds option) \<Rightarrow> sds \<Rightarrow> history \<Rightarrow> bool" where
  "dump_ok E written fs f h \<longleftrightarrow> (\<forall>s. dumped h = Some s \<longrightarrow>
     (\<exists>r req r'. rdbSaveRio E req s r = Inr (C_OK, r') \<and> fs f = Some (written r')))"

definition child_ok :: "persistence \<Rightarrow> history \<Rightarrow> bool" where
  "child_ok p h \<longleftrightarrow>
     (if child_type p = CHILD_TYPE_RDB
      then active_child (srv p)
        \<and> (rdb_child_type p = RDB_CHILD_TYPE_DISK \<and> image h \<noteq> None
             \<and> dirty_before_bgsave p = at_fork h - recorded h \<and> recorded h \<le> at_fork h \<and> at_fork h \<le> total h
             \<and> (ended h = Some (0, 0) \<longrightarrow> on_disk h = at_fork h)
           \<or> rdb_child_type p = RDB_CHILD_TYPE_SOCKET \<and> image h = None)
      else image h = None \<and> ended h = None)
     \<and> (\<forall>q. image h = Some q \<longrightarrow> rdb_filename q = rdb_filename p)"

definition bg_inv :: "'r rdb_env \<Rightarrow> ('r \<Rightarrow> sds) \<Rightarrow> persistence \<times> history \<Rightarrow> bool" where
  "bg_inv E written x \<longleftrightarrow> (case x of (p, h) \<Rightarrow>
     counts_ok (dirty (srv p)) h \<and> dump_ok E written (files p) (rdb_filename p) h \<and> child_ok p h
     \<and> (\<forall>pid. rdb_filename p \<noteq> temp_name (lib E) pid))"

lemma bg_invD:
  assumes "bg_inv E written (p, h)"
  shows "counts_ok (dirty (srv p)) h" "dump_ok E written (files p) (rdb_filename p) h" "child_ok p h"
    "rdb_filename p \<noteq> temp_name (lib E) pid"
  using assms by (simp_all add: bg_inv_def)

lemma bg_invI:
  "counts_ok (dirty (srv p)) h \<Longrightarrow> dump_ok E written (files p) (rdb_filename p) h \<Longrightarrow> child_ok p h \<Longrightarrow>
     (\<And>pid. rdb_filename p \<noteq> temp_name (lib E) pid) \<Longrightarrow> bg_inv E written (p, h)"
  by (simp add: bg_inv_def)

text \<open>Fields the invariant does not read.\<close>

lemma reply_fields [simp]:
  "dirty (srv (p_reply r p)) = dirty (srv p)" "files (p_reply r p) = files p" "rdb_filename (p_reply r p) = rdb_filename p"
  "child_type (p_reply r p) = child_type p" "active_child (srv (p_reply r p)) = active_child (srv p)"
  "rdb_child_type (p_reply r p) = rdb_child_type p" "dirty_before_bgsave (p_reply r p) = dirty_before_bgsave p"
  "events (srv (p_reply r p)) = events (srv p) @ [Reply r]" "child_pid (p_reply r p) = child_pid p"
  by (simp_all add: p_reply_def on_srv_def emit_def)

definition same_child :: "persistence \<Rightarrow> persistence \<Rightarrow> bool" where
  "same_child p p' \<longleftrightarrow> child_type p' = child_type p \<and> rdb_child_type p' = rdb_child_type p
     \<and> active_child (srv p') = active_child (srv p) \<and> dirty_before_bgsave p' = dirty_before_bgsave p
     \<and> rdb_filename p' = rdb_filename p"

lemma child_ok_same: "same_child p p' \<Longrightarrow> child_ok p' h = child_ok p h"
  by (simp add: same_child_def child_ok_def)

lemma same_child_reply [simp]: "same_child p (p_reply r p') = same_child p p'"
  by (simp add: same_child_def)

lemma same_child_refl: "same_child p p"
  by (simp add: same_child_def)

lemma bg_inv_same:
  assumes "bg_inv E written (p, h)" "same_child p p'" "dirty (srv p') = dirty (srv p)" "files p' = files p"
  shows "bg_inv E written (p', h)"
  using bg_invD [OF assms(1)] assms(2-4) child_ok_same [OF assms(2), of h]
  by (intro bg_invI) (simp_all add: same_child_def)

lemma step_write:
  assumes "bg_inv E written (p, h)" "0 \<le> n" "dirty s = dirty (srv p) + n" "active_child s = active_child (srv p)"
  shows "bg_inv E written (p\<lparr>srv := s\<rparr>, h\<lparr>total := total h + n\<rparr>)"
proof (rule bg_invI)
  note i = bg_invD [OF assms(1)]
  show "counts_ok (dirty (srv (p\<lparr>srv := s\<rparr>))) (h\<lparr>total := total h + n\<rparr>)"
    using i(1) assms(2,3) by (simp add: counts_ok_def)
  show "dump_ok E written (files (p\<lparr>srv := s\<rparr>)) (rdb_filename (p\<lparr>srv := s\<rparr>)) (h\<lparr>total := total h + n\<rparr>)"
    using i(2) by (simp add: dump_ok_def)
  show "child_ok (p\<lparr>srv := s\<rparr>) (h\<lparr>total := total h + n\<rparr>)"
    using i(3) assms(2,4) by (auto simp: child_ok_def split: if_splits)
qed (use bg_invD(4) [OF assms(1)] in simp)

subsection \<open>Saving\<close>

lemma same_child_note [simp]:
  "same_child p (log_io e p') = same_child p p'" "same_child p (startSaving a b p') = same_child p p'"
  "same_child p (stopSaving a p') = same_child p p'"
  by (simp_all add: same_child_def log_io_def startSaving_def stopSaving_def)

lemma same_child_files [simp]: "same_child p (p'\<lparr>files := fs\<rparr>) = same_child p p'"
  by (simp add: same_child_def)

lemma rdbSaveInternal_same:
  "rdbSaveInternal E written io req f p0 = Inr (st, p') \<Longrightarrow> same_child p p0 \<Longrightarrow> same_child p p'"
  using rdbSaveInternal_ok [of E written io req f p0 st p'] by (cases st) auto

lemma rdbSave_same:
  assumes "rdbSave E written io req f p = Inr (st, p')"
  shows "same_child p p'"
proof -
  let ?tmp = "temp_name (lib E) (getpid io)"
  obtain st1 p1 where i: "rdbSaveInternal E written io req ?tmp (startSaving False (in_child io) p) = Inr (st1, p1)"
    using assms by (cases "rdbSaveInternal E written io req ?tmp (startSaving False (in_child io) p)") (auto simp: rdbSave_def Let_def)
  have s: "same_child p p1" by (rule rdbSaveInternal_same [OF i]) (simp add: same_child_refl)
  then have "same_child p (on_srv (\<lambda>s. s\<lparr>dirty := 0\<rparr>) (p1\<lparr>files := fs, lastsave := n, lastbgsave_status := C_OK\<rparr>))" for fs n
    by (simp add: same_child_def on_srv_def)
  with s i assms show ?thesis by (auto simp: rdbSave_def Let_def split: if_splits)
qed

text \<open>What a save makes of the dump file, whoever runs it.\<close>

lemma save_dump:
  assumes "rdbSave E written io req (rdb_filename p) p = Inr (st, p')" "rdb_filename p \<noteq> temp_name (lib E) (getpid io)"
    and "dump_ok E written (files p) (rdb_filename p) h"
  shows "dump_ok E written (files p') (rdb_filename p) (new_dump st p p' n (srv p) h)"
proof -
  have "(\<exists>bs. whole_file E written io req (srv p) bs \<and> files p' (rdb_filename p) = Some bs)
      \<or> st = C_ERR \<and> files p' (rdb_filename p) = files p (rdb_filename p)"
    using rdbSave_cases [OF assms(1,2)] assms(2) by auto
  then show ?thesis
  proof
    assume "\<exists>bs. whole_file E written io req (srv p) bs \<and> files p' (rdb_filename p) = Some bs"
    then have "\<exists>r req r'. rdbSaveRio E req (srv p) r = Inr (C_OK, r') \<and> files p' (rdb_filename p) = Some (written r')"
      unfolding whole_file_def by blast
    then show ?thesis using assms(3) by (auto simp: new_dump_def dump_ok_def)
  next
    assume "st = C_ERR \<and> files p' (rdb_filename p) = files p (rdb_filename p)"
    then show ?thesis using assms(3) by (simp add: new_dump_def dump_ok_def)
  qed
qed

lemma new_dump_fields [simp]:
  "total (new_dump st p p' n s h) = total h" "recorded (new_dump st p p' n s h) = recorded h"
  "at_fork (new_dump st p p' n s h) = at_fork h" "image (new_dump st p p' n s h) = image h"
  "ended (new_dump st p p' n s h) = ended h"
  by (simp_all add: new_dump_def)

lemma new_dump_disk:
  "on_disk (new_dump st p p' n s h) = (if st = C_OK \<or> files p' (rdb_filename p) \<noteq> files p (rdb_filename p) then n else on_disk h)"
  by (simp add: new_dump_def)

lemma child_ok_none: "child_type p \<noteq> CHILD_TYPE_RDB \<Longrightarrow> image h = None \<Longrightarrow> ended h = None \<Longrightarrow> child_ok p h"
  by (simp add: child_ok_def)

lemma step_save:
  assumes inv: "bg_inv E written (p, h)" and c: "child_type p \<noteq> CHILD_TYPE_RDB" and s: "saveCommand E written io p = Inr p'"
    and st: "st = (if last (events (srv p')) = Reply ReplyOk then C_OK else C_ERR)"
  shows "bg_inv E written (p', (new_dump st p p' (total h) (srv p) h)\<lparr>recorded := if st = C_OK then total h else recorded h\<rparr>)"
    (is "bg_inv _ _ (p', ?h)")
proof -
  let ?p1 = "p\<lparr>stat_rdb_saves := stat_rdb_saves p + 1\<rparr>"
  obtain st' p2 where r: "rdbSave E written io (save_all_request ?p1) (rdb_filename ?p1) ?p1 = Inr (st', p2)"
      "p' = p_reply (if st' = C_OK then ReplyOk else ReplyError ''err'') p2"
    using s c by (auto simp: saveCommand_def Let_def cbind_eq_Inr)
  have eq: "st = st'" using st r(2) by (cases st') simp_all
  have n: "rdb_filename ?p1 \<noteq> temp_name (lib E) (getpid io)" using bg_invD(4) [OF inv] by simp
  have same: "same_child p p'" using rdbSave_same [OF r(1)] r(2) by (simp add: same_child_def)
  have f: "files p' = files p2" using r(2) by simp
  have d: "dirty (srv p') = (if st = C_OK then 0 else dirty (srv p))"
    using rdbSave_cases [OF r(1) n] r(2) eq by auto
  have "dump_ok E written (files ?p1) (rdb_filename ?p1) h" using bg_invD(2) [OF inv] by simp
  from save_dump [OF r(1) n this, of "total h"]
  have dump: "dump_ok E written (files p') (rdb_filename p') (new_dump st p p' (total h) (srv p) h)"
    using same eq f by (simp add: new_dump_def same_child_def)
  show ?thesis
  proof (rule bg_invI)
    show "counts_ok (dirty (srv p')) ?h"
      using bg_invD(1) [OF inv] d unfolding counts_ok_def by (cases st) (simp_all add: new_dump_disk)
    show "dump_ok E written (files p') (rdb_filename p') ?h" using dump by (simp add: dump_ok_def)
    have "image ?h = None" "ended ?h = None" using bg_invD(3) [OF inv] c by (simp_all add: child_ok_def)
    with c show "child_ok p' ?h" unfolding child_ok_same [OF same] by (rule child_ok_none)
    show "rdb_filename p' \<noteq> temp_name (lib E) pid" for pid using bg_invD(4) [OF inv, of pid] same by (simp add: same_child_def)
  qed
qed

subsection \<open>Starting children\<close>

context children
begin

lemma forked:
  assumes "fork t p = Some p'"
  shows "child_type p' = t" "active_child (srv p')" "dirty (srv p') = dirty (srv p)" "files p' = files p"
    "rdb_filename p' = rdb_filename p" "dirty_before_bgsave p' = dirty_before_bgsave p" "rdb_pipe_read p' = rdb_pipe_read p"
    "rdb_child_exit_pipe p' = rdb_child_exit_pipe p" "open_fds p' = open_fds p"
  using fork_parent [OF assms] by auto

lemma background:
  assumes "rdbSaveBackground fork now p = (st, p')"
  shows "files p' = files p \<and> rdb_filename p' = rdb_filename p \<and> dirty (srv p') = dirty (srv p)
    \<and> (if st = C_OK then \<not> active_child (srv p) \<and> child_type p' = CHILD_TYPE_RDB \<and> active_child (srv p')
          \<and> rdb_child_type p' = RDB_CHILD_TYPE_DISK \<and> dirty_before_bgsave p' = dirty (srv p)
       else child_type p' = child_type p \<and> active_child (srv p') = active_child (srv p))"
  using assms by (auto simp: rdbSaveBackground_def Let_def forked split: if_splits option.splits)

lemma bgsave:
  assumes "p' = bgsaveCommand fork now c p"
  shows "files p' = files p \<and> rdb_filename p' = rdb_filename p \<and> dirty (srv p') = dirty (srv p)
    \<and> (if child_type p \<noteq> CHILD_TYPE_RDB \<and> child_type p' = CHILD_TYPE_RDB
       then active_child (srv p') \<and> rdb_child_type p' = RDB_CHILD_TYPE_DISK \<and> dirty_before_bgsave p' = dirty (srv p)
       else child_type p = CHILD_TYPE_RDB \<and> same_child p p' \<or> child_type p \<noteq> CHILD_TYPE_RDB \<and> child_type p' = child_type p)"
proof -
  obtain st p1 where b: "rdbSaveBackground fork now p = (st, p1)" by (cases "rdbSaveBackground fork now p")
  show ?thesis
    unfolding assms bgsaveCommand_def bgsave_now_def b
    using background [OF b] by (auto simp: same_child_def child_defs split: cstatus.split)
qed

lemma step_bgsave:
  assumes inv: "bg_inv E written (p, h)" and b: "p' = bgsaveCommand fork now c p"
  shows "bg_inv E written (p', if child_type p \<noteq> CHILD_TYPE_RDB \<and> child_type p' = CHILD_TYPE_RDB
             then h\<lparr>at_fork := total h, image := Some p'\<rparr> else h)" (is "bg_inv _ _ (p', ?h)")
proof (rule bg_invI)
  note i = bg_invD [OF inv] and b = bgsave [OF b]
  show "counts_ok (dirty (srv p')) ?h" using i(1) b by (simp add: counts_ok_def)
  show "dump_ok E written (files p') (rdb_filename p') ?h" using i(2) b by (simp add: dump_ok_def)
  show "rdb_filename p' \<noteq> temp_name (lib E) pid" for pid using i(4) b by simp
  show "child_ok p' ?h"
  proof (cases "child_type p = CHILD_TYPE_RDB")
    case True
    then show ?thesis using i(3) b child_ok_same [of p p' h] by simp
  next
    case False
    then have "image h = None" "ended h = None" using i(3) by (simp_all add: child_ok_def)
    then show ?thesis using False b i(1) by (auto simp: child_ok_def counts_ok_def)
  qed
qed

text \<open>What the invariant reads of a state.\<close>

definition core :: "persistence \<Rightarrow> (sds \<Rightarrow> sds option) \<times> sds \<times> int \<times> int \<times> int \<times> bool \<times> int" where
  "core p = (files p, rdb_filename p, dirty (srv p), child_type p, rdb_child_type p, active_child (srv p), dirty_before_bgsave p)"

lemma core_simps:
  "core (close_fd fd p) = core p" "core (undo_replicas p) = core p" "core (log_io e p) = core p"
  "core (p\<lparr>rdb_pipe_read := n\<rparr>) = core p" "core (p\<lparr>open_fds := fds\<rparr>) = core p" "core (p\<lparr>rdb_child_exit_pipe := n\<rparr>) = core p"
  "core (p\<lparr>rdb_pipe_conns := cs\<rparr>) = core p" "core (p\<lparr>rdb_pipe_numconns_writing := w\<rparr>) = core p"
  "core (p\<lparr>slave_list := l\<rparr>) = core p" "core (p\<lparr>rdb_save_time_start := n\<rparr>) = core p"
  by (simp_all add: core_def close_fd_def undo_replicas_def log_io_def)

lemma core_fold: "core (fold (\<lambda>r. log_io (f r)) rs p) = core p"
  by (induction rs arbitrary: p) (simp_all add: core_simps)

lemma core_set_up: "core (set_up_replicas req p) = core p"
  by (simp add: set_up_replicas_def Let_def core_fold core_simps)

lemma same_core: "core p' = core p \<Longrightarrow> files p' = files p \<and> rdb_filename p' = rdb_filename p \<and> dirty (srv p') = dirty (srv p) \<and> same_child p p'"
  by (simp add: core_def same_child_def)

lemma transfer:
  assumes "rdbSaveToSlavesSockets fork pipe1 pipe2 now req p = (st, p')"
  shows "files p' = files p \<and> rdb_filename p' = rdb_filename p \<and> dirty (srv p') = dirty (srv p)
    \<and> (same_child p p' \<or> \<not> active_child (srv p) \<and> child_type p' = CHILD_TYPE_RDB \<and> active_child (srv p')
          \<and> rdb_child_type p' = RDB_CHILD_TYPE_SOCKET)"
proof (cases "active_child (srv p) \<or> rdb_pipe_conns p \<noteq> None \<or> pipe1 = None")
  case True
  then have "rdbSaveToSlavesSockets fork pipe1 pipe2 now req p = (C_ERR, p)"
    by (elim disjE) (simp_all add: rdbSaveToSlavesSockets_def)
  with assms show ?thesis by (simp add: same_child_refl)
next
  case False
  then obtain rd1 wr1 where pipe1: "pipe1 = Some (rd1, wr1)" by auto
  define p1 where "p1 = p\<lparr>rdb_pipe_read := rd1, open_fds := [rd1, wr1] @ open_fds p\<rparr>"
  have 1: "core p1 = core p" by (simp add: p1_def core_simps)
  show ?thesis
  proof (cases pipe2)
    case None
    then have "p' = close_fd (rdb_pipe_read p1) (close_fd wr1 p1)"
      using assms False pipe1 by (simp add: rdbSaveToSlavesSockets_def Let_def p1_def)
    then have "core p' = core p" using 1 by (simp add: core_simps)
    then show ?thesis using same_core by blast
  next
    case (Some pr)
    obtain rd2 wr2 where pr: "pr = (rd2, wr2)" by (cases pr)
    define p2 where "p2 = set_up_replicas req (p1\<lparr>rdb_child_exit_pipe := wr2, open_fds := [rd2, wr2] @ open_fds p1\<rparr>)"
    have 2: "core p2 = core p" using 1 by (simp add: p2_def core_set_up core_simps)
    show ?thesis
    proof (cases "fork CHILD_TYPE_RDB p2")
      case None
      then have "p' = close_fd rd2 ((close_fd (rdb_pipe_read p2) (close_fd wr1 (undo_replicas p2)))\<lparr>rdb_pipe_conns := None,
          rdb_pipe_numconns_writing := 0\<rparr>)"
        using assms False pipe1 Some pr by (simp add: rdbSaveToSlavesSockets_def Let_def p1_def p2_def)
      then have "core p' = core p" using 2 by (simp add: core_simps)
      then show ?thesis using same_core by blast
    next
      case (Some p3)
      define p4 where "p4 = close_fd wr1 (p3\<lparr>rdb_save_time_start := now, rdb_child_type := RDB_CHILD_TYPE_SOCKET\<rparr>)"
      have "p' = close_fd rd2 (log_io (CreateFileEvent (rdb_pipe_read p4)) p4)"
        using assms False pipe1 \<open>pipe2 = Some pr\<close> pr Some by (simp add: rdbSaveToSlavesSockets_def Let_def p1_def p2_def p4_def)
      then have "core p' = core p4" by (simp add: core_simps)
      moreover have "core p4 = core (p3\<lparr>rdb_child_type := RDB_CHILD_TYPE_SOCKET\<rparr>)" by (simp add: p4_def core_def close_fd_def)
      ultimately show ?thesis using forked [OF Some] 2 False by (simp add: core_def)
    qed
  qed
qed

lemma step_transfer:
  assumes inv: "bg_inv E written (p, h)" and t: "rdbSaveToSlavesSockets fork pipe1 pipe2 now req p = (st, p')"
  shows "bg_inv E written (p', h)"
proof (rule bg_invI)
  note i = bg_invD [OF inv] and t = transfer [OF t]
  show "counts_ok (dirty (srv p')) h" using i(1) t by simp
  show "dump_ok E written (files p') (rdb_filename p') h" using i(2) t by simp
  show "rdb_filename p' \<noteq> temp_name (lib E) pid" for pid using i(4) t by simp
  show "child_ok p' h"
  proof (cases "same_child p p'")
    case True
    then show ?thesis using i(3) child_ok_same by blast
  next
    case False
    then have n: "\<not> active_child (srv p)" "child_type p' = CHILD_TYPE_RDB" "active_child (srv p')"
        "rdb_child_type p' = RDB_CHILD_TYPE_SOCKET" using t by auto
    then have "child_type p \<noteq> CHILD_TYPE_RDB" using i(3) by (auto simp: child_ok_def)
    then have "image h = None" using i(3) by (simp add: child_ok_def)
    with n show ?thesis by (simp add: child_ok_def)
  qed
qed

end

subsection \<open>The end of a child\<close>

lemma disk_child:
  assumes "child_ok p h" "image h = Some q"
  shows "child_type p = CHILD_TYPE_RDB" "active_child (srv p)" "rdb_child_type p = RDB_CHILD_TYPE_DISK"
    "dirty_before_bgsave p = at_fork h - recorded h" "recorded h \<le> at_fork h" "at_fork h \<le> total h" "rdb_filename q = rdb_filename p"
  using assms by (auto simp: child_ok_def split: if_splits)

lemma step_exits:
  assumes inv: "bg_inv E written (p, h)" and q: "image h = Some q" "ended h = None"
    and c: "bgsave_child E written io (save_all_request q) (rdb_filename q) (q\<lparr>files := files p\<rparr>) = Inr (code, q')"
    and e: "e = (0, 0) \<longrightarrow> code = 0"
  shows "bg_inv E written (p\<lparr>files := files q'\<rparr>,
     (new_dump (if code = 0 then C_OK else C_ERR) p (p\<lparr>files := files q'\<rparr>) (at_fork h) (srv q) h)\<lparr>ended := Some e\<rparr>)"
proof -
  let ?q = "q\<lparr>files := files p\<rparr>" and ?io = "io\<lparr>in_child := True\<rparr>" and ?st = "if code = 0 then C_OK else C_ERR"
  let ?p = "p\<lparr>files := files q'\<rparr>"
  let ?nd = "new_dump ?st p ?p (at_fork h) (srv q) h"
  note i = bg_invD [OF inv] and d = disk_child [OF bg_invD(3) [OF inv] q(1)]
  obtain st where r: "rdbSave E written ?io (save_all_request q) (rdb_filename ?q) ?q = Inr (st, q')" "code = (if st = C_OK then 0 else 1)"
    using c by (auto simp: bgsave_child_def cbind_eq_Inr)
  have st: "?st = st" using r(2) by (cases st) simp_all
  have n: "rdb_filename ?q \<noteq> temp_name (lib E) (getpid ?io)" using i(4) d(7) by simp
  have "dump_ok E written (files ?q) (rdb_filename ?q) h" using i(2) d(7) by simp
  from save_dump [OF r(1) n this, of "at_fork h"]
  have dump: "dump_ok E written (files ?p) (rdb_filename ?p) ?nd"
    unfolding st using d(7) by (simp add: new_dump_def)
  have disk: "on_disk ?nd = at_fork h \<or> on_disk ?nd = on_disk h" "code = 0 \<Longrightarrow> on_disk ?nd = at_fork h"
    by (simp_all add: new_dump_disk)
  show ?thesis
  proof (rule bg_invI)
    show "counts_ok (dirty (srv ?p)) (?nd\<lparr>ended := Some e\<rparr>)"
      using i(1) d(5,6) disk(1) by (auto simp: counts_ok_def)
    show "dump_ok E written (files ?p) (rdb_filename ?p) (?nd\<lparr>ended := Some e\<rparr>)"
      using dump by (simp add: dump_ok_def)
    show "child_ok ?p (?nd\<lparr>ended := Some e\<rparr>)"
      using d q(1) disk(2) e by (simp add: child_ok_def)
    show "rdb_filename ?p \<noteq> temp_name (lib E) pid" for pid using i(4) by simp
  qed
qed

lemma step_killed_late:
  assumes "bg_inv E written (p, h)" "image h = Some q" "ended h = None" "sig \<noteq> 0"
    and "bgsave_child E written io (save_all_request q) (rdb_filename q) (q\<lparr>files := files p\<rparr>) = Inr (code, q')"
  shows "bg_inv E written (p\<lparr>files := files q'\<rparr>,
     (new_dump (if code = 0 then C_OK else C_ERR) p (p\<lparr>files := files q'\<rparr>) (at_fork h) (srv q) h)\<lparr>ended := Some (0, sig)\<rparr>)"
  using assms(4) by (intro step_exits [OF assms(1-3,5)]) simp

lemma step_exited:
  assumes "bg_inv E written (p, h)" "image h = Some q" "ended h = None"
    and "bgsave_child E written io (save_all_request q) (rdb_filename q) (q\<lparr>files := files p\<rparr>) = Inr (code, q')"
  shows "bg_inv E written (p\<lparr>files := files q'\<rparr>,
     (new_dump (if code = 0 then C_OK else C_ERR) p (p\<lparr>files := files q'\<rparr>) (at_fork h) (srv q) h)\<lparr>ended := Some (code, 0)\<rparr>)"
  by (intro step_exits [OF assms]) simp

lemma step_killed:
  assumes inv: "bg_inv E written (p, h)" and c: "child_type p = CHILD_TYPE_RDB" "sig \<noteq> 0"
  shows "bg_inv E written (p\<lparr>files := (files p)(temp_name (lib E) pid := partial)\<rparr>, h\<lparr>ended := Some (0, sig)\<rparr>)"
proof (rule bg_invI)
  note i = bg_invD [OF inv]
  let ?p = "p\<lparr>files := (files p)(temp_name (lib E) pid := partial)\<rparr>" and ?h = "h\<lparr>ended := Some (0, sig)\<rparr>"
  show "counts_ok (dirty (srv ?p)) ?h" using i(1) by (simp add: counts_ok_def)
  show "dump_ok E written (files ?p) (rdb_filename ?p) ?h" using i(2,4) by (simp add: dump_ok_def)
  show "child_ok ?p ?h" using i(3) c by (auto simp: child_ok_def)
  show "rdb_filename ?p \<noteq> temp_name (lib E) pid" for pid using i(4) by simp
qed

lemma step_transfer_ends:
  assumes inv: "bg_inv E written (p, h)" and c: "child_type p = CHILD_TYPE_RDB" "image h = None"
  shows "bg_inv E written (p, h\<lparr>ended := Some (code, 0)\<rparr>)"
proof (rule bg_invI)
  note i = bg_invD [OF inv]
  show "counts_ok (dirty (srv p)) (h\<lparr>ended := Some (code, 0)\<rparr>)" using i(1) by (simp add: counts_ok_def)
  show "dump_ok E written (files p) (rdb_filename p) (h\<lparr>ended := Some (code, 0)\<rparr>)" using i(2) by (simp add: dump_ok_def)
  show "child_ok p (h\<lparr>ended := Some (code, 0)\<rparr>)" using i(3) c by (simp add: child_ok_def)
qed (rule bg_invD(4) [OF inv])

lemma saved_refused:
  assumes "bg_inv E written (p, h)" "child_type p = CHILD_TYPE_RDB" "saveCommand E written io p = Inr p'"
  shows "bg_inv E written (p', h)"
  using assms by (intro bg_inv_same [OF assms(1)]) (auto simp: saveCommand_def same_child_refl)

text \<open>What the handlers change.\<close>

lemma handler:
  assumes "backgroundSaveDoneHandler L now code sig p = Inr p'"
  shows "rdb_filename p' = rdb_filename p"
    "files p' = files p \<or> files p' = (files p)(temp_name L (child_pid p) := None)"
    "dirty (srv p') = (if rdb_child_type p = RDB_CHILD_TYPE_DISK \<and> code = 0 \<and> sig = 0
                       then dirty (srv p) - dirty_before_bgsave p else dirty (srv p))"
    "rdb_child_type p' = RDB_CHILD_TYPE_NONE"
  using assms
  by (auto simp: backgroundSaveDoneHandler_def backgroundSaveDoneHandlerDisk_def backgroundSaveDoneHandlerSocket_def Let_def
      close_fd_def log_io_def on_srv_def rdbRemoveTempFile_def child_defs split: if_splits)

context children
begin

lemma step_reap:
  assumes inv: "bg_inv E written (p, h)" and e: "ended h = Some (code, sig)"
    and r: "backgroundSaveDoneHandler (lib E) now code sig p = Inr p'"
  shows "bg_inv E written (reset p', h\<lparr>ended := None, image := None,
     recorded := if rdb_child_type p = RDB_CHILD_TYPE_DISK \<and> code = 0 \<and> sig = 0 then at_fork h else recorded h\<rparr>)"
proof (rule bg_invI)
  note i = bg_invD [OF inv] and r = handler [OF r]
  let ?ok = "rdb_child_type p = RDB_CHILD_TYPE_DISK \<and> code = 0 \<and> sig = 0"
  let ?h = "h\<lparr>ended := None, image := None, recorded := if ?ok then at_fork h else recorded h\<rparr>"
  have c: "child_type p = CHILD_TYPE_RDB" using i(3) e by (auto simp: child_ok_def split: if_splits)
  have f: "rdb_filename (reset p') = rdb_filename p" "files (reset p') = files p'" "dirty (srv (reset p')) = dirty (srv p')"
    "child_type (reset p') = CHILD_TYPE_NONE"
    by (simp_all add: reset_child r(1))
  show "counts_ok (dirty (srv (reset p'))) ?h"
  proof (cases ?ok)
    case True
    then have "dirty_before_bgsave p = at_fork h - recorded h" "on_disk h = at_fork h" "at_fork h \<le> total h"
      using i(3) c e by (auto simp: child_ok_def child_defs)
    then show ?thesis using i(1) True r(3) by (simp add: f counts_ok_def)
  next
    case False
    have "(if ?ok then at_fork h else recorded h) = recorded h" by (rule if_not_P [OF False])
    moreover have "dirty (srv p') = dirty (srv p)" using r(3) unfolding if_not_P [OF False] .
    ultimately show ?thesis unfolding f(3) using i(1) by (simp add: counts_ok_def)
  qed
  show "dump_ok E written (files (reset p')) (rdb_filename (reset p')) ?h"
    using i(2,4) r(2) by (auto simp: f dump_ok_def)
  show "child_ok (reset p') ?h" by (rule child_ok_none) (simp_all add: f(4) child_defs)
  show "rdb_filename (reset p') \<noteq> temp_name (lib E) pid" for pid using i(4) by (simp add: f)
qed

lemma step_inv: "bg_step E written fork reset x y \<Longrightarrow> bg_inv E written x \<Longrightarrow> bg_inv E written y"
  by (induction rule: bg_step.induct)
    (blast intro: step_write step_save step_bgsave step_transfer step_exited step_killed_late step_transfer_ends step_killed step_reap
      saved_refused)+

lemma reach_inv: "(bg_step E written fork reset)\<^sup>*\<^sup>* x y \<Longrightarrow> bg_inv E written x \<Longrightarrow> bg_inv E written y"
  by (induction rule: rtranclp_induct) (simp, blast intro: step_inv)

end

subsection \<open>What a crash loses\<close>

definition new_history :: history where
  "new_history = \<lparr>total = 0, recorded = 0, on_disk = 0, at_fork = 0, dumped = None, image = None, ended = None\<rparr>"

text \<open>
  C7: Whatever the order of writes, SAVE, BGSAVE, transfers to replicas, children that end, fail or are killed, and
  their handling, and whatever system call fails: the counter of unsaved changes is at least the number of
  changes the dump file does not hold, so that the save points never count too few; and once the
  dump file has been replaced it is a complete file, written to the end, of one data set of the server.
\<close>

theorem dirty_covers_losses:
  assumes "children fork reset" "(bg_step E written fork reset)\<^sup>*\<^sup>* (p0, new_history) (p, h)"
    and "dirty (srv p0) = 0" "child_type p0 \<noteq> CHILD_TYPE_RDB" "\<forall>pid. rdb_filename p0 \<noteq> temp_name (lib E) pid"
  shows "0 \<le> dirty (srv p) \<and> total h - on_disk h \<le> dirty (srv p)
    \<and> (\<forall>s. dumped h = Some s \<longrightarrow>
         (\<exists>r req r'. rdbSaveRio E req s r = Inr (C_OK, r') \<and> files p (rdb_filename p) = Some (written r')))"
proof -
  have "bg_inv E written (p0, new_history)"
    using assms(3-5) by (intro bg_invI child_ok_none) (simp_all add: new_history_def counts_ok_def dump_ok_def)
  from children.reach_inv [OF assms(1,2) this] have "bg_inv E written (p, h)" .
  from bg_invD(1,2) [OF this] show ?thesis by (auto simp: counts_ok_def dump_ok_def)
qed

definition demo_fork :: forker where
  "demo_fork t p = Some (p\<lparr>child_type := t, child_pid := 43, srv := (srv p)\<lparr>active_child := True\<rparr>\<rparr>)"

definition demo_reset :: "persistence \<Rightarrow> persistence" where
  "demo_reset p = p\<lparr>child_type := CHILD_TYPE_NONE, child_pid := - 1, srv := (srv p)\<lparr>active_child := False\<rparr>\<rparr>"

interpretation demo_child: children demo_fork demo_reset
  by unfold_locales (auto simp: demo_fork_def demo_reset_def)

lemma demo_saves:
  "\<exists>p h. (bg_step disk_rdb wbuf demo_fork demo_reset)\<^sup>*\<^sup>*
        (demo_persistence\<lparr>srv := (srv demo_persistence)\<lparr>dirty := 0\<rparr>\<rparr>, new_history) (p, h)
      \<and> child_type p = CHILD_TYPE_RDB \<and> ended h = Some (0, SIGUSR1) \<and> total h - on_disk h = 3"
proof -
  let ?step = "bg_step disk_rdb wbuf demo_fork demo_reset"
  let ?p0 = "demo_persistence\<lparr>srv := (srv demo_persistence)\<lparr>dirty := 0\<rparr>\<rparr>"
  let ?p1 = "?p0\<lparr>srv := (srv ?p0)\<lparr>dirty := 3\<rparr>\<rparr>" and ?h1 = "new_history\<lparr>total := total new_history + 3\<rparr>"
  define p2 where "p2 = bgsaveCommand demo_fork 9 (demo_client [[66]]) ?p1"
  let ?h2 = "if child_type ?p1 \<noteq> CHILD_TYPE_RDB \<and> child_type p2 = CHILD_TYPE_RDB
             then ?h1\<lparr>at_fork := total ?h1, image := Some p2\<rparr> else ?h1"
  let ?p3 = "p2\<lparr>files := (files p2)(temp_name (lib disk_rdb) (child_pid p2) := Some [1])\<rparr>"
  have c2: "child_type p2 = CHILD_TYPE_RDB"
    by (simp add: p2_def bgsaveCommand_def bgsave_now_def rdbSaveBackground_def demo_fork_def demo_client_def demo_persistence_def
        demo_saved_def string_server_def init_server_def Let_def child_defs)
  have c1: "child_type ?p1 \<noteq> CHILD_TYPE_RDB" "child_type ?p0 \<noteq> CHILD_TYPE_RDB"
    by (simp_all add: demo_persistence_def child_defs)
  have "?step (?p0, new_history) (?p1, ?h1)" by (rule bg_step.Write) simp_all
  moreover have "?step (?p1, ?h1) (p2, ?h2)" by (rule bg_step.Bgsave) (simp add: p2_def)
  moreover have "?step (p2, ?h2) (?p3, ?h2\<lparr>ended := Some (0, SIGUSR1)\<rparr>)"
    by (rule bg_step.ChildKilled) (simp_all add: c2 new_history_def SIGUSR1_def)
  ultimately have run: "?step\<^sup>*\<^sup>* (?p0, new_history) (?p3, ?h2\<lparr>ended := Some (0, SIGUSR1)\<rparr>)"
    by (meson converse_rtranclp_into_rtranclp rtranclp.rtrancl_refl)
  have "total (?h2\<lparr>ended := Some (0, SIGUSR1)\<rparr>) - on_disk (?h2\<lparr>ended := Some (0, SIGUSR1)\<rparr>) = 3"
    by (simp add: new_history_def)
  with run c2 show ?thesis
    by (intro exI [of _ ?p3] exI [of _ "?h2\<lparr>ended := Some (0, SIGUSR1)\<rparr>"]) simp
qed

theorem dirty_covers_losses_witness:
  "\<exists>p h. (bg_step disk_rdb wbuf demo_fork demo_reset)\<^sup>*\<^sup>*
        (demo_persistence\<lparr>srv := (srv demo_persistence)\<lparr>dirty := 0\<rparr>\<rparr>, new_history) (p, h)
      \<and> ended h = Some (0, SIGUSR1) \<and> total h - on_disk h = 3 \<and> 3 \<le> dirty (srv p)"
proof -
  let ?p0 = "demo_persistence\<lparr>srv := (srv demo_persistence)\<lparr>dirty := 0\<rparr>\<rparr>"
  obtain p h where run: "(bg_step disk_rdb wbuf demo_fork demo_reset)\<^sup>*\<^sup>* (?p0, new_history) (p, h)"
      "ended h = Some (0, SIGUSR1)" "total h - on_disk h = 3"
    using demo_saves by blast
  have i: "dirty (srv ?p0) = 0" "child_type ?p0 \<noteq> CHILD_TYPE_RDB" "\<forall>pid. rdb_filename ?p0 \<noteq> temp_name (lib disk_rdb) pid"
    by (simp_all add: demo_persistence_def child_defs temp_name_def bytes_of_def)
  show ?thesis using dirty_covers_losses [OF demo_child.children_axioms run(1) i] run by (intro exI [of _ p] exI [of _ h]) simp
qed

subsection \<open>The handlers never panic\<close>

lemma handled:
  assumes "child_ok p h" "ended h \<noteq> None"
  shows "\<exists>p'. backgroundSaveDoneHandler L now code sig p = Inr p'"
proof -
  have "rdb_child_type p = RDB_CHILD_TYPE_DISK \<or> rdb_child_type p = RDB_CHILD_TYPE_SOCKET"
    using assms by (auto simp: child_ok_def split: if_splits)
  then show ?thesis by (auto simp: backgroundSaveDoneHandler_def Let_def)
qed

text \<open>
  C10: In every state that writes, saves and children lead to, the end of a child is handled without the panic for
  an unknown type of child, whatever its exit code and signal, and afterwards BGSAVE can start the next child:
  no sequence of failures leaves the server unable to save.
\<close>

theorem background_save_resumes:
  assumes "children fork reset" "(bg_step E written fork reset)\<^sup>*\<^sup>* (p0, new_history) (p, h)"
    and "dirty (srv p0) = 0" "child_type p0 \<noteq> CHILD_TYPE_RDB" "\<forall>pid. rdb_filename p0 \<noteq> temp_name (lib E) pid"
    and "ended h = Some (code, sig)" "\<forall>q. fork CHILD_TYPE_RDB q \<noteq> None"
  shows "\<exists>p' p''. backgroundSaveDoneHandler (lib E) now code sig p = Inr p'
      \<and> rdbSaveBackground fork now (reset p') = (C_OK, p'') \<and> child_type p'' = CHILD_TYPE_RDB
      \<and> dirty_before_bgsave p'' = dirty (srv p')"
proof -
  have "bg_inv E written (p0, new_history)"
    using assms(3-5) by (intro bg_invI child_ok_none) (simp_all add: new_history_def counts_ok_def dump_ok_def)
  from children.reach_inv [OF assms(1,2) this] have "child_ok p h" by (rule bg_invD(3))
  then obtain p' where p': "backgroundSaveDoneHandler (lib E) now code sig p = Inr p'" using handled assms(6) by blast
  have r: "active_child (srv (reset p')) = False" "dirty (srv (reset p')) = dirty (srv p')"
    by (simp_all add: children.reset_child [OF assms(1)])
  obtain st p'' where b: "rdbSaveBackground fork now (reset p') = (st, p'')" by (cases "rdbSaveBackground fork now (reset p')")
  obtain q where "fork CHILD_TYPE_RDB ((reset p')\<lparr>stat_rdb_saves := stat_rdb_saves (reset p') + 1,
      dirty_before_bgsave := dirty (srv (reset p')), lastbgsave_try := now\<rparr>) = Some q"
    using assms(7) by (metis option.exhaust)
  then have "st = C_OK" using b r(1) by (simp add: rdbSaveBackground_def Let_def)
  with p' b children.background [OF assms(1) b] r(2) show ?thesis by simp
qed

theorem background_save_resumes_witness:
  "\<exists>p h p' p''. (bg_step disk_rdb wbuf demo_fork demo_reset)\<^sup>*\<^sup>*
        (demo_persistence\<lparr>srv := (srv demo_persistence)\<lparr>dirty := 0\<rparr>\<rparr>, new_history) (p, h) \<and> ended h = Some (0, SIGUSR1)
      \<and> backgroundSaveDoneHandler (lib disk_rdb) 99 0 SIGUSR1 p = Inr p'
      \<and> rdbSaveBackground demo_fork 99 (demo_reset p') = (C_OK, p'')"
proof -
  let ?p0 = "demo_persistence\<lparr>srv := (srv demo_persistence)\<lparr>dirty := 0\<rparr>\<rparr>"
  obtain p h where run: "(bg_step disk_rdb wbuf demo_fork demo_reset)\<^sup>*\<^sup>* (?p0, new_history) (p, h)" "ended h = Some (0, SIGUSR1)"
    using demo_saves by blast
  have i: "dirty (srv ?p0) = 0" "child_type ?p0 \<noteq> CHILD_TYPE_RDB" "\<forall>pid. rdb_filename ?p0 \<noteq> temp_name (lib disk_rdb) pid"
    by (simp_all add: demo_persistence_def child_defs temp_name_def bytes_of_def)
  have f: "\<forall>q. demo_fork CHILD_TYPE_RDB q \<noteq> None" by (simp add: demo_fork_def)
  show ?thesis using background_save_resumes [OF demo_child.children_axioms run(1) i run(2) f, of 99] run by blast
qed

subsection \<open>Two gaps\<close>

lemma flushAll_same:
  assumes "flushAllDataAndResetRDB E written io flags p = Inr p1"
  shows "rdb_child_type p1 = rdb_child_type p" "dirty_before_bgsave p1 = dirty_before_bgsave p"
proof -
  obtain n s where e: "emptyData (- 1) flags (srv p) = Inr (n, s)"
    using assms by (cases "emptyData (- 1) flags (srv p)") (auto simp: flushAllDataAndResetRDB_def)
  define q where "q = (if child_type (p\<lparr>srv := s\<lparr>dirty := dirty s + n\<rparr>\<rparr>) = CHILD_TYPE_RDB then killRDBChild (p\<lparr>srv := s\<lparr>dirty := dirty s + n\<rparr>\<rparr>)
      else p\<lparr>srv := s\<lparr>dirty := dirty s + n\<rparr>\<rparr>)"
  have q: "rdb_child_type q = rdb_child_type p" "dirty_before_bgsave q = dirty_before_bgsave p"
    by (simp_all add: q_def killRDBChild_def log_io_def)
  obtain q1 where q1: "(if 0 < saveparamslen q
        then cbind (rdbSave E written io (save_all_request q) (rdb_filename q) q) (\<lambda>(_, p3). Inr p3) else Inr q) = Inr q1"
      "p1 = (if flag_set flags EMPTYDB_ASYNC then q1 else log_io JemallocPurge q1)"
    using assms unfolding flushAllDataAndResetRDB_def e cbind_Inr split_conv Let_def q_def [symmetric]
    by (auto simp only: cbind_eq_Inr sum.inject)
  have "same_child q q1"
  proof (cases "0 < saveparamslen q")
    case True
    then obtain st where "rdbSave E written io (save_all_request q) (rdb_filename q) q = Inr (st, q1)"
      using q1(1) by (auto simp: cbind_eq_Inr)
    then show ?thesis by (rule rdbSave_same)
  qed (use q1(1) in \<open>simp add: same_child_refl\<close>)
  then show "rdb_child_type p1 = rdb_child_type p" "dirty_before_bgsave p1 = dirty_before_bgsave p"
    using q q1(2) by (simp_all add: same_child_def log_io_def)
qed

text \<open>
  FLUSHALL kills the child of a BGSAVE and saves the empty data set, which resets the counter of unsaved
  changes. When the child had already ended well, its handler still subtracts what the counter was when
  the child started: the counter becomes negative and the save points count too few changes from then on.
\<close>

lemma flushall_after_child_ended:
  assumes "flushAllDataAndResetRDB E written io flags p = Inr p1" "dirty (srv p1) = 0"
    and "rdb_child_type p = RDB_CHILD_TYPE_DISK" "0 < dirty_before_bgsave p"
    and "backgroundSaveDoneHandler L now 0 0 p1 = Inr p2"
  shows "dirty (srv p2) = - dirty_before_bgsave p" "dirty (srv p2) < 0"
  using handler(3) [OF assms(5)] flushAll_same [OF assms(1)] assms(2-4) by simp_all

lemma fold_fds:
  "open_fds (fold (\<lambda>r. log_io (f r)) rs (q\<lparr>rdb_pipe_conns := cs, rdb_pipe_numconns_writing := n, slave_list := l\<rparr>)) = open_fds q
   \<and> rdb_child_exit_pipe (fold (\<lambda>r. log_io (f r)) rs (q\<lparr>rdb_pipe_conns := cs, rdb_pipe_numconns_writing := n, slave_list := l\<rparr>))
       = rdb_child_exit_pipe q
   \<and> rdb_pipe_read (fold (\<lambda>r. log_io (f r)) rs (q\<lparr>rdb_pipe_conns := cs, rdb_pipe_numconns_writing := n, slave_list := l\<rparr>))
       = rdb_pipe_read q"
proof -
  have "open_fds (fold (\<lambda>r. log_io (f r)) rs x) = open_fds x
      \<and> rdb_child_exit_pipe (fold (\<lambda>r. log_io (f r)) rs x) = rdb_child_exit_pipe x
      \<and> rdb_pipe_read (fold (\<lambda>r. log_io (f r)) rs x) = rdb_pipe_read x" for x
    by (induction rs arbitrary: x) (simp_all add: log_io_def)
  then show ?thesis by simp
qed

text \<open>
  When \<open>fork\<close> fails, the transfer closes the ends of the pipe of the data and the reading end of the exit
  pipe; the writing end of the exit pipe stays open, and the next transfer overwrites the field that held it.
\<close>

lemma exit_pipe_leaks:
  assumes "rdbSaveToSlavesSockets fork (Some (rd1, wr1)) (Some (rd2, wr2)) now req p = (st, p')"
    and "\<not> active_child (srv p)" "rdb_pipe_conns p = None" "\<forall>q. fork CHILD_TYPE_RDB q = None"
    and "distinct [rd1, wr1, rd2, wr2]"
  shows "st = C_ERR \<and> wr2 \<in> set (open_fds p') \<and> rdb_child_exit_pipe p' = wr2"
proof -
  have "open_fds (set_up_replicas req q) = open_fds q \<and> rdb_child_exit_pipe (set_up_replicas req q) = rdb_child_exit_pipe q
      \<and> rdb_pipe_read (set_up_replicas req q) = rdb_pipe_read q" for q
    unfolding set_up_replicas_def Let_def by (rule fold_fds)
  with assms show ?thesis
    by (auto simp: rdbSaveToSlavesSockets_def Let_def close_fd_def undo_replicas_def)
qed

end
