(* ===== verification/Config_Values.thy ===== *)
theory Config_Values
  imports C_String Redis_Types
begin

section \<open>Values of the configuration: enumerations, yes and no\<close>

text \<open>
  The tables of names of config.c and the two translations between the names an option is given and the
  integer stored for it. An option with several arguments is a set of flags, whose names are joined by
  blanks. The round trip holds for the values of a table of distinct names, for the sets of flags of a table
  of disjoint bits.
\<close>

subsection \<open>Constants of server.h\<close>

definition SUPERVISED_NONE :: int where "SUPERVISED_NONE = 0"
definition SUPERVISED_AUTODETECT :: int where "SUPERVISED_AUTODETECT = 1"
definition SUPERVISED_SYSTEMD :: int where "SUPERVISED_SYSTEMD = 2"
definition SUPERVISED_UPSTART :: int where "SUPERVISED_UPSTART = 3"
definition LL_DEBUG :: int where "LL_DEBUG = 0"
definition LL_VERBOSE :: int where "LL_VERBOSE = 1"
definition LL_NOTICE :: int where "LL_NOTICE = 2"
definition LL_WARNING :: int where "LL_WARNING = 3"
definition LL_NOTHING :: int where "LL_NOTHING = 4"
definition AOF_FSYNC_NO :: int where "AOF_FSYNC_NO = 0"
definition AOF_FSYNC_ALWAYS :: int where "AOF_FSYNC_ALWAYS = 1"
definition AOF_FSYNC_EVERYSEC :: int where "AOF_FSYNC_EVERYSEC = 2"
definition SHUTDOWN_NOFLAGS :: int where "SHUTDOWN_NOFLAGS = 0"
definition SHUTDOWN_SAVE :: int where "SHUTDOWN_SAVE = 1"
definition SHUTDOWN_NOSAVE :: int where "SHUTDOWN_NOSAVE = 2"
definition SHUTDOWN_NOW :: int where "SHUTDOWN_NOW = 4"
definition SHUTDOWN_FORCE :: int where "SHUTDOWN_FORCE = 8"
definition REPL_DISKLESS_LOAD_DISABLED :: int where "REPL_DISKLESS_LOAD_DISABLED = 0"
definition REPL_DISKLESS_LOAD_WHEN_DB_EMPTY :: int where "REPL_DISKLESS_LOAD_WHEN_DB_EMPTY = 1"
definition REPL_DISKLESS_LOAD_SWAPDB :: int where "REPL_DISKLESS_LOAD_SWAPDB = 2"
definition TLS_CLIENT_AUTH_NO :: int where "TLS_CLIENT_AUTH_NO = 0"
definition TLS_CLIENT_AUTH_YES :: int where "TLS_CLIENT_AUTH_YES = 1"
definition TLS_CLIENT_AUTH_OPTIONAL :: int where "TLS_CLIENT_AUTH_OPTIONAL = 2"
definition OOM_SCORE_ADJ_NO :: int where "OOM_SCORE_ADJ_NO = 0"
definition OOM_SCORE_RELATIVE :: int where "OOM_SCORE_RELATIVE = 1"
definition OOM_SCORE_ADJ_ABSOLUTE :: int where "OOM_SCORE_ADJ_ABSOLUTE = 2"
definition SELECTOR_FLAG_ALLCHANNELS :: int where "SELECTOR_FLAG_ALLCHANNELS = 8"
definition SANITIZE_DUMP_NO :: int where "SANITIZE_DUMP_NO = 0"
definition SANITIZE_DUMP_YES :: int where "SANITIZE_DUMP_YES = 1"
definition SANITIZE_DUMP_CLIENTS :: int where "SANITIZE_DUMP_CLIENTS = 2"
definition PROTECTED_ACTION_ALLOWED_NO :: int where "PROTECTED_ACTION_ALLOWED_NO = 0"
definition PROTECTED_ACTION_ALLOWED_YES :: int where "PROTECTED_ACTION_ALLOWED_YES = 1"
definition PROTECTED_ACTION_ALLOWED_LOCAL :: int where "PROTECTED_ACTION_ALLOWED_LOCAL = 2"
definition CLUSTER_ENDPOINT_TYPE_IP :: int where "CLUSTER_ENDPOINT_TYPE_IP = 0"
definition CLUSTER_ENDPOINT_TYPE_HOSTNAME :: int where "CLUSTER_ENDPOINT_TYPE_HOSTNAME = 1"
definition CLUSTER_ENDPOINT_TYPE_UNKNOWN_ENDPOINT :: int where "CLUSTER_ENDPOINT_TYPE_UNKNOWN_ENDPOINT = 2"
definition PROPAGATION_ERR_BEHAVIOR_IGNORE :: int where "PROPAGATION_ERR_BEHAVIOR_IGNORE = 0"
definition PROPAGATION_ERR_BEHAVIOR_PANIC :: int where "PROPAGATION_ERR_BEHAVIOR_PANIC = 1"
definition PROPAGATION_ERR_BEHAVIOR_PANIC_ON_REPLICAS :: int where "PROPAGATION_ERR_BEHAVIOR_PANIC_ON_REPLICAS = 2"

text \<open>The facilities of \<open>syslog\<close>, as in syslog.h.\<close>

definition LOG_USER :: int where "LOG_USER = 1 * 8"
definition LOG_LOCAL :: "int \<Rightarrow> int" where "LOG_LOCAL n = (16 + n) * 8"

lemmas enum_constants =
  SUPERVISED_NONE_def SUPERVISED_AUTODETECT_def SUPERVISED_SYSTEMD_def SUPERVISED_UPSTART_def
  LL_DEBUG_def LL_VERBOSE_def LL_NOTICE_def LL_WARNING_def LL_NOTHING_def
  AOF_FSYNC_NO_def AOF_FSYNC_ALWAYS_def AOF_FSYNC_EVERYSEC_def
  SHUTDOWN_SAVE_def SHUTDOWN_NOSAVE_def SHUTDOWN_NOW_def SHUTDOWN_FORCE_def
  REPL_DISKLESS_LOAD_DISABLED_def REPL_DISKLESS_LOAD_WHEN_DB_EMPTY_def REPL_DISKLESS_LOAD_SWAPDB_def
  TLS_CLIENT_AUTH_NO_def TLS_CLIENT_AUTH_YES_def TLS_CLIENT_AUTH_OPTIONAL_def
  OOM_SCORE_ADJ_NO_def OOM_SCORE_RELATIVE_def OOM_SCORE_ADJ_ABSOLUTE_def SELECTOR_FLAG_ALLCHANNELS_def
  SANITIZE_DUMP_NO_def SANITIZE_DUMP_YES_def SANITIZE_DUMP_CLIENTS_def
  PROTECTED_ACTION_ALLOWED_NO_def PROTECTED_ACTION_ALLOWED_YES_def PROTECTED_ACTION_ALLOWED_LOCAL_def
  CLUSTER_ENDPOINT_TYPE_IP_def CLUSTER_ENDPOINT_TYPE_HOSTNAME_def CLUSTER_ENDPOINT_TYPE_UNKNOWN_ENDPOINT_def
  PROPAGATION_ERR_BEHAVIOR_IGNORE_def PROPAGATION_ERR_BEHAVIOR_PANIC_def
  PROPAGATION_ERR_BEHAVIOR_PANIC_ON_REPLICAS_def LOG_USER_def LOG_LOCAL_def

subsection \<open>The tables\<close>

text \<open>The entry with a null name that ends a table in C is left out.\<close>

type_synonym configEnum = "(string \<times> int) list"

definition maxmemory_policy_enum :: configEnum where
  "maxmemory_policy_enum =
     [(''volatile-lru'', MAXMEMORY_VOLATILE_LRU), (''volatile-lfu'', MAXMEMORY_VOLATILE_LFU),
      (''volatile-random'', MAXMEMORY_VOLATILE_RANDOM), (''volatile-ttl'', MAXMEMORY_VOLATILE_TTL),
      (''allkeys-lru'', MAXMEMORY_ALLKEYS_LRU), (''allkeys-lru-histogram'', MAXMEMORY_ALLKEYS_LRU_HISTOGRAM),
      (''allkeys-lfu'', MAXMEMORY_ALLKEYS_LFU), (''allkeys-random'', MAXMEMORY_ALLKEYS_RANDOM),
      (''noeviction'', MAXMEMORY_NO_EVICTION)]"

definition syslog_facility_enum :: configEnum where
  "syslog_facility_enum =
     [(''user'', LOG_USER), (''local0'', LOG_LOCAL 0), (''local1'', LOG_LOCAL 1), (''local2'', LOG_LOCAL 2),
      (''local3'', LOG_LOCAL 3), (''local4'', LOG_LOCAL 4), (''local5'', LOG_LOCAL 5), (''local6'', LOG_LOCAL 6),
      (''local7'', LOG_LOCAL 7)]"

definition loglevel_enum :: configEnum where
  "loglevel_enum =
     [(''debug'', LL_DEBUG), (''verbose'', LL_VERBOSE), (''notice'', LL_NOTICE), (''warning'', LL_WARNING),
      (''nothing'', LL_NOTHING)]"

definition supervised_mode_enum :: configEnum where
  "supervised_mode_enum =
     [(''upstart'', SUPERVISED_UPSTART), (''systemd'', SUPERVISED_SYSTEMD), (''auto'', SUPERVISED_AUTODETECT),
      (''no'', SUPERVISED_NONE)]"

definition aof_fsync_enum :: configEnum where
  "aof_fsync_enum = [(''everysec'', AOF_FSYNC_EVERYSEC), (''always'', AOF_FSYNC_ALWAYS), (''no'', AOF_FSYNC_NO)]"

definition shutdown_on_sig_enum :: configEnum where
  "shutdown_on_sig_enum =
     [(''default'', 0), (''save'', SHUTDOWN_SAVE), (''nosave'', SHUTDOWN_NOSAVE), (''now'', SHUTDOWN_NOW),
      (''force'', SHUTDOWN_FORCE)]"

definition repl_diskless_load_enum :: configEnum where
  "repl_diskless_load_enum =
     [(''disabled'', REPL_DISKLESS_LOAD_DISABLED), (''on-empty-db'', REPL_DISKLESS_LOAD_WHEN_DB_EMPTY),
      (''swapdb'', REPL_DISKLESS_LOAD_SWAPDB)]"

definition tls_auth_clients_enum :: configEnum where
  "tls_auth_clients_enum =
     [(''no'', TLS_CLIENT_AUTH_NO), (''yes'', TLS_CLIENT_AUTH_YES), (''optional'', TLS_CLIENT_AUTH_OPTIONAL)]"

definition oom_score_adj_enum :: configEnum where
  "oom_score_adj_enum =
     [(''no'', OOM_SCORE_ADJ_NO), (''yes'', OOM_SCORE_RELATIVE), (''relative'', OOM_SCORE_RELATIVE),
      (''absolute'', OOM_SCORE_ADJ_ABSOLUTE)]"

definition acl_pubsub_default_enum :: configEnum where
  "acl_pubsub_default_enum = [(''allchannels'', SELECTOR_FLAG_ALLCHANNELS), (''resetchannels'', 0)]"

definition sanitize_dump_payload_enum :: configEnum where
  "sanitize_dump_payload_enum =
     [(''no'', SANITIZE_DUMP_NO), (''yes'', SANITIZE_DUMP_YES), (''clients'', SANITIZE_DUMP_CLIENTS)]"

definition protected_action_enum :: configEnum where
  "protected_action_enum =
     [(''no'', PROTECTED_ACTION_ALLOWED_NO), (''yes'', PROTECTED_ACTION_ALLOWED_YES),
      (''local'', PROTECTED_ACTION_ALLOWED_LOCAL)]"

definition cluster_preferred_endpoint_type_enum :: configEnum where
  "cluster_preferred_endpoint_type_enum =
     [(''ip'', CLUSTER_ENDPOINT_TYPE_IP), (''hostname'', CLUSTER_ENDPOINT_TYPE_HOSTNAME),
      (''unknown-endpoint'', CLUSTER_ENDPOINT_TYPE_UNKNOWN_ENDPOINT)]"

definition propagation_error_behavior_enum :: configEnum where
  "propagation_error_behavior_enum =
     [(''ignore'', PROPAGATION_ERR_BEHAVIOR_IGNORE), (''panic'', PROPAGATION_ERR_BEHAVIOR_PANIC),
      (''panic-on-replicas'', PROPAGATION_ERR_BEHAVIOR_PANIC_ON_REPLICAS)]"

lemmas enum_tables =
  maxmemory_policy_enum_def syslog_facility_enum_def loglevel_enum_def supervised_mode_enum_def
  aof_fsync_enum_def shutdown_on_sig_enum_def repl_diskless_load_enum_def tls_auth_clients_enum_def
  oom_score_adj_enum_def acl_pubsub_default_enum_def sanitize_dump_payload_enum_def
  protected_action_enum_def cluster_preferred_endpoint_type_enum_def propagation_error_behavior_enum_def

subsection \<open>From names to a value and back\<close>

text \<open>The loop over the table does not stop at a match: the values of all the entries that match are added.\<close>

definition matching :: "configEnum \<Rightarrow> sds \<Rightarrow> int list" where
  "matching ce a = map snd (filter (\<lambda>(n, _). arg_is a n) ce)"

fun enum_values :: "configEnum \<Rightarrow> sds list \<Rightarrow> int \<Rightarrow> int" where
  "enum_values ce [] values = values"
| "enum_values ce (a # as) values =
     (if matching ce a = [] then INT_MIN else enum_values ce as (fold (\<lambda>v w. w OR v) (matching ce a) values))"

definition configEnumGetValue :: "configEnum \<Rightarrow> sds list \<Rightarrow> bool \<Rightarrow> int" where
  "configEnumGetValue ce argv bitflags =
     (if argv = [] \<or> \<not> bitflags \<and> length argv \<noteq> 1 then INT_MIN else enum_values ce argv 0)"

text \<open>The state of the loop: the names so far and the bits not yet named.\<close>

fun enum_name :: "configEnum \<Rightarrow> int \<Rightarrow> bool \<Rightarrow> sds option \<Rightarrow> int \<Rightarrow> sds" where
  "enum_name [] values bitflags names unmatched =
     (case names of None \<Rightarrow> bytes_of ''unknown'' | Some n \<Rightarrow> if unmatched \<noteq> 0 then bytes_of ''unknown'' else n)"
| "enum_name ((n, v) # ce) values bitflags names unmatched =
     (if values = v then bytes_of n
      else if bitflags \<and> v \<noteq> 0 \<and> v = (unmatched AND v)
      then enum_name ce values bitflags
             (Some (case names of None \<Rightarrow> bytes_of n | Some m \<Rightarrow> m @ bytes_of '' '' @ bytes_of n)) (unmatched AND NOT v)
      else enum_name ce values bitflags names unmatched)"

definition configEnumGetName :: "configEnum \<Rightarrow> int \<Rightarrow> bool \<Rightarrow> sds" where
  "configEnumGetName ce values bitflags = enum_name ce values bitflags None values"

fun policy_name :: "configEnum \<Rightarrow> int \<Rightarrow> string cres" where
  "policy_name [] p = Inl Panicked"
| "policy_name ((n, v) # ce) p = (if p = v then Inr n else policy_name ce p)"

definition evictPolicyToString :: "server \<Rightarrow> string cres" where
  "evictPolicyToString s = policy_name maxmemory_policy_enum (maxmemory_policy s)"

definition yesnotoi :: "sds \<Rightarrow> int" where
  "yesnotoi s = (if arg_is s ''yes'' then 1 else if arg_is s ''no'' then 0 else - 1)"

subsection \<open>Well-formed tables\<close>

definition folded :: "sds \<Rightarrow> sds" where
  "folded a = map tolower8 (cstr a)"

lemma arg_is_folded: "arg_is a n \<longleftrightarrow> folded a = folded (bytes_of n)"
  by (simp add: arg_is_def strcaseeq_def folded_def)

definition enum_wf :: "configEnum \<Rightarrow> bool" where
  "enum_wf ce =
     (distinct (map (\<lambda>(n, _). folded (bytes_of n)) ce)
      \<and> (\<forall>(n, v) \<in> set ce. n \<noteq> [] \<and> CHR '' '' \<notin> set n \<and> 0 \<le> v))"

definition disjoint_bits :: "configEnum \<Rightarrow> bool" where
  "disjoint_bits ce = sorted_wrt (\<lambda>(_, v) (_, w). v AND w = 0) ce"

fun rest_bits :: "configEnum \<Rightarrow> int \<Rightarrow> int" where
  "rest_bits [] u = u"
| "rest_bits ((n, v) # ce) u = rest_bits ce (if v \<noteq> 0 \<and> v = (u AND v) then u AND NOT v else u)"

text \<open>The values an option with the table can have.\<close>

definition enum_ok :: "configEnum \<Rightarrow> bool \<Rightarrow> int \<Rightarrow> bool" where
  "enum_ok ce bitflags x = (x \<in> snd ` set ce \<or> bitflags \<and> x \<noteq> 0 \<and> rest_bits ce x = 0)"

lemma matching_cases:
  assumes "enum_wf ce"
  shows "matching ce a = [] \<or> (\<exists>n v. (n, v) \<in> set ce \<and> arg_is a n \<and> matching ce a = [v])"
  using assms
proof (induction ce)
  case (Cons p ce)
  obtain n v where p: "p = (n, v)" by fastforce
  have wf: "enum_wf ce" and fresh: "\<forall>(m, _) \<in> set ce. folded (bytes_of m) \<noteq> folded (bytes_of n)"
    using Cons.prems p by (force simp: enum_wf_def)+
  show ?case
  proof (cases "arg_is a n")
    case True
    then have "matching ce a = []" using fresh by (force simp: matching_def filter_empty_conv arg_is_folded)
    then show ?thesis using True p by (auto simp: matching_def)
  next
    case False
    then show ?thesis using Cons.IH [OF wf] p by (auto simp: matching_def)
  qed
qed (simp add: matching_def)

lemma matching_name:
  assumes "enum_wf ce" "(n, v) \<in> set ce"
  shows "matching ce (bytes_of n) = [v]"
proof -
  have "v \<in> set (matching ce (bytes_of n))"
    using assms(2) by (force simp: matching_def arg_is_def)
  then show ?thesis using matching_cases [OF assms(1), of "bytes_of n"] by auto
qed

subsection \<open>The round trip\<close>

fun join_words :: "sds list \<Rightarrow> sds" where
  "join_words [] = []"
| "join_words [w] = w"
| "join_words (w # ws) = w @ bytes_of '' '' @ join_words ws"

lemma join_words_snoc: "ws \<noteq> [] \<Longrightarrow> join_words (ws @ [w]) = join_words ws @ bytes_of '' '' @ w"
  by (induction ws rule: join_words.induct) auto

definition flags_of :: "int list \<Rightarrow> int" where
  "flags_of vs = fold (\<lambda>v w. w OR v) vs 0"

lemma flags_of_snoc: "flags_of (vs @ [v]) = flags_of vs OR v"
  by (simp add: flags_of_def)

lemma flags_of_bit: "bit (fold (\<lambda>v w. w OR v) vs a) k \<longleftrightarrow> bit a k \<or> (\<exists>v \<in> set vs. bit (v :: int) k)"
  by (induction vs arbitrary: a) (auto simp: bit_or_iff)

definition words_of :: "configEnum \<Rightarrow> sds list" where
  "words_of ps = map (\<lambda>(n, _). bytes_of n) ps"

lemma enum_values_words:
  assumes "enum_wf ce" "set ps \<subseteq> set ce"
  shows "enum_values ce (words_of ps) a = fold (\<lambda>v w. w OR v) (map snd ps) a"
  using assms(2) by (induction ps arbitrary: a) (auto simp: words_of_def matching_name [OF assms(1)])

lemma enum_name_words:
  assumes "set ce' \<subseteq> set ce" "set ps \<subseteq> set ce" "ps = [] \<or> bf"
    and "x \<in> snd ` set ce' \<or> bf \<and> x \<noteq> 0 \<and> rest_bits ce' u = 0"
    and "flags_of (map snd ps) = (x AND NOT u)" "u AND x = u"
  shows "\<exists>qs. set qs \<subseteq> set ce \<and> qs \<noteq> [] \<and> (bf \<or> length qs = 1) \<and> flags_of (map snd qs) = x
      \<and> enum_name ce' x bf (if ps = [] then None else Some (join_words (words_of ps))) u = join_words (words_of qs)"
  using assms
proof (induction ce' arbitrary: ps u)
  case Nil
  have "bf" "x \<noteq> 0" "u = 0" using Nil.prems(4) by auto
  then have f: "flags_of (map snd ps) = x" using Nil.prems(5) by simp
  then have "ps \<noteq> []" using \<open>x \<noteq> 0\<close> by (auto simp: flags_of_def)
  then show ?case using f Nil.prems(2) \<open>bf\<close> \<open>u = 0\<close> by (intro exI [of _ ps]) simp
next
  case (Cons p ce')
  obtain n v where p: "p = (n, v)" by fastforce
  show ?case
  proof (cases "x = v")
    case True
    then show ?thesis using p Cons.prems(1)
      by (intro exI [of _ "[(n, v)]"]) (simp add: words_of_def flags_of_def)
  next
    case ne: False
    show ?thesis
    proof (cases "bf \<and> v \<noteq> 0 \<and> v = (u AND v)")
      case True
      let ?ps = "ps @ [(n, v)]" and ?u = "u AND NOT v"
      have b: "bit v k \<Longrightarrow> bit u k" "bit u k \<Longrightarrow> bit x k" for k
        using True Cons.prems(6) by (metis bit_and_iff)+
      have "flags_of (map snd ?ps) = ((x AND NOT u) OR v)" by (simp add: flags_of_snoc Cons.prems(5))
      also have "\<dots> = (x AND NOT ?u)"
        by (rule bit_eqI) (use b in \<open>auto simp: bit_and_iff bit_or_iff bit_not_iff\<close>)
      finally have f: "flags_of (map snd ?ps) = (x AND NOT ?u)" .
      have u: "?u AND x = ?u" by (rule bit_eqI) (use b in \<open>auto simp: bit_and_iff bit_not_iff\<close>)
      have r: "x \<in> snd ` set ce' \<or> bf \<and> x \<noteq> 0 \<and> rest_bits ce' ?u = 0"
        using Cons.prems(4) p ne True by auto
      have s: "set ce' \<subseteq> set ce" "set ?ps \<subseteq> set ce" "?ps = [] \<or> bf" using Cons.prems(1,2) True p by auto
      have "(if ?ps = [] then None else Some (join_words (words_of ?ps)))
          = Some (case (if ps = [] then None else Some (join_words (words_of ps))) of None \<Rightarrow> bytes_of n
                  | Some m \<Rightarrow> m @ bytes_of '' '' @ bytes_of n)"
        using join_words_snoc [of "words_of ps" "bytes_of n"] by (auto simp: words_of_def)
      then show ?thesis using Cons.IH [OF s r f u] p ne True by simp
    next
      case False
      have s: "set ce' \<subseteq> set ce" using Cons.prems(1) by auto
      have r: "x \<in> snd ` set ce' \<or> bf \<and> x \<noteq> 0 \<and> rest_bits ce' u = 0"
        using Cons.prems(4) p ne False by (auto split: if_splits)
      have "enum_name (p # ce') x bf names u = enum_name ce' x bf names u" for names using p ne False by auto
      then show ?thesis using Cons.IH [OF s Cons.prems(2,3) r Cons.prems(5,6)] by simp
    qed
  qed
qed

text \<open>The name of a value consists of names of the table, and they mean the value.\<close>

lemma enum_roundtrip:
  assumes "enum_wf ce" "enum_ok ce bf x"
  shows "\<exists>qs. set qs \<subseteq> set ce \<and> qs \<noteq> [] \<and> (bf \<or> length qs = 1)
      \<and> configEnumGetName ce x bf = join_words (words_of qs) \<and> configEnumGetValue ce (words_of qs) bf = x"
proof -
  have "flags_of (map snd ([] :: configEnum)) = (x AND NOT x)" by (simp add: flags_of_def)
  from enum_name_words [OF subset_refl, of "[]" ce bf x x] assms(2) this
  obtain qs where q: "set qs \<subseteq> set ce" "qs \<noteq> []" "bf \<or> length qs = 1" "flags_of (map snd qs) = x"
      "enum_name ce x bf None x = join_words (words_of qs)"
    by (auto simp: enum_ok_def)
  have "configEnumGetValue ce (words_of qs) bf = x"
    using q(2-4) enum_values_words [OF assms(1) q(1)] by (auto simp: configEnumGetValue_def words_of_def flags_of_def)
  with q show ?thesis by (auto simp: configEnumGetName_def)
qed

lemma rest_bits_bit:
  assumes "disjoint_bits ce" "bit (rest_bits ce u) k"
  shows "bit u k \<and> (\<forall>(n, v) \<in> set ce. v AND u = v \<longrightarrow> \<not> bit v k)"
  using assms
proof (induction ce arbitrary: u)
  case (Cons p ce)
  obtain m w where p: "p = (m, w)" by fastforce
  have d: "disjoint_bits ce" "\<forall>(_, v) \<in> set ce. w AND v = 0" using Cons.prems(1) p by (auto simp: disjoint_bits_def)
  let ?u = "if w \<noteq> 0 \<and> w = (u AND w) then u AND NOT w else u"
  have "bit (rest_bits ce ?u) k" using Cons.prems(2) p by simp
  from Cons.IH [OF d(1) this] have IH: "bit ?u k" "\<forall>(n, v) \<in> set ce. v AND ?u = v \<longrightarrow> \<not> bit v k" by auto
  have "v AND ?u = v" if "(n, v) \<in> set ce" "v AND u = v" for n v
  proof -
    have "w AND v = 0" using d(2) that(1) by auto
    then have "\<not> (bit w j \<and> bit v j)" for j by (metis bit_and_iff bit_0_eq bot_apply bot_bool_def)
    moreover have "bit v j \<Longrightarrow> bit u j" for j using that(2) by (metis bit_and_iff)
    ultimately show ?thesis by (auto intro!: bit_eqI simp: bit_and_iff bit_not_iff)
  qed
  moreover have "bit u k" "w AND u = w \<longrightarrow> \<not> bit w k"
    using IH(1) by (auto simp: bit_and_iff bit_not_iff and.commute split: if_splits)
  ultimately show ?case using IH(2) p by fastforce
qed auto

lemma enum_values_flags:
  assumes "enum_wf ce" "enum_values ce argv a \<noteq> INT_MIN"
  shows "\<exists>vs. enum_values ce argv a = fold (\<lambda>v w. w OR v) vs a \<and> length vs = length argv \<and> set vs \<subseteq> snd ` set ce"
  using assms(2)
proof (induction argv arbitrary: a)
  case (Cons b argv)
  obtain n v where v: "(n, v) \<in> set ce" "matching ce b = [v]"
    using matching_cases [OF assms(1), of b] Cons.prems by (auto split: if_splits)
  with Cons obtain vs where "enum_values ce argv (a OR v) = fold (\<lambda>v w. w OR v) vs (a OR v)" "length vs = length argv"
      "set vs \<subseteq> snd ` set ce" by fastforce
  then show ?case using v by (intro exI [of _ "v # vs"]) force
qed simp

text \<open>What the names given to an option mean is a value the option can have.\<close>

lemma enum_value_ok:
  assumes "enum_wf ce" "bf \<longrightarrow> disjoint_bits ce" "configEnumGetValue ce argv bf \<noteq> INT_MIN"
  shows "enum_ok ce bf (configEnumGetValue ce argv bf)"
proof -
  let ?x = "configEnumGetValue ce argv bf"
  have a: "argv \<noteq> []" "bf \<or> length argv = 1" "?x = enum_values ce argv 0"
    using assms(3) by (auto simp: configEnumGetValue_def split: if_splits)
  then obtain vs where vs: "?x = fold (\<lambda>v w. w OR v) vs 0" "length vs = length argv" "set vs \<subseteq> snd ` set ce"
    using enum_values_flags [OF assms(1), of argv 0] assms(3) by auto
  have bits: "bit ?x k \<longleftrightarrow> (\<exists>v \<in> set vs. bit v k)" for k by (simp add: vs(1) flags_of_bit)
  show ?thesis
  proof (cases "\<exists>v \<in> set vs. ?x = v")
    case True
    then show ?thesis using vs(3) by (auto simp: enum_ok_def)
  next
    case False
    have "vs \<noteq> []" using vs(2) a(1) by auto
    have bf
    proof (rule ccontr)
      assume "\<not> bf"
      then obtain v where "vs = [v]" using a(2) vs(2) by (metis length_Suc_conv length_0_conv One_nat_def)
      then show False using False vs(1) by simp
    qed
    moreover have "?x \<noteq> 0"
    proof
      assume z: "?x = 0"
      have "v = 0" if "v \<in> set vs" for v using bits z that by (auto intro!: bit_eqI)
      then show False using False z \<open>vs \<noteq> []\<close> by (cases vs) auto
    qed
    moreover have "rest_bits ce ?x = 0"
    proof (rule bit_eqI)
      fix k
      have False if "bit (rest_bits ce ?x) k"
      proof -
        from rest_bits_bit [OF _ that] assms(2) \<open>bf\<close>
        have r: "bit ?x k" "\<forall>(n, v) \<in> set ce. v AND ?x = v \<longrightarrow> \<not> bit v k" by auto
        then obtain v where v: "v \<in> set vs" "bit v k" using bits by blast
        have "v AND ?x = v" using bits v(1) by (auto intro!: bit_eqI simp: bit_and_iff)
        then show False using r(2) v vs(3) by fastforce
      qed
      then show "bit (rest_bits ce ?x) k = bit 0 k" by auto
    qed
    ultimately show ?thesis by (simp add: enum_ok_def)
  qed
qed

subsection \<open>The tables are well formed\<close>

definition all_enums :: "configEnum list" where
  "all_enums =
     [maxmemory_policy_enum, syslog_facility_enum, loglevel_enum, supervised_mode_enum, aof_fsync_enum,
      shutdown_on_sig_enum, repl_diskless_load_enum, tls_auth_clients_enum, oom_score_adj_enum,
      acl_pubsub_default_enum, sanitize_dump_payload_enum, protected_action_enum,
      cluster_preferred_endpoint_type_enum, propagation_error_behavior_enum]"

lemma all_enums_wf: "list_all enum_wf all_enums"
  by code_simp

lemma enum_wf_table [simp]: "ce \<in> set all_enums \<Longrightarrow> enum_wf ce"
  using all_enums_wf by (simp add: list_all_iff)

lemma shutdown_flags_disjoint [simp]: "disjoint_bits shutdown_on_sig_enum"
  by code_simp

lemma policy_name_iff: "policy_name ce p = Inr n \<longrightarrow> (n, p) \<in> set ce"
  by (induction ce) (auto split: if_splits)

lemma policy_name_total: "p \<in> snd ` set ce \<Longrightarrow> \<exists>n. policy_name ce p = Inr n"
  by (induction ce) force+

text \<open>INFO names the policy in force, without the panic, whenever it is one of the table.\<close>

lemma evictPolicyToString_names:
  assumes "enum_ok maxmemory_policy_enum False (maxmemory_policy s)"
  shows "\<exists>n. evictPolicyToString s = Inr n \<and> (n, maxmemory_policy s) \<in> set maxmemory_policy_enum"
  using assms policy_name_total [of "maxmemory_policy s" maxmemory_policy_enum] policy_name_iff
  by (auto simp: evictPolicyToString_def enum_ok_def)

end
