(* ===== verification/Config_Types.thy ===== *)
theory Config_Types
  imports Config_Values
begin

section \<open>The types of options: setting and reading a configuration value\<close>

text \<open>
  The generic types of config.c (yes/no, strings, enumerations, numbers) with their \<open>set\<close>, \<open>get\<close> and
  \<open>init\<close> functions, four of the special options, and \<open>performInterfaceSet\<close>. The memory an option points to is a
  cell. A \<open>set\<close> function returns 0 for an error, 1 for a change and 2 when the value was there already, what it
  wrote to \<open>*err\<close>, and the cell. What config.c calls in other files is the record \<open>config_env\<close>.
\<close>

subsection \<open>Cells, errors and the functions called\<close>

datatype number_format = FmtOctal | FmtUnsigned | FmtSigned

datatype config_error =
    Msg string
  | OutsideBounds number_format int int
  | PercentAbove int
  | NotOneOf sds

text \<open>A save point is (seconds, changes); a limit of output buffers is (hard, soft, seconds).\<close>

datatype cell =
    IntCell int
  | PtrCell "sds option"
  | SaveCell "(int \<times> int) list"
  | BufferCell "(int \<times> int \<times> int) list"
  | OomCell "int list"
  | BindCell "sds list"
  | OtherCell nat

record config_env =
  clib :: strlib
  ull2string :: "nat \<Rightarrow> sds"
  memtoull :: "sds \<Rightarrow> nat option"
  splitlen :: "sds \<Rightarrow> sds list"
  pathIsBaseName :: "sds \<Rightarrow> bool"
  isValidAuxString :: "sds \<Rightarrow> bool"
  validateProcTitleTemplate :: "sds \<Rightarrow> bool"
  getClientTypeName :: "nat \<Rightarrow> sds"
  getClientTypeByName :: "sds \<Rightarrow> int"
  have_defrag :: bool
  reading_config_file :: bool
  save_loaded :: bool
  set_module :: "string \<Rightarrow> cell \<Rightarrow> cell \<Rightarrow> nat \<times> config_error option \<times> cell"
  set_other :: "string \<Rightarrow> sds list \<Rightarrow> cell \<Rightarrow> nat \<times> config_error option \<times> cell"
  get_other :: "string \<Rightarrow> cell \<Rightarrow> sds"

subsection \<open>Flags\<close>

definition MODIFIABLE_CONFIG :: int where "MODIFIABLE_CONFIG = 0"
definition IMMUTABLE_CONFIG :: int where "IMMUTABLE_CONFIG = 1"
definition SENSITIVE_CONFIG :: int where "SENSITIVE_CONFIG = 2"
definition DEBUG_CONFIG :: int where "DEBUG_CONFIG = 4"
definition MULTI_ARG_CONFIG :: int where "MULTI_ARG_CONFIG = 8"
definition HIDDEN_CONFIG :: int where "HIDDEN_CONFIG = 16"
definition PROTECTED_CONFIG :: int where "PROTECTED_CONFIG = 32"
definition DENY_LOADING_CONFIG :: int where "DENY_LOADING_CONFIG = 64"
definition ALIAS_CONFIG :: int where "ALIAS_CONFIG = 128"
definition MODULE_CONFIG :: int where "MODULE_CONFIG = 256"
definition VOLATILE_CONFIG :: int where "VOLATILE_CONFIG = 512"

lemmas config_flags =
  MODIFIABLE_CONFIG_def IMMUTABLE_CONFIG_def SENSITIVE_CONFIG_def DEBUG_CONFIG_def MULTI_ARG_CONFIG_def
  HIDDEN_CONFIG_def PROTECTED_CONFIG_def DENY_LOADING_CONFIG_def ALIAS_CONFIG_def MODULE_CONFIG_def VOLATILE_CONFIG_def

definition INTEGER_CONFIG :: int where "INTEGER_CONFIG = 0"
definition MEMORY_CONFIG :: int where "MEMORY_CONFIG = 1"
definition PERCENT_CONFIG :: int where "PERCENT_CONFIG = 2"
definition OCTAL_CONFIG :: int where "OCTAL_CONFIG = 4"

lemmas numeric_flags = INTEGER_CONFIG_def MEMORY_CONFIG_def PERCENT_CONFIG_def OCTAL_CONFIG_def

definition LOADBUF_SIZE :: nat where "LOADBUF_SIZE = 256"
definition CLIENT_TYPE_MASTER :: int where "CLIENT_TYPE_MASTER = 3"
definition CLIENT_TYPE_OBUF_COUNT :: nat where "CLIENT_TYPE_OBUF_COUNT = 3"
definition CONFIG_OOM_COUNT :: nat where "CONFIG_OOM_COUNT = 3"
definition CONFIG_BINDADDR_MAX :: nat where "CONFIG_BINDADDR_MAX = 16"

subsection \<open>Options\<close>

text \<open>The optional check of a value, \<open>None\<close> for a valid one; \<open>no_check\<close> stands for a null pointer.\<close>

type_synonym 'v validator = "config_env \<Rightarrow> 'v \<Rightarrow> config_error option"

definition no_check :: "'v validator" where "no_check E v = None"

record boolConfigData =
  yesno_default :: int
  yesno_valid :: "int validator"

record stringConfigData =
  string_default :: "sds option"
  string_valid :: "sds validator"
  convert_empty_to_null :: bool

record enumConfigData =
  enum_value :: configEnum
  enum_default :: int
  enum_valid :: "int validator"

datatype numericType =
    NUMERIC_TYPE_INT | NUMERIC_TYPE_UINT | NUMERIC_TYPE_LONG | NUMERIC_TYPE_ULONG | NUMERIC_TYPE_LONG_LONG
  | NUMERIC_TYPE_ULONG_LONG | NUMERIC_TYPE_SIZE_T | NUMERIC_TYPE_SSIZE_T | NUMERIC_TYPE_OFF_T | NUMERIC_TYPE_TIME_T

record numericConfigData =
  numeric_cflags :: int
  numeric_type :: numericType
  lower_bound :: int
  upper_bound :: int
  numeric_default :: int
  numeric_valid :: "int validator"

datatype special_option = SaveOption | BufferLimitOption | OomValuesOption | BindOption | OtherOption

datatype typeData =
    Yesno boolConfigData
  | Str stringConfigData
  | Sds stringConfigData
  | Enumd enumConfigData
  | Numeric numericConfigData
  | Special special_option

record standardConfig =
  cname :: string
  calias :: "string option"
  cflags :: int
  caddr :: string
  cdata :: typeData
  capply :: "string option"

definition has_flag :: "standardConfig \<Rightarrow> int \<Rightarrow> bool" where
  "has_flag c f = (cflags c AND f \<noteq> 0)"

definition int_of :: "cell \<Rightarrow> int" where
  "int_of x = (case x of IntCell n \<Rightarrow> n | _ \<Rightarrow> 0)"

definition ptr_of :: "cell \<Rightarrow> sds option" where
  "ptr_of x = (case x of PtrCell p \<Rightarrow> p | _ \<Rightarrow> None)"

text \<open>Storing a new value: the callback of the module for a module's option, the memory itself otherwise.\<close>

definition store_value :: "config_env \<Rightarrow> standardConfig \<Rightarrow> cell \<Rightarrow> cell \<Rightarrow> nat \<times> config_error option \<times> cell" where
  "store_value E c v x = (if has_flag c MODULE_CONFIG then set_module E (caddr c) v x else (1, None, v))"

definition unchanged :: "standardConfig \<Rightarrow> cell \<Rightarrow> nat \<times> config_error option \<times> cell" where
  "unchanged c x = (if has_flag c VOLATILE_CONFIG then 1 else 2, None, x)"

subsection \<open>Yes or no\<close>

definition boolConfigSet :: "config_env \<Rightarrow> standardConfig \<Rightarrow> boolConfigData \<Rightarrow> sds list \<Rightarrow> cell \<Rightarrow> nat \<times> config_error option \<times> cell" where
  "boolConfigSet E c d argv x =
     (let yn = yesnotoi (argv ! 0) in
      if yn = - 1 then (0, Some (Msg (''argument must be 'yes' or 'no'' @ [CHR 0x27])), x)
      else case yesno_valid d E yn of
             Some e \<Rightarrow> (0, Some e, x)
           | None \<Rightarrow> if int_of x \<noteq> yn then store_value E c (IntCell yn) x else unchanged c x)"

definition boolConfigGet :: "cell \<Rightarrow> sds" where
  "boolConfigGet x = (if int_of x \<noteq> 0 then bytes_of ''yes'' else bytes_of ''no'')"

subsection \<open>Strings\<close>

text \<open>A C string ends at the first NUL of the argument; an \<open>sds\<close> keeps every byte.\<close>

definition stringConfigSet :: "config_env \<Rightarrow> standardConfig \<Rightarrow> stringConfigData \<Rightarrow> sds list \<Rightarrow> cell \<Rightarrow> nat \<times> config_error option \<times> cell" where
  "stringConfigSet E c d argv x =
     (case string_valid d E (argv ! 0) of
        Some e \<Rightarrow> (0, Some e, x)
      | None \<Rightarrow>
          let prev = ptr_of x;
              new = (if convert_empty_to_null d \<and> cstr (argv ! 0) = [] then None else Some (cstr (argv ! 0))) in
          if new \<noteq> prev then (1, None, PtrCell new) else unchanged c x)"

definition stringConfigGet :: "cell \<Rightarrow> sds" where
  "stringConfigGet x = (case ptr_of x of Some v \<Rightarrow> v | None \<Rightarrow> [])"

definition sdsConfigSet :: "config_env \<Rightarrow> standardConfig \<Rightarrow> stringConfigData \<Rightarrow> sds list \<Rightarrow> cell \<Rightarrow> nat \<times> config_error option \<times> cell" where
  "sdsConfigSet E c d argv x =
     (case string_valid d E (argv ! 0) of
        Some e \<Rightarrow> (0, Some e, x)
      | None \<Rightarrow>
          let prev = ptr_of x;
              new = (if convert_empty_to_null d \<and> argv ! 0 = [] then None else Some (argv ! 0)) in
          if new \<noteq> prev then store_value E c (PtrCell new) x else unchanged c x)"

definition sdsConfigGet :: "cell \<Rightarrow> sds" where
  "sdsConfigGet x = (case ptr_of x of Some v \<Rightarrow> v | None \<Rightarrow> [])"

subsection \<open>Enumerations\<close>

definition enum_error :: "configEnum \<Rightarrow> sds" where
  "enum_error ce =
     (let t = bytes_of ''argument(s) must be one of the following: '' @ concat (map (\<lambda>(n, _). bytes_of n @ bytes_of '', '') ce)
      in take (LOADBUF_SIZE - 1) (take (length t - 2) t))"

definition enumConfigSet :: "config_env \<Rightarrow> standardConfig \<Rightarrow> enumConfigData \<Rightarrow> sds list \<Rightarrow> cell \<Rightarrow> nat \<times> config_error option \<times> cell" where
  "enumConfigSet E c d argv x =
     (let enumval = configEnumGetValue (enum_value d) argv (has_flag c MULTI_ARG_CONFIG) in
      if enumval = INT_MIN then (0, Some (NotOneOf (enum_error (enum_value d))), x)
      else case enum_valid d E enumval of
             Some e \<Rightarrow> (0, Some e, x)
           | None \<Rightarrow> if int_of x \<noteq> enumval then store_value E c (IntCell enumval) x else unchanged c x)"

definition enumConfigGet :: "standardConfig \<Rightarrow> enumConfigData \<Rightarrow> cell \<Rightarrow> sds" where
  "enumConfigGet c d x = configEnumGetName (enum_value d) (int_of x) (has_flag c MULTI_ARG_CONFIG)"

subsection \<open>Numbers\<close>

text \<open>Conversions: to \<open>long long\<close>, to \<open>unsigned long long\<close>, and to the type of the memory.\<close>

definition to_ll :: "int \<Rightarrow> int" where "to_ll v = sint (word_of_int v :: u64)"
definition to_ull :: "int \<Rightarrow> int" where "to_ull v = uint (word_of_int v :: u64)"

definition cast_numeric :: "numericType \<Rightarrow> int \<Rightarrow> int" where
  "cast_numeric t v =
     (case t of
        NUMERIC_TYPE_INT \<Rightarrow> to_int v
      | NUMERIC_TYPE_UINT \<Rightarrow> uint (word_of_int v :: u32)
      | NUMERIC_TYPE_ULONG \<Rightarrow> to_ull v
      | NUMERIC_TYPE_ULONG_LONG \<Rightarrow> to_ull v
      | NUMERIC_TYPE_SIZE_T \<Rightarrow> to_ull v
      | _ \<Rightarrow> to_ll v)"

definition setNumericType :: "config_env \<Rightarrow> standardConfig \<Rightarrow> numericConfigData \<Rightarrow> int \<Rightarrow> cell \<Rightarrow> nat \<times> config_error option \<times> cell" where
  "setNumericType E c n val x =
     (if numeric_type n = NUMERIC_TYPE_LONG_LONG \<and> has_flag c MODULE_CONFIG then set_module E (caddr c) (IntCell val) x
      else (1, None, IntCell (cast_numeric (numeric_type n) val)))"

definition GET_NUMERIC_TYPE :: "cell \<Rightarrow> int" where
  "GET_NUMERIC_TYPE x = to_ll (int_of x)"

definition unsigned_type :: "numericType \<Rightarrow> bool" where
  "unsigned_type t = (t = NUMERIC_TYPE_ULONG_LONG \<or> t = NUMERIC_TYPE_UINT \<or> t = NUMERIC_TYPE_SIZE_T)"

definition nflag :: "numericConfigData \<Rightarrow> int \<Rightarrow> bool" where
  "nflag n f = (numeric_cflags n AND f \<noteq> 0)"

definition numericBoundaryCheck :: "numericConfigData \<Rightarrow> int \<Rightarrow> config_error option" where
  "numericBoundaryCheck n ll =
     (if unsigned_type (numeric_type n)
      then let ull = to_ull ll; upper = to_ull (upper_bound n); lower = to_ull (lower_bound n) in
           if upper < ull \<or> ull < lower
           then Some (OutsideBounds (if nflag n OCTAL_CONFIG then FmtOctal else FmtUnsigned) lower upper) else None
      else if nflag n PERCENT_CONFIG \<and> ll < 0
      then if ll < lower_bound n then Some (PercentAbove (- lower_bound n)) else None
      else if upper_bound n < ll \<or> ll < lower_bound n
      then Some (OutsideBounds FmtSigned (lower_bound n) (upper_bound n)) else None)"

text \<open>
  \<open>strtoll\<close> in a base up to ten: the value, saturated, whether it was out of range, and the text after it.
\<close>

definition digit_in :: "nat \<Rightarrow> u8 \<Rightarrow> bool" where
  "digit_in b c = (48 \<le> unat c \<and> unat c < 48 + b)"

definition base_val :: "nat \<Rightarrow> sds \<Rightarrow> nat" where
  "base_val b ds = foldl (\<lambda>n c. n * b + (unat c - 48)) 0 ds"

definition c_strtoll :: "nat \<Rightarrow> sds \<Rightarrow> int \<times> bool \<times> sds" where
  "c_strtoll b bs =
     (let (neg, ds) = split_sign (dropWhile isspace8 (cstr bs));
          m = int (base_val b (takeWhile (digit_in b) ds)); v = (if neg then - m else m)
      in if takeWhile (digit_in b) ds = [] then (0, False, cstr bs)
         else (max LLONG_MIN (min LLONG_MAX v), v < LLONG_MIN \<or> LLONG_MAX < v, dropWhile (digit_in b) ds))"

definition parse_error :: "numericConfigData \<Rightarrow> config_error" where
  "parse_error n =
     Msg (if nflag n MEMORY_CONFIG \<and> nflag n PERCENT_CONFIG then ''argument must be a memory or percent value''
          else if nflag n MEMORY_CONFIG then ''argument must be a memory value''
          else if nflag n OCTAL_CONFIG then ''argument couldn't be parsed as an octal number''
          else ''argument couldn't be parsed into an integer'')"

text \<open>The four attempts in the order of the code; the first that applies and succeeds gives the value.\<close>

definition parse_memory :: "config_env \<Rightarrow> numericConfigData \<Rightarrow> sds \<Rightarrow> int option" where
  "parse_memory E n value =
     (if nflag n MEMORY_CONFIG then map_option (\<lambda>m. to_ll (int m)) (memtoull E value) else None)"

definition parse_percent :: "config_env \<Rightarrow> numericConfigData \<Rightarrow> sds \<Rightarrow> int option" where
  "parse_percent E n value =
     (if nflag n PERCENT_CONFIG \<and> 1 < length value \<and> last value = 37
      then case string2ll (clib E) (butlast value) of
             Some r \<Rightarrow> if 0 \<le> r then Some (- r) else None
           | None \<Rightarrow> None
      else None)"

definition parse_octal :: "numericConfigData \<Rightarrow> sds \<Rightarrow> int option" where
  "parse_octal n value =
     (if nflag n OCTAL_CONFIG
      then let (r, erange, rest) = c_strtoll 8 value in if \<not> erange \<and> rest = [] then Some r else None
      else None)"

definition parse_plain :: "config_env \<Rightarrow> numericConfigData \<Rightarrow> sds \<Rightarrow> int option" where
  "parse_plain E n value = (if numeric_cflags n = 0 then string2ll (clib E) value else None)"

definition numericParseString :: "config_env \<Rightarrow> numericConfigData \<Rightarrow> sds \<Rightarrow> config_error + int" where
  "numericParseString E n value =
     (case parse_memory E n value of Some r \<Rightarrow> Inr r | None \<Rightarrow>
      case parse_percent E n value of Some r \<Rightarrow> Inr r | None \<Rightarrow>
      case parse_octal n value of Some r \<Rightarrow> Inr r | None \<Rightarrow>
      case parse_plain E n value of Some r \<Rightarrow> Inr r | None \<Rightarrow> Inl (parse_error n))"

definition numericConfigSet :: "config_env \<Rightarrow> standardConfig \<Rightarrow> numericConfigData \<Rightarrow> sds list \<Rightarrow> cell \<Rightarrow> nat \<times> config_error option \<times> cell" where
  "numericConfigSet E c n argv x =
     (case numericParseString E n (argv ! 0) of
        Inl e \<Rightarrow> (0, Some e, x)
      | Inr ll \<Rightarrow>
          case numericBoundaryCheck n ll of
            Some e \<Rightarrow> (0, Some e, x)
          | None \<Rightarrow>
              case numeric_valid n E ll of
                Some e \<Rightarrow> (0, Some e, x)
              | None \<Rightarrow> if GET_NUMERIC_TYPE x \<noteq> ll then setNumericType E c n ll x else unchanged c x)"

text \<open>\<open>%llo\<close>\<close>

fun oct_digits :: "nat \<Rightarrow> sds" where
  "oct_digits m = (if m < 8 then [of_nat (48 + m)] else oct_digits (m div 8) @ [of_nat (48 + m mod 8)])"

declare oct_digits.simps [simp del]

definition numericConfigGet :: "config_env \<Rightarrow> numericConfigData \<Rightarrow> cell \<Rightarrow> sds" where
  "numericConfigGet E n x =
     (let value = GET_NUMERIC_TYPE x in
      if nflag n PERCENT_CONFIG \<and> value < 0 then ll2string (clib E) (- value) @ [37]
      else if nflag n MEMORY_CONFIG then ull2string E (nat (to_ull value))
      else if nflag n OCTAL_CONFIG then oct_digits (nat (to_ull value))
      else ll2string (clib E) value)"

subsection \<open>Special options\<close>

fun save_args_ok :: "bool \<Rightarrow> sds list \<Rightarrow> bool" where
  "save_args_ok changes [] = True"
| "save_args_ok changes (a # as) =
     (let (val, _, rest) = c_strtoll 10 a in
      rest = [] \<and> \<not> (\<not> changes \<and> val < 1) \<and> \<not> (changes \<and> val < 0) \<and> save_args_ok (\<not> changes) as)"

definition strtoll10 :: "sds \<Rightarrow> int" where "strtoll10 a = fst (c_strtoll 10 a)"

text \<open>\<open>changes\<close> is an \<open>int\<close>: a longer number loses its high bits.\<close>

fun save_pairs :: "sds list \<Rightarrow> (int \<times> int) list" where
  "save_pairs (a # b # as) = (strtoll10 a, to_int (strtoll10 b)) # save_pairs as"
| "save_pairs _ = []"

definition appendServerSaveParams :: "(int \<times> int) list \<Rightarrow> (int \<times> int) list \<Rightarrow> (int \<times> int) list" where
  "appendServerSaveParams ps new = ps @ new"

definition resetServerSaveParams :: "(int \<times> int) list" where
  "resetServerSaveParams = []"

definition saves_of :: "cell \<Rightarrow> (int \<times> int) list" where
  "saves_of x = (case x of SaveCell ps \<Rightarrow> ps | _ \<Rightarrow> [])"

definition setConfigSaveOption :: "config_env \<Rightarrow> sds list \<Rightarrow> cell \<Rightarrow> nat \<times> config_error option \<times> cell" where
  "setConfigSaveOption E argv x =
     (let none = (length argv = 1 \<and> strcaseeq (argv ! 0) []);
          args = (if none then [] else argv);
          x1 = (if none then SaveCell resetServerSaveParams else x) in
      if odd (length args) \<or> \<not> save_args_ok False args then (0, Some (Msg ''Invalid save parameters''), x1)
      else let ps = (if \<not> reading_config_file E \<or> \<not> save_loaded E then resetServerSaveParams else saves_of x1) in
           (1, None, SaveCell (appendServerSaveParams ps (save_pairs args))))"

definition getConfigSaveOption :: "cell \<Rightarrow> sds" where
  "getConfigSaveOption x = join_words (map (\<lambda>(s, ch). dec_print s @ bytes_of '' '' @ dec_print ch) (saves_of x))"

definition limits_of :: "cell \<Rightarrow> (int \<times> int \<times> int) list" where
  "limits_of x = (case x of BufferCell l \<Rightarrow> l | _ \<Rightarrow> [])"

text \<open>
  The scan of the arguments, four at a time: the values it would set per class of clients, or the error.
\<close>

fun buffer_limits :: "config_env \<Rightarrow> sds list \<Rightarrow> (int \<times> int \<times> int) option list \<Rightarrow>
    string + (int \<times> int \<times> int) option list" where
  "buffer_limits E (a # h # s # t # as) values =
     (let class = getClientTypeByName E a; (secs, _, rest) = c_strtoll 10 t; soft_seconds = to_int secs in
      if class = - 1 \<or> class = CLIENT_TYPE_MASTER then Inl ''Invalid client class specified in buffer limit configuration.''
      else case (memtoull E h, memtoull E s) of
             (Some hard, Some soft) \<Rightarrow>
               if soft_seconds < 0 \<or> rest \<noteq> []
               then Inl ''Error in hard, soft or soft_seconds setting in buffer limit configuration.''
               else buffer_limits E as (values[nat class := Some (int hard, int soft, soft_seconds)])
           | _ \<Rightarrow> Inl ''Error in hard, soft or soft_seconds setting in buffer limit configuration.'')"
| "buffer_limits E _ values = Inr values"

definition updateClientOutputBufferLimit :: "config_env \<Rightarrow> sds list \<Rightarrow> cell \<Rightarrow> nat \<times> config_error option \<times> cell" where
  "updateClientOutputBufferLimit E args x =
     (if length args mod 4 \<noteq> 0 then (0, Some (Msg ''Wrong number of arguments in buffer limit configuration.''), x)
      else case buffer_limits E args (replicate CLIENT_TYPE_OBUF_COUNT None) of
             Inl m \<Rightarrow> (0, Some (Msg m), x)
           | Inr values \<Rightarrow>
               (1, None, BufferCell (map2 (\<lambda>v l. case v of Some new \<Rightarrow> new | None \<Rightarrow> l) values (limits_of x))))"

definition setConfigClientOutputBufferLimitOption :: "config_env \<Rightarrow> sds list \<Rightarrow> cell \<Rightarrow> nat \<times> config_error option \<times> cell" where
  "setConfigClientOutputBufferLimitOption E argv x = updateClientOutputBufferLimit E argv x"

definition getConfigClientOutputBufferLimitOption :: "config_env \<Rightarrow> cell \<Rightarrow> sds" where
  "getConfigClientOutputBufferLimitOption E x =
     join_words (map (\<lambda>(j, hard, soft, secs).
         getClientTypeName E j @ bytes_of '' '' @ dec_print hard @ bytes_of '' '' @ dec_print soft @ bytes_of '' '' @ dec_print secs)
       (enumerate 0 (limits_of x)))"

definition oom_of :: "cell \<Rightarrow> int list" where
  "oom_of x = (case x of OomCell vs \<Rightarrow> vs | _ \<Rightarrow> [])"

definition setConfigOOMScoreAdjValuesOption :: "sds list \<Rightarrow> cell \<Rightarrow> nat \<times> config_error option \<times> cell" where
  "setConfigOOMScoreAdjValuesOption argv x =
     (if length argv \<noteq> CONFIG_OOM_COUNT then (0, Some (Msg ''wrong number of arguments''), x)
      else if \<exists>a \<in> set argv. (let (val, _, rest) = c_strtoll 10 a in rest \<noteq> [] \<or> val < - 2000 \<or> 2000 < val)
      then (0, Some (Msg ''Invalid oom-score-adj-values, elements must be between -2000 and 2000.''), x)
      else (if oom_of x \<noteq> map strtoll10 argv then 1 else 2, None, OomCell (map strtoll10 argv)))"

definition getConfigOOMScoreAdjValuesOption :: "cell \<Rightarrow> sds" where
  "getConfigOOMScoreAdjValuesOption x = join_words (map dec_print (oom_of x))"

definition binds_of :: "cell \<Rightarrow> sds list" where
  "binds_of x = (case x of BindCell as \<Rightarrow> as | _ \<Rightarrow> [])"

definition setConfigBindOption :: "sds list \<Rightarrow> cell \<Rightarrow> nat \<times> config_error option \<times> cell" where
  "setConfigBindOption argv x =
     (if CONFIG_BINDADDR_MAX < length argv then (0, Some (Msg ''Too many bind addresses specified.''), x)
      else (1, None, BindCell (map cstr (if length argv = 1 \<and> argv ! 0 = [] then [] else argv))))"

definition getConfigBindOption :: "cell \<Rightarrow> sds" where
  "getConfigBindOption x = join_words (binds_of x)"

subsection \<open>The interface of an option\<close>

definition interface_set :: "config_env \<Rightarrow> standardConfig \<Rightarrow> sds list \<Rightarrow> cell \<Rightarrow> nat \<times> config_error option \<times> cell" where
  "interface_set E c argv x =
     (case cdata c of
        Yesno d \<Rightarrow> boolConfigSet E c d argv x
      | Str d \<Rightarrow> stringConfigSet E c d argv x
      | Sds d \<Rightarrow> sdsConfigSet E c d argv x
      | Enumd d \<Rightarrow> enumConfigSet E c d argv x
      | Numeric n \<Rightarrow> numericConfigSet E c n argv x
      | Special SaveOption \<Rightarrow> setConfigSaveOption E argv x
      | Special BufferLimitOption \<Rightarrow> setConfigClientOutputBufferLimitOption E argv x
      | Special OomValuesOption \<Rightarrow> setConfigOOMScoreAdjValuesOption argv x
      | Special BindOption \<Rightarrow> setConfigBindOption argv x
      | Special OtherOption \<Rightarrow> set_other E (cname c) argv x)"

definition interface_get :: "config_env \<Rightarrow> standardConfig \<Rightarrow> cell \<Rightarrow> sds" where
  "interface_get E c x =
     (case cdata c of
        Yesno d \<Rightarrow> boolConfigGet x
      | Str d \<Rightarrow> stringConfigGet x
      | Sds d \<Rightarrow> sdsConfigGet x
      | Enumd d \<Rightarrow> enumConfigGet c d x
      | Numeric n \<Rightarrow> numericConfigGet E n x
      | Special SaveOption \<Rightarrow> getConfigSaveOption x
      | Special BufferLimitOption \<Rightarrow> getConfigClientOutputBufferLimitOption E x
      | Special OomValuesOption \<Rightarrow> getConfigOOMScoreAdjValuesOption x
      | Special BindOption \<Rightarrow> getConfigBindOption x
      | Special OtherOption \<Rightarrow> get_other E (cname c) x)"

definition performInterfaceSet :: "config_env \<Rightarrow> standardConfig \<Rightarrow> sds \<Rightarrow> cell \<Rightarrow> nat \<times> config_error option \<times> cell" where
  "performInterfaceSet E c value x =
     interface_set E c (if has_flag c MULTI_ARG_CONFIG then splitlen E value else [value]) x"

subsection \<open>Default values\<close>

definition boolConfigInit :: "boolConfigData \<Rightarrow> cell" where
  "boolConfigInit d = IntCell (yesno_default d)"

definition stringConfigInit :: "stringConfigData \<Rightarrow> cell cres" where
  "stringConfigInit d =
     (case string_default d of
        Some v \<Rightarrow> Inr (PtrCell (Some v))
      | None \<Rightarrow> if convert_empty_to_null d then Inr (PtrCell None) else Inl NullDeref)"

definition sdsConfigInit :: "stringConfigData \<Rightarrow> cell" where
  "sdsConfigInit d =
     PtrCell (case string_default d of Some v \<Rightarrow> Some v | None \<Rightarrow> if convert_empty_to_null d then None else Some [])"

definition enumConfigInit :: "enumConfigData \<Rightarrow> cell" where
  "enumConfigInit d = IntCell (enum_default d)"

definition numericConfigInit :: "numericConfigData \<Rightarrow> cell" where
  "numericConfigInit n = IntCell (cast_numeric (numeric_type n) (numeric_default n))"

text \<open>Special options have no \<open>init\<close>; their memory is initialised elsewhere and stays as it is.\<close>

definition interface_init :: "standardConfig \<Rightarrow> cell \<Rightarrow> cell cres" where
  "interface_init c x =
     (case cdata c of
        Yesno d \<Rightarrow> Inr (boolConfigInit d)
      | Str d \<Rightarrow> stringConfigInit d
      | Sds d \<Rightarrow> Inr (sdsConfigInit d)
      | Enumd d \<Rightarrow> Inr (enumConfigInit d)
      | Numeric n \<Rightarrow> Inr (numericConfigInit n)
      | Special _ \<Rightarrow> Inr x)"

subsection \<open>Validators\<close>

definition isValidActiveDefrag :: "int validator" where
  "isValidActiveDefrag E val =
     (if \<not> have_defrag E \<and> val \<noteq> 0 then Some (Msg ''Active defragmentation cannot be enabled'') else None)"

definition isValidDBfilename :: "sds validator" where
  "isValidDBfilename E val =
     (if \<not> pathIsBaseName E (cstr val) then Some (Msg ''dbfilename can't be a path, just a filename'') else None)"

definition isValidAOFfilename :: "sds validator" where
  "isValidAOFfilename E val =
     (if cstr val = [] then Some (Msg ''appendfilename can't be empty'')
      else if \<not> pathIsBaseName E (cstr val) then Some (Msg ''appendfilename can't be a path, just a filename'') else None)"

definition isValidAOFdirname :: "sds validator" where
  "isValidAOFdirname E val =
     (if cstr val = [] then Some (Msg ''appenddirname can't be empty'')
      else if \<not> pathIsBaseName E (cstr val) then Some (Msg ''appenddirname can't be a path, just a dirname'') else None)"

definition isValidShutdownOnSigFlags :: "int validator" where
  "isValidShutdownOnSigFlags E val =
     (if val AND SHUTDOWN_NOSAVE \<noteq> 0 \<and> val AND SHUTDOWN_SAVE \<noteq> 0
      then Some (Msg ''shutdown options SAVE and NOSAVE can't be used simultaneously'') else None)"

definition isValidAnnouncedNodename :: "sds validator" where
  "isValidAnnouncedNodename E val =
     (if \<not> isValidAuxString E val then Some (Msg ''Announced human node name contained invalid character'') else None)"

definition NET_HOST_STR_LEN :: nat where "NET_HOST_STR_LEN = 256"

definition isValidAnnouncedHostname :: "sds validator" where
  "isValidAnnouncedHostname E val =
     (if NET_HOST_STR_LEN \<le> length (cstr val) then Some (Msg ''Hostnames must be less than 256 characters'')
      else if \<exists>ch \<in> set (cstr val). \<not> (65 \<le> ch \<and> ch \<le> 90 \<or> 97 \<le> ch \<and> ch \<le> 122 \<or> 48 \<le> ch \<and> ch \<le> 57 \<or> ch = 45 \<or> ch = 46)
      then Some (Msg ''Hostnames may only contain alphanumeric characters, hyphens or dots'') else None)"

definition isValidProcTitleTemplate :: "sds validator" where
  "isValidProcTitleTemplate E val =
     (if \<not> validateProcTitleTemplate E (cstr val)
      then Some (Msg ''template format is invalid or contains unknown variables'') else None)"

end
