(* ===== verification/Config_Laws.thy ===== *)
theory Config_Laws
  imports Config_Types
begin

section \<open>Reading an option and setting it again\<close>

text \<open>
  The contract between an option and CONFIG SET, as a locale: setting an option to what GET prints restores the
  value exactly, whatever the option holds by then, and a \<open>set\<close> never leaves a value the contract excludes.
  The locale \<open>config_lib\<close> states what config.c relies on in the functions of other files; under it the options
  of config.c fulfil the contract.
\<close>

subsection \<open>The functions of other files\<close>

locale config_lib = strlib_spec "clib E" for E :: config_env +
  assumes mem_print: "n < 2 ^ 64 \<Longrightarrow> memtoull E (ull2string E n) = Some n"
    and mem_decimal: "0 \<le> v \<Longrightarrow> v < 2 ^ 64 \<Longrightarrow> memtoull E (dec_print v) = Some (nat v)"
    and mem_limit: "memtoull E a = Some n \<Longrightarrow> n < 2 ^ 64"
    and mem_percent: "0 \<le> v \<Longrightarrow> in_ll v \<Longrightarrow> memtoull E (ll2string (clib E) v @ [37]) = None"
    and split_join: "ws \<noteq> [[]] \<Longrightarrow> \<forall>w \<in> set ws. 32 \<notin> set w \<Longrightarrow> splitlen E (join_words ws) = ws"
    and split_words: "w \<in> set (splitlen E a) \<Longrightarrow> 32 \<notin> set w"
    and split_bytes: "w \<in> set (splitlen E a) \<Longrightarrow> set w \<subseteq> set a"
    and split_some: "splitlen E a \<noteq> [[]]"
    and print_some: "in_ll v \<Longrightarrow> ll2string (clib E) v \<noteq> []"
    and aux_prefix: "isValidAuxString E a \<Longrightarrow> isValidAuxString E (cstr a)"
    and aux_empty: "isValidAuxString E []"
    and class_name: "j < CLIENT_TYPE_OBUF_COUNT \<Longrightarrow> getClientTypeByName E (getClientTypeName E j) = int j"
    and class_word: "j < CLIENT_TYPE_OBUF_COUNT \<Longrightarrow> 32 \<notin> set (getClientTypeName E j) \<and> getClientTypeName E j \<noteq> []"
    and class_range: "getClientTypeByName E a \<in> {- 1, 0, 1, 2, 3}"

subsection \<open>Well-formed options and their values\<close>

definition string_option_ok :: "config_env \<Rightarrow> stringConfigData \<Rightarrow> bool" where
  "string_option_ok E d =
     ((\<forall>v. string_valid d E v = None \<longrightarrow> string_valid d E (cstr v) = None)
      \<and> (convert_empty_to_null d \<longrightarrow> string_valid d E [] = None))"

definition numeric_option_ok :: "numericConfigData \<Rightarrow> bool" where
  "numeric_option_ok n =
     (numeric_cflags n \<in> {0, 1, 3, 4} \<and> in_ll (lower_bound n) \<and> in_ll (upper_bound n)
      \<and> (nflag n PERCENT_CONFIG \<longrightarrow> \<not> unsigned_type (numeric_type n) \<and> - LLONG_MAX \<le> lower_bound n)
      \<and> (nflag n OCTAL_CONFIG \<longrightarrow>
           (if unsigned_type (numeric_type n) then to_ull (upper_bound n) \<le> LLONG_MAX else 0 \<le> lower_bound n))
      \<and> (numeric_type n = NUMERIC_TYPE_INT \<longrightarrow> INT_MIN \<le> lower_bound n \<and> upper_bound n \<le> INT_MAX)
      \<and> (numeric_type n = NUMERIC_TYPE_UINT \<longrightarrow> to_ull (upper_bound n) < 2 ^ 32)
      \<and> (numeric_type n = NUMERIC_TYPE_ULONG \<longrightarrow> 0 \<le> lower_bound n))"

definition option_ok :: "config_env \<Rightarrow> standardConfig \<Rightarrow> bool" where
  "option_ok E c =
     (\<not> has_flag c MODULE_CONFIG \<and>
      (case cdata c of
         Yesno d \<Rightarrow> \<not> has_flag c MULTI_ARG_CONFIG
       | Str d \<Rightarrow> \<not> has_flag c MULTI_ARG_CONFIG \<and> string_option_ok E d
       | Sds d \<Rightarrow> \<not> has_flag c MULTI_ARG_CONFIG \<and> string_option_ok E d
       | Enumd d \<Rightarrow> enum_wf (enum_value d) \<and> (has_flag c MULTI_ARG_CONFIG \<longrightarrow> disjoint_bits (enum_value d))
       | Numeric n \<Rightarrow> \<not> has_flag c MULTI_ARG_CONFIG \<and> numeric_option_ok n
       | Special sp \<Rightarrow> has_flag c MULTI_ARG_CONFIG \<and> sp \<noteq> OtherOption))"

definition cell_ok :: "config_env \<Rightarrow> standardConfig \<Rightarrow> cell \<Rightarrow> bool" where
  "cell_ok E c x =
     (case cdata c of
        Yesno d \<Rightarrow> (\<exists>v. x = IntCell v \<and> v \<in> {0, 1} \<and> yesno_valid d E v = None)
      | Str d \<Rightarrow> (\<exists>p. x = PtrCell p \<and> (case p of None \<Rightarrow> convert_empty_to_null d
            | Some s \<Rightarrow> 0 \<notin> set s \<and> \<not> (convert_empty_to_null d \<and> s = []) \<and> string_valid d E s = None))
      | Sds d \<Rightarrow> (\<exists>p. x = PtrCell p \<and> (case p of None \<Rightarrow> convert_empty_to_null d
            | Some s \<Rightarrow> \<not> (convert_empty_to_null d \<and> s = []) \<and> string_valid d E s = None))
      | Enumd d \<Rightarrow> (\<exists>v. x = IntCell v \<and> enum_ok (enum_value d) (has_flag c MULTI_ARG_CONFIG) v \<and> v \<noteq> INT_MIN
            \<and> enum_valid d E v = None)
      | Numeric n \<Rightarrow> (\<exists>v. x = IntCell v \<and> v = cast_numeric (numeric_type n) (to_ll v)
            \<and> numericBoundaryCheck n (to_ll v) = None \<and> numeric_valid n E (to_ll v) = None)
      | Special SaveOption \<Rightarrow> (\<exists>ps. x = SaveCell ps
            \<and> (\<forall>(s, ch) \<in> set ps. 1 \<le> s \<and> s \<le> LLONG_MAX \<and> 0 \<le> ch \<and> ch \<le> INT_MAX))
      | Special BufferLimitOption \<Rightarrow> (\<exists>ls. x = BufferCell ls \<and> length ls = CLIENT_TYPE_OBUF_COUNT
            \<and> (\<forall>(h, s, t) \<in> set ls. 0 \<le> h \<and> h < 2 ^ 64 \<and> 0 \<le> s \<and> s < 2 ^ 64 \<and> 0 \<le> t \<and> t \<le> INT_MAX))
      | Special OomValuesOption \<Rightarrow> (\<exists>vs. x = OomCell vs \<and> length vs = CONFIG_OOM_COUNT \<and> (\<forall>v \<in> set vs. \<bar>v\<bar> \<le> 2000))
      | Special BindOption \<Rightarrow> (\<exists>as. x = BindCell as \<and> length as \<le> CONFIG_BINDADDR_MAX \<and> as \<noteq> [[]]
            \<and> (\<forall>a \<in> set as. 0 \<notin> set a \<and> 32 \<notin> set a))
      | Special OtherOption \<Rightarrow> False)"

text \<open>
  The arguments \<open>set\<close> does not restrict itself: numbers of changes of save points that fit an \<open>int\<close>, addresses
  without NUL.
\<close>

definition args_fit :: "config_env \<Rightarrow> standardConfig \<Rightarrow> sds \<Rightarrow> bool" where
  "args_fit E c value =
     ((cdata c = Special SaveOption \<longrightarrow> (\<forall>a \<in> set (splitlen E value). strtoll10 a \<le> INT_MAX))
      \<and> (cdata c = Special BindOption \<longrightarrow> 0 \<notin> set value))"

subsection \<open>The contract\<close>

locale config_interface =
  fixes cset :: "'c \<Rightarrow> sds \<Rightarrow> 'v \<Rightarrow> nat \<times> 'e option \<times> 'v"
    and cget :: "'c \<Rightarrow> 'v \<Rightarrow> sds"
    and cwf :: "'c \<Rightarrow> bool"
    and cok :: "'c \<Rightarrow> 'v \<Rightarrow> bool"
    and cargs :: "'c \<Rightarrow> sds \<Rightarrow> bool"
  assumes restores: "cwf c \<Longrightarrow> cok c v \<Longrightarrow> cok c x \<Longrightarrow> \<exists>r e. 0 < r \<and> cset c (cget c v) x = (r, e, v)"
    and keeps: "cwf c \<Longrightarrow> cok c x \<Longrightarrow> cargs c a \<Longrightarrow> cok c (snd (snd (cset c a x)))"
begin

lemma restored: "cwf c \<Longrightarrow> cok c v \<Longrightarrow> cok c x \<Longrightarrow> snd (snd (cset c (cget c v) x)) = v \<and> fst (cset c (cget c v) x) \<noteq> 0"
  using restores [of c v x] by auto

lemma kept: "cwf c \<Longrightarrow> cok c x \<Longrightarrow> cargs c a \<Longrightarrow> cset c a x = (r, e, y) \<Longrightarrow> cok c y"
  using keeps [of c x a] by simp

end

subsection \<open>Numbers\<close>

lemma to_ll_id [simp]: "in_ll v \<Longrightarrow> to_ll v = v"
  by (simp add: to_ll_def signed_of_int signed_take_bit_int_eq_self in_ll_def int_limits)

lemma in_ll_to_ll [simp]: "in_ll (to_ll v)"
  using sint_ge [of "word_of_int v :: u64"] sint_lt [of "word_of_int v :: u64"]
  by (simp add: to_ll_def in_ll_def int_limits)

lemma to_ll_idem [simp]: "to_ll (to_ll v) = to_ll v"
  by simp

lemma to_ll_to_ull [simp]: "to_ll (to_ull v) = to_ll v" "to_ull (to_ll v) = to_ull v"
  by (simp_all add: to_ll_def to_ull_def)

lemma to_ull_idem [simp]: "to_ull (to_ull v) = to_ull v"
  by (simp add: to_ull_def)

lemma to_ull_range: "0 \<le> to_ull v" "to_ull v < 2 ^ 64"
  using unsigned_less [of "word_of_int v :: u64"] by (simp_all add: to_ull_def)

lemma to_ull_id: "0 \<le> v \<Longrightarrow> v < 2 ^ 64 \<Longrightarrow> to_ull v = v"
  by (simp add: to_ull_def unsigned_of_int take_bit_int_eq_self)

lemma to_ull_to_ll_small: "to_ull v \<le> LLONG_MAX \<Longrightarrow> to_ll v = to_ull v"
  using to_ll_id [of "to_ull v"] to_ull_range [of v] by (simp add: in_ll_def int_limits)

lemma uint32_id: "0 \<le> v \<Longrightarrow> v < 2 ^ 32 \<Longrightarrow> uint (word_of_int v :: u32) = v"
  by (simp add: unsigned_of_int take_bit_int_eq_self)

text \<open>A value within the bounds of an option fits the memory of the option.\<close>

lemma cast_fits:
  assumes "numeric_option_ok n" "numericBoundaryCheck n ll = None" "in_ll ll"
  shows "to_ll (cast_numeric (numeric_type n) ll) = ll"
proof (cases "numeric_type n")
  case NUMERIC_TYPE_INT
  then have "INT_MIN \<le> ll \<and> ll \<le> INT_MAX"
    using assms(1,2) by (auto simp: numeric_option_ok_def numericBoundaryCheck_def unsigned_type_def int_limits split: if_splits)
  then show ?thesis using assms(3) NUMERIC_TYPE_INT by (simp add: cast_numeric_def to_int_id)
next
  case NUMERIC_TYPE_UINT
  then have "to_ull ll < 2 ^ 32"
    using assms(1,2) by (auto simp: numeric_option_ok_def numericBoundaryCheck_def unsigned_type_def Let_def split: if_splits)
  then have "to_ll ll = to_ull ll" by (intro to_ull_to_ll_small) (simp add: int_limits)
  then have "0 \<le> ll" "ll < 2 ^ 32" using to_ull_range [of ll] \<open>to_ull ll < 2 ^ 32\<close> assms(3) by simp_all
  then show ?thesis using assms(3) NUMERIC_TYPE_UINT by (simp add: cast_numeric_def uint32_id)
qed (use assms(3) in \<open>simp_all add: cast_numeric_def\<close>)

subsection \<open>Digits\<close>

lemma base_val_snoc: "base_val b (ds @ [c]) = base_val b ds * b + (unat c - 48)"
  by (simp add: base_val_def)

lemma oct_digits_ok: "base_val 8 (oct_digits m) = m \<and> (\<forall>c \<in> set (oct_digits m). digit_in 8 c) \<and> oct_digits m \<noteq> []"
proof (induction m rule: oct_digits.induct)
  case (1 m)
  have u: "unat (of_nat (48 + k) :: u8) = 48 + k" if "k < 8" for k
    using that by (simp add: unat_of_nat take_bit_nat_eq_self del: of_nat_add)
  show ?case
  proof (cases "m < 8")
    case True
    then show ?thesis using u [of m] by (subst (1 2 3) oct_digits.simps) (simp add: base_val_def digit_in_def del: of_nat_add)
  next
    case False
    then show ?thesis using 1 u [of "m mod 8"]
      by (subst (1 2 3) oct_digits.simps) (simp add: base_val_snoc digit_in_def del: of_nat_add)
  qed
qed

lemma base_val_10: "base_val 10 ds = digits_val ds"
  by (simp add: base_val_def digits_val_def mult.commute)

lemma digit_in_10: "digit_in 10 c \<longleftrightarrow> isdigit8 c"
  by (auto simp: digit_in_def isdigit8_def word_le_nat_alt)

lemma digit_in_plain: "digit_in b c \<Longrightarrow> b \<le> 10 \<Longrightarrow> c \<noteq> 0 \<and> c \<noteq> 45 \<and> c \<noteq> 43 \<and> \<not> isspace8 c \<and> c \<noteq> 32"
  by (auto simp: digit_in_def isspace8_def word_le_nat_alt)

lemma strtoll_digits_in:
  assumes "\<forall>c \<in> set ds. digit_in b c" "ds \<noteq> []" "b \<le> 10" "int (base_val b ds) \<le> LLONG_MAX"
  shows "c_strtoll b ds = (int (base_val b ds), False, [])"
proof -
  obtain c cs where ds: "ds = c # cs" using assms(2) by (cases ds) auto
  have "cstr ds = ds" using assms(1,3) digit_in_plain by (force simp: cstr_def takeWhile_eq_all_conv)
  moreover have "takeWhile (digit_in b) ds = ds" "dropWhile (digit_in b) ds = []" using assms(1) by (auto simp: takeWhile_eq_all_conv)
  moreover have "split_sign (dropWhile isspace8 ds) = (False, ds)"
    using ds assms(1,3) digit_in_plain [of b c] by simp
  ultimately show ?thesis using assms(1,2,4) by (simp add: c_strtoll_def Let_def int_limits takeWhile_eq_all_conv [THEN iffD2])
qed

lemma strtoll_negative_digits:
  assumes "\<forall>c \<in> set ds. digit_in b c" "ds \<noteq> []" "b \<le> 10" "int (base_val b ds) \<le> - LLONG_MIN"
  shows "c_strtoll b (45 # ds) = (- int (base_val b ds), False, [])"
proof -
  have "cstr (45 # ds) = 45 # ds" using assms(1,3) digit_in_plain by (force simp: cstr_def takeWhile_eq_all_conv)
  moreover have "takeWhile (digit_in b) ds = ds" "dropWhile (digit_in b) ds = []" using assms(1) by (auto simp: takeWhile_eq_all_conv)
  ultimately show ?thesis using assms(1,2,4)
    by (simp add: c_strtoll_def Let_def int_limits isspace8_def takeWhile_eq_all_conv [THEN iffD2])
qed

lemma strtoll_dec_print_10: "in_ll v \<Longrightarrow> c_strtoll 10 (dec_print v) = (v, False, [])"
  using strtoll_digits_in [of "digits10 (nat v)" 10] strtoll_negative_digits [of "digits10 (nat (- v))" 10]
    digits10_hd [of "nat v"] digits10_hd [of "nat (- v)"]
  by (auto simp: dec_print_def digits10_digits digit_in_10 base_val_10 in_ll_def int_limits)

lemma strtoll10_dec_print [simp]: "in_ll v \<Longrightarrow> strtoll10 (dec_print v) = v"
  by (simp add: strtoll10_def strtoll_dec_print_10)

lemma strtoll_oct: "int m \<le> LLONG_MAX \<Longrightarrow> c_strtoll 8 (oct_digits m) = (int m, False, [])"
  using oct_digits_ok [of m] strtoll_digits_in [of "oct_digits m" 8] by simp

lemma dec_print_word: "32 \<notin> set (dec_print v)" "0 \<notin> set (dec_print v)" "dec_print v \<noteq> []" "cstr (dec_print v) \<noteq> []"
proof -
  have d: "\<forall>c \<in> set (digits10 m). c \<noteq> 32 \<and> c \<noteq> 0" for m
    using digits10_digits [of _ m] by (fastforce simp: isdigit8_def word_le_nat_alt)
  then show "32 \<notin> set (dec_print v)" "0 \<notin> set (dec_print v)" by (auto simp: dec_print_def)
  show ne: "dec_print v \<noteq> []" using digits10_hd by (auto simp: dec_print_def)
  have "cstr (dec_print v) = dec_print v"
    using \<open>0 \<notin> set (dec_print v)\<close> by (auto simp: cstr_def takeWhile_eq_all_conv)
  then show "cstr (dec_print v) \<noteq> []" using ne by simp
qed

lemma c_strtoll_range: "in_ll (fst (c_strtoll b a))"
  by (auto simp: c_strtoll_def Let_def in_ll_def int_limits split: prod.splits)

subsection \<open>Restoring a value\<close>

lemma yes_no [simp]: "yesnotoi (bytes_of ''yes'') = 1" "yesnotoi (bytes_of ''no'') = 0"
  by code_simp+

lemma cstr_plain: "0 \<notin> set s \<Longrightarrow> cstr s = s"
  by (auto simp: cstr_def takeWhile_eq_all_conv)

lemma set_pos [simp]: "unchanged c x = (if has_flag c VOLATILE_CONFIG then 1 else 2, None, x)"
  by (simp add: unchanged_def)

lemma store_plain [simp]: "\<not> has_flag c MODULE_CONFIG \<Longrightarrow> store_value E c v x = (1, None, v)"
  by (simp add: store_value_def)

definition restores_to :: "nat \<times> config_error option \<times> cell \<Rightarrow> cell \<Rightarrow> bool" where
  "restores_to r v = (\<exists>n e. 0 < n \<and> r = (n, e, v))"

lemma restore_bool:
  assumes "\<not> has_flag c MODULE_CONFIG" "cdata c = Yesno d" "cell_ok E c v" "cell_ok E c x"
  shows "restores_to (boolConfigSet E c d [boolConfigGet v] x) v"
  using assms by (auto simp: restores_to_def cell_ok_def boolConfigSet_def boolConfigGet_def int_of_def)

lemma restore_string:
  assumes "cdata c = Str d" "cell_ok E c v" "cell_ok E c x" "string_option_ok E d"
  shows "restores_to (stringConfigSet E c d [stringConfigGet v] x) v"
  using assms by (auto simp: restores_to_def cell_ok_def stringConfigSet_def stringConfigGet_def ptr_of_def Let_def
      string_option_ok_def cstr_plain split: option.splits)

lemma restore_sds:
  assumes "\<not> has_flag c MODULE_CONFIG" "cdata c = Sds d" "cell_ok E c v" "cell_ok E c x" "string_option_ok E d"
  shows "restores_to (sdsConfigSet E c d [sdsConfigGet v] x) v"
  using assms by (auto simp: restores_to_def cell_ok_def sdsConfigSet_def sdsConfigGet_def ptr_of_def Let_def
      string_option_ok_def split: option.splits)

context config_lib
begin

lemma parse_printed:
  assumes "numeric_option_ok n" "numericBoundaryCheck n (to_ll v) = None"
  shows "numericParseString E n (numericConfigGet E n (IntCell v)) = Inr (to_ll v)"
proof -
  have g: "GET_NUMERIC_TYPE (IntCell v) = to_ll v" by (simp add: GET_NUMERIC_TYPE_def int_of_def)
  have m: "memtoull E (ull2string E (nat (to_ull v))) = Some (nat (to_ull v))"
    using mem_print to_ull_range [of v] by (simp add: nat_less_iff)
  have l: "to_ll (int (nat (to_ull v))) = to_ll v" using to_ull_range(1) [of v] by simp
  consider (plain) "numeric_cflags n = 0" | (memory) "numeric_cflags n = 1" | (percent) "numeric_cflags n = 3"
    | (octal) "numeric_cflags n = 4"
    using assms(1) by (auto simp: numeric_option_ok_def)
  then show ?thesis
  proof cases
    case plain
    then show ?thesis
      using parse_print [of "to_ll v"]
      by (simp add: numericParseString_def numericConfigGet_def parse_memory_def parse_percent_def parse_octal_def
          parse_plain_def nflag_def numeric_flags g)
  next
    case memory
    then show ?thesis
      using m l by (simp add: numericParseString_def numericConfigGet_def parse_memory_def nflag_def numeric_flags g to_ll_to_ull)
  next
    case percent
    show ?thesis
    proof (cases "to_ll v < 0")
      case True
      have "- LLONG_MAX \<le> to_ll v"
        using assms percent True by (auto simp: numeric_option_ok_def numericBoundaryCheck_def nflag_def numeric_flags split: if_splits)
      then have i: "in_ll (- to_ll v)" using True by (auto simp: in_ll_def int_limits)
      then show ?thesis
        using True percent mem_percent [of "- to_ll v"] parse_print [OF i] print_some [OF i]
        by (simp add: numericParseString_def numericConfigGet_def parse_memory_def parse_percent_def nflag_def numeric_flags g Let_def)
    next
      case False
      then show ?thesis
        using percent m l by (simp add: numericParseString_def numericConfigGet_def parse_memory_def nflag_def numeric_flags g)
    qed
  next
    case octal
    have u: "to_ull v \<le> LLONG_MAX"
    proof (cases "unsigned_type (numeric_type n)")
      case True
      then show ?thesis
        using assms octal by (auto simp: numeric_option_ok_def numericBoundaryCheck_def nflag_def numeric_flags Let_def split: if_splits)
    next
      case False
      then have "0 \<le> to_ll v"
        using assms octal by (auto simp: numeric_option_ok_def numericBoundaryCheck_def nflag_def numeric_flags split: if_splits)
      then have "to_ull (to_ll v) = to_ll v" using in_ll_to_ll [of v] by (intro to_ull_id) (auto simp: in_ll_def int_limits)
      then show ?thesis using in_ll_to_ll [of v] by (simp add: in_ll_def)
    qed
    have "to_ll v = to_ull v" by (rule to_ull_to_ll_small [OF u])
    moreover have "c_strtoll 8 (oct_digits (nat (to_ull v))) = (to_ull v, False, [])"
      using strtoll_oct [of "nat (to_ull v)"] u to_ull_range(1) [of v] by simp
    ultimately show ?thesis
      using octal by (simp add: numericParseString_def numericConfigGet_def parse_memory_def parse_percent_def parse_octal_def
          nflag_def numeric_flags g)
  qed
qed

lemma restore_numeric:
  assumes "\<not> has_flag c MODULE_CONFIG" "cdata c = Numeric n" "cell_ok E c v" "cell_ok E c x" "numeric_option_ok n"
  shows "restores_to (numericConfigSet E c n [numericConfigGet E n v] x) v"
proof -
  obtain a where a: "v = IntCell a" "a = cast_numeric (numeric_type n) (to_ll a)" "numericBoundaryCheck n (to_ll a) = None"
      "numeric_valid n E (to_ll a) = None" using assms(2,3) by (auto simp: cell_ok_def)
  obtain b where b: "x = IntCell b" "b = cast_numeric (numeric_type n) (to_ll b)" using assms(2,4) by (auto simp: cell_ok_def)
  have "to_ll b = to_ll a \<Longrightarrow> b = a" using a(2) b(2) by simp
  then show ?thesis
    using parse_printed [OF assms(5) a(3)] a b(1) assms(1)
    by (simp add: restores_to_def numericConfigSet_def setNumericType_def GET_NUMERIC_TYPE_def int_of_def)
qed

end

subsection \<open>Restoring enumerations and special options\<close>

lemma of_char_eq_u8: "(of_char c :: u8) = of_char d \<longleftrightarrow> c = d"
proof
  assume e: "(of_char c :: u8) = of_char d"
  have u: "unat (of_char k :: u8) = of_char k" for k
  proof -
    have "(of_char k :: nat) < 256" by (rule nat_of_char_less_256)
    moreover have "(of_char k :: u8) = of_nat (of_char k)" by (simp only: of_nat_of_char)
    ultimately show ?thesis by (simp only: unat_of_nat) (simp add: take_bit_nat_eq_self)
  qed
  have "(of_char c :: nat) = of_char d" using arg_cong [OF e, of unat] by (simp only: u)
  then show "c = d" by (simp only: of_char_eq_iff)
qed simp

lemma of_char_blank: "(of_char c :: u8) = 32 \<longleftrightarrow> c = CHR '' ''"
proof -
  have "(32 :: u8) = of_char (CHR '' '')" by simp
  then show ?thesis by (simp only: of_char_eq_u8)
qed

lemma words_plain:
  assumes "enum_wf ce" "set qs \<subseteq> set ce" "w \<in> set (words_of qs)"
  shows "32 \<notin> set w \<and> w \<noteq> []"
proof -
  obtain n v where n: "(n, v) \<in> set qs" "w = bytes_of n" using assms(3) by (auto simp: words_of_def)
  then have "n \<noteq> []" "CHR '' '' \<notin> set n" using assms(1,2) by (auto simp: enum_wf_def)
  moreover have "32 \<notin> set (bytes_of n)"
  proof
    assume "32 \<in> set (bytes_of n)"
    then obtain ch where "ch \<in> set n" "(of_char ch :: u8) = 32" by (metis bytes_of_def imageE list.set_map)
    then show False using \<open>CHR '' '' \<notin> set n\<close> by (simp only: of_char_blank)
  qed
  ultimately show ?thesis using n(2) by (simp add: bytes_of_def)
qed

context config_lib
begin

lemma restore_enum:
  assumes "\<not> has_flag c MODULE_CONFIG" "cdata c = Enumd d" "cell_ok E c v" "cell_ok E c x" "enum_wf (enum_value d)"
  shows "restores_to (enumConfigSet E c d
      (if has_flag c MULTI_ARG_CONFIG then splitlen E (enumConfigGet c d v) else [enumConfigGet c d v]) x) v"
proof -
  let ?bf = "has_flag c MULTI_ARG_CONFIG"
  obtain a where a: "v = IntCell a" "enum_ok (enum_value d) ?bf a" "a \<noteq> INT_MIN" "enum_valid d E a = None"
    using assms(2,3) by (auto simp: cell_ok_def)
  obtain b where b: "x = IntCell b" using assms(2,4) by (auto simp: cell_ok_def)
  from enum_roundtrip [OF assms(5) a(2)] obtain qs where q: "set qs \<subseteq> set (enum_value d)" "qs \<noteq> []" "?bf \<or> length qs = 1"
      "configEnumGetName (enum_value d) a ?bf = join_words (words_of qs)"
      "configEnumGetValue (enum_value d) (words_of qs) ?bf = a" by blast
  have w: "\<forall>w \<in> set (words_of qs). 32 \<notin> set w \<and> w \<noteq> []" using words_plain [OF assms(5) q(1)] by blast
  have "(if ?bf then splitlen E (enumConfigGet c d v) else [enumConfigGet c d v]) = words_of qs"
  proof (cases ?bf)
    case True
    have "words_of qs \<noteq> [[]]" using w by (metis list.set_intros(1))
    then show ?thesis using True w q(4) a(1) split_join [of "words_of qs"] by (simp add: enumConfigGet_def int_of_def)
  next
    case False
    then obtain p where "qs = [p]" using q(3) by (metis length_Suc_conv length_0_conv One_nat_def)
    then show ?thesis using False q(4) a(1) by (simp add: enumConfigGet_def int_of_def words_of_def split_def)
  qed
  then show ?thesis using q(5) a(1,3,4) b assms(1) by (auto simp: restores_to_def enumConfigSet_def int_of_def Let_def)
qed

end

definition save_words :: "(int \<times> int) list \<Rightarrow> sds list" where
  "save_words ps = concat (map (\<lambda>(s, ch). [dec_print s, dec_print ch]) ps)"

lemma join_words_Cons: "ws \<noteq> [] \<Longrightarrow> join_words (w # ws) = w @ bytes_of '' '' @ join_words ws"
  by (cases ws) auto

lemma save_words_simps [simp]: "save_words [] = []" "save_words ((s, ch) # ps) = dec_print s # dec_print ch # save_words ps"
  by (simp_all add: save_words_def)

lemma save_words_join: "getConfigSaveOption (SaveCell ps) = join_words (save_words ps)"
proof (induction ps)
  case (Cons p ps)
  obtain s ch where p: "p = (s, ch)" by fastforce
  show ?case
  proof (cases ps)
    case Nil
    then show ?thesis using p by (simp add: getConfigSaveOption_def saves_of_def)
  next
    case (Cons q qs)
    then have "save_words ps \<noteq> []" by (cases q) simp
    then show ?thesis using Cons.IH Cons p by (simp add: getConfigSaveOption_def saves_of_def join_words_Cons)
  qed
qed (simp add: getConfigSaveOption_def saves_of_def)

lemma save_words_ok:
  assumes "\<forall>(s, ch) \<in> set ps. 1 \<le> s \<and> s \<le> LLONG_MAX \<and> 0 \<le> ch \<and> ch \<le> INT_MAX"
  shows "even (length (save_words ps)) \<and> save_args_ok False (save_words ps) \<and> save_pairs (save_words ps) = ps
      \<and> (\<forall>w \<in> set (save_words ps). 32 \<notin> set w \<and> w \<noteq> [])"
  using assms
proof (induction ps)
  case (Cons p ps)
  obtain s ch where p: "p = (s, ch)" by fastforce
  have i: "in_ll s" "in_ll ch" "to_int ch = ch" using Cons.prems p by (auto simp: in_ll_def int_limits to_int_id)
  then show ?case
    using Cons p strtoll_dec_print_10 [OF i(1)] strtoll_dec_print_10 [OF i(2)] by (auto simp: dec_print_word)
qed simp

context config_lib
begin

lemma restore_save:
  assumes "cdata c = Special SaveOption" "cell_ok E c v" "\<not> reading_config_file E"
  shows "restores_to (setConfigSaveOption E (splitlen E (getConfigSaveOption v)) x) v"
proof -
  obtain ps where ps: "v = SaveCell ps" "\<forall>(s, ch) \<in> set ps. 1 \<le> s \<and> s \<le> LLONG_MAX \<and> 0 \<le> ch \<and> ch \<le> INT_MAX"
    using assms(1,2) by (auto simp: cell_ok_def)
  note w = save_words_ok [OF ps(2)]
  have "save_words ps \<noteq> [[]]" using w by (metis list.set_intros(1))
  then have "splitlen E (getConfigSaveOption v) = save_words ps" using w split_join by (simp add: ps(1) save_words_join)
  moreover have "length (save_words ps) \<noteq> 1" using w by (metis odd_one)
  ultimately show ?thesis
    using w assms(3) ps(1) by (simp add: restores_to_def setConfigSaveOption_def Let_def resetServerSaveParams_def
        appendServerSaveParams_def)
qed

lemma restore_oom:
  assumes "cdata c = Special OomValuesOption" "cell_ok E c v"
  shows "restores_to (setConfigOOMScoreAdjValuesOption (splitlen E (getConfigOOMScoreAdjValuesOption v)) x) v"
proof -
  obtain vs where vs: "v = OomCell vs" "length vs = CONFIG_OOM_COUNT" "\<forall>a \<in> set vs. \<bar>a\<bar> \<le> 2000"
    using assms by (auto simp: cell_ok_def)
  have l: "in_ll a" if "a \<in> set vs" for a using vs(3) that by (force simp: in_ll_def int_limits)
  have "map dec_print vs \<noteq> [[]]" using vs(2) by (cases vs) (auto simp: CONFIG_OOM_COUNT_def)
  then have s: "splitlen E (getConfigOOMScoreAdjValuesOption v) = map dec_print vs"
    using split_join [of "map dec_print vs"] by (simp add: getConfigOOMScoreAdjValuesOption_def oom_of_def vs(1) dec_print_word)
  have "map strtoll10 (map dec_print vs) = vs" using l by (simp add: map_idI)
  moreover have "\<not> (\<exists>a \<in> set (map dec_print vs). (let (val, _, rest) = c_strtoll 10 a in rest \<noteq> [] \<or> val < - 2000 \<or> 2000 < val))"
    using vs(3) l by (force simp: strtoll_dec_print_10)
  ultimately show ?thesis using vs(1,2) s by (auto simp: restores_to_def setConfigOOMScoreAdjValuesOption_def)
qed

lemma restore_bind:
  assumes "cdata c = Special BindOption" "cell_ok E c v"
  shows "restores_to (setConfigBindOption (splitlen E (getConfigBindOption v)) x) v"
proof -
  obtain as where a: "v = BindCell as" "length as \<le> CONFIG_BINDADDR_MAX" "as \<noteq> [[]]" "\<forall>a \<in> set as. 0 \<notin> set a \<and> 32 \<notin> set a"
    using assms by (auto simp: cell_ok_def)
  then have s: "splitlen E (getConfigBindOption v) = as" using split_join by (simp add: getConfigBindOption_def binds_of_def)
  have "map cstr as = as" using a(4) by (simp add: map_idI cstr_plain)
  moreover have "(if length as = 1 \<and> as ! 0 = [] then [] else as) = as" using a(3) by (auto simp: length_Suc_conv)
  ultimately show ?thesis using a(1,2) s by (simp add: restores_to_def setConfigBindOption_def del: if_weak_cong)
qed

end

definition limit_ok :: "int \<times> int \<times> int \<Rightarrow> bool" where
  "limit_ok l = (case l of (h, s, t) \<Rightarrow> 0 \<le> h \<and> h < 2 ^ 64 \<and> 0 \<le> s \<and> s < 2 ^ 64 \<and> 0 \<le> t \<and> t \<le> INT_MAX)"

definition limit_words :: "config_env \<Rightarrow> nat \<Rightarrow> int \<times> int \<times> int \<Rightarrow> sds list" where
  "limit_words E j l = (case l of (h, s, t) \<Rightarrow> [getClientTypeName E j, dec_print h, dec_print s, dec_print t])"

lemma length_three: "length xs = 3 \<Longrightarrow> \<exists>a b c. xs = [a, b, c]"
  by (auto simp: length_Suc_conv numeral_3_eq_3)

context config_lib
begin

lemma limit_words_scanned:
  assumes "limit_ok l" "j < CLIENT_TYPE_OBUF_COUNT"
  shows "buffer_limits E (limit_words E j l @ as) values = buffer_limits E as (values[j := Some l])"
proof -
  obtain h s t where l: "l = (h, s, t)" by (metis prod_cases3)
  have j: "int j \<noteq> CLIENT_TYPE_MASTER" using assms(2) by (simp add: CLIENT_TYPE_MASTER_def CLIENT_TYPE_OBUF_COUNT_def)
  have t: "in_ll t" "to_int t = t" "\<not> t < 0"
    using assms(1) l by (auto simp: limit_ok_def in_ll_def int_limits to_int_id)
  have m: "memtoull E (dec_print h) = Some (nat h)" "memtoull E (dec_print s) = Some (nat s)" "int (nat h) = h" "int (nat s) = s"
    using assms(1) l by (simp_all add: limit_ok_def mem_decimal)
  show ?thesis
    using j t m strtoll_dec_print_10 [OF t(1)] by (simp add: limit_words_def l class_name [OF assms(2)] Let_def)
qed

lemma restore_limits:
  assumes "cdata c = Special BufferLimitOption" "cell_ok E c v" "cell_ok E c x"
  shows "restores_to (setConfigClientOutputBufferLimitOption E (splitlen E (getConfigClientOutputBufferLimitOption E v)) x) v"
proof -
  have "\<exists>ls. y = BufferCell ls \<and> length ls = 3 \<and> (\<forall>l \<in> set ls. limit_ok l)" if "cell_ok E c y" for y
    using assms(1) that by (auto simp: cell_ok_def limit_ok_def CLIENT_TYPE_OBUF_COUNT_def)
  then obtain l0 l1 l2 m0 m1 m2 where v: "v = BufferCell [l0, l1, l2]" "limit_ok l0" "limit_ok l1" "limit_ok l2"
      and x: "x = BufferCell [m0, m1, m2]"
    using assms(2,3) length_three by (metis list.set_intros(1,2))
  have three: "(0::nat) < CLIENT_TYPE_OBUF_COUNT" "1 < CLIENT_TYPE_OBUF_COUNT" "2 < CLIENT_TYPE_OBUF_COUNT"
    by (simp_all add: CLIENT_TYPE_OBUF_COUNT_def)
  let ?ws = "limit_words E 0 l0 @ limit_words E 1 l1 @ limit_words E 2 l2 @ []"
  have g: "getConfigClientOutputBufferLimitOption E v = join_words ?ws"
    by (cases l0; cases l1; cases l2)
       (simp add: v(1) getConfigClientOutputBufferLimitOption_def limits_of_def limit_words_def numeral_2_eq_2)
  have "\<forall>w \<in> set ?ws. 32 \<notin> set w"
    using class_word [OF three(1)] class_word [OF three(2)] class_word [OF three(3)]
    by (cases l0; cases l1; cases l2) (simp add: limit_words_def dec_print_word)
  moreover
  have len: "length ?ws = 12" by (cases l0; cases l1; cases l2) (simp add: limit_words_def)
  have "?ws \<noteq> [[]]"
  proof
    assume "?ws = [[]]"
    then have "length ?ws = length [[] :: sds]" by (rule arg_cong)
    with len show False by simp
  qed
  ultimately have s: "splitlen E (getConfigClientOutputBufferLimitOption E v) = ?ws" using split_join g by simp
  have "buffer_limits E ?ws (replicate CLIENT_TYPE_OBUF_COUNT None) = Inr [Some l0, Some l1, Some l2]"
    using v(2-4) three by (simp only: limit_words_scanned) (simp add: CLIENT_TYPE_OBUF_COUNT_def numeral_3_eq_3)
  then show ?thesis
    unfolding s using len by (simp only: setConfigClientOutputBufferLimitOption_def updateClientOutputBufferLimit_def restores_to_def)
      (simp add: v(1) x limits_of_def)
qed

text \<open>Every option of config.c that is not left to another file restores.\<close>

lemma option_restores:
  assumes "option_ok E c" "cell_ok E c v" "cell_ok E c x" "\<not> reading_config_file E"
  shows "\<exists>r e. 0 < r \<and> performInterfaceSet E c (interface_get E c v) x = (r, e, v)"
proof -
  have m: "\<not> has_flag c MODULE_CONFIG" using assms(1) by (simp add: option_ok_def)
  have "restores_to (performInterfaceSet E c (interface_get E c v) x) v"
  proof (cases "cdata c")
    case (Yesno d)
    then show ?thesis using restore_bool [OF m Yesno assms(2,3)] assms(1)
      by (simp add: performInterfaceSet_def interface_set_def interface_get_def option_ok_def)
  next
    case (Str d)
    then show ?thesis using restore_string [OF Str assms(2,3)] assms(1)
      by (simp add: performInterfaceSet_def interface_set_def interface_get_def option_ok_def)
  next
    case (Sds d)
    then show ?thesis using restore_sds [OF m Sds assms(2,3)] assms(1)
      by (simp add: performInterfaceSet_def interface_set_def interface_get_def option_ok_def)
  next
    case (Enumd d)
    then show ?thesis using restore_enum [OF m Enumd assms(2,3)] assms(1)
      by (simp add: performInterfaceSet_def interface_set_def interface_get_def option_ok_def)
  next
    case (Numeric n)
    then show ?thesis using restore_numeric [OF m Numeric assms(2,3)] assms(1,2)
      by (auto simp: performInterfaceSet_def interface_set_def interface_get_def option_ok_def cell_ok_def)
  next
    case (Special sp)
    then have multi: "has_flag c MULTI_ARG_CONFIG" "sp \<noteq> OtherOption" using assms(1) by (simp_all add: option_ok_def)
    with Special restore_save [of c v x] restore_limits [of c v x] restore_oom [of c v x] restore_bind [of c v x] assms(2-4)
    show ?thesis by (cases sp) (simp_all add: performInterfaceSet_def interface_set_def interface_get_def)
  qed
  then show ?thesis by (simp add: restores_to_def)
qed

end

subsection \<open>A value set is a value the option can have\<close>

lemma keep_string:
  assumes "cdata c = Str d" "cell_ok E c x" "string_option_ok E d"
  shows "cell_ok E c (snd (snd (stringConfigSet E c d [a] x)))"
proof (cases "string_valid d E a")
  case None
  have z: "0 \<notin> set (cstr a)" by (auto simp: cstr_def dest: set_takeWhileD)
  have "string_valid d E (cstr a) = None" using None assms(3) by (simp add: string_option_ok_def)
  then show ?thesis using None z assms(1,2) by (auto simp: cell_ok_def stringConfigSet_def Let_def)
qed (use assms(1,2) in \<open>simp add: stringConfigSet_def\<close>)

lemma keep_sds:
  assumes "\<not> has_flag c MODULE_CONFIG" "cdata c = Sds d" "cell_ok E c x"
  shows "cell_ok E c (snd (snd (sdsConfigSet E c d [a] x)))"
  using assms by (auto simp: cell_ok_def sdsConfigSet_def Let_def split: option.splits)

lemma keep_bool:
  assumes "\<not> has_flag c MODULE_CONFIG" "cdata c = Yesno d" "cell_ok E c x"
  shows "cell_ok E c (snd (snd (boolConfigSet E c d [a] x)))"
  using assms by (auto simp: cell_ok_def boolConfigSet_def yesnotoi_def Let_def split: option.splits)

lemma keep_enum:
  assumes "\<not> has_flag c MODULE_CONFIG" "cdata c = Enumd d" "cell_ok E c x"
    and "enum_wf (enum_value d)" "has_flag c MULTI_ARG_CONFIG \<longrightarrow> disjoint_bits (enum_value d)"
  shows "cell_ok E c (snd (snd (enumConfigSet E c d argv x)))"
  using assms(1-3) enum_value_ok [OF assms(4,5), of argv]
  by (auto simp: cell_ok_def enumConfigSet_def Let_def split: option.splits)

context config_lib
begin

lemma parsed_range: "numericParseString E n a = Inr ll \<Longrightarrow> in_ll ll"
proof -
  assume p: "numericParseString E n a = Inr ll"
  have "in_ll r" if "parse_memory E n a = Some r" for r using that by (auto simp: parse_memory_def split: if_splits)
  moreover have "in_ll r" if "parse_percent E n a = Some r" for r
    using that parse_only by (fastforce simp: parse_percent_def in_ll_def int_limits split: if_splits option.splits)
  moreover have "in_ll r" if "parse_octal n a = Some r" for r
    using that c_strtoll_range [of 8 a] by (auto simp: parse_octal_def split: if_splits prod.splits)
  moreover have "in_ll r" if "parse_plain E n a = Some r" for r
    using that parse_only by (auto simp: parse_plain_def split: if_splits)
  ultimately show ?thesis using p by (auto simp: numericParseString_def split: option.splits)
qed

lemma keep_numeric:
  assumes "\<not> has_flag c MODULE_CONFIG" "cdata c = Numeric n" "cell_ok E c x" "numeric_option_ok n"
  shows "cell_ok E c (snd (snd (numericConfigSet E c n [a] x)))"
proof (cases "numericParseString E n a")
  case (Inr ll)
  show ?thesis
  proof (cases "numericBoundaryCheck n ll = None \<and> numeric_valid n E ll = None")
    case True
    then have "to_ll (cast_numeric (numeric_type n) ll) = ll" using cast_fits [OF assms(4)] parsed_range [OF Inr] by blast
    then show ?thesis using Inr True assms(1-3) by (auto simp: cell_ok_def numericConfigSet_def setNumericType_def)
  qed (use Inr assms(2,3) in \<open>auto simp: numericConfigSet_def split: option.splits\<close>)
qed (use assms(2,3) in \<open>simp add: numericConfigSet_def\<close>)

end

lemma save_pairs_ok:
  assumes "even (length args)" "save_args_ok False args" "\<forall>a \<in> set args. strtoll10 a \<le> INT_MAX"
  shows "\<forall>(s, ch) \<in> set (save_pairs args). 1 \<le> s \<and> s \<le> LLONG_MAX \<and> 0 \<le> ch \<and> ch \<le> INT_MAX"
  using assms
proof (induction args rule: save_pairs.induct)
  case (1 a b as)
  have a: "1 \<le> strtoll10 a" "0 \<le> strtoll10 b" using 1(3) by (auto simp: strtoll10_def split: prod.splits)
  have "strtoll10 a \<le> LLONG_MAX" using c_strtoll_range [of 10 a] by (simp add: strtoll10_def in_ll_def)
  moreover have "to_int (strtoll10 b) = strtoll10 b" using a(2) 1(4) by (intro to_int_id) (simp_all add: int_limits)
  moreover have "even (length as)" "save_args_ok False as" "\<forall>a \<in> set as. strtoll10 a \<le> INT_MAX"
    using 1(2-4) by (auto split: prod.splits)
  ultimately show ?case using 1(1) a 1(4) by auto
qed auto

lemma keep_save:
  assumes "cdata c = Special SaveOption" "cell_ok E c x" "\<not> reading_config_file E" "\<forall>a \<in> set argv. strtoll10 a \<le> INT_MAX"
  shows "cell_ok E c (snd (snd (setConfigSaveOption E argv x)))"
proof (cases "length argv = 1 \<and> strcaseeq (argv ! 0) []")
  case True
  then show ?thesis using assms(1,3)
    by (simp add: setConfigSaveOption_def cell_ok_def resetServerSaveParams_def appendServerSaveParams_def)
next
  case False
  have "\<forall>(s, ch) \<in> set (save_pairs argv). 1 \<le> s \<and> s \<le> LLONG_MAX \<and> 0 \<le> ch \<and> ch \<le> INT_MAX"
    if "\<not> (odd (length argv) \<or> \<not> save_args_ok False argv)"
    using that save_pairs_ok [OF _ _ assms(4)] by blast
  then show ?thesis using False assms(1,2,3)
    by (auto simp: setConfigSaveOption_def cell_ok_def Let_def resetServerSaveParams_def appendServerSaveParams_def)
qed

lemma keep_oom:
  assumes "cdata c = Special OomValuesOption" "cell_ok E c x"
  shows "cell_ok E c (snd (snd (setConfigOOMScoreAdjValuesOption argv x)))"
proof (cases "length argv \<noteq> CONFIG_OOM_COUNT
    \<or> (\<exists>a \<in> set argv. (let (val, _, rest) = c_strtoll 10 a in rest \<noteq> [] \<or> val < - 2000 \<or> 2000 < val))")
  case True
  then show ?thesis using assms by (auto simp: setConfigOOMScoreAdjValuesOption_def)
next
  case False
  then have "\<bar>strtoll10 a\<bar> \<le> 2000" if "a \<in> set argv" for a
    using that by (cases "c_strtoll 10 a") (force simp: strtoll10_def)
  then show ?thesis using False assms(1) by (auto simp: setConfigOOMScoreAdjValuesOption_def cell_ok_def)
qed

lemma keep_bind:
  assumes "cdata c = Special BindOption" "cell_ok E c x" "\<forall>a \<in> set argv. 0 \<notin> set a \<and> 32 \<notin> set a"
  shows "cell_ok E c (snd (snd (setConfigBindOption argv x)))"
proof -
  have m: "map cstr argv = argv" using assms(3) by (simp add: map_idI cstr_plain)
  show ?thesis
  proof (cases "CONFIG_BINDADDR_MAX < length argv")
    case False
    have "argv \<noteq> [[]] \<or> length argv = 1 \<and> argv ! 0 = []" by auto
    then show ?thesis using False assms m by (auto simp: setConfigBindOption_def cell_ok_def cstr_plain)
  qed (use assms(1,2) in \<open>simp add: setConfigBindOption_def\<close>)
qed

lemma limits_scanned_ok:
  assumes "\<And>a. getClientTypeByName E a \<in> {- 1, 0, 1, 2, 3}" "\<And>a n. memtoull E a = Some n \<Longrightarrow> n < 2 ^ 64"
  shows "buffer_limits E args vs0 = Inr vs \<Longrightarrow> length vs0 = 3 \<Longrightarrow> \<forall>l. Some l \<in> set vs0 \<longrightarrow> limit_ok l
      \<Longrightarrow> length vs = 3 \<and> (\<forall>l. Some l \<in> set vs \<longrightarrow> limit_ok l)"
proof (induction args arbitrary: vs0 rule: length_induct)
  case (1 args)
  consider (short) "buffer_limits E args vs0 = Inr vs0"
    | (four) a h s t as where "args = a # h # s # t # as" by (cases "(E, args, vs0)" rule: buffer_limits.cases) auto
  then show ?case
  proof cases
    case four
    obtain secs e rest where t: "c_strtoll 10 t = (secs, e, rest)" by (metis prod_cases3)
    have c: "\<not> (getClientTypeByName E a = - 1 \<or> getClientTypeByName E a = CLIENT_TYPE_MASTER)"
      using 1(2) t four by (auto simp: Let_def split: if_splits)
    obtain hard soft where m: "memtoull E h = Some hard" "memtoull E s = Some soft"
      using 1(2) t c four by (auto simp: Let_def split: option.splits)
    have d: "\<not> (to_int secs < 0 \<or> rest \<noteq> [])" using 1(2) t c m four by (auto simp: Let_def split: if_splits)
    let ?vs = "vs0[nat (getClientTypeByName E a) := Some (int hard, int soft, to_int secs)]"
    have r: "buffer_limits E as ?vs = Inr vs" using 1(2) t c m d four by (simp add: Let_def)
    have "to_int secs \<le> INT_MAX" using sint_lt [of "word_of_int secs :: u32"] by (simp add: to_int_def int_limits)
    then have "limit_ok (int hard, int soft, to_int secs)"
      using m [THEN assms(2)] d by (simp add: limit_ok_def)
    then have "\<forall>l. Some l \<in> set ?vs \<longrightarrow> limit_ok l"
      using 1(4) set_update_subset_insert [of vs0 "nat (getClientTypeByName E a)"] by blast
    moreover have "length as < length args" using four by simp
    ultimately show ?thesis using 1(1) r 1(3) by (metis length_list_update)
  qed (use 1(2-4) in simp)
qed

context config_lib
begin

lemma keep_limits:
  assumes "cdata c = Special BufferLimitOption" "cell_ok E c x"
  shows "cell_ok E c (snd (snd (setConfigClientOutputBufferLimitOption E argv x)))"
proof (cases "length argv mod 4 \<noteq> 0 \<or> (\<exists>m. buffer_limits E argv (replicate CLIENT_TYPE_OBUF_COUNT None) = Inl m)")
  case True
  then show ?thesis using assms
    by (auto simp: setConfigClientOutputBufferLimitOption_def updateClientOutputBufferLimit_def)
next
  case False
  then obtain vs where vs: "buffer_limits E argv (replicate CLIENT_TYPE_OBUF_COUNT None) = Inr vs"
    by (metis sum.exhaust)
  from limits_scanned_ok [OF class_range mem_limit this] have k: "length vs = 3" "\<forall>l. Some l \<in> set vs \<longrightarrow> limit_ok l"
    by (auto simp: CLIENT_TYPE_OBUF_COUNT_def)
  obtain ls where ls: "x = BufferCell ls" "length ls = 3" "\<forall>l \<in> set ls. limit_ok l"
    using assms by (auto simp: cell_ok_def limit_ok_def CLIENT_TYPE_OBUF_COUNT_def)
  have "\<forall>l \<in> set (map2 (\<lambda>v l. case v of Some new \<Rightarrow> new | None \<Rightarrow> l) vs ls). limit_ok l"
  proof
    fix l assume "l \<in> set (map2 (\<lambda>v l. case v of Some new \<Rightarrow> new | None \<Rightarrow> l) vs ls)"
    then obtain v l' where "(v, l') \<in> set (zip vs ls)" "l = (case v of Some new \<Rightarrow> new | None \<Rightarrow> l')" by auto
    moreover from this(1) have "v \<in> set vs" "l' \<in> set ls" by (rule set_zip_leftD, rule set_zip_rightD)
    ultimately show "limit_ok l" using k(2) ls(3) by (cases v) auto
  qed
  then show ?thesis using False vs ls k(1) assms(1)
    by (auto simp: setConfigClientOutputBufferLimitOption_def updateClientOutputBufferLimit_def cell_ok_def limits_of_def
        limit_ok_def CLIENT_TYPE_OBUF_COUNT_def)
qed

lemma option_keeps:
  assumes "option_ok E c" "cell_ok E c x" "args_fit E c a" "\<not> reading_config_file E"
  shows "cell_ok E c (snd (snd (performInterfaceSet E c a x)))"
proof -
  have m: "\<not> has_flag c MODULE_CONFIG" using assms(1) by (simp add: option_ok_def)
  show ?thesis
  proof (cases "cdata c")
    case (Yesno d)
    then show ?thesis using keep_bool [OF m Yesno assms(2)] assms(1)
      by (simp add: performInterfaceSet_def interface_set_def option_ok_def)
  next
    case (Str d)
    then show ?thesis using keep_string [OF Str assms(2)] assms(1)
      by (simp add: performInterfaceSet_def interface_set_def option_ok_def)
  next
    case (Sds d)
    then show ?thesis using keep_sds [OF m Sds assms(2)] assms(1)
      by (simp add: performInterfaceSet_def interface_set_def option_ok_def)
  next
    case (Enumd d)
    then show ?thesis using keep_enum [OF m Enumd assms(2)] assms(1)
      by (simp add: performInterfaceSet_def interface_set_def option_ok_def)
  next
    case (Numeric n)
    then show ?thesis using keep_numeric [OF m Numeric assms(2)] assms(1)
      by (simp add: performInterfaceSet_def interface_set_def option_ok_def)
  next
    case (Special sp)
    then have multi: "has_flag c MULTI_ARG_CONFIG" "sp \<noteq> OtherOption" using assms(1) by (simp_all add: option_ok_def)
    have w: "sp = BindOption \<longrightarrow> (\<forall>w \<in> set (splitlen E a). 0 \<notin> set w \<and> 32 \<notin> set w)"
      "sp = SaveOption \<longrightarrow> (\<forall>w \<in> set (splitlen E a). strtoll10 w \<le> INT_MAX)"
      using Special assms(3) split_words [of _ a] split_bytes [of _ a] by (force simp: args_fit_def)+
    show ?thesis using Special multi w keep_save [of c E x] keep_limits [of c x] keep_oom [of c E x] keep_bind [of c E x] assms(2,4)
      by (cases sp) (simp_all add: performInterfaceSet_def interface_set_def)
  qed
qed

end

text \<open>Outside the reading of a configuration file, as in CONFIG SET, the options fulfil the contract.\<close>

locale config_commands = config_lib +
  assumes not_reading: "\<not> reading_config_file E"

sublocale config_commands \<subseteq> options:
  config_interface "performInterfaceSet E" "interface_get E" "option_ok E" "cell_ok E" "args_fit E"
  by unfold_locales (use not_reading option_restores option_keeps in auto)

subsection \<open>A concrete environment\<close>

text \<open>Splitting at blanks and amounts of memory with their units, as the functions are documented.\<close>

fun split_blanks :: "sds \<Rightarrow> sds list" where
  "split_blanks [] = [[]]"
| "split_blanks (c # cs) =
     (if c = 32 then [] # split_blanks cs
      else case split_blanks cs of [] \<Rightarrow> [[c]] | w # ws \<Rightarrow> (c # w) # ws)"

definition memory_unit :: "sds \<Rightarrow> nat option" where
  "memory_unit u =
     (if u = [] \<or> arg_is u ''b'' then Some 1 else if arg_is u ''k'' then Some 1000 else if arg_is u ''kb'' then Some 1024
      else if arg_is u ''m'' then Some (1000 * 1000) else if arg_is u ''mb'' then Some (1024 * 1024)
      else if arg_is u ''g'' then Some (1000 * 1000 * 1000) else if arg_is u ''gb'' then Some (1024 * 1024 * 1024)
      else None)"

definition memory_amount :: "sds \<Rightarrow> nat option" where
  "memory_amount a =
     (let ds = takeWhile isdigit8 a in
      case memory_unit (dropWhile isdigit8 a) of
        None \<Rightarrow> None
      | Some m \<Rightarrow> if ds \<noteq> [] \<and> digits_val ds * m < 2 ^ 64 then Some (digits_val ds * m) else None)"

definition client_class :: "sds \<Rightarrow> int" where
  "client_class a =
     (if arg_is a ''normal'' then 0 else if arg_is a ''slave'' \<or> arg_is a ''replica'' then 1
      else if arg_is a ''pubsub'' then 2 else if arg_is a ''master'' then 3 else - 1)"

definition demo_config_env :: config_env where
  "demo_config_env =
     \<lparr>clib = decimal_lib, ull2string = digits10, memtoull = memory_amount,
      splitlen = (\<lambda>a. if a = [] then [] else split_blanks a),
      pathIsBaseName = (\<lambda>a. 47 \<notin> set a), isValidAuxString = (\<lambda>a. \<forall>c \<in> set a. 33 \<le> c \<and> c \<le> 126),
      validateProcTitleTemplate = (\<lambda>a. True),
      getClientTypeName = (\<lambda>j. bytes_of ([''normal'', ''slave'', ''pubsub''] ! j)), getClientTypeByName = client_class,
      have_defrag = True, reading_config_file = False, save_loaded = False,
      set_module = (\<lambda>_ v x. (1, None, v)), set_other = (\<lambda>_ _ x. (2, None, x)), get_other = (\<lambda>_ _. [])\<rparr>"

lemma split_blanks_word: "32 \<notin> set w \<Longrightarrow> split_blanks w = [w]"
  by (induction w) auto

lemma split_blanks_append: "32 \<notin> set w \<Longrightarrow> split_blanks (w @ 32 # v) = w # split_blanks v"
  by (induction w) auto

lemma split_blanks_join: "ws \<noteq> [] \<Longrightarrow> \<forall>w \<in> set ws. 32 \<notin> set w \<Longrightarrow> split_blanks (join_words ws) = ws"
  by (induction ws rule: join_words.induct) (simp_all add: split_blanks_word split_blanks_append bytes_of_def)

lemma split_blanks_bytes: "w \<in> set (split_blanks v) \<Longrightarrow> 32 \<notin> set w \<and> set w \<subseteq> set v"
  by (induction v arbitrary: w) (fastforce split: if_splits list.splits)+

lemma split_blanks_some: "split_blanks v \<noteq> []"
  by (cases v) (auto split: list.splits)

lemma join_words_empty: "join_words ws = [] \<Longrightarrow> ws = [] \<or> ws = [[]]"
  by (cases ws rule: join_words.cases) (simp_all add: bytes_of_def)

lemma digits_taken [simp]:
  "takeWhile isdigit8 (digits10 m @ 37 # u) = digits10 m" "dropWhile isdigit8 (digits10 m @ 37 # u) = 37 # u"
  "takeWhile isdigit8 (digits10 m) = digits10 m" "dropWhile isdigit8 (digits10 m) = []"
proof -
  have d: "\<forall>c \<in> set (digits10 m). isdigit8 c" using digits10_digits by blast
  have p: "\<not> isdigit8 37" by (simp add: isdigit8_def)
  show "takeWhile isdigit8 (digits10 m @ 37 # u) = digits10 m" "dropWhile isdigit8 (digits10 m @ 37 # u) = 37 # u"
    "takeWhile isdigit8 (digits10 m) = digits10 m" "dropWhile isdigit8 (digits10 m) = []"
    using d p by (simp_all add: takeWhile_append2 dropWhile_append2 takeWhile_eq_all_conv [THEN iffD2])
qed

lemma percent_no_unit: "memory_unit [37] = None"
  by code_simp

lemma memory_amount_digits: "m < 2 ^ 64 \<Longrightarrow> memory_amount (digits10 m) = Some m"
  using digits10_hd [of m] by (simp add: memory_amount_def memory_unit_def)

lemma client_class_name: "j < CLIENT_TYPE_OBUF_COUNT \<Longrightarrow> client_class (bytes_of ([''normal'', ''slave'', ''pubsub''] ! j)) = int j"
proof -
  have "list_all (\<lambda>j. client_class (bytes_of ([''normal'', ''slave'', ''pubsub''] ! j)) = int j) [0, 1, 2]" by code_simp
  moreover assume "j < CLIENT_TYPE_OBUF_COUNT"
  then have "j \<in> {0, 1, 2}" by (auto simp: CLIENT_TYPE_OBUF_COUNT_def)
  ultimately show ?thesis by auto
qed

lemma client_class_range: "client_class a \<in> {- 1, 0, 1, 2, 3}"
  by (simp add: client_class_def)

lemma client_class_word: "j < CLIENT_TYPE_OBUF_COUNT \<Longrightarrow> 32 \<notin> set (bytes_of ([''normal'', ''slave'', ''pubsub''] ! j))
    \<and> bytes_of ([''normal'', ''slave'', ''pubsub''] ! j) \<noteq> []"
proof -
  have "list_all (\<lambda>j. 32 \<notin> set (bytes_of ([''normal'', ''slave'', ''pubsub''] ! j))
      \<and> bytes_of ([''normal'', ''slave'', ''pubsub''] ! j) \<noteq> []) [0, 1, 2]" by code_simp
  moreover assume "j < CLIENT_TYPE_OBUF_COUNT"
  then have "j \<in> {0, 1, 2}" by (auto simp: CLIENT_TYPE_OBUF_COUNT_def)
  ultimately show ?thesis by auto
qed

lemma decimal_printed [simp]: "clib demo_config_env = decimal_lib" "0 \<le> v \<Longrightarrow> ll2string decimal_lib v = digits10 (nat v)"
  by (simp_all add: demo_config_env_def decimal_lib_def dec_print_def)

interpretation demo_config: config_commands demo_config_env
proof unfold_locales
  show "memtoull demo_config_env (ll2string (clib demo_config_env) v @ [37]) = None" if "0 \<le> v" "in_ll v" for v
    using that(1) by (simp add: demo_config_env_def memory_amount_def percent_no_unit dec_print_def decimal_lib_def)
  show "memtoull demo_config_env (dec_print v) = Some (nat v)" if "0 \<le> v" "v < 2 ^ 64" for v
    using that memory_amount_digits [of "nat v"] by (simp add: demo_config_env_def dec_print_def nat_less_iff)
  show "n < 2 ^ 64" if "memtoull demo_config_env a = Some n" for a n
    using that by (auto simp: demo_config_env_def memory_amount_def Let_def split: option.splits if_splits)
  show "splitlen demo_config_env (join_words ws) = ws" if "ws \<noteq> [[]]" "\<forall>w \<in> set ws. 32 \<notin> set w" for ws
    using that split_blanks_join [of ws] join_words_empty [of ws]
    by (cases "ws = []") (auto simp: demo_config_env_def)
  show "32 \<notin> set w" "set w \<subseteq> set a" if "w \<in> set (splitlen demo_config_env a)" for w a
    using that split_blanks_bytes [of w a] by (auto simp: demo_config_env_def split: if_splits)
  show "splitlen demo_config_env a \<noteq> [[]]" for a
    by (cases a) (auto simp: demo_config_env_def split_blanks_some split: list.splits)
  show "isValidAuxString demo_config_env (cstr a)" if "isValidAuxString demo_config_env a" for a
    using that by (auto simp: demo_config_env_def cstr_def dest: set_takeWhileD)
  show "ll2string (clib demo_config_env) v \<noteq> []" if "in_ll v" for v
    using dec_print_word(3) [of v] by (simp add: decimal_lib_def)
qed (simp_all add: demo_config_env_def memory_amount_digits client_class_name client_class_word client_class_range [simplified]
      decimal.parse_print decimal.parse_only decimal.print_length decimal.digits_length)

end
