(* ===== verification/Config_Table.thy ===== *)
theory Config_Table
  imports Config_Laws
begin

section \<open>The table of options\<close>

text \<open>
  \<open>static_configs\<close> of config.c, entry by entry, with the macros that build the entries; the options compiled in
  only with \<open>LOG_REQ_RES\<close> are left out. The address of an option is the name of its field of \<open>server\<close>. Every entry is
  well formed, and the default values are values the options can have.
\<close>

subsection \<open>The macros\<close>

definition CONFIG_DEFAULT_HZ :: int where "CONFIG_DEFAULT_HZ = 10"
definition CONFIG_MIN_HZ :: int where "CONFIG_MIN_HZ = 1"
definition CONFIG_MAX_HZ :: int where "CONFIG_MAX_HZ = 500"
definition CONFIG_DEFAULT_PROC_TITLE_TEMPLATE :: string where
  "CONFIG_DEFAULT_PROC_TITLE_TEMPLATE = ''{title} {listen-addr} {server-mode}''"
definition ALLOW_EMPTY_STRING :: bool where "ALLOW_EMPTY_STRING = False"
definition EMPTY_STRING_IS_NULL :: bool where "EMPTY_STRING_IS_NULL = True"
definition UINT_MAX :: int where "UINT_MAX = 2 ^ 32 - 1"
definition SSIZE_MAX :: int where "SSIZE_MAX = 2 ^ 63 - 1"
definition ULLONG_MAX :: int where "ULLONG_MAX = 2 ^ 64 - 1"

definition createBoolConfig where
  "createBoolConfig name alias flags addr dflt is_valid apply =
     \<lparr>cname = name, calias = alias, cflags = flags, caddr = addr,
      cdata = Yesno \<lparr>yesno_default = dflt, yesno_valid = is_valid\<rparr>, capply = apply\<rparr>"

definition createStringConfig where
  "createStringConfig name alias flags empty_to_null addr dflt is_valid apply =
     \<lparr>cname = name, calias = alias, cflags = flags, caddr = addr,
      cdata = Str \<lparr>string_default = dflt, string_valid = is_valid, convert_empty_to_null = empty_to_null\<rparr>,
      capply = apply\<rparr>"

definition createSDSConfig where
  "createSDSConfig name alias flags empty_to_null addr dflt is_valid apply =
     \<lparr>cname = name, calias = alias, cflags = flags, caddr = addr,
      cdata = Sds \<lparr>string_default = dflt, string_valid = is_valid, convert_empty_to_null = empty_to_null\<rparr>,
      capply = apply\<rparr>"

definition createEnumConfig where
  "createEnumConfig name alias flags enum addr dflt is_valid apply =
     \<lparr>cname = name, calias = alias, cflags = flags, caddr = addr,
      cdata = Enumd \<lparr>enum_value = enum, enum_default = dflt, enum_valid = is_valid\<rparr>, capply = apply\<rparr>"

text \<open>The bounds and the default are stored as \<open>long long\<close>.\<close>

definition embedCommonNumericalConfig where
  "embedCommonNumericalConfig type name alias flags lower upper addr dflt num_conf_flags is_valid apply =
     \<lparr>cname = name, calias = alias, cflags = flags, caddr = addr,
      cdata = Numeric \<lparr>numeric_cflags = num_conf_flags, numeric_type = type, lower_bound = to_ll lower,
        upper_bound = to_ll upper, numeric_default = to_ll dflt, numeric_valid = is_valid\<rparr>, capply = apply\<rparr>"

definition createIntConfig where "createIntConfig = embedCommonNumericalConfig NUMERIC_TYPE_INT"
definition createUIntConfig where "createUIntConfig = embedCommonNumericalConfig NUMERIC_TYPE_UINT"
definition createULongConfig where "createULongConfig = embedCommonNumericalConfig NUMERIC_TYPE_ULONG"
definition createLongLongConfig where "createLongLongConfig = embedCommonNumericalConfig NUMERIC_TYPE_LONG_LONG"
definition createULongLongConfig where "createULongLongConfig = embedCommonNumericalConfig NUMERIC_TYPE_ULONG_LONG"
definition createSizeTConfig where "createSizeTConfig = embedCommonNumericalConfig NUMERIC_TYPE_SIZE_T"
definition createSSizeTConfig where "createSSizeTConfig = embedCommonNumericalConfig NUMERIC_TYPE_SSIZE_T"
definition createTimeTConfig where "createTimeTConfig = embedCommonNumericalConfig NUMERIC_TYPE_TIME_T"
definition createOffTConfig where "createOffTConfig = embedCommonNumericalConfig NUMERIC_TYPE_OFF_T"

definition createSpecialConfig where
  "createSpecialConfig name alias modifiable special apply =
     \<lparr>cname = name, calias = alias, cflags = modifiable, caddr = name, cdata = Special special, capply = apply\<rparr>"

subsection \<open>The entries\<close>

definition bool_configs :: "standardConfig list" where
  "bool_configs =
     [createBoolConfig ''rdbchecksum'' None IMMUTABLE_CONFIG ''rdb_checksum'' 1 no_check None,
      createBoolConfig ''daemonize'' None IMMUTABLE_CONFIG ''daemonize'' 0 no_check None,
      createBoolConfig ''io-threads-do-reads'' None (DEBUG_CONFIG OR IMMUTABLE_CONFIG) ''io_threads_do_reads'' 0
        no_check None,
      createBoolConfig ''always-show-logo'' None IMMUTABLE_CONFIG ''always_show_logo'' 0 no_check None,
      createBoolConfig ''protected-mode'' None MODIFIABLE_CONFIG ''protected_mode'' 1 no_check None,
      createBoolConfig ''rdbcompression'' None MODIFIABLE_CONFIG ''rdb_compression'' 1 no_check None,
      createBoolConfig ''rdb-del-sync-files'' None MODIFIABLE_CONFIG ''rdb_del_sync_files'' 0 no_check None,
      createBoolConfig ''activerehashing'' None MODIFIABLE_CONFIG ''activerehashing'' 1 no_check None,
      createBoolConfig ''stop-writes-on-bgsave-error'' None MODIFIABLE_CONFIG ''stop_writes_on_bgsave_err'' 1 no_check None,
      createBoolConfig ''set-proc-title'' None IMMUTABLE_CONFIG ''set_proc_title'' 1 no_check None,
      createBoolConfig ''dynamic-hz'' None MODIFIABLE_CONFIG ''dynamic_hz'' 1 no_check None,
      createBoolConfig ''lazyfree-lazy-eviction'' None (DEBUG_CONFIG OR MODIFIABLE_CONFIG) ''lazyfree_lazy_eviction''
        0 no_check None,
      createBoolConfig ''lazyfree-lazy-expire'' None (DEBUG_CONFIG OR MODIFIABLE_CONFIG) ''lazyfree_lazy_expire'' 0
        no_check None,
      createBoolConfig ''lazyfree-lazy-server-del'' None (DEBUG_CONFIG OR MODIFIABLE_CONFIG)
        ''lazyfree_lazy_server_del'' 0 no_check None,
      createBoolConfig ''lazyfree-lazy-user-del'' None (DEBUG_CONFIG OR MODIFIABLE_CONFIG) ''lazyfree_lazy_user_del''
        0 no_check None,
      createBoolConfig ''lazyfree-lazy-user-flush'' None (DEBUG_CONFIG OR MODIFIABLE_CONFIG)
        ''lazyfree_lazy_user_flush'' 0 no_check None,
      createBoolConfig ''repl-disable-tcp-nodelay'' None MODIFIABLE_CONFIG ''repl_disable_tcp_nodelay'' 0 no_check None,
      createBoolConfig ''repl-diskless-sync'' None (DEBUG_CONFIG OR MODIFIABLE_CONFIG) ''repl_diskless_sync'' 1
        no_check None,
      createBoolConfig ''aof-rewrite-incremental-fsync'' None MODIFIABLE_CONFIG ''aof_rewrite_incremental_fsync'' 1
        no_check None,
      createBoolConfig ''no-appendfsync-on-rewrite'' None MODIFIABLE_CONFIG ''aof_no_fsync_on_rewrite'' 0 no_check None,
      createBoolConfig ''cluster-require-full-coverage'' None MODIFIABLE_CONFIG ''cluster_require_full_coverage'' 1
        no_check None,
      createBoolConfig ''rdb-save-incremental-fsync'' None MODIFIABLE_CONFIG ''rdb_save_incremental_fsync'' 1 no_check None,
      createBoolConfig ''aof-load-truncated'' None MODIFIABLE_CONFIG ''aof_load_truncated'' 1 no_check None,
      createBoolConfig ''aof-use-rdb-preamble'' None MODIFIABLE_CONFIG ''aof_use_rdb_preamble'' 1 no_check None,
      createBoolConfig ''aof-timestamp-enabled'' None MODIFIABLE_CONFIG ''aof_timestamp_enabled'' 0 no_check None,
      createBoolConfig ''cluster-replica-no-failover'' (Some ''cluster-slave-no-failover'') MODIFIABLE_CONFIG
        ''cluster_slave_no_failover'' 0 no_check (Some ''updateClusterFlags''),
      createBoolConfig ''replica-lazy-flush'' (Some ''slave-lazy-flush'') MODIFIABLE_CONFIG ''repl_slave_lazy_flush''
        0 no_check None,
      createBoolConfig ''replica-serve-stale-data'' (Some ''slave-serve-stale-data'') MODIFIABLE_CONFIG
        ''repl_serve_stale_data'' 1 no_check None,
      createBoolConfig ''replica-read-only'' (Some ''slave-read-only'') (DEBUG_CONFIG OR MODIFIABLE_CONFIG)
        ''repl_slave_ro'' 1 no_check None,
      createBoolConfig ''replica-ignore-maxmemory'' (Some ''slave-ignore-maxmemory'') MODIFIABLE_CONFIG
        ''repl_slave_ignore_maxmemory'' 1 no_check None,
      createBoolConfig ''jemalloc-bg-thread'' None MODIFIABLE_CONFIG ''jemalloc_bg_thread'' 1 no_check (Some
        ''updateJemallocBgThread''),
      createBoolConfig ''activedefrag'' None (DEBUG_CONFIG OR MODIFIABLE_CONFIG) ''active_defrag_enabled'' 0
        isValidActiveDefrag None,
      createBoolConfig ''syslog-enabled'' None IMMUTABLE_CONFIG ''syslog_enabled'' 0 no_check None,
      createBoolConfig ''cluster-enabled'' None IMMUTABLE_CONFIG ''cluster_enabled'' 0 no_check None,
      createBoolConfig ''appendonly'' None (MODIFIABLE_CONFIG OR DENY_LOADING_CONFIG) ''aof_enabled'' 0 no_check (Some
        ''updateAppendonly''),
      createBoolConfig ''cluster-allow-reads-when-down'' None MODIFIABLE_CONFIG ''cluster_allow_reads_when_down'' 0
        no_check None,
      createBoolConfig ''cluster-allow-pubsubshard-when-down'' None MODIFIABLE_CONFIG
        ''cluster_allow_pubsubshard_when_down'' 1 no_check None,
      createBoolConfig ''crash-log-enabled'' None MODIFIABLE_CONFIG ''crashlog_enabled'' 1 no_check (Some
        ''updateSighandlerEnabled''),
      createBoolConfig ''crash-memcheck-enabled'' None MODIFIABLE_CONFIG ''memcheck_enabled'' 1 no_check None,
      createBoolConfig ''use-exit-on-panic'' None (MODIFIABLE_CONFIG OR HIDDEN_CONFIG) ''use_exit_on_panic'' 0 no_check None,
      createBoolConfig ''disable-thp'' None IMMUTABLE_CONFIG ''disable_thp'' 1 no_check None,
      createBoolConfig ''cluster-allow-replica-migration'' None MODIFIABLE_CONFIG ''cluster_allow_replica_migration''
        1 no_check None,
      createBoolConfig ''replica-announced'' None MODIFIABLE_CONFIG ''replica_announced'' 1 no_check None,
      createBoolConfig ''latency-tracking'' None MODIFIABLE_CONFIG ''latency_tracking_enabled'' 1 no_check None,
      createBoolConfig ''aof-disable-auto-gc'' None (MODIFIABLE_CONFIG OR HIDDEN_CONFIG) ''aof_disable_auto_gc'' 0
        no_check (Some ''updateAofAutoGCEnabled''),
      createBoolConfig ''replica-ignore-disk-write-errors'' None MODIFIABLE_CONFIG ''repl_ignore_disk_write_error'' 0
        no_check None]"

definition string_configs :: "standardConfig list" where
  "string_configs =
     [createStringConfig ''aclfile'' None IMMUTABLE_CONFIG ALLOW_EMPTY_STRING ''acl_filename'' (Some []) no_check None,
      createStringConfig ''unixsocket'' None IMMUTABLE_CONFIG EMPTY_STRING_IS_NULL ''unixsocket'' None no_check None,
      createStringConfig ''pidfile'' None IMMUTABLE_CONFIG EMPTY_STRING_IS_NULL ''pidfile'' None no_check None,
      createStringConfig ''replica-announce-ip'' (Some ''slave-announce-ip'') MODIFIABLE_CONFIG EMPTY_STRING_IS_NULL
        ''slave_announce_ip'' None no_check None,
      createStringConfig ''masteruser'' None (MODIFIABLE_CONFIG OR SENSITIVE_CONFIG) EMPTY_STRING_IS_NULL
        ''masteruser'' None no_check None,
      createStringConfig ''cluster-announce-ip'' None MODIFIABLE_CONFIG EMPTY_STRING_IS_NULL ''cluster_announce_ip''
        None no_check (Some ''updateClusterIp''),
      createStringConfig ''cluster-config-file'' None IMMUTABLE_CONFIG ALLOW_EMPTY_STRING ''cluster_configfile'' (Some
        (bytes_of ''nodes.conf'')) no_check None,
      createStringConfig ''cluster-announce-hostname'' None MODIFIABLE_CONFIG EMPTY_STRING_IS_NULL
        ''cluster_announce_hostname'' None isValidAnnouncedHostname (Some ''updateClusterHostname''),
      createStringConfig ''cluster-announce-human-nodename'' None MODIFIABLE_CONFIG EMPTY_STRING_IS_NULL
        ''cluster_announce_human_nodename'' None isValidAnnouncedNodename (Some ''updateClusterHumanNodename''),
      createStringConfig ''syslog-ident'' None IMMUTABLE_CONFIG ALLOW_EMPTY_STRING ''syslog_ident'' (Some (bytes_of
        ''redis'')) no_check None,
      createStringConfig ''dbfilename'' None (MODIFIABLE_CONFIG OR PROTECTED_CONFIG) ALLOW_EMPTY_STRING
        ''rdb_filename'' (Some (bytes_of ''dump.rdb'')) isValidDBfilename None,
      createStringConfig ''appendfilename'' None IMMUTABLE_CONFIG ALLOW_EMPTY_STRING ''aof_filename'' (Some (bytes_of
        ''appendonly.aof'')) isValidAOFfilename None,
      createStringConfig ''appenddirname'' None IMMUTABLE_CONFIG ALLOW_EMPTY_STRING ''aof_dirname'' (Some (bytes_of
        ''appendonlydir'')) isValidAOFdirname None,
      createStringConfig ''server_cpulist'' None IMMUTABLE_CONFIG EMPTY_STRING_IS_NULL ''server_cpulist'' None no_check None,
      createStringConfig ''bio_cpulist'' None IMMUTABLE_CONFIG EMPTY_STRING_IS_NULL ''bio_cpulist'' None no_check None,
      createStringConfig ''aof_rewrite_cpulist'' None IMMUTABLE_CONFIG EMPTY_STRING_IS_NULL ''aof_rewrite_cpulist''
        None no_check None,
      createStringConfig ''bgsave_cpulist'' None IMMUTABLE_CONFIG EMPTY_STRING_IS_NULL ''bgsave_cpulist'' None no_check None,
      createStringConfig ''ignore-warnings'' None MODIFIABLE_CONFIG ALLOW_EMPTY_STRING ''ignore_warnings'' (Some [])
        no_check None,
      createStringConfig ''proc-title-template'' None MODIFIABLE_CONFIG ALLOW_EMPTY_STRING ''proc_title_template''
        (Some (bytes_of CONFIG_DEFAULT_PROC_TITLE_TEMPLATE)) isValidProcTitleTemplate (Some
        ''updateProcTitleTemplate''),
      createStringConfig ''bind-source-addr'' None MODIFIABLE_CONFIG EMPTY_STRING_IS_NULL ''bind_source_addr'' None
        no_check None,
      createStringConfig ''logfile'' None IMMUTABLE_CONFIG ALLOW_EMPTY_STRING ''logfile'' (Some []) no_check None,
      createStringConfig ''locale-collate'' None MODIFIABLE_CONFIG ALLOW_EMPTY_STRING ''locale_collate'' (Some [])
        no_check (Some ''updateLocaleCollate'')]"

definition sds_configs :: "standardConfig list" where
  "sds_configs =
     [createSDSConfig ''masterauth'' None (MODIFIABLE_CONFIG OR SENSITIVE_CONFIG) EMPTY_STRING_IS_NULL ''masterauth''
        None no_check None,
      createSDSConfig ''requirepass'' None (MODIFIABLE_CONFIG OR SENSITIVE_CONFIG) EMPTY_STRING_IS_NULL
        ''requirepass'' None no_check (Some ''updateRequirePass'')]"

definition enum_configs :: "standardConfig list" where
  "enum_configs =
     [createEnumConfig ''supervised'' None IMMUTABLE_CONFIG supervised_mode_enum ''supervised_mode'' SUPERVISED_NONE
        no_check None,
      createEnumConfig ''syslog-facility'' None IMMUTABLE_CONFIG syslog_facility_enum ''syslog_facility'' (LOG_LOCAL
        0) no_check None,
      createEnumConfig ''repl-diskless-load'' None (DEBUG_CONFIG OR MODIFIABLE_CONFIG OR DENY_LOADING_CONFIG)
        repl_diskless_load_enum ''repl_diskless_load'' REPL_DISKLESS_LOAD_DISABLED no_check None,
      createEnumConfig ''loglevel'' None MODIFIABLE_CONFIG loglevel_enum ''verbosity'' LL_NOTICE no_check None,
      createEnumConfig ''maxmemory-policy'' None MODIFIABLE_CONFIG maxmemory_policy_enum ''maxmemory_policy''
        MAXMEMORY_NO_EVICTION no_check None,
      createEnumConfig ''appendfsync'' None MODIFIABLE_CONFIG aof_fsync_enum ''aof_fsync'' AOF_FSYNC_EVERYSEC no_check
        (Some ''updateAppendFsync''),
      createEnumConfig ''oom-score-adj'' None MODIFIABLE_CONFIG oom_score_adj_enum ''oom_score_adj'' OOM_SCORE_ADJ_NO
        no_check (Some ''updateOOMScoreAdj''),
      createEnumConfig ''acl-pubsub-default'' None MODIFIABLE_CONFIG acl_pubsub_default_enum ''acl_pubsub_default'' 0
        no_check None,
      createEnumConfig ''sanitize-dump-payload'' None (DEBUG_CONFIG OR MODIFIABLE_CONFIG) sanitize_dump_payload_enum
        ''sanitize_dump_payload'' SANITIZE_DUMP_NO no_check None,
      createEnumConfig ''enable-protected-configs'' None IMMUTABLE_CONFIG protected_action_enum
        ''enable_protected_configs'' PROTECTED_ACTION_ALLOWED_NO no_check None,
      createEnumConfig ''enable-debug-command'' None IMMUTABLE_CONFIG protected_action_enum ''enable_debug_cmd''
        PROTECTED_ACTION_ALLOWED_NO no_check None,
      createEnumConfig ''enable-module-command'' None IMMUTABLE_CONFIG protected_action_enum ''enable_module_cmd''
        PROTECTED_ACTION_ALLOWED_NO no_check None,
      createEnumConfig ''cluster-preferred-endpoint-type'' None MODIFIABLE_CONFIG cluster_preferred_endpoint_type_enum
        ''cluster_preferred_endpoint_type'' CLUSTER_ENDPOINT_TYPE_IP no_check None,
      createEnumConfig ''propagation-error-behavior'' None MODIFIABLE_CONFIG propagation_error_behavior_enum
        ''propagation_error_behavior'' PROPAGATION_ERR_BEHAVIOR_IGNORE no_check None,
      createEnumConfig ''shutdown-on-sigint'' None (MODIFIABLE_CONFIG OR MULTI_ARG_CONFIG) shutdown_on_sig_enum
        ''shutdown_on_sigint'' 0 isValidShutdownOnSigFlags None,
      createEnumConfig ''shutdown-on-sigterm'' None (MODIFIABLE_CONFIG OR MULTI_ARG_CONFIG) shutdown_on_sig_enum
        ''shutdown_on_sigterm'' 0 isValidShutdownOnSigFlags None]"

definition integer_configs :: "standardConfig list" where
  "integer_configs =
     [createIntConfig ''databases'' None IMMUTABLE_CONFIG 1 INT_MAX ''dbnum'' 16 INTEGER_CONFIG no_check None,
      createIntConfig ''port'' None MODIFIABLE_CONFIG 0 65535 ''port'' 6379 INTEGER_CONFIG no_check (Some ''updatePort''),
      createIntConfig ''io-threads'' None (DEBUG_CONFIG OR IMMUTABLE_CONFIG) 1 128 ''io_threads_num'' 1 INTEGER_CONFIG
        no_check None,
      createIntConfig ''auto-aof-rewrite-percentage'' None MODIFIABLE_CONFIG 0 INT_MAX ''aof_rewrite_perc'' 100
        INTEGER_CONFIG no_check None,
      createIntConfig ''cluster-replica-validity-factor'' (Some ''cluster-slave-validity-factor'') MODIFIABLE_CONFIG 0
        INT_MAX ''cluster_slave_validity_factor'' 10 INTEGER_CONFIG no_check None,
      createIntConfig ''list-max-listpack-size'' (Some ''list-max-ziplist-size'') MODIFIABLE_CONFIG INT_MIN INT_MAX
        ''list_max_listpack_size'' (- 2) INTEGER_CONFIG no_check None,
      createIntConfig ''tcp-keepalive'' None MODIFIABLE_CONFIG 0 INT_MAX ''tcpkeepalive'' 300 INTEGER_CONFIG no_check None,
      createIntConfig ''cluster-migration-barrier'' None MODIFIABLE_CONFIG 0 INT_MAX ''cluster_migration_barrier'' 1
        INTEGER_CONFIG no_check None,
      createIntConfig ''active-defrag-cycle-min'' None MODIFIABLE_CONFIG 1 99 ''active_defrag_cycle_min'' 1
        INTEGER_CONFIG no_check None,
      createIntConfig ''active-defrag-cycle-max'' None MODIFIABLE_CONFIG 1 99 ''active_defrag_cycle_max'' 25
        INTEGER_CONFIG no_check None,
      createIntConfig ''active-defrag-threshold-lower'' None MODIFIABLE_CONFIG 0 1000
        ''active_defrag_threshold_lower'' 10 INTEGER_CONFIG no_check None,
      createIntConfig ''active-defrag-threshold-upper'' None MODIFIABLE_CONFIG 0 1000
        ''active_defrag_threshold_upper'' 100 INTEGER_CONFIG no_check None,
      createIntConfig ''lfu-log-factor'' None MODIFIABLE_CONFIG 0 INT_MAX ''lfu_log_factor'' 10 INTEGER_CONFIG no_check None,
      createIntConfig ''lfu-decay-time'' None MODIFIABLE_CONFIG 0 INT_MAX ''lfu_decay_time'' 1 INTEGER_CONFIG no_check None,
      createIntConfig ''replica-priority'' (Some ''slave-priority'') MODIFIABLE_CONFIG 0 INT_MAX ''slave_priority''
        100 INTEGER_CONFIG no_check None,
      createIntConfig ''repl-diskless-sync-delay'' None MODIFIABLE_CONFIG 0 INT_MAX ''repl_diskless_sync_delay'' 5
        INTEGER_CONFIG no_check None,
      createIntConfig ''maxmemory-samples'' None MODIFIABLE_CONFIG 1 INT_MAX ''maxmemory_samples'' 5 INTEGER_CONFIG
        no_check None,
      createIntConfig ''maxmemory-eviction-tenacity'' None MODIFIABLE_CONFIG 0 100 ''maxmemory_eviction_tenacity'' 10
        INTEGER_CONFIG no_check None,
      createIntConfig ''timeout'' None MODIFIABLE_CONFIG 0 INT_MAX ''maxidletime'' 0 INTEGER_CONFIG no_check None,
      createIntConfig ''replica-announce-port'' (Some ''slave-announce-port'') MODIFIABLE_CONFIG 0 65535
        ''slave_announce_port'' 0 INTEGER_CONFIG no_check None,
      createIntConfig ''tcp-backlog'' None IMMUTABLE_CONFIG 0 INT_MAX ''tcp_backlog'' 511 INTEGER_CONFIG no_check None,
      createIntConfig ''cluster-port'' None IMMUTABLE_CONFIG 0 65535 ''cluster_port'' 0 INTEGER_CONFIG no_check None,
      createIntConfig ''cluster-announce-bus-port'' None MODIFIABLE_CONFIG 0 65535 ''cluster_announce_bus_port'' 0
        INTEGER_CONFIG no_check (Some ''updateClusterAnnouncedPort''),
      createIntConfig ''cluster-announce-port'' None MODIFIABLE_CONFIG 0 65535 ''cluster_announce_port'' 0
        INTEGER_CONFIG no_check (Some ''updateClusterAnnouncedPort''),
      createIntConfig ''cluster-announce-tls-port'' None MODIFIABLE_CONFIG 0 65535 ''cluster_announce_tls_port'' 0
        INTEGER_CONFIG no_check (Some ''updateClusterAnnouncedPort''),
      createIntConfig ''repl-timeout'' None MODIFIABLE_CONFIG 1 INT_MAX ''repl_timeout'' 60 INTEGER_CONFIG no_check None,
      createIntConfig ''repl-ping-replica-period'' (Some ''repl-ping-slave-period'') MODIFIABLE_CONFIG 1 INT_MAX
        ''repl_ping_slave_period'' 10 INTEGER_CONFIG no_check None,
      createIntConfig ''list-compress-depth'' None (DEBUG_CONFIG OR MODIFIABLE_CONFIG) 0 INT_MAX
        ''list_compress_depth'' 0 INTEGER_CONFIG no_check None,
      createIntConfig ''rdb-key-save-delay'' None (MODIFIABLE_CONFIG OR HIDDEN_CONFIG) INT_MIN INT_MAX
        ''rdb_key_save_delay'' 0 INTEGER_CONFIG no_check None,
      createIntConfig ''key-load-delay'' None (MODIFIABLE_CONFIG OR HIDDEN_CONFIG) INT_MIN INT_MAX ''key_load_delay''
        0 INTEGER_CONFIG no_check None,
      createIntConfig ''active-expire-effort'' None MODIFIABLE_CONFIG 1 10 ''active_expire_effort'' 1 INTEGER_CONFIG
        no_check None,
      createIntConfig ''hz'' None MODIFIABLE_CONFIG 0 INT_MAX ''config_hz'' CONFIG_DEFAULT_HZ INTEGER_CONFIG no_check
        (Some ''updateHZ''),
      createIntConfig ''min-replicas-to-write'' (Some ''min-slaves-to-write'') MODIFIABLE_CONFIG 0 INT_MAX
        ''repl_min_slaves_to_write'' 0 INTEGER_CONFIG no_check (Some ''updateGoodSlaves''),
      createIntConfig ''min-replicas-max-lag'' (Some ''min-slaves-max-lag'') MODIFIABLE_CONFIG 0 INT_MAX
        ''repl_min_slaves_max_lag'' 10 INTEGER_CONFIG no_check (Some ''updateGoodSlaves''),
      createIntConfig ''watchdog-period'' None (MODIFIABLE_CONFIG OR HIDDEN_CONFIG) 0 INT_MAX ''watchdog_period'' 0
        INTEGER_CONFIG no_check (Some ''updateWatchdogPeriod''),
      createIntConfig ''shutdown-timeout'' None MODIFIABLE_CONFIG 0 INT_MAX ''shutdown_timeout'' 10 INTEGER_CONFIG
        no_check None,
      createIntConfig ''repl-diskless-sync-max-replicas'' None MODIFIABLE_CONFIG 0 INT_MAX
        ''repl_diskless_sync_max_replicas'' 0 INTEGER_CONFIG no_check None]"

definition unsigned_configs :: "standardConfig list" where
  "unsigned_configs =
     [createUIntConfig ''maxclients'' None MODIFIABLE_CONFIG 1 UINT_MAX ''maxclients'' 10000 INTEGER_CONFIG no_check
        (Some ''updateMaxclients''),
      createUIntConfig ''unixsocketperm'' None IMMUTABLE_CONFIG 0 511 ''unixsocketperm'' 0 OCTAL_CONFIG no_check None,
      createUIntConfig ''socket-mark-id'' None IMMUTABLE_CONFIG 0 UINT_MAX ''socket_mark_id'' 0 INTEGER_CONFIG no_check None,
      createULongConfig ''active-defrag-max-scan-fields'' None MODIFIABLE_CONFIG 1 LONG_MAX
        ''active_defrag_max_scan_fields'' 1000 INTEGER_CONFIG no_check None,
      createULongConfig ''slowlog-max-len'' None MODIFIABLE_CONFIG 0 LONG_MAX ''slowlog_max_len'' 128 INTEGER_CONFIG
        no_check None,
      createULongConfig ''acllog-max-len'' None MODIFIABLE_CONFIG 0 LONG_MAX ''acllog_max_len'' 128 INTEGER_CONFIG
        no_check None]"

definition long_long_configs :: "standardConfig list" where
  "long_long_configs =
     [createLongLongConfig ''busy-reply-threshold'' (Some ''lua-time-limit'') MODIFIABLE_CONFIG 0 LONG_MAX
        ''busy_reply_threshold'' 5000 INTEGER_CONFIG no_check None,
      createLongLongConfig ''cluster-node-timeout'' None MODIFIABLE_CONFIG 0 LLONG_MAX ''cluster_node_timeout'' 15000
        INTEGER_CONFIG no_check None,
      createLongLongConfig ''cluster-ping-interval'' None (MODIFIABLE_CONFIG OR HIDDEN_CONFIG) 0 LLONG_MAX
        ''cluster_ping_interval'' 0 INTEGER_CONFIG no_check None,
      createLongLongConfig ''slowlog-log-slower-than'' None MODIFIABLE_CONFIG (- 1) LLONG_MAX
        ''slowlog_log_slower_than'' 10000 INTEGER_CONFIG no_check None,
      createLongLongConfig ''latency-monitor-threshold'' None MODIFIABLE_CONFIG 0 LLONG_MAX
        ''latency_monitor_threshold'' 0 INTEGER_CONFIG no_check None,
      createLongLongConfig ''proto-max-bulk-len'' None (DEBUG_CONFIG OR MODIFIABLE_CONFIG) 1048576 LONG_MAX
        ''proto_max_bulk_len'' 536870912 MEMORY_CONFIG no_check None,
      createLongLongConfig ''stream-node-max-entries'' None MODIFIABLE_CONFIG 0 LLONG_MAX ''stream_node_max_entries''
        100 INTEGER_CONFIG no_check None,
      createLongLongConfig ''repl-backlog-size'' None MODIFIABLE_CONFIG 1 LLONG_MAX ''repl_backlog_size'' 1048576
        MEMORY_CONFIG no_check (Some ''updateReplBacklogSize''),
      createULongLongConfig ''maxmemory'' None MODIFIABLE_CONFIG 0 ULLONG_MAX ''maxmemory'' 0 MEMORY_CONFIG no_check
        (Some ''updateMaxmemory''),
      createULongLongConfig ''cluster-link-sendbuf-limit'' None MODIFIABLE_CONFIG 0 ULLONG_MAX
        ''cluster_link_msg_queue_limit_bytes'' 0 MEMORY_CONFIG no_check None]"

definition size_configs :: "standardConfig list" where
  "size_configs =
     [createSizeTConfig ''hash-max-listpack-entries'' (Some ''hash-max-ziplist-entries'') MODIFIABLE_CONFIG 0 LONG_MAX
        ''hash_max_listpack_entries'' 512 INTEGER_CONFIG no_check None,
      createSizeTConfig ''set-max-intset-entries'' None MODIFIABLE_CONFIG 0 LONG_MAX ''set_max_intset_entries'' 512
        INTEGER_CONFIG no_check None,
      createSizeTConfig ''set-max-listpack-entries'' None MODIFIABLE_CONFIG 0 LONG_MAX ''set_max_listpack_entries''
        128 INTEGER_CONFIG no_check None,
      createSizeTConfig ''set-max-listpack-value'' None MODIFIABLE_CONFIG 0 LONG_MAX ''set_max_listpack_value'' 64
        INTEGER_CONFIG no_check None,
      createSizeTConfig ''zset-max-listpack-entries'' (Some ''zset-max-ziplist-entries'') MODIFIABLE_CONFIG 0 LONG_MAX
        ''zset_max_listpack_entries'' 128 INTEGER_CONFIG no_check None,
      createSizeTConfig ''active-defrag-ignore-bytes'' None MODIFIABLE_CONFIG 1 LLONG_MAX
        ''active_defrag_ignore_bytes'' 104857600 MEMORY_CONFIG no_check None,
      createSizeTConfig ''hash-max-listpack-value'' (Some ''hash-max-ziplist-value'') MODIFIABLE_CONFIG 0 LONG_MAX
        ''hash_max_listpack_value'' 64 MEMORY_CONFIG no_check None,
      createSizeTConfig ''stream-node-max-bytes'' None MODIFIABLE_CONFIG 0 LONG_MAX ''stream_node_max_bytes'' 4096
        MEMORY_CONFIG no_check None,
      createSizeTConfig ''zset-max-listpack-value'' (Some ''zset-max-ziplist-value'') MODIFIABLE_CONFIG 0 LONG_MAX
        ''zset_max_listpack_value'' 64 MEMORY_CONFIG no_check None,
      createSizeTConfig ''hll-sparse-max-bytes'' None MODIFIABLE_CONFIG 0 LONG_MAX ''hll_sparse_max_bytes'' 3000
        MEMORY_CONFIG no_check None,
      createSizeTConfig ''tracking-table-max-keys'' None MODIFIABLE_CONFIG 0 LONG_MAX ''tracking_table_max_keys''
        1000000 INTEGER_CONFIG no_check None,
      createSizeTConfig ''client-query-buffer-limit'' None (DEBUG_CONFIG OR MODIFIABLE_CONFIG) 1048576 LONG_MAX
        ''client_max_querybuf_len'' 1073741824 MEMORY_CONFIG no_check None,
      createSSizeTConfig ''maxmemory-clients'' None MODIFIABLE_CONFIG (- 100) SSIZE_MAX ''maxmemory_clients'' 0
        (MEMORY_CONFIG OR PERCENT_CONFIG) no_check (Some ''applyClientMaxMemoryUsage'')]"

definition other_configs :: "standardConfig list" where
  "other_configs =
     [createTimeTConfig ''repl-backlog-ttl'' None MODIFIABLE_CONFIG 0 LONG_MAX ''repl_backlog_time_limit'' 3600
        INTEGER_CONFIG no_check None,
      createOffTConfig ''auto-aof-rewrite-min-size'' None MODIFIABLE_CONFIG 0 LLONG_MAX ''aof_rewrite_min_size''
        67108864 MEMORY_CONFIG no_check None,
      createOffTConfig ''loading-process-events-interval-bytes'' None (MODIFIABLE_CONFIG OR HIDDEN_CONFIG) 1024
        INT_MAX ''loading_process_events_interval_bytes'' 2097152 INTEGER_CONFIG no_check None]"

definition tls_configs :: "standardConfig list" where
  "tls_configs =
     [createIntConfig ''tls-port'' None MODIFIABLE_CONFIG 0 65535 ''tls_port'' 0 INTEGER_CONFIG no_check (Some
        ''applyTLSPort''),
      createIntConfig ''tls-session-cache-size'' None MODIFIABLE_CONFIG 0 INT_MAX
        ''tls_ctx_config.session_cache_size'' 20480 INTEGER_CONFIG no_check (Some ''applyTlsCfg''),
      createIntConfig ''tls-session-cache-timeout'' None MODIFIABLE_CONFIG 0 INT_MAX
        ''tls_ctx_config.session_cache_timeout'' 300 INTEGER_CONFIG no_check (Some ''applyTlsCfg''),
      createBoolConfig ''tls-cluster'' None MODIFIABLE_CONFIG ''tls_cluster'' 0 no_check (Some ''applyTlsCfg''),
      createBoolConfig ''tls-replication'' None MODIFIABLE_CONFIG ''tls_replication'' 0 no_check (Some ''applyTlsCfg''),
      createEnumConfig ''tls-auth-clients'' None MODIFIABLE_CONFIG tls_auth_clients_enum ''tls_auth_clients''
        TLS_CLIENT_AUTH_YES no_check None,
      createBoolConfig ''tls-prefer-server-ciphers'' None MODIFIABLE_CONFIG ''tls_ctx_config.prefer_server_ciphers'' 0
        no_check (Some ''applyTlsCfg''),
      createBoolConfig ''tls-session-caching'' None MODIFIABLE_CONFIG ''tls_ctx_config.session_caching'' 1 no_check
        (Some ''applyTlsCfg''),
      createStringConfig ''tls-cert-file'' None (VOLATILE_CONFIG OR MODIFIABLE_CONFIG) EMPTY_STRING_IS_NULL
        ''tls_ctx_config.cert_file'' None no_check (Some ''applyTlsCfg''),
      createStringConfig ''tls-key-file'' None (VOLATILE_CONFIG OR MODIFIABLE_CONFIG) EMPTY_STRING_IS_NULL
        ''tls_ctx_config.key_file'' None no_check (Some ''applyTlsCfg''),
      createStringConfig ''tls-key-file-pass'' None MODIFIABLE_CONFIG EMPTY_STRING_IS_NULL
        ''tls_ctx_config.key_file_pass'' None no_check (Some ''applyTlsCfg''),
      createStringConfig ''tls-client-cert-file'' None (VOLATILE_CONFIG OR MODIFIABLE_CONFIG) EMPTY_STRING_IS_NULL
        ''tls_ctx_config.client_cert_file'' None no_check (Some ''applyTlsCfg''),
      createStringConfig ''tls-client-key-file'' None (VOLATILE_CONFIG OR MODIFIABLE_CONFIG) EMPTY_STRING_IS_NULL
        ''tls_ctx_config.client_key_file'' None no_check (Some ''applyTlsCfg''),
      createStringConfig ''tls-client-key-file-pass'' None MODIFIABLE_CONFIG EMPTY_STRING_IS_NULL
        ''tls_ctx_config.client_key_file_pass'' None no_check (Some ''applyTlsCfg''),
      createStringConfig ''tls-dh-params-file'' None (VOLATILE_CONFIG OR MODIFIABLE_CONFIG) EMPTY_STRING_IS_NULL
        ''tls_ctx_config.dh_params_file'' None no_check (Some ''applyTlsCfg''),
      createStringConfig ''tls-ca-cert-file'' None (VOLATILE_CONFIG OR MODIFIABLE_CONFIG) EMPTY_STRING_IS_NULL
        ''tls_ctx_config.ca_cert_file'' None no_check (Some ''applyTlsCfg''),
      createStringConfig ''tls-ca-cert-dir'' None (VOLATILE_CONFIG OR MODIFIABLE_CONFIG) EMPTY_STRING_IS_NULL
        ''tls_ctx_config.ca_cert_dir'' None no_check (Some ''applyTlsCfg''),
      createStringConfig ''tls-protocols'' None MODIFIABLE_CONFIG EMPTY_STRING_IS_NULL ''tls_ctx_config.protocols''
        None no_check (Some ''applyTlsCfg''),
      createStringConfig ''tls-ciphers'' None MODIFIABLE_CONFIG EMPTY_STRING_IS_NULL ''tls_ctx_config.ciphers'' None
        no_check (Some ''applyTlsCfg''),
      createStringConfig ''tls-ciphersuites'' None MODIFIABLE_CONFIG EMPTY_STRING_IS_NULL
        ''tls_ctx_config.ciphersuites'' None no_check (Some ''applyTlsCfg'')]"

definition special_configs :: "standardConfig list" where
  "special_configs =
     [createSpecialConfig ''dir'' None (MODIFIABLE_CONFIG OR PROTECTED_CONFIG OR DENY_LOADING_CONFIG) OtherOption None,
      createSpecialConfig ''save'' None (MODIFIABLE_CONFIG OR MULTI_ARG_CONFIG) SaveOption None,
      createSpecialConfig ''client-output-buffer-limit'' None (MODIFIABLE_CONFIG OR MULTI_ARG_CONFIG) BufferLimitOption None,
      createSpecialConfig ''oom-score-adj-values'' None (MODIFIABLE_CONFIG OR MULTI_ARG_CONFIG) OomValuesOption (Some
        ''updateOOMScoreAdj''),
      createSpecialConfig ''notify-keyspace-events'' None MODIFIABLE_CONFIG OtherOption None,
      createSpecialConfig ''bind'' None (MODIFIABLE_CONFIG OR MULTI_ARG_CONFIG) BindOption (Some ''applyBind''),
      createSpecialConfig ''replicaof'' (Some ''slaveof'') (IMMUTABLE_CONFIG OR MULTI_ARG_CONFIG) OtherOption None,
      createSpecialConfig ''latency-tracking-info-percentiles'' None (MODIFIABLE_CONFIG OR MULTI_ARG_CONFIG)
        OtherOption None]"

definition static_configs :: "standardConfig list" where
  "static_configs =
     bool_configs @ string_configs @ sds_configs @ enum_configs @ integer_configs @ unsigned_configs
     @ long_long_configs @ size_configs @ other_configs @ tls_configs @ special_configs"

subsection \<open>Every entry is well formed\<close>

text \<open>What can be computed of an entry: its flags, its table of names, its bounds and its default value.\<close>

definition default_string_ok :: "stringConfigData \<Rightarrow> bool" where
  "default_string_ok d =
     (case string_default d of None \<Rightarrow> convert_empty_to_null d
      | Some s \<Rightarrow> 0 \<notin> set s \<and> \<not> (convert_empty_to_null d \<and> s = []))"

definition option_check :: "standardConfig \<Rightarrow> bool" where
  "option_check c =
     (\<not> has_flag c MODULE_CONFIG \<and>
      (case cdata c of
         Yesno d \<Rightarrow> \<not> has_flag c MULTI_ARG_CONFIG \<and> yesno_default d \<in> {0, 1}
       | Str d \<Rightarrow> \<not> has_flag c MULTI_ARG_CONFIG \<and> default_string_ok d
       | Sds d \<Rightarrow> \<not> has_flag c MULTI_ARG_CONFIG \<and> default_string_ok d
       | Enumd d \<Rightarrow> enum_wf (enum_value d) \<and> (has_flag c MULTI_ARG_CONFIG \<longrightarrow> disjoint_bits (enum_value d))
           \<and> enum_ok (enum_value d) (has_flag c MULTI_ARG_CONFIG) (enum_default d) \<and> enum_default d \<noteq> INT_MIN
       | Numeric n \<Rightarrow> \<not> has_flag c MULTI_ARG_CONFIG \<and> numeric_option_ok n \<and> in_ll (numeric_default n)
           \<and> numericBoundaryCheck n (numeric_default n) = None
       | Special sp \<Rightarrow> has_flag c MULTI_ARG_CONFIG \<or> sp = OtherOption))"

lemma static_configs_checked: "list_all option_check static_configs"
  by code_simp

text \<open>The validators accept the default values, in an environment that accepts the file names and the template among them.\<close>

definition defaults_accepted :: "config_env \<Rightarrow> bool" where
  "defaults_accepted E =
     ((\<forall>n \<in> {''dump.rdb'', ''appendonly.aof'', ''appendonlydir''}. pathIsBaseName E (bytes_of n))
      \<and> validateProcTitleTemplate E (bytes_of CONFIG_DEFAULT_PROC_TITLE_TEMPLATE))"

definition validator_ok :: "config_env \<Rightarrow> standardConfig \<Rightarrow> bool" where
  "validator_ok E c =
     (case cdata c of
        Yesno d \<Rightarrow> yesno_valid d E (yesno_default d) = None
      | Str d \<Rightarrow> string_option_ok E d \<and> (\<forall>s. string_default d = Some s \<longrightarrow> string_valid d E s = None)
      | Sds d \<Rightarrow> string_option_ok E d \<and> (\<forall>s. string_default d = Some s \<longrightarrow> string_valid d E s = None)
      | Enumd d \<Rightarrow> enum_valid d E (enum_default d) = None
      | Numeric n \<Rightarrow> numeric_valid n = no_check
      | Special _ \<Rightarrow> True)"

lemma cstr_idem [simp]: "cstr (cstr a) = cstr a"
  by (simp add: cstr_def)

lemma cstr_bytes_of: "cstr (bytes_of n) = bytes_of n" if "CHR 0x00 \<notin> set n"
proof -
  have "(of_char c :: u8) \<noteq> 0" if "c \<in> set n" for c
  proof
    assume "(of_char c :: u8) = 0"
    moreover have "(0 :: u8) = of_char (CHR 0x00)" by simp
    ultimately have "(of_char c :: u8) = of_char (CHR 0x00)" by (rule trans)
    then have "c = CHR 0x00" by (simp only: of_char_eq_u8)
    then show False using that \<open>CHR 0x00 \<notin> set n\<close> by simp
  qed
  then show ?thesis by (intro cstr_plain) (auto simp: bytes_of_def)
qed

lemma cstr_Nil [simp]: "cstr [] = []"
  by (simp add: cstr_def)

lemmas config_macros =
  createBoolConfig_def createStringConfig_def createSDSConfig_def createEnumConfig_def embedCommonNumericalConfig_def
  createIntConfig_def createUIntConfig_def createULongConfig_def createLongLongConfig_def createULongLongConfig_def
  createSizeTConfig_def createSSizeTConfig_def createTimeTConfig_def createOffTConfig_def createSpecialConfig_def

lemmas validators =
  no_check_def isValidActiveDefrag_def isValidDBfilename_def isValidAOFfilename_def isValidAOFdirname_def
  isValidShutdownOnSigFlags_def isValidAnnouncedNodename_def isValidAnnouncedHostname_def isValidProcTitleTemplate_def

context config_lib
begin

lemma validators_ok:
  assumes "defaults_accepted E"
  shows "list_all (validator_ok E) static_configs"
proof -
  have d: "pathIsBaseName E (bytes_of ''dump.rdb'')" "pathIsBaseName E (bytes_of ''appendonly.aof'')"
      "pathIsBaseName E (bytes_of ''appendonlydir'')" "validateProcTitleTemplate E (bytes_of CONFIG_DEFAULT_PROC_TITLE_TEMPLATE)"
    using assms by (simp_all add: defaults_accepted_def)
  have c: "cstr (bytes_of ''dump.rdb'') = bytes_of ''dump.rdb''" "cstr (bytes_of ''appendonly.aof'') = bytes_of ''appendonly.aof''"
      "cstr (bytes_of ''appendonlydir'') = bytes_of ''appendonlydir''"
      "cstr (bytes_of CONFIG_DEFAULT_PROC_TITLE_TEMPLATE) = bytes_of CONFIG_DEFAULT_PROC_TITLE_TEMPLATE"
    by (rule cstr_bytes_of, simp add: CONFIG_DEFAULT_PROC_TITLE_TEMPLATE_def)+
  have ne: "bytes_of ''appendonly.aof'' \<noteq> []" "bytes_of ''appendonlydir'' \<noteq> []" by (simp_all add: bytes_of_def)
  note facts = validator_ok_def string_option_ok_def config_macros validators ALLOW_EMPTY_STRING_def EMPTY_STRING_IS_NULL_def
    aux_prefix aux_empty NET_HOST_STR_LEN_def
  have "list_all (validator_ok E) bool_configs" by (simp add: bool_configs_def facts)
  moreover have "list_all (validator_ok E) string_configs"
    by (simp add: string_configs_def facts c d ne)
  moreover have "list_all (validator_ok E) sds_configs" by (simp add: sds_configs_def facts)
  moreover have "list_all (validator_ok E) enum_configs" by (simp add: enum_configs_def facts)
  moreover have "list_all (validator_ok E) integer_configs" by (simp add: integer_configs_def validator_ok_def config_macros)
  moreover have "list_all (validator_ok E) unsigned_configs" by (simp add: unsigned_configs_def validator_ok_def config_macros)
  moreover have "list_all (validator_ok E) long_long_configs" by (simp add: long_long_configs_def validator_ok_def config_macros)
  moreover have "list_all (validator_ok E) size_configs" by (simp add: size_configs_def validator_ok_def config_macros)
  moreover have "list_all (validator_ok E) other_configs" by (simp add: other_configs_def validator_ok_def config_macros)
  moreover have "list_all (validator_ok E) tls_configs" by (simp add: tls_configs_def facts)
  moreover have "list_all (validator_ok E) special_configs" by (simp add: special_configs_def validator_ok_def config_macros)
  ultimately show ?thesis by (simp add: static_configs_def)
qed

lemma static_option_ok:
  assumes "defaults_accepted E" "c \<in> set static_configs" "cdata c \<noteq> Special OtherOption"
  shows "option_ok E c"
  using static_configs_checked validators_ok [OF assms(1)] assms(2,3)
  by (auto simp: list_all_iff option_check_def option_ok_def validator_ok_def split: typeData.splits)

lemma init_cell_ok:
  assumes "defaults_accepted E" "c \<in> set static_configs" "\<forall>sp. cdata c \<noteq> Special sp"
  shows "\<exists>x'. interface_init c x = Inr x' \<and> cell_ok E c x'"
proof -
  have k: "option_check c" "validator_ok E c" using static_configs_checked validators_ok [OF assms(1)] assms(2) by (auto simp: list_all_iff)
  show ?thesis
  proof (cases "cdata c")
    case (Numeric n)
    then have n: "numeric_option_ok n" "in_ll (numeric_default n)" "numericBoundaryCheck n (numeric_default n) = None"
        "numeric_valid n = no_check"
      using k by (simp_all add: option_check_def validator_ok_def)
    then show ?thesis using Numeric cast_fits [OF n(1,3,2)]
      by (simp add: interface_init_def numericConfigInit_def cell_ok_def no_check_def)
  qed (use k assms(3) in \<open>auto simp: option_check_def validator_ok_def interface_init_def cell_ok_def boolConfigInit_def
        stringConfigInit_def sdsConfigInit_def enumConfigInit_def default_string_ok_def split: option.splits\<close>)
qed

end

end
