(* ===== verification/Config_Set.thy ===== *)
theory Config_Set
  imports Config_Table
begin

section \<open>CONFIG SET and CONFIG GET\<close>

text \<open>
  The dictionary of options, its initialisation from the table, and the two commands. CONFIG SET is a
  transaction: it looks all the options up, backs up what GET prints for them, sets them one after the other, runs
  the apply functions of those that changed, and at the first error sets the backups again. The functions that
  apply a setting to the running server live in other files, but for \<open>updateHZ\<close>; they are the record \<open>apply_env\<close>.
\<close>

subsection \<open>The dictionary\<close>

type_synonym config_dict = "(string \<times> standardConfig) list"
type_synonym cells = "string \<Rightarrow> cell"

text \<open>The keys compare without regard to case (\<open>sdsHashDictType\<close>).\<close>

definition lookupConfig :: "config_dict \<Rightarrow> sds \<Rightarrow> standardConfig option" where
  "lookupConfig d name = map_option snd (find (\<lambda>(n, _). arg_is name n) d)"

text \<open>Adds a copy of an option, or its alias; \<open>False\<close> when the name is taken.\<close>

definition registerConfigValue :: "string \<Rightarrow> standardConfig \<Rightarrow> bool \<Rightarrow> config_dict \<Rightarrow> bool \<times> config_dict" where
  "registerConfigValue name c alias d =
     (let new = (if alias then c\<lparr>cflags := cflags c OR ALIAS_CONFIG, cname := the (calias c), calias := Some (cname c)\<rparr> else c) in
      if lookupConfig d (bytes_of name) \<noteq> None then (False, d) else (True, d @ [(name, new)]))"

fun init_configs :: "standardConfig list \<Rightarrow> config_dict \<Rightarrow> cells \<Rightarrow> (config_dict \<times> cells) cres" where
  "init_configs [] d s = Inr (d, s)"
| "init_configs (c # cs) d s =
     cbind (interface_init c (s (caddr c))) (\<lambda>x.
     let (ret, d1) = registerConfigValue (cname c) c False d in
     cbind (cassert ret) (\<lambda>_.
     case calias c of
       None \<Rightarrow> init_configs cs d1 (s(caddr c := x))
     | Some a \<Rightarrow>
         let (ret2, d2) = registerConfigValue a c True d1 in
         cbind (cassert ret2) (\<lambda>_. init_configs cs d2 (s(caddr c := x)))))"

definition initConfigValues :: "cells \<Rightarrow> (config_dict \<times> cells) cres" where
  "initConfigValues s = init_configs static_configs [] s"

definition removeConfig :: "sds \<Rightarrow> config_dict \<Rightarrow> config_dict" where
  "removeConfig name d = (case lookupConfig d name of None \<Rightarrow> d | Some c \<Rightarrow> filter (\<lambda>(n, _). \<not> arg_is name n) d)"

text \<open>The options of modules; their value is behind the callbacks of the module.\<close>

definition addModuleBoolConfig :: "string \<Rightarrow> string \<Rightarrow> int \<Rightarrow> int \<Rightarrow> config_dict \<Rightarrow> config_dict" where
  "addModuleBoolConfig mname name flags default_val d =
     (let n = mname @ ''.'' @ name in
      snd (registerConfigValue n (createBoolConfig n None (flags OR MODULE_CONFIG) n default_val no_check None) False d))"

definition addModuleStringConfig :: "string \<Rightarrow> string \<Rightarrow> int \<Rightarrow> sds option \<Rightarrow> config_dict \<Rightarrow> config_dict" where
  "addModuleStringConfig mname name flags default_val d =
     (let n = mname @ ''.'' @ name in
      snd (registerConfigValue n (createSDSConfig n None (flags OR MODULE_CONFIG) False n default_val no_check None) False d))"

definition addModuleEnumConfig :: "string \<Rightarrow> string \<Rightarrow> int \<Rightarrow> int \<Rightarrow> configEnum \<Rightarrow> config_dict \<Rightarrow> config_dict" where
  "addModuleEnumConfig mname name flags default_val enum_vals d =
     (let n = mname @ ''.'' @ name in
      snd (registerConfigValue n (createEnumConfig n None (flags OR MODULE_CONFIG) enum_vals n default_val no_check None) False d))"

definition addModuleNumericConfig :: "string \<Rightarrow> string \<Rightarrow> int \<Rightarrow> int \<Rightarrow> int \<Rightarrow> int \<Rightarrow> int \<Rightarrow> config_dict \<Rightarrow> config_dict" where
  "addModuleNumericConfig mname name flags default_val conf_flags lower upper d =
     (let n = mname @ ''.'' @ name in
      snd (registerConfigValue n
        (createLongLongConfig n None (flags OR MODULE_CONFIG) lower upper n default_val conf_flags no_check None) False d))"

subsection \<open>Setting and restoring\<close>

text \<open>
  The loop of CONFIG SET over the options found: the options set with the results, the option that failed with
  \<open>errstr\<close>, and the cells.
\<close>

fun set_all :: "('c \<Rightarrow> sds \<Rightarrow> 'v \<Rightarrow> nat \<times> 'e option \<times> 'v) \<Rightarrow> ('c \<Rightarrow> 'k) \<Rightarrow> ('c \<times> sds) list \<Rightarrow> 'e option \<Rightarrow> ('k \<Rightarrow> 'v) \<Rightarrow>
    ('c \<times> nat) list \<times> ('c \<times> 'e option) option \<times> ('k \<Rightarrow> 'v)" where
  "set_all cset addr [] err s = ([], None, s)"
| "set_all cset addr ((c, a) # ps) err s =
     (let (r, e, x) = cset c a (s (addr c)); err' = (case e of Some m \<Rightarrow> Some m | None \<Rightarrow> err); s' = s(addr c := x) in
      if r = 0 then ([], Some (c, err'), s')
      else let (done_set, failed, s2) = set_all cset addr ps err' s' in ((c, r) # done_set, failed, s2))"

fun restore_all :: "('c \<Rightarrow> sds \<Rightarrow> 'v \<Rightarrow> nat \<times> 'e option \<times> 'v) \<Rightarrow> ('c \<Rightarrow> 'k) \<Rightarrow> ('c \<times> sds) list \<Rightarrow> ('k \<Rightarrow> 'v) \<Rightarrow> ('k \<Rightarrow> 'v)" where
  "restore_all cset addr [] s = s"
| "restore_all cset addr ((c, old) # ps) s = restore_all cset addr ps (s(addr c := snd (snd (cset c old (s (addr c))))))"

subsection \<open>Applying\<close>

record apply_env =
  run_apply :: "string \<Rightarrow> cells \<Rightarrow> bool \<times> config_error option \<times> cells"
  apply_modules :: "standardConfig list \<Rightarrow> cells \<Rightarrow> bool \<times> config_error option \<times> string option \<times> cells"

definition updateHZ :: "cells \<Rightarrow> cells" where
  "updateHZ s =
     (let h = int_of (s ''config_hz''); h1 = (if h < CONFIG_MIN_HZ then CONFIG_MIN_HZ else h);
          h2 = (if CONFIG_MAX_HZ < h1 then CONFIG_MAX_HZ else h1)
      in s(''config_hz'' := IntCell h2, ''hz'' := IntCell h2))"

definition apply_config :: "apply_env \<Rightarrow> string \<Rightarrow> cells \<Rightarrow> bool \<times> config_error option \<times> cells" where
  "apply_config A f s = (if f = ''updateHZ'' then (True, None, updateHZ s) else run_apply A f s)"

text \<open>The apply functions of the options that changed, each once, with the option that asked for it first.\<close>

fun collect_applies :: "(standardConfig \<times> nat) list \<Rightarrow> (string \<times> standardConfig) list \<Rightarrow> (string \<times> standardConfig) list" where
  "collect_applies [] fs = fs"
| "collect_applies ((c, r) # cs) fs =
     (if r = 1 \<and> \<not> has_flag c MODULE_CONFIG
      then case capply c of
             Some f \<Rightarrow> if f \<in> fst ` set fs then collect_applies cs fs else collect_applies cs (fs @ [(f, c)])
           | None \<Rightarrow> collect_applies cs fs
      else collect_applies cs fs)"

definition collect_modules :: "(standardConfig \<times> nat) list \<Rightarrow> standardConfig list" where
  "collect_modules cs = map fst (filter (\<lambda>(c, r). r = 1 \<and> has_flag c MODULE_CONFIG) cs)"

fun run_applies :: "apply_env \<Rightarrow> (string \<times> standardConfig) list \<Rightarrow> config_error option \<Rightarrow> cells \<Rightarrow>
    (standardConfig \<times> config_error option) option \<times> cells" where
  "run_applies A [] err s = (None, s)"
| "run_applies A ((f, c) # fs) err s =
     (let (ok, e, s') = apply_config A f s; err' = (case e of Some m \<Rightarrow> Some m | None \<Rightarrow> err) in
      if ok then run_applies A fs err' s' else (Some (c, err'), s'))"

definition restoreBackupConfig :: "config_env \<Rightarrow> apply_env \<Rightarrow> (standardConfig \<times> sds) list \<Rightarrow> (string \<times> standardConfig) list \<Rightarrow>
    standardConfig list option \<Rightarrow> cells \<Rightarrow> cells" where
  "restoreBackupConfig E A old fs modules s =
     (let s1 = restore_all (performInterfaceSet E) caddr old s;
          s2 = fold (\<lambda>(f, _) t. snd (snd (apply_config A f t))) fs s1
      in case modules of None \<Rightarrow> s2 | Some ms \<Rightarrow> snd (snd (snd (apply_modules A ms s2))))"

subsection \<open>CONFIG SET\<close>

datatype config_reply =
    ConfigOk
  | ConfigSyntax
  | ConfigLoading
  | ConfigUnknown sds
  | ConfigFailed sds "config_error option"

record config_server =
  cfg_dict :: config_dict
  cfg_cells :: cells
  cfg_loading :: bool

text \<open>The search for the options: what it found, the first error, and the arguments to redact.\<close>

record find_state =
  found :: "(standardConfig \<times> sds) list"
  invalid_args :: bool
  invalid_arg_name :: "sds option"
  find_err :: "config_error option"
  err_arg_name :: "sds option"
  deny_loading_error :: bool
  redacted :: "nat list"

definition find_start :: find_state where
  "find_start = \<lparr>found = [], invalid_args = False, invalid_arg_name = None, find_err = None, err_arg_name = None,
                 deny_loading_error = False, redacted = []\<rparr>"

text \<open>\<open>conn_local\<close> is whether the connection of the client is local.\<close>

definition allowProtectedAction :: "int \<Rightarrow> bool \<Rightarrow> bool" where
  "allowProtectedAction config conn_local =
     (config = PROTECTED_ACTION_ALLOWED_YES \<or> config = PROTECTED_ACTION_ALLOWED_LOCAL \<and> conn_local)"

definition find_option :: "bool \<Rightarrow> config_server \<Rightarrow> nat \<Rightarrow> sds \<Rightarrow> sds \<Rightarrow> find_state \<Rightarrow> find_state" where
  "find_option conn_local s i name value st =
     (case lookupConfig (cfg_dict s) name of
        None \<Rightarrow> if \<not> invalid_args st then st\<lparr>invalid_arg_name := Some name, invalid_args := True\<rparr> else st
      | Some c \<Rightarrow>
          let st1 = (if has_flag c SENSITIVE_CONFIG then st\<lparr>redacted := redacted st @ [2 + i * 2 + 1]\<rparr> else st) in
          if invalid_args st1 then st1
          else if has_flag c IMMUTABLE_CONFIG
               \<or> has_flag c PROTECTED_CONFIG
                 \<and> \<not> allowProtectedAction (int_of (cfg_cells s ''enable_protected_configs'')) conn_local
          then st1\<lparr>find_err := Some (Msg (if has_flag c IMMUTABLE_CONFIG then ''can't set immutable config''
                                          else ''can't set protected config'')),
                   err_arg_name := Some name, invalid_args := True\<rparr>
          else if cfg_loading s \<and> has_flag c DENY_LOADING_CONFIG
          then st1\<lparr>deny_loading_error := True, invalid_args := True\<rparr>
          else let st2 = (if \<exists>(c', _) \<in> set (found st1). cname c' = cname c
                          then st1\<lparr>find_err := Some (Msg ''duplicate parameter''), err_arg_name := Some name, invalid_args := True\<rparr>
                          else st1)
               in st2\<lparr>found := found st2 @ [(c, value)]\<rparr>)"

fun find_options :: "bool \<Rightarrow> config_server \<Rightarrow> nat \<Rightarrow> sds list \<Rightarrow> find_state \<Rightarrow> find_state" where
  "find_options conn_local s i (name # value # argv) st =
     find_options conn_local s (Suc i) argv (find_option conn_local s i name value st)"
| "find_options conn_local s i _ st = st"

definition config_error_reply :: "find_state \<Rightarrow> config_error option \<Rightarrow> sds \<Rightarrow> config_reply" where
  "config_error_reply st err arg =
     (if deny_loading_error st then ConfigLoading
      else case invalid_arg_name st of Some n \<Rightarrow> ConfigUnknown n | None \<Rightarrow> ConfigFailed arg err)"

text \<open>From the backup to the reply, for the options found.\<close>

definition set_options :: "config_env \<Rightarrow> apply_env \<Rightarrow> (standardConfig \<times> sds) list \<Rightarrow> cells \<Rightarrow> config_reply \<times> cells" where
  "set_options E A ps s =
     (let old = map (\<lambda>(c, _). (c, interface_get E c (s (caddr c)))) ps;
          (done_set, failed, s1) = set_all (performInterfaceSet E) caddr ps None s in
      case failed of
        Some (c, err) \<Rightarrow>
          (ConfigFailed (bytes_of (cname c)) err, restoreBackupConfig E A (take (length done_set + 1) old) [] None s1)
      | None \<Rightarrow>
          let fs = collect_applies done_set []; ms = collect_modules done_set; (unapplied, s2) = run_applies A fs None s1 in
          case unapplied of
            Some (c, err) \<Rightarrow> (ConfigFailed (bytes_of (cname c)) err, restoreBackupConfig E A old fs None s2)
          | None \<Rightarrow>
              let (ok, err, arg, s3) = apply_modules A ms s2 in
              if \<not> ok
              then (ConfigFailed (case arg of Some a \<Rightarrow> bytes_of a | None \<Rightarrow> []) err, restoreBackupConfig E A old fs (Some ms) s3)
              else (ConfigOk, s3))"

text \<open>The arguments are those after CONFIG SET; \<open>argc & 1\<close> is the parity of their number.\<close>

definition configSetCommand :: "config_env \<Rightarrow> apply_env \<Rightarrow> bool \<Rightarrow> sds list \<Rightarrow> config_server \<Rightarrow>
    config_reply \<times> nat list \<times> config_server" where
  "configSetCommand E A conn_local argv s =
     (if odd (length argv) then (ConfigSyntax, [], s)
      else let st = find_options conn_local s 0 argv find_start in
           if invalid_args st
           then (config_error_reply st (find_err st) (case err_arg_name st of Some a \<Rightarrow> a | None \<Rightarrow> []), redacted st, s)
           else let (r, x) = set_options E A (found st) (cfg_cells s) in (r, redacted st, s\<lparr>cfg_cells := x\<rparr>))"

subsection \<open>CONFIG GET\<close>

text \<open>
  \<open>glob\<close> is \<open>stringmatch\<close> without regard to case. The matches keep the name they were asked for by, or their own
  for a pattern; \<open>externalStringType\<close> compares these names exactly. The order of the reply is that of a hash table.
\<close>

definition is_pattern :: "sds \<Rightarrow> bool" where
  "is_pattern name = (\<exists>c \<in> set (cstr name). c = 91 \<or> c = 42 \<or> c = 63)"

definition get_matches :: "(sds \<Rightarrow> sds \<Rightarrow> bool) \<Rightarrow> config_dict \<Rightarrow> sds \<Rightarrow> (sds \<times> standardConfig) list \<Rightarrow> (sds \<times> standardConfig) list" where
  "get_matches glob d name matches =
     (if \<not> is_pattern name
      then if name \<in> fst ` set matches then matches
           else case lookupConfig d name of Some c \<Rightarrow> matches @ [(name, c)] | None \<Rightarrow> matches
      else fold (\<lambda>(n, c) ms.
             if has_flag c HIDDEN_CONFIG \<or> bytes_of (cname c) \<in> fst ` set ms \<or> \<not> glob name (bytes_of n) then ms
             else ms @ [(bytes_of n, c)]) d matches)"

definition configGetCommand :: "config_env \<Rightarrow> (sds \<Rightarrow> sds \<Rightarrow> bool) \<Rightarrow> sds list \<Rightarrow> config_server \<Rightarrow> (sds \<times> sds) list" where
  "configGetCommand E glob names s =
     map (\<lambda>(n, c). (n, interface_get E c (cfg_cells s (caddr c)))) (fold (get_matches glob (cfg_dict s)) names [])"

end
