(* ===== verification/Config_Atomic.thy ===== *)
theory Config_Atomic
  imports Config_Set
begin

section \<open>CONFIG SET is a transaction\<close>

text \<open>
  The lemmas on setting and restoring are proved once for any interface of options, in its locale, and hold for
  the options of config.c through its interpretation. An apply function may adjust the option it belongs to;
  applied to settings that are in force already it changes no option.
\<close>

subsection \<open>Setting and restoring, for any interface\<close>

lemma set_all_frame:
  assumes "set_all cset addr ps err s = (done_set, failed, s')"
  shows "length done_set \<le> length ps \<and> (failed = None \<longrightarrow> length done_set = length ps)
      \<and> map fst done_set = map fst (take (length done_set) ps)
      \<and> (\<forall>k. k \<notin> addr ` fst ` set (take (length done_set + 1) ps) \<longrightarrow> s' k = s k)"
  using assms
proof (induction ps arbitrary: err s done_set failed s')
  case (Cons p ps)
  obtain c a where p: "p = (c, a)" by fastforce
  obtain r e x where x: "cset c a (s (addr c)) = (r, e, x)" by (metis prod_cases3)
  obtain ds fl s2 where r: "set_all cset addr ps (case e of Some m \<Rightarrow> Some m | None \<Rightarrow> err) (s(addr c := x)) = (ds, fl, s2)"
    by (metis prod_cases3)
  show ?case using Cons.IH [OF r] Cons.prems p x r by (auto simp: Let_def split: if_splits)
qed auto

text \<open>Options at the same address (an option and its alias) have the same type.\<close>

definition shares :: "('c \<Rightarrow> 'k) \<Rightarrow> ('c \<Rightarrow> bool) \<Rightarrow> ('c \<Rightarrow> 'v \<Rightarrow> bool) \<Rightarrow> 'c set \<Rightarrow> bool" where
  "shares addr wfc ok cs = (\<forall>c \<in> cs. \<forall>c' \<in> cs. addr c = addr c' \<longrightarrow> wfc c = wfc c' \<and> ok c = ok c')"

definition well_typed :: "('c \<Rightarrow> 'k) \<Rightarrow> ('c \<Rightarrow> bool) \<Rightarrow> ('c \<Rightarrow> 'v \<Rightarrow> bool) \<Rightarrow> 'c set \<Rightarrow> ('k \<Rightarrow> 'v) \<Rightarrow> bool" where
  "well_typed addr wfc ok cs s = (\<forall>c \<in> cs. wfc c \<longrightarrow> ok c (s (addr c)))"

definition backup :: "('c \<Rightarrow> 'v \<Rightarrow> sds) \<Rightarrow> ('c \<Rightarrow> 'k) \<Rightarrow> ('k \<Rightarrow> 'v) \<Rightarrow> ('c \<times> sds) list \<Rightarrow> ('c \<times> sds) list" where
  "backup cget addr s ps = map (\<lambda>(c, _). (c, cget c (s (addr c)))) ps"

lemma well_typed_upd:
  assumes "well_typed addr wfc ok cs s" "shares addr wfc ok cs" "c \<in> cs" "wfc c \<Longrightarrow> ok c x"
  shows "well_typed addr wfc ok cs (s(addr c := x))"
  unfolding well_typed_def
proof (intro ballI impI)
  fix c' assume c': "c' \<in> cs" "wfc c'"
  show "ok c' ((s(addr c := x)) (addr c'))"
  proof (cases "addr c' = addr c")
    case True
    then have "wfc c' = wfc c \<and> ok c' = ok c" using assms(2,3) c'(1) unfolding shares_def by blast
    then show ?thesis using True assms(4) c'(2) by simp
  next
    case False
    then show ?thesis using assms(1) c' by (simp add: well_typed_def)
  qed
qed

lemma backup_Nil [simp]: "backup cget addr s [] = []"
  and backup_Cons [simp]: "backup cget addr s ((c, a) # ps) = (c, cget c (s (addr c))) # backup cget addr s ps"
  by (simp_all add: backup_def)

context config_interface
begin

lemma set_all_typed:
  assumes "set_all cset addr ps err s = (done_set, failed, s')" "well_typed addr cwf cok cs s" "shares addr cwf cok cs"
    and "fst ` set ps \<subseteq> cs" "\<forall>(c, a) \<in> set ps. cwf c \<longrightarrow> cargs c a"
  shows "well_typed addr cwf cok cs s'"
  using assms
proof (induction ps arbitrary: err s done_set failed s')
  case (Cons p ps)
  obtain c a where p: "p = (c, a)" by fastforce
  obtain r e x where x: "cset c a (s (addr c)) = (r, e, x)" by (metis prod_cases3)
  obtain ds fl s2 where r: "set_all cset addr ps (case e of Some m \<Rightarrow> Some m | None \<Rightarrow> err) (s(addr c := x)) = (ds, fl, s2)"
    by (metis prod_cases3)
  have c: "c \<in> cs" "cwf c \<longrightarrow> cargs c a" using Cons.prems(4,5) p by auto
  have "cok c x" if "cwf c" using that kept [OF that _ _ x] c Cons.prems(2) by (auto simp: well_typed_def)
  from well_typed_upd [OF Cons.prems(2,3) c(1) this]
  have w: "well_typed addr cwf cok cs (s(addr c := x))" .
  then have "well_typed addr cwf cok cs s2" using Cons.IH [OF r w Cons.prems(3)] Cons.prems(4,5) by auto
  then show ?case using Cons.prems(1) p x r w by (auto simp: Let_def split: if_splits)
qed simp

lemma restore_all_correct:
  assumes "well_typed addr cwf cok cs t" "well_typed addr cwf cok cs s" "shares addr cwf cok cs" "fst ` set ps \<subseteq> cs"
    and "\<forall>c \<in> fst ` set ps. cwf c" "\<forall>k \<in> K. k \<notin> addr ` fst ` set ps \<longrightarrow> t k = s k"
  shows "\<forall>k \<in> K. restore_all cset addr (backup cget addr s ps) t k = s k"
  using assms
proof (induction ps arbitrary: t)
  case Nil
  then show ?case by (simp add: backup_def)
next
  case (Cons p ps)
  obtain c a where p: "p = (c, a)" by fastforce
  have c: "c \<in> cs" "cwf c" using Cons.prems(4,5) p by auto
  have ok: "cok c (s (addr c))" "cok c (t (addr c))" using c Cons.prems(1,2) by (auto simp: well_typed_def)
  have x: "snd (snd (cset c (cget c (s (addr c))) (t (addr c)))) = s (addr c)" using restored [OF c(2) ok] by simp
  have w: "well_typed addr cwf cok cs (t(addr c := s (addr c)))" by (rule well_typed_upd [OF Cons.prems(1,3) c(1) ok(1)])
  have k: "\<forall>k \<in> K. k \<notin> addr ` fst ` set ps \<longrightarrow> (t(addr c := s (addr c))) k = s k" using Cons.prems(6) p by auto
  have "\<forall>k \<in> K. restore_all cset addr (backup cget addr s ps) (t(addr c := s (addr c))) k = s k"
  proof (rule Cons.IH [OF w Cons.prems(2,3) _ _ k])
    show "fst ` set ps \<subseteq> cs" "\<forall>c \<in> fst ` set ps. cwf c" using Cons.prems(4,5) by auto
  qed
  then show ?case unfolding p backup_Cons restore_all.simps x .
qed

lemma restore_all_typed:
  assumes "well_typed addr cwf cok cs t" "well_typed addr cwf cok cs s" "shares addr cwf cok cs" "fst ` set ps \<subseteq> cs"
  shows "well_typed addr cwf cok cs (restore_all cset addr (backup cget addr s ps) t)"
  using assms
proof (induction ps arbitrary: t)
  case (Cons p ps)
  obtain c a where p: "p = (c, a)" by fastforce
  let ?x = "snd (snd (cset c (cget c (s (addr c))) (t (addr c))))"
  have c: "c \<in> cs" using Cons.prems(4) p by auto
  have "cok c ?x" if "cwf c" using restored [OF that] that c Cons.prems(1,2) by (auto simp: well_typed_def)
  then have "well_typed addr cwf cok cs (t(addr c := ?x))" by (rule well_typed_upd [OF Cons.prems(1,3) c])
  moreover have "fst ` set ps \<subseteq> cs" using Cons.prems(4) by auto
  ultimately show ?case unfolding p backup_Cons restore_all.simps by (intro Cons.IH Cons.prems(2,3))
qed simp

end

end
