(* ===== verification/Spec2Isabelle.thy ===== *)
theory Spec2Isabelle
  imports C_Prelude C_Double Redis_Types Lru_Clock Hlru Hlru_Score Evict_Pool Max_Memory Strings
    Objects Keyspace Evict_Loop Evict_Cycle Evict_Choice C_String Get_Keys Native_Keys Key_Positions
    Rdb_Format Rdb_Strings Rdb_Keys Rdb_Loading Rdb_Snapshot Key_Commands Key_Effects Key_Moves Key_Rename Rdb_Background Rdb_Persist Rdb_Steps
    Config_Values Config_Types Config_Laws Config_Table Config_Set Config_Atomic
begin

text \<open>
  A verification library for the key eviction of this Redis fork.
\<close>

end
